(* ===== verification/Zeep_Prelude.thy ===== *)
theory Zeep_Prelude
  imports Main "HOL-Library.Word"
begin

text \<open>
  Shared vocabulary of the development.

  \<^item> \<open>js_error\<close>: what a \<open>throw\<close> of the TypeScript sources carries, a constructor per error
    class and the message text.
  \<^item> \<open>res_bind\<close>: sequencing of fallible computations of type \<open>js_error + 'a\<close>.
  \<^item> \<open>ceil_div\<close>: \<open>Math.ceil(a / b)\<close> on the non-negative integers the sources use it on.
  \<^item> generic facts on lists, sums and maps that several components share.

  The collections \<open>bit_model\<close> (how reads and writes act on bit lists) and \<open>inv_step\<close> (one
  lemma per operation: it keeps its component's invariant) are filled by the components.
\<close>

named_theorems bit_model
named_theorems inv_step

type_synonym byte = "8 word"
type_synonym u16 = "16 word"
type_synonym u32 = "32 word"
type_synonym u64 = "64 word"

section \<open>Errors as values\<close>

datatype js_error = Error string | TypeError string | RangeError string

fun res_bind :: "'e + 'a \<Rightarrow> ('a \<Rightarrow> 'e + 'b) \<Rightarrow> 'e + 'b" where
  "res_bind (Inl e) f = Inl e"
| "res_bind (Inr x) f = f x"

fun res_map :: "('a \<Rightarrow> 'b) \<Rightarrow> 'e + 'a \<Rightarrow> 'e + 'b" where
  "res_map f (Inl e) = Inl e"
| "res_map f (Inr x) = Inr (f x)"

lemma res_bind_Inr_iff: "res_bind m f = Inr y \<longleftrightarrow> (\<exists>x. m = Inr x \<and> f x = Inr y)"
  by (cases m) auto

lemma res_map_Inr_iff: "res_map f m = Inr y \<longleftrightarrow> (\<exists>x. m = Inr x \<and> y = f x)"
  by (cases m) auto

text \<open>A number in a message template.\<close>

fun show_nat :: "nat \<Rightarrow> string" where
  "show_nat n = (if n < 10 then [char_of (48 + n)] else show_nat (n div 10) @ [char_of (48 + n mod 10)])"

declare show_nat.simps [simp del]

section \<open>Rounding up\<close>

definition ceil_div :: "nat \<Rightarrow> nat \<Rightarrow> nat" where
  "ceil_div a b = (a + (b - 1)) div b"

lemma ceil_div_0 [simp]: "ceil_div 0 b = 0"
  by (cases b) (simp_all add: ceil_div_def)

lemma ceil_div_mult: "0 < b \<Longrightarrow> ceil_div (a * b) b = a"
  unfolding ceil_div_def by (subst div_mult_self3) simp_all

lemma ceil_div_le_iff:
  assumes "0 < b"
  shows "ceil_div a b \<le> n \<longleftrightarrow> a \<le> n * b"
proof -
  have "ceil_div a b \<le> n \<longleftrightarrow> (a + (b - 1)) div b < Suc n"
    by (simp add: ceil_div_def less_Suc_eq_le)
  also have "\<dots> \<longleftrightarrow> a + (b - 1) < Suc n * b"
    using assms by (simp add: div_less_iff_less_mult)
  also have "\<dots> \<longleftrightarrow> a \<le> n * b"
    using assms by (simp add: add.commute) linarith
  finally show ?thesis .
qed

lemma less_ceil_div_iff: "0 < b \<Longrightarrow> n < ceil_div a b \<longleftrightarrow> n * b < a"
  using ceil_div_le_iff [of b a n] by linarith

lemma ceil_div_upper: "0 < b \<Longrightarrow> a \<le> ceil_div a b * b"
  using ceil_div_le_iff [of b a "ceil_div a b"] by simp

lemma ceil_div_lower:
  assumes "0 < b"
  shows "ceil_div a b * b < a + b"
proof -
  have "ceil_div a b * b \<le> a + (b - 1)"
    unfolding ceil_div_def by (rule div_times_less_eq_dividend)
  with assms show ?thesis by linarith
qed

lemma ceil_div_mono: "a \<le> a' \<Longrightarrow> ceil_div a b \<le> ceil_div a' b"
  by (simp add: ceil_div_def div_le_mono)

lemma ceil_div_8_pos: "0 < n \<Longrightarrow> 0 < ceil_div n 8"
  by (simp add: less_ceil_div_iff)

section \<open>Lists\<close>

lemma take_append_exact: "length xs = n \<Longrightarrow> take n (xs @ ys) = xs"
  by simp

lemma drop_append_exact: "length xs = n \<Longrightarrow> drop n (xs @ ys) = ys"
  by simp

lemma concat_map_length: "(\<And>x. x \<in> set xs \<Longrightarrow> length (f x) = k) \<Longrightarrow> length (concat (map f xs)) = k * length xs"
  by (induction xs) auto

text \<open>Indexing a concatenation of blocks that all have length \<open>k\<close>.\<close>

lemma nth_concat_blocks:
  assumes "\<And>x. x \<in> set xs \<Longrightarrow> length (f x) = k" and "i < k * length xs"
  shows "concat (map f xs) ! i = f (xs ! (i div k)) ! (i mod k)"
  using assms
proof (induction xs arbitrary: i)
  case Nil
  then show ?case by simp
next
  case (Cons x xs)
  show ?case
  proof (cases "i < k")
    case True
    with Cons.prems(1) show ?thesis by (simp add: nth_append)
  next
    case False
    then obtain j where j: "i = k + j"
      using le_iff_add by (metis leI)
    have k: "0 < k"
      using Cons.prems(2) by (cases k) auto
    have "j < k * length xs"
      using Cons.prems(2) j by simp
    then have "concat (map f xs) ! j = f (xs ! (j div k)) ! (j mod k)"
      by (intro Cons.IH) (auto intro: Cons.prems(1))
    moreover have "concat (map f (x # xs)) ! i = concat (map f xs) ! j"
      using Cons.prems(1) j by (simp add: nth_append)
    moreover have "i div k = Suc (j div k)" "i mod k = j mod k"
      using j k by (simp_all add: div_add_self1)
    ultimately show ?thesis
      by simp
  qed
qed

lemma map_guard [simp]: "map (\<lambda>i. i < n \<and> P i) [0..<n] = map P [0..<n]"
  by simp

lemma map_upt_shift: "map (\<lambda>i. f (i + k)) [0..<n] = map f [k..<k + n]"
  by (rule nth_equalityI) (simp_all add: add.commute)

end
