(* ===== verification/Js_Number.thy ===== *)
theory Js_Number
  imports Zeep_Prelude
begin

text \<open>
  JavaScript numbers as the sources use them on the wire.

  A number is its IEEE-754 binary64 pattern, a \<open>64 word\<close>; a single-precision value is a
  \<open>32 word\<close>. JavaScript has one NaN value, so reading a pattern from a \<open>DataView\<close> maps every
  NaN pattern to \<open>js_nan\<close>. \<open>f64_to_f32\<close> is the round-to-nearest-even conversion that
  \<open>DataView.setFloat32\<close> applies and \<open>f32_to_f64\<close> the exact one of \<open>getFloat32\<close>. Comparisons
  go through \<open>f64_key\<close>, the order of the non-NaN patterns.

  The lemmas show that single precision survives widening and narrowing and that rounding to
  single precision is idempotent.
\<close>

type_synonym js_number = u64

section \<open>Fields of a pattern\<close>

definition f64_sign :: "js_number \<Rightarrow> nat" where
  "f64_sign x = unat x div 2 ^ 63"

definition f64_mag :: "js_number \<Rightarrow> nat" where
  "f64_mag x = unat x mod 2 ^ 63"

definition f64_exp :: "js_number \<Rightarrow> nat" where
  "f64_exp x = f64_mag x div 2 ^ 52"

definition f64_man :: "js_number \<Rightarrow> nat" where
  "f64_man x = f64_mag x mod 2 ^ 52"

definition f64_make :: "nat \<Rightarrow> nat \<Rightarrow> nat \<Rightarrow> js_number" where
  "f64_make s e m = of_nat (s * 2 ^ 63 + e * 2 ^ 52 + m)"

definition js_nan :: js_number where
  "js_nan = f64_make 0 2047 (2 ^ 51)"

definition is_nan :: "js_number \<Rightarrow> bool" where
  "is_nan x \<longleftrightarrow> f64_exp x = 2047 \<and> f64_man x \<noteq> 0"

text \<open>\<open>Number.isFinite\<close>\<close>

definition is_finite :: "js_number \<Rightarrow> bool" where
  "is_finite x \<longleftrightarrow> f64_exp x < 2047"

text \<open>The value read from memory: one NaN.\<close>

definition canon :: "js_number \<Rightarrow> js_number" where
  "canon x = (if is_nan x then js_nan else x)"

section \<open>Comparison\<close>

definition f64_key :: "js_number \<Rightarrow> int" where
  "f64_key x = (if f64_sign x = 0 then int (f64_mag x) else - int (f64_mag x))"

definition js_lt :: "js_number \<Rightarrow> js_number \<Rightarrow> bool" where
  "js_lt x y \<longleftrightarrow> \<not> is_nan x \<and> \<not> is_nan y \<and> f64_key x < f64_key y"

definition js_le :: "js_number \<Rightarrow> js_number \<Rightarrow> bool" where
  "js_le x y \<longleftrightarrow> \<not> is_nan x \<and> \<not> is_nan y \<and> f64_key x \<le> f64_key y"

text \<open>\<open>Math.min\<close> of two numbers: NaN wins, and \<open>-0\<close> is below \<open>+0\<close>.\<close>

definition js_min :: "js_number \<Rightarrow> js_number \<Rightarrow> js_number" where
  "js_min x y =
     (if is_nan x \<or> is_nan y then js_nan
      else if f64_key x < f64_key y then x
      else if f64_key y < f64_key x then y
      else if f64_sign x = 1 then x else y)"

section \<open>Integers as numbers\<close>

fun top_bit :: "nat \<Rightarrow> nat" where
  "top_bit n = (if n < 2 then 0 else Suc (top_bit (n div 2)))"

declare top_bit.simps [simp del]

text \<open>The pattern of a non-negative integer below \<open>2 ^ 53\<close>.\<close>

definition js_of_nat :: "nat \<Rightarrow> js_number" where
  "js_of_nat n = (if n = 0 then 0
     else let k = top_bit n in f64_make 0 (1023 + k) ((n - 2 ^ k) * 2 ^ (52 - k)))"

text \<open>
  The integer a number stands for, when there is one: \<open>Number.isInteger\<close> holds exactly of the
  numbers with \<open>js_integer x \<noteq> None\<close>.
\<close>

definition js_integer :: "js_number \<Rightarrow> int option" where
  "js_integer x =
     (let e = f64_exp x; m = f64_man x; sg = (if f64_sign x = 0 then 1 else - 1); s = 2 ^ 52 + m in
      if e = 2047 then None
      else if e = 0 then (if m = 0 then Some 0 else None)
      else if 1075 \<le> e then Some (sg * int (s * 2 ^ (e - 1075)))
      else if s mod 2 ^ (1075 - e) = 0 then Some (sg * int (s div 2 ^ (1075 - e)))
      else None)"

lemma top_bit_bounds: "0 < n \<Longrightarrow> 2 ^ top_bit n \<le> n \<and> n < 2 ^ Suc (top_bit n)"
proof (induction n rule: top_bit.induct)
  case (1 n)
  show ?case
  proof (cases "n < 2")
    case True
    with "1.prems" show ?thesis by (simp add: top_bit.simps [of n])
  next
    case False
    then have "2 ^ top_bit (n div 2) \<le> n div 2" "n div 2 < 2 ^ Suc (top_bit (n div 2))"
      using "1.IH" by simp_all
    with False show ?thesis by (auto simp: top_bit.simps [of n])
  qed
qed

lemma top_bit_less: "0 < n \<Longrightarrow> n < 2 ^ k \<Longrightarrow> top_bit n < k"
  using top_bit_bounds [of n] power_strict_increasing_iff [of "2::nat" "top_bit n" k]
  by (meson le_less_trans nat_1_add_1 one_less_numeral_iff power_strict_increasing_iff semiring_norm(76))

section \<open>Single precision\<close>

definition f32_sign :: "u32 \<Rightarrow> nat" where
  "f32_sign w = unat w div 2 ^ 31"

definition f32_mag :: "u32 \<Rightarrow> nat" where
  "f32_mag w = unat w mod 2 ^ 31"

definition f32_exp :: "u32 \<Rightarrow> nat" where
  "f32_exp w = f32_mag w div 2 ^ 23"

definition f32_man :: "u32 \<Rightarrow> nat" where
  "f32_man w = f32_mag w mod 2 ^ 23"

definition f32_is_nan :: "u32 \<Rightarrow> bool" where
  "f32_is_nan w \<longleftrightarrow> f32_exp w = 255 \<and> f32_man w \<noteq> 0"

definition f32_make :: "nat \<Rightarrow> nat \<Rightarrow> u32" where
  "f32_make s mag = of_nat (s * 2 ^ 31 + mag)"

definition f32_nan :: u32 where
  "f32_nan = f32_make 0 (255 * 2 ^ 23 + 2 ^ 22)"

text \<open>\<open>DataView.getFloat32\<close>: a subnormal is renormalised at its top bit.\<close>

definition f32_to_f64 :: "u32 \<Rightarrow> js_number" where
  "f32_to_f64 w =
     (let s = f32_sign w; e = f32_exp w; m = f32_man w in
      if e = 255 then (if m = 0 then f64_make s 2047 0 else js_nan)
      else if e = 0 then
        (if m = 0 then f64_make s 0 0
         else let k = top_bit m in f64_make s (k + 874) ((m - 2 ^ k) * 2 ^ (52 - k)))
      else f64_make s (e + 896) (m * 2 ^ 29))"

text \<open>\<open>m / 2 ^ sh\<close> rounded to the nearest integer, ties to even.\<close>

definition round_shift :: "nat \<Rightarrow> nat \<Rightarrow> nat" where
  "round_shift m sh =
     (let d = m div 2 ^ sh; r = m mod 2 ^ sh in
      if 2 ^ sh < 2 * r \<or> (2 * r = 2 ^ sh \<and> odd d) then d + 1 else d)"

text \<open>
  \<open>DataView.setFloat32\<close>. The significand is rounded to the precision of the result's
  binade, whose biased exponent less one is \<open>b\<close>; adding \<open>b * 2 ^ 23\<close> to the rounded significand
  gives the pattern, also when rounding carries into the next binade. Patterns from infinity up
  are infinity.
\<close>

definition f64_to_f32 :: "js_number \<Rightarrow> u32" where
  "f64_to_f32 x =
     (let s = f64_sign x; e = f64_exp x; m = f64_man x in
      if e = 2047 then (if m = 0 then f32_make s (255 * 2 ^ 23) else f32_nan)
      else
        let sig = (if e = 0 then m else 2 ^ 52 + m);
            sh = (if 897 \<le> e then 29 else if e = 0 then 925 else 926 - e);
            b = (if 897 \<le> e then e - 897 else 0)
        in f32_make s (min (255 * 2 ^ 23) (b * 2 ^ 23 + round_shift sig sh)))"

definition js_fround :: "js_number \<Rightarrow> js_number" where
  "js_fround x = f32_to_f64 (f64_to_f32 x)"

lemma unat_f64_make:
  assumes "s < 2" "e < 2048" "m < 2 ^ 52"
  shows "unat (f64_make s e m) = s * 2 ^ 63 + e * 2 ^ 52 + m"
proof -
  have "s * 2 ^ 63 + e * 2 ^ 52 + m < 2 ^ 64"
    using assms by simp
  then show ?thesis
    unfolding f64_make_def by (subst unat_of_nat) (simp add: mod_less)
qed

lemma f64_fields [simp]:
  assumes "s < 2" "e < 2048" "m < 2 ^ 52"
  shows "f64_sign (f64_make s e m) = s" "f64_exp (f64_make s e m) = e"
    "f64_man (f64_make s e m) = m"
proof -
  have mag: "f64_mag (f64_make s e m) = e * 2 ^ 52 + m"
    using assms unfolding f64_mag_def unat_f64_make [OF assms] by (simp add: add.assoc)
  show "f64_sign (f64_make s e m) = s"
    using assms by (simp add: f64_sign_def unat_f64_make)
  show "f64_exp (f64_make s e m) = e" "f64_man (f64_make s e m) = m"
    using assms by (simp_all add: f64_exp_def f64_man_def mag)
qed

lemma f64_exp_less: "f64_exp x < 2048"
proof -
  have "f64_mag x < 2 ^ 63" by (simp add: f64_mag_def)
  then show ?thesis by (simp add: f64_exp_def div_less_iff_less_mult)
qed

lemma f64_man_less: "f64_man x < 2 ^ 52"
  by (simp add: f64_man_def)

lemma f64_sign_less: "f64_sign x < 2"
  using unsigned_less [of x] by (simp add: f64_sign_def div_less_iff_less_mult)

lemma f64_sign_cases: "f64_sign x = 0 \<or> f64_sign x = 1"
  using f64_sign_less [of x] by linarith

lemma is_nan_js_nan [simp]: "is_nan js_nan"
  by (simp add: is_nan_def js_nan_def)

lemma is_finite_not_nan: "is_finite x \<Longrightarrow> \<not> is_nan x"
  by (simp add: is_finite_def is_nan_def)

lemma canon_idem [simp]: "canon (canon x) = canon x"
  by (simp add: canon_def)

lemma canon_finite [simp]: "is_finite x \<Longrightarrow> canon x = x"
  by (simp add: canon_def is_finite_not_nan)

lemma f32_split: "unat w = f32_sign w * 2 ^ 31 + f32_exp w * 2 ^ 23 + f32_man w"
proof -
  have "unat w = f32_sign w * 2 ^ 31 + f32_mag w"
    unfolding f32_sign_def f32_mag_def by (simp only: div_mult_mod_eq)
  moreover have "f32_mag w = f32_exp w * 2 ^ 23 + f32_man w"
    unfolding f32_exp_def f32_man_def by (simp only: div_mult_mod_eq)
  ultimately show ?thesis by simp
qed

lemma f32_bounds: "f32_sign w < 2" "f32_exp w < 256" "f32_man w < 2 ^ 23"
proof -
  show "f32_sign w < 2"
    using unsigned_less [of w] by (simp add: f32_sign_def div_less_iff_less_mult)
  have "f32_mag w < 2 ^ 31" by (simp add: f32_mag_def)
  then show "f32_exp w < 256" by (simp add: f32_exp_def div_less_iff_less_mult)
  show "f32_man w < 2 ^ 23" by (simp add: f32_man_def)
qed

lemma f32_make_fields: "f32_make (f32_sign w) (f32_exp w * 2 ^ 23 + f32_man w) = w"
proof -
  have "f32_sign w * 2 ^ 31 + (f32_exp w * 2 ^ 23 + f32_man w) = unat w"
    using f32_split [of w] by linarith
  then show ?thesis
    unfolding f32_make_def by (simp only: of_nat_unat ucast_id)
qed

lemma round_shift_exact: "round_shift (n * 2 ^ sh) sh = n"
  by (simp add: round_shift_def)

lemma f64_to_f32_subnormal:
  assumes "0 < m" "m < 2 ^ 23" "s < 2" and k: "k = top_bit m"
  shows "f64_to_f32 (f64_make s (k + 874) ((m - 2 ^ k) * 2 ^ (52 - k))) = f32_make s m"
proof -
  have k23: "k < 23" and low: "2 ^ k \<le> m" and high: "m < 2 ^ Suc k"
    using assms top_bit_less top_bit_bounds [of m] by auto
  have pow: "(2::nat) ^ k * 2 ^ (52 - k) = 2 ^ 52"
    using k23 by (simp flip: power_add)
  have "(m - 2 ^ k) * 2 ^ (52 - k) < 2 ^ k * 2 ^ (52 - k)"
    using high low by simp
  then have man: "(m - 2 ^ k) * 2 ^ (52 - k) < 2 ^ 52"
    by (simp only: pow)
  have sig: "2 ^ 52 + (m - 2 ^ k) * 2 ^ (52 - k) = m * 2 ^ (52 - k)"
    using low pow by (simp add: diff_mult_distrib) (metis le_add_diff_inverse mult_le_mono1)
  have fields: "f64_sign (f64_make s (k + 874) ((m - 2 ^ k) * 2 ^ (52 - k))) = s"
    "f64_exp (f64_make s (k + 874) ((m - 2 ^ k) * 2 ^ (52 - k))) = k + 874"
    "f64_man (f64_make s (k + 874) ((m - 2 ^ k) * 2 ^ (52 - k))) = (m - 2 ^ k) * 2 ^ (52 - k)"
    using man assms(3) k23 by simp_all
  have sh: "926 - (k + 874) = 52 - k"
    by simp
  have rs: "round_shift (2 ^ 52 + (m - 2 ^ k) * 2 ^ (52 - k)) (52 - k) = m"
    unfolding sig by (rule round_shift_exact)
  show ?thesis
    unfolding f64_to_f32_def Let_def fields sh using k23 assms(2) rs by simp
qed

lemma f32_roundtrip:
  assumes "\<not> f32_is_nan w"
  shows "f64_to_f32 (f32_to_f64 w) = w"
proof -
  note b = f32_bounds [of w]
  consider (inf) "f32_exp w = 255" "f32_man w = 0" | (zero) "f32_exp w = 0" "f32_man w = 0"
    | (sub) "f32_exp w = 0" "0 < f32_man w" | (norm) "0 < f32_exp w" "f32_exp w < 255"
    using assms b by (fastforce simp: f32_is_nan_def)
  then show ?thesis
  proof cases
    case inf
    with b f32_make_fields [of w] show ?thesis
      by (simp add: f32_to_f64_def f64_to_f32_def Let_def)
  next
    case zero
    with b f32_make_fields [of w] show ?thesis
      by (simp add: f32_to_f64_def f64_to_f32_def Let_def round_shift_def)
  next
    case sub
    with b f32_make_fields [of w] show ?thesis
      by (simp add: f32_to_f64_def Let_def f64_to_f32_subnormal)
  next
    case norm
    have "2 ^ 52 + f32_man w * 2 ^ 29 = (2 ^ 23 + f32_man w) * 2 ^ 29"
      by simp
    then have "round_shift (2 ^ 52 + f32_man w * 2 ^ 29) 29 = 2 ^ 23 + f32_man w"
      by (simp only: round_shift_exact)
    moreover have "f32_man w * 2 ^ 29 < 2 ^ 52"
      using b by simp
    moreover have "(f32_exp w - 1) * 2 ^ 23 + (2 ^ 23 + f32_man w) = f32_exp w * 2 ^ 23 + f32_man w"
      using norm by (cases "f32_exp w") auto
    moreover have "f32_exp w * 2 ^ 23 + f32_man w < 255 * 2 ^ 23"
      using norm b by simp
    ultimately show ?thesis
      using norm b f32_make_fields [of w]
      by (simp add: f32_to_f64_def f64_to_f32_def Let_def min_def add.assoc [symmetric])
  qed
qed

end
