(* ===== verification/Js_String.thy ===== *)
theory Js_String
  imports Zeep_Prelude
begin

text \<open>
  JavaScript strings and their UTF-8 coding.

  A string is its list of UTF-16 code units. \<open>text_encode\<close> is \<open>TextEncoder.encode\<close>: surrogate
  pairs are joined, a lone surrogate becomes U+FFFD. \<open>text_decode\<close> is
  \<open>new TextDecoder('utf-8', { fatal: true }).decode\<close>: overlong forms, surrogates, values above
  U+10FFFF and truncated sequences throw, and one leading byte order mark is dropped, as the
  decoder does unless \<open>ignoreBOM\<close> is set.

  The main lemma, \<open>text_roundtrip\<close>, says what decoding returns for an encoded string: the string
  itself when it is well formed, without a leading U+FEFF.
\<close>

type_synonym jstring = "u16 list"

text \<open>An ASCII literal of the sources.\<close>

definition lit :: "string \<Rightarrow> jstring" where
  "lit s = map (\<lambda>c. of_nat (of_char c)) s"

section \<open>Code units and scalar values\<close>

definition is_high :: "u16 \<Rightarrow> bool" where
  "is_high u \<longleftrightarrow> 55296 \<le> unat u \<and> unat u < 56320"

definition is_low :: "u16 \<Rightarrow> bool" where
  "is_low u \<longleftrightarrow> 56320 \<le> unat u \<and> unat u < 57344"

definition join_pair :: "u16 \<Rightarrow> u16 \<Rightarrow> nat" where
  "join_pair u v = 65536 + (unat u - 55296) * 1024 + (unat v - 56320)"

fun scalars :: "jstring \<Rightarrow> nat list" where
  "scalars [] = []"
| "scalars (u # us) =
     (if is_high u then
        (case us of
           [] \<Rightarrow> [65533]
         | v # vs \<Rightarrow> if is_low v then join_pair u v # scalars vs else 65533 # scalars us)
      else if is_low u then 65533 # scalars us
      else unat u # scalars us)"

definition units :: "nat \<Rightarrow> jstring" where
  "units c =
     (if c < 65536 then [of_nat c]
      else [of_nat (55296 + (c - 65536) div 1024), of_nat (56320 + (c - 65536) mod 1024)])"

text \<open>\<open>String.prototype.isWellFormed\<close>: no lone surrogate.\<close>

fun well_formed :: "jstring \<Rightarrow> bool" where
  "well_formed [] = True"
| "well_formed (u # us) =
     (if is_high u then (case us of [] \<Rightarrow> False | v # vs \<Rightarrow> is_low v \<and> well_formed vs)
      else \<not> is_low u \<and> well_formed us)"

definition valid_scalar :: "nat \<Rightarrow> bool" where
  "valid_scalar c \<longleftrightarrow> c < 55296 \<or> (57344 \<le> c \<and> c < 1114112)"

lemma unat_u16 [simp]: "n < 65536 \<Longrightarrow> unat (of_nat n :: u16) = n"
  by (simp add: unat_of_nat)

lemma unat_byte [simp]: "n < 256 \<Longrightarrow> unat (of_nat n :: byte) = n"
  by (simp add: unat_of_nat)

lemma unat_u16_less: "unat (u :: u16) < 65536"
  using unsigned_less [of u] by simp

lemma scalars_plain: "\<not> is_high u \<Longrightarrow> \<not> is_low u \<Longrightarrow> scalars (u # us) = unat u # scalars us"
  by simp

lemma scalars_low: "is_low u \<Longrightarrow> scalars (u # us) = 65533 # scalars us"
  by (simp add: is_high_def is_low_def)

lemma scalars_pair: "is_high u \<Longrightarrow> is_low v \<Longrightarrow> scalars (u # v # vs) = join_pair u v # scalars vs"
  by simp

lemma scalars_high: "is_high u \<Longrightarrow> \<not> is_low v \<Longrightarrow> scalars (u # v # vs) = 65533 # scalars (v # vs)"
  by simp

lemma scalars_last: "is_high u \<Longrightarrow> scalars [u] = [65533]"
  by simp

lemmas scalars_cases = scalars_plain scalars_low scalars_pair scalars_high scalars_last

declare scalars.simps(2) [simp del]

text \<open>Induction along the branches of \<open>scalars\<close>.\<close>

lemma jstring_induct [case_names Nil plain low pair high last]:
  assumes "P []"
    and "\<And>u us. \<not> is_high u \<Longrightarrow> \<not> is_low u \<Longrightarrow> P us \<Longrightarrow> P (u # us)"
    and "\<And>u us. is_low u \<Longrightarrow> P us \<Longrightarrow> P (u # us)"
    and "\<And>u v vs. is_high u \<Longrightarrow> is_low v \<Longrightarrow> P vs \<Longrightarrow> P (u # v # vs)"
    and "\<And>u v vs. is_high u \<Longrightarrow> \<not> is_low v \<Longrightarrow> P (v # vs) \<Longrightarrow> P (u # v # vs)"
    and "\<And>u. is_high u \<Longrightarrow> P [u]"
  shows "P s"
proof (induction s rule: length_induct)
  case (1 s)
  show ?case
  proof (cases s)
    case Nil
    with assms(1) show ?thesis by simp
  next
    case (Cons u us)
    show ?thesis
    proof (cases "is_high u")
      case False
      with "1" Cons assms(2,3) show ?thesis by (cases "is_low u") simp_all
    next
      case True
      show ?thesis
      proof (cases us)
        case Nil
        with Cons True assms(6) show ?thesis by simp
      next
        case us: (Cons v vs)
        with "1" Cons True assms(4,5) show ?thesis by (cases "is_low v") simp_all
      qed
    qed
  qed
qed

lemma valid_scalar_plain: "\<not> is_high u \<Longrightarrow> \<not> is_low u \<Longrightarrow> valid_scalar (unat u)"
  using unat_u16_less [of u] unfolding valid_scalar_def is_low_def is_high_def by linarith

lemma pair_offsets:
  assumes "is_high u" "is_low v"
  shows "unat u - 55296 < 1024" "unat v - 56320 < 1024"
    "55296 + (unat u - 55296) = unat u" "56320 + (unat v - 56320) = unat v"
  using assms unfolding is_high_def is_low_def by linarith+

lemma valid_scalar_join: "is_high u \<Longrightarrow> is_low v \<Longrightarrow> valid_scalar (join_pair u v)"
  using pair_offsets(1,2) [of u v] unfolding join_pair_def valid_scalar_def by linarith

lemma scalars_valid: "c \<in> set (scalars s) \<Longrightarrow> valid_scalar c"
  by (induction s rule: jstring_induct)
    (auto simp: scalars_cases valid_scalar_plain valid_scalar_join, simp_all add: valid_scalar_def)

lemma units_plain: "\<not> is_high u \<Longrightarrow> \<not> is_low u \<Longrightarrow> units (unat u) = [u]"
  using unat_u16_less [of u] by (simp add: units_def)

lemma units_join:
  assumes "is_high u" "is_low v"
  shows "units (join_pair u v) = [u, v]"
proof -
  note off = pair_offsets [OF assms]
  have j: "\<not> join_pair u v < 65536" "join_pair u v - 65536 = (unat u - 55296) * 1024 + (unat v - 56320)"
    by (simp_all add: join_pair_def)
  have d: "(join_pair u v - 65536) div 1024 = unat u - 55296"
    "(join_pair u v - 65536) mod 1024 = unat v - 56320"
    unfolding j(2) using off(1,2) by simp_all
  show ?thesis
    unfolding units_def d off(3,4) using j(1) by simp
qed

lemma units_scalars: "well_formed s \<Longrightarrow> concat (map units (scalars s)) = s"
proof (induction s rule: jstring_induct)
  case (low u us)
  then show ?case by (simp add: is_high_def is_low_def)
qed (simp_all add: scalars_cases units_plain units_join)

section \<open>UTF-8\<close>

definition utf8_scalar :: "nat \<Rightarrow> byte list" where
  "utf8_scalar c =
     (if c < 128 then [of_nat c]
      else if c < 2048 then [of_nat (192 + c div 64), of_nat (128 + c mod 64)]
      else if c < 65536 then
        [of_nat (224 + c div 4096), of_nat (128 + c div 64 mod 64), of_nat (128 + c mod 64)]
      else [of_nat (240 + c div 262144), of_nat (128 + c div 4096 mod 64),
            of_nat (128 + c div 64 mod 64), of_nat (128 + c mod 64)])"

definition utf8_encode :: "nat list \<Rightarrow> byte list" where
  "utf8_encode cs = concat (map utf8_scalar cs)"

definition cont :: "byte \<Rightarrow> bool" where
  "cont b \<longleftrightarrow> 128 \<le> unat b \<and> unat b \<le> 191"

text \<open>The value the continuation byte \<open>b\<close> adds to the value \<open>n\<close> of the bytes before it.\<close>

definition low6 :: "nat \<Rightarrow> byte \<Rightarrow> nat" where
  "low6 n b = n * 64 + (unat b - 128)"

fun utf8_decode :: "byte list \<Rightarrow> nat list option" where
  "utf8_decode [] = Some []"
| "utf8_decode (b # bs) =
     (if unat b < 128 then map_option ((#) (unat b)) (utf8_decode bs)
      else if 194 \<le> unat b \<and> unat b \<le> 223 then
        (case bs of
           b1 # r \<Rightarrow> if cont b1 then map_option ((#) (low6 (unat b - 192) b1)) (utf8_decode r) else None
         | _ \<Rightarrow> None)
      else if 224 \<le> unat b \<and> unat b \<le> 239 then
        (case bs of
           b1 # b2 # r \<Rightarrow>
             if cont b1 \<and> (unat b = 224 \<longrightarrow> 160 \<le> unat b1) \<and> (unat b = 237 \<longrightarrow> unat b1 \<le> 159) \<and> cont b2
             then map_option ((#) (low6 (low6 (unat b - 224) b1) b2)) (utf8_decode r)
             else None
         | _ \<Rightarrow> None)
      else if 240 \<le> unat b \<and> unat b \<le> 244 then
        (case bs of
           b1 # b2 # b3 # r \<Rightarrow>
             if cont b1 \<and> (unat b = 240 \<longrightarrow> 144 \<le> unat b1) \<and> (unat b = 244 \<longrightarrow> unat b1 \<le> 143) \<and> cont b2
                \<and> cont b3
             then map_option ((#) (low6 (low6 (low6 (unat b - 240) b1) b2) b3)) (utf8_decode r)
             else None
         | _ \<Rightarrow> None)
      else None)"

text \<open>The bytes of a scalar value, by length, with their values.\<close>

lemma utf8_scalar1: "c < 128 \<Longrightarrow> utf8_scalar c = [of_nat c]"
  by (simp add: utf8_scalar_def)

lemma utf8_scalar2:
  assumes "128 \<le> c" "c < 2048"
  obtains b b1 where "utf8_scalar c = [b, b1]" "unat b = 192 + c div 64" "unat b1 = 128 + c mod 64"
proof
  show "utf8_scalar c = [of_nat (192 + c div 64), of_nat (128 + c mod 64)]"
    using assms by (simp add: utf8_scalar_def)
  show "unat (of_nat (192 + c div 64) :: byte) = 192 + c div 64"
    "unat (of_nat (128 + c mod 64) :: byte) = 128 + c mod 64"
    using assms by (intro unat_byte; simp)+
qed

lemma utf8_scalar3:
  assumes "2048 \<le> c" "c < 65536"
  obtains b b1 b2 where "utf8_scalar c = [b, b1, b2]" "unat b = 224 + c div 4096"
    "unat b1 = 128 + c div 64 mod 64" "unat b2 = 128 + c mod 64"
proof
  show "utf8_scalar c = [of_nat (224 + c div 4096), of_nat (128 + c div 64 mod 64), of_nat (128 + c mod 64)]"
    using assms by (simp add: utf8_scalar_def)
  show "unat (of_nat (224 + c div 4096) :: byte) = 224 + c div 4096"
    "unat (of_nat (128 + c div 64 mod 64) :: byte) = 128 + c div 64 mod 64"
    "unat (of_nat (128 + c mod 64) :: byte) = 128 + c mod 64"
    using assms by (intro unat_byte; simp)+
qed

lemma utf8_scalar4:
  assumes "65536 \<le> c" "c < 1114112"
  obtains b b1 b2 b3 where "utf8_scalar c = [b, b1, b2, b3]" "unat b = 240 + c div 262144"
    "unat b1 = 128 + c div 4096 mod 64" "unat b2 = 128 + c div 64 mod 64" "unat b3 = 128 + c mod 64"
proof
  show "utf8_scalar c = [of_nat (240 + c div 262144), of_nat (128 + c div 4096 mod 64),
      of_nat (128 + c div 64 mod 64), of_nat (128 + c mod 64)]"
    using assms by (simp add: utf8_scalar_def)
  show "unat (of_nat (240 + c div 262144) :: byte) = 240 + c div 262144"
    "unat (of_nat (128 + c div 4096 mod 64) :: byte) = 128 + c div 4096 mod 64"
    "unat (of_nat (128 + c div 64 mod 64) :: byte) = 128 + c div 64 mod 64"
    "unat (of_nat (128 + c mod 64) :: byte) = 128 + c mod 64"
    using assms by (intro unat_byte; simp)+
qed

lemma cont_val: "unat b = 128 + n mod 64 \<Longrightarrow> cont b"
  using mod_less_divisor [of 64 n] unfolding cont_def by linarith

lemma low6_val: "unat b = 128 + n \<Longrightarrow> low6 m b = m * 64 + n"
  by (simp add: low6_def)

lemma utf8_decode2:
  "194 \<le> unat b \<Longrightarrow> unat b \<le> 223 \<Longrightarrow> cont b1 \<Longrightarrow> low6 (unat b - 192) b1 = c \<Longrightarrow>
   utf8_decode (b # b1 # r) = map_option ((#) c) (utf8_decode r)"
  by simp

lemma utf8_decode3:
  "224 \<le> unat b \<Longrightarrow> unat b \<le> 239 \<Longrightarrow> cont b1 \<Longrightarrow> (unat b = 224 \<Longrightarrow> 160 \<le> unat b1) \<Longrightarrow>
   (unat b = 237 \<Longrightarrow> unat b1 \<le> 159) \<Longrightarrow> cont b2 \<Longrightarrow> low6 (low6 (unat b - 224) b1) b2 = c \<Longrightarrow>
   utf8_decode (b # b1 # b2 # r) = map_option ((#) c) (utf8_decode r)"
  by simp

lemma utf8_decode4:
  "240 \<le> unat b \<Longrightarrow> unat b \<le> 244 \<Longrightarrow> cont b1 \<Longrightarrow> (unat b = 240 \<Longrightarrow> 144 \<le> unat b1) \<Longrightarrow>
   (unat b = 244 \<Longrightarrow> unat b1 \<le> 143) \<Longrightarrow> cont b2 \<Longrightarrow> cont b3 \<Longrightarrow>
   low6 (low6 (low6 (unat b - 240) b1) b2) b3 = c \<Longrightarrow>
   utf8_decode (b # b1 # b2 # b3 # r) = map_option ((#) c) (utf8_decode r)"
  by simp

text \<open>A scalar value from its groups of six bits.\<close>

lemma split3: "((c::nat) div 4096 * 64 + c div 64 mod 64) * 64 + c mod 64 = c"
proof -
  have "c div 4096 = c div 64 div 64"
    by (simp add: div_mult2_eq [symmetric])
  then show ?thesis
    by (simp only: div_mult_mod_eq)
qed

lemma split4: "(((c::nat) div 262144 * 64 + c div 4096 mod 64) * 64 + c div 64 mod 64) * 64 + c mod 64 = c"
proof -
  have "c div 262144 = c div 4096 div 64" "c div 4096 = c div 64 div 64"
    by (simp_all add: div_mult2_eq [symmetric])
  then show ?thesis
    by (simp only: div_mult_mod_eq)
qed

lemma div_bounds: "0 < k \<Longrightarrow> a * k \<le> (c::nat) \<Longrightarrow> c < b * k \<Longrightarrow> a \<le> c div k \<and> c div k < b"
  by (simp add: less_eq_div_iff_mult_less_eq div_less_iff_less_mult)

lemma mod_offset: "a * k \<le> (n::nat) \<Longrightarrow> n < a * k + k \<Longrightarrow> n mod k = n - a * k"
  by (metis add_less_cancel_left le_add_diff_inverse mod_less mod_mult_self3)

lemma utf8_decode_scalar:
  assumes "valid_scalar c"
  shows "utf8_decode (utf8_scalar c @ bs) = map_option ((#) c) (utf8_decode bs)"
proof -
  consider "c < 128" | "128 \<le> c" "c < 2048" | "2048 \<le> c" "c < 65536" | "65536 \<le> c" "c < 1114112"
    using assms by (fastforce simp: valid_scalar_def)
  then show ?thesis
  proof cases
    case 1
    then show ?thesis by (simp add: utf8_scalar1)
  next
    case 2
    then obtain b b1 where b: "utf8_scalar c = [b, b1]" "unat b = 192 + c div 64" "unat b1 = 128 + c mod 64"
      by (rule utf8_scalar2)
    have d: "2 \<le> c div 64 \<and> c div 64 < 32"
      using "2" by (intro div_bounds) simp_all
    have "utf8_decode (b # b1 # bs) = map_option ((#) c) (utf8_decode bs)"
      using d b cont_val [OF b(3)] by (intro utf8_decode2) (simp_all add: low6_val [OF b(3)])
    with b show ?thesis by simp
  next
    case 3
    then obtain b b1 b2 where b: "utf8_scalar c = [b, b1, b2]" "unat b = 224 + c div 4096"
        "unat b1 = 128 + c div 64 mod 64" "unat b2 = 128 + c mod 64"
      by (rule utf8_scalar3)
    have d: "0 \<le> c div 4096 \<and> c div 4096 < 16"
      using "3" by (intro div_bounds) simp_all
    have "utf8_decode (b # b1 # b2 # bs) = map_option ((#) c) (utf8_decode bs)"
    proof (rule utf8_decode3)
      show "low6 (low6 (unat b - 224) b1) b2 = c"
        using split3 [of c] by (simp add: low6_val [OF b(3)] low6_val [OF b(4)] b(2))
      assume "unat b = 224"
      then have "c div 4096 = 0" using b(2) by simp
      then have "c < 4096" by simp
      then have "32 \<le> c div 64 \<and> c div 64 < 64"
        using "3" by (intro div_bounds) simp_all
      then show "160 \<le> unat b1" using b(3) by simp
    next
      assume "unat b = 237"
      then have "c div 4096 = 13" using b(2) by simp
      then have "53248 \<le> c" "c < 55296"
        using "3" assms unfolding valid_scalar_def by linarith+
      then have "832 \<le> c div 64 \<and> c div 64 < 864"
        by (intro div_bounds) simp_all
      then have "c div 64 mod 64 = c div 64 - 832"
        using mod_offset [of 13 64] by simp
      with \<open>832 \<le> c div 64 \<and> c div 64 < 864\<close> show "unat b1 \<le> 159" using b(3) by linarith
    qed (use b d cont_val [OF b(3)] cont_val [OF b(4)] in simp_all)
    with b show ?thesis by simp
  next
    case 4
    then obtain b b1 b2 b3 where b: "utf8_scalar c = [b, b1, b2, b3]" "unat b = 240 + c div 262144"
        "unat b1 = 128 + c div 4096 mod 64" "unat b2 = 128 + c div 64 mod 64" "unat b3 = 128 + c mod 64"
      by (rule utf8_scalar4)
    have d: "0 \<le> c div 262144 \<and> c div 262144 < 5"
      using "4" by (intro div_bounds) simp_all
    have "utf8_decode (b # b1 # b2 # b3 # bs) = map_option ((#) c) (utf8_decode bs)"
    proof (rule utf8_decode4)
      show "low6 (low6 (low6 (unat b - 240) b1) b2) b3 = c"
        using split4 [of c] by (simp add: low6_val [OF b(3)] low6_val [OF b(4)] low6_val [OF b(5)] b(2))
      assume "unat b = 240"
      then have "c div 262144 = 0" using b(2) by simp
      then have "c < 262144" by simp
      then have "16 \<le> c div 4096 \<and> c div 4096 < 64"
        using "4" by (intro div_bounds) simp_all
      then show "144 \<le> unat b1" using b(3) by simp
    next
      assume "unat b = 244"
      then have "c div 262144 = 4" using b(2) by simp
      then have "1048576 \<le> c" by linarith
      then have "256 \<le> c div 4096 \<and> c div 4096 < 272"
        using "4" by (intro div_bounds) simp_all
      then have "c div 4096 mod 64 = c div 4096 - 256"
        using mod_offset [of 4 64] by simp
      with \<open>256 \<le> c div 4096 \<and> c div 4096 < 272\<close> show "unat b1 \<le> 143" using b(3) by linarith
    qed (use b d cont_val [OF b(3)] cont_val [OF b(4)] cont_val [OF b(5)] in simp_all)
    with b show ?thesis by simp
  qed
qed

lemma utf8_decode_encode:
  "(\<And>c. c \<in> set cs \<Longrightarrow> valid_scalar c) \<Longrightarrow> utf8_decode (utf8_encode cs) = Some cs"
  by (induction cs) (simp_all add: utf8_encode_def utf8_decode_scalar)

lemma utf8_scalar_length: "1 \<le> length (utf8_scalar c) \<and> length (utf8_scalar c) \<le> 4"
  by (simp add: utf8_scalar_def)

section \<open>The encoder and the decoder\<close>

definition text_encode :: "jstring \<Rightarrow> byte list" where
  "text_encode s = utf8_encode (scalars s)"

fun strip_bom :: "byte list \<Rightarrow> byte list" where
  "strip_bom (a # b # c # r) =
     (if unat a = 239 \<and> unat b = 187 \<and> unat c = 191 then r else a # b # c # r)"
| "strip_bom bs = bs"

definition text_decode :: "byte list \<Rightarrow> js_error + jstring" where
  "text_decode bs =
     (case utf8_decode (strip_bom bs) of
        None \<Rightarrow> Inl (TypeError ''The encoded data was not valid.'')
      | Some cs \<Rightarrow> Inr (concat (map units cs)))"

definition drop_bom :: "jstring \<Rightarrow> jstring" where
  "drop_bom s = (case s of u # us \<Rightarrow> if unat u = 65279 then us else s | [] \<Rightarrow> [])"

lemma utf8_scalar_bom: "utf8_scalar 65279 = [239, 187, 191]"
  by (simp add: utf8_scalar_def)

lemma strip_bom_keep:
  "\<not> (\<exists>x y z r. bs = x # y # z # r \<and> unat x = 239 \<and> unat y = 187 \<and> unat z = 191) \<Longrightarrow> strip_bom bs = bs"
  by (cases bs rule: strip_bom.cases) auto

lemma strip_bom_other:
  assumes "valid_scalar c" "c \<noteq> 65279"
  shows "strip_bom (utf8_scalar c @ bs) = utf8_scalar c @ bs"
proof (rule strip_bom_keep, rule notI, elim exE conjE)
  fix x y z r
  assume r: "utf8_scalar c @ bs = x # y # z # r" and v: "unat x = 239" "unat y = 187" "unat z = 191"
  consider "c < 128" | "128 \<le> c" "c < 2048" | "2048 \<le> c" "c < 65536" | "65536 \<le> c" "c < 1114112"
    using assms by (fastforce simp: valid_scalar_def)
  then show False
  proof cases
    case 1
    with r v show False by (auto simp: utf8_scalar1)
  next
    case 2
    then have "2 \<le> c div 64 \<and> c div 64 < 32"
      by (intro div_bounds) simp_all
    moreover from "2" have "unat x = 192 + c div 64"
      using r by (rule_tac utf8_scalar2) auto
    ultimately show False using v by linarith
  next
    case 3
    then obtain b b1 b2 where b: "utf8_scalar c = [b, b1, b2]" "unat b = 224 + c div 4096"
        "unat b1 = 128 + c div 64 mod 64" "unat b2 = 128 + c mod 64"
      by (rule utf8_scalar3)
    with r v have "c div 4096 = 15" "c div 64 mod 64 = 59" "c mod 64 = 63"
      by auto
    with split3 [of c] assms(2) show False by simp
  next
    case 4
    then have "unat x = 240 + c div 262144"
      using r by (rule_tac utf8_scalar4) auto
    with v show False by linarith
  qed
qed

lemma scalars_cons_bom: "unat u = 65279 \<Longrightarrow> scalars (u # us) = 65279 # scalars us"
  by (rule scalars_plain [THEN trans]) (simp_all add: is_high_def is_low_def)

lemma well_formed_drop_bom: "well_formed s \<Longrightarrow> well_formed (drop_bom s)"
  by (cases s) (auto simp: drop_bom_def is_high_def split: if_splits)

lemma scalars_hd_other:
  assumes "well_formed (u # us)" "unat u \<noteq> 65279"
  obtains c cs where "scalars (u # us) = c # cs" "c \<noteq> 65279"
proof (cases "is_high u")
  case True
  with assms obtain v vs where us: "us = v # vs" "is_low v"
    by (auto split: list.splits)
  have "join_pair u v \<noteq> 65279"
    by (simp add: join_pair_def)
  with True us that show ?thesis
    by (simp add: scalars_pair)
next
  case False
  with assms that show ?thesis
    by (simp add: scalars_plain)
qed

text \<open>Dropping the byte order mark of the encoding drops the leading U+FEFF of the string.\<close>

lemma strip_bom_text_encode:
  assumes "well_formed s"
  shows "strip_bom (text_encode s) = text_encode (drop_bom s)"
proof (cases s)
  case Nil
  then show ?thesis by (simp add: text_encode_def utf8_encode_def drop_bom_def)
next
  case (Cons u us)
  show ?thesis
  proof (cases "unat u = 65279")
    case True
    with Cons show ?thesis
      by (simp add: text_encode_def utf8_encode_def drop_bom_def scalars_cons_bom utf8_scalar_bom
          del: scalars.simps)
  next
    case False
    from Cons assms False obtain c cs where c: "scalars s = c # cs" "c \<noteq> 65279"
      by (metis scalars_hd_other)
    then have "valid_scalar c"
      using scalars_valid [of c s] by simp
    with c False Cons show ?thesis
      by (simp add: text_encode_def utf8_encode_def drop_bom_def strip_bom_other del: scalars.simps)
  qed
qed

lemma text_roundtrip:
  assumes "well_formed s"
  shows "text_decode (text_encode s) = Inr (drop_bom s)"
proof -
  have "utf8_decode (text_encode (drop_bom s)) = Some (scalars (drop_bom s))"
    unfolding text_encode_def using scalars_valid by (rule utf8_decode_encode)
  then show ?thesis
    using units_scalars [OF well_formed_drop_bom [OF assms]]
    by (simp add: text_decode_def strip_bom_text_encode [OF assms])
qed

lemma text_encode_Nil [simp]: "text_encode [] = []"
  by (simp add: text_encode_def utf8_encode_def)

lemma text_encode_empty_iff: "text_encode s = [] \<longleftrightarrow> s = []"
proof (cases s)
  case (Cons u us)
  have "scalars (u # us) \<noteq> []"
    by (simp add: scalars.simps split: list.splits)
  then obtain c cs where "scalars s = c # cs"
    unfolding Cons by (cases "scalars (u # us)") simp_all
  with utf8_scalar_length [of c] show ?thesis
    by (auto simp: text_encode_def utf8_encode_def Cons)
qed simp

end
