(* ===== verification/Bit_Reader.thy ===== *)
theory Bit_Reader
  imports Js_Number Js_String
begin

unbundle bit_operations_syntax

text \<open>
  \<open>BitReader\<close> of \<open>packages/core/src/zeepnet/binary.ts\<close>: a cursor over a byte array, least
  significant bit of a byte first.

  A read is a function of type \<open>'a rd\<close>, from the reader to an error or a value and the reader
  after it. \<open>rd_bind\<close>, \<open>rd_return\<close> and \<open>rd_throw\<close> sequence reads as the statements of the
  source do; a thrown error ends the computation and with it the reader, which no caller keeps.

  The abstract view of a reader is \<open>rest\<close>, the bits not yet read. \<open>parses p xs a\<close> says that \<open>p\<close>
  reads the bits \<open>xs\<close> as the value \<open>a\<close> and stops right after them, and \<open>bounded_rd p\<close> that
  \<open>p\<close> only moves forward and never past the end.
\<close>

record bit_reader =
  rdata :: "byte list"
  rpos :: nat

type_synonym 'a rd = "bit_reader \<Rightarrow> js_error + ('a \<times> bit_reader)"

section \<open>Sequencing\<close>

definition rd_return :: "'a \<Rightarrow> 'a rd" where
  "rd_return a = (\<lambda>r. Inr (a, r))"

definition rd_throw :: "js_error \<Rightarrow> 'a rd" where
  "rd_throw e = (\<lambda>r. Inl e)"

definition rd_bind :: "'a rd \<Rightarrow> ('a \<Rightarrow> 'b rd) \<Rightarrow> 'b rd" where
  "rd_bind p f = (\<lambda>r. case p r of Inl e \<Rightarrow> Inl e | Inr (a, r') \<Rightarrow> f a r')"

definition rd_map :: "('a \<Rightarrow> 'b) \<Rightarrow> 'a rd \<Rightarrow> 'b rd" where
  "rd_map f p = rd_bind p (\<lambda>a. rd_return (f a))"

definition rd_lift :: "js_error + 'a \<Rightarrow> 'a rd" where
  "rd_lift m = (\<lambda>r. case m of Inl e \<Rightarrow> Inl e | Inr a \<Rightarrow> Inr (a, r))"

text \<open>\<open>for (let index = 0; index < n; index++) xs.push(read())\<close>\<close>

fun read_times :: "nat \<Rightarrow> 'a rd \<Rightarrow> 'a list rd" where
  "read_times 0 p = rd_return []"
| "read_times (Suc n) p = rd_bind p (\<lambda>x. rd_bind (read_times n p) (\<lambda>xs. rd_return (x # xs)))"

lemma rd_return_apply [simp]: "rd_return a r = Inr (a, r)"
  by (simp add: rd_return_def)

lemma rd_throw_apply [simp]: "rd_throw e r = Inl e"
  by (simp add: rd_throw_def)

section \<open>The reader\<close>

definition new_reader :: "byte list \<Rightarrow> bit_reader" where
  "new_reader data = \<lparr>rdata = data, rpos = 0\<rparr>"

definition remaining_bits :: "bit_reader \<Rightarrow> nat" where
  "remaining_bits r = length (rdata r) * 8 - rpos r"

text \<open>
  \<open>position >>> 3\<close>: the operator takes its operand modulo \<open>2 ^ 32\<close>, so a position of more than 512 MiB
  wraps to the start of the data. A reader of fewer bytes is \<open>addressable\<close>.
\<close>

definition byte_index :: "nat \<Rightarrow> nat" where
  "byte_index pos = pos mod 2 ^ 32 div 8"

definition addressable :: "bit_reader \<Rightarrow> bool" where
  "addressable r \<longleftrightarrow> 8 * length (rdata r) \<le> 2 ^ 32"

lemma byte_index_small: "pos < 2 ^ 32 \<Longrightarrow> byte_index pos = pos div 8"
  by (simp add: byte_index_def)

text \<open>The loop of \<open>readBits\<close>, from bit \<open>i\<close> on, \<open>n\<close> bits to go.\<close>

fun gather_bits :: "byte list \<Rightarrow> nat \<Rightarrow> nat \<Rightarrow> nat \<Rightarrow> u32 \<Rightarrow> js_error + u32" where
  "gather_bits d pos i 0 v = Inr v"
| "gather_bits d pos i (Suc n) v =
     (let sourcePosition = pos + i in
      if byte_index sourcePosition < length d
      then gather_bits d pos (Suc i) n
        (v OR push_bit i (ucast (drop_bit (sourcePosition mod 8) (d ! byte_index sourcePosition)) AND 1))
      else Inl (Error ''Packet ended before requested bits''))"

definition read_bits :: "nat \<Rightarrow> u32 rd" where
  "read_bits count = (\<lambda>r.
     if count < 1 \<or> 32 < count \<or> remaining_bits r < count
     then Inl (Error ''Packet ended before requested bits'')
     else res_map (\<lambda>v. (v, r\<lparr>rpos := rpos r + count\<rparr>)) (gather_bits (rdata r) (rpos r) 0 count 0))"

definition read_boolean :: "bool rd" where
  "read_boolean = rd_map (\<lambda>v. v = 1) (read_bits 1)"

definition read_byte :: "u32 rd" where
  "read_byte = read_bits 8"

definition read_uint16 :: "u32 rd" where
  "read_uint16 = read_bits 16"

definition read_int32 :: "int rd" where
  "read_int32 = rd_map sint (read_bits 32)"

definition read_uint32 :: "u32 rd" where
  "read_uint32 = read_bits 32"

text \<open>The 64 iterations of \<open>readUInt64\<close>, on a \<open>bigint\<close>.\<close>

fun gather_bigint :: "nat \<Rightarrow> nat \<Rightarrow> int \<Rightarrow> int rd" where
  "gather_bigint i 0 v = rd_return v"
| "gather_bigint i (Suc n) v =
     rd_bind (read_bits 1) (\<lambda>b. gather_bigint (Suc i) n (v OR push_bit i (uint b)))"

definition read_uint64 :: "int rd" where
  "read_uint64 = gather_bigint 0 64 0"

definition read_int64 :: "int rd" where
  "read_int64 = rd_map (\<lambda>v. if 9223372036854775808 \<le> v then v - 18446744073709551616 else v) read_uint64"

text \<open>The little-endian value of a byte sequence, as a \<open>DataView\<close> reads it.\<close>

definition le_nat :: "byte list \<Rightarrow> nat" where
  "le_nat bs = horner_sum unat 256 bs"

definition read_float32 :: "js_number rd" where
  "read_float32 = (\<lambda>r.
     if rpos r mod 8 = 0 \<and> 32 \<le> remaining_bits r
     then Inr (f32_to_f64 (of_nat (le_nat (take 4 (drop (byte_index (rpos r)) (rdata r))))),
               r\<lparr>rpos := rpos r + 32\<rparr>)
     else rd_map (\<lambda>bs. f32_to_f64 (of_nat (le_nat (map ucast bs)))) (read_times 4 read_byte) r)"

definition read_float64 :: "js_number rd" where
  "read_float64 = (\<lambda>r.
     if rpos r mod 8 = 0 \<and> 64 \<le> remaining_bits r
     then Inr (canon (of_nat (le_nat (take 8 (drop (byte_index (rpos r)) (rdata r))))),
               r\<lparr>rpos := rpos r + 64\<rparr>)
     else rd_map (\<lambda>bs. canon (of_nat (le_nat (map ucast bs)))) (read_times 8 read_byte) r)"

text \<open>The loop of \<open>readVariableUInt32\<close>: \<open>n\<close> bytes may still follow, the next one has the given index.\<close>

fun read_var_loop :: "nat \<Rightarrow> nat \<Rightarrow> u32 \<Rightarrow> u32 rd" where
  "read_var_loop 0 index v = rd_throw (Error ''Variable UInt32 exceeds five bytes'')"
| "read_var_loop (Suc n) index v =
     rd_bind read_byte (\<lambda>byte.
       if index = 4 \<and> byte AND 0xF0 \<noteq> 0 then rd_throw (Error ''Variable UInt32 exceeds 32 bits'')
       else
         let v' = v OR push_bit (index * 7) (byte AND 0x7F) in
         if byte AND 0x80 = 0 then rd_return v' else read_var_loop n (Suc index) v')"

definition read_variable_uint32 :: "u32 rd" where
  "read_variable_uint32 = read_var_loop 5 0 0"

definition read_bytes :: "nat \<Rightarrow> byte list rd" where
  "read_bytes n = (\<lambda>r.
     if remaining_bits r < n * 8 then Inl (Error ''Packet ended before requested bytes'')
     else if rpos r mod 8 = 0
     then Inr (take n (drop (byte_index (rpos r)) (rdata r)), r\<lparr>rpos := rpos r + n * 8\<rparr>)
     else rd_map (map ucast) (read_times n read_byte) r)"

definition read_string :: "nat \<Rightarrow> jstring rd" where
  "read_string maxBytes =
     rd_bind read_variable_uint32 (\<lambda>byteLength.
       if maxBytes < unat byteLength
       then rd_throw (Error (''String exceeds '' @ show_nat maxBytes @ '' bytes''))
       else rd_bind (read_bytes (unat byteLength)) (\<lambda>bs. rd_lift (text_decode bs)))"

section \<open>Bits of a byte sequence\<close>

definition byte_bits :: "byte \<Rightarrow> bool list" where
  "byte_bits b = map (bit b) [0..<8]"

definition bits_of :: "byte list \<Rightarrow> bool list" where
  "bits_of bs = concat (map byte_bits bs)"

definition rest :: "bit_reader \<Rightarrow> bool list" where
  "rest r = drop (rpos r) (bits_of (rdata r))"

definition adv :: "nat \<Rightarrow> bit_reader \<Rightarrow> bit_reader" where
  "adv n r = r\<lparr>rpos := rpos r + n\<rparr>"

lemma length_byte_bits [simp]: "length (byte_bits b) = 8"
  by (simp add: byte_bits_def)

lemma bits_of_simps [simp]:
  "bits_of [] = []" "bits_of (b # bs) = byte_bits b @ bits_of bs"
  "bits_of (xs @ ys) = bits_of xs @ bits_of ys"
  by (simp_all add: bits_of_def)

lemma length_bits_of [simp]: "length (bits_of bs) = 8 * length bs"
  by (induction bs) simp_all

lemma nth_bits_of: "i < 8 * length bs \<Longrightarrow> bits_of bs ! i \<longleftrightarrow> bit (bs ! (i div 8)) (i mod 8)"
  unfolding bits_of_def by (subst nth_concat_blocks [where k = 8]) (simp_all add: byte_bits_def)

lemma drop_bits_of: "drop (8 * n) (bits_of bs) = bits_of (drop n bs)"
proof (induction n arbitrary: bs)
  case (Suc n)
  then show ?case by (cases bs) (simp_all add: drop_append)
qed simp

lemma take_bits_of: "take (8 * n) (bits_of bs) = bits_of (take n bs)"
proof (induction n arbitrary: bs)
  case (Suc n)
  then show ?case by (cases bs) (simp_all add: take_append)
qed simp

lemma bits_of_inject: "length xs = length ys \<Longrightarrow> bits_of xs = bits_of ys \<Longrightarrow> xs = ys"
proof (induction xs ys rule: list_induct2)
  case (Cons x xs y ys)
  then have "byte_bits x = byte_bits y" "xs = ys"
    by (simp_all add: append_eq_append_conv)
  moreover from this have "x = y"
    by (intro bit_word_eqI) (simp add: byte_bits_def)
  ultimately show ?case by simp
qed simp

lemma horner_byte_bits: "horner_sum of_bool 2 (byte_bits b) = unat b"
proof -
  have "byte_bits b = map (bit (unat b)) [0..<8]"
    by (simp add: byte_bits_def bit_unsigned_iff)
  then have "horner_sum of_bool 2 (byte_bits b) = take_bit 8 (unat b)"
    by (simp only: horner_sum_bit_eq_take_bit)
  moreover have "unat b < 2 ^ 8"
    using unsigned_less [of b] by simp
  ultimately show ?thesis
    by (simp only: take_bit_nat_eq_self)
qed

lemma horner_bits_of: "horner_sum of_bool 2 (bits_of bs) = le_nat bs"
proof (induction bs)
  case (Cons b bs)
  then show ?case
    by (simp add: horner_sum_append le_nat_def horner_byte_bits)
qed (simp add: le_nat_def)

lemma adv_simps [simp]: "rdata (adv n r) = rdata r" "rpos (adv n r) = rpos r + n"
  "adv 0 r = r" "adv m (adv n r) = adv (n + m) r"
  by (simp_all add: adv_def add.assoc)

lemma rest_adv_drop: "rest (adv n r) = drop n (rest r)"
  by (simp add: rest_def add.commute)

lemma rest_adv: "rest r = xs @ ys \<Longrightarrow> rest (adv (length xs) r) = ys"
  by (simp add: rest_adv_drop)

lemma length_rest: "length (rest r) = remaining_bits r"
  by (simp add: rest_def remaining_bits_def mult.commute)

section \<open>What a read consumes\<close>

definition parses :: "'a rd \<Rightarrow> bool list \<Rightarrow> 'a \<Rightarrow> bool" where
  "parses p xs a \<longleftrightarrow> (\<forall>r ys. addressable r \<longrightarrow> rest r = xs @ ys \<longrightarrow> p r = Inr (a, adv (length xs) r))"

lemma parsesI: "(\<And>r ys. addressable r \<Longrightarrow> rest r = xs @ ys \<Longrightarrow> p r = Inr (a, adv (length xs) r)) \<Longrightarrow> parses p xs a"
  by (simp add: parses_def)

lemma parsesD: "parses p xs a \<Longrightarrow> addressable r \<Longrightarrow> rest r = xs @ ys \<Longrightarrow> p r = Inr (a, adv (length xs) r)"
  by (simp add: parses_def)

lemma addressable_adv [simp]: "addressable (adv n r) = addressable r"
  by (simp add: addressable_def)

lemma addressable_new [simp]: "addressable (new_reader data) \<longleftrightarrow> 8 * length data \<le> 2 ^ 32"
  by (simp add: addressable_def new_reader_def)

lemma parses_return: "parses (rd_return a) [] a"
  by (simp add: parses_def)

lemma parses_bind: "parses p xs a \<Longrightarrow> parses (f a) ys b \<Longrightarrow> parses (rd_bind p f) (xs @ ys) b"
  by (auto intro!: parsesI simp: rd_bind_def parsesD rest_adv)

lemma parses_bind_Nil: "parses p [] a \<Longrightarrow> parses (f a) ys b \<Longrightarrow> parses (rd_bind p f) ys b"
  using parses_bind [of p "[]"] by simp

lemma parses_bind_last: "parses p xs a \<Longrightarrow> parses (f a) [] b \<Longrightarrow> parses (rd_bind p f) xs b"
  using parses_bind [of p xs a f "[]"] by simp

lemma parses_map: "parses p xs a \<Longrightarrow> parses (rd_map f p) xs (f a)"
  unfolding rd_map_def by (rule parses_bind_last [OF _ parses_return])

lemma parses_lift: "m = Inr a \<Longrightarrow> parses (rd_lift m) [] a"
  by (simp add: parses_def rd_lift_def)

lemma parses_times:
  "list_all2 (parses p) xss as \<Longrightarrow> parses (read_times (length as) p) (concat xss) as"
proof (induction xss as rule: list_all2_induct)
  case (Cons xs xss a as)
  then show ?case
    by (simp only: read_times.simps list.size add_0_right add_Suc_right concat.simps)
      (intro parses_bind [OF Cons(1)] parses_bind_last [OF _ parses_return])
qed (simp only: read_times.simps list.size concat.simps parses_return)

lemma parses_new_reader:
  "parses p xs a \<Longrightarrow> 8 * length data \<le> 2 ^ 32 \<Longrightarrow> bits_of data = xs @ ys \<Longrightarrow> p (new_reader data) = Inr (a, adv (length xs) (new_reader data))"
  by (erule parsesD) (simp_all add: rest_def, simp add: new_reader_def)

lemma push_horner_Cons:
  "push_bit i (horner_sum of_bool 2 (x # xs) :: 'a::len word)
   = push_bit i (of_bool x) OR push_bit (Suc i) (horner_sum of_bool 2 xs)" (is "?l = ?r")
proof (rule bit_word_eqI)
  fix j
  assume j: "j < LENGTH('a)"
  consider "j < i" | "j = i" | k where "j = Suc (i + k)"
    by (metis less_iff_Suc_add linorder_neqE_nat)
  then show "bit ?l j = bit ?r j"
    using j by cases (auto simp: bit_simps simp del: horner_sum_simps push_bit_Suc)
qed

lemma gather_bits_eq:
  "8 * length d \<le> 2 ^ 32 \<Longrightarrow> pos + i + n \<le> 8 * length d \<Longrightarrow>
   gather_bits d pos i n v = Inr (v OR push_bit i (horner_sum of_bool 2 (take n (drop (pos + i) (bits_of d)))))"
proof (induction n arbitrary: i v)
  case (Suc n)
  let ?p = "pos + i"
  have p: "?p < 8 * length d" "?p div 8 < length d"
    using Suc.prems(2) by simp_all
  then have ix: "byte_index ?p = ?p div 8"
    using Suc.prems(1) by (intro byte_index_small) simp
  have d: "take (Suc n) (drop ?p (bits_of d)) = bits_of d ! ?p # take n (drop (pos + Suc i) (bits_of d))"
    using p by (simp add: Cons_nth_drop_Suc [symmetric])
  have bit: "(ucast (drop_bit (?p mod 8) (d ! (?p div 8))) AND 1 :: u32) = of_bool (bits_of d ! ?p)"
    by (rule bit_word_eqI) (auto simp: bit_simps nth_bits_of [OF p(1)])
  have "(v OR push_bit i (ucast (drop_bit (?p mod 8) (d ! (?p div 8))) AND 1))
      OR push_bit (Suc i) (horner_sum of_bool 2 (take n (drop (pos + Suc i) (bits_of d))))
    = (v OR push_bit i (horner_sum of_bool 2 (take (Suc n) (drop ?p (bits_of d)))) :: u32)"
    unfolding d push_horner_Cons or.assoc bit by (rule refl)
  moreover have "pos + Suc i + n \<le> 8 * length d"
    using Suc.prems(2) by simp
  ultimately show ?case
    by (simp only: gather_bits.simps Let_def ix p(2) if_True Suc.IH [OF Suc.prems(1)])
qed simp

lemma parses_read_bits:
  assumes "length xs = count" "1 \<le> count" "count \<le> 32"
  shows "parses (read_bits count) xs (horner_sum of_bool 2 xs)"
proof (rule parsesI)
  fix r ys
  assume a: "addressable r" and r: "rest r = xs @ ys"
  then have "count \<le> remaining_bits r"
    using assms(1) by (metis length_append length_rest le_add1)
  moreover from this have "rpos r + 0 + count \<le> 8 * length (rdata r)"
    using assms(2) by (simp add: remaining_bits_def)
  moreover have "take count (drop (rpos r + 0) (bits_of (rdata r))) = xs"
    using r assms(1) by (simp add: rest_def)
  ultimately show "read_bits count r = Inr (horner_sum of_bool 2 xs, adv (length xs) r)"
    using assms a by (simp add: read_bits_def gather_bits_eq adv_def addressable_def)
qed

lemma take_bit_32 [simp]: "take_bit 32 (v :: u32) = v"
  using take_bit_length_eq [of v] by simp

lemma take_bit_unat: "take_bit 32 (unat (v :: u32)) = unat v" "take_bit 64 (unat (w :: u64)) = unat w"
  using unsigned_take_bit_eq [of 32 v, where 'a = nat] unsigned_take_bit_eq [of 64 w, where 'a = nat]
    take_bit_length_eq [of w] by simp_all

text \<open>Byte-wise reads.\<close>

lemma horner_word_bits: "horner_sum of_bool 2 (map (bit v) [0..<n]) = take_bit n (v :: 'a::len word)"
  by (rule horner_sum_bit_eq_take_bit)

lemma parses_read_word:
  "1 \<le> n \<Longrightarrow> n \<le> 32 \<Longrightarrow> parses (read_bits n) (map (bit v) [0..<n]) (take_bit n v)"
  using parses_read_bits [of "map (bit v) [0..<n]" n] by (simp add: horner_word_bits)

lemma parses_byte: "parses read_byte (byte_bits b) (ucast b)"
proof -
  have "byte_bits b = map (bit (ucast b :: u32)) [0..<8]"
    by (auto simp: byte_bits_def bit_simps)
  moreover have "take_bit 8 (ucast b :: u32) = ucast b"
    by (rule bit_word_eqI) (auto simp: bit_simps dest: bit_imp_le_length)
  ultimately show ?thesis
    unfolding read_byte_def using parses_read_word [of 8 "ucast b"] by simp
qed

lemma parses_bytes_loop: "parses (read_times (length bs) read_byte) (bits_of bs) (map ucast bs)"
proof -
  have "list_all2 (parses read_byte) (map byte_bits bs) (map ucast bs)"
    by (simp add: list_all2_conv_all_nth parses_byte)
  then show ?thesis
    unfolding bits_of_def by (drule_tac parses_times) simp
qed

lemma bytes_exist: "length xs = 8 * n \<Longrightarrow> \<exists>bs. length bs = n \<and> bits_of bs = xs"
proof (induction n arbitrary: xs)
  case (Suc n)
  then obtain bs where bs: "length bs = n" "bits_of bs = drop 8 xs"
    by (metis diff_add_inverse length_drop mult_Suc_right)
  let ?b = "horner_sum of_bool 2 (take 8 xs) :: byte"
  have "byte_bits ?b = take 8 xs"
    using Suc.prems by (intro nth_equalityI) (simp_all add: byte_bits_def bit_simps)
  then have "bits_of (?b # bs) = xs"
    using bs by simp
  with bs(1) show ?case
    by (metis length_Cons)
qed simp

lemma aligned_rest: "rpos r mod 8 = 0 \<Longrightarrow> rest r = bits_of (drop (rpos r div 8) (rdata r))"
  unfolding rest_def by (metis drop_bits_of mult_0_right mult_div_mod_eq add.right_neutral)

text \<open>An addressable reader with at least one byte to read has its position below the wrap.\<close>

lemma aligned_index:
  assumes "addressable r" "rest r = xs @ ys" "0 < length xs"
  shows "byte_index (rpos r) = rpos r div 8"
proof -
  have "rpos r < 8 * length (rdata r)"
    using arg_cong [OF assms(2), of length] assms(3) by (cases xs) (simp_all add: rest_def)
  then show ?thesis
    using assms(1) by (intro byte_index_small) (simp add: addressable_def)
qed

lemma aligned_take:
  assumes "rpos r mod 8 = 0" "rest r = xs @ ys" "length xs = 8 * n"
  shows "bits_of (take n (drop (rpos r div 8) (rdata r))) = xs"
    "length (take n (drop (rpos r div 8) (rdata r))) = n"
proof -
  show xs: "bits_of (take n (drop (rpos r div 8) (rdata r))) = xs"
    using assms by (simp add: take_bits_of [symmetric] aligned_rest [symmetric])
  then show "length (take n (drop (rpos r div 8) (rdata r))) = n"
    using assms(3) by (metis length_bits_of mult_cancel1 zero_neq_numeral)
qed

lemma aligned_le:
  "rpos r mod 8 = 0 \<Longrightarrow> rest r = xs @ ys \<Longrightarrow> length xs = 8 * n \<Longrightarrow>
   le_nat (take n (drop (rpos r div 8) (rdata r))) = horner_sum of_bool 2 xs"
  using aligned_take(1) [of r xs ys n] by (simp flip: horner_bits_of)

lemma map_ucast_byte [simp]: "map (ucast :: u32 \<Rightarrow> byte) (map ucast bs) = bs"
  by (induction bs) (auto intro!: bit_word_eqI simp: bit_simps)

lemma parses_bytewise:
  assumes "length xs = 8 * n"
  shows "parses (rd_map (\<lambda>bs. f (le_nat (map ucast bs))) (read_times n read_byte)) xs
    (f (horner_sum of_bool 2 xs))"
proof -
  obtain bs where bs: "length bs = n" "bits_of bs = xs"
    using bytes_exist [OF assms] by blast
  have "parses (read_times n read_byte) xs (map ucast bs)"
    using parses_bytes_loop [of bs] bs by simp
  from parses_map [OF this, of "\<lambda>bs. f (le_nat (map ucast bs))"] show ?thesis
    using bs by (simp flip: horner_bits_of del: map_map)
qed

lemma rest_remaining: "rest r = xs @ ys \<Longrightarrow> length xs \<le> remaining_bits r"
  by (metis length_append length_rest le_add1)

lemma parses_read_bytes: "parses (read_bytes (length bs)) (bits_of bs) bs"
proof (rule parsesI)
  fix r ys
  assume a: "addressable r" and r: "rest r = bits_of bs @ ys"
  have rem: "\<not> remaining_bits r < length bs * 8"
    using rest_remaining [OF r] by simp
  show "read_bytes (length bs) r = Inr (bs, adv (length (bits_of bs)) r)"
  proof (cases "rpos r mod 8 = 0")
    case True
    from aligned_take [OF True r, of "length bs"] have "take (length bs) (drop (rpos r div 8) (rdata r)) = bs"
      by (intro bits_of_inject) simp_all
    then have "take (length bs) (drop (byte_index (rpos r)) (rdata r)) = bs"
      using aligned_index [OF a r] by (cases bs) simp_all
    with True rem show ?thesis
      by (simp add: read_bytes_def adv_def mult.commute)
  next
    case False
    from parsesD [OF parses_map [OF parses_bytes_loop, of "map ucast :: u32 list \<Rightarrow> byte list"] a r] False rem show ?thesis
      by (simp add: read_bytes_def del: map_map)
  qed
qed

section \<open>The typed reads\<close>

lemma parses_read_boolean: "parses read_boolean [b] b"
proof -
  have "parses read_boolean [b] (horner_sum of_bool 2 [b] = (1 :: u32))"
    unfolding read_boolean_def by (rule parses_map, rule parses_read_bits) simp_all
  then show ?thesis by simp
qed

lemma parses_read_uint16: "parses read_uint16 (map (bit v) [0..<16]) (take_bit 16 v)"
  unfolding read_uint16_def by (rule parses_read_word) simp_all

lemma parses_read_uint32: "parses read_uint32 (map (bit v) [0..<32]) v"
  unfolding read_uint32_def using parses_read_word [of 32 v] by simp

lemma parses_read_int32: "parses read_int32 (map (bit v) [0..<32]) (signed_take_bit 31 v)"
proof -
  have bits: "map (bit v) [0..<32] = map (bit (word_of_int v :: u32)) [0..<32]"
    by (simp add: bit_simps)
  have "sint (word_of_int v :: u32) = signed_take_bit 31 v"
    by (simp add: sint_sbintrunc')
  then show ?thesis
    unfolding bits read_int32_def using parses_map [OF parses_read_word [of 32 "word_of_int v"], of sint]
    by simp
qed

lemma parses_gather_bigint:
  "parses (gather_bigint i n v) (map (bit w) [i..<i + n]) (v OR push_bit i (take_bit n (drop_bit i w)))"
proof (induction n arbitrary: i v)
  case 0
  show ?case by (simp add: parses_return del: rd_return_apply)
next
  case (Suc n)
  have one: "parses (read_bits 1) [bit w i] (of_bool (bit w i))"
    using parses_read_bits [of "[bit w i]" 1] by simp
  have eq: "(v OR push_bit i (uint (of_bool (bit w i) :: u32))) OR push_bit (Suc i) (take_bit n (drop_bit (Suc i) w))
      = v OR push_bit i (take_bit (Suc n) (drop_bit i w))"
  proof (rule bit_eqI)
    fix j
    consider "j < i" | "j = i" | k where "j = Suc (i + k)"
      by (metis less_iff_Suc_add linorder_neqE_nat)
    then show "bit ((v OR push_bit i (uint (of_bool (bit w i) :: u32)))
          OR push_bit (Suc i) (take_bit n (drop_bit (Suc i) w))) j
        = bit (v OR push_bit i (take_bit (Suc n) (drop_bit i w))) j"
      by cases (auto simp: bit_simps simp del: push_bit_Suc)
  qed
  have "map (bit w) [i..<i + Suc n] = [bit w i] @ map (bit w) [Suc i..<Suc i + n]"
    by (simp add: upt_rec)
  then show ?case
    using parses_bind [where f = "\<lambda>b. gather_bigint (Suc i) n (v OR push_bit i (uint b))", OF one Suc.IH]
    by (simp only: gather_bigint.simps eq)
qed

lemma parses_read_uint64: "parses read_uint64 (map (bit v) [0..<64]) (take_bit 64 v)"
  unfolding read_uint64_def using parses_gather_bigint [of 0 64 0 v] by simp

lemma signed_take_bit_63: "signed_take_bit 63 (v::int) =
    (if 9223372036854775808 \<le> take_bit 64 v then take_bit 64 v - 18446744073709551616 else take_bit 64 v)"
proof -
  have "take_bit 64 v = 9223372036854775808 * of_bool (bit v 63) + take_bit 63 v"
    using take_bit_Suc_from_most [of 63 v] by simp
  moreover have "0 \<le> take_bit 63 v" "take_bit 63 v < 9223372036854775808"
    using take_bit_int_less_exp [of 63 v] by simp_all
  moreover have "signed_take_bit 63 v = take_bit 64 v - of_bool (bit v 63) * 18446744073709551616"
    using signed_take_bit_eq_take_bit_minus [of 63 v] by simp
  ultimately show ?thesis by (cases "bit v 63") simp_all
qed

lemma parses_read_int64: "parses read_int64 (map (bit v) [0..<64]) (signed_take_bit 63 v)"
  unfolding read_int64_def signed_take_bit_63 by (rule parses_map [OF parses_read_uint64])

lemma parses_read_float32: "parses read_float32 (map (bit w) [0..<32]) (f32_to_f64 w)"
proof (rule parsesI)
  fix r ys
  let ?xs = "map (bit w) [0..<32]"
  assume a: "addressable r" and r: "rest r = ?xs @ ys"
  have "horner_sum of_bool 2 ?xs = unat w"
    using horner_sum_bit_eq_take_bit [of "unat w" 32]
    by (simp add: bit_unsigned_iff take_bit_unat cong: map_cong)
  with aligned_le [OF _ r, of 4] parsesD [OF parses_bytewise [of ?xs 4 "\<lambda>n. f32_to_f64 (of_nat n)"] a r]
    rest_remaining [OF r] aligned_index [OF a r]
  show "read_float32 r = Inr (f32_to_f64 w, adv (length ?xs) r)"
    by (auto simp: read_float32_def adv_def)
qed

lemma parses_read_float64: "parses read_float64 (map (bit w) [0..<64]) (canon w)"
proof (rule parsesI)
  fix r ys
  let ?xs = "map (bit w) [0..<64]"
  assume a: "addressable r" and r: "rest r = ?xs @ ys"
  have "horner_sum of_bool 2 ?xs = unat w"
    using horner_sum_bit_eq_take_bit [of "unat w" 64]
    by (simp add: bit_unsigned_iff take_bit_unat cong: map_cong)
  with aligned_le [OF _ r, of 8] parsesD [OF parses_bytewise [of ?xs 8 "\<lambda>n. canon (of_nat n)"] a r]
    rest_remaining [OF r] aligned_index [OF a r]
  show "read_float64 r = Inr (canon w, adv (length ?xs) r)"
    by (auto simp: read_float64_def adv_def)
qed

end
