(* ===== verification/Bit_Writer.thy ===== *)
theory Bit_Writer
  imports Bit_Reader
begin

text \<open>
  \<open>BitWriter\<close> of \<open>packages/core/src/zeepnet/binary.ts\<close>: a byte buffer that doubles when it is
  full, and the position of the next bit.

  The abstract view of a writer is \<open>written\<close>, the bits written so far. \<open>emits f xs\<close> says that
  the operation \<open>f\<close> keeps the buffer's invariant and appends exactly the bits \<open>xs\<close>; the
  invariant \<open>writer_inv\<close> says the buffer is not empty, holds the position, and is zero from the
  position on (which \<open>writeBits\<close> needs, since it ORs bits in). It holds for writers of fewer than \<open>2 ^ 32\<close> bits;
  from there on \<open>>>> 3\<close> wraps and a write lands at the start of the buffer.

  A \<open>number\<close> argument that a writer shifts with \<open>>>>\<close> is taken modulo \<open>2 ^ 32\<close>: it is a
  \<open>u32\<close>, or an \<open>int\<close> converted with \<open>word_of_int\<close>. A \<open>bigint\<close> is an \<open>int\<close>.
\<close>

record bit_writer =
  wbytes :: "byte list"
  wpos :: nat

section \<open>The writer\<close>

definition new_writer :: bit_writer where
  "new_writer = \<lparr>wbytes = replicate 256 0, wpos = 0\<rparr>"

text \<open>
  \<open>while (capacity < requiredBytes) capacity *= 2\<close>. The capacity is 256 at first and never
  shrinks; the guard on zero only makes the equation total.
\<close>

function grow :: "nat \<Rightarrow> nat \<Rightarrow> nat" where
  "grow capacity required =
     (if 0 < capacity \<and> capacity < required then grow (capacity * 2) required else capacity)"
  by pat_completeness auto
termination
  by (relation "measure (\<lambda>(c, r). r - c)") auto

declare grow.simps [simp del]

definition ensure_capacity :: "nat \<Rightarrow> bit_writer \<Rightarrow> bit_writer" where
  "ensure_capacity additionalBits w =
     (let requiredBytes = ceil_div (wpos w + additionalBits) 8; n = length (wbytes w) in
      if requiredBytes \<le> n then w
      else w\<lparr>wbytes := wbytes w @ replicate (grow n requiredBytes - n) 0\<rparr>)"

text \<open>The loop of \<open>writeBits\<close>, from bit \<open>i\<close> on, \<open>n\<close> bits to go.\<close>

fun put_bits :: "u32 \<Rightarrow> nat \<Rightarrow> nat \<Rightarrow> nat \<Rightarrow> byte list \<Rightarrow> byte list" where
  "put_bits v pos i 0 bytes = bytes"
| "put_bits v pos i (Suc n) bytes =
     (let target = pos + i; index = byte_index target;
          current = (if index < length bytes then bytes ! index else 0) in
      put_bits v pos (Suc i) n
        (bytes[index := current OR push_bit (target mod 8) (ucast (drop_bit i v AND 1))]))"

definition write_bits :: "u32 \<Rightarrow> nat \<Rightarrow> bit_writer \<Rightarrow> bit_writer" where
  "write_bits v count w =
     (let w' = ensure_capacity count w in
      w'\<lparr>wbytes := put_bits v (wpos w') 0 count (wbytes w'), wpos := wpos w' + count\<rparr>)"

definition write_boolean :: "bool \<Rightarrow> bit_writer \<Rightarrow> bit_writer" where
  "write_boolean b = write_bits (if b then 1 else 0) 1"

definition write_byte :: "u32 \<Rightarrow> bit_writer \<Rightarrow> bit_writer" where
  "write_byte v = write_bits v 8"

definition write_uint16 :: "u32 \<Rightarrow> bit_writer \<Rightarrow> bit_writer" where
  "write_uint16 v = write_bits v 16"

definition write_int32 :: "int \<Rightarrow> bit_writer \<Rightarrow> bit_writer" where
  "write_int32 v = write_bits (word_of_int v) 32"

definition write_uint32 :: "int \<Rightarrow> bit_writer \<Rightarrow> bit_writer" where
  "write_uint32 v = write_bits (word_of_int v) 32"

fun put_bigint :: "int \<Rightarrow> nat \<Rightarrow> nat \<Rightarrow> bit_writer \<Rightarrow> bit_writer" where
  "put_bigint v i 0 w = w"
| "put_bigint v i (Suc n) w = put_bigint v (Suc i) n (write_bits (word_of_int (drop_bit i v AND 1)) 1 w)"

definition write_uint64 :: "int \<Rightarrow> bit_writer \<Rightarrow> bit_writer" where
  "write_uint64 v = put_bigint v 0 64"

definition write_int64 :: "int \<Rightarrow> bit_writer \<Rightarrow> bit_writer" where
  "write_int64 v = write_uint64 (take_bit 64 v)"

text \<open>\<open>Uint8Array.prototype.set\<close>\<close>

definition set_bytes :: "nat \<Rightarrow> byte list \<Rightarrow> byte list \<Rightarrow> byte list" where
  "set_bytes offset bs bytes = take offset bytes @ bs @ drop (offset + length bs) bytes"

definition write_bytes :: "byte list \<Rightarrow> bit_writer \<Rightarrow> bit_writer" where
  "write_bytes bs w =
     (if wpos w mod 8 = 0
      then let w' = ensure_capacity (length bs * 8) w in
           w'\<lparr>wbytes := set_bytes (byte_index (wpos w')) bs (wbytes w'), wpos := wpos w' + length bs * 8\<rparr>
      else fold (\<lambda>b. write_byte (ucast b)) bs w)"

text \<open>The little-endian bytes of a \<open>DataView\<close> store.\<close>

definition le_bytes :: "nat \<Rightarrow> 'a::len word \<Rightarrow> byte list" where
  "le_bytes n v = map (\<lambda>i. ucast (drop_bit (8 * i) v)) [0..<n]"

definition write_float32 :: "js_number \<Rightarrow> bit_writer \<Rightarrow> bit_writer" where
  "write_float32 x w =
     (if wpos w mod 8 = 0
      then let w' = ensure_capacity 32 w in
           w'\<lparr>wbytes := set_bytes (byte_index (wpos w')) (le_bytes 4 (f64_to_f32 x)) (wbytes w'),
              wpos := wpos w' + 32\<rparr>
      else write_bytes (le_bytes 4 (f64_to_f32 x)) w)"

definition write_float64 :: "js_number \<Rightarrow> bit_writer \<Rightarrow> bit_writer" where
  "write_float64 x w =
     (if wpos w mod 8 = 0
      then let w' = ensure_capacity 64 w in
           w'\<lparr>wbytes := set_bytes (byte_index (wpos w')) (le_bytes 8 (canon x)) (wbytes w'),
              wpos := wpos w' + 64\<rparr>
      else write_bytes (le_bytes 8 (canon x)) w)"

lemma unat_drop7: "unat (drop_bit 7 (v :: u32)) = unat v div 128"
  by (simp add: drop_bit_eq_div unat_div)

text \<open>The \<open>do ... while\<close> loop of \<open>writeVariableUInt32\<close>.\<close>

function write_variable_uint32 :: "u32 \<Rightarrow> bit_writer \<Rightarrow> bit_writer" where
  "write_variable_uint32 remaining w =
     (let byte = remaining AND 0x7F; remaining' = drop_bit 7 remaining in
      if remaining' \<noteq> 0 then write_variable_uint32 remaining' (write_byte (byte OR 0x80) w)
      else write_byte byte w)"
  by pat_completeness auto
termination
proof (relation "measure (\<lambda>(v, w). unat v)")
  fix v v' byte :: u32 and w :: bit_writer
  assume v': "v' = drop_bit 7 v" "v' \<noteq> 0"
  then have "unat v \<noteq> 0"
    by (auto simp: unat_eq_0)
  then show "((v', write_byte (byte OR 0x80) w), (v, w)) \<in> measure (\<lambda>(v, w). unat v)"
    using unat_drop7 [of v] v' by simp
qed simp

declare write_variable_uint32.simps [simp del]

definition write_string :: "jstring \<Rightarrow> bit_writer \<Rightarrow> bit_writer" where
  "write_string s w =
     (let bytes = text_encode s in write_bytes bytes (write_variable_uint32 (of_nat (length bytes)) w))"

definition to_uint8_array :: "bit_writer \<Rightarrow> byte list" where
  "to_uint8_array w = take (ceil_div (wpos w) 8) (wbytes w)"

section \<open>The buffer as the bits written\<close>

definition written :: "bit_writer \<Rightarrow> bool list" where
  "written w = take (wpos w) (bits_of (wbytes w))"

definition writer_inv :: "bit_writer \<Rightarrow> bool" where
  "writer_inv w \<longleftrightarrow> 0 < length (wbytes w) \<and> wpos w \<le> 8 * length (wbytes w) \<and>
     drop (wpos w) (bits_of (wbytes w)) = replicate (8 * length (wbytes w) - wpos w) False"

definition emits :: "(bit_writer \<Rightarrow> bit_writer) \<Rightarrow> bool list \<Rightarrow> bool" where
  "emits f xs \<longleftrightarrow> (\<forall>w. writer_inv w \<longrightarrow> wpos w + length xs < 2 ^ 32 \<longrightarrow> writer_inv (f w) \<and> written (f w) = written w @ xs)"

lemma emitsI: "(\<And>w. writer_inv w \<Longrightarrow> wpos w + length xs < 2 ^ 32 \<Longrightarrow> writer_inv (f w) \<and> written (f w) = written w @ xs) \<Longrightarrow> emits f xs"
  by (simp add: emits_def)

lemma emitsD: "emits f xs \<Longrightarrow> writer_inv w \<Longrightarrow> wpos w + length xs < 2 ^ 32 \<Longrightarrow> writer_inv (f w) \<and> written (f w) = written w @ xs"
  by (simp add: emits_def)

lemma length_written: "writer_inv w \<Longrightarrow> length (written w) = wpos w"
  by (simp add: writer_inv_def written_def)

lemma emits_id: "emits (\<lambda>w. w) []"
  by (simp add: emits_def)

lemma emits_comp:
  assumes "emits f xs" "emits g ys"
  shows "emits (\<lambda>w. g (f w)) (xs @ ys)"
proof (rule emitsI)
  fix w
  assume w: "writer_inv w" "wpos w + length (xs @ ys) < 2 ^ 32"
  then have f: "writer_inv (f w)" "written (f w) = written w @ xs"
    using emitsD [OF assms(1)] by simp_all
  then have "wpos (f w) = wpos w + length xs"
    using length_written w(1) by (metis length_append)
  with emitsD [OF assms(2) f(1)] w(2) f(2) show "writer_inv (g (f w)) \<and> written (g (f w)) = written w @ xs @ ys"
    by simp
qed

lemma emits_fold: "(\<And>a. a \<in> set as \<Longrightarrow> emits (f a) (enc a)) \<Longrightarrow> emits (fold f as) (concat (map enc as))"
proof (induction as)
  case (Cons a as)
  then have "emits (\<lambda>w. fold f as (f a w)) (enc a @ concat (map enc as))"
    by (intro emits_comp) simp_all
  then show ?case by (simp add: comp_def)
qed (simp add: emits_def)

lemma byte_bits_0: "byte_bits 0 = replicate 8 False"
  by (simp add: byte_bits_def upt_rec numeral_eq_Suc)

lemma bits_of_zeros: "bits_of (replicate n 0) = replicate (8 * n) False"
  by (induction n) (simp_all add: byte_bits_0 replicate_add [symmetric])

lemma writer_bits: "writer_inv w \<Longrightarrow> bits_of (wbytes w) = written w @ replicate (8 * length (wbytes w) - wpos w) False"
  unfolding writer_inv_def written_def by (metis append_take_drop_id)

text \<open>A writer given by its bits.\<close>

lemma writer_of_bits:
  assumes "bits_of bytes = xs @ replicate m False" "0 < length bytes"
  shows "writer_inv \<lparr>wbytes = bytes, wpos = length xs\<rparr>" "written \<lparr>wbytes = bytes, wpos = length xs\<rparr> = xs"
proof -
  have "8 * length bytes = length xs + m"
    using arg_cong [OF assms(1), of length] by simp
  with assms show "writer_inv \<lparr>wbytes = bytes, wpos = length xs\<rparr>"
    "written \<lparr>wbytes = bytes, wpos = length xs\<rparr> = xs"
    by (simp_all add: writer_inv_def written_def)
qed

lemma writer_new: "writer_inv new_writer" "written new_writer = []"
  by (simp_all add: writer_inv_def new_writer_def written_def bits_of_zeros)

lemma grow_ge: "0 < c \<Longrightarrow> r \<le> grow c r \<and> c \<le> grow c r"
proof (induction c r rule: grow.induct)
  case (1 c r)
  then show ?case
    by (cases "c < r") (auto simp: grow.simps [of c r])
qed

lemma ensure_capacity_bits:
  assumes "writer_inv w"
  obtains m where "bits_of (wbytes (ensure_capacity k w)) = written w @ replicate m False"
    "k \<le> m" "0 < length (wbytes (ensure_capacity k w))" "wpos (ensure_capacity k w) = wpos w"
proof
  let ?e = "ensure_capacity k w"
  have cap: "ceil_div (wpos w + k) 8 \<le> length (wbytes ?e)"
    using assms grow_ge [of "length (wbytes w)" "ceil_div (wpos w + k) 8"]
    by (simp add: ensure_capacity_def Let_def writer_inv_def)
  then have m: "wpos w + k \<le> 8 * length (wbytes ?e)"
    by (simp add: ceil_div_le_iff mult.commute)
  show "wpos ?e = wpos w"
    by (simp add: ensure_capacity_def Let_def)
  show "0 < length (wbytes ?e)"
    using assms by (simp add: ensure_capacity_def Let_def writer_inv_def)
  show "k \<le> 8 * length (wbytes ?e) - wpos w"
    using m by simp
  show "bits_of (wbytes ?e) = written w @ replicate (8 * length (wbytes ?e) - wpos w) False"
    using writer_bits [OF assms] assms
    by (auto simp: ensure_capacity_def Let_def bits_of_zeros replicate_add [symmetric] writer_inv_def
        not_le intro!: arg_cong [of _ _ "\<lambda>n. replicate n False"])
qed

text \<open>ORing one bit into the buffer sets that bit.\<close>

lemma bits_of_or_bit:
  assumes "t < 8 * length bytes"
  shows "bits_of (bytes[t div 8 := bytes ! (t div 8) OR push_bit (t mod 8) (of_bool b)])
    = (bits_of bytes)[t := bits_of bytes ! t \<or> b]"
proof (rule nth_equalityI)
  fix i
  assume i: "i < length (bits_of (bytes[t div 8 := bytes ! (t div 8) OR push_bit (t mod 8) (of_bool b)]))"
  have m: "t mod 8 < 8" "i mod 8 < 8"
    by simp_all
  have eq: "t div 8 = i div 8 \<Longrightarrow> t mod 8 = i mod 8 \<Longrightarrow> t = i"
    by (metis div_mult_mod_eq)
  from i assms show "bits_of (bytes[t div 8 := bytes ! (t div 8) OR push_bit (t mod 8) (of_bool b)]) ! i
      = (bits_of bytes)[t := bits_of bytes ! t \<or> b] ! i"
    by (auto simp: nth_bits_of nth_list_update bit_simps dest: eq)
qed simp

lemma put_bits_bits:
  "bits_of bytes = A @ replicate m False \<Longrightarrow> length A = pos + i \<Longrightarrow> n \<le> m \<Longrightarrow> pos + i + n < 2 ^ 32 \<Longrightarrow>
   bits_of (put_bits v pos i n bytes) = A @ map (bit v) [i..<i + n] @ replicate (m - n) False"
proof (induction n arbitrary: i bytes A m)
  case (Suc n)
  then obtain m' where m': "m = Suc m'"
    by (cases m) auto
  let ?t = "pos + i"
  have len: "8 * length bytes = ?t + m"
    using arg_cong [OF Suc.prems(1), of length] Suc.prems(2) by simp
  then have t: "?t < 8 * length bytes" "?t div 8 < length bytes"
    using m' by simp_all
  have ix: "byte_index ?t = ?t div 8"
    using Suc.prems(4) by (intro byte_index_small) simp
  have bit: "(ucast (drop_bit i v AND 1) :: byte) = of_bool (bit v i)"
    by (rule bit_word_eqI) (auto simp: bit_simps)
  have "bits_of (bytes[?t div 8 := bytes ! (?t div 8) OR push_bit (?t mod 8) (of_bool (bit v i))])
      = (A @ [bit v i]) @ replicate m' False"
    using bits_of_or_bit [OF t(1), of "bit v i"] m'
    by (simp add: Suc.prems(1) list_update_append nth_append flip: Suc.prems(2))
  from Suc.IH [OF this, of "Suc i"] Suc.prems m' t(2) show ?case
    by (simp add: Let_def bit ix upt_rec del: of_bool_eq)
qed simp

lemma emits_write_bits: "n \<le> 32 \<Longrightarrow> emits (write_bits v n) (map (bit v) [0..<n])"
proof (rule emitsI)
  fix w
  assume w: "writer_inv w" and l: "wpos w + length (map (bit v) [0..<n]) < 2 ^ 32"
  let ?e = "ensure_capacity n w"
  obtain m where m: "bits_of (wbytes ?e) = written w @ replicate m False" "n \<le> m"
      "0 < length (wbytes ?e)" "wpos ?e = wpos w"
    using ensure_capacity_bits [OF w] by blast
  let ?b = "put_bits v (wpos w) 0 n (wbytes ?e)"
  have b: "bits_of ?b = (written w @ map (bit v) [0..<n]) @ replicate (m - n) False"
    using put_bits_bits [OF m(1) _ m(2), of "wpos w" 0 v] length_written [OF w] l by simp
  have "0 < length ?b"
    using arg_cong [OF b, of length] arg_cong [OF m(1), of length] m(2,3)
    by (cases ?b) auto
  from writer_of_bits [OF b this] show "writer_inv (write_bits v n w) \<and>
      written (write_bits v n w) = written w @ map (bit v) [0..<n]"
    using length_written [OF w] m(4)
    by (simp add: write_bits_def Let_def written_def writer_inv_def)
qed

end
