(* ===== verification/Wire_Varint.thy ===== *)
theory Wire_Varint
  imports Bit_Writer
begin

text \<open>
  The seven-bit variable-length integers of the wire: \<open>varint\<close> is the byte sequence of a number,
  low group first, with the top bit set on every byte but the last. \<open>writeVariableUInt32\<close> emits
  it, \<open>readVariableUInt32\<close> reads it back, and it never takes more than five bytes for a 32-bit
  value.
\<close>

function varint :: "nat \<Rightarrow> byte list" where
  "varint n = (if n < 128 then [of_nat n] else (of_nat (take_bit 7 n) OR 0x80) # varint (drop_bit 7 n))"
  by pat_completeness auto
termination
  by (relation "measure id") (auto simp: drop_bit_eq_div)

declare varint.simps [simp del]

lemma varint_small: "n < 128 \<Longrightarrow> varint n = [of_nat n]"
  by (simp add: varint.simps [of n])

lemma varint_step: "128 \<le> n \<Longrightarrow> varint n = (of_nat (take_bit 7 n) OR 0x80) # varint (drop_bit 7 n)"
  by (simp add: varint.simps [of n])

lemma varint_nonempty: "varint n \<noteq> []"
  by (subst varint.simps) simp

lemma varint_length: "n < 128 ^ k \<Longrightarrow> 0 < k \<Longrightarrow> length (varint n) \<le> k"
proof (induction k arbitrary: n)
  case (Suc k)
  show ?case
  proof (cases "n < 128")
    case True
    then show ?thesis by (simp add: varint_small)
  next
    case False
    then have "0 < k"
      using Suc.prems(1) by (cases k) auto
    moreover have "drop_bit 7 n < 128 ^ k"
      using Suc.prems(1) by (simp add: drop_bit_eq_div div_less_iff_less_mult)
    ultimately show ?thesis
      using Suc.IH False by (simp add: varint_step)
  qed
qed simp

lemma varint_length_u32: "n < 4294967296 \<Longrightarrow> length (varint n) \<le> 5"
  by (rule varint_length) simp_all

section \<open>Writing\<close>

text \<open>The masks of the sources as bit operations.\<close>

lemma and_127: "v AND 127 = take_bit 7 (v :: 'a::len word)"
  by (simp add: take_bit_eq_mask mask_eq_exp_minus_1)

lemma or_128: "v OR 128 = set_bit 7 (v :: 'a::len word)"
  by (simp add: set_bit_eq_or)

lemma and_240: "v AND 240 = push_bit 4 (take_bit 4 (drop_bit 4 (v :: 'a::len word)))"
proof -
  have "(240 :: 'a word) = push_bit 4 (mask 4)"
    by (simp add: mask_eq_exp_minus_1)
  then show ?thesis
    by (intro bit_word_eqI) (auto simp only: bit_simps, auto)
qed

lemmas mask_simps = and_127 or_128

lemma bit_of_nat_less: "n < 2 ^ k \<Longrightarrow> k \<le> j \<Longrightarrow> \<not> bit (n::nat) j"
  by (metis bit_take_bit_iff not_le take_bit_nat_eq_self)

lemma bit_less_7: "n < 128 \<Longrightarrow> bit (n::nat) j \<Longrightarrow> j < 7"
  using bit_of_nat_less [of n 7 j] by (cases "7 \<le> j") simp_all

lemma bit_unat: "bit (unat (v :: 'a::len word)) j \<longleftrightarrow> bit v j"
  by (simp add: bit_unsigned_iff)

lemma unat_less_128_iff: "unat (v :: u32) < 128 \<longleftrightarrow> drop_bit 7 v = 0"
  using unat_drop7 [of v] by (metis div_eq_0_iff unat_eq_0 zero_neq_numeral)

lemma emits_write_byte: "emits (write_byte v) (map (bit v) [0..<8])"
  unfolding write_byte_def by (rule emits_write_bits) simp

lemma emits_write_variable: "emits (write_variable_uint32 v) (bits_of (varint (unat v)))"
proof (induction "unat v" arbitrary: v rule: less_induct)
  case less
  show ?case
  proof (cases "unat v < 128")
    case True
    then have z: "drop_bit 7 v = 0"
      by (simp add: unat_less_128_iff)
    have "map (bit (v AND 0x7F)) [0..<8] = byte_bits (of_nat (unat v))"
      using bit_less_7 [OF True]
      by (auto simp: byte_bits_def mask_simps bit_simps bit_unat)
    with emits_write_byte [of "v AND 0x7F"] True z show ?thesis
      by (simp add: emits_def write_variable_uint32.simps [of v] varint_small)
  next
    case False
    then have z: "drop_bit 7 v \<noteq> 0" and small: "unat (drop_bit 7 v) < unat v"
      by (simp_all add: unat_less_128_iff [symmetric] unat_drop7)
    have "map (bit (v AND 0x7F OR 0x80)) [0..<8] = byte_bits (of_nat (take_bit 7 (unat v)) OR 0x80)"
      by (auto simp: byte_bits_def mask_simps bit_simps bit_unat)
    then have first: "emits (write_byte (v AND 0x7F OR 0x80)) (byte_bits (of_nat (take_bit 7 (unat v)) OR 0x80))"
      using emits_write_byte [of "v AND 0x7F OR 0x80"] by simp
    have "unat (drop_bit 7 v) = drop_bit 7 (unat v)"
      unfolding unat_drop7 by (simp only: drop_bit_eq_div) simp
    with emits_comp [OF first less [OF small]] z False show ?thesis
      by (simp add: emits_def write_variable_uint32.simps [of v] varint_step)
  qed
qed

section \<open>Reading\<close>

lemma and_0x80_byte: "(ucast (b :: byte) :: u32) AND 0x80 = 0 \<longleftrightarrow> \<not> bit b 7"
  using and_exp_eq_0_iff_not_bit [of "ucast b :: u32" 7] by (simp add: bit_simps)

lemma last_group:
  "n < 128 \<Longrightarrow> push_bit k ((ucast (of_nat n :: byte) :: u32) AND 0x7F) = push_bit k (of_nat n)"
  by (intro bit_word_eqI) (auto simp: mask_simps bit_simps dest: bit_less_7 intro: less_trans)

lemma next_group:
  "push_bit k ((ucast (of_nat (take_bit 7 n) OR 0x80 :: byte) :: u32) AND 0x7F)
     OR push_bit (k + 7) (of_nat (drop_bit 7 n)) = push_bit k (of_nat n)" (is "?l = ?r")
proof (rule bit_word_eqI)
  fix j
  assume j: "j < LENGTH(32)"
  consider "j < k" | i where "j = k + i" "i < 7" | i where "j = k + 7 + i"
    by (metis add.assoc le_Suc_ex not_less)
  then show "bit ?l j = bit ?r j"
    using j by cases (auto simp: mask_simps bit_simps)
qed

lemma and_0xF0: "n < 16 \<Longrightarrow> (ucast (of_nat n :: byte) :: u32) AND 0xF0 = 0"
  using bit_of_nat_less [of n 4]
  by (intro bit_word_eqI) (auto simp: and_240 bit_simps)

lemma parses_read_var_loop:
  "index + k = 5 \<Longrightarrow> n * 128 ^ index < 4294967296 \<Longrightarrow> 0 < k \<Longrightarrow>
   parses (read_var_loop k index v) (bits_of (varint n)) (v OR push_bit (index * 7) (of_nat n))"
proof (induction k arbitrary: index n v)
  case (Suc k)
  show ?case
  proof (cases "n < 128")
    case True
    have "index = 4 \<Longrightarrow> n < 16"
      using Suc.prems(2) by simp
    moreover have "\<not> bit (of_nat n :: byte) 7"
      using True bit_of_nat_less [of n 7 7] by (simp add: bit_simps)
    ultimately have "parses (read_var_loop (Suc k) index v) (byte_bits (of_nat n) @ [])
        (v OR push_bit (index * 7) (of_nat n))"
      unfolding read_var_loop.simps
      by (intro parses_bind [OF parses_byte])
        (cases "index = 4"; simp only: and_0xF0 and_0x80_byte last_group [OF True] Let_def parses_return
          if_True if_False simp_thms)
    with True show ?thesis by (simp add: varint_small)
  next
    case False
    have "index \<noteq> 4"
      using Suc.prems(2) False by auto
    then have k: "0 < k" "Suc index + k = 5"
      using Suc.prems(1) by auto
    have "drop_bit 7 n * 128 ^ Suc index \<le> n * 128 ^ index"
      using div_times_less_eq_dividend [of n 128] by (simp add: drop_bit_eq_div)
    then have n: "drop_bit 7 n * 128 ^ Suc index < 4294967296"
      using Suc.prems(2) by linarith
    let ?b = "of_nat (take_bit 7 n) OR 0x80 :: byte"
    let ?v = "v OR push_bit (index * 7) ((ucast ?b) AND 0x7F)"
    have b: "bit ?b 7"
      by (simp add: or_128 bit_simps)
    have eq: "?v OR push_bit (Suc index * 7) (of_nat (drop_bit 7 n)) = v OR push_bit (index * 7) (of_nat n)"
      using next_group [of "index * 7" n] by (simp add: or.assoc add.commute del: push_bit_or)
    have "parses (read_var_loop (Suc k) index v) (byte_bits ?b @ bits_of (varint (drop_bit 7 n)))
        (v OR push_bit (index * 7) (of_nat n))"
      unfolding read_var_loop.simps
    proof (rule parses_bind [OF parses_byte])
      show "parses (if index = 4 \<and> ucast ?b AND 0xF0 \<noteq> 0
          then rd_throw (Error ''Variable UInt32 exceeds 32 bits'')
          else let v' = ?v in if ucast ?b AND 0x80 = (0 :: u32) then rd_return v' else read_var_loop k (Suc index) v')
        (bits_of (varint (drop_bit 7 n))) (v OR push_bit (index * 7) (of_nat n))"
        using Suc.IH [OF k(2) n k(1), of ?v] b \<open>index \<noteq> 4\<close> unfolding eq
        by (simp only: and_0x80_byte Let_def if_False simp_thms)
    qed
    with False show ?thesis by (simp add: varint_step)
  qed
qed simp

lemma parses_read_variable:
  "n < 4294967296 \<Longrightarrow> parses read_variable_uint32 (bits_of (varint n)) (of_nat n)"
  unfolding read_variable_uint32_def using parses_read_var_loop [of 0 5 n 0] by simp

end
