(* ===== verification/Wire_Codec.thy ===== *)
theory Wire_Codec
  imports Wire_Varint
begin

text \<open>
  The contract between \<open>BitWriter\<close> and \<open>BitReader\<close>.

  \<open>wire_codec put get enc ok view\<close> is the interface the packet code relies on: for a value
  \<open>a\<close> with \<open>ok a\<close>, \<open>put a\<close> appends the bits \<open>enc a\<close> and \<open>get\<close> turns exactly these bits into
  \<open>view a\<close>, whatever the alignment. Inside the locale the laws are lifted to a message of one
  value and to lists; every typed pair of operations of \<open>binary.ts\<close> is an interpretation. What is
  read back is the value as the wire carries it: modulo the width, rounded to single precision,
  without a byte order mark.

  The last section shows that every read stays within the buffer.
\<close>

section \<open>The interface\<close>

locale wire_codec =
  fixes put :: "'a \<Rightarrow> bit_writer \<Rightarrow> bit_writer"
    and get :: "'b rd"
    and enc :: "'a \<Rightarrow> bool list"
    and ok :: "'a \<Rightarrow> bool"
    and view :: "'a \<Rightarrow> 'b"
  assumes emits_write: "ok a \<Longrightarrow> emits (put a) (enc a)"
    and parses_read: "ok a \<Longrightarrow> parses get (enc a) (view a)"
begin

lemma codec_write_many:
  assumes "\<And>a. a \<in> set as \<Longrightarrow> ok a"
  shows "emits (fold put as) (concat (map enc as))"
  using assms by (intro emits_fold emits_write)

lemma codec_read_many:
  assumes "\<And>a. a \<in> set as \<Longrightarrow> ok a"
  shows "parses (read_times (length as) get) (concat (map enc as)) (map view as)"
proof -
  have "list_all2 (parses get) (map enc as) (map view as)"
    using assms by (simp add: list_all2_conv_all_nth parses_read)
  from parses_times [OF this] show ?thesis by simp
qed

end

section \<open>From the writer's buffer to the reader\<close>

definition pad :: "nat \<Rightarrow> nat" where
  "pad n = ceil_div n 8 * 8 - n"

lemma bits_of_to_uint8_array:
  assumes "writer_inv w"
  shows "bits_of (to_uint8_array w) = written w @ replicate (pad (wpos w)) False"
proof -
  let ?n = "ceil_div (wpos w) 8"
  have up: "wpos w \<le> ?n * 8"
    by (rule ceil_div_upper) simp
  have len: "?n \<le> length (wbytes w)"
    using assms by (simp add: writer_inv_def ceil_div_le_iff mult.commute)
  have "bits_of (to_uint8_array w) = take (8 * ?n) (bits_of (wbytes w))"
    by (simp add: to_uint8_array_def take_bits_of)
  also have "\<dots> = written w @ replicate (pad (wpos w)) False"
    using len up by (subst writer_bits [OF assms])
      (simp add: length_written [OF assms] pad_def mult.commute)
  finally show ?thesis .
qed

lemma to_uint8_array_emits:
  assumes "emits f xs" and len: "length xs < 2 ^ 32"
  shows "bits_of (to_uint8_array (f new_writer)) = xs @ replicate (pad (length xs)) False"
    and "wpos (f new_writer) = length xs"
proof -
  from emitsD [OF assms(1) writer_new(1)] len have f: "writer_inv (f new_writer)" "written (f new_writer) = xs"
    by (simp_all add: writer_new(2)) (simp_all add: new_writer_def)
  then show "wpos (f new_writer) = length xs"
    using length_written by fastforce
  with bits_of_to_uint8_array [OF f(1)] f(2)
  show "bits_of (to_uint8_array (f new_writer)) = xs @ replicate (pad (length xs)) False"
    by simp
qed

lemma message_roundtrip:
  assumes "emits f xs" and "parses p xs a" and "length xs < 2 ^ 32"
  shows "p (new_reader (to_uint8_array (f new_writer)))
    = Inr (a, adv (length xs) (new_reader (to_uint8_array (f new_writer))))"
proof (rule parses_new_reader [OF assms(2) _ to_uint8_array_emits(1) [OF assms(1,3)]])
  have "8 * length (to_uint8_array (f new_writer)) = length xs + pad (length xs)"
    using arg_cong [OF to_uint8_array_emits(1) [OF assms(1,3)], of length] by simp
  then have "8 * length (to_uint8_array (f new_writer)) < length xs + 8"
    using ceil_div_upper [of 8 "length xs"] ceil_div_lower [of 8 "length xs"] by (simp add: pad_def)
  moreover have "length xs < 4294967296"
    using assms(3) by simp
  ultimately have "8 * length (to_uint8_array (f new_writer)) \<le> 4294967296"
    by presburger
  then show "8 * length (to_uint8_array (f new_writer)) \<le> 2 ^ 32"
    by simp
qed

section \<open>The writes\<close>

lemma emits_write_boolean: "emits (write_boolean b) [b]"
  using emits_write_bits [of 1 "if b then 1 else 0"]
  by (cases b) (simp_all add: write_boolean_def)

lemma emits_write_uint16: "emits (write_uint16 v) (map (bit v) [0..<16])"
  unfolding write_uint16_def by (rule emits_write_bits) simp

lemma bits_word_of_int: "map (bit (word_of_int v :: u32)) [0..<32] = map (bit v) [0..<32]"
  by (rule map_cong) (auto simp: bit_simps)

lemma bits_take_bit_64: "map (bit (take_bit 64 (v :: int))) [0..<64] = map (bit v) [0..<64]"
  by (rule map_cong) (auto simp: bit_simps)

lemma emits_word_of_int: "emits (write_bits (word_of_int v) 32) (map (bit v) [0..<32])"
  using emits_write_bits [of 32 "word_of_int v"] unfolding bits_word_of_int by simp

lemma emits_write_int32: "emits (write_int32 v) (map (bit v) [0..<32])"
  unfolding write_int32_def by (rule emits_word_of_int)

lemma emits_write_uint32: "emits (write_uint32 v) (map (bit v) [0..<32])"
  unfolding write_uint32_def by (rule emits_word_of_int)

lemma emits_put_bigint: "emits (put_bigint v i n) (map (bit v) [i..<i + n])"
proof (induction n arbitrary: i)
  case (Suc n)
  have "map (bit (word_of_int (drop_bit i v AND 1) :: u32)) [0..<1] = [bit v i]"
    by (simp add: bit_simps)
  then have "emits (write_bits (word_of_int (drop_bit i v AND 1)) 1) [bit v i]"
    using emits_write_bits [of 1 "word_of_int (drop_bit i v AND 1)"] by simp
  from emits_comp [OF this Suc.IH [of "Suc i"]] show ?case
    by (simp add: emits_def upt_rec)
qed (simp add: emits_def)

lemma emits_write_uint64: "emits (write_uint64 v) (map (bit v) [0..<64])"
  unfolding write_uint64_def using emits_put_bigint [of v 0 64] by simp

lemma emits_write_int64: "emits (write_int64 v) (map (bit v) [0..<64])"
  unfolding write_int64_def using emits_write_uint64 [of "take_bit 64 v"]
  unfolding bits_take_bit_64 .

text \<open>Storing whole bytes at an aligned position.\<close>

lemma emits_set_bytes:
  fixes bs :: "byte list"
  assumes w: "writer_inv w" and al: "wpos w mod 8 = 0" and l: "wpos w + 8 * length bs < 2 ^ 32"
  defines "e \<equiv> ensure_capacity (length bs * 8) w"
  defines "w' \<equiv> e\<lparr>wbytes := set_bytes (byte_index (wpos e)) bs (wbytes e), wpos := wpos e + length bs * 8\<rparr>"
  shows "writer_inv w' \<and> written w' = written w @ bits_of bs"
proof -
  obtain m where m: "bits_of (wbytes e) = written w @ replicate m False" "length bs * 8 \<le> m"
      "0 < length (wbytes e)" "wpos e = wpos w"
    unfolding e_def using ensure_capacity_bits [OF w] by blast
  let ?k = "wpos w div 8"
  have k: "8 * ?k = wpos w"
    using al by (metis add_0_right mult_div_mod_eq)
  have len: "8 * length (wbytes e) = wpos w + m"
    using arg_cong [OF m(1), of length] length_written [OF w] by simp
  have "bits_of (take ?k (wbytes e)) = written w"
    using k m(1) length_written [OF w] by (simp flip: take_bits_of)
  moreover have "bits_of (drop (?k + length bs) (wbytes e)) = replicate (m - length bs * 8) False"
    using k m(1) length_written [OF w] by (simp add: algebra_simps flip: drop_bits_of)
  ultimately have b: "bits_of (set_bytes ?k bs (wbytes e)) = (written w @ bits_of bs) @ replicate (m - length bs * 8) False"
    by (simp add: set_bytes_def)
  have "0 < length (set_bytes ?k bs (wbytes e))"
  proof -
    have "8 * length (set_bytes ?k bs (wbytes e)) = 8 * length (wbytes e)"
      using arg_cong [OF b, of length] len m(2) length_written [OF w] by simp
    with m(3) show ?thesis
      by simp
  qed
  from writer_of_bits [OF b this] show ?thesis
    using m(4) l length_written [OF w] by (simp add: w'_def written_def writer_inv_def mult.commute byte_index_small)
qed

lemma emits_bytewise: "emits (fold (\<lambda>b. write_byte (ucast b)) bs) (bits_of bs)"
proof -
  have "map (bit (ucast b :: u32)) [0..<8] = byte_bits b" for b :: byte
    by (auto simp: byte_bits_def bit_simps)
  then have "emits (write_byte (ucast b)) (byte_bits b)" for b :: byte
    using emits_write_byte [of "ucast b"] by simp
  then show ?thesis
    unfolding bits_of_def by (rule emits_fold)
qed

lemma emits_write_bytes: "emits (write_bytes bs) (bits_of bs)"
proof (rule emitsI)
  fix w
  assume w: "writer_inv w" and l: "wpos w + length (bits_of bs) < 2 ^ 32"
  show "writer_inv (write_bytes bs w) \<and> written (write_bytes bs w) = written w @ bits_of bs"
  proof (cases "wpos w mod 8 = 0")
    case True
    from emits_set_bytes [OF w True, of bs] l True show ?thesis
      by (simp add: write_bytes_def Let_def)
  next
    case False
    with emitsD [OF emits_bytewise w l] show ?thesis
      by (simp add: write_bytes_def)
  qed
qed

lemma bits_of_le_bytes: "8 * n \<le> LENGTH('a) \<Longrightarrow> bits_of (le_bytes n (v :: 'a::len word)) = map (bit v) [0..<8 * n]"
  by (rule nth_equalityI) (auto simp: nth_bits_of le_bytes_def bit_simps)

lemma emits_write_float32: "emits (write_float32 x) (map (bit (f64_to_f32 x)) [0..<32])"
proof (rule emitsI)
  fix w
  assume w: "writer_inv w" and l: "wpos w + length (map (bit (f64_to_f32 x)) [0..<32]) < 2 ^ 32"
  have len: "length (le_bytes 4 (f64_to_f32 x)) * 8 = 32"
    by (simp add: le_bytes_def)
  have bits: "bits_of (le_bytes 4 (f64_to_f32 x)) = map (bit (f64_to_f32 x)) [0..<32]"
    by (simp add: bits_of_le_bytes)
  from emits_set_bytes [OF w, of "le_bytes 4 (f64_to_f32 x)"] emitsD [OF emits_write_bytes w l [folded bits]] l
  show "writer_inv (write_float32 x w) \<and> written (write_float32 x w) = written w @ map (bit (f64_to_f32 x)) [0..<32]"
    unfolding len bits [symmetric] by (auto simp: write_float32_def Let_def bits le_bytes_def)
qed

lemma emits_write_float64: "emits (write_float64 x) (map (bit (canon x)) [0..<64])"
proof (rule emitsI)
  fix w
  assume w: "writer_inv w" and l: "wpos w + length (map (bit (canon x)) [0..<64]) < 2 ^ 32"
  have len: "length (le_bytes 8 (canon x)) * 8 = 64"
    by (simp add: le_bytes_def)
  have bits: "bits_of (le_bytes 8 (canon x)) = map (bit (canon x)) [0..<64]"
    by (simp add: bits_of_le_bytes)
  from emits_set_bytes [OF w, of "le_bytes 8 (canon x)"] emitsD [OF emits_write_bytes w l [folded bits]] l
  show "writer_inv (write_float64 x w) \<and> written (write_float64 x w) = written w @ map (bit (canon x)) [0..<64]"
    unfolding len bits [symmetric] by (auto simp: write_float64_def Let_def bits le_bytes_def)
qed

text \<open>A string is its length in UTF-8 bytes and the bytes.\<close>

definition enc_string :: "jstring \<Rightarrow> bool list" where
  "enc_string s = bits_of (varint (length (text_encode s))) @ bits_of (text_encode s)"

text \<open>The strings a reader with the given byte limit gives back.\<close>

definition string_ok :: "nat \<Rightarrow> jstring \<Rightarrow> bool" where
  "string_ok maxBytes s \<longleftrightarrow> well_formed s \<and> length (text_encode s) \<le> maxBytes \<and> length (text_encode s) < 4294967296"

lemma unat_of_nat_u32: "n < 4294967296 \<Longrightarrow> unat (of_nat n :: u32) = n"
  by (simp add: unat_of_nat)

lemma enc_string_length: "string_ok n s \<Longrightarrow> length (enc_string s) \<le> 40 + 8 * n"
  using varint_length_u32 [of "length (text_encode s)"] by (simp add: enc_string_def string_ok_def)

lemma emits_write_string: "length (text_encode s) < 4294967296 \<Longrightarrow> emits (write_string s) (enc_string s)"
  unfolding write_string_def enc_string_def Let_def
  using emits_comp [OF emits_write_variable [of "of_nat (length (text_encode s))"] emits_write_bytes [of "text_encode s"]]
  by (simp add: unat_of_nat_u32)

lemma parses_read_string: "string_ok maxBytes s \<Longrightarrow> parses (read_string maxBytes) (enc_string s) (drop_bom s)"
  unfolding read_string_def enc_string_def string_ok_def
  by (intro parses_bind [OF parses_read_variable])
    (auto simp: unat_of_nat_u32 intro!: parses_bind_last [OF parses_read_bytes] parses_lift text_roundtrip)

section \<open>The interpretations\<close>

interpretation boolean: wire_codec write_boolean read_boolean "\<lambda>b. [b]" "\<lambda>b. True" "\<lambda>b. b"
  by unfold_locales (simp_all add: emits_write_boolean parses_read_boolean)

interpretation uint16: wire_codec write_uint16 read_uint16 "\<lambda>v. map (bit v) [0..<16]" "\<lambda>v. True" "take_bit 16"
  by unfold_locales (simp_all add: emits_write_uint16 parses_read_uint16)

interpretation int32: wire_codec write_int32 read_int32 "\<lambda>v. map (bit v) [0..<32]" "\<lambda>v. True" "signed_take_bit 31"
  by unfold_locales (simp_all add: emits_write_int32 parses_read_int32)

interpretation uint32: wire_codec write_uint32 read_uint32 "\<lambda>v. map (bit v) [0..<32]" "\<lambda>v. True" word_of_int
proof unfold_locales
  fix v :: int
  show "emits (write_uint32 v) (map (bit v) [0..<32])"
    by (rule emits_write_uint32)
  show "parses read_uint32 (map (bit v) [0..<32]) (word_of_int v)"
    using parses_read_uint32 [of "word_of_int v"] unfolding bits_word_of_int .
qed

interpretation uint64: wire_codec write_uint64 read_uint64 "\<lambda>v. map (bit v) [0..<64]" "\<lambda>v. True" "take_bit 64"
  by unfold_locales (simp_all add: emits_write_uint64 parses_read_uint64)

interpretation int64: wire_codec write_int64 read_int64 "\<lambda>v. map (bit v) [0..<64]" "\<lambda>v. True" "signed_take_bit 63"
  by unfold_locales (simp_all add: emits_write_int64 parses_read_int64)

interpretation float32: wire_codec write_float32 read_float32 "\<lambda>x. map (bit (f64_to_f32 x)) [0..<32]" "\<lambda>x. True" js_fround
  by unfold_locales (simp_all add: emits_write_float32 parses_read_float32 js_fround_def)

interpretation float64: wire_codec write_float64 read_float64 "\<lambda>x. map (bit (canon x)) [0..<64]" "\<lambda>x. True" canon
proof unfold_locales
  fix x
  show "parses read_float64 (map (bit (canon x)) [0..<64]) (canon x)"
    using parses_read_float64 [of "canon x"] by simp
qed (rule emits_write_float64)

interpretation varuint: wire_codec write_variable_uint32 read_variable_uint32 "\<lambda>v. bits_of (varint (unat v))"
  "\<lambda>v. True" "\<lambda>v. v"
proof unfold_locales
  fix v :: u32
  show "parses read_variable_uint32 (bits_of (varint (unat v))) v"
    using parses_read_variable [of "unat v"] unsigned_less [of v] by simp
qed (rule emits_write_variable)

interpretation utf8: wire_codec write_string "read_string maxBytes" enc_string "string_ok maxBytes" drop_bom
  for maxBytes
  by unfold_locales (simp_all add: emits_write_string parses_read_string string_ok_def)

section \<open>Reads stay within the buffer\<close>

definition bounded_rd :: "'a rd \<Rightarrow> bool" where
  "bounded_rd p \<longleftrightarrow> (\<forall>r a r'. p r = Inr (a, r') \<longrightarrow> rpos r \<le> 8 * length (rdata r) \<longrightarrow>
     rdata r' = rdata r \<and> rpos r \<le> rpos r' \<and> rpos r' \<le> 8 * length (rdata r))"

lemma bounded_return: "bounded_rd (rd_return a)"
  by (auto simp: bounded_rd_def)

lemma bounded_throw: "bounded_rd (rd_throw e)"
  by (auto simp: bounded_rd_def)

lemma bounded_lift: "bounded_rd (rd_lift m)"
  by (auto simp: bounded_rd_def rd_lift_def split: sum.splits)

lemma bounded_bind:
  assumes "bounded_rd p" "\<And>a. bounded_rd (f a)"
  shows "bounded_rd (rd_bind p f)"
  unfolding bounded_rd_def
proof (intro allI impI)
  fix r b r'
  assume b: "rd_bind p f r = Inr (b, r')" "rpos r \<le> 8 * length (rdata r)"
  then obtain a r1 where a: "p r = Inr (a, r1)" "f a r1 = Inr (b, r')"
    by (auto simp: rd_bind_def split: sum.splits)
  from assms(1) a(1) b(2) have r1: "rdata r1 = rdata r \<and> rpos r \<le> rpos r1 \<and> rpos r1 \<le> 8 * length (rdata r)"
    unfolding bounded_rd_def by blast
  with assms(2) a(2) have "rdata r' = rdata r1 \<and> rpos r1 \<le> rpos r' \<and> rpos r' \<le> 8 * length (rdata r1)"
    unfolding bounded_rd_def by metis
  with r1 show "rdata r' = rdata r \<and> rpos r \<le> rpos r' \<and> rpos r' \<le> 8 * length (rdata r)"
    by simp
qed

lemma bounded_map: "bounded_rd p \<Longrightarrow> bounded_rd (rd_map f p)"
  unfolding rd_map_def by (intro bounded_bind bounded_return)

lemma bounded_times: "bounded_rd p \<Longrightarrow> bounded_rd (read_times n p)"
  by (induction n) (auto intro: bounded_bind bounded_return simp del: rd_return_apply)

lemma bounded_if: "(c \<Longrightarrow> bounded_rd p) \<Longrightarrow> (\<not> c \<Longrightarrow> bounded_rd q) \<Longrightarrow> bounded_rd (if c then p else q)"
  by simp

lemma bounded_read_bits: "bounded_rd (read_bits n)"
  by (auto simp: bounded_rd_def read_bits_def remaining_bits_def res_map_Inr_iff split: if_splits)

lemmas bounded_intros = bounded_return bounded_throw bounded_lift bounded_bind bounded_map bounded_times
  bounded_if bounded_read_bits

lemma bounded_byte: "bounded_rd read_byte"
  unfolding read_byte_def by (rule bounded_read_bits)

lemma bounded_gather: "bounded_rd (gather_bigint i n v)"
  by (induction n arbitrary: i v) (auto intro!: bounded_intros simp del: rd_return_apply)

lemma bounded_uint64: "bounded_rd read_uint64"
  unfolding read_uint64_def by (rule bounded_gather)

lemma bounded_branch:
  assumes "bounded_rd q" and "\<And>r. c r \<Longrightarrow> n \<le> remaining_bits r"
  shows "bounded_rd (\<lambda>r. if c r then Inr (g r, r\<lparr>rpos := rpos r + n\<rparr>) else q r)"
  using assms by (fastforce simp: bounded_rd_def remaining_bits_def split: if_splits)

lemma bounded_float32: "bounded_rd read_float32"
  unfolding read_float32_def by (rule bounded_branch) (auto intro: bounded_intros bounded_byte)

lemma bounded_float64: "bounded_rd read_float64"
  unfolding read_float64_def by (rule bounded_branch) (auto intro: bounded_intros bounded_byte)

lemma bounded_var_loop: "bounded_rd (read_var_loop k index v)"
  by (induction k arbitrary: index v) (auto simp: Let_def intro!: bounded_intros bounded_byte simp del: rd_return_apply rd_throw_apply)

lemma bounded_variable: "bounded_rd read_variable_uint32"
  unfolding read_variable_uint32_def by (rule bounded_var_loop)

lemma bounded_bytes: "bounded_rd (read_bytes n)"
proof -
  let ?q = "rd_map (map ucast) (read_times n read_byte) :: byte list rd"
  have q: "bounded_rd ?q"
    by (intro bounded_intros bounded_byte)
  show ?thesis
    unfolding bounded_rd_def
  proof (intro allI impI)
    fix r bs r'
    assume read: "read_bytes n r = Inr (bs, r')" and r: "rpos r \<le> 8 * length (rdata r)"
    then consider "r' = r\<lparr>rpos := rpos r + n * 8\<rparr>" "n * 8 \<le> remaining_bits r" | "?q r = Inr (bs, r')"
      by (auto simp: read_bytes_def split: if_splits)
    then show "rdata r' = rdata r \<and> rpos r \<le> rpos r' \<and> rpos r' \<le> 8 * length (rdata r)"
    proof cases
      case 1
      with r show ?thesis
        by (simp add: remaining_bits_def)
    next
      case 2
      with q r show ?thesis
        unfolding bounded_rd_def by blast
    qed
  qed
qed

lemma bounded_string: "bounded_rd (read_string n)"
  unfolding read_string_def by (intro bounded_intros bounded_variable bounded_bytes)

lemma bounded_typed:
  "bounded_rd read_boolean" "bounded_rd read_uint16" "bounded_rd read_int32" "bounded_rd read_uint32"
  "bounded_rd read_int64"
  unfolding read_boolean_def read_uint16_def read_int32_def read_uint32_def read_int64_def
  by (intro bounded_intros bounded_uint64)+

lemmas bounded_reads = bounded_byte bounded_uint64 bounded_float32 bounded_float64 bounded_variable
  bounded_bytes bounded_string bounded_typed

end
