(* ===== verification/Wire_Packet.thy ===== *)
theory Wire_Packet
  imports Wire_Codec
begin

text \<open>
  What the packet modules of \<open>packages/core/src/zeepnet\<close> share: a packet is written as a sequence
  of writer operations after its 16-bit id (\<open>write_packet\<close>), and read by a reader over the whole
  payload.

  \<open>emits_writes\<close> gives the bits of a sequence of writes; \<open>parses_steps\<close> follows a sequence of
  reads over the same bits, one step for each typed read. \<open>bounded_text\<close> bounds what \<open>readString\<close>
  returns for any input.
\<close>

section \<open>Writing\<close>

text \<open>The writer operations of a source block, in order.\<close>

definition writes :: "(bit_writer \<Rightarrow> bit_writer) list \<Rightarrow> bit_writer \<Rightarrow> bit_writer" where
  "writes fs = fold (\<lambda>f. f) fs"

definition write_packet :: "u32 \<Rightarrow> (bit_writer \<Rightarrow> bit_writer) \<Rightarrow> byte list" where
  "write_packet packetId write_body = to_uint8_array (write_body (write_uint16 packetId new_writer))"

lemma emits_writes: "list_all2 emits fs xss \<Longrightarrow> emits (writes fs) (concat xss)"
proof (induction fs xss rule: list_all2_induct)
  case Nil
  show ?case by (simp add: writes_def emits_def)
next
  case (Cons f xs fs xss)
  from emits_comp [OF Cons(1,3)] show ?case
    by (simp add: writes_def emits_def)
qed

lemmas emits_typed = emits_write_boolean emits_write_uint16 emits_write_int32 emits_write_uint32
  emits_write_uint64 emits_write_float32 emits_write_float64 emits_write_bytes emits_write_string

lemma write_packet_parses:
  assumes "emits f xs" "parses p xs a" "16 + length xs < 2 ^ 32"
  shows "rd_bind read_uint16 (\<lambda>packet. if packet = take_bit 16 n then p else q packet) (new_reader (write_packet n f))
    = Inr (a, adv (16 + length xs) (new_reader (write_packet n f)))"
proof -
  have w: "emits (\<lambda>w. f (write_uint16 n w)) (map (bit n) [0..<16] @ xs)"
    by (rule emits_comp [OF emits_write_uint16 assms(1)])
  have r: "parses (rd_bind read_uint16 (\<lambda>packet. if packet = take_bit 16 n then p else q packet))
      (map (bit n) [0..<16] @ xs) a"
    using assms(2) by (intro parses_bind [OF parses_read_uint16]) simp
  from message_roundtrip [OF w r] assms(3) show ?thesis
    by (simp add: write_packet_def)
qed

text \<open>The general form, for a parser that dispatches on the id itself.\<close>

lemma write_packet_roundtrip:
  assumes "emits f xs" "parses p (map (bit n) [0..<16] @ xs) a" "16 + length xs < 2 ^ 32"
  shows "\<exists>r. p (new_reader (write_packet n f)) = Inr (a, r)"
  using message_roundtrip [OF emits_comp [OF emits_write_uint16 assms(1)] assms(2)] assms(3)
  by (auto simp: write_packet_def)

text \<open>The length of a list of encoded values.\<close>

lemma length_concat_map_le: "(\<And>x. x \<in> set xs \<Longrightarrow> length (f x) \<le> c) \<Longrightarrow> length (concat (map f xs)) \<le> length xs * c"
proof (induction xs)
  case (Cons x xs)
  have "length (f x) \<le> c" "length (concat (map f xs)) \<le> length xs * c"
    using Cons by simp_all
  then show ?case
    by simp
qed simp

section \<open>Reading\<close>

text \<open>\<open>reader.remainingBits\<close>\<close>

definition rd_remaining :: "nat rd" where
  "rd_remaining r = Inr (remaining_bits r, r)"

lemma parses_if_throw: "\<not> c \<Longrightarrow> parses p xs a \<Longrightarrow> parses (if c then rd_throw e else p) xs a"
  by simp

lemma parses_if_then: "c \<Longrightarrow> parses p xs a \<Longrightarrow> parses (if c then p else q) xs a"
  by simp

lemma parses_if_else: "\<not> c \<Longrightarrow> parses q xs a \<Longrightarrow> parses (if c then p else q) xs a"
  by simp

lemmas parses_steps =
  parses_bind [OF parses_read_boolean] parses_bind [OF parses_read_uint16]
  parses_bind [OF parses_read_int32] parses_bind [OF parses_read_uint64]
  parses_bind [OF parses_read_uint32] parses_bind [OF parses_read_float32]
  parses_bind [OF parses_read_float64] parses_bind [OF parses_read_string] parses_bind [OF parses_byte]

lemma signed_small: "0 \<le> v \<Longrightarrow> v < 2147483648 \<Longrightarrow> signed_take_bit 31 (v::int) = v"
  by (simp add: signed_take_bit_int_eq_self)

lemma take_bit_64_small: "0 \<le> v \<Longrightarrow> v < 18446744073709551616 \<Longrightarrow> take_bit 64 (v::int) = v"
  by (simp add: take_bit_int_eq_self)

section \<open>Every text read is bounded\<close>

lemma length_units: "length (units c) \<le> 2" "c < 128 \<Longrightarrow> length (units c) = 1"
  by (simp_all add: units_def)

lemma utf8_decode_length: "utf8_decode bs = Some cs \<Longrightarrow> length (concat (map units cs)) \<le> length bs"
proof (induction bs arbitrary: cs rule: length_induct)
  case (1 bs)
  show ?case
  proof (cases bs)
    case Nil
    with "1.prems" show ?thesis by simp
  next
    case bs: (Cons b r)
    show ?thesis
    proof (cases "unat b < 128")
      case True
      with "1.prems" obtain ds where ds: "utf8_decode r = Some ds" "cs = unat b # ds"
        by (auto simp: bs)
      with "1.IH" have "length (concat (map units ds)) \<le> length r"
        by (simp add: bs)
      with True ds(2) show ?thesis
        by (simp add: bs length_units(2))
    next
      case False
      have "\<exists>q ds c. utf8_decode q = Some ds \<and> length q + 2 \<le> length bs \<and> cs = c # ds"
        using "1.prems" False unfolding bs by (auto split: if_splits list.splits) fastforce+
      then obtain c q ds where q: "utf8_decode q = Some ds" "length q + 2 \<le> length bs" "cs = c # ds"
        by blast
      with "1.IH" have "length (concat (map units ds)) \<le> length q"
        by simp
      with length_units(1) [of c] q show ?thesis by simp
    qed
  qed
qed

lemma length_strip_bom: "length (strip_bom bs) \<le> length bs"
  by (cases bs rule: strip_bom.cases) auto

lemma text_decode_length: "text_decode bs = Inr s \<Longrightarrow> length s \<le> length bs"
  using utf8_decode_length [of "strip_bom bs"] length_strip_bom [of bs]
  by (auto simp: text_decode_def split: option.splits intro: le_trans)

lemma read_times_length: "read_times k p r = Inr (xs, r') \<Longrightarrow> length xs = k"
  by (induction k arbitrary: r xs r') (auto simp: rd_bind_def split: sum.splits)

lemma read_bytes_length:
  assumes "read_bytes n r = Inr (bs, r')"
  shows "length bs = n"
proof -
  have "rpos r mod 8 = 0 \<Longrightarrow> n * 8 \<le> remaining_bits r \<Longrightarrow> n \<le> length (rdata r) - byte_index (rpos r)"
  proof -
    assume "rpos r mod 8 = 0" "n * 8 \<le> remaining_bits r"
    moreover have "byte_index (rpos r) \<le> rpos r div 8"
      unfolding byte_index_def by (intro div_le_mono) simp
    ultimately show ?thesis
      by (simp add: remaining_bits_def)
  qed
  moreover have "length bs = n" if "rd_map (map ucast) (read_times n read_byte) r = Inr (bs, r')"
    using that read_times_length [of n read_byte r] by (auto simp: rd_map_def rd_bind_def split: sum.splits)
  ultimately show ?thesis
    using assms by (auto simp: read_bytes_def split: if_splits)
qed

lemma read_string_length: "read_string n r = Inr (s, r') \<Longrightarrow> length s \<le> n"
  using text_decode_length read_bytes_length
  by (fastforce simp: read_string_def rd_bind_def rd_lift_def split: sum.splits if_splits)

text \<open>The results of a read, whatever the input.\<close>

definition yields :: "'a rd \<Rightarrow> ('a \<Rightarrow> bool) \<Rightarrow> bool" where
  "yields p P \<longleftrightarrow> (\<forall>r a r'. p r = Inr (a, r') \<longrightarrow> P a)"

lemma yieldsD: "yields p P \<Longrightarrow> p r = Inr (a, r') \<Longrightarrow> P a"
  unfolding yields_def by blast

lemma yields_any: "yields p (\<lambda>_. True)"
  by (simp add: yields_def)

lemma yields_return: "P a \<Longrightarrow> yields (rd_return a) P"
  by (simp add: yields_def)

lemma yields_throw: "yields (rd_throw e) P"
  by (simp add: yields_def)

lemma yields_bind: "yields p P \<Longrightarrow> (\<And>a. P a \<Longrightarrow> yields (f a) Q) \<Longrightarrow> yields (rd_bind p f) Q"
  unfolding yields_def rd_bind_def by (fastforce split: sum.splits)

lemma yields_bind_any: "(\<And>a. yields (f a) Q) \<Longrightarrow> yields (rd_bind p f) Q"
  by (rule yields_bind [OF yields_any])

lemma yields_if: "(c \<Longrightarrow> yields p P) \<Longrightarrow> (\<not> c \<Longrightarrow> yields q P) \<Longrightarrow> yields (if c then p else q) P"
  by simp

lemma yields_string: "yields (read_string n) (\<lambda>s. length s \<le> n)"
  by (simp add: yields_def read_string_length)

lemma yields_bytes: "yields (read_bytes n) (\<lambda>bs. length bs = n)"
  by (simp add: yields_def read_bytes_length)

lemma yields_times: "yields p P \<Longrightarrow> yields (read_times n p) (\<lambda>xs. length xs = n \<and> (\<forall>x\<in>set xs. P x))"
proof (induction n)
  case (Suc n)
  show ?case
    unfolding read_times.simps
    by (rule yields_bind [OF Suc.prems], rule yields_bind [OF Suc.IH [OF Suc.prems]]) (rule yields_return, simp)
qed (simp add: yields_return del: rd_return_apply)

section \<open>Evaluating literals\<close>

lemmas string_eval = string_ok_def text_encode_def utf8_encode_def utf8_scalar_def lit_def is_high_def is_low_def
  scalars_plain

end
