(* ===== verification/Wire_Values.thy ===== *)
theory Wire_Values
  imports Wire_Packet
begin

text \<open>
  Any sequence of typed values, written with \<open>BitWriter\<close> and read back with the same sequence of
  \<open>BitReader\<close> calls. \<open>wire_value\<close> has a constructor for each pair of operations of
  \<open>packages/core/src/zeepnet/binary.ts\<close>; \<open>value_view\<close> is what the reader returns for a value and
  \<open>value_ok\<close> when it does.
\<close>

datatype wire_value =
    W_Boolean bool
  | W_Byte byte
  | W_Uint16 u32
  | W_Int32 int
  | W_Uint32 int
  | W_Uint64 int
  | W_Int64 int
  | W_Float32 js_number
  | W_Float64 js_number
  | W_Variable u32
  | W_Bytes "byte list"
  | W_String nat jstring

fun write_value :: "wire_value \<Rightarrow> bit_writer \<Rightarrow> bit_writer" where
  "write_value (W_Boolean b) = write_boolean b"
| "write_value (W_Byte b) = write_byte (ucast b)"
| "write_value (W_Uint16 v) = write_uint16 v"
| "write_value (W_Int32 v) = write_int32 v"
| "write_value (W_Uint32 v) = write_uint32 v"
| "write_value (W_Uint64 v) = write_uint64 v"
| "write_value (W_Int64 v) = write_int64 v"
| "write_value (W_Float32 x) = write_float32 x"
| "write_value (W_Float64 x) = write_float64 x"
| "write_value (W_Variable v) = write_variable_uint32 v"
| "write_value (W_Bytes bs) = write_bytes bs"
| "write_value (W_String n s) = write_string s"

text \<open>The read that matches a value, with the result in the same datatype.\<close>

fun read_like :: "wire_value \<Rightarrow> wire_value rd" where
  "read_like (W_Boolean _) = rd_map W_Boolean read_boolean"
| "read_like (W_Byte _) = rd_map (\<lambda>v. W_Byte (ucast v)) read_byte"
| "read_like (W_Uint16 _) = rd_map W_Uint16 read_uint16"
| "read_like (W_Int32 _) = rd_map W_Int32 read_int32"
| "read_like (W_Uint32 _) = rd_map (\<lambda>v. W_Uint32 (uint v)) read_uint32"
| "read_like (W_Uint64 _) = rd_map W_Uint64 read_uint64"
| "read_like (W_Int64 _) = rd_map W_Int64 read_int64"
| "read_like (W_Float32 _) = rd_map W_Float32 read_float32"
| "read_like (W_Float64 _) = rd_map W_Float64 read_float64"
| "read_like (W_Variable _) = rd_map W_Variable read_variable_uint32"
| "read_like (W_Bytes bs) = rd_map W_Bytes (read_bytes (length bs))"
| "read_like (W_String n _) = rd_map (W_String n) (read_string n)"

fun read_all_like :: "wire_value list \<Rightarrow> wire_value list rd" where
  "read_all_like [] = rd_return []"
| "read_all_like (v # vs) = rd_bind (read_like v) (\<lambda>x. rd_map ((#) x) (read_all_like vs))"

fun value_ok :: "wire_value \<Rightarrow> bool" where
  "value_ok (W_String n s) = string_ok n s"
| "value_ok _ = True"

fun value_view :: "wire_value \<Rightarrow> wire_value" where
  "value_view (W_Uint16 v) = W_Uint16 (take_bit 16 v)"
| "value_view (W_Int32 v) = W_Int32 (signed_take_bit 31 v)"
| "value_view (W_Uint32 v) = W_Uint32 (take_bit 32 v)"
| "value_view (W_Uint64 v) = W_Uint64 (take_bit 64 v)"
| "value_view (W_Int64 v) = W_Int64 (signed_take_bit 63 v)"
| "value_view (W_Float32 x) = W_Float32 (js_fround x)"
| "value_view (W_Float64 x) = W_Float64 (canon x)"
| "value_view (W_String n s) = W_String n (drop_bom s)"
| "value_view v = v"

fun value_bits :: "wire_value \<Rightarrow> bool list" where
  "value_bits (W_Boolean b) = [b]"
| "value_bits (W_Byte b) = byte_bits b"
| "value_bits (W_Uint16 v) = map (bit v) [0..<16]"
| "value_bits (W_Int32 v) = map (bit v) [0..<32]"
| "value_bits (W_Uint32 v) = map (bit v) [0..<32]"
| "value_bits (W_Uint64 v) = map (bit v) [0..<64]"
| "value_bits (W_Int64 v) = map (bit v) [0..<64]"
| "value_bits (W_Float32 x) = map (bit (f64_to_f32 x)) [0..<32]"
| "value_bits (W_Float64 x) = map (bit (canon x)) [0..<64]"
| "value_bits (W_Variable v) = bits_of (varint (unat v))"
| "value_bits (W_Bytes bs) = bits_of bs"
| "value_bits (W_String n s) = enc_string s"

lemma emits_byte_value: "emits (write_byte (ucast b)) (byte_bits b)"
proof -
  have "map (bit (ucast b :: u32)) [0..<8] = byte_bits b"
    by (auto simp: byte_bits_def bit_simps)
  then show ?thesis
    using emits_write_byte [of "ucast b"] by simp
qed

lemma emits_value: "value_ok v \<Longrightarrow> emits (write_value v) (value_bits v)"
proof (cases v)
  case (W_String n s)
  then show "value_ok v \<Longrightarrow> ?thesis"
    using utf8.emits_write [of n s] by simp
qed (simp_all add: emits_typed emits_byte_value emits_write_int64 emits_write_variable)

lemma parses_map_to: "parses p xs a \<Longrightarrow> f a = b \<Longrightarrow> parses (rd_map f p) xs b"
  by (drule parses_map [of _ _ _ f]) simp

lemma ucast_ucast_byte: "ucast (ucast (b :: byte) :: u32) = b"
  by (rule bit_word_eqI) (auto simp: bit_simps)

lemma parses_value: "value_ok v \<Longrightarrow> parses (read_like v) (value_bits v) (value_view v)"
  by (cases v) (auto simp: ucast_ucast_byte uint_word_of_int take_bit_eq_mod intro: parses_map_to
      parses_read_boolean parses_byte uint16.parses_read int32.parses_read uint32.parses_read uint64.parses_read
      int64.parses_read float32.parses_read float64.parses_read varuint.parses_read parses_read_bytes utf8.parses_read)

lemma parses_values:
  "(\<And>v. v \<in> set vs \<Longrightarrow> value_ok v) \<Longrightarrow>
   parses (read_all_like vs) (concat (map value_bits vs)) (map value_view vs)"
proof (induction vs)
  case (Cons v vs)
  then have "parses (rd_map ((#) (value_view v)) (read_all_like vs)) (concat (map value_bits vs)) (map value_view (v # vs))"
    by (intro parses_map_to [OF Cons.IH]) simp_all
  then have "parses (rd_bind (read_like v) (\<lambda>x. rd_map ((#) x) (read_all_like vs)))
      (value_bits v @ concat (map value_bits vs)) (map value_view (v # vs))"
    by (rule parses_bind [OF parses_value, rotated]) (simp add: Cons.prems)
  then show ?case
    by simp
qed (simp add: parses_return del: rd_return_apply)

lemma emits_values:
  "(\<And>v. v \<in> set vs \<Longrightarrow> value_ok v) \<Longrightarrow> emits (fold write_value vs) (concat (map value_bits vs))"
  by (intro emits_fold emits_value)

lemma bounded_value: "bounded_rd (read_like v)"
  by (cases v) (auto intro!: bounded_map bounded_reads simp del: rd_return_apply)

text \<open>A single typed read of \<open>n\<close> bits fails at the end of the buffer.\<close>

lemma read_bits_end: "remaining_bits r < n \<Longrightarrow> read_bits n r = Inl (Error ''Packet ended before requested bits'')"
  by (simp add: read_bits_def)

end
