(* ===== verification/Level_Payload.thy ===== *)
theory Level_Payload
  imports Wire_Codec
begin

text \<open>
  \<open>packages/core/src/zeepnet/levelPayload.ts\<close>: the compressed payload of a level, a line count
  followed by the lines, each with a seven-bit length. Compression is Bun's: \<open>gzip\<close> and \<open>gunzip\<close>
  are parameters, and the round trip assumes only that \<open>gunzip\<close> undoes \<open>gzip\<close>.

  \<open>split_on\<close> and \<open>split_regex\<close> are the two ways of the source to split a text into lines,
  \<open>level_bytes\<close> is what the encoder's sink holds, and \<open>read_level\<close> is the part of the decoder
  after decompression.
\<close>

section \<open>Encoding\<close>

definition max_level_payload_bytes :: nat where
  "max_level_payload_bytes = 64 * 1024 * 1024"

definition line_feed :: u16 where
  "line_feed = 10"

definition carriage_return :: u16 where
  "carriage_return = 13"

text \<open>\<open>split\<close> with a one-unit separator.\<close>

fun split_on :: "u16 \<Rightarrow> jstring \<Rightarrow> jstring list" where
  "split_on c [] = [[]]"
| "split_on c (u # us) =
     (if u = c then [] # split_on c us
      else case split_on c us of l # ls \<Rightarrow> (u # l) # ls | [] \<Rightarrow> [[u]])"

text \<open>\<open>split\<close> with the pattern \<open>\r\n|\n|\r\<close>.\<close>

fun split_regex :: "jstring \<Rightarrow> jstring list" where
  "split_regex [] = [[]]"
| "split_regex (u # us) =
     (if u = carriage_return \<and> us \<noteq> [] \<and> hd us = line_feed then [] # split_regex (tl us)
      else if u = line_feed \<or> u = carriage_return then [] # split_regex us
      else case split_regex us of l # ls \<Rightarrow> (u # l) # ls | [] \<Rightarrow> [[u]])"

definition split_legacy_lines :: "jstring \<Rightarrow> jstring list" where
  "split_legacy_lines content =
     (let lines = split_regex content in
      if lines \<noteq> [] \<and> last lines = [] then butlast lines else lines)"

text \<open>The \<open>do ... while\<close> loop of \<open>write7BitInt\<close>.\<close>

function write_7bit_int :: "u32 \<Rightarrow> byte list" where
  "write_7bit_int remaining =
     (let byte = remaining AND 0x7F; remaining' = drop_bit 7 remaining in
      if remaining' \<noteq> 0 then ucast (byte OR 0x80) # write_7bit_int remaining' else [ucast byte])"
  by pat_completeness auto
termination
proof (relation "measure unat")
  fix v v' byte :: u32
  assume v': "v' = drop_bit 7 v" "v' \<noteq> 0"
  then have "unat v \<noteq> 0"
    by (auto simp: unat_eq_0)
  then show "(v', v) \<in> measure unat"
    using unat_drop7 [of v] v' by simp
qed simp

declare write_7bit_int.simps [simp del]

definition level_lines :: "jstring \<Rightarrow> bool \<Rightarrow> jstring list" where
  "level_lines content v15 =
     (let normalizedContent = drop_bom content in
      if v15 then split_on line_feed normalizedContent else split_legacy_lines normalizedContent)"

definition line_bytes :: "jstring \<Rightarrow> byte list" where
  "line_bytes line = (let bytes = text_encode line in write_7bit_int (of_nat (length bytes)) @ bytes)"

definition level_bytes :: "jstring list \<Rightarrow> byte list" where
  "level_bytes lines = le_bytes 4 (of_nat (length lines) :: u32) @ concat (map line_bytes lines)"

definition encode_level_payload ::
  "(byte list \<Rightarrow> byte list) \<Rightarrow> jstring \<Rightarrow> bool \<Rightarrow> js_error + byte list" where
  "encode_level_payload gzip content v15 =
     (let uncompressed = level_bytes (level_lines content v15) in
      if max_level_payload_bytes < length uncompressed then Inl (Error ''Level payload is too large'')
      else Inr (gzip uncompressed))"

section \<open>Decoding\<close>

text \<open>The loop of \<open>read7BitInt\<close>: \<open>k\<close> iterations are left.\<close>

fun read_7bit_int :: "byte list \<Rightarrow> nat \<Rightarrow> nat \<Rightarrow> u32 \<Rightarrow> nat \<Rightarrow> js_error + (u32 \<times> nat)" where
  "read_7bit_int data 0 shift result offset = Inl (Error ''Level payload string length is invalid'')"
| "read_7bit_int data (Suc k) shift result offset =
     (if offset < length data
      then let byte = ucast (data ! offset); result' = result OR push_bit shift (byte AND 0x7F) in
        if byte AND 0x80 = (0 :: u32) then Inr (result', offset + 1)
        else read_7bit_int data k (shift + 7) result' (offset + 1)
      else Inl (Error ''Level payload string length is truncated''))"

fun read_lines :: "byte list \<Rightarrow> nat \<Rightarrow> nat \<Rightarrow> js_error + (jstring list \<times> nat)" where
  "read_lines data 0 offset = Inr ([], offset)"
| "read_lines data (Suc n) offset =
     res_bind (read_7bit_int data 5 0 0 offset) (\<lambda>(len, offset).
       if length data - offset < unat len then Inl (Error ''Level payload string is truncated'')
       else res_bind (text_decode (take (unat len) (drop offset data))) (\<lambda>line.
         res_map (\<lambda>(lines, offset). (line # lines, offset)) (read_lines data n (offset + unat len))))"

definition read_level :: "byte list \<Rightarrow> js_error + jstring list" where
  "read_level data =
     (if max_level_payload_bytes < length data then Inl (Error ''Level payload is too large'')
      else if length data < 4 then Inl (Error ''Level payload is truncated'')
      else let count = sint (of_nat (le_nat (take 4 data)) :: u32) in
        if count < 0 \<or> 10000000 < count then Inl (Error ''Invalid level line count'')
        else res_bind (read_lines data (nat count) 4) (\<lambda>(lines, offset).
          if offset \<noteq> length data then Inl (Error ''Level payload has trailing bytes'') else Inr lines))"

definition decode_level_payload ::
  "(byte list \<Rightarrow> js_error + byte list) \<Rightarrow> byte list \<Rightarrow> js_error + jstring list" where
  "decode_level_payload gunzip payload =
     (if max_level_payload_bytes < length payload then Inl (Error ''Level payload is too large'')
      else res_bind (gunzip payload) read_level)"

section \<open>Splitting into lines\<close>

text \<open>\<open>Array.prototype.join\<close> with a one-unit separator.\<close>

fun join_with :: "u16 \<Rightarrow> jstring list \<Rightarrow> jstring" where
  "join_with c [] = []"
| "join_with c [l] = l"
| "join_with c (l # ls) = l @ c # join_with c ls"

lemma split_on_nonempty: "split_on c s \<noteq> []"
  by (induction s) (auto split: list.splits)

lemma split_on_cases: obtains l ls where "split_on c s = l # ls"
  using split_on_nonempty [of c s] by (cases "split_on c s") auto

lemma join_Cons_unit: "join_with c ((u # l) # ls) = u # join_with c (l # ls)"
  by (cases ls) simp_all

lemma join_Nil_Cons: "ls \<noteq> [] \<Longrightarrow> join_with c ([] # ls) = c # join_with c ls"
  by (cases ls) simp_all

lemma join_split_on: "join_with c (split_on c s) = s"
proof (induction s)
  case (Cons u us)
  obtain l ls where "split_on c us = l # ls"
    by (rule split_on_cases)
  with Cons show ?case
    by (simp add: join_Cons_unit join_Nil_Cons)
qed simp

lemma split_on_no_sep: "l \<in> set (split_on c s) \<Longrightarrow> c \<notin> set l"
  by (induction s arbitrary: l) (auto split: if_splits list.splits)

lemma split_on_units: "l \<in> set (split_on c s) \<Longrightarrow> set l \<subseteq> set s"
  by (induction s arbitrary: l) (fastforce split: if_splits list.splits)+

lemma split_regex_nonempty: "split_regex s \<noteq> []"
  by (cases s) (auto split: list.splits)

lemma split_regex_no_newline: "l \<in> set (split_regex s) \<Longrightarrow> line_feed \<notin> set l \<and> carriage_return \<notin> set l"
proof (induction s arbitrary: l rule: split_regex.induct)
  case (2 u us)
  obtain k ks where "split_regex us = k # ks"
    using split_regex_nonempty [of us] by (cases "split_regex us") auto
  with 2 show ?case
    by (auto split: if_splits)
qed simp

text \<open>Splitting at a unit that is no surrogate keeps the lines well formed.\<close>

lemma well_formed_Cons_plain: "\<not> is_high u \<Longrightarrow> \<not> is_low u \<Longrightarrow> well_formed (u # us) \<longleftrightarrow> well_formed us"
  by simp

lemma well_formed_split_on:
  assumes "well_formed s" "\<not> is_high c" "\<not> is_low c" "l \<in> set (split_on c s)"
  shows "well_formed l"
  using assms(1,4)
proof (induction s arbitrary: l rule: jstring_induct)
  case (plain u us)
  obtain k ks where "split_on c us = k # ks"
    by (rule split_on_cases)
  with plain show ?case
    by (auto split: if_splits)
next
  case (pair u v vs)
  obtain k ks where k: "split_on c vs = k # ks"
    by (rule split_on_cases)
  have "u \<noteq> c" "v \<noteq> c" "\<not> is_low u"
    using pair.hyps assms(2,3) by (auto simp: is_high_def is_low_def)
  with pair k show ?case
    by auto
qed (auto simp: is_low_def is_high_def)

lemma well_formed_split_regex: "well_formed s \<Longrightarrow> l \<in> set (split_regex s) \<Longrightarrow> well_formed l"
proof (induction s arbitrary: l rule: length_induct)
  case (1 s)
  then have IH: "\<And>t k. length t < length s \<Longrightarrow> well_formed t \<Longrightarrow> k \<in> set (split_regex t) \<Longrightarrow> well_formed k"
    by blast
  have newline: "\<not> is_high line_feed" "\<not> is_low line_feed" "\<not> is_high carriage_return" "\<not> is_low carriage_return"
    by (simp_all add: is_high_def is_low_def line_feed_def carriage_return_def)
  show ?case
  proof (cases s)
    case Nil
    with "1.prems" show ?thesis by simp
  next
    case s: (Cons u us)
    obtain k ks where k: "split_regex us = k # ks"
      using split_regex_nonempty [of us] by (cases "split_regex us") auto
    show ?thesis
    proof (cases "is_high u")
      case False
      with s "1.prems"(1) have us: "well_formed us" "\<not> is_low u"
        by simp_all
      have tl: "us \<noteq> [] \<Longrightarrow> hd us = line_feed \<Longrightarrow> well_formed (tl us)"
        using us(1) newline by (cases us) auto
      have short: "length us < length s" "length (tl us) < length s"
        by (simp_all add: s)
      have "l = [] \<or> (us \<noteq> [] \<and> hd us = line_feed \<and> l \<in> set (split_regex (tl us))) \<or> l \<in> set (split_regex us) \<or> l = u # k"
        using "1.prems"(2) by (simp add: s k split: if_splits) blast+
      moreover have "well_formed k"
        by (rule IH [OF short(1) us(1)]) (simp add: k)
      then have "well_formed (u # k)"
        using False us(2) by simp
      ultimately show ?thesis
        using IH [OF short(1) us(1)] IH [OF short(2) tl] by auto
    next
      case True
      with s "1.prems"(1) obtain v vs where vs: "us = v # vs" "is_low v" "well_formed vs"
        by (cases us) auto
      obtain j js where j: "split_regex vs = j # js"
        using split_regex_nonempty [of vs] by (cases "split_regex vs") auto
      have "u \<noteq> line_feed" "u \<noteq> carriage_return" "v \<noteq> line_feed" "v \<noteq> carriage_return"
        using True vs newline by auto
      then have "split_regex s = (u # v # j) # js"
        using j by (simp add: s vs)
      with "1.prems"(2) IH [of vs] vs True j s show ?thesis
        by auto
    qed
  qed
qed

lemma well_formed_level_lines:
  assumes "well_formed content" "line \<in> set (level_lines content v15)"
  shows "well_formed line"
proof -
  have c: "well_formed (drop_bom content)"
    using assms(1) by (rule well_formed_drop_bom)
  have lf: "\<not> is_high line_feed" "\<not> is_low line_feed"
    by (simp_all add: is_high_def is_low_def line_feed_def)
  show ?thesis
  proof (cases v15)
    case True
    with assms(2) show ?thesis
      by (intro well_formed_split_on [OF c lf]) (simp add: level_lines_def)
  next
    case False
    with assms(2) show ?thesis
      by (intro well_formed_split_regex [OF c])
        (auto simp: level_lines_def split_legacy_lines_def Let_def split: if_splits dest: in_set_butlastD)
  qed
qed

section \<open>Lengths\<close>

lemma write_7bit_int_eq: "write_7bit_int v = varint (unat v)"
proof (induction "unat v" arbitrary: v rule: less_induct)
  case less
  show ?case
  proof (cases "unat v < 128")
    case True
    then have "drop_bit 7 v = 0"
      by (simp add: unat_less_128_iff)
    moreover have "(ucast (v AND 0x7F) :: byte) = of_nat (unat v)"
      using bit_less_7 [OF True] by (intro bit_word_eqI) (auto simp: mask_simps bit_simps bit_unat)
    ultimately show ?thesis
      using True by (simp add: write_7bit_int.simps [of v] varint_small)
  next
    case False
    then have z: "drop_bit 7 v \<noteq> 0" and small: "unat (drop_bit 7 v) < unat v"
      by (simp_all add: unat_less_128_iff [symmetric] unat_drop7)
    have "(ucast (v AND 0x7F OR 0x80) :: byte) = of_nat (take_bit 7 (unat v)) OR 0x80"
      by (intro bit_word_eqI) (auto simp: mask_simps bit_simps bit_unat)
    moreover have "unat (drop_bit 7 v) = drop_bit 7 (unat v)"
      unfolding unat_drop7 by (simp only: drop_bit_eq_div) simp
    ultimately show ?thesis
      using less [OF small] z False by (simp add: write_7bit_int.simps [of v] varint_step)
  qed
qed

lemma drop_Cons_nth: "drop i xs = y # ys \<Longrightarrow> i < length xs \<and> xs ! i = y \<and> drop (i + 1) xs = ys"
  by (metis Suc_eq_plus1 drop_all drop_Suc hd_drop_conv_nth list.distinct(1) list.sel(1) list.sel(3)
      not_le_imp_less tl_drop)

lemma read_7bit_int_varint:
  "index + k = 5 \<Longrightarrow> n * 128 ^ index < 4294967296 \<Longrightarrow> 0 < k \<Longrightarrow> drop offset data = varint n @ ys \<Longrightarrow>
   read_7bit_int data k (index * 7) v offset
     = Inr (v OR push_bit (index * 7) (of_nat n), offset + length (varint n))"
proof (induction k arbitrary: index n v offset)
  case (Suc k)
  show ?case
  proof (cases "n < 128")
    case True
    then have d: "offset < length data" "data ! offset = of_nat n"
      using drop_Cons_nth [of offset data "of_nat n" ys] Suc.prems(4) by (simp_all add: varint_small)
    have "\<not> bit (of_nat n :: byte) 7"
      using True bit_of_nat_less [of n 7 7] by (simp add: bit_simps)
    then show ?thesis
      using True by (simp only: read_7bit_int.simps d Let_def and_0x80_byte last_group if_True simp_thms)
        (simp add: varint_small)
  next
    case False
    let ?b = "of_nat (take_bit 7 n) OR 0x80 :: byte"
    have d: "offset < length data" "data ! offset = ?b" "drop (offset + 1) data = varint (drop_bit 7 n) @ ys"
      using drop_Cons_nth [of offset data ?b "varint (drop_bit 7 n) @ ys"] Suc.prems(4) False
      by (simp_all add: varint_step)
    have b: "bit ?b 7"
      by (simp add: or_128 bit_simps)
    have "index \<noteq> 4"
      using Suc.prems(2) False by auto
    then have k: "0 < k" "Suc index + k = 5"
      using Suc.prems(1) by auto
    have "drop_bit 7 n * 128 ^ Suc index \<le> n * 128 ^ index"
      using div_times_less_eq_dividend [of n 128] by (simp add: drop_bit_eq_div)
    then have n: "drop_bit 7 n * 128 ^ Suc index < 4294967296"
      using Suc.prems(2) by linarith
    have eq: "(v OR push_bit (index * 7) ((ucast ?b) AND 0x7F)) OR push_bit (Suc index * 7) (of_nat (drop_bit 7 n))
        = v OR push_bit (index * 7) (of_nat n)"
      using next_group [of "index * 7" n] by (simp add: or.assoc add.commute del: push_bit_or)
    have idx: "index * 7 + 7 = Suc index * 7"
      by simp
    show ?thesis
      by (simp only: read_7bit_int.simps d(1,2) Let_def and_0x80_byte b if_True if_False simp_thms idx
          Suc.IH [OF k(2) n k(1) d(3)] eq)
        (use False in \<open>simp add: varint_step\<close>)
  qed
qed simp

lemma read_length:
  "n < 4294967296 \<Longrightarrow> drop offset data = varint n @ ys \<Longrightarrow>
   read_7bit_int data 5 0 0 offset = Inr (of_nat n, offset + length (varint n))"
  using read_7bit_int_varint [of 0 5 n offset data ys 0] by simp

section \<open>The round trip\<close>

lemma line_bytes_eq:
  "length (text_encode l) < 4294967296 \<Longrightarrow> line_bytes l = varint (length (text_encode l)) @ text_encode l"
  by (simp add: line_bytes_def Let_def write_7bit_int_eq unat_of_nat_u32)

lemma length_line_bytes: "length (text_encode l) < length (line_bytes l)"
  using varint_nonempty [of "unat (of_nat (length (text_encode l)) :: u32)"]
  by (simp add: line_bytes_def Let_def write_7bit_int_eq)

lemma length_level_bytes: "length (level_bytes lines) = 4 + length (concat (map line_bytes lines))"
  by (simp add: level_bytes_def le_bytes_def)

lemma length_line_le: "l \<in> set lines \<Longrightarrow> length (line_bytes l) \<le> length (level_bytes lines)"
  unfolding length_level_bytes by (induction lines) auto

lemma length_lines_le: "length lines \<le> length (concat (map line_bytes lines))"
proof (induction lines)
  case (Cons l lines)
  with length_line_bytes [of l] show ?case by simp
qed simp

lemma le_nat_le_bytes_4: "le_nat (le_bytes 4 (v :: u32)) = unat v"
proof -
  have "le_nat (le_bytes 4 v) = horner_sum of_bool 2 (map (bit v) [0..<8 * 4])"
    using bits_of_le_bytes [of 4 v] by (simp only: horner_bits_of [symmetric]) simp
  also have "\<dots> = horner_sum of_bool 2 (map (bit (unat v)) [0..<8 * 4])"
    by (intro arg_cong [of _ _ "horner_sum of_bool 2"] map_cong) (auto simp: bit_unat)
  also have "\<dots> = unat v"
    by (simp only: horner_sum_bit_eq_take_bit) (simp add: take_bit_unat)
  finally show ?thesis .
qed

lemma drop_drop_append: "drop offset data = xs @ ys \<Longrightarrow> drop (offset + length xs) data = ys"
  by (metis add.commute append_eq_conv_conj drop_drop)

lemma drop_append_length: "drop offset data = xs @ ys \<Longrightarrow> xs @ ys \<noteq> [] \<Longrightarrow> length data - offset = length xs + length ys"
  by (metis length_append length_drop)

lemma read_lines_bytes:
  assumes "\<And>l. l \<in> set lines \<Longrightarrow> well_formed l \<and> length (text_encode l) < 4294967296"
    and "drop offset data = concat (map line_bytes lines) @ ys"
  shows "read_lines data (length lines) offset
    = Inr (map drop_bom lines, offset + length (concat (map line_bytes lines)))"
  using assms
proof (induction lines arbitrary: offset)
  case (Cons l lines)
  let ?t = "text_encode l" and ?z = "concat (map line_bytes lines) @ ys"
  let ?o = "offset + length (varint (length ?t))"
  have l: "well_formed l" "length ?t < 4294967296" "unat (of_nat (length ?t) :: u32) = length ?t"
    using Cons.prems(1) [of l] by (simp_all add: unat_of_nat_u32)
  have d: "drop offset data = varint (length ?t) @ ?t @ ?z"
    using Cons.prems(2) l(2) by (simp add: line_bytes_eq)
  have o: "drop ?o data = ?t @ ?z"
    using drop_drop_append [OF d] .
  have t: "take (length ?t) (drop ?o data) = ?t" "\<not> length data - ?o < length ?t"
  proof -
    show "take (length ?t) (drop ?o data) = ?t"
      by (simp add: o)
    have "length data - ?o = length (?t @ ?z)"
      by (metis o length_drop)
    then show "\<not> length data - ?o < length ?t"
      by simp
  qed
  have rest: "read_lines data (length lines) (?o + length ?t)
      = Inr (map drop_bom lines, ?o + length ?t + length (concat (map line_bytes lines)))"
    using Cons.prems(1) drop_drop_append [OF o] by (intro Cons.IH) simp_all
  show ?case
    using l(2) by (simp add: read_length [OF l(2) d] l(3) t text_roundtrip [OF l(1)] rest line_bytes_eq del: drop_drop)
qed simp

lemma read_level_count:
  assumes "length (level_bytes lines) \<le> max_level_payload_bytes"
  shows "take 4 (level_bytes lines) = le_bytes 4 (of_nat (length lines) :: u32)"
    "drop 4 (level_bytes lines) = concat (map line_bytes lines)"
    "sint (of_nat (le_nat (take 4 (level_bytes lines))) :: u32) = int (length lines)"
proof -
  have len: "length lines < 67108864"
    using assms length_lines_le [of lines] by (simp add: length_level_bytes max_level_payload_bytes_def)
  show t: "take 4 (level_bytes lines) = le_bytes 4 (of_nat (length lines) :: u32)"
    "drop 4 (level_bytes lines) = concat (map line_bytes lines)"
    by (simp_all add: level_bytes_def le_bytes_def)
  have "sint (of_nat (length lines) :: u32) = signed_take_bit 31 (int (length lines))"
    using len by (simp add: sint_uint uint_nat unat_of_nat_u32)
  then show "sint (of_nat (le_nat (take 4 (level_bytes lines))) :: u32) = int (length lines)"
    using len unfolding t le_nat_le_bytes_4
    by (simp add: signed_take_bit_int_eq_self)
qed

lemma read_level_bytes:
  assumes "\<And>l. l \<in> set lines \<Longrightarrow> well_formed l"
    and "length lines \<le> 10000000" "length (level_bytes lines) \<le> max_level_payload_bytes"
  shows "read_level (level_bytes lines) = Inr (map drop_bom lines)"
proof -
  have lines: "\<And>l. l \<in> set lines \<Longrightarrow> well_formed l \<and> length (text_encode l) < 4294967296"
  proof -
    fix l
    assume l: "l \<in> set lines"
    with length_line_le [OF l] length_line_bytes [of l] assms
    show "well_formed l \<and> length (text_encode l) < 4294967296"
      by (simp add: max_level_payload_bytes_def)
  qed
  have "read_lines (level_bytes lines) (length lines) 4 = Inr (map drop_bom lines, length (level_bytes lines))"
    using read_lines_bytes [OF lines, where offset = 4 and data = "level_bytes lines" and ys = "[]"] read_level_count(2) [OF assms(3)]
    by (simp add: length_level_bytes)
  then show ?thesis
    using assms(2,3) read_level_count(3) [OF assms(3)]
    by (simp add: read_level_def length_level_bytes Let_def)
qed

lemma read_level_too_many:
  "10000000 < length lines \<Longrightarrow> length (level_bytes lines) \<le> max_level_payload_bytes \<Longrightarrow>
   read_level (level_bytes lines) = Inl (Error ''Invalid level line count'')"
  using read_level_count(3) [of lines] by (simp add: read_level_def length_level_bytes Let_def)

end
