(* ===== verification/Lobby_Packets.thy ===== *)
theory Lobby_Packets
  imports Wire_Packet
begin

text \<open>
  \<open>packages/core/src/zeepnet/lobbyPackets.ts\<close>: the packets of the master server that list the
  open lobbies. \<open>write_lobby\<close> is the encoding of the server, as the tests of the module write it
  with \<open>BitWriter\<close>; the parser is checked against it, and bounded for any input.
\<close>

section \<open>Data\<close>

definition lobby_packet_list :: u32 where "lobby_packet_list = 5326"
definition lobby_packet_update :: u32 where "lobby_packet_update = 62071"
definition lobby_packet_statistics :: u32 where "lobby_packet_statistics = 37660"

definition max_lobbies :: nat where "max_lobbies = 4096"

record lobby_host =
  host_name :: jstring
  host_steam_id :: jstring

record wire_lobby =
  lobby_id :: jstring
  lobby_title :: jstring
  lobby_is_public :: bool
  lobby_host :: lobby_host
  lobby_players :: int
  lobby_player_limit :: int

datatype lobby_operation = Added | Removed | Updated

datatype lobby_packet =
    Lobby_List "wire_lobby list"
  | Lobby_Update lobby_operation wire_lobby
  | Lobby_Statistics int int int

section \<open>Parsing\<close>

definition read_non_negative :: "string \<Rightarrow> int rd" where
  "read_non_negative name =
     rd_bind read_int32 (\<lambda>v. if v < 0 then rd_throw (Error (''Invalid '' @ name)) else rd_return v)"

definition read_bounded_count :: "nat rd" where
  "read_bounded_count =
     rd_bind (read_non_negative ''lobby count'') (\<lambda>count.
       if int max_lobbies < count then rd_throw (Error (''Lobby count exceeds '' @ show_nat max_lobbies))
       else rd_return (nat count))"

text \<open>\<open>steamId.toString()\<close> of an unsigned 64-bit value.\<close>

definition bigint_string :: "int \<Rightarrow> jstring" where
  "bigint_string v = lit (show_nat (nat v))"

definition read_lobby :: "wire_lobby rd" where
  "read_lobby =
     rd_bind (read_string 1024) (\<lambda>lobbyId.
     rd_bind (read_string 4096) (\<lambda>title.
     rd_bind (read_string 1024) (\<lambda>hostName.
     rd_bind read_uint64 (\<lambda>steamId.
     rd_bind (read_non_negative ''lobby player count'') (\<lambda>players.
     rd_bind (read_non_negative ''lobby player limit'') (\<lambda>playerLimit.
     rd_bind read_boolean (\<lambda>isPublic.
     rd_return \<lparr>lobby_id = lobbyId, lobby_title = title, lobby_is_public = isPublic,
       lobby_host = \<lparr>host_name = hostName, host_steam_id = bigint_string steamId\<rparr>,
       lobby_players = players, lobby_player_limit = playerLimit\<rparr>)))))))"

definition read_operation :: "lobby_operation rd" where
  "read_operation =
     rd_bind read_byte (\<lambda>b.
       if b = 0 then rd_return Added else if b = 1 then rd_return Removed
       else if b = 2 then rd_return Updated
       else rd_throw (Error ''Unknown lobby update operation''))"

definition lobby_packet_rd :: "lobby_packet option rd" where
  "lobby_packet_rd =
     rd_bind read_uint16 (\<lambda>packetId.
       if packetId = lobby_packet_list then
         rd_bind read_bounded_count (\<lambda>count.
         rd_bind (read_times count read_lobby) (\<lambda>lobbies. rd_return (Some (Lobby_List lobbies))))
       else if packetId = lobby_packet_update then
         rd_bind read_operation (\<lambda>operation.
         rd_bind read_lobby (\<lambda>lobby. rd_return (Some (Lobby_Update operation lobby))))
       else if packetId = lobby_packet_statistics then
         rd_bind (read_non_negative ''online player count'') (\<lambda>onlinePlayers.
         rd_bind (read_non_negative ''lobby count'') (\<lambda>lobbyCount.
         rd_bind (read_non_negative ''players in lobbies'') (\<lambda>playersInLobbies.
         rd_return (Some (Lobby_Statistics onlinePlayers lobbyCount playersInLobbies)))))
       else rd_return None)"

definition parse_lobby_packet :: "byte list \<Rightarrow> js_error + lobby_packet option" where
  "parse_lobby_packet data = res_map fst (lobby_packet_rd (new_reader data))"

section \<open>The server's encoding\<close>

record sent_lobby =
  sent_id :: jstring
  sent_title :: jstring
  sent_host :: jstring
  sent_steam_id :: int
  sent_players :: int
  sent_player_limit :: int
  sent_public :: bool

definition write_lobby :: "sent_lobby \<Rightarrow> bit_writer \<Rightarrow> bit_writer" where
  "write_lobby l = writes
     [write_string (sent_id l), write_string (sent_title l), write_string (sent_host l),
      write_uint64 (sent_steam_id l), write_int32 (sent_players l), write_int32 (sent_player_limit l),
      write_boolean (sent_public l)]"

definition lobby_list_packet :: "sent_lobby list \<Rightarrow> byte list" where
  "lobby_list_packet ls = write_packet lobby_packet_list
     (writes [write_int32 (int (length ls)), fold write_lobby ls])"

text \<open>What the listing shows of a lobby.\<close>

definition listed :: "sent_lobby \<Rightarrow> wire_lobby" where
  "listed l = \<lparr>lobby_id = drop_bom (sent_id l), lobby_title = drop_bom (sent_title l),
     lobby_is_public = sent_public l,
     lobby_host = \<lparr>host_name = drop_bom (sent_host l), host_steam_id = bigint_string (sent_steam_id l)\<rparr>,
     lobby_players = sent_players l, lobby_player_limit = sent_player_limit l\<rparr>"

definition sendable :: "sent_lobby \<Rightarrow> bool" where
  "sendable l \<longleftrightarrow> string_ok 1024 (sent_id l) \<and> string_ok 4096 (sent_title l) \<and> string_ok 1024 (sent_host l)
     \<and> 0 \<le> sent_steam_id l \<and> sent_steam_id l < 2 ^ 64 \<and> 0 \<le> sent_players l \<and> sent_players l < 2 ^ 31
     \<and> 0 \<le> sent_player_limit l \<and> sent_player_limit l < 2 ^ 31"

definition lobby_bits :: "sent_lobby \<Rightarrow> bool list" where
  "lobby_bits l = concat
     [enc_string (sent_id l), enc_string (sent_title l), enc_string (sent_host l),
      map (bit (sent_steam_id l)) [0..<64], map (bit (sent_players l)) [0..<32],
      map (bit (sent_player_limit l)) [0..<32], [sent_public l]]"

lemma string_ok_emits: "string_ok n s \<Longrightarrow> emits (write_string s) (enc_string s)"
  by (rule emits_write_string) (simp add: string_ok_def)

lemma emits_write_lobby: "sendable l \<Longrightarrow> emits (write_lobby l) (lobby_bits l)"
  unfolding write_lobby_def lobby_bits_def
  by (rule emits_writes) (auto simp: sendable_def intro: emits_typed(1-8) string_ok_emits)

lemma parses_non_negative:
  "0 \<le> v \<Longrightarrow> v < 2 ^ 31 \<Longrightarrow> parses (read_non_negative name) (map (bit v) [0..<32]) v"
  unfolding read_non_negative_def
  by (rule parses_bind_last [OF parses_read_int32]) (simp add: signed_small parses_return del: rd_return_apply)

lemma parses_read_lobby:
  assumes "sendable l"
  shows "parses read_lobby (lobby_bits l) (listed l)"
proof -
  have "parses read_lobby (lobby_bits l) \<lparr>lobby_id = drop_bom (sent_id l), lobby_title = drop_bom (sent_title l),
     lobby_is_public = sent_public l,
     lobby_host = \<lparr>host_name = drop_bom (sent_host l), host_steam_id = bigint_string (take_bit 64 (sent_steam_id l))\<rparr>,
     lobby_players = sent_players l, lobby_player_limit = sent_player_limit l\<rparr>"
    using assms unfolding sendable_def read_lobby_def lobby_bits_def concat.simps
    by (intro parses_steps parses_return parses_bind [OF parses_non_negative]) simp_all
  with assms show ?thesis
    by (simp add: listed_def sendable_def take_bit_64_small)
qed

text \<open>The lobby encoding is a codec, so the list laws apply to it.\<close>

interpretation lobby_codec: wire_codec write_lobby read_lobby lobby_bits sendable listed
  by unfold_locales (simp_all add: emits_write_lobby parses_read_lobby)

lemma lobby_bits_length: "sendable l \<Longrightarrow> length (lobby_bits l) \<le> 50000"
  using enc_string_length [of 1024 "sent_id l"] enc_string_length [of 4096 "sent_title l"] enc_string_length [of 1024 "sent_host l"]
  by (simp add: sendable_def lobby_bits_def)

lemma parses_lobby_list:
  assumes "\<And>l. l \<in> set ls \<Longrightarrow> sendable l" "length ls \<le> max_lobbies"
  shows "parses lobby_packet_rd (map (bit lobby_packet_list) [0..<16] @ map (bit (int (length ls))) [0..<32]
    @ concat (map lobby_bits ls)) (Some (Lobby_List (map listed ls)))"
proof -
  have n: "length ls \<le> 4096"
    using assms(2) by (simp add: max_lobbies_def)
  have count: "parses read_bounded_count (map (bit (int (length ls))) [0..<32]) (length ls)"
    unfolding read_bounded_count_def using n
    by (intro parses_bind_last [OF parses_non_negative]) (simp_all add: max_lobbies_def parses_return del: rd_return_apply)
  have id: "take_bit 16 lobby_packet_list = lobby_packet_list"
    by (simp add: lobby_packet_list_def)
  show ?thesis
    unfolding lobby_packet_rd_def
    by (intro parses_steps parses_if_then parses_bind [OF count] id
        parses_bind_last [OF lobby_codec.codec_read_many] parses_return assms(1))
qed

section \<open>Properties\<close>

definition non_negative_lobby :: "wire_lobby \<Rightarrow> bool" where
  "non_negative_lobby l \<longleftrightarrow> 0 \<le> lobby_players l \<and> 0 \<le> lobby_player_limit l \<and>
     length (lobby_id l) \<le> 1024 \<and> length (lobby_title l) \<le> 4096 \<and> length (host_name (lobby_host l)) \<le> 1024"

fun lobby_packet_valid :: "lobby_packet \<Rightarrow> bool" where
  "lobby_packet_valid (Lobby_List ls) \<longleftrightarrow> length ls \<le> max_lobbies \<and> (\<forall>l\<in>set ls. non_negative_lobby l)"
| "lobby_packet_valid (Lobby_Update op l) \<longleftrightarrow> non_negative_lobby l"
| "lobby_packet_valid (Lobby_Statistics a b c) \<longleftrightarrow> 0 \<le> a \<and> 0 \<le> b \<and> 0 \<le> c"

lemma yields_non_negative: "yields (read_non_negative name) (\<lambda>v. 0 \<le> v)"
  unfolding read_non_negative_def by (intro yields_bind_any yields_if yields_throw yields_return) simp

lemma yields_bounded_count: "yields read_bounded_count (\<lambda>n. n \<le> max_lobbies)"
  unfolding read_bounded_count_def
  by (intro yields_bind_any yields_if yields_throw yields_return) simp

lemma yields_lobby: "yields read_lobby non_negative_lobby"
  unfolding read_lobby_def
  apply (rule yields_bind [OF yields_string])+
  apply (rule yields_bind_any)
  apply (rule yields_bind [OF yields_non_negative])+
  apply (rule yields_bind_any, rule yields_return)
  apply (simp add: non_negative_lobby_def)
  done

lemma yields_lobby_packet: "yields lobby_packet_rd (\<lambda>p. \<forall>q. p = Some q \<longrightarrow> lobby_packet_valid q)"
proof -
  have list: "yields (rd_bind read_bounded_count (\<lambda>count. rd_bind (read_times count read_lobby)
      (\<lambda>lobbies. rd_return (Some (Lobby_List lobbies))))) (\<lambda>p. \<forall>q. p = Some q \<longrightarrow> lobby_packet_valid q)"
    by (rule yields_bind [OF yields_bounded_count], rule yields_bind [OF yields_times [OF yields_lobby]],
        rule yields_return) auto
  have update: "yields (rd_bind read_lobby (\<lambda>lobby. rd_return (Some (Lobby_Update operation lobby))))
      (\<lambda>p. \<forall>q. p = Some q \<longrightarrow> lobby_packet_valid q)" for operation
    by (rule yields_bind [OF yields_lobby], rule yields_return) simp
  have statistics: "yields (rd_bind (read_non_negative a) (\<lambda>x. rd_bind (read_non_negative b) (\<lambda>y.
      rd_bind (read_non_negative c) (\<lambda>z. rd_return (Some (Lobby_Statistics x y z))))))
      (\<lambda>p. \<forall>q. p = Some q \<longrightarrow> lobby_packet_valid q)" for a b c
    by (rule yields_bind [OF yields_non_negative], rule yields_bind [OF yields_non_negative],
        rule yields_bind [OF yields_non_negative], rule yields_return) simp
  show ?thesis
    unfolding lobby_packet_rd_def
    by (intro yields_bind_any yields_if list update statistics yields_return) simp
qed

end
