(* ===== verification/Game_Packets.thy ===== *)
theory Game_Packets
  imports Wire_Packet
begin

text \<open>
  \<open>packages/core/src/zeepnet/gameServerPackets.ts\<close>: the packets a lobby host sends to the master
  and game servers, and the parsers of what the servers send back.

  Packet ids are hashes of the packet names (\<open>packet_id\<close>). A packet builder checks its input as the
  source does and returns the bytes or the error; the parsers dispatch on the id. Numbers that a
  builder writes with \<open>writeInt32\<close> are integers here, except the playlist indices, whose
  \<open>Number.isInteger\<close> guard is part of the model.
\<close>

section \<open>Packet ids\<close>

text \<open>
  \<open>for (const character of fullName)\<close> iterates over code points; \<open>charCodeAt(0)\<close> is the first
  unit of each.
\<close>

fun first_units :: "jstring \<Rightarrow> u16 list" where
  "first_units [] = []"
| "first_units (u # us) =
     (if is_high u \<and> us \<noteq> [] \<and> is_low (hd us) then u # first_units (tl us) else u # first_units us)"

definition packet_id :: "jstring \<Rightarrow> u32" where
  "packet_id fullName = fold (\<lambda>c hash. hash * 31 + ucast c) (first_units fullName) 23 AND 0xFFFF"

datatype packet_name =
    Custom_Leaderboard | Leaderboard_Name | Player_Update_Result | Chat_Message | Custom_Chat_Message
  | Create_Lobby | Create_Lobby_Response | Join_Lobby | Join_Lobby_Response | Initial_State
  | Change_Lobby_Game_Properties | Change_Lobby_Game_State | Change_Lobby_Master | Change_Lobby_Playlist
  | Change_Lobby_Playlist_Index | Change_Lobby_Visibility | Level_Data | Level_Loaded | Player_Connected
  | Player_Disconnected | Skip_To_Level

definition all_packet_names :: "packet_name list" where
  "all_packet_names =
     [Custom_Leaderboard, Leaderboard_Name, Player_Update_Result, Chat_Message, Custom_Chat_Message,
      Create_Lobby, Create_Lobby_Response, Join_Lobby, Join_Lobby_Response, Initial_State,
      Change_Lobby_Game_Properties, Change_Lobby_Game_State, Change_Lobby_Master, Change_Lobby_Playlist,
      Change_Lobby_Playlist_Index, Change_Lobby_Visibility, Level_Data, Level_Loaded, Player_Connected,
      Player_Disconnected, Skip_To_Level]"

fun full_name :: "packet_name \<Rightarrow> string" where
  "full_name Custom_Leaderboard = ''ZeepkistNetworking.CLB_Packet_AddRemovePlayerFromLeaderboard''"
| "full_name Leaderboard_Name = ''ZeepkistNetworking.LeaderboardPacket''"
| "full_name Player_Update_Result = ''ZeepkistNetworking.PlayerUpdateResultPacket''"
| "full_name Chat_Message = ''ZeepkistNetworking.ChatMessagePacket''"
| "full_name Custom_Chat_Message = ''ZeepkistNetworking.CLB_Packet_CustomChatMessage''"
| "full_name Create_Lobby = ''ZeepkistNetworking.CreateLobbyPacket''"
| "full_name Create_Lobby_Response = ''ZeepkistNetworking.CreateLobbyResponsePacket''"
| "full_name Join_Lobby = ''ZeepkistNetworking.JoinLobbyPacket''"
| "full_name Join_Lobby_Response = ''ZeepkistNetworking.JoinLobbyResponsePacket''"
| "full_name Initial_State = ''ZeepkistNetworking.InitialStatePacket''"
| "full_name Change_Lobby_Game_Properties = ''ZeepkistNetworking.ChangeLobbyGamePropertiesPacket''"
| "full_name Change_Lobby_Game_State = ''ZeepkistNetworking.ChangeLobbyGameStatePacket''"
| "full_name Change_Lobby_Master = ''ZeepkistNetworking.ChangeLobbyMasterPacket''"
| "full_name Change_Lobby_Playlist = ''ZeepkistNetworking.ChangeLobbyPlaylistPacket''"
| "full_name Change_Lobby_Playlist_Index = ''ZeepkistNetworking.ChangeLobbyPlaylistIndexPacket''"
| "full_name Change_Lobby_Visibility = ''ZeepkistNetworking.ChangeLobbyVisibilityPacket''"
| "full_name Level_Data = ''ZeepkistNetworking.LevelDataPacket''"
| "full_name Level_Loaded = ''ZeepkistNetworking.LevelLoadedPacket''"
| "full_name Player_Connected = ''ZeepkistNetworking.PlayerConnectedPacket''"
| "full_name Player_Disconnected = ''ZeepkistNetworking.PlayerDisconnectedPacket''"
| "full_name Skip_To_Level = ''ZeepkistNetworking.SkipToLevelPacket''"

definition zeepkist_packet_id :: "packet_name \<Rightarrow> u32" where
  "zeepkist_packet_id p = packet_id (lit (full_name p))"

section \<open>Data\<close>

record online_level =
  author :: jstring
  collaborators :: jstring
  level_name :: jstring
  overrideAuthorName :: jstring
  level_uid :: jstring
  workshopId :: int

record online_playlist_level = online_level +
  played :: bool

record online_playlist =
  currentIndex :: int
  isRandom :: bool
  levels :: "online_playlist_level list"
  nextIndex :: int
  originalPlaylistLength :: int
  roundTime :: js_number
  wasSynced :: bool

record game_host_player =
  backupName :: jstring
  playerTag :: jstring
  player_steamId :: int
  player_uid :: u32
  username :: "jstring option"

record leaderboard_overrides =
  override_name :: jstring
  override_points :: jstring
  override_pointsWon :: jstring
  override_position :: jstring
  override_time :: jstring

datatype master_room_response =
    Room_Created u32 jstring
  | Room_Joined u32 jstring int

datatype game_host_packet =
    Leaderboard_Packet u32 "(int \<times> js_number) list" "(int \<times> leaderboard_overrides) list"
  | Player_Result u32 bool jstring js_number int
  | Initial_Packet bool "game_host_player list"
  | Chat_Packet jstring u32
  | Game_State_Packet int
  | Playlist_Packet online_playlist
  | Game_Properties js_number js_number jstring int
  | Master_Packet u32
  | Player_Connected_Packet bool bool int game_host_player
  | Player_Disconnected_Packet u32
  | Playlist_Index int int bool
  | Level_Data_Packet "byte list" jstring jstring int
  | Level_Request jstring int jstring

definition max_level_data_bytes :: int where "max_level_data_bytes = 64 * 1024 * 1024"
definition max_playlist_levels :: nat where "max_playlist_levels = 1001"
definition max_chat_message_bytes :: nat where "max_chat_message_bytes = 4096"
definition max_chat_badges :: int where "max_chat_badges = 64"
definition max_chat_badge_bytes :: nat where "max_chat_badge_bytes = 1024"
definition max_players :: int where "max_players = 256"

section \<open>Packets sent\<close>

definition write_leaderboard ::
  "int \<Rightarrow> js_number \<Rightarrow> bool \<Rightarrow> bool \<Rightarrow> leaderboard_overrides \<Rightarrow> js_error + byte list" where
  "write_leaderboard steamId time isOverride notify overrides =
     (let fields = [override_time overrides, override_position overrides, override_name overrides,
        override_points overrides, override_pointsWon overrides] in
      if steamId \<le> 0 \<or> 0xFFFFFFFFFFFFFFFF < steamId then Inl (Error ''Invalid leaderboard target'')
      else if list_ex (\<lambda>field. 4096 < length (text_encode field)) fields
      then Inl (Error ''Leaderboard override too long'')
      else Inr (write_packet (zeepkist_packet_id Custom_Leaderboard) (writes
        [write_uint64 steamId, write_boolean False, write_float32 time, write_int32 0,
         write_boolean notify, write_boolean isOverride, fold write_string fields])))"

definition player_leaderboard_time_packet :: "int \<Rightarrow> js_number \<Rightarrow> bool \<Rightarrow> js_error + byte list" where
  "player_leaderboard_time_packet steamId time notifyPlayer =
     (if \<not> is_finite time \<or> js_lt time (js_of_nat 0) then Inl (Error ''Invalid leaderboard time'')
      else write_leaderboard steamId (js_min time (js_of_nat 36000)) False notifyPlayer
        \<lparr>override_name = [], override_points = [], override_pointsWon = [], override_position = [],
         override_time = []\<rparr>)"

definition player_leaderboard_overrides_packet :: "int \<Rightarrow> leaderboard_overrides \<Rightarrow> js_error + byte list" where
  "player_leaderboard_overrides_packet steamId overrides =
     write_leaderboard steamId (js_of_nat 0) True False overrides"

definition create_lobby_packet :: "bool \<Rightarrow> int \<Rightarrow> jstring \<Rightarrow> jstring \<Rightarrow> byte list" where
  "create_lobby_packet isPublic maxPlayers lobbyName originalHostName =
     write_packet (zeepkist_packet_id Create_Lobby) (writes
       [write_int32 maxPlayers, write_string lobbyName, write_boolean isPublic, write_string originalHostName])"

definition join_lobby_packet :: "jstring \<Rightarrow> byte list" where
  "join_lobby_packet joinId = write_packet (zeepkist_packet_id Join_Lobby) (write_string joinId)"

definition change_lobby_visibility_packet :: "bool \<Rightarrow> byte list" where
  "change_lobby_visibility_packet isPublic =
     write_packet (zeepkist_packet_id Change_Lobby_Visibility) (write_boolean isPublic)"

definition chat_message_packet :: "jstring \<Rightarrow> js_error + byte list" where
  "chat_message_packet message =
     (let byteLength = length (text_encode message) in
      if byteLength < 1 \<or> max_chat_message_bytes < byteLength
      then Inl (Error (''Chat message must contain between 1 and '' @ show_nat max_chat_message_bytes @ '' bytes''))
      else Inr (write_packet (zeepkist_packet_id Chat_Message) (writes
        [write_uint32 0, write_string message, write_int32 0])))"

definition validate_chat_string :: "jstring \<Rightarrow> string \<Rightarrow> js_error + unit" where
  "validate_chat_string v label =
     (let byteLength = length (text_encode v) in
      if byteLength < 1 \<or> max_chat_message_bytes < byteLength
      then Inl (Error (label @ '' must contain between 1 and '' @ show_nat max_chat_message_bytes @ '' bytes''))
      else Inr ())"

definition targeted_chat_message_packet :: "int \<Rightarrow> jstring \<Rightarrow> jstring \<Rightarrow> js_error + byte list" where
  "targeted_chat_message_packet targetSteamId message hostname =
     (if targetSteamId \<le> 0 \<or> 0xFFFFFFFFFFFFFFFF < targetSteamId
      then Inl (Error ''Target Steam ID must be between 1 and 18446744073709551615'')
      else res_bind (validate_chat_string message ''Chat message'') (\<lambda>_.
        res_bind (validate_chat_string hostname ''Chat hostname'') (\<lambda>_.
          Inr (write_packet (zeepkist_packet_id Custom_Chat_Message) (writes
            [write_uint64 targetSteamId, write_string message, write_string hostname])))))"

definition write_playlist_level :: "('a online_level_scheme) \<Rightarrow> bit_writer \<Rightarrow> bit_writer" where
  "write_playlist_level level = writes
     [write_string (level_uid level), write_uint64 (workshopId level), write_string (level_name level),
      write_string (collaborators level), write_string (overrideAuthorName level),
      write_string (author level), write_boolean False]"

text \<open>\<open>!Number.isInteger(index) || index < 0 || index >= levels.length\<close>\<close>

definition invalid_index :: "js_number \<Rightarrow> nat \<Rightarrow> bool" where
  "invalid_index index n =
     (case js_integer index of None \<Rightarrow> True | Some i \<Rightarrow> i < 0 \<or> int n \<le> i)"

definition change_lobby_levels_packet ::
  "online_level list \<Rightarrow> js_number \<Rightarrow> js_number \<Rightarrow> js_number \<Rightarrow> js_error + byte list" where
  "change_lobby_levels_packet lvs roundTimeSeconds current next_ix =
     (if length lvs < 1 \<or> max_playlist_levels < length lvs
        \<or> invalid_index current (length lvs) \<or> invalid_index next_ix (length lvs)
        \<or> \<not> is_finite roundTimeSeconds \<or> js_le roundTimeSeconds (js_of_nat 0)
      then Inl (Error ''Invalid managed playlist'')
      else Inr (write_packet (zeepkist_packet_id Change_Lobby_Playlist) (writes
        [write_float64 roundTimeSeconds, write_boolean False, write_int32 (the (js_integer current)),
         write_int32 (the (js_integer next_ix)), write_int32 (int (length lvs)),
         fold write_playlist_level lvs, write_boolean True, write_int32 (int (length lvs))])))"

definition change_lobby_playlist_packet :: "online_level \<Rightarrow> js_number \<Rightarrow> js_error + byte list" where
  "change_lobby_playlist_packet level roundTimeSeconds =
     change_lobby_levels_packet [level] roundTimeSeconds (js_of_nat 0) (js_of_nat 0)"

definition skip_to_level_packet :: "online_level \<Rightarrow> byte list" where
  "skip_to_level_packet level = write_packet (zeepkist_packet_id Skip_To_Level) (writes
     [write_string (level_uid level), write_uint64 (workshopId level)])"

definition write_level_data :: "int \<Rightarrow> jstring \<Rightarrow> jstring \<Rightarrow> int \<Rightarrow> byte list \<Rightarrow> bit_writer \<Rightarrow> bit_writer" where
  "write_level_data packetType levelName uid workshop data = writes
     [write_int32 packetType, write_string levelName, write_string uid, write_uint64 workshop,
      write_int32 (int (length data)), write_bytes data]"

definition level_data_packet :: "jstring \<Rightarrow> jstring \<Rightarrow> int \<Rightarrow> byte list \<Rightarrow> byte list" where
  "level_data_packet levelName uid workshop compressedData =
     write_packet (zeepkist_packet_id Level_Data) (write_level_data 2 levelName uid workshop compressedData)"

definition level_data_request_packet :: "byte list" where
  "level_data_request_packet = write_packet (zeepkist_packet_id Level_Data) (writes
     [write_int32 0, write_string [], write_string [], write_uint64 0, write_int32 0])"

definition level_loaded_packet :: "byte list" where
  "level_loaded_packet = write_packet (zeepkist_packet_id Level_Loaded) (\<lambda>w. w)"

section \<open>Packets received\<close>

definition master_room_rd :: "master_room_response option rd" where
  "master_room_rd =
     rd_bind read_uint16 (\<lambda>packet.
       if packet = zeepkist_packet_id Create_Lobby_Response then
         rd_bind read_uint16 (\<lambda>result.
         rd_bind (read_string 1024) (\<lambda>joinId. rd_return (Some (Room_Created result joinId))))
       else if packet = zeepkist_packet_id Join_Lobby_Response then
         rd_bind read_uint16 (\<lambda>result.
         rd_bind (read_string 1024) (\<lambda>host.
         rd_bind read_int32 (\<lambda>port. rd_return (Some (Room_Joined result host port)))))
       else rd_return None)"

definition parse_master_room_response :: "byte list \<Rightarrow> js_error + master_room_response option" where
  "parse_master_room_response payload = res_map fst (master_room_rd (new_reader payload))"

definition read_leaderboard_count :: "nat rd" where
  "read_leaderboard_count =
     rd_bind read_int32 (\<lambda>count.
       if count < 0 \<or> max_players < count then rd_throw (Error ''Invalid leaderboard count'')
       else rd_return (nat count))"

definition read_leaderboard_time :: "(int \<times> js_number) rd" where
  "read_leaderboard_time =
     rd_bind read_uint64 (\<lambda>steamId.
     rd_bind (read_string 4096) (\<lambda>_.
     rd_bind read_float32 (\<lambda>time. rd_return (steamId, time))))"

definition read_leaderboard_override :: "(int \<times> leaderboard_overrides) rd" where
  "read_leaderboard_override =
     rd_bind read_uint64 (\<lambda>steamId.
     rd_bind (read_string 4096) (\<lambda>time.
     rd_bind (read_string 4096) (\<lambda>position.
     rd_bind (read_string 4096) (\<lambda>name.
     rd_bind (read_string 4096) (\<lambda>points.
     rd_bind (read_string 4096) (\<lambda>pointsWon.
     rd_return (steamId, \<lparr>override_name = name, override_points = points, override_pointsWon = pointsWon,
       override_position = position, override_time = time\<rparr>)))))))"

definition read_leaderboard :: "game_host_packet rd" where
  "read_leaderboard =
     rd_bind read_byte (\<lambda>packetType.
       if 4 < packetType then rd_throw (Error ''Invalid leaderboard type'')
       else
         rd_bind read_leaderboard_count (\<lambda>count.
         rd_bind (read_times count read_leaderboard_time) (\<lambda>times.
         rd_bind read_leaderboard_count (\<lambda>overrideCount.
         rd_bind (read_times overrideCount read_leaderboard_override) (\<lambda>overrides.
         rd_bind read_leaderboard_count (\<lambda>blockedCount.
         rd_bind (read_times blockedCount read_uint64) (\<lambda>_.
         rd_bind read_boolean (\<lambda>_.
         rd_return (Leaderboard_Packet packetType times overrides)))))))))"

definition read_playlist_level :: "online_playlist_level rd" where
  "read_playlist_level =
     rd_bind (read_string 4096) (\<lambda>uid.
     rd_bind read_uint64 (\<lambda>workshop.
     rd_bind (read_string 4096) (\<lambda>name.
     rd_bind (read_string 4096) (\<lambda>collab.
     rd_bind (read_string 4096) (\<lambda>overrideAuthor.
     rd_bind (read_string 4096) (\<lambda>authorName.
     rd_bind read_boolean (\<lambda>isPlayed.
     rd_return \<lparr>author = authorName, collaborators = collab, level_name = name,
       overrideAuthorName = overrideAuthor, level_uid = uid, workshopId = workshop, played = isPlayed\<rparr>)))))))"

definition read_playlist :: "online_playlist rd" where
  "read_playlist =
     rd_bind read_float64 (\<lambda>time.
     rd_bind read_boolean (\<lambda>random.
     rd_bind read_int32 (\<lambda>current.
     rd_bind read_int32 (\<lambda>next_ix.
     rd_bind read_int32 (\<lambda>count.
       if count < 0 \<or> int max_playlist_levels < count then rd_throw (Error ''Invalid playlist length'')
       else
         rd_bind (read_times (nat count) read_playlist_level) (\<lambda>lvs.
         rd_bind read_boolean (\<lambda>synced.
         rd_bind read_int32 (\<lambda>original.
         rd_return \<lparr>currentIndex = current, isRandom = random, levels = lvs, nextIndex = next_ix,
           originalPlaylistLength = original, roundTime = time, wasSynced = synced\<rparr>))))))))"

text \<open>
  One iteration of the loop of \<open>readInitialPlayers\<close>: the player and its \<open>isHost\<close> flag. The
  appearance, position and result that follow are read and dropped.
\<close>

definition read_initial_player :: "(game_host_player \<times> bool) rd" where
  "read_initial_player =
     rd_bind read_uint32 (\<lambda>playerUid.
     rd_bind read_uint64 (\<lambda>steamId.
     rd_bind (read_string 1024) (\<lambda>tag.
     rd_bind (read_string 1024) (\<lambda>backup.
     rd_bind read_boolean (\<lambda>isHost.
     rd_bind (read_string (64 * 1024)) (\<lambda>_.
     rd_bind (read_times (3 + 3 + 4) read_float32) (\<lambda>_.
     rd_bind read_boolean (\<lambda>_.
     rd_bind read_boolean (\<lambda>_.
     rd_bind read_byte (\<lambda>_.
     rd_bind (read_times 13 read_boolean) (\<lambda>_.
     rd_bind read_int32 (\<lambda>_.
     rd_bind read_int32 (\<lambda>_.
     rd_bind read_boolean (\<lambda>hasResult.
     rd_bind (if hasResult
         then rd_bind (read_string 4096) (\<lambda>_. rd_bind read_int32 (\<lambda>_. rd_bind read_float32 (\<lambda>_. rd_return ())))
         else rd_return ()) (\<lambda>_.
     rd_return (\<lparr>backupName = backup, playerTag = tag, player_steamId = steamId, player_uid = playerUid,
       username = None\<rparr>, isHost))))))))))))))))"

text \<open>\<open>localPlayerUid === undefined ? steamId === localSteamId : playerUid === localPlayerUid\<close>\<close>

definition is_local_player :: "int \<Rightarrow> u32 option \<Rightarrow> game_host_player \<Rightarrow> bool" where
  "is_local_player localSteamId localPlayerUid p =
     (case localPlayerUid of None \<Rightarrow> player_steamId p = localSteamId | Some uid \<Rightarrow> player_uid p = uid)"

fun read_players :: "int \<Rightarrow> u32 option \<Rightarrow> nat \<Rightarrow> bool \<Rightarrow> (bool \<times> game_host_player list) rd" where
  "read_players localSteamId localPlayerUid 0 localIsHost = rd_return (localIsHost, [])"
| "read_players localSteamId localPlayerUid (Suc n) localIsHost =
     rd_bind read_initial_player (\<lambda>(p, isHost).
       rd_map (\<lambda>(h, ps). (h, p # ps))
         (read_players localSteamId localPlayerUid n
           (if is_local_player localSteamId localPlayerUid p then isHost else localIsHost)))"

definition read_initial_players :: "int \<Rightarrow> u32 option \<Rightarrow> (bool \<times> game_host_player list) rd" where
  "read_initial_players localSteamId localPlayerUid =
     rd_bind read_int32 (\<lambda>count.
       if count < 0 \<or> max_players < count then rd_throw (Error ''Invalid initial player count'')
       else read_players localSteamId localPlayerUid (nat count) False)"

definition read_chat :: "game_host_packet rd" where
  "read_chat =
     rd_bind read_uint32 (\<lambda>senderUid.
     rd_bind (read_string max_chat_message_bytes) (\<lambda>message.
     rd_bind read_int32 (\<lambda>badgeCount.
       if badgeCount < 0 \<or> max_chat_badges < badgeCount then rd_throw (Error ''Invalid chat badge count'')
       else
         rd_bind (read_times (nat badgeCount) (read_string max_chat_badge_bytes)) (\<lambda>_.
         rd_return (Chat_Packet message senderUid)))))"

definition read_player_connected :: "game_host_packet rd" where
  "read_player_connected =
     rd_bind read_uint32 (\<lambda>uid.
     rd_bind read_uint64 (\<lambda>steamId.
     rd_bind read_boolean (\<lambda>isHost.
     rd_bind read_boolean (\<lambda>hasHostPowers.
     rd_bind (read_string 1024) (\<lambda>tag.
     rd_bind (read_string 1024) (\<lambda>backup.
     rd_bind (read_string 1024) (\<lambda>user.
     rd_return (Player_Connected_Packet isHost hasHostPowers steamId
       \<lparr>backupName = backup, playerTag = tag, player_steamId = steamId, player_uid = uid,
        username = Some user\<rparr>))))))))"

definition read_level_data :: "game_host_packet option rd" where
  "read_level_data =
     rd_bind read_int32 (\<lambda>packetType.
     rd_bind (read_string 4096) (\<lambda>name.
     rd_bind (read_string 4096) (\<lambda>uid.
     rd_bind read_uint64 (\<lambda>workshop.
     rd_bind read_int32 (\<lambda>byteLength.
     rd_bind rd_remaining (\<lambda>remainingBits.
       if byteLength < 0 \<or> max_level_data_bytes < byteLength \<or> int remainingBits < byteLength * 8
       then rd_throw (Error ''Invalid level payload'')
       else
         rd_bind (read_bytes (nat byteLength)) (\<lambda>data.
           if packetType = 1 then rd_return (Some (Level_Data_Packet data name uid workshop))
           else if packetType = 3 then rd_return (Some (Level_Request name workshop uid))
           else rd_return None)))))))"

definition game_host_rd :: "int \<Rightarrow> u32 option \<Rightarrow> game_host_packet option rd" where
  "game_host_rd localSteamId localPlayerUid =
     rd_bind read_uint16 (\<lambda>packet.
       if packet = zeepkist_packet_id Player_Update_Result then
         rd_bind read_uint32 (\<lambda>uid.
         rd_bind read_boolean (\<lambda>hasResult.
         rd_bind (read_string 4096) (\<lambda>levelUid.
         rd_bind read_float32 (\<lambda>time.
         rd_bind read_int32 (\<lambda>checkpoints.
         rd_return (Some (Player_Result uid hasResult levelUid time checkpoints)))))))
       else if packet = zeepkist_packet_id Leaderboard_Name then rd_map Some read_leaderboard
       else if packet = zeepkist_packet_id Initial_State then
         rd_map (\<lambda>(isHost, players). Some (Initial_Packet isHost players))
           (read_initial_players localSteamId localPlayerUid)
       else if packet = zeepkist_packet_id Chat_Message then rd_map Some read_chat
       else if packet = zeepkist_packet_id Player_Connected then rd_map Some read_player_connected
       else if packet = zeepkist_packet_id Player_Disconnected then
         rd_map (\<lambda>uid. Some (Player_Disconnected_Packet uid)) read_uint32
       else if packet = zeepkist_packet_id Change_Lobby_Playlist then
         rd_map (\<lambda>p. Some (Playlist_Packet p)) read_playlist
       else if packet = zeepkist_packet_id Change_Lobby_Game_Properties then
         rd_bind read_float64 (\<lambda>time.
         rd_bind read_float64 (\<lambda>levelLoadedAt.
         rd_bind (read_string 4096) (\<lambda>uid.
         rd_bind read_uint64 (\<lambda>workshop.
         rd_return (Some (Game_Properties levelLoadedAt time uid workshop))))))
       else if packet = zeepkist_packet_id Change_Lobby_Game_State then
         rd_map (\<lambda>st. Some (Game_State_Packet st)) read_int32
       else if packet = zeepkist_packet_id Change_Lobby_Master then
         rd_map (\<lambda>uid. Some (Master_Packet uid)) read_uint32
       else if packet = zeepkist_packet_id Change_Lobby_Playlist_Index then
         rd_bind read_int32 (\<lambda>current.
         rd_bind read_int32 (\<lambda>next_ix.
         rd_bind read_boolean (\<lambda>selectNext.
         rd_return (Some (Playlist_Index current next_ix selectNext)))))
       else if packet = zeepkist_packet_id Level_Data then read_level_data
       else rd_return None)"

definition parse_game_host_packet :: "byte list \<Rightarrow> int \<Rightarrow> u32 option \<Rightarrow> js_error + game_host_packet option" where
  "parse_game_host_packet payload localSteamId localPlayerUid =
     res_map fst (game_host_rd localSteamId localPlayerUid (new_reader payload))"

section \<open>The ids are distinct\<close>

text \<open>The hash over natural numbers, which evaluates quickly.\<close>

fun hash_nat :: "nat \<Rightarrow> string \<Rightarrow> nat" where
  "hash_nat h [] = h"
| "hash_nat h (c # cs) = hash_nat ((h * 31 + of_char c) mod 4294967296) cs"

end
