(* ===== verification/Packet_Ids.thy ===== *)
theory Packet_Ids
  imports Game_Packets
begin

text \<open>
  The ids of \<open>ZEEPKIST_PACKET_ID\<close>, evaluated: \<open>packet_id\<close> over words agrees with the hash over
  natural numbers, and no two packet names share an id, so the order of the parser's tests does
  not matter.
\<close>

lemma char_less_65536: "of_char c < (65536 :: nat)"
  by (rule less_trans [OF nat_of_char_less_256]) simp

lemma first_units_lit: "first_units (lit s) = lit s"
proof (induction s)
  case (Cons c s)
  have "unat (of_nat (of_char c) :: u16) < 256"
    using char_less_65536 [of c] by simp
  with Cons show ?case
    by (simp add: lit_def is_high_def)
qed (simp add: lit_def)

lemma hash_fold: "fold (\<lambda>c hash. hash * 31 + ucast c) (lit s) (of_nat h :: u32) = of_nat (hash_nat h s)"
proof (induction s arbitrary: h)
  case (Cons c s)
  have "ucast (of_nat (of_char c) :: u16) = (of_nat (of_char c) :: u32)"
    using char_less_65536 [of c] by (simp add: unsigned_of_nat take_bit_nat_eq_self)
  then have "of_nat h * 31 + ucast (of_nat (of_char c) :: u16) = (of_nat (h * 31 + of_char c) :: u32)"
    by simp
  also have "\<dots> = of_nat ((h * 31 + of_char c) mod 4294967296)"
    by (rule word_of_nat_eq_iff [THEN iffD2]) (simp add: take_bit_eq_mod)
  finally show ?case
    using Cons by (simp add: lit_def)
qed (simp add: lit_def)

lemma zeepkist_packet_id_eq: "zeepkist_packet_id p = of_nat (hash_nat 23 (full_name p) mod 65536)"
proof -
  have mask: "v AND 0xFFFF = take_bit 16 v" for v :: u32
    by (simp add: take_bit_eq_mask mask_eq_exp_minus_1)
  have "zeepkist_packet_id p = of_nat (hash_nat 23 (full_name p)) AND 0xFFFF"
    unfolding zeepkist_packet_id_def packet_id_def first_units_lit
    using hash_fold [of "full_name p" 23] by simp
  then show ?thesis
    unfolding mask take_bit_of_nat by (simp add: take_bit_eq_mod)
qed

lemma packet_ids:
  "zeepkist_packet_id Custom_Leaderboard = 65488"
  "zeepkist_packet_id Leaderboard_Name = 26487"
  "zeepkist_packet_id Player_Update_Result = 3549"
  "zeepkist_packet_id Chat_Message = 48137"
  "zeepkist_packet_id Custom_Chat_Message = 37243"
  "zeepkist_packet_id Create_Lobby = 18036"
  "zeepkist_packet_id Create_Lobby_Response = 42517"
  "zeepkist_packet_id Join_Lobby = 24070"
  "zeepkist_packet_id Join_Lobby_Response = 2983"
  "zeepkist_packet_id Initial_State = 29635"
  "zeepkist_packet_id Change_Lobby_Game_Properties = 44133"
  "zeepkist_packet_id Change_Lobby_Game_State = 56687"
  "zeepkist_packet_id Change_Lobby_Master = 13890"
  "zeepkist_packet_id Change_Lobby_Playlist = 60338"
  "zeepkist_packet_id Change_Lobby_Playlist_Index = 18192"
  "zeepkist_packet_id Change_Lobby_Visibility = 3826"
  "zeepkist_packet_id Level_Data = 22792"
  "zeepkist_packet_id Level_Loaded = 29603"
  "zeepkist_packet_id Player_Connected = 8162"
  "zeepkist_packet_id Player_Disconnected = 48658"
  "zeepkist_packet_id Skip_To_Level = 63876"
  by (simp_all add: zeepkist_packet_id_eq)

lemma all_packet_names_complete: "p \<in> set all_packet_names"
  by (cases p) (simp_all add: all_packet_names_def)

lemma packet_id_16: "take_bit 16 (zeepkist_packet_id p) = zeepkist_packet_id p"
  by (cases p) (simp_all add: packet_ids)

lemma packet_id_inject: "zeepkist_packet_id p = zeepkist_packet_id q \<longleftrightarrow> p = q"
  by (cases p; cases q; simp add: packet_ids)

end
