(* ===== verification/Game_Codec.thy ===== *)
theory Game_Codec
  imports Packet_Ids
begin

text \<open>
  The builders of \<open>gameServerPackets.ts\<close> against its parsers: what the parser makes of a packet
  in the format the builders write (or, for packets only the server sends, the format the tests of
  the module write with \<open>BitWriter\<close>), and bounds on what the parsers return for any bytes.
\<close>

lemmas parses_guards = parses_if_throw

lemma parses_bind_map: "parses p xs a \<Longrightarrow> f a = b \<Longrightarrow> parses (rd_map f p) xs b"
  by (drule parses_map [of _ _ _ f]) simp

section \<open>Playlists\<close>

fun level_texts :: "('a online_level_scheme) \<Rightarrow> jstring list" where
  "level_texts level = [level_uid level, level_name level, collaborators level, overrideAuthorName level, author level]"

definition level_sendable :: "('a online_level_scheme) \<Rightarrow> bool" where
  "level_sendable level \<longleftrightarrow> list_all (string_ok 4096) (level_texts level)
     \<and> 0 \<le> workshopId level \<and> workshopId level < 2 ^ 64"

definition level_bits :: "('a online_level_scheme) \<Rightarrow> bool list" where
  "level_bits level = concat
     [enc_string (level_uid level), map (bit (workshopId level)) [0..<64], enc_string (level_name level),
      enc_string (collaborators level), enc_string (overrideAuthorName level), enc_string (author level), [False]]"

text \<open>The level as the receiver sees it: unplayed, its texts without byte order mark.\<close>

definition received_level :: "('a online_level_scheme) \<Rightarrow> online_playlist_level" where
  "received_level level = \<lparr>author = drop_bom (author level), collaborators = drop_bom (collaborators level),
     level_name = drop_bom (level_name level), overrideAuthorName = drop_bom (overrideAuthorName level),
     level_uid = drop_bom (level_uid level), workshopId = workshopId level, played = False\<rparr>"

lemma string_ok_write: "string_ok n s \<Longrightarrow> emits (write_string s) (enc_string s)"
  by (rule emits_write_string) (simp add: string_ok_def)

lemma emits_playlist_level: "level_sendable level \<Longrightarrow> emits (write_playlist_level level) (level_bits level)"
  unfolding write_playlist_level_def level_bits_def
  by (rule emits_writes) (auto simp: level_sendable_def intro: emits_typed(1-8) string_ok_write)

lemma parses_playlist_level:
  assumes "level_sendable level"
  shows "parses read_playlist_level (level_bits level) (received_level level)"
proof -
  have "parses read_playlist_level (level_bits level)
    \<lparr>author = drop_bom (author level), collaborators = drop_bom (collaborators level),
     level_name = drop_bom (level_name level), overrideAuthorName = drop_bom (overrideAuthorName level),
     level_uid = drop_bom (level_uid level), workshopId = take_bit 64 (workshopId level), played = False\<rparr>"
    using assms unfolding level_sendable_def read_playlist_level_def level_bits_def concat.simps
    by (intro parses_steps parses_return) simp_all
  with assms show ?thesis
    by (simp add: level_sendable_def received_level_def take_bit_64_small)
qed

lemma level_bits_length:
  assumes "level_sendable level"
  shows "length (level_bits level) \<le> 170000"
proof -
  have "length (enc_string s) \<le> 32808" if "s \<in> set (level_texts level)" for s
    using assms enc_string_length [of 4096 s] that by (auto simp: level_sendable_def list_all_iff)
  from this [of "level_uid level"] this [of "level_name level"] this [of "collaborators level"] this [of "overrideAuthorName level"]
    this [of "author level"] show ?thesis
    by (simp add: level_bits_def)
qed

interpretation playlist_codec: wire_codec write_playlist_level read_playlist_level level_bits level_sendable received_level
  by unfold_locales (simp_all add: emits_playlist_level parses_playlist_level)

definition playlist_bits :: "js_number \<Rightarrow> int \<Rightarrow> int \<Rightarrow> ('a online_level_scheme) list \<Rightarrow> bool list" where
  "playlist_bits time current next_ix lvs = concat
     [map (bit (canon time)) [0..<64], [False], map (bit current) [0..<32], map (bit next_ix) [0..<32],
      map (bit (int (length lvs))) [0..<32], concat (map level_bits lvs), [True],
      map (bit (int (length lvs))) [0..<32]]"

lemma playlist_bits_length:
  assumes "\<And>l. l \<in> set lvs \<Longrightarrow> level_sendable l" "length lvs \<le> max_playlist_levels"
  shows "16 + length (playlist_bits time current next_ix lvs) < 2 ^ 32"
proof -
  have "length (concat (map level_bits lvs)) \<le> length lvs * 170000"
    by (intro length_concat_map_le level_bits_length assms(1))
  with assms(2) show ?thesis
    by (simp add: playlist_bits_def max_playlist_levels_def del: length_concat)
qed

lemma parses_playlist:
  assumes "\<And>l. l \<in> set lvs \<Longrightarrow> level_sendable l" "length lvs \<le> max_playlist_levels"
  shows "parses read_playlist (playlist_bits time current next_ix lvs)
    \<lparr>currentIndex = signed_take_bit 31 current, isRandom = False, levels = map received_level lvs,
     nextIndex = signed_take_bit 31 next_ix, originalPlaylistLength = int (length lvs),
     roundTime = canon time, wasSynced = True\<rparr>"
proof -
  have n: "signed_take_bit 31 (int (length lvs)) = int (length lvs)" "length lvs \<le> max_playlist_levels"
    using assms(2) by (simp_all add: signed_small max_playlist_levels_def)
  have canon: "canon (canon time) = canon time"
    by (simp add: canon_def)
  have lv: "parses (read_times (nat (signed_take_bit 31 (int (length lvs)))) read_playlist_level)
      (concat (map level_bits lvs)) (map received_level lvs)"
    using playlist_codec.codec_read_many [OF assms(1)] by (simp add: n(1))
  have "parses read_playlist (playlist_bits time current next_ix lvs)
    \<lparr>currentIndex = signed_take_bit 31 current, isRandom = False, levels = map received_level lvs,
     nextIndex = signed_take_bit 31 next_ix, originalPlaylistLength = signed_take_bit 31 (int (length lvs)),
     roundTime = canon (canon time), wasSynced = True\<rparr>"
    unfolding read_playlist_def playlist_bits_def concat.simps
    by (intro parses_steps parses_guards parses_bind [OF lv] parses_return) (simp add: n not_less)
  then show ?thesis
    by (simp add: n(1) canon)
qed

section \<open>Dispatch\<close>

lemma game_host_dispatch:
  "parses read_playlist xs pl \<Longrightarrow>
     parses (game_host_rd s u) (map (bit (zeepkist_packet_id Change_Lobby_Playlist)) [0..<16] @ xs) (Some (Playlist_Packet pl))"
  "parses read_chat xs p \<Longrightarrow>
     parses (game_host_rd s u) (map (bit (zeepkist_packet_id Chat_Message)) [0..<16] @ xs) (Some p)"
  "parses read_leaderboard xs p \<Longrightarrow>
     parses (game_host_rd s u) (map (bit (zeepkist_packet_id Leaderboard_Name)) [0..<16] @ xs) (Some p)"
  "parses (read_initial_players s u) xs (h, ps) \<Longrightarrow>
     parses (game_host_rd s u) (map (bit (zeepkist_packet_id Initial_State)) [0..<16] @ xs) (Some (Initial_Packet h ps))"
  "parses read_level_data xs q \<Longrightarrow>
     parses (game_host_rd s u) (map (bit (zeepkist_packet_id Level_Data)) [0..<16] @ xs) q"
  unfolding game_host_rd_def
  by (auto simp: packet_id_16 packet_id_inject intro!: parses_bind [OF parses_read_uint16] parses_bind_map)

lemma parse_game_host:
  assumes "emits f xs" "parses (game_host_rd s u) (map (bit n) [0..<16] @ xs) a" "16 + length xs < 2 ^ 32"
  shows "parse_game_host_packet (write_packet n f) s u = Inr a"
  using write_packet_roundtrip [OF assms] by (auto simp: parse_game_host_packet_def)

lemma emits_playlist:
  assumes "\<And>l. l \<in> set lvs \<Longrightarrow> level_sendable l"
  shows "emits (writes [write_float64 time, write_boolean False, write_int32 current, write_int32 next_ix,
    write_int32 (int (length lvs)), fold write_playlist_level lvs, write_boolean True, write_int32 (int (length lvs))])
    (playlist_bits time current next_ix lvs)"
  unfolding playlist_bits_def
  by (rule emits_writes) (auto intro: emits_typed(1-8) playlist_codec.codec_write_many assms)

section \<open>Chat\<close>

lemma parses_chat:
  assumes "string_ok max_chat_message_bytes message"
  shows "parses read_chat (concat [map (bit (0::int)) [0..<32], enc_string message, map (bit (0::int)) [0..<32]])
    (Chat_Packet (drop_bom message) 0)"
proof -
  have z: "map (bit (0::int)) [0..<32] = map (bit (0::u32)) [0..<32]"
    by simp
  have int0: "parses read_int32 (map (bit (0::u32)) [0..<32]) 0"
    using parses_read_int32 [of 0] by (simp add: z)
  have none: "parses (read_times (nat 0) (read_string max_chat_badge_bytes)) [] []"
    by (simp add: parses_return del: rd_return_apply)
  show ?thesis
    unfolding read_chat_def concat.simps z
    by (intro parses_bind [OF parses_read_uint32] parses_bind [OF parses_read_string] parses_bind [OF int0]
        parses_guards parses_bind_Nil [OF none] parses_return assms) (simp add: max_chat_badges_def)
qed

section \<open>Level data\<close>

definition level_data_bits :: "int \<Rightarrow> jstring \<Rightarrow> jstring \<Rightarrow> int \<Rightarrow> byte list \<Rightarrow> bool list" where
  "level_data_bits packetType levelName uid workshop data = concat
     [map (bit packetType) [0..<32], enc_string levelName, enc_string uid, map (bit workshop) [0..<64],
      map (bit (int (length data))) [0..<32], bits_of data]"

text \<open>What \<open>parseGameHostPacket\<close> returns for a packet type.\<close>

definition level_data_result ::
  "int \<Rightarrow> jstring \<Rightarrow> jstring \<Rightarrow> int \<Rightarrow> byte list \<Rightarrow> game_host_packet option" where
  "level_data_result packetType levelName uid workshop data =
     (if packetType = 1 then Some (Level_Data_Packet data levelName uid workshop)
      else if packetType = 3 then Some (Level_Request levelName workshop uid) else None)"

lemma emits_level_data:
  assumes "string_ok 4096 levelName" "string_ok 4096 uid"
  shows "emits (write_level_data packetType levelName uid workshop data)
    (level_data_bits packetType levelName uid workshop data)"
  unfolding write_level_data_def level_data_bits_def
  by (rule emits_writes) (auto intro: emits_typed(1-8) string_ok_write assms)

text \<open>\<open>remainingBits\<close> in front of the data.\<close>

lemma parses_remaining_guard:
  assumes "parses p xs a" "\<And>n. length xs \<le> n \<Longrightarrow> \<not> c n"
  shows "parses (rd_bind rd_remaining (\<lambda>n. if c n then rd_throw e else p)) xs a"
proof (rule parsesI)
  fix r ys
  assume a: "addressable r" and r: "rest r = xs @ ys"
  with assms(2) rest_remaining [OF r] parsesD [OF assms(1) a r]
  show "rd_bind rd_remaining (\<lambda>n. if c n then rd_throw e else p) r = Inr (a, adv (length xs) r)"
    by (simp add: rd_bind_def rd_remaining_def)
qed

lemma parses_level_data:
  assumes "string_ok 4096 levelName" "string_ok 4096 uid" "0 \<le> workshop" "workshop < 2 ^ 64"
    and "- (2 ^ 31) \<le> packetType" "packetType < 2 ^ 31" "int (length data) \<le> max_level_data_bytes"
  shows "parses read_level_data (level_data_bits packetType levelName uid workshop data)
    (level_data_result packetType (drop_bom levelName) (drop_bom uid) workshop data)"
proof -
  let ?q = "\<lambda>t w bs. if t = 1 then rd_return (Some (Level_Data_Packet bs (drop_bom levelName) (drop_bom uid) w))
    else if t = 3 then rd_return (Some (Level_Request (drop_bom levelName) w (drop_bom uid))) else rd_return None"
  have t: "signed_take_bit 31 packetType = packetType" "take_bit 64 workshop = workshop"
    using assms by (simp_all add: signed_take_bit_int_eq_self take_bit_64_small)
  have n: "signed_take_bit 31 (int (length data)) = int (length data)"
    using assms(7) by (simp add: signed_small max_level_data_bytes_def)
  have q: "parses (?q packetType workshop data) [] (level_data_result packetType (drop_bom levelName) (drop_bom uid) workshop data)"
    by (simp add: level_data_result_def parses_return del: rd_return_apply)
  have bytes: "parses (rd_bind (read_bytes (nat (int (length data)))) (?q packetType workshop)) (bits_of data)
      (level_data_result packetType (drop_bom levelName) (drop_bom uid) workshop data)"
    using parses_bind_last [OF parses_read_bytes, of "?q packetType workshop" data, OF q] by simp
  have tail: "parses (rd_bind rd_remaining (\<lambda>m. if int (length data) < 0 \<or> max_level_data_bytes < int (length data)
          \<or> int m < int (length data) * 8 then rd_throw (Error ''Invalid level payload'')
        else rd_bind (read_bytes (nat (int (length data)))) (?q packetType workshop))) (bits_of data)
      (level_data_result packetType (drop_bom levelName) (drop_bom uid) workshop data)"
    by (rule parses_remaining_guard [OF bytes]) (use assms(7) in simp)
  show ?thesis
    unfolding read_level_data_def level_data_bits_def concat.simps append_Nil2
    by (rule parses_steps(3), subst t, rule parses_steps(8), rule assms, rule parses_steps(8), rule assms,
        rule parses_steps(4), rule parses_steps(3)) (simp only: t n tail)
qed

end
