(* ===== verification/Game_Players.thy ===== *)
theory Game_Players
  imports Game_Codec
begin

text \<open>
  The initial state of a lobby and the custom leaderboard of \<open>gameServerPackets.ts\<close>.

  \<open>write_initial_player\<close> is the server's encoding of one player, as the tests of the module write
  it; \<open>parses_players\<close> shows that the parser returns the players in order and that its host flag is
  the one of the last player that is the local one. \<open>read_custom_leaderboard\<close> is the receiver of
  \<open>writeLeaderboard\<close> in the tests.

  The last section bounds what the parsers return for any bytes.
\<close>

section \<open>The initial state\<close>

record sent_player =
  sp_uid :: int
  sp_steam_id :: int
  sp_tag :: jstring
  sp_name :: jstring
  sp_host :: bool
  sp_appearance :: jstring
  sp_floats :: "js_number list"
  sp_flag1 :: bool
  sp_flag2 :: bool
  sp_byte :: byte
  sp_flags :: "bool list"
  sp_int1 :: int
  sp_int2 :: int
  sp_result :: "(jstring \<times> int \<times> js_number) option"

definition write_result :: "(jstring \<times> int \<times> js_number) option \<Rightarrow> bit_writer \<Rightarrow> bit_writer" where
  "write_result res =
     (case res of None \<Rightarrow> writes [write_boolean False]
      | Some (levelUid, checkpoints, time) \<Rightarrow>
          writes [write_boolean True, write_string levelUid, write_int32 checkpoints, write_float32 time])"

definition write_initial_player :: "sent_player \<Rightarrow> bit_writer \<Rightarrow> bit_writer" where
  "write_initial_player p = writes
     [write_uint32 (sp_uid p), write_uint64 (sp_steam_id p), write_string (sp_tag p), write_string (sp_name p),
      write_boolean (sp_host p), write_string (sp_appearance p), fold write_float32 (sp_floats p),
      write_boolean (sp_flag1 p), write_boolean (sp_flag2 p), write_byte (ucast (sp_byte p)),
      fold write_boolean (sp_flags p), write_int32 (sp_int1 p), write_int32 (sp_int2 p),
      write_result (sp_result p)]"

definition result_bits :: "(jstring \<times> int \<times> js_number) option \<Rightarrow> bool list" where
  "result_bits res =
     (case res of None \<Rightarrow> [False]
      | Some (levelUid, checkpoints, time) \<Rightarrow> concat
          [[True], enc_string levelUid, map (bit checkpoints) [0..<32], map (bit (f64_to_f32 time)) [0..<32]])"

definition player_bits :: "sent_player \<Rightarrow> bool list" where
  "player_bits p = concat
     [map (bit (sp_uid p)) [0..<32], map (bit (sp_steam_id p)) [0..<64], enc_string (sp_tag p),
      enc_string (sp_name p), [sp_host p], enc_string (sp_appearance p),
      concat (map (\<lambda>x. map (bit (f64_to_f32 x)) [0..<32]) (sp_floats p)), [sp_flag1 p], [sp_flag2 p],
      byte_bits (sp_byte p), concat (map (\<lambda>b. [b]) (sp_flags p)), map (bit (sp_int1 p)) [0..<32],
      map (bit (sp_int2 p)) [0..<32], result_bits (sp_result p)]"

definition player_sendable :: "sent_player \<Rightarrow> bool" where
  "player_sendable p \<longleftrightarrow> string_ok 1024 (sp_tag p) \<and> string_ok 1024 (sp_name p)
     \<and> string_ok (64 * 1024) (sp_appearance p) \<and> length (sp_floats p) = 10 \<and> length (sp_flags p) = 13
     \<and> (\<forall>u c t. sp_result p = Some (u, c, t) \<longrightarrow> string_ok 4096 u)"

definition received_player :: "sent_player \<Rightarrow> game_host_player \<times> bool" where
  "received_player p =
     (\<lparr>backupName = drop_bom (sp_name p), playerTag = drop_bom (sp_tag p),
       player_steamId = take_bit 64 (sp_steam_id p), player_uid = word_of_int (sp_uid p), username = None\<rparr>,
      sp_host p)"

lemma byte_bits_ucast: "map (bit (ucast b :: u32)) [0..<8] = byte_bits b"
  by (rule map_cong [THEN trans]) (auto simp: byte_bits_def bit_simps)

lemma emits_byte: "emits (write_byte (ucast b)) (byte_bits b)"
  using emits_write_byte [of "ucast b"] by (simp only: byte_bits_ucast)

lemma emits_result:
  assumes "\<And>u c t. res = Some (u, c, t) \<Longrightarrow> string_ok 4096 u"
  shows "emits (write_result res) (result_bits res)"
proof (cases res)
  case None
  have "emits (writes [write_boolean False]) (concat [[False]])"
    by (intro emits_writes list.rel_intros emits_write_boolean)
  then show ?thesis
    by (simp add: None write_result_def result_bits_def)
next
  case (Some t)
  with assms obtain u c x where t: "t = (u, c, x)" "string_ok 4096 u"
    by (cases t) auto
  show ?thesis
    unfolding Some t(1) write_result_def result_bits_def option.case prod.case
    by (intro emits_writes list.rel_intros emits_typed(1-8) string_ok_write [OF t(2)])
qed

lemma emits_player:
  assumes "player_sendable p"
  shows "emits (write_initial_player p) (player_bits p)"
proof -
  have r: "emits (write_result (sp_result p)) (result_bits (sp_result p))"
    using assms by (intro emits_result) (auto simp: player_sendable_def)
  show ?thesis
    using assms unfolding write_initial_player_def player_bits_def player_sendable_def
    by (intro emits_writes list.rel_intros emits_typed(1-8) string_ok_write [of 1024 "sp_tag p"]
        string_ok_write [of 1024 "sp_name p"] string_ok_write [of "64 * 1024" "sp_appearance p"] emits_byte r
        boolean.codec_write_many float32.codec_write_many) simp_all
qed

lemma parses_uint32_int: "parses read_uint32 (map (bit v) [0..<32]) (word_of_int v)"
  by (rule uint32.parses_read) simp

lemma parses_result:
  assumes "\<And>u c t. res = Some (u, c, t) \<Longrightarrow> string_ok 4096 u"
  shows "parses (rd_bind read_boolean (\<lambda>hasResult.
     rd_bind (if hasResult
         then rd_bind (read_string 4096) (\<lambda>_. rd_bind read_int32 (\<lambda>_. rd_bind read_float32 (\<lambda>_. rd_return ())))
         else rd_return ()) (\<lambda>_. rd_return a))) (result_bits res) a"
proof (cases res)
  case None
  have "parses (rd_bind (rd_return ()) (\<lambda>_. rd_return a)) [] a"
    by (rule parses_bind_Nil [OF parses_return]) (rule parses_return)
  then show ?thesis
    unfolding None result_bits_def option.case by (intro parses_bind_last [OF parses_read_boolean]) simp
next
  case (Some t)
  obtain u c x where t: "t = (u, c, x)"
    by (cases t) auto
  have u: "string_ok 4096 u"
    using assms Some t by simp
  have "parses (rd_bind (read_string 4096) (\<lambda>_. rd_bind read_int32 (\<lambda>_. rd_bind read_float32 (\<lambda>_. rd_return ()))))
      (concat [enc_string u, map (bit c) [0..<32], map (bit (f64_to_f32 x)) [0..<32]]) ()"
    unfolding concat.simps by (intro parses_steps parses_return u)
  then have "parses (rd_bind (rd_bind (read_string 4096) (\<lambda>_. rd_bind read_int32 (\<lambda>_. rd_bind read_float32
      (\<lambda>_. rd_return ())))) (\<lambda>_. rd_return a))
      (concat [enc_string u, map (bit c) [0..<32], map (bit (f64_to_f32 x)) [0..<32]]) a"
    by (rule parses_bind_last) (rule parses_return)
  then show ?thesis
    unfolding Some t result_bits_def option.case prod.case concat.simps
    by (intro parses_bind [OF parses_read_boolean]) (simp del: rd_return_apply)
qed

lemma parses_many_floats:
  "length xs = 3 + 3 + 4 \<Longrightarrow>
   parses (read_times (3 + 3 + 4) read_float32) (concat (map (\<lambda>x. map (bit (f64_to_f32 x)) [0..<32]) xs)) (map js_fround xs)"
  using float32.codec_read_many [of xs] by simp

lemma parses_many_flags:
  "length bs = 13 \<Longrightarrow> parses (read_times 13 read_boolean) (concat (map (\<lambda>b. [b]) bs)) bs"
  using boolean.codec_read_many [of bs] by simp

lemma parses_player:
  assumes "player_sendable p"
  shows "parses read_initial_player (player_bits p) (received_player p)"
proof -
  have "\<And>u c t. sp_result p = Some (u, c, t) \<Longrightarrow> string_ok 4096 u"
    using assms by (simp add: player_sendable_def)
  note res = parses_result [OF this]
  show ?thesis
    using assms unfolding player_sendable_def read_initial_player_def player_bits_def concat.simps append_Nil2
      received_player_def
    by (intro parses_bind [OF parses_uint32_int] parses_steps(1,3,4,8,9)
        parses_bind [OF parses_many_floats] parses_bind [OF parses_many_flags] res) simp_all
qed

lemma result_bits_length:
  assumes "\<And>u c t. res = Some (u, c, t) \<Longrightarrow> string_ok 4096 u"
  shows "length (result_bits res) \<le> 33000"
proof (cases res)
  case (Some r)
  obtain u c x where r: "r = (u, c, x)"
    by (cases r)
  with assms Some have "length (enc_string u) \<le> 40 + 8 * 4096"
    by (intro enc_string_length) simp
  then show ?thesis
    by (simp add: Some r result_bits_def)
qed (simp add: result_bits_def)

lemma player_bits_length:
  assumes "player_sendable p"
  shows "length (player_bits p) \<le> 600000"
proof -
  have "length (result_bits (sp_result p)) \<le> 33000"
    using assms by (intro result_bits_length) (auto simp: player_sendable_def)
  moreover have "length (concat (map (\<lambda>x. map (bit (f64_to_f32 x)) [0..<32]) (sp_floats p))) \<le> length (sp_floats p) * 32"
    "length (concat (map (\<lambda>b. [b]) (sp_flags p))) \<le> length (sp_flags p) * 1"
    by (intro length_concat_map_le; simp)+
  ultimately show ?thesis
    using assms enc_string_length [of 1024 "sp_tag p"] enc_string_length [of 1024 "sp_name p"] enc_string_length [of "64 * 1024" "sp_appearance p"]
    by (simp add: player_bits_def player_sendable_def del: length_concat)
qed

interpretation player_codec: wire_codec write_initial_player read_initial_player player_bits player_sendable received_player
  by unfold_locales (simp_all add: emits_player parses_player)

text \<open>The host flag: the one of the last player that is the local one.\<close>

definition host_flag :: "int \<Rightarrow> u32 option \<Rightarrow> bool \<Rightarrow> (game_host_player \<times> bool) list \<Rightarrow> bool" where
  "host_flag localSteamId localPlayerUid h ps =
     fold (\<lambda>(p, isHost) h. if is_local_player localSteamId localPlayerUid p then isHost else h) ps h"

lemma host_flag_last:
  "host_flag s u h0 qs = (case filter (\<lambda>(p, h). is_local_player s u p) (rev qs) of [] \<Rightarrow> h0 | (p, h) # _ \<Rightarrow> h)"
proof (induction qs rule: rev_induct)
  case (snoc q qs)
  then show ?case
    by (cases q) (simp add: host_flag_def)
qed (simp add: host_flag_def)

lemma parses_players:
  assumes "\<And>p. p \<in> set ps \<Longrightarrow> player_sendable p"
  shows "parses (read_players s u (length ps) h) (concat (map player_bits ps))
    (host_flag s u h (map received_player ps), map (fst \<circ> received_player) ps)"
  using assms
proof (induction ps arbitrary: h)
  case (Cons p ps)
  obtain q isHost where q: "received_player p = (q, isHost)"
    by (cases "received_player p")
  have "parses (rd_map (\<lambda>(h, ps). (h, q # ps)) (read_players s u (length ps) (if is_local_player s u q then isHost else h)))
      (concat (map player_bits ps)) (host_flag s u h (map received_player (p # ps)), map (fst \<circ> received_player) (p # ps))"
    by (rule parses_bind_map, rule Cons.IH, rule Cons.prems, simp) (simp add: q host_flag_def)
  then have "parses (rd_bind read_initial_player (\<lambda>(p, isHost). rd_map (\<lambda>(h, ps). (h, p # ps))
        (read_players s u (length ps) (if is_local_player s u p then isHost else h))))
      (player_bits p @ concat (map player_bits ps))
      (host_flag s u h (map received_player (p # ps)), map (fst \<circ> received_player) (p # ps))"
    by (intro parses_bind [OF parses_player]) (use Cons.prems in \<open>simp_all only: q prod.case list.set_intros\<close>)
  then show ?case
    by (simp add: comp_def)
qed (simp add: host_flag_def parses_return del: rd_return_apply)

lemma parses_initial:
  assumes "\<And>p. p \<in> set ps \<Longrightarrow> player_sendable p" "int (length ps) \<le> max_players"
  shows "parses (read_initial_players s u) (concat [map (bit (int (length ps))) [0..<32], concat (map player_bits ps)])
    (host_flag s u False (map received_player ps), map (fst \<circ> received_player) ps)"
proof -
  have n: "signed_take_bit 31 (int (length ps)) = int (length ps)"
    using assms(2) by (simp add: signed_small max_players_def)
  show ?thesis
    unfolding read_initial_players_def concat.simps append_Nil2
    by (rule parses_steps(3), unfold n, rule parses_guards) (use assms(2) parses_players [OF assms(1)] in simp_all)
qed

section \<open>The custom leaderboard\<close>

record leaderboard_entry =
  entry_steam_id :: int
  entry_time :: js_number
  entry_notify :: bool
  entry_is_override :: bool
  entry_fields :: "jstring list"

definition read_custom_leaderboard :: "leaderboard_entry rd" where
  "read_custom_leaderboard =
     rd_bind read_uint16 (\<lambda>_.
     rd_bind read_uint64 (\<lambda>steamId.
     rd_bind read_boolean (\<lambda>_.
     rd_bind read_float32 (\<lambda>time.
     rd_bind read_int32 (\<lambda>_.
     rd_bind read_boolean (\<lambda>notify.
     rd_bind read_boolean (\<lambda>isOverride.
     rd_bind (read_times 5 (read_string 4096)) (\<lambda>fields.
     rd_return \<lparr>entry_steam_id = steamId, entry_time = time, entry_notify = notify,
       entry_is_override = isOverride, entry_fields = fields\<rparr>))))))))"

definition override_fields :: "leaderboard_overrides \<Rightarrow> jstring list" where
  "override_fields overrides = [override_time overrides, override_position overrides, override_name overrides,
     override_points overrides, override_pointsWon overrides]"

lemma write_leaderboard_cases:
  assumes "write_leaderboard steamId time isOverride notify overrides = Inr bytes"
  shows "0 < steamId" "steamId < 2 ^ 64" "f \<in> set (override_fields overrides) \<Longrightarrow> length (text_encode f) \<le> 4096"
    "bytes = write_packet (zeepkist_packet_id Custom_Leaderboard) (writes
        [write_uint64 steamId, write_boolean False, write_float32 time, write_int32 0,
         write_boolean notify, write_boolean isOverride, fold write_string (override_fields overrides)])"
  using assms by (auto simp: write_leaderboard_def Let_def override_fields_def split: if_splits)

lemma leaderboard_received:
  assumes "write_leaderboard steamId time isOverride notify overrides = Inr bytes"
    and "\<And>f. f \<in> set (override_fields overrides) \<Longrightarrow> well_formed f"
  shows "res_map fst (read_custom_leaderboard (new_reader bytes)) = Inr
    \<lparr>entry_steam_id = steamId, entry_time = js_fround time, entry_notify = notify,
     entry_is_override = isOverride, entry_fields = map drop_bom (override_fields overrides)\<rparr>"
proof -
  note w = write_leaderboard_cases [OF assms(1)]
  let ?fs = "override_fields overrides"
  have ok: "string_ok 4096 f" if "f \<in> set ?fs" for f
    using w(3) [OF that] assms(2) [OF that] by (simp add: string_ok_def)
  let ?xs = "concat [map (bit steamId) [0..<64], [False], map (bit (f64_to_f32 time)) [0..<32],
    map (bit (0::int)) [0..<32], [notify], [isOverride], concat (map enc_string ?fs)]"
  have e: "emits (writes [write_uint64 steamId, write_boolean False, write_float32 time, write_int32 0,
         write_boolean notify, write_boolean isOverride, fold write_string ?fs]) ?xs"
    by (rule emits_writes) (intro list.rel_intros emits_typed(1-8) utf8.codec_write_many [of _ 4096] ok)
  have len: "length ?fs = 5"
    by (simp add: override_fields_def)
  have fs: "parses (read_times 5 (read_string 4096)) (concat (map enc_string ?fs)) (map drop_bom ?fs)"
    using utf8.codec_read_many [where as = ?fs and maxBytes = 4096, OF ok] by (simp add: len)
  have r: "parses read_custom_leaderboard
     (map (bit (zeepkist_packet_id Custom_Leaderboard)) [0..<16] @ ?xs)
     \<lparr>entry_steam_id = take_bit 64 steamId, entry_time = f32_to_f64 (f64_to_f32 time), entry_notify = notify,
      entry_is_override = isOverride, entry_fields = map drop_bom ?fs\<rparr>"
    unfolding read_custom_leaderboard_def concat.simps
    by (intro parses_steps parses_bind [OF fs] parses_return)
  have "16 + length ?xs < 2 ^ 32"
  proof -
    have "length (enc_string f) \<le> 40 + 8 * 4096" if "f \<in> set ?fs" for f
      by (rule enc_string_length [OF ok [OF that]])
    then have "length (concat (map enc_string ?fs)) \<le> length ?fs * 32808"
      by (intro length_concat_map_le) simp
    then show ?thesis
      by (simp add: len del: length_concat)
  qed
  from write_packet_roundtrip [OF e r this] show ?thesis
    using w(1,2) unfolding w(4) by (auto simp: take_bit_64_small js_fround_def)
qed

section \<open>Every packet parsed is bounded\<close>

fun game_packet_valid :: "game_host_packet \<Rightarrow> bool" where
  "game_packet_valid (Leaderboard_Packet t ts overrides) \<longleftrightarrow>
     t \<le> 4 \<and> int (length ts) \<le> max_players \<and> int (length overrides) \<le> max_players"
| "game_packet_valid (Player_Result uid h levelUid t c) \<longleftrightarrow> length levelUid \<le> 4096"
| "game_packet_valid (Initial_Packet h ps) \<longleftrightarrow> int (length ps) \<le> max_players"
| "game_packet_valid (Chat_Packet m s) \<longleftrightarrow> length m \<le> max_chat_message_bytes"
| "game_packet_valid (Playlist_Packet p) \<longleftrightarrow> length (levels p) \<le> max_playlist_levels"
| "game_packet_valid (Level_Data_Packet d n u w) \<longleftrightarrow> int (length d) \<le> max_level_data_bytes"
| "game_packet_valid _ \<longleftrightarrow> True"

definition opt_valid :: "('a \<Rightarrow> bool) \<Rightarrow> 'a option \<Rightarrow> bool" where
  "opt_valid P q = (case q of None \<Rightarrow> True | Some a \<Rightarrow> P a)"

lemma yields_map: "yields p P \<Longrightarrow> (\<And>a. P a \<Longrightarrow> Q (f a)) \<Longrightarrow> yields (rd_map f p) Q"
  unfolding rd_map_def by (erule yields_bind) (rule yields_return, simp)

lemma yields_leaderboard_count: "yields read_leaderboard_count (\<lambda>n. int n \<le> max_players)"
  unfolding read_leaderboard_count_def
  by (intro yields_bind_any yields_if yields_throw yields_return) simp

lemma yields_leaderboard: "yields read_leaderboard game_packet_valid"
  unfolding read_leaderboard_def
  apply ((rule yields_bind_any)+, rule yields_if, rule yields_throw)
  apply (rule yields_bind [OF yields_leaderboard_count])
  apply (rule yields_bind [OF yields_times [OF yields_any]])
  apply (rule yields_bind [OF yields_leaderboard_count])
  apply (rule yields_bind [OF yields_times [OF yields_any]])
  apply (intro yields_bind_any yields_return)
  apply (simp add: not_less nat_le_iff)
  done

lemma yields_chat: "yields read_chat game_packet_valid"
  unfolding read_chat_def
  by (rule yields_bind_any, rule yields_bind [OF yields_string])
    (intro yields_bind_any yields_if yields_throw yields_return, simp)

lemma yields_playlist: "yields read_playlist (\<lambda>p. length (levels p) \<le> max_playlist_levels)"
  unfolding read_playlist_def
  apply ((rule yields_bind_any)+, rule yields_if, rule yields_throw)
  apply (rule yields_bind [OF yields_times [OF yields_any]])
  apply (intro yields_bind_any yields_return)
  apply (simp add: not_less nat_le_iff)
  done

lemma yields_players: "yields (read_players s u n h) (\<lambda>(h, ps). length ps = n)"
proof (induction n arbitrary: h)
  case (Suc n)
  show ?case
    by (simp only: read_players.simps split_def, rule yields_bind_any, rule yields_map [OF Suc.IH])
      (simp add: split_def)
qed (simp add: yields_return del: rd_return_apply)

lemma yields_initial: "yields (read_initial_players s u) (\<lambda>(h, ps). int (length ps) \<le> max_players)"
  unfolding read_initial_players_def
  by (rule yields_bind_any, rule yields_if, rule yields_throw)
    (use yields_players in \<open>fastforce simp: yields_def\<close>)

lemma yields_level_data: "yields read_level_data (opt_valid game_packet_valid)"
  unfolding read_level_data_def
  apply ((rule yields_bind_any)+, rule yields_if, rule yields_throw)
  apply (rule yields_bind [OF yields_bytes])
  apply (intro yields_if yields_return)
  apply (simp_all add: opt_valid_def)
  done

lemma yields_player_result:
  "yields (rd_bind read_uint32 (\<lambda>uid. rd_bind read_boolean (\<lambda>hasResult. rd_bind (read_string 4096) (\<lambda>levelUid.
     rd_bind read_float32 (\<lambda>time. rd_bind read_int32 (\<lambda>checkpoints.
     rd_return (Some (Player_Result uid hasResult levelUid time checkpoints)))))))) (opt_valid game_packet_valid)"
  by (rule yields_bind_any, rule yields_bind_any, rule yields_bind [OF yields_string])
    (intro yields_bind_any yields_return, simp add: opt_valid_def)

lemma yields_player_connected: "yields read_player_connected game_packet_valid"
  unfolding read_player_connected_def by (intro yields_bind_any yields_return) simp

lemma yields_game_host: "yields (game_host_rd s u) (opt_valid game_packet_valid)"
  unfolding game_host_rd_def
  by (rule yields_bind_any)
    (intro yields_if yields_player_result yields_level_data yields_bind_any yields_return
      yields_map [OF yields_leaderboard] yields_map [OF yields_initial] yields_map [OF yields_chat]
      yields_map [OF yields_playlist] yields_map [OF yields_player_connected] yields_map [OF yields_any];
     auto simp: opt_valid_def)

end
