(* ===== verification/Wire_Properties.thy ===== *)
theory Wire_Properties
  imports Wire_Values Level_Payload Lobby_Packets Game_Players
begin

text \<open>
  The properties of the wire format: \<open>binary.ts\<close>, \<open>levelPayload.ts\<close>, \<open>lobbyPackets.ts\<close> and
  \<open>gameServerPackets.ts\<close>, each with a witness at a concrete input where it has hypotheses.
\<close>

section \<open>BitReader and BitWriter\<close>

text \<open>
  C12: any sequence of typed values of fewer than \<open>2 ^ 32\<close> bits, its strings well-formed UTF-16 within the byte limit they are
  read with, is read back by the same sequence of \<open>BitReader\<close> calls after it was written with \<open>BitWriter\<close>, whatever
  the bit alignment each value ends up at. The values come back as the wire carries them: integers modulo their width,
  floats rounded to single precision, strings without a leading byte order mark.
\<close>

theorem bitstream_roundtrip:
  assumes "\<And>v. v \<in> set vs \<Longrightarrow> value_ok v" and "sum_list (map (length \<circ> value_bits) vs) < 2 ^ 32"
  shows "res_map fst (read_all_like vs (new_reader (to_uint8_array (fold write_value vs new_writer))))
    = Inr (map value_view vs)"
  using message_roundtrip [OF emits_values [OF assms(1)] parses_values [OF assms(1)]] assms(2)
  by (simp add: length_concat comp_def)

lemma bitstream_roundtrip_witness:
  "res_map fst (read_all_like
      [W_Boolean True, W_Int32 (- 5), W_String 16 (lit ''Zeep''), W_Uint64 76561198000000001, W_Bytes [1, 2]]
      (new_reader (to_uint8_array (fold write_value
        [W_Boolean True, W_Int32 (- 5), W_String 16 (lit ''Zeep''), W_Uint64 76561198000000001, W_Bytes [1, 2]] new_writer))))
    = Inr (map value_view
        [W_Boolean True, W_Int32 (- 5), W_String 16 (lit ''Zeep''), W_Uint64 76561198000000001, W_Bytes [1, 2]])"
  by (rule bitstream_roundtrip) (auto simp: string_eval enc_string_def varint_small)

text \<open>
  C39: every sequence of writes of fewer than \<open>2 ^ 32\<close> bits, with well-formed strings, keeps the writer's invariant (the
  buffer holds the position and is zero behind it), \<open>bitLength\<close> is the number of bits written, and \<open>toUint8Array\<close> returns
  exactly these bits, padded with zeros to a whole byte.
\<close>

theorem writer_output:
  assumes "\<And>v. v \<in> set vs \<Longrightarrow> value_ok v"
  defines "w \<equiv> fold write_value vs new_writer" and "n \<equiv> sum_list (map (length \<circ> value_bits) vs)"
  assumes "n < 2 ^ 32"
  shows "writer_inv w \<and> wpos w = n \<and> length (to_uint8_array w) = ceil_div n 8
    \<and> bits_of (to_uint8_array w) = concat (map value_bits vs) @ replicate (8 * ceil_div n 8 - n) False"
proof -
  have n: "n = length (concat (map value_bits vs))"
    by (simp add: n_def length_concat comp_def)
  have e: "emits (fold write_value vs) (concat (map value_bits vs))"
    by (intro emits_values assms(1))
  have inv: "writer_inv w" "written w = concat (map value_bits vs)"
    using emitsD [OF e writer_new(1)] assms(4)
    by (simp_all add: w_def writer_new(2) n [symmetric]) (simp_all add: new_writer_def)
  then have pos: "wpos w = n"
    using length_written n by metis
  have "bits_of (to_uint8_array w) = concat (map value_bits vs) @ replicate (8 * ceil_div n 8 - n) False"
    using bits_of_to_uint8_array [OF inv(1)] inv(2) pos by (simp add: pad_def mult.commute)
  moreover from arg_cong [OF this, of length] have "length (to_uint8_array w) = ceil_div n 8"
    using n ceil_div_upper [of 8 n] by simp
  ultimately show ?thesis
    using inv pos by simp
qed

lemma writer_output_witness:
  "length (to_uint8_array (fold write_value [W_Boolean True, W_Uint16 7] new_writer)) = 3
   \<and> value_ok (W_Boolean True) \<and> value_ok (W_Uint16 7)"
proof -
  have ok: "value_ok v" if "v \<in> set [W_Boolean True, W_Uint16 7]" for v
    using that by auto
  show ?thesis
    using writer_output [of "[W_Boolean True, W_Uint16 7]", OF ok] ok by (simp add: ceil_div_def)
qed

text \<open>
  C38: no typed read ever moves the position backwards or past the end of the data, whatever the
  data and the position; the data itself is never changed.
\<close>

theorem reads_stay_in_bounds:
  assumes "read_like v r = Inr (x, r')" and "rpos r \<le> 8 * length (rdata r)"
  shows "rdata r' = rdata r \<and> rpos r \<le> rpos r' \<and> rpos r' \<le> 8 * length (rdata r)"
  using assms bounded_value [of v] unfolding bounded_rd_def by blast

lemma reads_stay_in_bounds_witness:
  "read_like (W_Boolean True) (new_reader [5]) = Inr (W_Boolean True, adv 1 (new_reader [5]))
   \<and> rpos (adv 1 (new_reader [5])) \<le> 8"
proof -
  have "parses read_boolean [True] True"
    by (rule parses_read_boolean)
  then have r: "read_like (W_Boolean True) (new_reader [5]) = Inr (W_Boolean True, adv 1 (new_reader [5]))"
    using parses_new_reader [OF parses_map [OF parses_read_boolean, of W_Boolean], of "[5]" True "map (bit (5::byte)) [1..<8]"]
    by (simp add: byte_bits_def upt_rec)
  with reads_stay_in_bounds [OF r] show ?thesis
    by (simp add: new_reader_def)
qed

text \<open>
  The variable-length encoding of any 32-bit value takes one to five bytes and is read back.
\<close>

theorem varint_wire:
  "res_map fst (read_variable_uint32 (new_reader (to_uint8_array (write_variable_uint32 v new_writer)))) = Inr v
   \<and> 1 \<le> length (to_uint8_array (write_variable_uint32 v new_writer))
   \<and> length (to_uint8_array (write_variable_uint32 v new_writer)) \<le> 5"
proof -
  have v: "unat v < 4294967296"
    using unsigned_less [of v] by simp
  have e: "emits (write_variable_uint32 v) (bits_of (varint (unat v)))"
    by (rule emits_write_variable)
  have l: "varint (unat v) \<noteq> []" "length (varint (unat v)) \<le> 5"
    using varint_nonempty varint_length_u32 [OF v] by auto
  then have "length (bits_of (varint (unat v))) < 2 ^ 32"
    by simp
  note e = e this
  have "8 * length (to_uint8_array (write_variable_uint32 v new_writer)) = 8 * length (varint (unat v))"
    using arg_cong [OF to_uint8_array_emits(1) [OF e], of length] by (simp add: pad_def ceil_div_mult mult.commute)
  with l show ?thesis
    using message_roundtrip [OF e(1) varuint.parses_read e(2)] by (simp add: Suc_leI)
qed

section \<open>Level payloads\<close>

text \<open>
  C13: a level payload decodes to the lines that were encoded, each without its own leading byte order mark,
  for any compression that \<open>gunzip\<close> undoes, when the content is well-formed UTF-16 and gives at most 10,000,000 lines, and the
  payload, compressed and decompressed, has at most 64 MiB. (The encoder has no limit on lines, the decoder refuses more.)
\<close>

theorem level_payload_roundtrip:
  assumes "\<And>bs. gunzip (gzip bs) = Inr bs"
    and "well_formed content" "length (level_lines content v15) \<le> 10000000"
    and "encode_level_payload gzip content v15 = Inr payload" "length payload \<le> max_level_payload_bytes"
  shows "decode_level_payload gunzip payload = Inr (map drop_bom (level_lines content v15))"
proof -
  have p: "payload = gzip (level_bytes (level_lines content v15))"
    "length (level_bytes (level_lines content v15)) \<le> max_level_payload_bytes"
    using assms(4) by (auto simp: encode_level_payload_def Let_def split: if_splits)
  have "read_level (level_bytes (level_lines content v15)) = Inr (map drop_bom (level_lines content v15))"
    using well_formed_level_lines [OF assms(2)] assms(3) p(2) by (intro read_level_bytes) auto
  then show ?thesis
    using assms(1,5) by (simp add: decode_level_payload_def p(1))
qed

lemma level_bytes_ab: "level_bytes [lit ''a'', lit ''b''] = [2, 0, 0, 0, 1, 97, 1, 98]"
  by (simp add: level_bytes_def le_bytes_def line_bytes_def Let_def write_7bit_int_eq varint_small string_eval upt_rec
      drop_bit_eq_div)

lemma level_payload_roundtrip_witness:
  "decode_level_payload Inr [2, 0, 0, 0, 1, 97, 1, 98] = Inr [lit ''a'', lit ''b'']"
proof -
  have lines: "level_lines (lit ''a'' @ [10, 98]) True = [lit ''a'', lit ''b'']"
    by (simp add: level_lines_def drop_bom_def line_feed_def lit_def)
  have enc: "encode_level_payload (\<lambda>bs. bs) (lit ''a'' @ [10, 98]) True = Inr [2, 0, 0, 0, 1, 97, 1, 98]"
    by (simp add: encode_level_payload_def lines level_bytes_ab max_level_payload_bytes_def)
  show ?thesis
    using level_payload_roundtrip [of Inr "\<lambda>bs. bs", OF _ _ _ enc]
    by (simp add: lines max_level_payload_bytes_def) (simp add: string_eval drop_bom_def)
qed

text \<open>
  In the current format a well-formed text without byte order marks is recovered exactly: the decoded
  lines contain no line feed and joined by line feeds they are the content.
\<close>

theorem level_text_recovered:
  assumes "\<And>bs. gunzip (gzip bs) = Inr bs"
    and "well_formed content" "list_all (\<lambda>u. unat u \<noteq> 65279) content"
    and "length (level_lines content True) \<le> 10000000"
    and "encode_level_payload gzip content True = Inr payload" "length payload \<le> max_level_payload_bytes"
  shows "\<exists>lines. decode_level_payload gunzip payload = Inr lines \<and> join_with line_feed lines = content
    \<and> list_all (\<lambda>l. line_feed \<notin> set l) lines"
proof -
  have d: "drop_bom content = content"
    using assms(3) by (cases content) (simp_all add: drop_bom_def)
  have lines: "level_lines content True = split_on line_feed content"
    by (simp add: level_lines_def d)
  have p: "payload = gzip (level_bytes (level_lines content True))"
    "length (level_bytes (level_lines content True)) \<le> max_level_payload_bytes"
    using assms(5) by (auto simp: encode_level_payload_def Let_def split: if_splits)
  have keep: "drop_bom l = l" if "l \<in> set (split_on line_feed content)" for l
    using split_on_units [OF that] assms(3) by (cases l) (auto simp: drop_bom_def list_all_iff)
  have "read_level (level_bytes (level_lines content True)) = Inr (map drop_bom (level_lines content True))"
    using well_formed_level_lines [OF assms(2)] assms(4) p(2) by (intro read_level_bytes) auto
  then have "decode_level_payload gunzip payload = Inr (split_on line_feed content)"
    using assms(1,6) keep by (simp add: decode_level_payload_def p(1) lines map_idI)
  then show ?thesis
    by (simp add: join_split_on list_all_iff split_on_no_sep)
qed

lemma level_text_recovered_witness:
  "\<exists>lines. decode_level_payload Inr [2, 0, 0, 0, 1, 97, 1, 98] = Inr lines
    \<and> join_with line_feed lines = lit ''a'' @ [10, 98] \<and> list_all (\<lambda>l. line_feed \<notin> set l) lines"
proof -
  have lines: "level_lines (lit ''a'' @ [10, 98]) True = [lit ''a'', lit ''b'']"
    by (simp add: level_lines_def drop_bom_def line_feed_def lit_def)
  have enc: "encode_level_payload (\<lambda>bs. bs) (lit ''a'' @ [10, 98]) True = Inr [2, 0, 0, 0, 1, 97, 1, 98]"
    by (simp add: encode_level_payload_def lines level_bytes_ab max_level_payload_bytes_def)
  show ?thesis
    by (rule level_text_recovered [of Inr "\<lambda>bs. bs", OF _ _ _ _ enc])
      (simp_all add: lines max_level_payload_bytes_def, simp_all add: string_eval)
qed

text \<open>
  The encoder does not check the number of lines, the decoder does: a text with more than ten
  million lines is encoded within the size limit and its payload is rejected.
\<close>

theorem level_too_many_lines:
  assumes "\<And>bs. gunzip (gzip bs) = Inr bs"
    and "10000000 < length (level_lines content v15)"
    and "encode_level_payload gzip content v15 = Inr payload" "length payload \<le> max_level_payload_bytes"
  shows "decode_level_payload gunzip payload = Inl (Error ''Invalid level line count'')"
  using assms by (auto simp: encode_level_payload_def decode_level_payload_def Let_def read_level_too_many
      split: if_splits)

lemma split_on_separators: "split_on c (replicate n c) = replicate (Suc n) []"
  by (induction n) simp_all

lemma line_bytes_empty: "line_bytes [] = [0]"
  by (simp add: line_bytes_def Let_def write_7bit_int_eq varint_small)

lemma level_bytes_empty_lines: "level_bytes (replicate n []) = le_bytes 4 (of_nat n :: u32) @ replicate n 0"
proof -
  have "concat (replicate n [0 :: byte]) = replicate n 0"
    by (induction n) simp_all
  then show ?thesis
    by (simp add: level_bytes_def line_bytes_empty)
qed

lemma drop_bom_newlines: "drop_bom (replicate n line_feed) = replicate n line_feed"
  by (cases n) (simp_all add: drop_bom_def line_feed_def)

lemma level_too_many_lines_witness:
  "decode_level_payload Inr (le_bytes 4 (of_nat 10000001 :: u32) @ replicate 10000001 0)
    = Inl (Error ''Invalid level line count'')"
proof -
  let ?content = "replicate 10000000 line_feed"
  note d = drop_bom_newlines [of 10000000]
  have "Suc 10000000 = 10000001"
    by simp
  then have lines: "level_lines ?content True = replicate 10000001 []"
    unfolding level_lines_def Let_def d if_True split_on_separators by simp
  have enc: "encode_level_payload (\<lambda>bs. bs) ?content True
      = Inr (le_bytes 4 (of_nat 10000001 :: u32) @ replicate 10000001 0)"
    unfolding encode_level_payload_def Let_def lines level_bytes_empty_lines
    by (simp add: max_level_payload_bytes_def le_bytes_def)
  show ?thesis
    by (rule level_too_many_lines [of Inr "\<lambda>bs. bs", OF _ _ enc])
      (simp_all only: lines length_replicate, simp_all add: max_level_payload_bytes_def le_bytes_def)
qed

section \<open>Lobby packets\<close>

text \<open>
  A lobby list in the server's encoding is parsed to exactly these lobbies, in order, with the steam id
  in decimal.
\<close>

theorem lobby_list_parsed:
  assumes "\<And>l. l \<in> set ls \<Longrightarrow> sendable l" "length ls \<le> max_lobbies"
  shows "parse_lobby_packet (lobby_list_packet ls) = Inr (Some (Lobby_List (map listed ls)))"
proof -
  have w: "emits (writes [write_int32 (int (length ls)), fold write_lobby ls])
      (concat [map (bit (int (length ls))) [0..<32], concat (map lobby_bits ls)])"
    by (intro emits_writes list.rel_intros emits_write_int32 lobby_codec.codec_write_many assms)
  have "length (concat (map lobby_bits ls)) \<le> length ls * 50000"
    by (intro length_concat_map_le lobby_bits_length assms(1))
  then have "16 + length (concat [map (bit (int (length ls))) [0..<32], concat (map lobby_bits ls)]) < 2 ^ 32"
    using assms(2) by (simp add: max_lobbies_def del: length_concat)
  from write_packet_roundtrip [OF w _ this] parses_lobby_list [OF assms] show ?thesis
    by (fastforce simp: parse_lobby_packet_def lobby_list_packet_def)
qed

lemma lobby_list_parsed_witness:
  "parse_lobby_packet (lobby_list_packet [\<lparr>sent_id = lit ''one'', sent_title = lit ''Room'', sent_host = lit ''Alice'',
      sent_steam_id = 12, sent_players = 8, sent_player_limit = 64, sent_public = True\<rparr>])
    = Inr (Some (Lobby_List [\<lparr>lobby_id = lit ''one'', lobby_title = lit ''Room'', lobby_is_public = True,
        lobby_host = \<lparr>host_name = lit ''Alice'', host_steam_id = lit ''12''\<rparr>, lobby_players = 8,
        lobby_player_limit = 64\<rparr>]))"
  by (subst lobby_list_parsed) (auto simp: sendable_def string_eval max_lobbies_def listed_def drop_bom_def
      bigint_string_def show_nat.simps [of 12] show_nat.simps [of "Suc 0"])

text \<open>
  Whatever the bytes, a parsed lobby packet has at most 4096 lobbies, no negative count, and texts
  within their limits.
\<close>

theorem lobby_packet_bounded:
  assumes "parse_lobby_packet data = Inr (Some p)"
  shows "lobby_packet_valid p"
  using assms yieldsD [OF yields_lobby_packet]
  by (fastforce simp: parse_lobby_packet_def res_map_Inr_iff)

lemma lobby_packet_bounded_witness:
  "parse_lobby_packet (lobby_list_packet []) = Inr (Some (Lobby_List [])) \<and> lobby_packet_valid (Lobby_List [])"
proof -
  have p: "parse_lobby_packet (lobby_list_packet []) = Inr (Some (Lobby_List []))"
  proof -
    have w: "emits (writes [write_int32 (int (length ([] :: sent_lobby list))), fold write_lobby []])
        (concat [map (bit (int (length ([] :: sent_lobby list)))) [0..<32], concat (map lobby_bits [])])"
      by (intro emits_writes list.rel_intros emits_write_int32 lobby_codec.codec_write_many) simp
    have r: "parses lobby_packet_rd (map (bit lobby_packet_list) [0..<16]
        @ map (bit (int (length ([] :: sent_lobby list)))) [0..<32] @ concat (map lobby_bits []))
        (Some (Lobby_List (map listed [])))"
      by (rule parses_lobby_list) simp_all
    from write_packet_roundtrip [OF w, of lobby_packet_rd lobby_packet_list] r show ?thesis
      by (fastforce simp: parse_lobby_packet_def lobby_list_packet_def)
  qed
  with lobby_packet_bounded [OF p] show ?thesis
    by simp
qed

section \<open>Game server packets\<close>

text \<open>
  The hashes of the 21 packet names are pairwise different 16-bit values, so the parsers' dispatch on
  them is unambiguous and the 16-bit id on the wire identifies the packet.
\<close>

theorem packet_ids_distinct:
  "(zeepkist_packet_id p = zeepkist_packet_id q \<longleftrightarrow> p = q)
   \<and> unat (zeepkist_packet_id p) < 65536 \<and> distinct (map zeepkist_packet_id all_packet_names) \<and> p \<in> set all_packet_names"
proof -
  have "distinct (map zeepkist_packet_id all_packet_names)"
    by (simp add: distinct_map inj_on_def packet_id_inject) (simp add: all_packet_names_def)
  moreover have "unat (zeepkist_packet_id p) < 65536"
    by (cases p) (simp_all add: packet_ids)
  ultimately show ?thesis
    by (simp add: packet_id_inject all_packet_names_complete)
qed

text \<open>
  The playlist packet a host sends is accepted by its own parser, which returns the round time, the two
  indices, every level unplayed and in order, and the playlist's length.
\<close>

theorem playlist_roundtrip:
  assumes "change_lobby_levels_packet lvs time current next_ix = Inr bytes"
    and "\<And>l. l \<in> set lvs \<Longrightarrow> level_sendable l"
  shows "parse_game_host_packet bytes s u = Inr (Some (Playlist_Packet
    \<lparr>currentIndex = the (js_integer current), isRandom = False, levels = map received_level lvs,
     nextIndex = the (js_integer next_ix), originalPlaylistLength = int (length lvs),
     roundTime = time, wasSynced = True\<rparr>))"
proof -
  have g: "length lvs \<le> max_playlist_levels" "\<not> invalid_index current (length lvs)"
      "\<not> invalid_index next_ix (length lvs)" "is_finite time"
    and bytes: "bytes = write_packet (zeepkist_packet_id Change_Lobby_Playlist) (writes
        [write_float64 time, write_boolean False, write_int32 (the (js_integer current)),
         write_int32 (the (js_integer next_ix)), write_int32 (int (length lvs)),
         fold write_playlist_level lvs, write_boolean True, write_int32 (int (length lvs))])"
    using assms(1) by (auto simp: change_lobby_levels_packet_def split: if_splits)
  have small: "signed_take_bit 31 (the (js_integer i)) = the (js_integer i)" if "\<not> invalid_index i (length lvs)" for i
    using that g(1) by (auto simp: invalid_index_def max_playlist_levels_def split: option.splits intro!: signed_small)
  have canon: "canon time = time"
    using g(4) by (simp add: canon_def is_nan_def is_finite_def)
  show ?thesis
    unfolding bytes
    using parse_game_host [OF emits_playlist [OF assms(2)] game_host_dispatch(1) [OF parses_playlist [OF assms(2) g(1)]] playlist_bits_length [OF assms(2) g(1)]]
    by (simp add: small [OF g(2)] small [OF g(3)] canon)
qed

definition example_level :: online_level where
  "example_level = \<lparr>author = lit ''A'', collaborators = [], level_name = lit ''Track'', overrideAuthorName = [],
     level_uid = lit ''uid'', workshopId = 123\<rparr>"

lemma example_level_sendable: "l \<in> set [example_level] \<Longrightarrow> level_sendable l"
  by (simp add: example_level_def level_sendable_def string_eval)

text \<open>900 seconds as a number.\<close>

definition example_time :: js_number where
  "example_time = 0x408C200000000000"

lemma example_playlist: "\<exists>bytes. change_lobby_levels_packet [example_level] example_time 0 0 = Inr bytes"
  by (simp add: change_lobby_levels_packet_def max_playlist_levels_def invalid_index_def js_integer_def f64_exp_def
      f64_mag_def f64_man_def is_finite_def example_time_def js_le_def js_of_nat_def f64_key_def f64_sign_def)

lemma playlist_roundtrip_witness:
  "\<exists>bytes. parse_game_host_packet bytes 1 None = Inr (Some (Playlist_Packet
    \<lparr>currentIndex = 0, isRandom = False, levels = [received_level example_level], nextIndex = 0,
     originalPlaylistLength = 1, roundTime = example_time, wasSynced = True\<rparr>))"
proof -
  obtain bytes where "change_lobby_levels_packet [example_level] example_time 0 0 = Inr bytes"
    using example_playlist by blast
  from playlist_roundtrip [OF this example_level_sendable, of 1 None] show ?thesis
    by (simp add: js_integer_def f64_exp_def f64_mag_def f64_man_def) blast
qed

text \<open>
  C40: for a well-formed message a chat packet is built exactly when the message has 1 to 4096 UTF-8 bytes, and a host that
  receives it sees the message without its leading byte order mark, if it has one, sent by uid 0.
\<close>

theorem chat_roundtrip:
  assumes "well_formed message"
  shows "if 1 \<le> length (text_encode message) \<and> length (text_encode message) \<le> 4096
    then \<exists>bytes. chat_message_packet message = Inr bytes
      \<and> parse_game_host_packet bytes s u = Inr (Some (Chat_Packet (drop_bom message) 0))
    else chat_message_packet message = Inl (Error ''Chat message must contain between 1 and 4096 bytes'')"
proof (cases "1 \<le> length (text_encode message) \<and> length (text_encode message) \<le> 4096")
  case True
  then have ok: "string_ok max_chat_message_bytes message"
    using assms by (simp add: string_ok_def max_chat_message_bytes_def)
  let ?xs = "concat [map (bit (0::int)) [0..<32], enc_string message, map (bit (0::int)) [0..<32]]"
  have e: "emits (writes [write_uint32 0, write_string message, write_int32 0]) ?xs"
    by (intro emits_writes list.rel_intros emits_write_uint32 emits_write_int32 string_ok_write [OF ok])
  have "16 + length ?xs < 2 ^ 32"
    using enc_string_length [OF ok] by (simp add: max_chat_message_bytes_def)
  from parse_game_host [OF e game_host_dispatch(2) [OF parses_chat [OF ok]] this] True show ?thesis
    by (auto simp: chat_message_packet_def Let_def max_chat_message_bytes_def not_less)
next
  case False
  then have "length (text_encode message) < 1 \<or> max_chat_message_bytes < length (text_encode message)"
    unfolding max_chat_message_bytes_def by linarith
  moreover have "show_nat max_chat_message_bytes = ''4096''"
    by (simp add: max_chat_message_bytes_def show_nat.simps [of 4096] show_nat.simps [of 409] show_nat.simps [of 40]
        show_nat.simps [of 4] char_of_eq_iff take_bit_eq_mod)
  ultimately show ?thesis
    using False by (cases "text_encode message") (auto simp: chat_message_packet_def Let_def)
qed

lemma chat_roundtrip_witness:
  "\<exists>bytes. chat_message_packet (lit ''hi'') = Inr bytes
    \<and> parse_game_host_packet bytes 1 None = Inr (Some (Chat_Packet (lit ''hi'') 0))"
proof -
  have "well_formed (lit ''hi'')" "length (text_encode (lit ''hi'')) = 2" "drop_bom (lit ''hi'') = lit ''hi''"
    by (simp_all add: string_eval drop_bom_def)
  with chat_roundtrip [of "lit ''hi''" 1 None] show ?thesis
    by simp
qed

text \<open>
  A level-data packet is read back as the data (type 1), as a request (type 3) or as nothing (any other
  type, in particular the types 0 and 2 that the host itself sends).
\<close>

theorem level_data_parsed:
  assumes "string_ok 4096 levelName" "string_ok 4096 uid" "0 \<le> workshop" "workshop < 2 ^ 64"
    and "- (2 ^ 31) \<le> packetType" "packetType < 2 ^ 31" "int (length data) \<le> max_level_data_bytes"
  shows "parse_game_host_packet (write_packet (zeepkist_packet_id Level_Data)
      (write_level_data packetType levelName uid workshop data)) s u
    = Inr (level_data_result packetType (drop_bom levelName) (drop_bom uid) workshop data)"
proof (rule parse_game_host [OF emits_level_data [OF assms(1,2)] game_host_dispatch(5) [OF parses_level_data [OF assms]]])
  have "8 * int (length data) \<le> 536870912"
    using assms(7) by (simp add: max_level_data_bytes_def)
  then have "8 * length data \<le> 536870912"
    by linarith
  then show "16 + length (level_data_bits packetType levelName uid workshop data) < 2 ^ 32"
    using enc_string_length [OF assms(1)] enc_string_length [OF assms(2)] by (simp add: level_data_bits_def)
qed

lemma level_data_parsed_witness:
  "parse_game_host_packet (write_packet (zeepkist_packet_id Level_Data)
      (write_level_data 1 (lit ''n'') (lit ''u'') 7 [1, 2, 3])) 1 None
    = Inr (Some (Level_Data_Packet [1, 2, 3] (lit ''n'') (lit ''u'') 7))"
  by (subst level_data_parsed)
    (simp_all add: string_eval max_level_data_bytes_def level_data_result_def drop_bom_def)

text \<open>
  An initial state with at most 256 players is parsed to its players in order, and the host flag is the
  one of the last player that is the local player (by uid when it is known, else by steam id).
\<close>

theorem initial_state_parsed:
  assumes "\<And>p. p \<in> set ps \<Longrightarrow> player_sendable p" "length ps \<le> 256"
  shows "parse_game_host_packet (write_packet (zeepkist_packet_id Initial_State)
      (writes [write_int32 (int (length ps)), fold write_initial_player ps])) s u
    = Inr (Some (Initial_Packet
        (case filter (\<lambda>(p, h). is_local_player s u p) (rev (map received_player ps)) of
           [] \<Rightarrow> False | (p, h) # _ \<Rightarrow> h)
        (map (fst \<circ> received_player) ps)))"
proof -
  have n: "int (length ps) \<le> max_players"
    using assms(2) by (simp add: max_players_def)
  have e: "emits (writes [write_int32 (int (length ps)), fold write_initial_player ps])
      (concat [map (bit (int (length ps))) [0..<32], concat (map player_bits ps)])"
    by (intro emits_writes list.rel_intros emits_write_int32 player_codec.codec_write_many assms)
  have "parses (read_initial_players s u) (concat [map (bit (int (length ps))) [0..<32], concat (map player_bits ps)])
      (host_flag s u False (map received_player ps), map (fst \<circ> received_player) ps)"
    by (rule parses_initial [OF assms(1) n])
  moreover have "length (concat (map player_bits ps)) \<le> length ps * 600000"
    by (intro length_concat_map_le player_bits_length assms(1))
  then have "16 + length (concat [map (bit (int (length ps))) [0..<32], concat (map player_bits ps)]) < 2 ^ 32"
    using assms(2) by (simp del: length_concat)
  ultimately have "parse_game_host_packet (write_packet (zeepkist_packet_id Initial_State)
      (writes [write_int32 (int (length ps)), fold write_initial_player ps])) s u
    = Inr (Some (Initial_Packet (host_flag s u False (map received_player ps)) (map (fst \<circ> received_player) ps)))"
    using parse_game_host [OF e game_host_dispatch(4)] by blast
  then show ?thesis
    unfolding host_flag_last .
qed

definition example_player :: "int \<Rightarrow> bool \<Rightarrow> sent_player" where
  "example_player uid host = \<lparr>sp_uid = uid, sp_steam_id = 100 + uid, sp_tag = lit ''tag'', sp_name = lit ''name'',
     sp_host = host, sp_appearance = [], sp_floats = replicate 10 0, sp_flag1 = False, sp_flag2 = True, sp_byte = 3,
     sp_flags = replicate 13 False, sp_int1 = 0, sp_int2 = 5, sp_result = None\<rparr>"

lemma initial_state_parsed_witness:
  "parse_game_host_packet (write_packet (zeepkist_packet_id Initial_State)
      (writes [write_int32 2, fold write_initial_player [example_player 1 False, example_player 2 True]])) 102 None
    = Inr (Some (Initial_Packet True (map (fst \<circ> received_player) [example_player 1 False, example_player 2 True])))"
proof -
  have ok: "player_sendable p" if "p \<in> set [example_player 1 False, example_player 2 True]" for p
    using that by (auto simp: example_player_def player_sendable_def string_eval)
  from initial_state_parsed [where ps = "[example_player 1 False, example_player 2 True]" and s = 102 and u = None, OF ok] show ?thesis
    by (simp add: example_player_def received_player_def is_local_player_def take_bit_64_small)
qed

text \<open>
  A leaderboard time is sent for a finite non-negative time and a positive 64-bit steam id only, and
  the receiver reads the steam id, the time capped at 36000 and rounded to single precision, the
  notification flag, and five empty texts.
\<close>

theorem leaderboard_time_received:
  assumes "is_finite time" "\<not> js_lt time (js_of_nat 0)" "0 < steamId" "steamId < 2 ^ 64"
  shows "\<exists>bytes. player_leaderboard_time_packet steamId time notify = Inr bytes
    \<and> res_map fst (read_custom_leaderboard (new_reader bytes)) = Inr
        \<lparr>entry_steam_id = steamId, entry_time = js_fround (js_min time (js_of_nat 36000)), entry_notify = notify,
         entry_is_override = False, entry_fields = replicate 5 []\<rparr>"
proof -
  let ?o = "\<lparr>override_name = [], override_points = [], override_pointsWon = [], override_position = [], override_time = []\<rparr>"
  obtain bytes where b: "write_leaderboard steamId (js_min time (js_of_nat 36000)) False notify ?o = Inr bytes"
    using assms(3,4) by (auto simp: write_leaderboard_def)
  have "map drop_bom (override_fields ?o) = replicate 5 []"
    by (simp add: override_fields_def drop_bom_def numeral_eq_Suc)
  with leaderboard_received [OF b] b assms(1,2) show ?thesis
    by (simp add: player_leaderboard_time_packet_def override_fields_def)
qed

lemma leaderboard_time_received_witness:
  "\<exists>bytes. player_leaderboard_time_packet 42 example_time True = Inr bytes
    \<and> res_map fst (read_custom_leaderboard (new_reader bytes)) = Inr
        \<lparr>entry_steam_id = 42, entry_time = js_fround (js_min example_time (js_of_nat 36000)), entry_notify = True,
         entry_is_override = False, entry_fields = replicate 5 []\<rparr>"
  by (rule leaderboard_time_received)
    (simp_all add: example_time_def is_finite_def f64_exp_def f64_mag_def js_lt_def f64_key_def js_of_nat_def f64_sign_def)

text \<open>
  C37: whatever the bytes, a parsed game packet respects the limits of the source: at most 256 players,
  leaderboard entries and overrides, 1001 playlist levels, 4096 units of chat and 64 MiB of level data.
\<close>

theorem game_packet_bounded:
  assumes "parse_game_host_packet payload s u = Inr (Some p)"
  shows "game_packet_valid p"
proof -
  obtain r where "game_host_rd s u (new_reader payload) = Inr (Some p, r)"
    using assms by (auto simp: parse_game_host_packet_def res_map_Inr_iff)
  from yieldsD [OF yields_game_host this] show ?thesis
    by (simp add: opt_valid_def)
qed

lemma game_packet_bounded_witness:
  "\<exists>bytes. parse_game_host_packet bytes 1 None = Inr (Some (Chat_Packet (lit ''hi'') 0))
    \<and> game_packet_valid (Chat_Packet (lit ''hi'') 0)"
proof -
  let ?m = "lit ''hi''"
  have ok: "string_ok max_chat_message_bytes ?m" and d: "drop_bom ?m = ?m"
    by (simp_all add: string_eval drop_bom_def max_chat_message_bytes_def)
  let ?xs = "concat [map (bit (0::int)) [0..<32], enc_string ?m, map (bit (0::int)) [0..<32]]"
  have e: "emits (writes [write_uint32 0, write_string ?m, write_int32 0]) ?xs"
    by (intro emits_writes list.rel_intros emits_write_uint32 emits_write_int32 string_ok_write [OF ok])
  have "16 + length ?xs < 2 ^ 32"
    using enc_string_length [OF ok] by (simp add: max_chat_message_bytes_def)
  from parse_game_host [OF e game_host_dispatch(2) [OF parses_chat [OF ok]] this, of 1 None]
  have p: "parse_game_host_packet (write_packet (zeepkist_packet_id Chat_Message)
      (writes [write_uint32 0, write_string ?m, write_int32 0])) 1 None = Inr (Some (Chat_Packet ?m 0))"
    by (simp add: d)
  from game_packet_bounded [OF p] p show ?thesis
    by blast
qed

end
