(* ===== verification/Lidgren_Client.thy ===== *)
theory Lidgren_Client
  imports Wire_Packet "HOL-Library.AList"
begin

text \<open>
  \<open>LidgrenClient\<close> of \<open>packages/core/src/zeepnet/lidgrenClient.ts\<close>: a client of the Lidgren
  reliable-UDP protocol.

  The record \<open>client\<close> holds the private fields. A JavaScript \<open>Map\<close> is an association list in
  insertion order: \<open>AList.update\<close> keeps the place of a key that is set again and \<open>AList.delete\<close>
  removes it, as \<open>Map\<close> does. The objects that the class shares by reference, the outgoing
  transfers, live in \<open>transfer_store\<close> under an address, and the queue, the set and the pending
  messages hold addresses. A running timer is a flag.

  The outside world is explicit. What the client does to it (a datagram sent, a callback, a promise
  settled, the socket closed) is appended to \<open>effects\<close>; what it does to the client is an event of
  \<open>Lidgren_Events\<close>. A handler gets one reading of the two clocks, \<open>now_ms\<close> for \<open>Date.now()\<close> and
  \<open>now_s\<close> for \<open>performance.now() / 1000\<close>. Callbacks neither throw nor call back into the client.

  A method is a \<open>'a lid\<close>, from a state to an exception or a value and the state at that point: as
  in the source, an exception does not undo what was done before it.
\<close>

section \<open>Constants\<close>

definition ping_type :: nat where "ping_type = 129"
definition pong_type :: nat where "pong_type = 130"
definition connect_type :: nat where "connect_type = 131"
definition connect_response_type :: nat where "connect_response_type = 132"
definition connection_established_type :: nat where "connection_established_type = 133"
definition acknowledge_type :: nat where "acknowledge_type = 134"
definition disconnect_type :: nat where "disconnect_type = 135"
definition reliable_ordered_type :: nat where "reliable_ordered_type = 67"

definition max_datagram_bytes :: nat where "max_datagram_bytes = 2 * 1024 * 1024"
definition max_fragment_groups :: nat where "max_fragment_groups = 32"
definition max_reassembled_bytes :: nat where "max_reassembled_bytes = 2 * 1024 * 1024"
definition max_fragment_bytes :: int where "max_fragment_bytes = 8 * 1024 * 1024"
definition fragment_ttl_ms :: int where "fragment_ttl_ms = 30000"
definition max_outgoing_bytes :: int where "max_outgoing_bytes = 64 * 1024 * 1024"
definition max_outgoing_transfers :: nat where "max_outgoing_transfers = 128"
definition sequence_modulus :: nat where "sequence_modulus = 1024"
definition receive_window :: int where "receive_window = 64"
definition send_window :: nat where "send_window = 64"
definition default_mtu :: nat where "default_mtu = 1200"
definition resend_delay_ms :: int where "resend_delay_ms = 500"
definition max_send_attempts :: nat where "max_send_attempts = 20"
definition max_disconnect_reason_bytes :: nat where "max_disconnect_reason_bytes = 512"

lemmas lidgren_types = ping_type_def pong_type_def connect_type_def connect_response_type_def
  connection_established_type_def acknowledge_type_def disconnect_type_def reliable_ordered_type_def

section \<open>State\<close>

text \<open>
  The errors a client ends with: \<open>new Error(message)\<close>, and \<open>LidgrenRemoteDisconnectError\<close> with the
  reason as received (its sanitising and categorising are not modelled).
\<close>

datatype client_error = Client_Error string | Remote_Disconnect jstring

record options =
  opt_application_identifier :: "jstring option"
  opt_hail :: "byte list"
  opt_mtu :: "nat option"
  opt_unique_identifier :: int

record clock =
  now_ms :: int
  now_s :: js_number

record incoming_message =
  in_fragmented :: bool
  in_payload :: "byte list"
  in_sequence :: nat
  in_type :: nat

record fragment_group =
  g_chunk_byte_size :: nat
  g_chunks :: "(nat \<times> byte list) list"
  g_created_at :: int
  g_total_bytes :: nat

record outgoing_transfer =
  t_chunk_byte_size :: nat
  t_chunk_count :: nat
  t_group_id :: nat
  t_message_type :: nat
  t_next_chunk :: nat
  t_payload :: "byte list"
  t_remaining :: int

record pending_reliable_message =
  p_attempts :: nat
  p_fragmented :: bool
  p_last_sent_at :: int
  p_payload :: "byte list"
  p_payload_bits :: nat
  p_sequence :: nat
  p_transfer :: nat
  p_type :: nat

datatype socket_state = No_Socket | Socket_Open | Socket_Closed

datatype client_output =
    Datagram_Sent "byte list"
  | Payload_Delivered "byte list"
  | Connected_Called "byte list"
  | Connect_Resolved
  | Connect_Rejected client_error
  | Transfer_Resolved nat
  | Transfer_Rejected nat client_error
  | Socket_Close_Called
  | Closed_Resolved

record client =
  socket :: socket_state
  connected :: bool
  closing :: bool
  closed :: bool
  close_error :: "client_error option"
  close_promise :: bool
  expected_sequences :: "(nat \<times> nat) list"
  withheld :: "(nat \<times> (nat \<times> incoming_message) list) list"
  fragments :: "((nat \<times> nat) \<times> fragment_group) list"
  fragment_bytes :: int
  handshake_timer :: bool
  maintenance_timer :: bool
  sender_timer :: bool
  handshake_attempts :: nat
  last_received_at :: int
  ping_number :: nat
  last_ping_at :: int
  send_sequences :: "(nat \<times> nat) list"
  fragment_group_next :: nat
  transfer_queue :: "nat list"
  outgoing_transfers :: "nat list"
  outgoing_bytes :: int
  pending_reliable :: "((nat \<times> nat) \<times> pending_reliable_message) list"
  transfer_store :: "nat \<Rightarrow> outgoing_transfer"
  next_transfer :: nat
  effects :: "client_output list"

definition no_transfer :: outgoing_transfer where
  "no_transfer = \<lparr>t_chunk_byte_size = 0, t_chunk_count = 0, t_group_id = 0, t_message_type = 0,
     t_next_chunk = 0, t_payload = [], t_remaining = 0\<rparr>"

definition new_client :: "int \<Rightarrow> client" where
  "new_client now = \<lparr>socket = No_Socket, connected = False, closing = False, closed = False, close_error = None,
     close_promise = False, expected_sequences = [], withheld = [], fragments = [], fragment_bytes = 0,
     handshake_timer = False, maintenance_timer = False, sender_timer = False, handshake_attempts = 0,
     last_received_at = now, ping_number = 0, last_ping_at = 0, send_sequences = [], fragment_group_next = 1,
     transfer_queue = [], outgoing_transfers = [], outgoing_bytes = 0, pending_reliable = [],
     transfer_store = (\<lambda>_. no_transfer), next_transfer = 0, effects = []\<rparr>"

section \<open>Methods\<close>

type_synonym 'a lid = "client \<Rightarrow> (js_error + 'a) \<times> client"

definition lid_return :: "'a \<Rightarrow> 'a lid" where
  "lid_return a s = (Inr a, s)"

definition lid_throw :: "js_error \<Rightarrow> 'a lid" where
  "lid_throw e s = (Inl e, s)"

definition lid_bind :: "'a lid \<Rightarrow> ('a \<Rightarrow> 'b lid) \<Rightarrow> 'b lid" where
  "lid_bind m f s = (case m s of (Inl e, s') \<Rightarrow> (Inl e, s') | (Inr a, s') \<Rightarrow> f a s')"

definition lid_then :: "'a lid \<Rightarrow> 'b lid \<Rightarrow> 'b lid" where
  "lid_then m n = lid_bind m (\<lambda>_. n)"

definition lid_modify :: "(client \<Rightarrow> client) \<Rightarrow> unit lid" where
  "lid_modify f s = (Inr (), f s)"

text \<open>A computation on the current state.\<close>

definition lid_with :: "(client \<Rightarrow> 'a lid) \<Rightarrow> 'a lid" where
  "lid_with f s = f s s"

definition lid_lift :: "js_error + 'a \<Rightarrow> 'a lid" where
  "lid_lift m s = (m, s)"

definition lid_skip :: "unit lid" where
  "lid_skip = lid_return ()"

definition emit :: "client_output \<Rightarrow> client \<Rightarrow> client" where
  "emit o_put s = s\<lparr>effects := effects s @ [o_put]\<rparr>"

lemmas lid_defs = lid_return_def lid_throw_def lid_bind_def lid_then_def lid_modify_def lid_with_def lid_lift_def
  lid_skip_def

section \<open>Closing\<close>

definition clear_timers :: "client \<Rightarrow> client" where
  "clear_timers s = s\<lparr>handshake_timer := False, maintenance_timer := False, sender_timer := False\<rparr>"

definition reject_reliable :: "client_error \<Rightarrow> client \<Rightarrow> client" where
  "reject_reliable e s =
     (let s' = fold (\<lambda>t. emit (Transfer_Rejected t e)) (outgoing_transfers s) s in
      s'\<lparr>outgoing_transfers := [], transfer_queue := [], outgoing_bytes := 0, pending_reliable := []\<rparr>)"

definition delete_fragment_group :: "nat \<times> nat \<Rightarrow> fragment_group \<Rightarrow> client \<Rightarrow> client" where
  "delete_fragment_group key g s =
     (if key \<notin> fst ` set (fragments s) then s
      else s\<lparr>fragments := AList.delete key (fragments s),
             fragment_bytes := fold (\<lambda>(_, chunk) n. n - int (length chunk)) (g_chunks g) (fragment_bytes s)\<rparr>)"

definition finish_closed :: "client \<Rightarrow> client" where
  "finish_closed s =
     (if closed s then s
      else
        let s1 = clear_timers (s\<lparr>closing := True, closed := True\<rparr>);
            s2 = reject_reliable (case close_error s1 of Some e \<Rightarrow> e | None \<Rightarrow> Client_Error ''Lidgren client closed'') s1;
            s3 = fold (\<lambda>(key, g). delete_fragment_group key g) (fragments s2) s2 in
        emit Closed_Resolved (s3\<lparr>withheld := [], expected_sequences := [], send_sequences := []\<rparr>))"

text \<open>\<open>rejectConnected?.(error)\<close> while not connected: there is a promise to reject once \<open>connect\<close> has been called.\<close>

definition reject_connect :: "client_error \<Rightarrow> client \<Rightarrow> client" where
  "reject_connect e s = (if connected s \<or> socket s = No_Socket then s else emit (Connect_Rejected e) s)"

text \<open>
  \<open>socket.close()\<close> throws when the socket is closed already, and the source then finishes at once;
  otherwise the socket's \<open>close\<close> event follows.
\<close>

definition close_socket :: "client \<Rightarrow> client" where
  "close_socket s =
     (case socket s of
        No_Socket \<Rightarrow> finish_closed s
      | Socket_Open \<Rightarrow> emit Socket_Close_Called (s\<lparr>socket := Socket_Closed\<rparr>)
      | Socket_Closed \<Rightarrow> finish_closed s)"

definition fail :: "client_error \<Rightarrow> client \<Rightarrow> client" where
  "fail e s =
     (if closing s \<or> closed s then s
      else
        close_socket (reject_reliable e (reject_connect e (clear_timers (s\<lparr>closing := True, close_error := Some e\<rparr>)))))"

section \<open>Sending\<close>

definition message_bytes :: "nat \<Rightarrow> byte list \<Rightarrow> nat \<Rightarrow> nat \<Rightarrow> bool \<Rightarrow> byte list" where
  "message_bytes type payload payloadBits sequence fragmented =
     [of_nat type,
      ucast ((push_bit 1 (of_nat sequence :: u32) OR (if fragmented then 1 else 0)) AND 0xFF),
      ucast (drop_bit 7 (of_nat sequence :: u32)),
      ucast ((of_nat payloadBits :: u32) AND 0xFF),
      ucast (drop_bit 8 (of_nat payloadBits :: u32))] @ payload"

text \<open>\<open>socket.send\<close>, which throws on a closed socket.\<close>

definition socket_send :: "byte list \<Rightarrow> unit lid" where
  "socket_send data = lid_with (\<lambda>s.
     if socket s = Socket_Open then lid_modify (emit (Datagram_Sent data)) else lid_throw (Error ''Not running''))"

definition send_message :: "nat \<Rightarrow> byte list \<Rightarrow> nat \<Rightarrow> nat \<Rightarrow> bool \<Rightarrow> unit lid" where
  "send_message type payload payloadBits sequence fragmented = lid_with (\<lambda>s.
     if socket s = No_Socket \<or> closed s \<or> 0xFFFF < payloadBits then lid_skip
     else socket_send (message_bytes type payload payloadBits sequence fragmented))"

text \<open>A message of a \<open>BitWriter\<close>: its bytes and its length in bits.\<close>

definition send_written :: "nat \<Rightarrow> (bit_writer \<Rightarrow> bit_writer) \<Rightarrow> unit lid" where
  "send_written type f = (let w = f new_writer in send_message type (to_uint8_array w) (wpos w) 0 False)"

definition application_identifier :: "options \<Rightarrow> jstring" where
  "application_identifier opt =
     (case opt_application_identifier opt of None \<Rightarrow> lit ''LoadBalancer'' | Some a \<Rightarrow> a)"

definition send_connect :: "options \<Rightarrow> clock \<Rightarrow> unit lid" where
  "send_connect opt clk = lid_with (\<lambda>s.
     if connected s \<or> closing s \<or> closed s then lid_skip
     else if 5 \<le> handshake_attempts s then lid_modify (fail (Client_Error ''Master server handshake timed out''))
     else lid_then (lid_modify (\<lambda>s. s\<lparr>handshake_attempts := handshake_attempts s + 1\<rparr>))
       (send_written connect_type (\<lambda>w.
          write_bytes (opt_hail opt) (write_float32 (now_s clk) (write_int64 (opt_unique_identifier opt)
            (write_string (application_identifier opt) w))))))"

definition send_connection_established :: "clock \<Rightarrow> unit lid" where
  "send_connection_established clk = send_written connection_established_type (write_float32 (now_s clk))"

definition send_pong :: "clock \<Rightarrow> byte list \<Rightarrow> unit lid" where
  "send_pong clk payload =
     (case payload of
        [] \<Rightarrow> lid_skip
      | pingNumber # _ \<Rightarrow> send_written pong_type (\<lambda>w. write_float32 (now_s clk) (write_byte (ucast pingNumber) w)))"

definition send_acknowledgement :: "nat \<Rightarrow> nat \<Rightarrow> unit lid" where
  "send_acknowledgement type sequence =
     send_message acknowledge_type
       [of_nat type, ucast ((of_nat sequence :: u32) AND 0xFF), ucast (drop_bit 8 (of_nat sequence :: u32))] 24 0 False"

definition send_reliable_message :: "clock \<Rightarrow> nat \<times> nat \<Rightarrow> pending_reliable_message \<Rightarrow> unit lid" where
  "send_reliable_message clk key p =
     (let p' = p\<lparr>p_attempts := p_attempts p + 1, p_last_sent_at := now_ms clk\<rparr> in
      lid_then (lid_modify (\<lambda>s. s\<lparr>pending_reliable := AList.update key p' (pending_reliable s)\<rparr>))
        (send_message (p_type p') (p_payload p') (p_payload_bits p') (p_sequence p') (p_fragmented p')))"

section \<open>Outgoing transfers\<close>

definition map_get :: "('k \<times> 'v) list \<Rightarrow> 'k \<Rightarrow> 'v \<Rightarrow> 'v" where
  "map_get m k d = (case map_of m k of Some v \<Rightarrow> v | None \<Rightarrow> d)"

text \<open>The payload of the next message of a transfer: the chunk, in a fragment when there are several.\<close>

definition write_fragment :: "nat \<Rightarrow> nat \<Rightarrow> nat \<Rightarrow> nat \<Rightarrow> byte list \<Rightarrow> bit_writer \<Rightarrow> bit_writer" where
  "write_fragment groupId totalBits chunkByteSize chunkNumber chunk w =
     write_bytes chunk (write_variable_uint32 (of_nat chunkNumber) (write_variable_uint32 (of_nat chunkByteSize)
       (write_variable_uint32 (of_nat totalBits) (write_variable_uint32 (of_nat groupId) w))))"

definition chunk_of :: "outgoing_transfer \<Rightarrow> nat \<Rightarrow> byte list" where
  "chunk_of t chunkNumber =
     (let chunkOffset = chunkNumber * t_chunk_byte_size t in
      take (min (length (t_payload t)) (chunkOffset + t_chunk_byte_size t) - chunkOffset) (drop chunkOffset (t_payload t)))"

definition encode_chunk :: "outgoing_transfer \<Rightarrow> nat \<Rightarrow> byte list \<times> nat" where
  "encode_chunk t chunkNumber =
     (let chunk = chunk_of t chunkNumber in
      if t_group_id t \<noteq> 0 then
        let w = write_fragment (t_group_id t) (length (t_payload t) * 8) (t_chunk_byte_size t) chunkNumber chunk new_writer in
        (to_uint8_array w, wpos w)
      else (chunk, length chunk * 8))"

text \<open>One iteration of the loop of \<open>flushReliableQueue\<close>, for the first transfer of the queue.\<close>

definition flush_step :: "clock \<Rightarrow> nat \<Rightarrow> unit lid" where
  "flush_step clk a = lid_with (\<lambda>s.
     let t = transfer_store s a;
         chunkNumber = t_next_chunk t;
         t' = t\<lparr>t_next_chunk := chunkNumber + 1\<rparr>;
         (payload, payloadBits) = encode_chunk t' chunkNumber;
         sequence = map_get (send_sequences s) (t_message_type t') 0;
         key = (t_message_type t', sequence);
         p = \<lparr>p_attempts = 0, p_fragmented = (t_group_id t' \<noteq> 0), p_last_sent_at = 0, p_payload = payload,
              p_payload_bits = payloadBits, p_sequence = sequence, p_transfer = a, p_type = t_message_type t'\<rparr> in
     lid_then (lid_modify (\<lambda>s. s\<lparr>
         transfer_store := (transfer_store s)(a := t'),
         transfer_queue := (if t_chunk_count t' \<le> t_next_chunk t' then tl (transfer_queue s) else transfer_queue s),
         send_sequences := AList.update (t_message_type t') ((sequence + 1) mod sequence_modulus) (send_sequences s),
         pending_reliable := AList.update key p (pending_reliable s)\<rparr>))
       (send_reliable_message clk key p))"

text \<open>What is left to send: the loop ends because every iteration takes a chunk or a transfer away.\<close>

definition queue_work :: "client \<Rightarrow> nat" where
  "queue_work s = sum_list (map (\<lambda>a. Suc (t_chunk_count (transfer_store s a) - t_next_chunk (transfer_store s a))) (transfer_queue s))"

lemma send_message_state:
  "transfer_store (snd (send_message ty p b q f s)) = transfer_store s"
  "transfer_queue (snd (send_message ty p b q f s)) = transfer_queue s"
  by (simp_all add: send_message_def socket_send_def emit_def lid_defs)

lemma sum_list_update_less:
  "(\<And>x. x \<in> set xs \<Longrightarrow> g x \<le> f x) \<Longrightarrow> sum_list (map g xs) \<le> (sum_list (map f xs) :: nat)"
  by (induction xs) (simp_all add: add_mono)

lemma flush_step_work:
  assumes "transfer_queue s = a # as"
  shows "queue_work (snd (flush_step clk a s)) < queue_work s"
proof -
  let ?t = "transfer_store s a"
  let ?t' = "?t\<lparr>t_next_chunk := t_next_chunk ?t + 1\<rparr>"
  let ?w = "\<lambda>st b. Suc (t_chunk_count (st b) - t_next_chunk (st b))"
  let ?st' = "(transfer_store s)(a := ?t')"
  have store: "transfer_store (snd (flush_step clk a s)) = ?st'"
    and queue: "transfer_queue (snd (flush_step clk a s))
      = (if t_chunk_count ?t \<le> t_next_chunk ?t + 1 then as else a # as)"
    using assms by (simp_all add: flush_step_def send_reliable_message_def send_message_state lid_defs Let_def split_def)
  have le: "sum_list (map (?w ?st') xs) \<le> sum_list (map (?w (transfer_store s)) xs)" for xs
    by (rule sum_list_update_less) auto
  have head: "\<not> t_chunk_count ?t \<le> t_next_chunk ?t + 1 \<Longrightarrow> ?w ?st' a < ?w (transfer_store s) a"
    by simp
  show ?thesis
    unfolding queue_work_def store queue assms
    using le [of as] head by (auto simp: less_Suc_eq_le intro: add_less_le_mono le_trans)
qed

function flush_reliable_queue :: "clock \<Rightarrow> unit lid" where
  "flush_reliable_queue clk s =
     (if length (pending_reliable s) < send_window then
        (case transfer_queue s of
           [] \<Rightarrow> (Inr (), s)
         | a # _ \<Rightarrow>
             (case flush_step clk a s of
                (Inl e, s') \<Rightarrow> (Inl e, s')
              | (Inr _, s') \<Rightarrow> flush_reliable_queue clk s'))
      else (Inr (), s))"
  by pat_completeness auto
termination
proof (relation "measure (\<lambda>(clk, s). queue_work s)")
  fix clk :: clock and s s' :: client and a as r u
  assume "transfer_queue s = a # as" "(r, s') = flush_step clk a s"
  then show "((clk, s'), (clk, s)) \<in> measure (\<lambda>(clk, s). queue_work s)"
    using flush_step_work [of s a as clk] by (metis (no_types, lifting) case_prod_conv in_measure snd_conv)
qed simp

declare flush_reliable_queue.simps [simp del]

definition next_fragment_group :: "client \<Rightarrow> nat \<times> client" where
  "next_fragment_group s =
     (fragment_group_next s,
      s\<lparr>fragment_group_next := (if 0x7FFFFFFF \<le> fragment_group_next s then 1 else fragment_group_next s + 1)\<rparr>)"

text \<open>A new transfer, behind the others in the queue: its address and the state with it.\<close>

definition enqueue_transfer :: "nat \<Rightarrow> nat \<Rightarrow> byte list \<Rightarrow> client \<Rightarrow> nat \<times> client" where
  "enqueue_transfer mtu messageType payload s =
     (let maxChunkBytes = mtu - 32;
          chunkCount = (if length payload + 5 \<le> mtu then 1 else ceil_div (length payload) maxChunkBytes);
          (groupId, s1) = (if chunkCount = 1 then (0, s) else next_fragment_group s);
          a = next_transfer s1;
          t = \<lparr>t_chunk_byte_size = maxChunkBytes, t_chunk_count = chunkCount, t_group_id = groupId,
               t_message_type = messageType, t_next_chunk = 0, t_payload = payload, t_remaining = int chunkCount\<rparr> in
      (a, s1\<lparr>next_transfer := a + 1, transfer_store := (transfer_store s1)(a := t),
             outgoing_bytes := outgoing_bytes s1 + int (length payload),
             outgoing_transfers := outgoing_transfers s1 @ [a],
             transfer_queue := transfer_queue s1 @ [a]\<rparr>))"

text \<open>
  \<open>sendReliableOrdered\<close>: the value is the rejection of the returned promise, or the address of the
  transfer that will settle it.
\<close>

definition send_reliable_ordered :: "options \<Rightarrow> clock \<Rightarrow> byte list \<Rightarrow> js_number \<Rightarrow> (client_error + nat) lid" where
  "send_reliable_ordered opt clk payload sequenceChannel = lid_with (\<lambda>s.
     if \<not> connected s \<or> closing s \<or> closed s
     then lid_return (Inl (Client_Error ''Lidgren client is not connected''))
     else if max_outgoing_bytes < int (length payload)
        \<or> max_outgoing_bytes < outgoing_bytes s + int (length payload)
        \<or> max_outgoing_transfers \<le> length (outgoing_transfers s)
     then lid_return (Inl (Client_Error ''Lidgren payload exceeds outgoing limit''))
     else
       let mtu = max 512 (case opt_mtu opt of Some m \<Rightarrow> m | None \<Rightarrow> default_mtu) in
       case js_integer sequenceChannel of
         None \<Rightarrow> lid_return (Inl (Client_Error ''Invalid reliable sequence channel''))
       | Some channel \<Rightarrow>
           if channel < 0 \<or> 31 < channel then lid_return (Inl (Client_Error ''Invalid reliable sequence channel''))
           else
             let (a, s1) = enqueue_transfer mtu (reliable_ordered_type + nat channel) payload s in
             lid_then (lid_modify (\<lambda>_. s1)) (lid_then (flush_reliable_queue clk) (lid_return (Inr a))))"

definition complete_transfer :: "nat \<Rightarrow> client \<Rightarrow> client" where
  "complete_transfer a s =
     (if a \<notin> set (outgoing_transfers s) then s
      else emit (Transfer_Resolved a) (s\<lparr>outgoing_transfers := filter (\<lambda>b. b \<noteq> a) (outgoing_transfers s),
        outgoing_bytes := outgoing_bytes s - int (length (t_payload (transfer_store s a)))\<rparr>))"

text \<open>One triple of an acknowledgement: the message with this key is delivered.\<close>

definition acknowledge :: "nat \<Rightarrow> nat \<Rightarrow> client \<Rightarrow> client" where
  "acknowledge type sequence s =
     (case map_of (pending_reliable s) (type, sequence) of
        None \<Rightarrow> s
      | Some p \<Rightarrow>
          if p_type p \<noteq> type then s
          else
            let a = p_transfer p;
                t = transfer_store s a;
                t' = t\<lparr>t_remaining := t_remaining t - 1\<rparr>;
                s1 = s\<lparr>pending_reliable := AList.delete (type, sequence) (pending_reliable s),
                       transfer_store := (transfer_store s)(a := t')\<rparr> in
            if t_remaining t' = 0 then complete_transfer a s1 else s1)"

fun acknowledge_all :: "byte list \<Rightarrow> client \<Rightarrow> client" where
  "acknowledge_all (ty # low # high # r) s =
     acknowledge_all r (acknowledge (unat ty)
       (unat ((ucast low OR push_bit 8 (ucast high) :: u32) AND 1023)) s)"
| "acknowledge_all _ s = s"

definition receive_acknowledgements :: "clock \<Rightarrow> byte list \<Rightarrow> unit lid" where
  "receive_acknowledgements clk payload =
     lid_then (lid_modify (acknowledge_all payload)) (flush_reliable_queue clk)"

text \<open>The loop over \<open>pendingReliable.values()\<close>: the value says whether the loop ran to its end.\<close>

fun resend_loop :: "clock \<Rightarrow> ((nat \<times> nat) \<times> pending_reliable_message) list \<Rightarrow> bool lid" where
  "resend_loop clk [] = lid_return True"
| "resend_loop clk ((key, p) # ps) =
     (if now_ms clk - p_last_sent_at p < resend_delay_ms then resend_loop clk ps
      else if max_send_attempts \<le> p_attempts p then
        lid_then (lid_modify (fail (Client_Error ''Reliable Lidgren send timed out''))) (lid_return False)
      else lid_then (send_reliable_message clk key p) (resend_loop clk ps))"

definition maintain_reliable_sends :: "clock \<Rightarrow> unit lid" where
  "maintain_reliable_sends clk = lid_with (\<lambda>s.
     if closing s \<or> closed s then lid_skip
     else lid_bind (resend_loop clk (pending_reliable s)) (\<lambda>done.
       if done then flush_reliable_queue clk else lid_skip))"

end
