(* ===== verification/Lidgren_Receive.thy ===== *)
theory Lidgren_Receive
  imports Lidgren_Client
begin

text \<open>
  The receiving side of \<open>LidgrenClient\<close> (\<open>packages/core/src/zeepnet/lidgrenClient.ts\<close>): fragments,
  the reliable ordered channels, the handshake, the datagram loop, and the events that drive a
  client.

  \<open>client_event\<close> is what the outside world does: a datagram, a timer tick, the socket's events, and
  the calls of the owner. \<open>handle\<close> is the client's reaction; a handler that throws inside the
  \<open>message\<close> listener ends in \<open>fail\<close>, as in the source, anywhere else the exception escapes and the
  state is the one at that point.
\<close>

section \<open>Fragments\<close>

definition read_fragment_header :: "(nat \<times> nat \<times> nat \<times> nat) rd" where
  "read_fragment_header =
     rd_bind read_variable_uint32 (\<lambda>groupId.
     rd_bind read_variable_uint32 (\<lambda>totalBits.
     rd_bind read_variable_uint32 (\<lambda>chunkByteSize.
     rd_bind read_variable_uint32 (\<lambda>chunkNumber.
     rd_return (unat groupId, unat totalBits, unat chunkByteSize, unat chunkNumber)))))"

text \<open>The final loop of \<open>release\<close>: the chunks in order into a zeroed array, or nothing if one is missing.\<close>

definition reassemble :: "fragment_group \<Rightarrow> nat \<Rightarrow> nat \<Rightarrow> nat \<Rightarrow> byte list option" where
  "reassemble g chunkCount totalBytes chunkByteSize =
     fold (\<lambda>index acc. case (acc, map_of (g_chunks g) index) of
         (Some bytes, Some chunk) \<Rightarrow> Some (set_bytes (index * chunkByteSize) chunk bytes)
       | _ \<Rightarrow> None) [0..<chunkCount] (Some (replicate totalBytes 0))"

definition deliver :: "byte list \<Rightarrow> unit lid" where
  "deliver payload = lid_modify (emit (Payload_Delivered payload))"

text \<open>A chunk into its group, unless the group has it already.\<close>

definition add_chunk :: "nat \<Rightarrow> byte list \<Rightarrow> fragment_group \<Rightarrow> fragment_group" where
  "add_chunk chunkNumber chunk g =
     (if map_of (g_chunks g) chunkNumber \<noteq> None then g else g\<lparr>g_chunks := g_chunks g @ [(chunkNumber, chunk)]\<rparr>)"

definition store_chunk :: "nat \<times> nat \<Rightarrow> fragment_group \<Rightarrow> nat \<Rightarrow> byte list \<Rightarrow> client \<Rightarrow> client" where
  "store_chunk key g chunkNumber chunk s = s\<lparr>
     fragments := AList.update key (add_chunk chunkNumber chunk g) (fragments s),
     fragment_bytes := (if map_of (g_chunks g) chunkNumber \<noteq> None then fragment_bytes s
       else fragment_bytes s + int (length chunk))\<rparr>"

text \<open>The end of \<open>release\<close>: a complete group is removed and its payload delivered.\<close>

definition finish_group :: "nat \<times> nat \<Rightarrow> fragment_group \<Rightarrow> nat \<Rightarrow> nat \<Rightarrow> unit lid" where
  "finish_group key g totalBytes chunkByteSize =
     (let chunkCount = ceil_div totalBytes chunkByteSize in
      if length (g_chunks g) \<noteq> chunkCount then lid_skip
      else
        case reassemble g chunkCount totalBytes chunkByteSize of
          None \<Rightarrow> lid_skip
        | Some reassembled \<Rightarrow> lid_then (lid_modify (delete_fragment_group key g)) (deliver reassembled))"

text \<open>\<open>this.fragments.get(fragmentKey) ?? { totalBytes, ... }\<close>\<close>

definition group_for :: "clock \<Rightarrow> nat \<times> nat \<Rightarrow> nat \<Rightarrow> nat \<Rightarrow> client \<Rightarrow> fragment_group" where
  "group_for clk key totalBytes chunkByteSize s = map_get (fragments s) key
     \<lparr>g_chunk_byte_size = chunkByteSize, g_chunks = [], g_created_at = now_ms clk, g_total_bytes = totalBytes\<rparr>"

text \<open>The middle of \<open>release\<close>: a chunk with valid metadata, read from the rest of the message.\<close>

definition accept_chunk :: "clock \<Rightarrow> nat \<times> nat \<Rightarrow> nat \<Rightarrow> nat \<Rightarrow> nat \<Rightarrow> bit_reader \<Rightarrow> unit lid" where
  "accept_chunk clk key totalBytes chunkByteSize chunkNumber reader = lid_with (\<lambda>s.
     let g = group_for clk key totalBytes chunkByteSize s in
     if map_of (fragments s) key = None \<and> max_fragment_groups \<le> length (fragments s)
     then lid_throw (Error ''Too many Lidgren fragment groups'')
     else if g_total_bytes g \<noteq> totalBytes \<or> g_chunk_byte_size g \<noteq> chunkByteSize
     then lid_throw (Error ''Inconsistent Lidgren fragment group'')
     else
       lid_bind (lid_lift (res_map fst (read_bytes (min chunkByteSize (totalBytes - chunkNumber * chunkByteSize)) reader))) (\<lambda>chunk.
         if map_of (g_chunks g) chunkNumber = None \<and> max_fragment_bytes < fragment_bytes s + int (length chunk)
         then lid_throw (Error ''Lidgren fragment memory limit exceeded'')
         else lid_then (lid_modify (store_chunk key g chunkNumber chunk))
           (finish_group key (add_chunk chunkNumber chunk g) totalBytes chunkByteSize)))"

definition release_fragment :: "clock \<Rightarrow> nat \<Rightarrow> byte list \<Rightarrow> unit lid" where
  "release_fragment clk type payload =
     lid_bind (lid_lift (read_fragment_header (new_reader payload))) (\<lambda>((groupId, totalBits, chunkByteSize, chunkNumber), reader).
       let totalBytes = ceil_div totalBits 8 in
       if max_reassembled_bytes < totalBytes \<or> chunkByteSize < 1 \<or> max_reassembled_bytes < chunkByteSize
          \<or> ceil_div totalBytes chunkByteSize \<le> chunkNumber
       then lid_throw (Error ''Invalid Lidgren fragment metadata'')
       else accept_chunk clk (type, groupId) totalBytes chunkByteSize chunkNumber reader)"

definition release :: "clock \<Rightarrow> incoming_message \<Rightarrow> unit lid" where
  "release clk m =
     (if \<not> in_fragmented m then deliver (in_payload m)
      else release_fragment clk (in_type m) (in_payload m))"

definition expire_fragments :: "int \<Rightarrow> client \<Rightarrow> client" where
  "expire_fragments now s =
     fold (\<lambda>(key, g) s. if fragment_ttl_ms \<le> now - g_created_at g then delete_fragment_group key g s else s) (fragments s) s"

section \<open>Reliable ordered channels\<close>

text \<open>
  \<open>relativeSequence\<close>. The dividend is positive for two sequence numbers, where \<open>%\<close> and \<open>mod\<close> agree.
\<close>

definition relative_sequence :: "nat \<Rightarrow> nat \<Rightarrow> int" where
  "relative_sequence sequence expected =
     (int sequence - int expected + int sequence_modulus + int (sequence_modulus div 2)) mod int sequence_modulus
       - int (sequence_modulus div 2)"

text \<open>The loop that releases the withheld messages that are next in order; it takes a message away each time.\<close>

fun release_withheld :: "nat \<Rightarrow> clock \<Rightarrow> nat \<Rightarrow> nat \<Rightarrow> nat lid" where
  "release_withheld 0 clk type nextSequence = lid_return nextSequence"
| "release_withheld (Suc fuel) clk type nextSequence = lid_with (\<lambda>s.
     let held = map_get (withheld s) type [] in
     case map_of held nextSequence of
       None \<Rightarrow> lid_return nextSequence
     | Some m \<Rightarrow>
         lid_then (lid_modify (\<lambda>s. s\<lparr>withheld := AList.update type (AList.delete nextSequence held) (withheld s)\<rparr>))
           (lid_then (release clk m) (release_withheld fuel clk type ((nextSequence + 1) mod sequence_modulus))))"

text \<open>The message that is next in order: it and the withheld ones behind it are released.\<close>

definition receive_expected :: "clock \<Rightarrow> nat \<Rightarrow> incoming_message \<Rightarrow> unit lid" where
  "receive_expected clk expectedSequence m =
     lid_then (release clk m) (lid_with (\<lambda>s.
       lid_bind (release_withheld (length (map_get (withheld s) (in_type m) [])) clk (in_type m)
           ((expectedSequence + 1) mod sequence_modulus)) (\<lambda>nextSequence.
         lid_modify (\<lambda>s. s\<lparr>
           expected_sequences := AList.update (in_type m) nextSequence (expected_sequences s),
           withheld := (if map_of (withheld s) (in_type m) = Some []
             then AList.delete (in_type m) (withheld s) else withheld s)\<rparr>))))"

definition withhold :: "incoming_message \<Rightarrow> client \<Rightarrow> client" where
  "withhold m s = s\<lparr>withheld :=
     AList.update (in_type m) (AList.update (in_sequence m) m (map_get (withheld s) (in_type m) [])) (withheld s)\<rparr>"

definition receive_reliable_ordered :: "clock \<Rightarrow> incoming_message \<Rightarrow> unit lid" where
  "receive_reliable_ordered clk m =
     lid_then (send_acknowledgement (in_type m) (in_sequence m)) (lid_with (\<lambda>s.
       let expectedSequence = map_get (expected_sequences s) (in_type m) 0;
           relative = relative_sequence (in_sequence m) expectedSequence in
       if relative < 0 \<or> receive_window < relative then lid_skip
       else if 0 < relative then lid_modify (withhold m)
       else receive_expected clk expectedSequence m))"

section \<open>Messages\<close>

definition read_connect_response :: "options \<Rightarrow> (byte list option) rd" where
  "read_connect_response opt =
     rd_bind (read_string 64) (\<lambda>identifier.
       if identifier \<noteq> application_identifier opt then rd_return None
       else
         rd_bind read_int64 (\<lambda>_.
         rd_bind read_float32 (\<lambda>_.
         rd_bind (\<lambda>r. Inr (remaining_bits r div 8, r)) (\<lambda>n.
         rd_bind (read_bytes n) (\<lambda>remoteHail. rd_return (Some remoteHail))))))"

definition handle_connect_response :: "options \<Rightarrow> clock \<Rightarrow> byte list \<Rightarrow> unit lid" where
  "handle_connect_response opt clk payload = lid_with (\<lambda>s.
     if connected s then send_connection_established clk
     else
       lid_bind (lid_lift (res_map fst (read_connect_response opt (new_reader payload)))) (\<lambda>hail.
         case hail of
           None \<Rightarrow> lid_modify (fail (Client_Error ''Remote server application identifier mismatch''))
         | Some remoteHail \<Rightarrow>
             lid_then (lid_modify (\<lambda>s. (emit (Connected_Called remoteHail) s)\<lparr>connected := True, handshake_timer := False\<rparr>))
               (lid_then (send_connection_established clk)
                 (lid_modify (\<lambda>s. emit Connect_Resolved (s\<lparr>maintenance_timer := True, sender_timer := True\<rparr>))))))"

definition handle_remote_disconnect :: "byte list \<Rightarrow> unit lid" where
  "handle_remote_disconnect payload =
     lid_bind (lid_lift (if payload = [] then Inr [] else res_map fst (read_string max_disconnect_reason_bytes (new_reader payload))))
       (\<lambda>reason. lid_modify (fail (Remote_Disconnect reason)))"

definition receive_message :: "options \<Rightarrow> clock \<Rightarrow> incoming_message \<Rightarrow> unit lid" where
  "receive_message opt clk m =
     (if in_type m = connect_response_type then handle_connect_response opt clk (in_payload m)
      else if in_type m = ping_type then send_pong clk (in_payload m)
      else if in_type m = disconnect_type then handle_remote_disconnect (in_payload m)
      else if in_type m = acknowledge_type then receive_acknowledgements clk (in_payload m)
      else if reliable_ordered_type \<le> in_type m \<and> in_type m < reliable_ordered_type + 32
      then receive_reliable_ordered clk m
      else lid_skip)"

definition header_sequence :: "byte \<Rightarrow> byte \<Rightarrow> nat" where
  "header_sequence sequenceLow sequenceHigh =
     unat ((drop_bit 1 (ucast sequenceLow :: u32) OR push_bit 7 (ucast sequenceHigh)) AND 1023)"

definition header_bits :: "byte \<Rightarrow> byte \<Rightarrow> nat" where
  "header_bits bitsLow bitsHigh = unat ((ucast bitsLow :: u32) OR push_bit 8 (ucast bitsHigh))"

text \<open>The loop of \<open>receiveDatagram\<close>, on the bytes from \<open>offset\<close> on.\<close>

function receive_loop :: "options \<Rightarrow> clock \<Rightarrow> byte list \<Rightarrow> unit lid" where
  "receive_loop opt clk data s =
     (case data of
        [] \<Rightarrow> (Inr (), s)
      | type # sequenceLow # sequenceHigh # bitsLow # bitsHigh # r \<Rightarrow>
          (let payloadBytes = ceil_div (header_bits bitsLow bitsHigh) 8 in
           if length r < payloadBytes then (Inr (), fail (Client_Error ''Malformed Lidgren datagram payload'') s)
           else
             (case receive_message opt clk \<lparr>in_fragmented = (sequenceLow AND 1 = 1), in_payload = take payloadBytes r,
                 in_sequence = header_sequence sequenceLow sequenceHigh, in_type = unat type\<rparr> s of
                (Inl e, s') \<Rightarrow> (Inl e, s')
              | (Inr _, s') \<Rightarrow> receive_loop opt clk (drop payloadBytes r) s'))
      | _ \<Rightarrow> (Inr (), fail (Client_Error ''Malformed Lidgren datagram header'') s))"
  by pat_completeness auto
termination
  by (relation "measure (\<lambda>(opt, clk, data, s). length data)") auto

declare receive_loop.simps [simp del]

definition receive_datagram :: "options \<Rightarrow> clock \<Rightarrow> byte list \<Rightarrow> unit lid" where
  "receive_datagram opt clk data = lid_with (\<lambda>s.
     if closing s \<or> closed s \<or> max_datagram_bytes < length data then lid_skip
     else lid_then (lid_modify (\<lambda>s. s\<lparr>last_received_at := now_ms clk\<rparr>)) (receive_loop opt clk data))"

section \<open>Maintenance and the owner's calls\<close>

definition maintain_connection :: "clock \<Rightarrow> unit lid" where
  "maintain_connection clk =
     lid_then (lid_modify (expire_fragments (now_ms clk))) (lid_with (\<lambda>s.
       if 25000 < now_ms clk - last_received_at s
       then lid_modify (fail (Client_Error ''Master server connection timed out''))
       else if 4000 \<le> now_ms clk - last_ping_at s then
         lid_then (lid_modify (\<lambda>s. s\<lparr>last_ping_at := now_ms clk, ping_number := ping_number s + 1\<rparr>))
           (send_message ping_type [of_nat (ping_number s)] 8 0 False)
       else lid_skip))"

definition connect :: "unit lid" where
  "connect = lid_with (\<lambda>s.
     if socket s \<noteq> No_Socket then lid_throw (Error ''Lidgren client already started'')
     else lid_modify (\<lambda>s. s\<lparr>socket := Socket_Open\<rparr>))"

text \<open>The callback of \<open>socket.connect\<close>.\<close>

definition socket_connected :: "options \<Rightarrow> clock \<Rightarrow> unit lid" where
  "socket_connected opt clk =
     lid_then (send_connect opt clk) (lid_modify (\<lambda>s. s\<lparr>handshake_timer := True\<rparr>))"

text \<open>
  \<open>close\<close> up to the first \<open>await\<close> of \<open>disconnectAndClose\<close>: a connected client sends the reason and
  waits for the send (\<open>Ev_Disconnect_Sent\<close> below), any other closes the socket at once.
\<close>

definition send_message_and_wait :: "nat \<Rightarrow> byte list \<Rightarrow> nat \<Rightarrow> client \<Rightarrow> client" where
  "send_message_and_wait type payload payloadBits s =
     (if socket s \<noteq> Socket_Open \<or> closed s \<or> 0xFFFF < payloadBits then s
      else emit (Datagram_Sent (message_bytes type payload payloadBits 0 False)) s)"

definition close :: "jstring \<Rightarrow> client \<Rightarrow> client" where
  "close reason s =
     (if close_promise s \<or> closing s \<or> closed s then s
      else
        let s2 = reject_connect (Client_Error ''Lidgren client closed'') (clear_timers (s\<lparr>closing := True, close_promise := True\<rparr>)) in
        if connected s2
        then let w = write_string reason new_writer in send_message_and_wait disconnect_type (to_uint8_array w) (wpos w) s2
        else close_socket s2)"

section \<open>Events\<close>

datatype client_event =
    Ev_Connect
  | Ev_Socket_Connected
  | Ev_Datagram "byte list"
  | Ev_Socket_Error
  | Ev_Socket_Closed
  | Ev_Handshake_Tick
  | Ev_Maintenance_Tick
  | Ev_Sender_Tick
  | Ev_Send "byte list" js_number
  | Ev_Close jstring
  | Ev_Disconnect_Sent

text \<open>
  The reaction to an event. A tick arrives only while its timer runs, datagrams, errors and the connect
  callback only while the socket is open, its \<open>close\<close> event only once it is closed, and the end of
  the flush only after \<open>close\<close>. The caller of \<open>handle\<close> sees no exception, only the state it leaves.
\<close>

definition handle :: "options \<Rightarrow> clock \<Rightarrow> client_event \<Rightarrow> client \<Rightarrow> client" where
  "handle opt clk ev s =
     (case ev of
        Ev_Connect \<Rightarrow> snd (connect s)
      | Ev_Socket_Connected \<Rightarrow> if socket s = Socket_Open then snd (socket_connected opt clk s) else s
      | Ev_Datagram data \<Rightarrow>
          if socket s = Socket_Open then
            (case receive_datagram opt clk data s of
               (Inr _, s') \<Rightarrow> s'
             | (Inl _, s') \<Rightarrow> fail (Client_Error ''Malformed Lidgren message'') s')
          else s
      | Ev_Socket_Error \<Rightarrow> if socket s = Socket_Open then fail (Client_Error ''UDP transport error'') s else s
      | Ev_Socket_Closed \<Rightarrow> if socket s = Socket_Closed then finish_closed s else s
      | Ev_Handshake_Tick \<Rightarrow> if handshake_timer s then snd (send_connect opt clk s) else s
      | Ev_Maintenance_Tick \<Rightarrow> if maintenance_timer s then snd (maintain_connection clk s) else s
      | Ev_Sender_Tick \<Rightarrow> if sender_timer s then snd (maintain_reliable_sends clk s) else s
      | Ev_Send payload channel \<Rightarrow> snd (send_reliable_ordered opt clk payload channel s)
      | Ev_Close reason \<Rightarrow> close reason s
      | Ev_Disconnect_Sent \<Rightarrow> if close_promise s \<and> connected s \<and> socket s = Socket_Open then close_socket s else s)"

text \<open>The client as a state machine: any event, at any time.\<close>

inductive reachable :: "options \<Rightarrow> client \<Rightarrow> bool" for opt where
  reachable_new: "reachable opt (new_client now)"
| reachable_step: "reachable opt s \<Longrightarrow> reachable opt (handle opt clk ev s)"

inductive_cases reachable_cases: "reachable opt s"

end
