(* ===== verification/Lidgren_Contract.thy ===== *)
theory Lidgren_Contract
  imports Lidgren_Receive
begin

text \<open>
  How an invariant of the Lidgren client is proved. \<open>client_contract I\<close> lists what \<open>I\<close> must survive,
  the steps that change the client's collections, and its lemmas carry \<open>I\<close> through every method up
  to \<open>handle\<close> and the reachable states. \<open>receive_contract I\<close> does the same for the receiving side
  in terms of its own smaller steps, and provides the receiving law of \<open>client_contract\<close>.

  Flags, timers, counters and the effects that settle no transfer are the frame: an invariant on the collections and
  the settled transfers (\<open>same_core\<close>) does not depend on them.
\<close>

section \<open>The core of the state\<close>

fun settles :: "client_output \<Rightarrow> bool" where
  "settles (Transfer_Resolved a) = True"
| "settles (Transfer_Rejected a e) = True"
| "settles _ = False"

text \<open>The promises of transfers that have been settled, in order.\<close>

definition settled :: "client \<Rightarrow> client_output list" where
  "settled s = filter settles (effects s)"

definition same_core :: "client \<Rightarrow> client \<Rightarrow> bool" where
  "same_core s s' \<longleftrightarrow>
     expected_sequences s' = expected_sequences s \<and> withheld s' = withheld s \<and> fragments s' = fragments s
     \<and> fragment_bytes s' = fragment_bytes s \<and> send_sequences s' = send_sequences s
     \<and> fragment_group_next s' = fragment_group_next s \<and> transfer_queue s' = transfer_queue s
     \<and> outgoing_transfers s' = outgoing_transfers s \<and> outgoing_bytes s' = outgoing_bytes s
     \<and> pending_reliable s' = pending_reliable s \<and> transfer_store s' = transfer_store s
     \<and> next_transfer s' = next_transfer s \<and> settled s' = settled s"

lemma same_core_refl: "same_core s s"
  by (simp add: same_core_def)

lemma same_core_trans: "same_core s t \<Longrightarrow> same_core t u \<Longrightarrow> same_core s u"
  by (simp add: same_core_def)

lemma settled_cong: "effects s' = effects s \<Longrightarrow> settled s' = settled s"
  by (simp add: settled_def)

lemma settled_emit: "settled (emit e s) = settled s @ (if settles e then [e] else [])"
  by (simp add: settled_def emit_def)

lemma same_core_emit: "\<not> settles e \<Longrightarrow> same_core s (emit e s)"
  by (simp add: same_core_def settled_emit) (simp add: emit_def)

lemma same_core_clear: "same_core s (clear_timers s)"
  by (simp add: same_core_def clear_timers_def settled_def)

lemma same_core_send: "same_core s (snd (send_message ty p b q f s))"
  by (simp add: send_message_def socket_send_def lid_defs same_core_refl same_core_emit)

lemma same_core_reject_connect: "same_core s (reject_connect e s)"
  by (simp add: reject_connect_def same_core_refl same_core_emit)

text \<open>Rejecting all transfers, written out.\<close>

lemma reject_reliable_eq: "reject_reliable e s = s\<lparr>outgoing_transfers := [], transfer_queue := [], outgoing_bytes := 0,
  pending_reliable := [], effects := effects s @ map (\<lambda>t. Transfer_Rejected t e) (outgoing_transfers s)\<rparr>"
proof -
  have "fold (\<lambda>t. emit (Transfer_Rejected t e)) ts u = u\<lparr>effects := effects u @ map (\<lambda>t. Transfer_Rejected t e) ts\<rparr>" for ts u
    by (induction ts arbitrary: u) (simp_all add: emit_def)
  then show ?thesis
    by (simp add: reject_reliable_def Let_def)
qed

definition wf_maps :: "client \<Rightarrow> bool" where
  "wf_maps s \<longleftrightarrow> distinct (map fst (pending_reliable s)) \<and> distinct (map fst (fragments s))"

section \<open>Sequencing\<close>

definition keeps :: "(client \<Rightarrow> bool) \<Rightarrow> 'a lid \<Rightarrow> bool" where
  "keeps I m \<longleftrightarrow> (\<forall>s. I s \<longrightarrow> I (snd (m s)))"

lemma keepsD: "keeps I m \<Longrightarrow> I s \<Longrightarrow> I (snd (m s))"
  by (simp add: keeps_def)

lemma keeps_return: "keeps I (lid_return a)" "keeps I (lid_throw e)" "keeps I (lid_lift r)" "keeps I lid_skip"
  by (simp_all add: keeps_def lid_defs)

lemma keeps_bind: "keeps I m \<Longrightarrow> (\<And>a. keeps I (f a)) \<Longrightarrow> keeps I (lid_bind m f)"
  unfolding keeps_def lid_bind_def by (fastforce split: prod.splits sum.splits)

lemma keeps_then: "keeps I m \<Longrightarrow> keeps I n \<Longrightarrow> keeps I (lid_then m n)"
  unfolding lid_then_def by (rule keeps_bind)

lemma keeps_modify: "(\<And>s. I s \<Longrightarrow> I (f s)) \<Longrightarrow> keeps I (lid_modify f)"
  by (simp add: keeps_def lid_modify_def)

lemma keeps_with: "(\<And>s. I s \<Longrightarrow> I (snd (f s s))) \<Longrightarrow> keeps I (lid_with f)"
  by (simp add: keeps_def lid_with_def)

lemma keeps_if: "keeps I m \<Longrightarrow> keeps I n \<Longrightarrow> keeps I (if c then m else n)"
  by simp

lemmas keeps_intros = keeps_return keeps_bind keeps_then keeps_if

lemma snd_then: "snd (lid_then m n s) = (case m s of (Inl e, s') \<Rightarrow> s' | (Inr a, s') \<Rightarrow> snd (n s'))"
  by (auto simp: lid_defs split: prod.splits sum.splits)

lemma keeps_case_option: "keeps I m \<Longrightarrow> (\<And>a. keeps I (f a)) \<Longrightarrow> keeps I (case x of None \<Rightarrow> m | Some a \<Rightarrow> f a)"
  by (simp split: option.splits)

section \<open>The receiving side\<close>

text \<open>The facts \<open>accept_chunk\<close> has established when it stores a chunk.\<close>

definition chunk_accepted :: "client \<Rightarrow> nat \<times> nat \<Rightarrow> fragment_group \<Rightarrow> nat \<Rightarrow> byte list \<Rightarrow> bool" where
  "chunk_accepted s key g n chunk \<longleftrightarrow>
     (map_of (fragments s) key = Some g \<or>
       map_of (fragments s) key = None \<and> length (fragments s) < max_fragment_groups \<and> g_chunks g = [])
     \<and> g_total_bytes g \<le> max_reassembled_bytes \<and> 1 \<le> g_chunk_byte_size g
     \<and> n < ceil_div (g_total_bytes g) (g_chunk_byte_size g)
     \<and> length chunk = min (g_chunk_byte_size g) (g_total_bytes g - n * g_chunk_byte_size g)
     \<and> (map_of (g_chunks g) n = None \<longrightarrow> fragment_bytes s + int (length chunk) \<le> max_fragment_bytes)"

locale receive_contract =
  fixes I :: "client \<Rightarrow> bool"
  assumes receive_frame: "I s \<Longrightarrow> same_core s s' \<Longrightarrow> I s'"
    and receive_hold: "I s \<Longrightarrow> I (s\<lparr>withheld := h\<rparr>)"
    and receive_expect: "I s \<Longrightarrow> I (s\<lparr>expected_sequences := x, withheld := h\<rparr>)"
    and receive_store: "I s \<Longrightarrow> chunk_accepted s key g n chunk \<Longrightarrow> I (store_chunk key g n chunk s)"
    and receive_drop: "I s \<Longrightarrow> map_of (fragments s) key = Some g \<Longrightarrow> I (delete_fragment_group key g s)"
begin

lemma keeps_emit: "\<not> settles e \<Longrightarrow> keeps I (lid_modify (emit e))"
  by (intro keeps_modify) (rule receive_frame [OF _ same_core_emit])

lemma keeps_send: "keeps I (send_message ty p b q f)"
  using receive_frame same_core_send unfolding keeps_def by blast

lemma finish_group_keeps:
  assumes "I s" "map_of (fragments s) key = Some g"
  shows "I (snd (finish_group key g tot sz s))"
  using assms(1) receive_drop [OF assms] receive_frame [OF _ same_core_emit]
  by (auto simp: finish_group_def deliver_def lid_defs Let_def split: option.splits)

lemma accept_chunk_keeps:
  assumes "tot \<le> max_reassembled_bytes" "1 \<le> sz" "n < ceil_div tot sz" "I s"
  shows "I (snd (accept_chunk clk key tot sz n reader s))"
proof -
  let ?g = "group_for clk key tot sz s"
  let ?read = "res_map fst (read_bytes (min sz (tot - n * sz)) reader)"
  consider (skip) "snd (accept_chunk clk key tot sz n reader s) = s"
    | (store) chunk where "chunk_accepted s key ?g n chunk"
      "snd (accept_chunk clk key tot sz n reader s)
        = snd (finish_group key (add_chunk n chunk ?g) tot sz (store_chunk key ?g n chunk s))"
  proof (cases "(map_of (fragments s) key = None \<and> max_fragment_groups \<le> length (fragments s))
      \<or> g_total_bytes ?g \<noteq> tot \<or> g_chunk_byte_size ?g \<noteq> sz \<or> (\<exists>e. ?read = Inl e)")
    case True
    then show ?thesis
      by (intro skip) (auto simp: accept_chunk_def lid_defs Let_def)
  next
    case ok: False
    then obtain chunk where chunk: "?read = Inr chunk"
      by (cases ?read) auto
    then have len: "length chunk = min sz (tot - n * sz)"
      by (auto simp: res_map_Inr_iff dest: read_bytes_length)
    have group: "map_of (fragments s) key = Some ?g \<or>
        map_of (fragments s) key = None \<and> length (fragments s) < max_fragment_groups \<and> g_chunks ?g = []"
      using ok by (auto simp: group_for_def map_get_def split: option.splits)
    show ?thesis
    proof (cases "map_of (g_chunks ?g) n = None \<and> max_fragment_bytes < fragment_bytes s + int (length chunk)")
      case True
      with ok chunk show ?thesis
        by (intro skip) (auto simp: accept_chunk_def lid_defs Let_def)
    next
      case False
      with ok chunk len group assms show ?thesis
        by (intro store [of chunk]) (auto simp: accept_chunk_def lid_defs Let_def chunk_accepted_def)
    qed
  qed
  then show ?thesis
  proof cases
    case store
    have "map_of (fragments (store_chunk key ?g n chunk s)) key = Some (add_chunk n chunk ?g)"
      by (simp add: store_chunk_def AList.update_conv')
    from finish_group_keeps [OF receive_store [OF assms(4) store(1)] this] show ?thesis
      by (simp add: store(2))
  qed (simp add: assms(4))
qed

lemma keeps_release: "keeps I (release clk m)"
proof -
  have "keeps I (release_fragment clk ty payload)" for ty payload
    unfolding release_fragment_def Let_def
    by (intro keeps_bind keeps_return) (auto simp: keeps_def lid_defs split_def intro!: accept_chunk_keeps)
  then show ?thesis
    unfolding release_def deliver_def by (intro keeps_if keeps_emit) simp
qed

lemma keeps_release_withheld: "keeps I (release_withheld fuel clk ty n)"
proof (induction fuel arbitrary: n)
  case (Suc fuel)
  show ?case
    unfolding release_withheld.simps Let_def
    by (rule keeps_with, rule keepsD)
      (intro keeps_case_option keeps_return keeps_then keeps_modify receive_hold keeps_release Suc.IH)
qed (simp add: keeps_return)

lemma keeps_receive: "keeps I (receive_reliable_ordered clk m)"
proof -
  have "keeps I (receive_expected clk x m)" for x
    unfolding receive_expected_def
    by (intro keeps_then keeps_release keeps_with)
      (rule keepsD, intro keeps_bind keeps_release_withheld keeps_modify receive_expect)
  moreover have "keeps I (lid_modify (withhold m))"
    unfolding withhold_def by (intro keeps_modify receive_hold)
  ultimately show ?thesis
    unfolding receive_reliable_ordered_def send_acknowledgement_def Let_def
    by (intro keeps_then keeps_send keeps_with) (rule keepsD, intro keeps_if keeps_return)
qed

end

lemma and_1023: "v AND 1023 = take_bit 10 (v :: u32)"
  by (simp add: take_bit_eq_mask mask_eq_exp_minus_1)

section \<open>The whole client\<close>

locale client_contract =
  fixes I :: "client \<Rightarrow> bool"
  assumes frame: "I s \<Longrightarrow> same_core s s' \<Longrightarrow> I s'"
    and initial: "I (new_client now)"
    and wf: "I s \<Longrightarrow> wf_maps s"
    and reject: "I s \<Longrightarrow> I (reject_reliable e s)"
    and forget: "I s \<Longrightarrow> I (s\<lparr>withheld := [], expected_sequences := [], send_sequences := []\<rparr>)"
    and drop_group: "I s \<Longrightarrow> map_of (fragments s) key = Some g \<Longrightarrow> I (delete_fragment_group key g s)"
    and enqueue: "I s \<Longrightarrow> outgoing_bytes s + int (length payload) \<le> max_outgoing_bytes \<Longrightarrow>
      length (outgoing_transfers s) < max_outgoing_transfers \<Longrightarrow> 512 \<le> mtu \<Longrightarrow>
      reliable_ordered_type \<le> ty \<Longrightarrow> ty < reliable_ordered_type + 32 \<Longrightarrow> I (snd (enqueue_transfer mtu ty payload s))"
    and flush_one: "I s \<Longrightarrow> length (pending_reliable s) < send_window \<Longrightarrow> transfer_queue s = a # as \<Longrightarrow>
      I (snd (flush_step clk a s))"
    and resend_one: "I s \<Longrightarrow> map_of (pending_reliable s) key = Some p \<Longrightarrow> p_attempts p < max_send_attempts \<Longrightarrow>
      I (s\<lparr>pending_reliable := AList.update key (p\<lparr>p_attempts := p_attempts p + 1, p_last_sent_at := t\<rparr>) (pending_reliable s)\<rparr>)"
    and acknowledged: "I s \<Longrightarrow> I (acknowledge ty sequence s)"
    and receive: "I s \<Longrightarrow> in_sequence m < sequence_modulus \<Longrightarrow> I (snd (receive_reliable_ordered clk m s))"
begin

lemma emit_keeps: "\<not> settles e \<Longrightarrow> I s \<Longrightarrow> I (emit e s)"
  by (rule frame [OF _ same_core_emit])

lemma reject_connect_keeps: "I s \<Longrightarrow> I (reject_connect e s)"
  by (erule frame) (rule same_core_reject_connect)

lemma clear_timers_keeps: "I s \<Longrightarrow> I (clear_timers s)"
  by (erule frame) (rule same_core_clear)

lemma send_message_keeps: "keeps I (send_message ty p b q f)"
  using frame same_core_send unfolding keeps_def by blast

lemma send_written_keeps: "keeps I (send_written ty f)"
  unfolding send_written_def Let_def by (rule send_message_keeps)

text \<open>Deleting groups from a snapshot of the map, under a condition.\<close>

lemma delete_groups_keeps:
  "I s \<Longrightarrow> distinct (map fst gs) \<Longrightarrow> (\<And>key g. (key, g) \<in> set gs \<Longrightarrow> map_of (fragments s) key = Some g) \<Longrightarrow>
   I (fold (\<lambda>(key, g) s. if c g then delete_fragment_group key g s else s) gs s)"
proof (induction gs arbitrary: s)
  case (Cons kg gs)
  obtain key g where kg: "kg = (key, g)"
    by (cases kg)
  let ?s = "if c g then delete_fragment_group key g s else s"
  have "I ?s"
    using Cons.prems(1,3) drop_group by (auto simp: kg)
  moreover have "map_of (fragments ?s) k = Some h" if "(k, h) \<in> set gs" for k h
  proof -
    have "k \<noteq> key"
      using that Cons.prems(2) by (force simp: kg)
    then show ?thesis
      using Cons.prems(3) [of k h] that by (simp add: delete_fragment_group_def AList.delete_conv')
  qed
  ultimately show ?case
    using Cons.IH [of ?s] Cons.prems(2) by (simp add: kg)
qed simp

lemma snapshot:
  assumes "I s"
  shows "distinct (map fst (fragments s))" "(key, g) \<in> set (fragments s) \<Longrightarrow> map_of (fragments s) key = Some g"
  using wf [OF assms] by (simp_all add: wf_maps_def)

lemma expire_fragments_keeps: "I s \<Longrightarrow> I (expire_fragments now s)"
  unfolding expire_fragments_def
  using delete_groups_keeps [of s "fragments s" "\<lambda>g. fragment_ttl_ms \<le> now - g_created_at g"] snapshot by blast

lemma finish_closed_keeps:
  assumes "I s"
  shows "I (finish_closed s)"
proof -
  have all: "I (fold (\<lambda>(key, g). delete_fragment_group key g) (fragments t) t)" if "I t" for t
    using delete_groups_keeps [OF that, of "fragments t" "\<lambda>_. True"] snapshot [OF that] by simp
  have "I (clear_timers (s\<lparr>closing := True, closed := True\<rparr>))"
    by (intro clear_timers_keeps frame [OF assms]) (simp add: same_core_def settled_def)
  then show ?thesis
    using assms by (auto simp: finish_closed_def Let_def intro!: emit_keeps forget all reject)
qed

lemma close_socket_keeps: "I s \<Longrightarrow> I (close_socket s)"
  by (cases "socket s")
    (auto simp: close_socket_def intro!: finish_closed_keeps emit_keeps elim: frame simp: same_core_def settled_def)

lemma fail_keeps:
  assumes "I s"
  shows "I (fail e s)"
proof -
  have "I (clear_timers (s\<lparr>closing := True, close_error := Some e\<rparr>))"
    by (intro clear_timers_keeps frame [OF assms]) (simp add: same_core_def settled_def)
  with assms show ?thesis
    by (auto simp: fail_def intro!: close_socket_keeps reject reject_connect_keeps)
qed

lemma fail_modify_keeps: "keeps I (lid_modify (fail e))"
  by (intro keeps_modify fail_keeps)

lemma frame_modify_keeps: "(\<And>s. same_core s (f s)) \<Longrightarrow> keeps I (lid_modify f)"
  by (intro keeps_modify) (blast intro: frame)

lemma send_connect_keeps: "keeps I (send_connect opt clk)"
  unfolding send_connect_def
  by (rule keeps_with, rule keepsD, intro keeps_intros fail_modify_keeps send_written_keeps frame_modify_keeps)
    (simp_all add: same_core_def settled_def)

lemma flush_keeps: "I s \<Longrightarrow> I (snd (flush_reliable_queue clk s))"
proof (induction clk s rule: flush_reliable_queue.induct)
  case (1 clk s)
  show ?case
  proof (cases "length (pending_reliable s) < send_window \<and> transfer_queue s \<noteq> []")
    case True
    then obtain a as where q: "transfer_queue s = a # as"
      by (cases "transfer_queue s") auto
    with True "1.prems" have step: "I (snd (flush_step clk a s))"
      by (intro flush_one) auto
    show ?thesis
    proof (cases "flush_step clk a s")
      case (Pair r s')
      then show ?thesis
        using "1.IH" [OF _ q, of r s'] True q step
        by (cases r) (simp_all add: flush_reliable_queue.simps [of clk s])
    qed
  next
    case False
    with "1.prems" show ?thesis
      by (auto simp: flush_reliable_queue.simps [of clk s] split: list.splits)
  qed
qed

lemma flush_lid_keeps: "keeps I (flush_reliable_queue clk)"
  by (simp add: keeps_def flush_keeps)

lemma resend_loop_keeps:
  "I s \<Longrightarrow> distinct (map fst ps) \<Longrightarrow> (\<And>key p. (key, p) \<in> set ps \<Longrightarrow> map_of (pending_reliable s) key = Some p) \<Longrightarrow>
   I (snd (resend_loop clk ps s))"
proof (induction ps arbitrary: s)
  case (Cons kp ps)
  obtain key p where kp: "kp = (key, p)"
    by (cases kp)
  have p: "map_of (pending_reliable s) key = Some p"
    using Cons.prems(3) by (simp add: kp)
  consider (young) "now_ms clk - p_last_sent_at p < resend_delay_ms"
    | (dead) "\<not> now_ms clk - p_last_sent_at p < resend_delay_ms" "max_send_attempts \<le> p_attempts p"
    | (again) "\<not> now_ms clk - p_last_sent_at p < resend_delay_ms" "\<not> max_send_attempts \<le> p_attempts p"
    by blast
  then show ?case
  proof cases
    case young
    with Cons show ?thesis
      by (simp add: kp)
  next
    case dead
    with Cons.prems(1) show ?thesis
      by (simp add: kp lid_defs fail_keeps)
  next
    case again
    let ?p = "p\<lparr>p_attempts := p_attempts p + 1, p_last_sent_at := now_ms clk\<rparr>"
    let ?s1 = "s\<lparr>pending_reliable := AList.update key ?p (pending_reliable s)\<rparr>"
    obtain r s' where send: "send_message (p_type ?p) (p_payload ?p) (p_payload_bits ?p) (p_sequence ?p) (p_fragmented ?p) ?s1 = (r, s')"
      by (cases "send_message (p_type ?p) (p_payload ?p) (p_payload_bits ?p) (p_sequence ?p) (p_fragmented ?p) ?s1")
    then have core: "same_core ?s1 s'"
      using same_core_send by (metis snd_conv)
    have "I ?s1"
      using again by (intro resend_one [OF Cons.prems(1) p]) simp
    then have s': "I s'"
      using core by (rule frame)
    have rest: "map_of (pending_reliable s') k = Some q" if "(k, q) \<in> set ps" for k q
    proof -
      have "k \<noteq> key"
        using that Cons.prems(2) by (force simp: kp)
      with Cons.prems(3) [of k q] that core show ?thesis
        by (simp add: same_core_def AList.update_conv')
    qed
    from Cons.IH [OF s' _ rest] Cons.prems(2) s' send again show ?thesis
      by (auto simp: kp send_reliable_message_def Let_def lid_defs split: sum.splits)
  qed
qed (simp add: lid_defs)

lemma maintain_reliable_sends_keeps: "keeps I (maintain_reliable_sends clk)"
  unfolding maintain_reliable_sends_def
proof (rule keeps_with)
  fix s
  assume s: "I s"
  have loop: "I (snd (resend_loop clk (pending_reliable s) s))"
    by (rule resend_loop_keeps [OF s]) (use wf [OF s] in \<open>simp_all add: wf_maps_def\<close>)
  show "I (snd ((if closing s \<or> closed s then lid_skip
     else lid_bind (resend_loop clk (pending_reliable s)) (\<lambda>done. if done then flush_reliable_queue clk else lid_skip)) s))"
    using s loop flush_keeps by (auto simp: lid_defs split: prod.splits sum.splits)
qed

lemma acknowledge_all_keeps: "I s \<Longrightarrow> I (acknowledge_all bs s)"
  by (induction bs s rule: acknowledge_all.induct) (simp_all add: acknowledged)

lemma send_reliable_ordered_keeps: "keeps I (send_reliable_ordered opt clk payload channel)"
  unfolding send_reliable_ordered_def
proof (rule keeps_with)
  fix s
  assume s: "I s"
  let ?mtu = "max 512 (case opt_mtu opt of Some m \<Rightarrow> m | None \<Rightarrow> default_mtu)"
  have go: "I (snd (lid_then (lid_modify (\<lambda>_. snd (enqueue_transfer ?mtu (reliable_ordered_type + nat c) payload s)))
      (lid_then (flush_reliable_queue clk) (lid_return r)) s))"
    if "0 \<le> c" "c \<le> 31" "outgoing_bytes s + int (length payload) \<le> max_outgoing_bytes"
      "length (outgoing_transfers s) < max_outgoing_transfers" for c and r :: "client_error + nat"
  proof -
    have e: "I (snd (enqueue_transfer ?mtu (reliable_ordered_type + nat c) payload s))"
      using that by (intro enqueue [OF s]) simp_all
    have "keeps I (lid_then (flush_reliable_queue clk) (lid_return r))"
      by (intro keeps_then flush_lid_keeps keeps_return)
    from keepsD [OF this e] show ?thesis
      by (simp add: snd_then lid_modify_def)
  qed
  then show "I (snd ((if \<not> connected s \<or> closing s \<or> closed s
     then lid_return (Inl (Client_Error ''Lidgren client is not connected''))
     else if max_outgoing_bytes < int (length payload)
        \<or> max_outgoing_bytes < outgoing_bytes s + int (length payload)
        \<or> max_outgoing_transfers \<le> length (outgoing_transfers s)
     then lid_return (Inl (Client_Error ''Lidgren payload exceeds outgoing limit''))
     else let mtu = ?mtu in
       case js_integer channel of
         None \<Rightarrow> lid_return (Inl (Client_Error ''Invalid reliable sequence channel''))
       | Some channel \<Rightarrow>
           if channel < 0 \<or> 31 < channel then lid_return (Inl (Client_Error ''Invalid reliable sequence channel''))
           else let (a, s1) = enqueue_transfer mtu (reliable_ordered_type + nat channel) payload s in
             lid_then (lid_modify (\<lambda>_. s1)) (lid_then (flush_reliable_queue clk) (lid_return (Inr a)))) s))"
    using s by (auto simp: Let_def split_def lid_return_def not_less split: option.splits)
qed

lemma handle_connect_response_keeps: "keeps I (handle_connect_response opt clk payload)"
  unfolding handle_connect_response_def
  by (rule keeps_with, rule keepsD,
      intro keeps_intros keeps_case_option fail_modify_keeps frame_modify_keeps)
    (simp_all add: send_connection_established_def send_written_keeps same_core_def settled_def emit_def)

lemma receive_message_keeps:
  assumes "in_sequence m < sequence_modulus"
  shows "keeps I (receive_message opt clk m)"
proof -
  have ack: "keeps I (receive_acknowledgements clk payload)" for payload
    unfolding receive_acknowledgements_def
    by (intro keeps_then keeps_modify acknowledge_all_keeps flush_lid_keeps)
  have pong: "keeps I (send_pong clk payload)" for payload
    by (cases payload) (simp_all add: send_pong_def keeps_return send_written_keeps)
  have disconnect: "keeps I (handle_remote_disconnect payload)" for payload
    unfolding handle_remote_disconnect_def by (intro keeps_bind keeps_return fail_modify_keeps)
  have reliable: "keeps I (receive_reliable_ordered clk m)"
    using receive [OF _ assms] by (simp add: keeps_def)
  show ?thesis
    unfolding receive_message_def
    by (intro keeps_if ack pong disconnect reliable keeps_return handle_connect_response_keeps)
qed

lemma header_sequence_less: "header_sequence lo hi < sequence_modulus"
proof -
  have "unat (x AND 1023) < 1024" for x :: u32
    using take_bit_nat_less_exp [of 10 "unat x"] by (simp add: and_1023 unsigned_take_bit_eq)
  then show ?thesis
    by (simp add: header_sequence_def sequence_modulus_def)
qed

lemma receive_loop_keeps: "I s \<Longrightarrow> I (snd (receive_loop opt clk data s))"
proof (induction opt clk data s rule: receive_loop.induct)
  case (1 opt clk data s)
  show ?case
  proof (cases "\<exists>ty lo hi bl bh r. data = ty # lo # hi # bl # bh # r \<and> ceil_div (header_bits bl bh) 8 \<le> length r")
    case True
    then obtain ty lo hi bl bh r where data: "data = ty # lo # hi # bl # bh # r" "ceil_div (header_bits bl bh) 8 \<le> length r"
      by blast
    let ?n = "ceil_div (header_bits bl bh) 8"
    let ?m = "\<lparr>in_fragmented = (lo AND 1 = 1), in_payload = take ?n r, in_sequence = header_sequence lo hi, in_type = unat ty\<rparr>"
    have m: "keeps I (receive_message opt clk ?m)"
      by (rule receive_message_keeps) (simp add: header_sequence_less)
    obtain x s' where x: "receive_message opt clk ?m s = (x, s')"
      by (cases "receive_message opt clk ?m s")
    with keepsD [OF m "1.prems"] have s': "I s'"
      by simp
    show ?thesis
      using "1.IH" [OF data(1) refl refl refl refl refl _ x [symmetric]] data s' x
      by (cases x) (simp_all add: receive_loop.simps [of opt clk _ s] Let_def)
  next
    case False
    with "1.prems" show ?thesis
      by (auto simp: receive_loop.simps [of opt clk data s] Let_def not_le fail_keeps split: list.splits)
  qed
qed

lemma handle_keeps:
  assumes "I s"
  shows "I (handle opt clk ev s)"
proof -
  have datagram: "keeps I (receive_datagram opt clk data)" for data
    unfolding receive_datagram_def
    by (rule keeps_with, rule keepsD, intro keeps_intros frame_modify_keeps)
      (simp_all add: same_core_def settled_def keeps_def receive_loop_keeps)
  have maintenance: "keeps I (maintain_connection clk)"
    unfolding maintain_connection_def
    by (intro keeps_then keeps_modify expire_fragments_keeps keeps_with)
      (assumption, rule keepsD, intro keeps_intros fail_modify_keeps frame_modify_keeps send_message_keeps,
       simp_all add: same_core_def settled_def)
  have closing: "I (close reason s)" for reason
  proof -
    have "I (clear_timers (s\<lparr>closing := True, close_promise := True\<rparr>))"
      by (intro clear_timers_keeps frame [OF assms]) (simp add: same_core_def settled_def)
    with assms show ?thesis
      by (auto simp: close_def Let_def send_message_and_wait_def intro!: close_socket_keeps reject_connect_keeps emit_keeps)
  qed
  have connected: "keeps I (socket_connected opt clk)"
    unfolding socket_connected_def by (intro keeps_then send_connect_keeps frame_modify_keeps) (simp add: same_core_def settled_def)
  have start: "keeps I connect"
    unfolding connect_def by (rule keeps_with, rule keepsD, intro keeps_intros frame_modify_keeps) (simp_all add: same_core_def settled_def)
  have message: "I (case receive_datagram opt clk data s of
      (Inr _, s') \<Rightarrow> s' | (Inl _, s') \<Rightarrow> fail (Client_Error ''Malformed Lidgren message'') s')" for data
    using keepsD [OF datagram [of data] assms]
    by (cases "receive_datagram opt clk data s") (auto intro: fail_keeps split: sum.splits)
  show ?thesis
    using assms message keepsD [OF maintenance assms] closing keepsD [OF connected assms]
      keepsD [OF start assms] keepsD [OF send_connect_keeps assms] keepsD [OF maintain_reliable_sends_keeps assms]
      keepsD [OF send_reliable_ordered_keeps assms] fail_keeps [OF assms] finish_closed_keeps [OF assms]
      close_socket_keeps [OF assms]
    by (cases ev) (simp_all add: handle_def)
qed

lemma reachable_keeps: "reachable opt s \<Longrightarrow> I s"
  by (induction rule: reachable.induct) (simp_all add: initial handle_keeps)

end

end
