(* ===== verification/Lidgren_Invariants.thy ===== *)
theory Lidgren_Invariants
  imports Lidgren_Contract
begin

text \<open>
  The invariants of the Lidgren client, each an interpretation of \<open>client_contract\<close>:

  \<^item> \<open>pending_inv\<close>: the send window, the keys, sequence numbers and attempts of the pending messages;
  \<^item> \<open>outgoing_inv\<close>: the accounting of the outgoing transfers, and that a transfer is outstanding as
    long as a chunk of it is unsent or unacknowledged;
  \<^item> \<open>transfers_inv\<close>: every transfer accepted is open or settled, once, and one that resolved has nothing left to send or to
    be acknowledged;
  \<^item> \<open>fragment_inv\<close>: the accounting of the incoming fragments and the shape of their groups.

  The first section has the lemmas on association lists they share: a sum over the values after
  \<open>update\<close> and \<open>delete\<close>.
\<close>

declare map_of_eq_Some_iff [simp del]

section \<open>Sums over association lists\<close>

definition alist_sum :: "('v \<Rightarrow> int) \<Rightarrow> ('k \<times> 'v) list \<Rightarrow> int" where
  "alist_sum f al = sum_list (map (\<lambda>(k, v). f v) al)"

lemma alist_sum_simps [simp]: "alist_sum f [] = 0" "alist_sum f ((k, v) # al) = f v + alist_sum f al"
  by (simp_all add: alist_sum_def)

lemma alist_sum_update:
  "distinct (map fst al) \<Longrightarrow>
   alist_sum f (AList.update k v al) = alist_sum f al + f v - (case map_of al k of None \<Rightarrow> 0 | Some w \<Rightarrow> f w)"
proof (induction al)
  case (Cons kw al)
  then show ?case
    by (cases kw) auto
qed simp

lemma alist_sum_delete:
  "distinct (map fst al) \<Longrightarrow>
   alist_sum f (AList.delete k al) = alist_sum f al - (case map_of al k of None \<Rightarrow> 0 | Some w \<Rightarrow> f w)"
proof (induction al)
  case (Cons kw al)
  obtain l w where kw: "kw = (l, w)"
    by (cases kw)
  have "map_of al l = None"
    using Cons.prems by (simp add: kw map_of_eq_None_iff)
  then show ?case
    using Cons by (auto simp: kw AList.delete_eq)
qed simp

lemma alist_sum_cong: "(\<And>k v. (k, v) \<in> set al \<Longrightarrow> f v = g v) \<Longrightarrow> alist_sum f al = alist_sum g al"
  unfolding alist_sum_def by (rule arg_cong [of _ _ sum_list], rule map_cong) auto

lemma length_update: "length (AList.update k v al) = (if map_of al k = None then Suc (length al) else length al)"
  by (induction al) auto

lemma length_delete_le: "length (AList.delete k al) \<le> length al"
  by (simp add: AList.delete_eq)

lemma distinct_keys_update: "distinct (map fst al) \<Longrightarrow> distinct (map fst (AList.update k v al))"
  by (rule AList.distinct_update)

lemma distinct_keys_delete: "distinct (map fst al) \<Longrightarrow> distinct (map fst (AList.delete k al))"
  by (rule AList.distinct_delete)

lemmas alist_keys = distinct_keys_update distinct_keys_delete

lemma wf_maps_core: "wf_maps s \<Longrightarrow> same_core s s' \<Longrightarrow> wf_maps s'"
  by (simp add: wf_maps_def same_core_def)

section \<open>The state after the operations\<close>

lemma delete_fragment_group_fields:
  "pending_reliable (delete_fragment_group key g s) = pending_reliable s"
  "transfer_queue (delete_fragment_group key g s) = transfer_queue s"
  "outgoing_transfers (delete_fragment_group key g s) = outgoing_transfers s"
  "outgoing_bytes (delete_fragment_group key g s) = outgoing_bytes s"
  "transfer_store (delete_fragment_group key g s) = transfer_store s"
  "next_transfer (delete_fragment_group key g s) = next_transfer s"
  "send_sequences (delete_fragment_group key g s) = send_sequences s"
  "withheld (delete_fragment_group key g s) = withheld s"
  "expected_sequences (delete_fragment_group key g s) = expected_sequences s"
  by (simp_all add: delete_fragment_group_def)

lemma delete_fragment_group_present:
  "map_of (fragments s) key = Some g \<Longrightarrow> fragments (delete_fragment_group key g s) = AList.delete key (fragments s)"
  "map_of (fragments s) key = Some g \<Longrightarrow>
     fragment_bytes (delete_fragment_group key g s) = fragment_bytes s - alist_sum (\<lambda>c. int (length c)) (g_chunks g)"
proof -
  have "fold (\<lambda>(_, chunk) n. n - int (length chunk)) cs b = b - alist_sum (\<lambda>c. int (length c)) cs" for cs :: "(nat \<times> byte list) list" and b
    by (induction cs arbitrary: b) auto
  moreover assume "map_of (fragments s) key = Some g"
  then have "key \<in> fst ` set (fragments s)"
    by (force dest: map_of_SomeD)
  ultimately show "fragments (delete_fragment_group key g s) = AList.delete key (fragments s)"
    "fragment_bytes (delete_fragment_group key g s) = fragment_bytes s - alist_sum (\<lambda>c. int (length c)) (g_chunks g)"
    by (simp_all add: delete_fragment_group_def)
qed

lemma wf_maps_drop: "wf_maps s \<Longrightarrow> map_of (fragments s) key = Some g \<Longrightarrow> wf_maps (delete_fragment_group key g s)"
  by (simp add: wf_maps_def delete_fragment_group_fields delete_fragment_group_present alist_keys)

lemma wf_maps_store: "wf_maps s \<Longrightarrow> wf_maps (store_chunk key g n chunk s)"
  by (simp add: wf_maps_def store_chunk_def alist_keys)

definition flush_pending :: "clock \<Rightarrow> nat \<Rightarrow> client \<Rightarrow> pending_reliable_message" where
  "flush_pending clk a s =
     (let t = transfer_store s a; (payload, bits) = encode_chunk (t\<lparr>t_next_chunk := t_next_chunk t + 1\<rparr>) (t_next_chunk t) in
      \<lparr>p_attempts = 1, p_fragmented = (t_group_id t \<noteq> 0), p_last_sent_at = now_ms clk, p_payload = payload,
       p_payload_bits = bits, p_sequence = map_get (send_sequences s) (t_message_type t) 0, p_transfer = a,
       p_type = t_message_type t\<rparr>)"

definition flush_state :: "clock \<Rightarrow> nat \<Rightarrow> client \<Rightarrow> client" where
  "flush_state clk a s =
     (let t = transfer_store s a; sequence = map_get (send_sequences s) (t_message_type t) 0 in
      s\<lparr>transfer_store := (transfer_store s)(a := t\<lparr>t_next_chunk := t_next_chunk t + 1\<rparr>),
        transfer_queue := (if t_chunk_count t \<le> t_next_chunk t + 1 then tl (transfer_queue s) else transfer_queue s),
        send_sequences := AList.update (t_message_type t) ((sequence + 1) mod sequence_modulus) (send_sequences s),
        pending_reliable := AList.update (t_message_type t, sequence) (flush_pending clk a s) (pending_reliable s)\<rparr>)"

lemma flush_step_eq: "flush_step clk a s =
  send_message (p_type (flush_pending clk a s)) (p_payload (flush_pending clk a s)) (p_payload_bits (flush_pending clk a s))
    (p_sequence (flush_pending clk a s)) (p_fragmented (flush_pending clk a s)) (flush_state clk a s)"
  by (simp add: flush_step_def send_reliable_message_def flush_state_def flush_pending_def lid_defs Let_def split_def
      AList.update_last)

lemma flush_step_core: "same_core (flush_state clk a s) (snd (flush_step clk a s))"
  unfolding flush_step_eq by (rule same_core_send)

lemma flush_pending_simps:
  "p_attempts (flush_pending clk a s) = 1" "p_transfer (flush_pending clk a s) = a"
  "p_type (flush_pending clk a s) = t_message_type (transfer_store s a)"
  "p_sequence (flush_pending clk a s) = map_get (send_sequences s) (t_message_type (transfer_store s a)) 0"
  by (simp_all add: flush_pending_def Let_def split_def)

lemma enqueue_fields:
  fixes mtu ty :: nat and payload :: "byte list" and s :: client
  defines "a \<equiv> next_transfer s" and "s' \<equiv> snd (enqueue_transfer mtu ty payload s)"
  shows "fst (enqueue_transfer mtu ty payload s) = a" "next_transfer s' = Suc a" "pending_reliable s' = pending_reliable s"
    "fragments s' = fragments s" "fragment_bytes s' = fragment_bytes s" "send_sequences s' = send_sequences s"
    "withheld s' = withheld s" "expected_sequences s' = expected_sequences s"
    "transfer_queue s' = transfer_queue s @ [a]" "outgoing_transfers s' = outgoing_transfers s @ [a]"
    "outgoing_bytes s' = outgoing_bytes s + int (length payload)"
    "b \<noteq> a \<Longrightarrow> transfer_store s' b = transfer_store s b"
    "t_payload (transfer_store s' a) = payload" "t_message_type (transfer_store s' a) = ty"
    "t_next_chunk (transfer_store s' a) = 0" "t_remaining (transfer_store s' a) = int (t_chunk_count (transfer_store s' a))"
    "t_chunk_count (transfer_store s' a) = (if length payload + 5 \<le> mtu then 1 else ceil_div (length payload) (mtu - 32))"
    "t_chunk_byte_size (transfer_store s' a) = mtu - 32"
  unfolding a_def s'_def
  by (cases "(if length payload + 5 \<le> mtu then 1 else ceil_div (length payload) (mtu - 32)) = 1";
      simp add: enqueue_transfer_def next_fragment_group_def Let_def)+

section \<open>The send window\<close>

definition pending_ok :: "nat \<times> nat \<Rightarrow> pending_reliable_message \<Rightarrow> bool" where
  "pending_ok key p \<longleftrightarrow> key = (p_type p, p_sequence p) \<and> 1 \<le> p_attempts p \<and> p_attempts p \<le> max_send_attempts
     \<and> p_sequence p < sequence_modulus
     \<and> reliable_ordered_type \<le> p_type p \<and> p_type p < reliable_ordered_type + 32"

definition pending_inv :: "client \<Rightarrow> bool" where
  "pending_inv s \<longleftrightarrow> wf_maps s \<and> length (pending_reliable s) \<le> send_window
     \<and> (\<forall>key p. map_of (pending_reliable s) key = Some p \<longrightarrow> pending_ok key p)
     \<and> (\<forall>ty n. map_of (send_sequences s) ty = Some n \<longrightarrow> n < sequence_modulus)
     \<and> (\<forall>a\<in>set (transfer_queue s). reliable_ordered_type \<le> t_message_type (transfer_store s a)
          \<and> t_message_type (transfer_store s a) < reliable_ordered_type + 32)
     \<and> (\<forall>a\<in>set (transfer_queue s). a < next_transfer s)"

lemma pending_inv_frame: "pending_inv s \<Longrightarrow> same_core s s' \<Longrightarrow> pending_inv s'"
  by (simp add: pending_inv_def wf_maps_def same_core_def)

interpretation pending_receive: receive_contract pending_inv
proof
  fix s key g n chunk
  assume "pending_inv s" "chunk_accepted s key g n chunk"
  then show "pending_inv (store_chunk key g n chunk s)"
    by (simp add: pending_inv_def wf_maps_store) (simp add: store_chunk_def)
next
  fix s key g
  assume "pending_inv s" "map_of (fragments s) key = Some g"
  then show "pending_inv (delete_fragment_group key g s)"
    by (simp add: pending_inv_def wf_maps_drop delete_fragment_group_fields)
qed (auto simp: pending_inv_frame, auto simp: pending_inv_def wf_maps_def)

lemma pending_flush:
  assumes "pending_inv s" "length (pending_reliable s) < send_window" "transfer_queue s = a # as"
  shows "pending_inv (flush_state clk a s)"
proof -
  let ?t = "transfer_store s a"
  have q: "map_get (send_sequences s) (t_message_type ?t) 0 < sequence_modulus"
    using assms(1) by (auto simp: pending_inv_def map_get_def sequence_modulus_def split: option.splits)
  have ty: "reliable_ordered_type \<le> t_message_type ?t" "t_message_type ?t < reliable_ordered_type + 32"
    using assms(1,3) by (simp_all add: pending_inv_def)
  have ok: "pending_ok (t_message_type ?t, map_get (send_sequences s) (t_message_type ?t) 0) (flush_pending clk a s)"
    using q ty by (simp add: pending_ok_def flush_pending_simps max_send_attempts_def)
  show ?thesis
    using assms ok
    by (auto simp: pending_inv_def flush_state_def Let_def wf_maps_def alist_keys length_update AList.update_conv'
        sequence_modulus_def split: if_splits)
qed

lemma pending_acknowledge:
  assumes "pending_inv s"
  shows "pending_inv (acknowledge ty q s)"
proof (cases "map_of (pending_reliable s) (ty, q)")
  case (Some p)
  have "length (AList.delete (ty, q) (pending_reliable s)) \<le> send_window"
    using assms length_delete_le [of "(ty, q)" "pending_reliable s"] by (simp add: pending_inv_def)
  with assms Some show ?thesis
    by (auto simp: pending_inv_def acknowledge_def Let_def complete_transfer_def emit_def wf_maps_def alist_keys
        AList.delete_conv' split: if_splits)
qed (simp add: acknowledge_def assms)

interpretation pending: client_contract pending_inv
proof
  fix s ty mtu and payload :: "byte list"
  assume s: "pending_inv s" and ty: "reliable_ordered_type \<le> ty" "ty < reliable_ordered_type + 32"
  let ?s = "snd (enqueue_transfer mtu ty payload s)"
  note f = enqueue_fields [where mtu = mtu and ty = ty and payload = payload and s = s]
  have "transfer_store ?s b = transfer_store s b" if "b \<in> set (transfer_queue s)" for b
    using s that by (intro f(12)) (auto simp: pending_inv_def)
  with s ty show "pending_inv ?s"
    by (auto simp: f pending_inv_def wf_maps_def less_Suc_eq)
next
  fix s a as clk
  assume "pending_inv s" "length (pending_reliable s) < send_window" "transfer_queue s = a # as"
  from pending_inv_frame [OF pending_flush [OF this] flush_step_core]
  show "pending_inv (snd (flush_step clk a s))" .
next
  fix s key p t
  assume "pending_inv s" "map_of (pending_reliable s) key = Some p" "p_attempts p < max_send_attempts"
  then show "pending_inv (s\<lparr>pending_reliable := AList.update key (p\<lparr>p_attempts := p_attempts p + 1, p_last_sent_at := t\<rparr>) (pending_reliable s)\<rparr>)"
    by (auto simp: pending_inv_def wf_maps_def alist_keys length_update AList.update_conv' pending_ok_def split: if_splits)
next
  fix s m clk
  assume "pending_inv s"
  then show "pending_inv (snd (receive_reliable_ordered clk m s))"
    by (rule keepsD [OF pending_receive.keeps_receive])
qed (auto simp: pending_inv_frame pending_receive.receive_drop pending_acknowledge,
     auto simp: pending_inv_def wf_maps_def new_client_def send_window_def reject_reliable_eq)

section \<open>Outgoing transfers\<close>

definition unacknowledged :: "client \<Rightarrow> nat \<Rightarrow> int" where
  "unacknowledged s a = alist_sum (\<lambda>p. if p_transfer p = a then 1 else 0) (pending_reliable s)"

definition unsent :: "client \<Rightarrow> nat \<Rightarrow> int" where
  "unsent s a = int (t_chunk_count (transfer_store s a)) - int (t_next_chunk (transfer_store s a))"

text \<open>
  A transfer of the set is complete only when nothing of it is unsent or unacknowledged: \<open>remaining\<close>
  bounds both. (It is larger when a sequence number was used again while it was still pending.)
\<close>

definition transfer_ok :: "client \<Rightarrow> nat \<Rightarrow> bool" where
  "transfer_ok s a \<longleftrightarrow> a < next_transfer s \<and> 0 \<le> unsent s a \<and> (a \<in> set (transfer_queue s) \<longleftrightarrow> 0 < unsent s a)
     \<and> 0 < t_remaining (transfer_store s a)
     \<and> unsent s a + unacknowledged s a \<le> t_remaining (transfer_store s a)"

definition outgoing_sum :: "client \<Rightarrow> int" where
  "outgoing_sum s = sum_list (map (\<lambda>a. int (length (t_payload (transfer_store s a)))) (outgoing_transfers s))"

definition outgoing_inv :: "client \<Rightarrow> bool" where
  "outgoing_inv s \<longleftrightarrow> wf_maps s \<and> distinct (outgoing_transfers s) \<and> distinct (transfer_queue s)
     \<and> set (transfer_queue s) \<subseteq> set (outgoing_transfers s)
     \<and> outgoing_bytes s = outgoing_sum s
     \<and> outgoing_bytes s \<le> max_outgoing_bytes \<and> length (outgoing_transfers s) \<le> max_outgoing_transfers
     \<and> (\<forall>key p. map_of (pending_reliable s) key = Some p \<longrightarrow> p_transfer p \<in> set (outgoing_transfers s))
     \<and> (\<forall>a\<in>set (outgoing_transfers s). transfer_ok s a)"

lemma unacknowledged_nonneg: "0 \<le> unacknowledged s a"
  unfolding unacknowledged_def alist_sum_def by (rule sum_list_nonneg) auto

lemma outgoing_inv_frame: "outgoing_inv s \<Longrightarrow> same_core s s' \<Longrightarrow> outgoing_inv s'"
  by (simp add: outgoing_inv_def wf_maps_def same_core_def outgoing_sum_def transfer_ok_def unsent_def unacknowledged_def)

lemma outgoing_irrelevant:
  assumes "outgoing_inv s" "wf_maps s'"
    and "transfer_queue s' = transfer_queue s" "outgoing_transfers s' = outgoing_transfers s"
    "outgoing_bytes s' = outgoing_bytes s" "pending_reliable s' = pending_reliable s"
    "transfer_store s' = transfer_store s" "next_transfer s' = next_transfer s"
  shows "outgoing_inv s'"
  using assms by (simp add: outgoing_inv_def outgoing_sum_def transfer_ok_def unsent_def unacknowledged_def)

lemma outgoing_wf: "outgoing_inv s \<Longrightarrow> wf_maps s"
  by (simp add: outgoing_inv_def)

interpretation outgoing_receive: receive_contract outgoing_inv
proof
  fix s key g n chunk
  assume s: "outgoing_inv s"
  then show "outgoing_inv (store_chunk key g n chunk s)"
    by (rule outgoing_irrelevant [OF _ wf_maps_store [OF outgoing_wf [OF s]]]) (simp_all add: store_chunk_def)
next
  fix s key g
  assume s: "outgoing_inv s" and "map_of (fragments s) key = Some g"
  then have "wf_maps (delete_fragment_group key g s)"
    by (intro wf_maps_drop outgoing_wf)
  with s show "outgoing_inv (delete_fragment_group key g s)"
    by (rule outgoing_irrelevant) (simp_all add: delete_fragment_group_fields)
next
  fix s h x
  assume s: "outgoing_inv s"
  then show "outgoing_inv (s\<lparr>withheld := h\<rparr>)" "outgoing_inv (s\<lparr>expected_sequences := x, withheld := h\<rparr>)"
    using outgoing_wf [OF s] by (auto intro!: outgoing_irrelevant [OF s] simp: wf_maps_def)
qed (rule outgoing_inv_frame)

lemma sum_list_filter_out:
  "distinct xs \<Longrightarrow> a \<in> set xs \<Longrightarrow> sum_list (map f (filter (\<lambda>b. b \<noteq> a) xs)) = sum_list (map f xs) - (f a :: int)"
proof (induction xs)
  case (Cons x xs)
  show ?case
  proof (cases "x = a")
    case True
    then have "filter (\<lambda>b. b \<noteq> a) xs = xs"
      using Cons.prems(1) by (auto intro: filter_True)
    with True show ?thesis by simp
  next
    case False
    with Cons show ?thesis by simp
  qed
qed simp

lemma transfer_complete:
  assumes "transfer_ok s a" "t_remaining (transfer_store s a) = 1" "unacknowledged s a > 0"
  shows "unsent s a = 0 \<and> unacknowledged s a = 1 \<and> a \<notin> set (transfer_queue s)"
  using assms by (auto simp: transfer_ok_def)

lemma outgoing_acknowledge:
  assumes s: "outgoing_inv s"
  shows "outgoing_inv (acknowledge ty q s)"
proof (cases "map_of (pending_reliable s) (ty, q)")
  case (Some p)
  show ?thesis
  proof (cases "p_type p = ty")
    case True
    let ?a = "p_transfer p"
    let ?t = "transfer_store s ?a"
    let ?s1 = "s\<lparr>pending_reliable := AList.delete (ty, q) (pending_reliable s),
      transfer_store := (transfer_store s)(?a := ?t\<lparr>t_remaining := t_remaining ?t - 1\<rparr>)\<rparr>"
    have out: "?a \<in> set (outgoing_transfers s)"
      using s Some by (auto simp: outgoing_inv_def)
    then have ok: "transfer_ok s ?a"
      using s by (simp add: outgoing_inv_def)
    have dist: "distinct (map fst (pending_reliable s))"
      using s by (simp add: outgoing_inv_def wf_maps_def)
    have unack: "unacknowledged ?s1 b = unacknowledged s b - (if b = ?a then 1 else 0)" for b
      using dist Some by (auto simp: unacknowledged_def alist_sum_delete)
    have unsent: "unsent ?s1 b = unsent s b" for b
      by (simp add: unsent_def)
    have sum: "outgoing_sum ?s1 = outgoing_sum s"
      unfolding outgoing_sum_def by (rule arg_cong [of _ _ sum_list]) simp
    have pending: "p_transfer r \<in> set (outgoing_transfers s)" if "map_of (AList.delete (ty, q) (pending_reliable s)) key = Some r" for key r
      using s that by (cases key) (auto simp: outgoing_inv_def AList.delete_conv' split: if_splits)
    have wf: "wf_maps ?s1"
      using s by (simp add: outgoing_inv_def wf_maps_def alist_keys)
    have others: "transfer_ok ?s1 b" if "b \<in> set (outgoing_transfers s)" "b \<noteq> ?a" for b
      using s that by (simp add: outgoing_inv_def transfer_ok_def unack unsent)
    have pos: "0 < unacknowledged s ?a"
      using unack [of ?a] unacknowledged_nonneg [of ?s1 ?a] by simp
    show ?thesis
    proof (cases "t_remaining ?t = 1")
      case False
      then have "transfer_ok ?s1 ?a"
        using ok by (simp add: transfer_ok_def unack unsent)
      then have "outgoing_inv ?s1"
        using s wf sum pending others by (auto simp: outgoing_inv_def)
      with Some True False show ?thesis
        by (simp add: acknowledge_def Let_def)
    next
      case last: True
      note settled = transfer_complete [OF ok last pos]
      let ?s2 = "?s1\<lparr>outgoing_transfers := filter (\<lambda>b. b \<noteq> ?a) (outgoing_transfers s),
        outgoing_bytes := outgoing_bytes s - int (length (t_payload ?t))\<rparr>"
      have eq: "acknowledge ty q s = emit (Transfer_Resolved ?a) ?s2"
        using Some True last out by (simp add: acknowledge_def Let_def complete_transfer_def)
      have payload: "t_payload (transfer_store ?s2 b) = t_payload (transfer_store s b)" for b
        by simp
      have "outgoing_sum ?s2 = outgoing_sum s - int (length (t_payload ?t))"
        unfolding outgoing_sum_def payload
        using s sum_list_filter_out [of "outgoing_transfers s" ?a "\<lambda>a. int (length (t_payload (transfer_store s a)))"] out
        by (simp add: outgoing_inv_def)
      moreover have "p_transfer r \<noteq> ?a" if r: "map_of (AList.delete (ty, q) (pending_reliable s)) key = Some r" for key r
      proof
        assume eq: "p_transfer r = ?a"
        have "unacknowledged ?s1 ?a = 0"
          using settled unack [of ?a] by simp
        moreover have "0 < alist_sum (\<lambda>p. if p_transfer p = ?a then 1 else 0) al" if "(key, r) \<in> set al"
          for al :: "((nat \<times> nat) \<times> pending_reliable_message) list"
          using that
        proof (induction al)
          case (Cons kp al)
          have "0 \<le> alist_sum (\<lambda>p. if p_transfer p = ?a then 1 else 0) al"
            unfolding alist_sum_def by (rule sum_list_nonneg) auto
          with Cons eq show ?case
            by (cases kp) auto
        qed simp
        ultimately show False
          using map_of_SomeD [OF r] by (fastforce simp: unacknowledged_def)
      qed
      moreover have "transfer_ok ?s2 b" if "b \<in> set (outgoing_transfers s)" "b \<noteq> ?a" for b
        using others [OF that] by (simp add: transfer_ok_def unsent_def unacknowledged_def)
      moreover have "length (filter (\<lambda>b. b \<noteq> ?a) (outgoing_transfers s)) \<le> max_outgoing_transfers"
        using s length_filter_le [of "\<lambda>b. b \<noteq> ?a" "outgoing_transfers s"] unfolding outgoing_inv_def by linarith
      ultimately have "outgoing_inv ?s2"
        using s wf pending settled by (auto simp: outgoing_inv_def wf_maps_def)
      then show ?thesis
        unfolding eq by (rule outgoing_irrelevant) (use \<open>outgoing_inv ?s2\<close> in \<open>simp_all add: emit_def outgoing_inv_def wf_maps_def\<close>)
    qed
  qed (simp add: acknowledge_def Some s)
qed (simp add: acknowledge_def s)

lemma outgoing_flush:
  assumes s: "outgoing_inv s" and q: "transfer_queue s = a # as"
  shows "outgoing_inv (flush_state clk a s)"
proof -
  let ?t = "transfer_store s a"
  let ?s = "flush_state clk a s"
  let ?key = "(t_message_type ?t, map_get (send_sequences s) (t_message_type ?t) 0)"
  have a: "a \<in> set (outgoing_transfers s)" "a \<notin> set as"
    using s q by (auto simp: outgoing_inv_def)
  then have ok: "transfer_ok s a"
    using s by (simp add: outgoing_inv_def)
  have pos: "0 < unsent s a"
    using ok q by (simp add: transfer_ok_def)
  have fields: "outgoing_transfers ?s = outgoing_transfers s" "outgoing_bytes ?s = outgoing_bytes s"
    "next_transfer ?s = next_transfer s" "t_remaining (transfer_store ?s b) = t_remaining (transfer_store s b)"
    "t_payload (transfer_store ?s b) = t_payload (transfer_store s b)" for b
    by (simp_all add: flush_state_def Let_def)
  have unsent: "unsent ?s b = unsent s b - (if b = a then 1 else 0)" for b
    by (simp add: unsent_def flush_state_def Let_def)
  have dist: "distinct (map fst (pending_reliable s))"
    using s by (simp add: outgoing_inv_def wf_maps_def)
  have unack: "unacknowledged ?s b \<le> unacknowledged s b + (if b = a then 1 else 0)" for b
    using alist_sum_update [OF dist, of "\<lambda>p. if p_transfer p = b then 1 else 0" ?key "flush_pending clk a s"]
    by (auto simp: unacknowledged_def flush_state_def Let_def flush_pending_simps split: option.splits if_splits)
  have queue: "set (transfer_queue ?s) = (if unsent s a = 1 then set as else set (a # as))"
    "distinct (transfer_queue ?s)"
    using s q pos by (auto simp: flush_state_def Let_def unsent_def outgoing_inv_def)
  have ok': "transfer_ok ?s b" if b: "b \<in> set (outgoing_transfers s)" for b
  proof (cases "b = a")
    case True
    with ok pos show ?thesis
      using unack [of a] q a(2) by (auto simp: transfer_ok_def fields unsent queue)
  next
    case False
    have "transfer_ok s b"
      using s b by (simp add: outgoing_inv_def)
    with False show ?thesis
      using unack [of b] q by (auto simp: transfer_ok_def fields unsent queue)
  qed
  have "map_of (pending_reliable ?s) = (map_of (pending_reliable s))(?key \<mapsto> flush_pending clk a s)"
    by (simp add: flush_state_def Let_def AList.update_conv')
  then have "p_transfer p \<in> set (outgoing_transfers s)" if "map_of (pending_reliable ?s) key = Some p" for key p
    using s that a(1) by (cases key) (auto simp: outgoing_inv_def flush_pending_simps split: if_splits)
  moreover have "wf_maps ?s"
    using s by (simp add: outgoing_inv_def wf_maps_def flush_state_def Let_def alist_keys)
  moreover have "outgoing_sum ?s = outgoing_sum s"
    by (simp add: outgoing_sum_def fields)
  ultimately show ?thesis
    using s q queue ok' by (auto simp: outgoing_inv_def fields split: if_splits)
qed

lemma ceil_div_pos: "0 < b \<Longrightarrow> 0 < a \<Longrightarrow> 0 < ceil_div a b"
  by (simp add: less_ceil_div_iff)

lemma outgoing_enqueue:
  assumes s: "outgoing_inv s" and "outgoing_bytes s + int (length payload) \<le> max_outgoing_bytes"
    and "length (outgoing_transfers s) < max_outgoing_transfers" "512 \<le> mtu"
  shows "outgoing_inv (snd (enqueue_transfer mtu ty payload s))"
proof -
  let ?s = "snd (enqueue_transfer mtu ty payload s)" and ?a = "next_transfer s"
  note f = enqueue_fields [where mtu = mtu and ty = ty and payload = payload and s = s]
  have fresh: "?a \<notin> set (outgoing_transfers s)" "?a \<notin> set (transfer_queue s)"
    using s by (auto simp: outgoing_inv_def transfer_ok_def)
  have old: "transfer_store ?s b = transfer_store s b" if "b \<in> set (outgoing_transfers s)" for b
    using that fresh by (intro f(12)) auto
  have count: "0 < t_chunk_count (transfer_store ?s ?a)"
    using assms(4) by (auto simp: f intro!: ceil_div_pos)
  have none: "unacknowledged s ?a = 0"
  proof -
    have "p_transfer p \<noteq> ?a" if "(key, p) \<in> set (pending_reliable s)" for key p
      using s that fresh(1) by (metis map_of_is_SomeI outgoing_inv_def wf_maps_def)
    then have "unacknowledged s ?a = alist_sum (\<lambda>_. 0) (pending_reliable s)"
      unfolding unacknowledged_def by (intro alist_sum_cong) auto
    then show ?thesis
      by (simp add: alist_sum_def split_def)
  qed
  have "transfer_ok ?s b" if "b \<in> set (outgoing_transfers s)" for b
    using s that fresh old [OF that]
    by (auto simp: outgoing_inv_def transfer_ok_def f unsent_def unacknowledged_def)
  moreover have "transfer_ok ?s ?a"
    using count none by (simp add: transfer_ok_def f unsent_def unacknowledged_def)
  moreover have "outgoing_sum ?s = outgoing_sum s + int (length payload)"
    using old by (simp add: outgoing_sum_def f cong: map_cong)
  ultimately show ?thesis
    using s assms(2,3) fresh by (auto simp: outgoing_inv_def f wf_maps_def)
qed

interpretation outgoing: client_contract outgoing_inv
proof
  fix s a as clk
  assume "outgoing_inv s" "transfer_queue s = a # as"
  from outgoing_inv_frame [OF outgoing_flush [OF this] flush_step_core]
  show "outgoing_inv (snd (flush_step clk a s))" .
next
  fix s key p t
  assume s: "outgoing_inv s" and p: "map_of (pending_reliable s) key = Some p"
  let ?s = "s\<lparr>pending_reliable := AList.update key (p\<lparr>p_attempts := p_attempts p + 1, p_last_sent_at := t\<rparr>) (pending_reliable s)\<rparr>"
  have dist: "distinct (map fst (pending_reliable s))"
    using s by (simp add: outgoing_inv_def wf_maps_def)
  have "unacknowledged ?s a = unacknowledged s a" for a
    using alist_sum_update [OF dist] p by (simp add: unacknowledged_def)
  moreover have "unsent ?s a = unsent s a" for a
    by (simp add: unsent_def)
  ultimately have "transfer_ok ?s a \<longleftrightarrow> transfer_ok s a" for a
    by (simp add: transfer_ok_def)
  with s p show "outgoing_inv ?s"
    by (auto simp: outgoing_inv_def wf_maps_def alist_keys AList.update_conv' outgoing_sum_def split: if_splits)
next
  fix s m clk
  assume "outgoing_inv s"
  then show "outgoing_inv (snd (receive_reliable_ordered clk m s))"
    by (rule keepsD [OF outgoing_receive.keeps_receive])
next
  fix s
  assume "outgoing_inv s"
  then show "outgoing_inv (s\<lparr>withheld := [], expected_sequences := [], send_sequences := []\<rparr>)"
    by (rule outgoing_irrelevant) (use outgoing_wf [OF \<open>outgoing_inv s\<close>] in \<open>simp_all add: wf_maps_def\<close>)
qed (auto simp: outgoing_inv_frame outgoing_receive.receive_drop outgoing_acknowledge outgoing_wf outgoing_enqueue,
     auto simp: outgoing_inv_def wf_maps_def new_client_def outgoing_sum_def max_outgoing_bytes_def reject_reliable_eq)

section \<open>Settled transfers\<close>

fun settled_transfer :: "client_output \<Rightarrow> nat" where
  "settled_transfer (Transfer_Resolved a) = a"
| "settled_transfer (Transfer_Rejected a e) = a"
| "settled_transfer _ = 0"

definition done_transfer :: "client \<Rightarrow> nat \<Rightarrow> bool" where
  "done_transfer s a \<longleftrightarrow> unsent s a = 0 \<and> t_remaining (transfer_store s a) = 0"

definition transfers_inv :: "client \<Rightarrow> bool" where
  "transfers_inv s \<longleftrightarrow> outgoing_inv s \<and> distinct (outgoing_transfers s @ map settled_transfer (settled s))
     \<and> set (outgoing_transfers s @ map settled_transfer (settled s)) = {0..<next_transfer s}
     \<and> (\<forall>a. Transfer_Resolved a \<in> set (settled s) \<longrightarrow> done_transfer s a)"

text \<open>A change of the open transfers and what it settles, that touches no settled one.\<close>

lemma settle_step:
  assumes s: "transfers_inv s" and out: "outgoing_inv s'"
    and parts: "distinct (outgoing_transfers s' @ map settled_transfer (settled s'))"
      "set (outgoing_transfers s' @ map settled_transfer (settled s')) = {0..<next_transfer s'}"
    and new: "\<And>a. Transfer_Resolved a \<in> set (settled s') \<Longrightarrow> Transfer_Resolved a \<in> set (settled s) \<or> done_transfer s' a"
    and store: "\<And>a. a \<notin> set (outgoing_transfers s) \<Longrightarrow> a < next_transfer s \<Longrightarrow> transfer_store s' a = transfer_store s a"
  shows "transfers_inv s'"
proof -
  have "done_transfer s' a" if r: "Transfer_Resolved a \<in> set (settled s')" for a
  proof (cases "Transfer_Resolved a \<in> set (settled s)")
    case True
    then have "a \<in> settled_transfer ` set (settled s)"
      by force
    with s have "a \<notin> set (outgoing_transfers s)" "a < next_transfer s"
      by (auto simp: transfers_inv_def)
    with s True store [of a] show ?thesis
      by (simp add: transfers_inv_def done_transfer_def unsent_def)
  next
    case False
    with new [OF r] show ?thesis by simp
  qed
  with out parts show ?thesis
    by (simp add: transfers_inv_def)
qed

lemma settle_same:
  assumes "transfers_inv s" "outgoing_inv s'" "outgoing_transfers s' = outgoing_transfers s" "settled s' = settled s"
    and "next_transfer s' = next_transfer s"
    and "\<And>a. a \<notin> set (outgoing_transfers s) \<Longrightarrow> transfer_store s' a = transfer_store s a"
  shows "transfers_inv s'"
  using assms(1) by (intro settle_step [OF assms(1,2)]) (simp_all add: assms(3-6) transfers_inv_def)

lemma settle_frame: "transfers_inv s \<Longrightarrow> same_core s s' \<Longrightarrow> transfers_inv s'"
  by (rule settle_same) (auto simp: same_core_def transfers_inv_def intro: outgoing_inv_frame)

interpretation settle_receive: receive_contract transfers_inv
proof
  fix s key g n chunk
  assume s: "transfers_inv s" and "chunk_accepted s key g n chunk"
  then show "transfers_inv (store_chunk key g n chunk s)"
    by (intro settle_same [OF s] outgoing_receive.receive_store) (simp_all add: transfers_inv_def store_chunk_def settled_def)
next
  fix s key g
  assume s: "transfers_inv s" and "map_of (fragments s) key = Some g"
  then show "transfers_inv (delete_fragment_group key g s)"
    by (intro settle_same [OF s] outgoing_receive.receive_drop) (simp_all add: transfers_inv_def delete_fragment_group_def settled_def)
next
  fix s h x
  assume s: "transfers_inv s"
  then show "transfers_inv (s\<lparr>withheld := h\<rparr>)"
    by (intro settle_same [OF s] outgoing_receive.receive_hold) (simp_all add: transfers_inv_def settled_def)
  from s show "transfers_inv (s\<lparr>expected_sequences := x, withheld := h\<rparr>)"
    by (intro settle_same [OF s] outgoing_receive.receive_expect) (simp_all add: transfers_inv_def settled_def)
qed (rule settle_frame)

lemma acknowledge_cases:
  assumes s: "outgoing_inv s"
  obtains (kept) a u where "a \<in> set (outgoing_transfers s)" "outgoing_transfers (acknowledge ty q s) = outgoing_transfers s"
      "settled (acknowledge ty q s) = settled s" "next_transfer (acknowledge ty q s) = next_transfer s"
      "transfer_store (acknowledge ty q s) = (transfer_store s)(a := u)"
  | (same) "acknowledge ty q s = s"
  | (resolved) a u where "a \<in> set (outgoing_transfers s)" "outgoing_transfers (acknowledge ty q s) = filter (\<lambda>b. b \<noteq> a) (outgoing_transfers s)"
      "settled (acknowledge ty q s) = settled s @ [Transfer_Resolved a]" "next_transfer (acknowledge ty q s) = next_transfer s"
      "transfer_store (acknowledge ty q s) = (transfer_store s)(a := u)" "done_transfer (acknowledge ty q s) a"
proof (cases "map_of (pending_reliable s) (ty, q)")
  case (Some p)
  let ?a = "p_transfer p"
  have out: "?a \<in> set (outgoing_transfers s)" and dist: "distinct (map fst (pending_reliable s))"
    using s Some by (auto simp: outgoing_inv_def wf_maps_def)
  then have ok: "transfer_ok s ?a"
    using s by (simp add: outgoing_inv_def)
  have "alist_sum (\<lambda>p. if p_transfer p = ?a then 1 else 0) (AList.delete (ty, q) (pending_reliable s)) = unacknowledged s ?a - 1"
    using alist_sum_delete [OF dist, of "\<lambda>p. if p_transfer p = ?a then 1 else 0" "(ty, q)"] Some by (simp add: unacknowledged_def)
  moreover have "0 \<le> alist_sum (\<lambda>p. if p_transfer p = ?a then 1 else 0) ps" for ps :: "((nat \<times> nat) \<times> pending_reliable_message) list"
    unfolding alist_sum_def by (rule sum_list_nonneg) auto
  ultimately have pos: "0 < unacknowledged s ?a"
    by (metis diff_ge_0_iff_ge int_one_le_iff_zero_less)
  show ?thesis
  proof (cases "p_type p = ty \<and> t_remaining (transfer_store s ?a) = 1")
    case True
    with Some out transfer_complete [OF ok _ pos] show ?thesis
      by (intro resolved [of ?a]) (simp_all add: acknowledge_def Let_def complete_transfer_def settled_emit,
        auto simp: emit_def done_transfer_def unsent_def settled_def)
  next
    case False
    with Some out show ?thesis
      by (intro kept [of ?a "transfer_store (acknowledge ty q s) ?a"])
        (auto simp: acknowledge_def Let_def settled_def fun_eq_iff)
  qed
qed (simp add: acknowledge_def same)

lemma settle_acknowledge:
  assumes s: "transfers_inv s"
  shows "transfers_inv (acknowledge ty q s)"
proof -
  have out: "outgoing_inv s" and ack: "outgoing_inv (acknowledge ty q s)"
    using s outgoing_acknowledge by (simp_all add: transfers_inv_def)
  from out show ?thesis
  proof (cases rule: acknowledge_cases [of _ ty q])
    case (kept a u)
    with s show ?thesis
      by (auto intro!: settle_same [OF s ack])
  next
    case (resolved a u)
    then show ?thesis
      using s by (intro settle_step [OF s ack]) (auto simp: transfers_inv_def)
  qed (simp add: s)
qed

interpretation settle: client_contract transfers_inv
proof
  fix s e
  assume s: "transfers_inv s"
  then have "outgoing_inv (reject_reliable e s)"
    by (intro outgoing.reject) (simp add: transfers_inv_def)
  moreover have "settled (reject_reliable e s) = settled s @ map (\<lambda>t. Transfer_Rejected t e) (outgoing_transfers s)"
    by (simp add: settled_def reject_reliable_eq filter_map comp_def)
  ultimately show "transfers_inv (reject_reliable e s)"
    using s by (intro settle_step [OF s]) (auto simp: transfers_inv_def comp_def, auto simp: reject_reliable_eq)
next
  fix s ty and mtu :: nat and payload :: "byte list"
  assume s: "transfers_inv s" and lim: "outgoing_bytes s + int (length payload) \<le> max_outgoing_bytes"
    "length (outgoing_transfers s) < max_outgoing_transfers" "512 \<le> mtu"
  let ?s = "snd (enqueue_transfer mtu ty payload s)"
  note f = enqueue_fields [where mtu = mtu and ty = ty and payload = payload and s = s]
  have "settled ?s = settled s"
    by (simp add: enqueue_transfer_def next_fragment_group_def Let_def settled_def)
  moreover have "outgoing_inv ?s"
    using s lim by (intro outgoing_enqueue) (simp_all add: transfers_inv_def)
  ultimately show "transfers_inv ?s"
    using s by (intro settle_step [OF s]) (auto simp: f transfers_inv_def)
next
  fix s a as clk
  assume s: "transfers_inv s" and q: "transfer_queue s = a # as"
  have a: "a \<in> set (outgoing_transfers s)"
    using s q by (auto simp: transfers_inv_def outgoing_inv_def)
  have "transfers_inv (flush_state clk a s)"
    using s a by (intro settle_same [OF s] outgoing_flush [OF _ q]) (auto simp: transfers_inv_def flush_state_def Let_def settled_def)
  then show "transfers_inv (snd (flush_step clk a s))"
    by (rule settle_frame) (rule flush_step_core)
next
  fix s key p t
  assume s: "transfers_inv s" and p: "map_of (pending_reliable s) key = Some p" "p_attempts p < max_send_attempts"
  then show "transfers_inv (s\<lparr>pending_reliable := AList.update key (p\<lparr>p_attempts := p_attempts p + 1, p_last_sent_at := t\<rparr>) (pending_reliable s)\<rparr>)"
    by (intro settle_same [OF s] outgoing.resend_one) (simp_all add: transfers_inv_def settled_def)
next
  fix s m clk
  assume "transfers_inv s"
  then show "transfers_inv (snd (receive_reliable_ordered clk m s))"
    by (rule keepsD [OF settle_receive.keeps_receive])
next
  fix s
  assume s: "transfers_inv s"
  then show "transfers_inv (s\<lparr>withheld := [], expected_sequences := [], send_sequences := []\<rparr>)"
    by (intro settle_same [OF s] outgoing.forget) (simp_all add: transfers_inv_def settled_def)
next
  fix now
  show "transfers_inv (new_client now)"
    using outgoing.initial [of now] by (auto simp: transfers_inv_def new_client_def settled_def)
qed (auto simp: settle_frame settle_receive.receive_drop settle_acknowledge, auto simp: transfers_inv_def outgoing_wf)

section \<open>Incoming fragments\<close>

definition chunk_size :: "fragment_group \<Rightarrow> nat \<Rightarrow> nat" where
  "chunk_size g n = min (g_chunk_byte_size g) (g_total_bytes g - n * g_chunk_byte_size g)"

text \<open>A group holds each chunk once, under a number below the chunk count and with exactly its size.\<close>

definition group_ok :: "fragment_group \<Rightarrow> bool" where
  "group_ok g \<longleftrightarrow> g_total_bytes g \<le> max_reassembled_bytes \<and> 1 \<le> g_chunk_byte_size g
     \<and> distinct (map fst (g_chunks g))
     \<and> (\<forall>n c. map_of (g_chunks g) n = Some c \<longrightarrow>
          n < ceil_div (g_total_bytes g) (g_chunk_byte_size g) \<and> length c = chunk_size g n)"

definition group_bytes :: "fragment_group \<Rightarrow> int" where
  "group_bytes g = alist_sum (\<lambda>c. int (length c)) (g_chunks g)"

definition fragment_inv :: "client \<Rightarrow> bool" where
  "fragment_inv s \<longleftrightarrow> wf_maps s \<and> length (fragments s) \<le> max_fragment_groups
     \<and> fragment_bytes s = alist_sum group_bytes (fragments s) \<and> fragment_bytes s \<le> max_fragment_bytes
     \<and> (\<forall>key g. map_of (fragments s) key = Some g \<longrightarrow> group_ok g)"

lemma fragment_inv_frame: "fragment_inv s \<Longrightarrow> same_core s s' \<Longrightarrow> fragment_inv s'"
  by (simp add: fragment_inv_def wf_maps_def same_core_def)

lemma fragment_irrelevant:
  "fragment_inv s \<Longrightarrow> wf_maps s' \<Longrightarrow> fragments s' = fragments s \<Longrightarrow> fragment_bytes s' = fragment_bytes s \<Longrightarrow> fragment_inv s'"
  by (simp add: fragment_inv_def)

lemma group_bytes_nonneg: "0 \<le> group_bytes g"
  unfolding group_bytes_def alist_sum_def by (rule sum_list_nonneg) auto

lemma group_ok_add:
  assumes "group_ok g" "n < ceil_div (g_total_bytes g) (g_chunk_byte_size g)" "length chunk = chunk_size g n"
  shows "group_ok (add_chunk n chunk g)"
    "group_bytes (add_chunk n chunk g) = group_bytes g + (if map_of (g_chunks g) n = None then int (length chunk) else 0)"
proof -
  have new: "map_of (g_chunks g) n = None \<Longrightarrow> n \<notin> fst ` set (g_chunks g)"
    by (simp add: map_of_eq_None_iff)
  show "group_ok (add_chunk n chunk g)"
    using assms new by (auto simp: group_ok_def add_chunk_def chunk_size_def map_add_def split: option.splits)
  show "group_bytes (add_chunk n chunk g) = group_bytes g + (if map_of (g_chunks g) n = None then int (length chunk) else 0)"
    by (auto simp: group_bytes_def add_chunk_def alist_sum_def)
qed

lemma fragment_store:
  assumes s: "fragment_inv s" and c: "chunk_accepted s key g n chunk"
  shows "fragment_inv (store_chunk key g n chunk s)"
proof -
  let ?g = "add_chunk n chunk g"
  have dist: "distinct (map fst (fragments s))"
    using s by (simp add: fragment_inv_def wf_maps_def)
  have g: "group_ok g"
    using s c by (cases key) (auto simp: fragment_inv_def chunk_accepted_def group_ok_def)
  have size: "length chunk = chunk_size g n" "n < ceil_div (g_total_bytes g) (g_chunk_byte_size g)"
    using c by (simp_all add: chunk_accepted_def chunk_size_def)
  note add = group_ok_add [OF g size(2,1)]
  have old: "(case map_of (fragments s) key of None \<Rightarrow> 0 | Some h \<Rightarrow> group_bytes h) = group_bytes g"
    using c by (auto simp: chunk_accepted_def group_bytes_def)
  have sum: "alist_sum group_bytes (AList.update key ?g (fragments s))
      = alist_sum group_bytes (fragments s) + (if map_of (g_chunks g) n = None then int (length chunk) else 0)"
    using alist_sum_update [OF dist, of group_bytes key ?g] old add(2) by simp
  have len: "length (AList.update key ?g (fragments s)) \<le> max_fragment_groups"
    using s c by (auto simp: length_update fragment_inv_def chunk_accepted_def)
  have groups: "group_ok h" if "map_of (AList.update key ?g (fragments s)) k = Some h" for k h
    using that s add(1) by (cases k) (auto simp: AList.update_conv' fragment_inv_def split: if_splits)
  have mem: "fragment_bytes (store_chunk key g n chunk s) \<le> max_fragment_bytes"
    using s c by (auto simp: store_chunk_def fragment_inv_def chunk_accepted_def)
  have "wf_maps (store_chunk key g n chunk s)"
    using s by (intro wf_maps_store) (simp add: fragment_inv_def)
  with sum len groups mem s show ?thesis
    by (auto simp: fragment_inv_def store_chunk_def)
qed

lemma fragment_drop:
  assumes s: "fragment_inv s" and g: "map_of (fragments s) key = Some g"
  shows "fragment_inv (delete_fragment_group key g s)"
proof -
  have dist: "distinct (map fst (fragments s))"
    using s by (simp add: fragment_inv_def wf_maps_def)
  have sum: "alist_sum group_bytes (AList.delete key (fragments s)) = alist_sum group_bytes (fragments s) - group_bytes g"
    using alist_sum_delete [OF dist] g by simp
  have groups: "group_ok h" if "map_of (AList.delete key (fragments s)) k = Some h" for k h
    using that s by (cases k) (auto simp: AList.delete_conv' fragment_inv_def split: if_splits)
  have len: "length (AList.delete key (fragments s)) \<le> max_fragment_groups"
    using s length_delete_le [of key "fragments s"] by (simp add: fragment_inv_def)
  have "wf_maps (delete_fragment_group key g s)"
    using s g by (intro wf_maps_drop) (simp_all add: fragment_inv_def)
  with sum groups len s g group_bytes_nonneg [of g] show ?thesis
    by (auto simp: fragment_inv_def delete_fragment_group_present group_bytes_def)
qed

lemma fragment_wf: "fragment_inv s \<Longrightarrow> wf_maps s"
  by (simp add: fragment_inv_def)

interpretation fragment_receive: receive_contract fragment_inv
proof
  fix s h x
  assume s: "fragment_inv s"
  then show "fragment_inv (s\<lparr>withheld := h\<rparr>)" "fragment_inv (s\<lparr>expected_sequences := x, withheld := h\<rparr>)"
    using fragment_wf [OF s] by (auto intro!: fragment_irrelevant [OF s] simp: wf_maps_def)
qed (auto simp: fragment_inv_frame fragment_store fragment_drop)

lemma fragment_acknowledge:
  assumes "fragment_inv s"
  shows "fragment_inv (acknowledge ty q s)"
  using fragment_wf [OF assms]
  by (intro fragment_irrelevant [OF assms])
    (auto simp: acknowledge_def complete_transfer_def emit_def Let_def wf_maps_def alist_keys split: option.splits)

interpretation fragment: client_contract fragment_inv
proof
  fix s a as clk
  assume s: "fragment_inv s"
  have "fragment_inv (flush_state clk a s)"
    using fragment_wf [OF s] by (intro fragment_irrelevant [OF s]) (auto simp: flush_state_def Let_def wf_maps_def alist_keys)
  then show "fragment_inv (snd (flush_step clk a s))"
    by (rule fragment_inv_frame) (rule flush_step_core)
next
  fix s ty mtu and payload :: "byte list"
  assume s: "fragment_inv s"
  note f = enqueue_fields [where mtu = mtu and ty = ty and payload = payload and s = s]
  show "fragment_inv (snd (enqueue_transfer mtu ty payload s))"
    using fragment_wf [OF s] by (intro fragment_irrelevant [OF s]) (simp_all add: f wf_maps_def)
next
  fix s m clk
  assume "fragment_inv s"
  then show "fragment_inv (snd (receive_reliable_ordered clk m s))"
    by (rule keepsD [OF fragment_receive.keeps_receive])
qed (auto simp: fragment_inv_frame fragment_drop fragment_acknowledge fragment_wf,
     auto simp: fragment_inv_def wf_maps_def alist_keys new_client_def max_fragment_bytes_def reject_reliable_eq)

end
