(* ===== verification/Lidgren_Ordering.thy ===== *)
theory Lidgren_Ordering
  imports Lidgren_Invariants
begin

text \<open>
  In-order delivery on a reliable channel. The specification knows which messages of the peer's
  stream have been accepted: \<open>first_missing\<close> is the first that has not, and everything before it has
  been delivered. \<open>channel_rel\<close> relates the client's sequence number and withheld messages, both
  modulo 1024, to that view, and \<open>receive_step\<close> is the simulation: one arrival of the code is one
  \<open>accept\<close> of the specification, and delivers exactly the messages that become complete.
\<close>

declare map_of_eq_Some_iff [simp del]

section \<open>Sequence numbers\<close>

lemma relative_sequence_range:
  "- 512 \<le> relative_sequence q e" "relative_sequence q e \<le> 511"
  using pos_mod_bound [of 1024 "int q - int e + 1536"] pos_mod_sign [of 1024 "int q - int e + 1536"]
  by (simp_all add: relative_sequence_def sequence_modulus_def)

text \<open>Within half the modulus, the relative sequence number is the distance in the stream.\<close>

lemma relative_sequence_stream:
  assumes "n \<le> k + 512" "k < n + 512"
  shows "relative_sequence (k mod sequence_modulus) (n mod sequence_modulus) = int k - int n"
proof -
  have "(int (k mod 1024) - int (n mod 1024) + 1536) mod 1024 = (int k - int n + 1536) mod 1024"
    unfolding zmod_int of_nat_numeral by (metis mod_add_left_eq mod_diff_eq)
  also have "\<dots> = (int k - int n + 512) mod 1024"
    using mod_add_self2 [of "int k - int n + 512" 1024] by (simp add: algebra_simps)
  also have "\<dots> = int k - int n + 512"
    using assms by (intro mod_pos_pos_trivial) simp_all
  finally show ?thesis
    unfolding relative_sequence_def sequence_modulus_def by (simp add: add.commute)
qed

lemma mod_inj_window: "n \<le> j \<Longrightarrow> j < n + 1024 \<Longrightarrow> n \<le> k \<Longrightarrow> k < n + 1024 \<Longrightarrow> j mod 1024 = k mod (1024::nat) \<Longrightarrow> j = k"
proof (induction j k rule: linorder_wlog)
  case (le j k)
  then have "1024 dvd k - j"
    by (metis mod_eq_dvd_iff_nat)
  with le show ?case
    by (auto dest: dvd_imp_le)
qed (auto dest: sym)

lemma window_mod_eq:
  "j \<in> {n..n + 64} \<Longrightarrow> k \<in> {n..n + 64} \<Longrightarrow> j mod sequence_modulus = k mod sequence_modulus \<longleftrightarrow> j = k"
  unfolding sequence_modulus_def by (auto intro: mod_inj_window [of n])

section \<open>The stream of the peer\<close>

definition stream_message :: "(nat \<Rightarrow> byte list) \<Rightarrow> nat \<Rightarrow> nat \<Rightarrow> incoming_message" where
  "stream_message f ty k = \<lparr>in_fragmented = False, in_payload = f k, in_sequence = k mod sequence_modulus, in_type = ty\<rparr>"

definition first_missing :: "nat list \<Rightarrow> nat" where
  "first_missing R = length (takeWhile (\<lambda>m. m \<in> set R) [0..<Suc (length R)])"

definition accept :: "nat list \<Rightarrow> nat \<Rightarrow> nat list" where
  "accept R k = (if k \<le> first_missing R + 64 then k # R else R)"

text \<open>An arrival that is not half the sequence space away.\<close>

definition near :: "nat list \<Rightarrow> nat \<Rightarrow> bool" where
  "near R k \<longleftrightarrow> first_missing R \<le> k + 512 \<and> k < first_missing R + 512"

lemma first_missing_props: "first_missing R \<notin> set R" "m < first_missing R \<Longrightarrow> m \<in> set R"
proof -
  let ?xs = "[0..<Suc (length R)]"
  have less: "first_missing R < length ?xs"
  proof (rule ccontr)
    assume "\<not> first_missing R < length ?xs"
    then have "takeWhile (\<lambda>m. m \<in> set R) ?xs = ?xs"
      unfolding first_missing_def by (metis length_takeWhile_le le_antisym not_less takeWhile_eq_take take_all)
    then have "set ?xs \<subseteq> set R"
      by (metis subsetI set_takeWhileD)
    from card_mono [OF _ this] card_length [of R] show False
      by simp
  qed
  have "?xs ! first_missing R = first_missing R"
    using less by (simp del: upt_Suc)
  with nth_length_takeWhile [of "\<lambda>m. m \<in> set R" ?xs] less show "first_missing R \<notin> set R"
    by (simp add: first_missing_def del: upt_Suc)
  assume m: "m < first_missing R"
  then have "takeWhile (\<lambda>m. m \<in> set R) ?xs ! m = ?xs ! m"
    unfolding first_missing_def by (rule takeWhile_nth)
  moreover have "?xs ! m = m"
    using m less by (simp del: upt_Suc)
  ultimately show "m \<in> set R"
    using nth_mem [of m "takeWhile (\<lambda>m. m \<in> set R) ?xs"] m set_takeWhileD [of m "\<lambda>m. m \<in> set R" ?xs]
    unfolding first_missing_def by metis
qed

lemma first_missing_eq: "n \<notin> set R \<Longrightarrow> (\<And>m. m < n \<Longrightarrow> m \<in> set R) \<Longrightarrow> first_missing R = n"
  by (metis first_missing_props linorder_neqE_nat)

section \<open>The withheld messages\<close>

text \<open>The withheld map holds exactly the messages of \<open>X\<close>.\<close>

definition held_ok :: "(nat \<Rightarrow> byte list) \<Rightarrow> nat \<Rightarrow> nat set \<Rightarrow> (nat \<times> incoming_message) list \<Rightarrow> bool" where
  "held_ok f ty X held \<longleftrightarrow> distinct (map fst held)
     \<and> (\<forall>q m. map_of held q = Some m \<longleftrightarrow> (\<exists>k\<in>X. q = k mod sequence_modulus \<and> m = stream_message f ty k))"

lemma held_get:
  assumes "held_ok f ty X held" "X \<subseteq> {n..n + 64}" "n \<le> k" "k \<le> n + 64"
  shows "map_of held (k mod sequence_modulus) = (if k \<in> X then Some (stream_message f ty k) else None)"
proof (cases "k \<in> X")
  case True
  then show ?thesis
    using assms(1) by (auto simp: held_ok_def)
next
  case False
  have "map_of held (k mod sequence_modulus) \<noteq> Some m" for m
  proof
    assume "map_of held (k mod sequence_modulus) = Some m"
    then obtain j where j: "j \<in> X" "k mod sequence_modulus = j mod sequence_modulus"
      using assms(1) by (auto simp: held_ok_def)
    moreover from j(1) assms(2-4) have "k \<in> {n..n + 64}" "j \<in> {n..n + 64}"
      by auto
    ultimately have "k = j"
      by (simp only: window_mod_eq)
    with j(1) False show False by simp
  qed
  with False show ?thesis
    by auto
qed

lemma held_delete:
  assumes "held_ok f ty X held" "X \<subseteq> {n..n + 64}" "n \<in> X"
  shows "held_ok f ty (X - {n}) (AList.delete (n mod sequence_modulus) held)"
proof -
  have neq: "k mod sequence_modulus \<noteq> n mod sequence_modulus" if "k \<in> X - {n}" for k
  proof -
    have "k \<in> {n..n + 64}" "n \<in> {n..n + 64}" "k \<noteq> n"
      using that assms(2) by auto
    then show ?thesis
      by (simp only: window_mod_eq simp_thms)
  qed
  have "(\<exists>k\<in>X - {n}. q = k mod sequence_modulus \<and> m = stream_message f ty k)
      \<longleftrightarrow> q \<noteq> n mod sequence_modulus \<and> (\<exists>k\<in>X. q = k mod sequence_modulus \<and> m = stream_message f ty k)" for q m
  proof
    assume "\<exists>k\<in>X - {n}. q = k mod sequence_modulus \<and> m = stream_message f ty k"
    then obtain k where "k \<in> X - {n}" "q = k mod sequence_modulus" "m = stream_message f ty k"
      by blast
    with neq [of k] show "q \<noteq> n mod sequence_modulus \<and> (\<exists>k\<in>X. q = k mod sequence_modulus \<and> m = stream_message f ty k)"
      by auto
  next
    assume "q \<noteq> n mod sequence_modulus \<and> (\<exists>k\<in>X. q = k mod sequence_modulus \<and> m = stream_message f ty k)"
    then obtain k where "k \<in> X" "k \<noteq> n" "q = k mod sequence_modulus" "m = stream_message f ty k"
      by auto
    then show "\<exists>k\<in>X - {n}. q = k mod sequence_modulus \<and> m = stream_message f ty k"
      by (intro bexI [of _ k]) simp_all
  qed
  moreover have "map_of (AList.delete (n mod sequence_modulus) held) q = Some m
      \<longleftrightarrow> q \<noteq> n mod sequence_modulus \<and> map_of held q = Some m" for q m
    by (simp add: AList.delete_conv')
  ultimately show ?thesis
    using assms(1) by (simp add: held_ok_def AList.distinct_delete)
qed

lemma held_update:
  assumes "held_ok f ty X held" "X \<subseteq> {n..n + 64}" "n \<le> k" "k \<le> n + 64"
  shows "held_ok f ty (insert k X) (AList.update (k mod sequence_modulus) (stream_message f ty k) held)"
proof -
  have eq: "j = k" if "j \<in> X" "j mod sequence_modulus = k mod sequence_modulus" for j
  proof -
    have "j \<in> {n..n + 64}" "k \<in> {n..n + 64}"
      using that assms(2-4) by auto
    then show ?thesis
      using that(2) by (simp only: window_mod_eq)
  qed
  have "(\<exists>j\<in>insert k X. q = j mod sequence_modulus \<and> m = stream_message f ty j)
      \<longleftrightarrow> (if q = k mod sequence_modulus then m = stream_message f ty k
          else \<exists>j\<in>X. q = j mod sequence_modulus \<and> m = stream_message f ty j)" for q m
    using eq by auto
  moreover have "map_of (AList.update (k mod sequence_modulus) (stream_message f ty k) held) q = Some m
      \<longleftrightarrow> (if q = k mod sequence_modulus then m = stream_message f ty k else map_of held q = Some m)" for q m
    by (auto simp: AList.update_conv')
  ultimately show ?thesis
    using assms(1) by (simp add: held_ok_def AList.distinct_update)
qed

lemma held_length:
  assumes "held_ok f ty X held" "X \<subseteq> {n..n + 64}"
  shows "length held = card X"
proof -
  have "dom (map_of held) = (\<lambda>k. k mod sequence_modulus) ` X"
    using assms(1) by (fastforce simp: held_ok_def dom_def)
  moreover have "inj_on (\<lambda>k. k mod sequence_modulus) X"
    using assms(2) by (meson inj_onI subsetD window_mod_eq)
  moreover have "card (dom (map_of held)) = length held"
    using assms(1) distinct_card [of "map fst held"] by (simp add: held_ok_def dom_map_of_conv_image_fst)
  ultimately show ?thesis
    by (metis card_image)
qed

section \<open>Releasing the withheld messages\<close>

definition deliveries :: "(nat \<Rightarrow> byte list) \<Rightarrow> nat \<Rightarrow> nat \<Rightarrow> client_output list" where
  "deliveries f n n' = map (\<lambda>k. Payload_Delivered (f k)) [n..<n']"

lemma release_stream: "release clk (stream_message f ty k) s = (Inr (), emit (Payload_Delivered (f k)) s)"
  by (simp add: release_def stream_message_def deliver_def lid_modify_def)

lemma release_withheld_run:
  assumes "held_ok f ty X (map_get (withheld s) ty [])" "X \<subseteq> {n..n + 64}" "card X \<le> fuel"
  shows "\<exists>n' h. n \<le> n' \<and> n' \<notin> X \<and> {n..<n'} \<subseteq> X
    \<and> release_withheld fuel clk ty (n mod sequence_modulus) s
      = (Inr (n' mod sequence_modulus), s\<lparr>withheld := h, effects := effects s @ deliveries f n n'\<rparr>)
    \<and> held_ok f ty (X \<inter> {n'..}) (map_get h ty [])"
  using assms
proof (induction fuel arbitrary: s n X)
  case 0
  then have "X = {}"
    using finite_subset by fastforce
  then have "n \<le> n \<and> n \<notin> X \<and> {n..<n} \<subseteq> X
    \<and> release_withheld 0 clk ty (n mod sequence_modulus) s
      = (Inr (n mod sequence_modulus), s\<lparr>withheld := withheld s, effects := effects s @ deliveries f n n\<rparr>)
    \<and> held_ok f ty (X \<inter> {n..}) (map_get (withheld s) ty [])"
    using 0 by (simp add: lid_defs deliveries_def)
  then show ?case
    by blast
next
  case (Suc fuel)
  let ?held = "map_get (withheld s) ty []"
  have get: "map_of ?held (n mod sequence_modulus) = (if n \<in> X then Some (stream_message f ty n) else None)"
    using Suc.prems by (intro held_get) auto
  show ?case
  proof (cases "n \<in> X")
    case False
    have "X \<inter> {n..} = X"
      using Suc.prems(2) by auto
    with False have "n \<le> n \<and> n \<notin> X \<and> {n..<n} \<subseteq> X
      \<and> release_withheld (Suc fuel) clk ty (n mod sequence_modulus) s
        = (Inr (n mod sequence_modulus), s\<lparr>withheld := withheld s, effects := effects s @ deliveries f n n\<rparr>)
      \<and> held_ok f ty (X \<inter> {n..}) ?held"
      using Suc.prems(1) by (simp add: lid_defs deliveries_def get Let_def)
    then show ?thesis
      by blast
  next
    case True
    let ?s = "s\<lparr>withheld := AList.update ty (AList.delete (n mod sequence_modulus) ?held) (withheld s),
      effects := effects s @ [Payload_Delivered (f n)]\<rparr>"
    have held: "map_get (withheld ?s) ty [] = AList.delete (n mod sequence_modulus) ?held"
      by (simp add: map_get_def AList.update_conv')
    have h1: "held_ok f ty (X - {n}) (map_get (withheld ?s) ty [])"
      unfolding held using Suc.prems(1,2) True by (rule held_delete)
    have h2: "X - {n} \<subseteq> {Suc n..Suc n + 64}"
      using Suc.prems(2) by (auto simp: subset_eq le_less_Suc_eq Suc_le_eq order_less_le)
    have fin: "finite X"
      using Suc.prems(2) finite_subset by blast
    have h3: "card (X - {n}) \<le> fuel"
      using Suc.prems(3) True fin by simp
    from Suc.IH [OF h1 h2 h3] obtain n' h where IH: "Suc n \<le> n'" "n' \<notin> X - {n}" "{Suc n..<n'} \<subseteq> X - {n}"
      "release_withheld fuel clk ty (Suc n mod sequence_modulus) ?s
        = (Inr (n' mod sequence_modulus), ?s\<lparr>withheld := h, effects := effects ?s @ deliveries f (Suc n) n'\<rparr>)"
      "held_ok f ty ((X - {n}) \<inter> {n'..}) (map_get h ty [])"
      by blast
    have next_seq: "(n mod sequence_modulus + 1) mod sequence_modulus = Suc n mod sequence_modulus"
      by (simp add: mod_simps)
    have "deliveries f n n' = Payload_Delivered (f n) # deliveries f (Suc n) n'"
      using IH(1) by (simp add: deliveries_def upt_rec)
    then have run: "release_withheld (Suc fuel) clk ty (n mod sequence_modulus) s
        = (Inr (n' mod sequence_modulus), s\<lparr>withheld := h, effects := effects s @ deliveries f n n'\<rparr>)"
      using True IH(4) unfolding release_withheld.simps next_seq lid_with_def lid_then_def lid_bind_def
      by (simp add: Let_def get lid_modify_def release_stream emit_def next_seq del: Suc_eq_plus1)
    have "m \<in> X" if "m \<in> {n..<n'}" for m
      using that True IH(3) by (cases "m = n") (auto simp: subset_eq)
    then have all: "{n..<n'} \<subseteq> X" ..
    have "(X - {n}) \<inter> {n'..} = X \<inter> {n'..}" "n' \<notin> X" "n \<le> n'"
      using IH(1,2) by auto
    with all run IH(5) show ?thesis
      by (intro exI [of _ n'] exI [of _ h]) simp
  qed
qed

text \<open>The fuel of \<open>receive_expected\<close>, the number of withheld messages, is always enough.\<close>

lemma release_withheld_enough:
  "distinct (map fst (map_get (withheld s) ty [])) \<Longrightarrow> length (map_get (withheld s) ty []) \<le> fuel \<Longrightarrow>
   (\<And>m t. withheld (snd (release clk m t)) = withheld t) \<Longrightarrow>
   release_withheld (fuel + k) clk ty n s = release_withheld fuel clk ty n s"
proof (induction fuel arbitrary: n s)
  case 0
  then have "map_get (withheld s) ty [] = []"
    by simp
  then show ?case
    by (cases k) (simp_all add: lid_defs)
next
  case (Suc fuel)
  let ?held = "map_get (withheld s) ty []"
  show ?case
  proof (cases "map_of ?held n")
    case None
    then show ?thesis
      by (simp add: lid_defs)
  next
    case (Some m)
    let ?s = "s\<lparr>withheld := AList.update ty (AList.delete n ?held) (withheld s)\<rparr>"
    obtain r s' where rel: "release clk m ?s = (r, s')"
      by (cases "release clk m ?s")
    have held: "map_get (withheld s') ty [] = AList.delete n ?held"
      using Suc.prems(3) [of m ?s] rel by (simp add: map_get_def AList.update_conv')
    have "length (AList.delete n ?held) < length ?held"
      using Some by (auto simp: AList.delete_eq dest: map_of_SomeD intro!: length_filter_less)
    then have "release_withheld (fuel + k) clk ty ((n + 1) mod sequence_modulus) s'
        = release_withheld fuel clk ty ((n + 1) mod sequence_modulus) s'"
      using Suc.prems by (intro Suc.IH) (simp_all add: held alist_keys)
    with Some rel show ?thesis
      by (cases r) (simp_all add: lid_defs)
  qed
qed

section \<open>The simulation\<close>

definition channel_rel :: "(nat \<Rightarrow> byte list) \<Rightarrow> nat \<Rightarrow> nat list \<Rightarrow> client \<Rightarrow> bool" where
  "channel_rel f ty R s \<longleftrightarrow>
     map_get (expected_sequences s) ty 0 = first_missing R mod sequence_modulus
     \<and> held_ok f ty {k \<in> set R. first_missing R < k} (map_get (withheld s) ty [])
     \<and> (\<forall>k\<in>set R. k \<le> first_missing R + 64)"

lemma send_acknowledgement_open:
  "socket s = Socket_Open \<Longrightarrow> \<not> closed s \<Longrightarrow>
   \<exists>ack. send_acknowledgement ty q s = (Inr (), emit (Datagram_Sent ack) s)"
  by (auto simp: send_acknowledgement_def send_message_def socket_send_def lid_defs)

lemma map_get_clean:
  "map_get (if map_of w ty = Some [] then AList.delete ty w else w) ty [] = map_get w ty []"
  by (simp add: map_get_def AList.delete_conv')

lemma receive_step:
  assumes rel: "channel_rel f ty R s" and near: "near R k" and open_: "socket s = Socket_Open" "\<not> closed s"
  shows "\<exists>s' ack. receive_reliable_ordered clk (stream_message f ty k) s = (Inr (), s')
    \<and> channel_rel f ty (accept R k) s' \<and> socket s' = Socket_Open \<and> \<not> closed s'
    \<and> effects s' = effects s @ Datagram_Sent ack # deliveries f (first_missing R) (first_missing (accept R k))"
proof -
  let ?n = "first_missing R" and ?X = "{k \<in> set R. first_missing R < k}"
  let ?held = "map_get (withheld s) ty []"
  obtain ack where ack: "send_acknowledgement ty (k mod sequence_modulus) s = (Inr (), emit (Datagram_Sent ack) s)"
    using send_acknowledgement_open [OF open_] by blast
  have e: "map_get (expected_sequences s) ty 0 = ?n mod sequence_modulus"
    and h: "held_ok f ty ?X ?held" and b: "\<forall>j\<in>set R. j \<le> ?n + 64"
    using rel by (simp_all add: channel_rel_def)
  have relative: "relative_sequence (k mod sequence_modulus) (?n mod sequence_modulus) = int k - int ?n"
    using near by (intro relative_sequence_stream) (simp_all add: near_def)
  have head: "receive_reliable_ordered clk (stream_message f ty k) s =
      (if int k < int ?n \<or> receive_window < int k - int ?n then (Inr (), emit (Datagram_Sent ack) s)
       else if int ?n < int k then (Inr (), withhold (stream_message f ty k) (emit (Datagram_Sent ack) s))
       else receive_expected clk (?n mod sequence_modulus) (stream_message f ty k) (emit (Datagram_Sent ack) s))"
    using ack e relative
    by (simp add: receive_reliable_ordered_def stream_message_def lid_defs emit_def)
  note sub = b
  consider (skip) "k < ?n \<or> ?n + 64 < k" | (early) "?n < k" "k \<le> ?n + 64" | (now) "k = ?n"
    by linarith
  then show ?thesis
  proof cases
    case skip
    have same: "set (accept R k) = set R"
      using skip first_missing_props(2) [where m = k and R = R] by (auto simp: accept_def)
    then have "first_missing (accept R k) = ?n"
      using first_missing_props [where R = R] by (intro first_missing_eq) auto
    with skip head rel open_ same show ?thesis
      by (auto simp: channel_rel_def receive_window_def emit_def deliveries_def)
  next
    case early
    have acc: "accept R k = k # R"
      using early by (simp add: accept_def)
    have fm: "first_missing (accept R k) = ?n"
      using early first_missing_props [where R = R] by (intro first_missing_eq) (auto simp: acc)
    have "held_ok f ty (insert k ?X) (AList.update (k mod sequence_modulus) (stream_message f ty k) ?held)"
      using early b by (intro held_update [OF h, of ?n]) auto
    moreover have "insert k ?X = {j \<in> set (k # R). ?n < j}"
      using early by auto
    ultimately have "channel_rel f ty (accept R k) (withhold (stream_message f ty k) (emit (Datagram_Sent ack) s))"
      using e early b unfolding channel_rel_def fm
      by (simp add: acc withhold_def emit_def stream_message_def map_get_def AList.update_conv')
    with early head open_ fm show ?thesis
      by (simp add: receive_window_def withhold_def emit_def deliveries_def)
  next
    case now
    let ?s1 = "s\<lparr>effects := effects s @ [Datagram_Sent ack, Payload_Delivered (f ?n)]\<rparr>"
    have h1: "held_ok f ty ?X (map_get (withheld ?s1) ty [])"
      using h by simp
    have X: "?X \<subseteq> {Suc ?n..Suc ?n + 64}"
      using b by auto
    have card: "card ?X \<le> length ?held"
      using held_length [OF h1 X] by simp
    obtain n' w where run: "Suc ?n \<le> n'" "n' \<notin> ?X" "{Suc ?n..<n'} \<subseteq> ?X"
        "release_withheld (length ?held) clk ty (Suc ?n mod sequence_modulus) ?s1
          = (Inr (n' mod sequence_modulus), ?s1\<lparr>withheld := w, effects := effects ?s1 @ deliveries f (Suc ?n) n'\<rparr>)"
        "held_ok f ty (?X \<inter> {n'..}) (map_get w ty [])"
      using release_withheld_run [OF h1 X card, of clk] by blast
    have acc: "accept R k = ?n # R"
      using now by (simp add: accept_def)
    have fm: "first_missing (accept R k) = n'"
    proof (rule first_missing_eq)
      show "n' \<notin> set (accept R k)"
        using run(1,2) by (auto simp: acc)
      fix m
      assume m: "m < n'"
      consider "m < ?n" | "m = ?n" | "m \<in> {Suc ?n..<n'}"
        using m by fastforce
      then show "m \<in> set (accept R k)"
        using run(3) first_missing_props(2) [where m = m and R = R] by cases (auto simp: acc)
    qed
    have Xn: "?X \<inter> {n'..} = {j \<in> set (accept R k). n' < j}"
      using run(1,2) by (auto simp: acc le_less)
    have next_seq: "(?n mod sequence_modulus + 1) mod sequence_modulus = Suc ?n mod sequence_modulus"
      by (simp add: mod_simps)
    let ?w = "if map_of w ty = Some [] then AList.delete ty w else w"
    let ?s' = "s\<lparr>effects := (effects s @ [Datagram_Sent ack, Payload_Delivered (f ?n)]) @ deliveries f (Suc ?n) n',
      expected_sequences := AList.update ty (n' mod sequence_modulus) (expected_sequences s), withheld := ?w\<rparr>"
    have exp: "receive_expected clk (?n mod sequence_modulus) (stream_message f ty ?n) (emit (Datagram_Sent ack) s) = (Inr (), ?s')"
    proof -
      have rel1: "release clk (stream_message f ty ?n) (emit (Datagram_Sent ack) s) = (Inr (), ?s1)"
        by (simp add: release_stream emit_def)
      have ty: "in_type (stream_message f ty ?n) = ty"
        by (simp add: stream_message_def)
      show ?thesis
        unfolding receive_expected_def lid_then_def lid_bind_def rel1 ty lid_with_def next_seq
        using run(4) by (simp add: lid_modify_def)
    qed
    have withheld': "held_ok f ty {j \<in> set (accept R k). n' < j} (map_get ?w ty [])"
      unfolding map_get_clean Xn [symmetric] by (rule run(5))
    have "\<forall>j\<in>set (accept R k). j \<le> n' + 64"
      using run(1) b by (auto simp: acc)
    with withheld' have "channel_rel f ty (accept R k) ?s'"
      unfolding channel_rel_def fm by (simp add: map_get_def AList.update_conv')
    moreover have "deliveries f ?n n' = Payload_Delivered (f ?n) # deliveries f (Suc ?n) n'"
      using run(1) by (simp add: deliveries_def upt_rec)
    ultimately show ?thesis
      using head now exp open_ fm by (simp add: receive_window_def)
  qed
qed

end
