(* ===== verification/Lidgren_Fragments.thy ===== *)
theory Lidgren_Fragments
  imports Lidgren_Ordering
begin

text \<open>
  A fragmented transfer on both sides. \<open>parses_fragment\<close> reads back the header that the sender
  writes, \<open>reassemble_chunks\<close> puts the chunks of \<open>encode_chunk\<close> together again, and
  \<open>release_chunks\<close> runs the receiver over all of them: the group exists from the first chunk to the
  last, and the payload is delivered once, by the last.
\<close>

section \<open>One fragment\<close>

definition chunk_bytes :: "nat \<Rightarrow> byte list \<Rightarrow> nat \<Rightarrow> byte list" where
  "chunk_bytes c payload n = take c (drop (n * c) payload)"

lemma chunk_of_eq: "chunk_of t n = chunk_bytes (t_chunk_byte_size t) (t_payload t) n"
proof -
  have "min l (k + c) - k = min (l - k) c" for l k c :: nat
    by auto
  then have "chunk_of t n = take (min (length (t_payload t) - n * t_chunk_byte_size t) (t_chunk_byte_size t))
      (drop (n * t_chunk_byte_size t) (t_payload t))"
    by (simp add: chunk_of_def Let_def)
  also have "\<dots> = take (t_chunk_byte_size t) (drop (n * t_chunk_byte_size t) (t_payload t))"
    by (metis length_drop min.commute take_all order_refl take_take)
  finally show ?thesis
    by (simp only: chunk_bytes_def)
qed

lemma length_chunk_bytes: "length (chunk_bytes c payload n) = min c (length payload - n * c)"
  by (simp add: chunk_bytes_def min.commute)

definition fragment_bits :: "nat \<Rightarrow> nat \<Rightarrow> nat \<Rightarrow> nat \<Rightarrow> byte list \<Rightarrow> bool list" where
  "fragment_bits groupId totalBits c n chunk =
     bits_of (varint groupId) @ bits_of (varint totalBits) @ bits_of (varint c) @ bits_of (varint n) @ bits_of chunk"

lemma emits_variable_nat: "n < 4294967296 \<Longrightarrow> emits (write_variable_uint32 (of_nat n)) (bits_of (varint n))"
  using emits_write_variable [of "of_nat n"] by (simp add: unat_of_nat_u32)

lemma parses_variable_nat: "n < 4294967296 \<Longrightarrow> parses read_variable_uint32 (bits_of (varint n)) (of_nat n)"
  using varuint.parses_read [of "of_nat n"] by (simp add: unat_of_nat_u32)

lemma emits_fragment:
  assumes "g < 4294967296" "b < 4294967296" "c < 4294967296" "n < 4294967296"
  shows "emits (write_fragment g b c n chunk) (fragment_bits g b c n chunk)"
  unfolding write_fragment_def fragment_bits_def append_assoc [symmetric]
  by (intro emits_comp emits_variable_nat emits_write_bytes assms)

lemma parses_fragment:
  assumes "g < 4294967296" "b < 4294967296" "c < 4294967296" "n < 4294967296"
  shows "parses read_fragment_header
    (bits_of (varint g) @ bits_of (varint b) @ bits_of (varint c) @ bits_of (varint n)) (g, b, c, n)"
  unfolding read_fragment_header_def
  by (rule parses_bind [OF parses_variable_nat [OF assms(1)]], rule parses_bind [OF parses_variable_nat [OF assms(2)]],
      rule parses_bind [OF parses_variable_nat [OF assms(3)]], rule parses_bind_last [OF parses_variable_nat [OF assms(4)]])
    (simp add: unat_of_nat_u32 assms parses_return del: rd_return_apply)

text \<open>The two reads of \<open>release\<close> on a fragment: the header and then the chunk.\<close>

lemma length_fragment_bits:
  assumes "g < 4294967296" "b < 4294967296" "c < 4294967296" "n < 4294967296" "length chunk \<le> max_reassembled_bytes"
  shows "length (fragment_bits g b c n chunk) \<le> 2 ^ 25"
  using assms(5) varint_length_u32 [OF assms(1)] varint_length_u32 [OF assms(2)] varint_length_u32 [OF assms(3)]
    varint_length_u32 [OF assms(4)] by (simp add: fragment_bits_def max_reassembled_bytes_def)

lemma read_fragment:
  assumes head: "g < 4294967296" "b < 4294967296" "c < 4294967296" "n < 4294967296" and chunk: "length chunk \<le> max_reassembled_bytes"
  shows "\<exists>r r'. read_fragment_header (new_reader (to_uint8_array (write_fragment g b c n chunk new_writer))) = Inr ((g, b, c, n), r)
    \<and> read_bytes (length chunk) r = Inr (chunk, r')"
proof -
  let ?h = "bits_of (varint g) @ bits_of (varint b) @ bits_of (varint c) @ bits_of (varint n)"
  let ?r = "new_reader (to_uint8_array (write_fragment g b c n chunk new_writer))"
  let ?b = "fragment_bits g b c n chunk"
  have size: "length ?b \<le> 2 ^ 25"
    by (rule length_fragment_bits [OF assms])
  then have out: "bits_of (to_uint8_array (write_fragment g b c n chunk new_writer)) = ?b @ replicate (pad (length ?b)) False"
    by (intro to_uint8_array_emits(1) emits_fragment head) simp
  then have rest: "rest ?r = ?h @ bits_of chunk @ replicate (pad (length ?b)) False" (is "_ = _ @ _ @ ?zs")
    by (simp add: fragment_bits_def rest_def new_reader_def)
  have addressable: "addressable ?r"
    using arg_cong [OF out, of length] size by (simp add: pad_def ceil_div_def)
  have "read_fragment_header ?r = Inr ((g, b, c, n), adv (length ?h) ?r)"
    by (rule parsesD [OF parses_fragment [OF head] addressable rest])
  moreover have "rest (adv (length ?h) ?r) = bits_of chunk @ ?zs"
    using rest_adv [of ?r ?h "bits_of chunk @ ?zs"] rest by (simp only: append_assoc)
  then have "read_bytes (length chunk) (adv (length ?h) ?r) = Inr (chunk, adv (length (bits_of chunk)) (adv (length ?h) ?r))"
    using addressable by (intro parsesD [OF parses_read_bytes]) simp_all
  ultimately show ?thesis
    by blast
qed

section \<open>Reassembly\<close>

definition chunks_upto :: "nat \<Rightarrow> byte list \<Rightarrow> nat \<Rightarrow> (nat \<times> byte list) list" where
  "chunks_upto c payload k = map (\<lambda>i. (i, chunk_bytes c payload i)) [0..<k]"

lemma chunks_upto_simps: "chunks_upto c payload 0 = []"
  "chunks_upto c payload (Suc k) = chunks_upto c payload k @ [(k, chunk_bytes c payload k)]"
  "length (chunks_upto c payload k) = k"
  by (simp_all add: chunks_upto_def)

lemma map_of_chunks_upto: "map_of (chunks_upto c payload k) i = (if i < k then Some (chunk_bytes c payload i) else None)"
  by (induction k) (auto simp: chunks_upto_simps map_add_def less_Suc_eq)

lemma set_chunk:
  assumes "n * c < length payload"
  shows "set_bytes (n * c) (chunk_bytes c payload n) (take (n * c) payload @ replicate (length payload - n * c) 0)
    = take (Suc n * c) payload @ replicate (length payload - Suc n * c) 0"
proof -
  have "take (n * c) payload @ chunk_bytes c payload n = take (Suc n * c) payload"
    using take_add [of "n * c" c payload] by (simp add: chunk_bytes_def add.commute)
  moreover have "drop (length (chunk_bytes c payload n)) (replicate (length payload - n * c) (0 :: byte))
      = replicate (length payload - Suc n * c) 0"
    by (simp add: length_chunk_bytes min_def add.commute)
  ultimately show ?thesis
    using assms by (simp add: set_bytes_def)
qed

lemma reassemble_chunks:
  assumes "0 < c" and "k = ceil_div (length payload) c"
  shows "reassemble \<lparr>g_chunk_byte_size = c, g_chunks = chunks_upto c payload k, g_created_at = t, g_total_bytes = length payload\<rparr>
    k (length payload) c = Some payload"
proof -
  let ?step = "\<lambda>index acc. case (acc, map_of (chunks_upto c payload k) index) of
      (Some bytes, Some chunk) \<Rightarrow> Some (set_bytes (index * c) chunk bytes) | _ \<Rightarrow> None"
  have "fold ?step [0..<j] (Some (replicate (length payload) 0))
      = Some (take (j * c) payload @ replicate (length payload - j * c) 0)" if "j \<le> k" for j
    using that
  proof (induction j)
    case (Suc j)
    then have "j * c < length payload"
      using assms less_ceil_div_iff [OF assms(1), of j "length payload"] by simp
    from set_chunk [OF this] Suc show ?case
      by (simp add: map_of_chunks_upto)
  qed simp
  from this [of k] ceil_div_upper [OF assms(1), of "length payload"] show ?thesis
    by (simp add: reassemble_def assms(2))
qed

section \<open>The receiver over a whole transfer\<close>

definition fragment_message :: "outgoing_transfer \<Rightarrow> nat \<Rightarrow> nat \<Rightarrow> incoming_message" where
  "fragment_message t q n = \<lparr>in_fragmented = True, in_payload = fst (encode_chunk t n), in_sequence = q, in_type = t_message_type t\<rparr>"

fun release_all :: "(nat \<Rightarrow> clock) \<Rightarrow> (nat \<Rightarrow> incoming_message) \<Rightarrow> nat \<Rightarrow> unit lid" where
  "release_all clk m 0 = lid_skip"
| "release_all clk m (Suc n) = lid_then (release_all clk m n) (release (clk n) (m n))"

text \<open>What the receiver accepts: a real group, within its limits on size, groups and memory.\<close>

definition transferable :: "outgoing_transfer \<Rightarrow> client \<Rightarrow> bool" where
  "transferable t s \<longleftrightarrow> 0 < t_group_id t \<and> t_group_id t < 4294967296
     \<and> 0 < t_chunk_byte_size t \<and> t_chunk_byte_size t \<le> max_reassembled_bytes
     \<and> length (t_payload t) \<le> max_reassembled_bytes
     \<and> t_chunk_count t = ceil_div (length (t_payload t)) (t_chunk_byte_size t) \<and> 0 < t_chunk_count t
     \<and> map_of (fragments s) (t_message_type t, t_group_id t) = None
     \<and> length (fragments s) < max_fragment_groups
     \<and> fragment_bytes s + int (length (t_payload t)) \<le> max_fragment_bytes"

definition partial_group :: "outgoing_transfer \<Rightarrow> int \<Rightarrow> nat \<Rightarrow> fragment_group" where
  "partial_group t now k = \<lparr>g_chunk_byte_size = t_chunk_byte_size t, g_chunks = chunks_upto (t_chunk_byte_size t) (t_payload t) k,
     g_created_at = now, g_total_bytes = length (t_payload t)\<rparr>"

text \<open>The state after the first \<open>k\<close> chunks, before the last one.\<close>

definition partial_state :: "outgoing_transfer \<Rightarrow> int \<Rightarrow> nat \<Rightarrow> client \<Rightarrow> client" where
  "partial_state t now k s =
     (if k = 0 then s
      else s\<lparr>fragments := fragments s @ [((t_message_type t, t_group_id t), partial_group t now k)],
             fragment_bytes := fragment_bytes s + int (min (length (t_payload t)) (k * t_chunk_byte_size t))\<rparr>)"

lemma update_last: "map_of al k = None \<Longrightarrow> AList.update k v (al @ [(k, w)]) = al @ [(k, v)]"
  by (induction al) (auto split: if_splits)

lemma update_new: "map_of al k = None \<Longrightarrow> AList.update k v al = al @ [(k, v)]"
  by (induction al) (auto split: if_splits)

lemma delete_last: "map_of al k = None \<Longrightarrow> AList.delete k (al @ [(k, w)]) = al"
  by (induction al) (auto split: if_splits)

lemma min_step: "int (min l x) + int (min c (l - x)) = int (min l (c + x))"
  by auto

lemma sum_chunks: "fold (\<lambda>(_, chunk) n. n - int (length chunk)) (chunks_upto c payload k) b
    = b - int (min (length payload) (k * c))"
proof (induction k)
  case (Suc k)
  have "int (min (length payload) (k * c)) + int (min c (length payload - k * c)) = int (min (length payload) (Suc k * c))"
    using min_step [of "length payload" "k * c" c] by simp
  with Suc show ?case
    by (simp add: chunks_upto_simps length_chunk_bytes del: of_nat_min)
qed (simp add: chunks_upto_simps)


abbreviation (input) transfer_key :: "outgoing_transfer \<Rightarrow> nat \<times> nat" where
  "transfer_key t \<equiv> (t_message_type t, t_group_id t)"

text \<open>A fragment within the limits reaches \<open>accept_chunk\<close>, with its chunk next in the reader.\<close>

lemma release_is_accept:
  assumes ok: "transferable t s" and n: "n < t_chunk_count t"
  obtains r r' where "release clk (fragment_message t q n)
      = accept_chunk clk (transfer_key t) (length (t_payload t)) (t_chunk_byte_size t) n r"
    "read_bytes (min (t_chunk_byte_size t) (length (t_payload t) - n * t_chunk_byte_size t)) r
      = Inr (chunk_bytes (t_chunk_byte_size t) (t_payload t) n, r')"
proof -
  let ?l = "length (t_payload t)" and ?c = "t_chunk_byte_size t"
  have lim: "0 < ?c" "?c \<le> 2097152" "?l \<le> 2097152" "0 < t_group_id t" "t_group_id t < 4294967296"
    and count: "t_chunk_count t = ceil_div ?l ?c"
    using ok by (simp_all add: transferable_def max_reassembled_bytes_def)
  have "t_chunk_count t \<le> ?l"
    using lim(1) by (simp add: count ceil_div_le_iff)
  then have small: "t_group_id t < 4294967296" "?l * 8 < 4294967296" "?c < 4294967296" "n < 4294967296"
    using lim n by simp_all
  have "length (chunk_bytes ?c (t_payload t) n) \<le> max_reassembled_bytes"
    using lim by (simp add: length_chunk_bytes max_reassembled_bytes_def)
  from read_fragment [OF small this] lim
  obtain r r' where r: "read_fragment_header (new_reader (fst (encode_chunk t n))) = Inr ((t_group_id t, ?l * 8, ?c, n), r)"
    "read_bytes (length (chunk_bytes ?c (t_payload t) n)) r = Inr (chunk_bytes ?c (t_payload t) n, r')"
    by (auto simp: encode_chunk_def chunk_of_eq Let_def)
  have valid: "\<not> (max_reassembled_bytes < ?l \<or> ?c < 1 \<or> max_reassembled_bytes < ?c \<or> ceil_div ?l ?c \<le> n)"
    using lim n by (simp add: count max_reassembled_bytes_def)
  have "release clk (fragment_message t q n)
      = accept_chunk clk (transfer_key t) ?l ?c n r"
    using valid by (simp add: release_def fragment_message_def release_fragment_def r(1) lid_bind_def lid_lift_def
        ceil_div_mult fun_eq_iff)
  with r(2) show ?thesis
    by (intro that) (simp_all add: length_chunk_bytes)
qed

lemma group_for_partial:
  assumes "transferable t s" "n < t_chunk_count t"
  shows "group_for clk (transfer_key t) (length (t_payload t)) (t_chunk_byte_size t) (partial_state t now n s)
    = partial_group t (if n = 0 then now_ms clk else now) n"
  using assms by (simp add: group_for_def map_get_def partial_state_def partial_group_def transferable_def
      chunks_upto_simps map_add_def)

lemma add_chunk_partial: "add_chunk n (chunk_bytes (t_chunk_byte_size t) (t_payload t) n) (partial_group t now n)
    = partial_group t now (Suc n)"
  by (simp add: add_chunk_def partial_group_def map_of_chunks_upto chunks_upto_simps)

lemma store_chunk_partial:
  assumes "transferable t s" "n < t_chunk_count t"
  shows "store_chunk (transfer_key t) (partial_group t now n) n (chunk_bytes (t_chunk_byte_size t) (t_payload t) n)
      (partial_state t now n s) = partial_state t now (Suc n) s"
proof -
  let ?l = "length (t_payload t)" and ?c = "t_chunk_byte_size t"
  have none: "map_of (fragments s) (transfer_key t) = None"
    using assms(1) by (simp add: transferable_def)
  have bytes: "int (min ?l (n * ?c)) + int (min ?c (?l - n * ?c)) = int (min ?l (Suc n * ?c))"
    using min_step [of ?l "n * ?c" ?c] by simp
  have "fragments (store_chunk (transfer_key t) (partial_group t now n) n (chunk_bytes ?c (t_payload t) n) (partial_state t now n s))
      = fragments s @ [(transfer_key t, partial_group t now (Suc n))]"
    using none by (simp add: store_chunk_def add_chunk_partial partial_state_def update_last update_new)
  moreover have "map_of (g_chunks (partial_group t now n)) n = None"
    by (simp add: partial_group_def map_of_chunks_upto)
  ultimately show ?thesis
    using bytes by (simp add: store_chunk_def partial_state_def length_chunk_bytes del: of_nat_min)
qed


lemma accept_partial:
  assumes ok: "transferable t s" and n: "n < t_chunk_count t"
    and r: "read_bytes (min (t_chunk_byte_size t) (length (t_payload t) - n * t_chunk_byte_size t)) r
      = Inr (chunk_bytes (t_chunk_byte_size t) (t_payload t) n, r')"
    and now': "now' = (if n = 0 then now_ms clk else now)"
  shows "accept_chunk clk (transfer_key t) (length (t_payload t)) (t_chunk_byte_size t) n r (partial_state t now n s)
    = finish_group (transfer_key t) (partial_group t now' (Suc n)) (length (t_payload t)) (t_chunk_byte_size t)
        (partial_state t now' (Suc n) s)"
proof -
  let ?l = "length (t_payload t)" and ?c = "t_chunk_byte_size t"
  have same: "partial_state t now n s = partial_state t now' n s"
    by (simp add: partial_state_def now')
  have group: "group_for clk (transfer_key t) ?l ?c (partial_state t now n s) = partial_group t now' n"
    using group_for_partial [OF ok n] by (simp add: now')
  have room: "\<not> (map_of (fragments (partial_state t now n s)) (transfer_key t) = None
      \<and> max_fragment_groups \<le> length (fragments (partial_state t now n s)))"
    using ok by (simp add: transferable_def partial_state_def map_add_def)
  have shape: "g_total_bytes (partial_group t now' n) = ?l" "g_chunk_byte_size (partial_group t now' n) = ?c"
    by (simp_all add: partial_group_def)
  have "fragment_bytes (partial_state t now n s) + int (length (chunk_bytes ?c (t_payload t) n))
      = fragment_bytes s + int (min ?l (Suc n * ?c))"
    using min_step [of ?l "n * ?c" ?c] by (simp add: partial_state_def length_chunk_bytes min.commute del: of_nat_min)
  also have "\<dots> \<le> fragment_bytes s + int ?l"
    by simp
  also have "\<dots> \<le> max_fragment_bytes"
    using ok by (simp add: transferable_def)
  finally have memory: "\<not> max_fragment_bytes < fragment_bytes (partial_state t now n s) + int (length (chunk_bytes ?c (t_payload t) n))"
    by simp
  show ?thesis
    by (simp add: accept_chunk_def lid_with_def Let_def group shape r room memory lid_bind_def lid_lift_def lid_then_def
        lid_modify_def add_chunk_partial) (simp add: same store_chunk_partial [OF ok n])
qed

lemma partial_chunks: "length (g_chunks (partial_group t now k)) = k"
  by (simp add: partial_group_def chunks_upto_simps)

lemma delete_partial:
  assumes ok: "transferable t s" and k: "k = t_chunk_count t"
  shows "delete_fragment_group (transfer_key t) (partial_group t now k) (partial_state t now k s) = s"
proof -
  let ?l = "length (t_payload t)" and ?c = "t_chunk_byte_size t"
  have "0 < k" "map_of (fragments s) (transfer_key t) = None" "?l \<le> k * ?c"
    using ok k ceil_div_upper [of ?c ?l] by (simp_all add: transferable_def)
  then show ?thesis
    by (simp add: delete_fragment_group_def partial_state_def delete_last partial_group_def sum_chunks)
qed

lemma finish_partial:
  assumes ok: "transferable t s"
  shows "finish_group (transfer_key t) (partial_group t now k) (length (t_payload t)) (t_chunk_byte_size t) (partial_state t now k s)
    = (Inr (), if k = t_chunk_count t then emit (Payload_Delivered (t_payload t)) s else partial_state t now k s)"
proof -
  have c: "0 < t_chunk_byte_size t" "t_chunk_count t = ceil_div (length (t_payload t)) (t_chunk_byte_size t)"
    using ok by (simp_all add: transferable_def)
  have "reassemble (partial_group t now k) k (length (t_payload t)) (t_chunk_byte_size t) = Some (t_payload t)"
    if "k = t_chunk_count t"
    using reassemble_chunks [OF c(1), of k "t_payload t" now] that c(2) by (simp add: partial_group_def)
  then show ?thesis
    using c(2) delete_partial [OF ok, of k now]
    by (auto simp: finish_group_def Let_def partial_chunks lid_then_def lid_bind_def lid_modify_def lid_skip_def lid_return_def
        deliver_def)
qed

text \<open>All chunks in order: nothing is delivered before the last, which delivers the payload and frees the group.\<close>

lemma release_chunks:
  assumes ok: "transferable t s" and k: "k \<le> t_chunk_count t"
  shows "release_all clk (\<lambda>n. fragment_message t (q n) n) k s
    = (Inr (), if k = t_chunk_count t then emit (Payload_Delivered (t_payload t)) s else partial_state t (now_ms (clk 0)) k s)"
  using k
proof (induction k)
  case 0
  then show ?case
    using ok by (simp add: transferable_def lid_skip_def lid_return_def partial_state_def)
next
  case (Suc n)
  then have n: "n < t_chunk_count t" by simp
  let ?now = "now_ms (clk 0)"
  obtain r r' where rel: "release (clk n) (fragment_message t (q n) n)
      = accept_chunk (clk n) (transfer_key t) (length (t_payload t)) (t_chunk_byte_size t) n r"
    "read_bytes (min (t_chunk_byte_size t) (length (t_payload t) - n * t_chunk_byte_size t)) r
      = Inr (chunk_bytes (t_chunk_byte_size t) (t_payload t) n, r')"
    by (rule release_is_accept [OF ok n])
  have "accept_chunk (clk n) (transfer_key t) (length (t_payload t)) (t_chunk_byte_size t) n r (partial_state t ?now n s)
    = finish_group (transfer_key t) (partial_group t ?now (Suc n)) (length (t_payload t)) (t_chunk_byte_size t)
        (partial_state t ?now (Suc n) s)"
    by (rule accept_partial [OF ok n rel(2)]) simp
  with Suc n show ?case
    by (simp add: lid_then_def lid_bind_def rel(1) finish_partial [OF ok])
qed

end
