(* ===== verification/Lidgren_Closing.thy ===== *)
theory Lidgren_Closing
  imports Lidgren_Invariants
begin

text \<open>
  Shutting down. \<open>live\<close> is the state in the middle of a handler: once the client is closing its socket
  is closed and its timers are off. Every method keeps it (a datagram with a disconnect and more
  messages behind it included), so between events a closing client (\<open>shut\<close>) has no timers, and what
  it still does to the outside is only to settle promises and close the socket.
\<close>

section \<open>In the middle of a handler\<close>

definition live :: "client \<Rightarrow> bool" where
  "live s \<longleftrightarrow> \<not> closed s \<and> (\<not> closing s \<longrightarrow> socket s = Socket_Open)
     \<and> (closing s \<longrightarrow> socket s = Socket_Closed \<and> \<not> handshake_timer s \<and> \<not> maintenance_timer s \<and> \<not> sender_timer s)
     \<and> (close_promise s \<longrightarrow> closing s)"

definition same_flags :: "client \<Rightarrow> client \<Rightarrow> bool" where
  "same_flags s s' \<longleftrightarrow> socket s' = socket s \<and> closed s' = closed s \<and> closing s' = closing s
     \<and> close_promise s' = close_promise s \<and> (handshake_timer s' \<longrightarrow> handshake_timer s)
     \<and> maintenance_timer s' = maintenance_timer s \<and> sender_timer s' = sender_timer s"

lemma same_flags_refl: "same_flags s s"
  by (simp add: same_flags_def)

lemma same_flags_trans: "same_flags s t \<Longrightarrow> same_flags t u \<Longrightarrow> same_flags s u"
  by (simp add: same_flags_def)

lemma live_frame: "live s \<Longrightarrow> same_flags s s' \<Longrightarrow> live s'"
  by (auto simp: live_def same_flags_def)

lemma live_modify: "(\<And>s. same_flags s (f s)) \<Longrightarrow> keeps live (lid_modify f)"
  by (intro keeps_modify) (blast intro: live_frame)

lemma flags_emit: "same_flags s (emit e s)"
  by (simp add: same_flags_def emit_def)

lemma flags_reject_connect: "same_flags s (reject_connect e s)"
  by (simp add: reject_connect_def flags_emit same_flags_refl)

lemma flags_fold_emit: "same_flags s (fold (\<lambda>t. emit (f t)) ts s)"
  by (induction ts arbitrary: s) (auto intro: same_flags_refl same_flags_trans flags_emit)

lemma flags_reject: "same_flags s (reject_reliable e s)"
  using flags_fold_emit [of s "\<lambda>t. Transfer_Rejected t e" "outgoing_transfers s"]
  by (simp add: reject_reliable_def Let_def same_flags_def)

lemma flags_delete: "same_flags s (delete_fragment_group key g s)"
  by (simp add: same_flags_def delete_fragment_group_def)

lemma flags_store: "same_flags s (store_chunk key g n chunk s)"
  by (simp add: same_flags_def store_chunk_def)

lemma flags_fold_delete: "same_flags s (fold (\<lambda>(key, g) s. if c g then delete_fragment_group key g s else s) gs s)"
proof (induction gs arbitrary: s)
  case (Cons kg gs)
  obtain key g where kg: "kg = (key, g)" by (cases kg)
  have "same_flags s (if c g then delete_fragment_group key g s else s)"
    by (simp add: flags_delete same_flags_refl)
  from same_flags_trans [OF this Cons.IH] show ?case
    by (simp add: kg)
qed (simp add: same_flags_refl)

lemma flags_send: "same_flags s (snd (send_message ty p b q f s))"
  by (simp add: send_message_def socket_send_def lid_defs same_flags_refl flags_emit)

lemma live_send: "keeps live (send_message ty p b q f)"
  using live_frame flags_send unfolding keeps_def by blast

lemma live_fail: "live s \<Longrightarrow> live (fail e s)"
proof (cases "closing s")
  case False
  assume s: "live s"
  let ?s1 = "clear_timers (s\<lparr>closing := True, close_error := Some e\<rparr>)"
  have "same_flags ?s1 (reject_reliable e (reject_connect e ?s1))"
    by (rule same_flags_trans [OF flags_reject_connect flags_reject])
  moreover have "fail e s = close_socket (reject_reliable e (reject_connect e ?s1))"
    using s False by (simp add: fail_def Let_def live_def)
  ultimately show ?thesis
    using s False by (simp add: live_def same_flags_def clear_timers_def close_socket_def emit_def)
qed (simp add: fail_def)

lemma live_fail_modify: "keeps live (lid_modify (fail e))"
  by (intro keeps_modify live_fail)

section \<open>The methods\<close>

lemma live_flush_step: "keeps live (flush_step clk a)"
proof -
  have "same_flags s (snd (flush_step clk a s))" for s
    unfolding flush_step_eq by (rule same_flags_trans [OF _ flags_send]) (simp add: same_flags_def flush_state_def Let_def)
  then show ?thesis
    unfolding keeps_def using live_frame by blast
qed

lemma live_flush: "live s \<Longrightarrow> live (snd (flush_reliable_queue clk s))"
proof (induction clk s rule: flush_reliable_queue.induct)
  case (1 clk s)
  show ?case
  proof (cases "length (pending_reliable s) < send_window \<and> transfer_queue s \<noteq> []")
    case True
    then obtain a as where q: "transfer_queue s = a # as"
      by (cases "transfer_queue s") auto
    obtain r s' where step: "flush_step clk a s = (r, s')"
      by (cases "flush_step clk a s")
    with keepsD [OF live_flush_step "1.prems", of clk a] have "live s'"
      by simp
    with "1.IH" [OF _ q step [symmetric]] True q step show ?thesis
      by (cases r) (simp_all add: flush_reliable_queue.simps [of clk s])
  next
    case False
    with "1.prems" show ?thesis
      by (auto simp: flush_reliable_queue.simps [of clk s] split: list.splits)
  qed
qed

lemma live_flush_keeps: "keeps live (flush_reliable_queue clk)"
  by (simp add: keeps_def live_flush)

lemma live_written: "keeps live (send_written ty f)"
  unfolding send_written_def Let_def by (rule live_send)

lemma live_deliver: "keeps live (deliver p)"
  unfolding deliver_def by (rule live_modify) (rule flags_emit)

lemma live_finish_group: "keeps live (finish_group key g n c)"
  unfolding finish_group_def Let_def
  by (intro keeps_if keeps_return keeps_case_option keeps_then live_deliver live_modify flags_delete)

lemma live_accept_chunk: "keeps live (accept_chunk clk key n c k r)"
  unfolding accept_chunk_def Let_def
  by (rule keeps_with, rule keepsD, intro keeps_intros live_finish_group live_modify flags_store)

lemma live_release: "keeps live (release clk m)"
  unfolding release_def release_fragment_def
  by (intro keeps_if live_deliver keeps_bind keeps_return)
    (auto simp: Let_def split_def intro!: keeps_if keeps_return live_accept_chunk)

lemma live_release_withheld: "keeps live (release_withheld fuel clk ty n)"
proof (induction fuel arbitrary: n)
  case (Suc fuel)
  show ?case
    unfolding release_withheld.simps Let_def
    by (rule keeps_with, rule keepsD, intro keeps_case_option keeps_then keeps_return live_release Suc live_modify)
      (simp add: same_flags_def)
qed (simp add: keeps_return)

lemma live_receive: "keeps live (receive_reliable_ordered clk m)"
proof -
  have expected: "keeps live (receive_expected clk e m)" for e
    unfolding receive_expected_def
    by (intro keeps_then live_release, rule keeps_with, rule keepsD,
        intro keeps_bind live_release_withheld live_modify) (simp_all add: same_flags_def)
  show ?thesis
    unfolding receive_reliable_ordered_def send_acknowledgement_def Let_def
    by (intro keeps_then live_send, rule keeps_with, rule keepsD, intro keeps_if keeps_return expected live_modify)
      (simp_all add: same_flags_def withhold_def)
qed

lemma flags_acknowledge_all: "same_flags s (acknowledge_all bs s)"
proof (induction bs s rule: acknowledge_all.induct)
  case (1 ty low high r s)
  have "same_flags s (acknowledge a b s)" for a b
    by (auto simp: acknowledge_def Let_def complete_transfer_def emit_def same_flags_def split: option.splits)
  from same_flags_trans [OF this "1.IH"] show ?case
    by simp
qed (simp_all add: same_flags_refl)

text \<open>
  The handshake is the one method that starts timers. A closing client throws before it gets there:
  its socket is closed, so sending the confirmation fails.
\<close>

lemma established_closing:
  assumes "live s" "closing s"
  shows "\<exists>e. send_connection_established clk s = (Inl e, s)"
proof -
  have "wpos (write_float32 (now_s clk) new_writer) = 32"
    using to_uint8_array_emits(2) [OF emits_write_float32] by simp
  with assms show ?thesis
    by (simp add: send_connection_established_def send_written_def Let_def send_message_def socket_send_def lid_defs live_def)
qed

lemma live_established: "keeps live (send_connection_established clk)"
  unfolding send_connection_established_def by (rule live_written)

lemma live_start_timers:
  assumes "live s"
  shows "live (snd (lid_then (send_connection_established clk)
    (lid_modify (\<lambda>s. emit Connect_Resolved (s\<lparr>maintenance_timer := True, sender_timer := True\<rparr>))) s))"
proof (cases "closing s")
  case True
  with established_closing [OF assms, of clk] assms show ?thesis
    by (auto simp: lid_then_def lid_bind_def)
next
  case False
  obtain r s' where r: "send_connection_established clk s = (r, s')"
    by (cases "send_connection_established clk s")
  have "same_flags s s'"
    using flags_send r unfolding send_connection_established_def send_written_def Let_def by (metis snd_conv)
  with assms False show ?thesis
    by (cases r) (auto simp: lid_then_def lid_bind_def r lid_modify_def live_def same_flags_def emit_def)
qed

lemma live_connect_response: "keeps live (handle_connect_response opt clk payload)"
proof -
  have hail: "keeps live (lid_modify (\<lambda>s. (emit (Connected_Called h) s)\<lparr>connected := True, handshake_timer := False\<rparr>))" for h
    by (rule live_modify) (simp add: same_flags_def emit_def)
  have timers: "keeps live (lid_then (send_connection_established clk)
      (lid_modify (\<lambda>s. emit Connect_Resolved (s\<lparr>maintenance_timer := True, sender_timer := True\<rparr>))))"
    by (simp add: keeps_def live_start_timers)
  show ?thesis
    unfolding handle_connect_response_def
    by (rule keeps_with, rule keepsD, intro keeps_if live_established keeps_bind keeps_return keeps_case_option
        live_fail_modify keeps_then [OF hail timers])
qed

lemma live_receive_message: "keeps live (receive_message opt clk m)"
proof -
  have ack: "keeps live (receive_acknowledgements clk p)" for p
    unfolding receive_acknowledgements_def by (intro keeps_then live_modify flags_acknowledge_all live_flush_keeps)
  have pong: "keeps live (send_pong clk p)" for p
    by (cases p) (simp_all add: send_pong_def keeps_return live_written)
  have disconnect: "keeps live (handle_remote_disconnect p)" for p
    unfolding handle_remote_disconnect_def by (intro keeps_bind keeps_return live_fail_modify)
  show ?thesis
    unfolding receive_message_def
    by (intro keeps_if ack pong disconnect live_receive keeps_return live_connect_response)
qed

lemma live_receive_loop: "live s \<Longrightarrow> live (snd (receive_loop opt clk data s))"
proof (induction opt clk data s rule: receive_loop.induct)
  case (1 opt clk data s)
  show ?case
  proof (cases "\<exists>ty lo hi bl bh r. data = ty # lo # hi # bl # bh # r \<and> ceil_div (header_bits bl bh) 8 \<le> length r")
    case True
    then obtain ty lo hi bl bh r where data: "data = ty # lo # hi # bl # bh # r" "ceil_div (header_bits bl bh) 8 \<le> length r"
      by blast
    let ?n = "ceil_div (header_bits bl bh) 8"
    let ?m = "\<lparr>in_fragmented = (lo AND 1 = 1), in_payload = take ?n r, in_sequence = header_sequence lo hi, in_type = unat ty\<rparr>"
    obtain x s' where x: "receive_message opt clk ?m s = (x, s')"
      by (cases "receive_message opt clk ?m s")
    with keepsD [OF live_receive_message "1.prems", of opt clk ?m] have s': "live s'"
      by simp
    show ?thesis
      using "1.IH" [OF data(1) refl refl refl refl refl _ x [symmetric]] data s' x
      by (cases x) (simp_all add: receive_loop.simps [of opt clk _ s] Let_def)
  next
    case False
    with "1.prems" show ?thesis
      by (auto simp: receive_loop.simps [of opt clk data s] Let_def not_le live_fail split: list.splits)
  qed
qed

lemma live_datagram: "keeps live (receive_datagram opt clk data)"
  unfolding receive_datagram_def
  by (rule keeps_with, rule keepsD, intro keeps_if keeps_return keeps_then live_modify)
    (simp_all add: same_flags_def keeps_def live_receive_loop)

lemma live_resend: "keeps live (resend_loop clk ps)"
proof (induction ps)
  case (Cons kp ps)
  have "keeps live (send_reliable_message clk key p)" for key p
    unfolding send_reliable_message_def Let_def
    by (intro keeps_then live_send live_modify) (simp add: same_flags_def)
  with Cons show ?case
    by (cases kp) (simp add: keeps_if keeps_then keeps_return live_fail_modify)
qed (simp add: keeps_return)

lemma live_sender: "keeps live (maintain_reliable_sends clk)"
  unfolding maintain_reliable_sends_def
  by (rule keeps_with, rule keepsD, intro keeps_if keeps_return keeps_bind live_resend live_flush_keeps)

lemma live_connection: "keeps live (maintain_connection clk)"
proof -
  have expire: "keeps live (lid_modify (expire_fragments (now_ms clk)))"
    unfolding expire_fragments_def using flags_fold_delete by (intro live_modify) simp
  show ?thesis
    unfolding maintain_connection_def
    by (intro keeps_then expire, rule keeps_with, rule keepsD, intro keeps_if keeps_then live_fail_modify live_send keeps_return live_modify)
      (simp_all add: same_flags_def)
qed

lemma live_send_connect: "keeps live (send_connect opt clk)"
  unfolding send_connect_def
  by (rule keeps_with, rule keepsD, intro keeps_if keeps_then live_fail_modify live_written keeps_return live_modify)
    (simp_all add: same_flags_def)

lemma live_enqueue: "same_flags s (snd (enqueue_transfer mtu ty payload s))"
  by (simp add: enqueue_transfer_def next_fragment_group_def Let_def same_flags_def)

lemma live_reliable: "keeps live (send_reliable_ordered opt clk payload channel)"
  unfolding send_reliable_ordered_def
proof (rule keeps_with)
  fix s
  assume s: "live s"
  have "live (snd (lid_then (lid_modify (\<lambda>_. snd (enqueue_transfer mtu ty payload s)))
      (lid_then (flush_reliable_queue clk) (lid_return r)) s))" for mtu ty and r :: "client_error + nat"
  proof -
    have "keeps live (lid_then (flush_reliable_queue clk) (lid_return r))"
      by (intro keeps_then live_flush_keeps keeps_return)
    from keepsD [OF this live_frame [OF s live_enqueue]] show ?thesis
      by (simp add: snd_then lid_modify_def)
  qed
  with s show "live (snd ((if \<not> connected s \<or> closing s \<or> closed s
     then lid_return (Inl (Client_Error ''Lidgren client is not connected''))
     else if max_outgoing_bytes < int (length payload)
        \<or> max_outgoing_bytes < outgoing_bytes s + int (length payload)
        \<or> max_outgoing_transfers \<le> length (outgoing_transfers s)
     then lid_return (Inl (Client_Error ''Lidgren payload exceeds outgoing limit''))
     else let mtu = max 512 (case opt_mtu opt of Some m \<Rightarrow> m | None \<Rightarrow> default_mtu) in
       case js_integer channel of
         None \<Rightarrow> lid_return (Inl (Client_Error ''Invalid reliable sequence channel''))
       | Some channel \<Rightarrow>
           if channel < 0 \<or> 31 < channel then lid_return (Inl (Client_Error ''Invalid reliable sequence channel''))
           else let (a, s1) = enqueue_transfer mtu (reliable_ordered_type + nat channel) payload s in
             lid_then (lid_modify (\<lambda>_. s1)) (lid_then (flush_reliable_queue clk) (lid_return (Inr a)))) s))"
    by (auto simp: Let_def split_def lid_return_def split: option.splits)
qed

section \<open>Between events\<close>

definition shut :: "client \<Rightarrow> bool" where
  "shut s \<longleftrightarrow> (closed s \<longrightarrow> closing s) \<and> (close_promise s \<longrightarrow> closing s) \<and> (\<not> closing s \<longrightarrow> socket s \<noteq> Socket_Closed)
     \<and> (\<not> closing s \<and> socket s = No_Socket \<longrightarrow> \<not> connected s \<and> \<not> handshake_timer s)
     \<and> (closing s \<or> socket s = No_Socket \<longrightarrow> \<not> maintenance_timer s \<and> \<not> sender_timer s)"

lemma live_shut: "live s \<Longrightarrow> shut s"
  by (auto simp: live_def shut_def)

lemma shut_live: "shut s \<Longrightarrow> \<not> closing s \<Longrightarrow> socket s \<noteq> No_Socket \<Longrightarrow> live s"
  by (cases "socket s") (auto simp: live_def shut_def)

lemma finish_closed_flags:
  assumes "\<not> closed s"
  shows "same_flags (clear_timers (s\<lparr>closing := True, closed := True\<rparr>)) (finish_closed s)"
proof -
  let ?s1 = "clear_timers (s\<lparr>closing := True, closed := True\<rparr>)"
  let ?e = "case close_error ?s1 of Some e \<Rightarrow> e | None \<Rightarrow> Client_Error ''Lidgren client closed''"
  let ?s2 = "reject_reliable ?e ?s1"
  have "same_flags ?s1 (fold (\<lambda>(key, g). delete_fragment_group key g) (fragments ?s2) ?s2)"
    using same_flags_trans [OF flags_reject [of ?s1 ?e] flags_fold_delete [of ?s2 "\<lambda>_. True"]] by simp
  with assms show ?thesis
    by (simp add: finish_closed_def Let_def same_flags_def emit_def)
qed

lemma shut_finish_closed: "shut s \<Longrightarrow> shut (finish_closed s)"
  using finish_closed_flags [of s]
  by (cases "closed s") (auto simp: finish_closed_def shut_def same_flags_def clear_timers_def)

lemma shut_close_socket: "shut s \<Longrightarrow> closing s \<Longrightarrow> shut (close_socket s)"
  by (cases "socket s") (auto simp: close_socket_def shut_finish_closed, auto simp: shut_def emit_def)

lemma closed_timers: "\<not> closed s \<Longrightarrow> \<not> handshake_timer s \<Longrightarrow> \<not> handshake_timer (close_socket s)"
  using finish_closed_flags [of s] by (cases "socket s") (auto simp: close_socket_def emit_def same_flags_def clear_timers_def)

lemma shut_frame: "shut s \<Longrightarrow> same_flags s s' \<Longrightarrow> connected s' = connected s \<Longrightarrow> shut s'"
  by (auto simp: shut_def same_flags_def)

lemma shut_close:
  assumes s: "shut s"
  shows "shut (close reason s)" "\<not> closing s \<Longrightarrow> \<not> handshake_timer (close reason s)"
proof -
  let ?s1 = "clear_timers (s\<lparr>closing := True, close_promise := True\<rparr>)"
  let ?s2 = "reject_connect (Client_Error ''Lidgren client closed'') ?s1"
  have flags: "same_flags ?s1 ?s2" "connected ?s2 = connected ?s1"
    by (rule flags_reject_connect) (simp add: reject_connect_def emit_def)
  have "shut ?s1"
    using s by (auto simp: shut_def clear_timers_def)
  from shut_frame [OF this flags] have s2: "shut ?s2" .
  have on: "closing ?s2" "\<not> handshake_timer ?s2" "closed ?s2 = closed s"
    using flags by (auto simp: same_flags_def clear_timers_def)
  have send: "same_flags ?s2 (send_message_and_wait ty p b ?s2)" "connected (send_message_and_wait ty p b ?s2) = connected ?s2" for ty p b
    by (simp_all add: send_message_and_wait_def same_flags_refl flags_emit) (simp add: emit_def)
  show "shut (close reason s)"
    using s shut_frame [OF s2 send] shut_close_socket [OF s2 on(1)] by (simp add: close_def Let_def)
  have "\<not> closing s \<Longrightarrow> \<not> close_promise s \<and> \<not> closed s"
    using s by (auto simp: shut_def)
  then show "\<not> closing s \<Longrightarrow> \<not> handshake_timer (close reason s)"
    using on closed_timers [of ?s2] send(1) by (auto simp: close_def Let_def same_flags_def)
qed

lemma closing_skips:
  assumes "closing s"
  shows "snd (send_connect opt clk s) = s" "snd (maintain_reliable_sends clk s) = s"
    "receive_datagram opt clk data s = (Inr (), s)" "fail e s = s" "snd (send_reliable_ordered opt clk p c s) = s"
    "socket_connected opt clk s = (Inr (), s\<lparr>handshake_timer := True\<rparr>)" "close reason s = s"
  using assms by (simp_all add: send_connect_def maintain_reliable_sends_def receive_datagram_def fail_def
      send_reliable_ordered_def socket_connected_def close_def lid_defs)

lemma handle_live:
  assumes s: "live s" "\<not> closing s" and ev: "ev \<noteq> Ev_Socket_Connected" "\<nexists>reason. ev = Ev_Close reason"
  shows "live (handle opt clk ev s)"
proof -
  obtain r s' where d: "receive_datagram opt clk (case ev of Ev_Datagram data \<Rightarrow> data | _ \<Rightarrow> []) s = (r, s')"
    by (cases "receive_datagram opt clk (case ev of Ev_Datagram data \<Rightarrow> data | _ \<Rightarrow> []) s")
  with keepsD [OF live_datagram s(1)] have "live s'"
    by (metis snd_conv)
  then have datagram: "live s'" "live (fail e s')" for e
    by (simp_all add: live_fail)
  note steps = live_fail [OF s(1)] keepsD [OF live_send_connect s(1)] keepsD [OF live_connection s(1)]
    keepsD [OF live_sender s(1)] keepsD [OF live_reliable s(1)]
  have "socket s = Socket_Open" "\<not> close_promise s"
    using s by (auto simp: live_def)
  then show ?thesis
    using ev d s(1) by (cases ev) (simp_all add: handle_def connect_def lid_defs steps datagram split: sum.split)
qed

lemma shut_keeps:
  assumes s: "shut s"
  shows "shut (handle opt clk ev s)"
    "\<not> closing s \<Longrightarrow> ev \<noteq> Ev_Socket_Connected \<Longrightarrow> closing (handle opt clk ev s) \<Longrightarrow> \<not> handshake_timer (handle opt clk ev s)"
proof -
  have "shut (handle opt clk ev s) \<and>
    (\<not> closing s \<and> ev \<noteq> Ev_Socket_Connected \<and> closing (handle opt clk ev s) \<longrightarrow> \<not> handshake_timer (handle opt clk ev s))"
  proof (cases "closing s")
    case True
    then show ?thesis
      using s shut_finish_closed [OF s] shut_close_socket [OF s]
      by (cases ev) (auto simp: handle_def closing_skips connect_def lid_defs, auto simp: shut_def)
  next
    case False
    note close = shut_close [OF s]
    show ?thesis
    proof (cases "socket s = No_Socket")
      case True
      with s False have "shut (snd (connect s))" "\<not> closing (snd (connect s))"
        by (auto simp: connect_def lid_defs shut_def)
      with True s False show ?thesis
        using close by (cases ev) (auto simp: handle_def shut_def send_reliable_ordered_def lid_defs)
    next
      case open_: False
      with s False have live: "live s"
        by (intro shut_live)
      have "live u \<Longrightarrow> shut (u\<lparr>handshake_timer := True\<rparr>)" for u
        by (auto simp: live_def shut_def)
      moreover have "live (snd (send_connect opt clk s))"
        by (rule keepsD [OF live_send_connect live])
      ultimately have connected: "shut (snd (socket_connected opt clk s))"
        by (cases "send_connect opt clk s") (auto simp: socket_connected_def lid_defs live_shut split: sum.split)
      show ?thesis
      proof (cases "ev = Ev_Socket_Connected \<or> (\<exists>reason. ev = Ev_Close reason)")
        case True
        with s False connected close show ?thesis
          by (auto simp: handle_def)
      next
        case False
        then have "live (handle opt clk ev s)"
          using \<open>\<not> closing s\<close> by (intro handle_live [OF live]) auto
        then show ?thesis
          by (auto simp: live_shut) (simp add: live_def)
      qed
    qed
  qed
  then show "shut (handle opt clk ev s)"
    "\<not> closing s \<Longrightarrow> ev \<noteq> Ev_Socket_Connected \<Longrightarrow> closing (handle opt clk ev s) \<Longrightarrow> \<not> handshake_timer (handle opt clk ev s)"
    by simp_all
qed

lemma reachable_shut: "reachable opt s \<Longrightarrow> shut s"
  by (induction rule: reachable.induct) (simp_all add: shut_keeps, simp add: shut_def new_client_def)

section \<open>What a closing client still does\<close>

fun quiet_output :: "client_output \<Rightarrow> bool" where
  "quiet_output (Transfer_Rejected a e) = True"
| "quiet_output Socket_Close_Called = True"
| "quiet_output Closed_Resolved = True"
| "quiet_output _ = False"

definition quietly :: "client \<Rightarrow> client \<Rightarrow> bool" where
  "quietly s s' \<longleftrightarrow> (\<exists>es. effects s' = effects s @ es \<and> (\<forall>e\<in>set es. quiet_output e))"

lemma quietly_refl: "effects s' = effects s \<Longrightarrow> quietly s s'"
  by (simp add: quietly_def)

lemma quietly_trans: "quietly s t \<Longrightarrow> quietly t u \<Longrightarrow> quietly s u"
  unfolding quietly_def by (metis append_assoc set_append UnE)

lemma quietly_emit: "quiet_output e \<Longrightarrow> quietly s (emit e s)"
  by (simp add: quietly_def emit_def)

lemma quietly_fold_emit: "(\<And>t. quiet_output (f t)) \<Longrightarrow> quietly s (fold (\<lambda>t. emit (f t)) ts s)"
proof (induction ts arbitrary: s)
  case (Cons t ts)
  have "quietly s (emit (f t) s)"
    by (rule quietly_emit) (rule Cons.prems)
  from quietly_trans [OF this Cons.IH [OF Cons.prems]] show ?case
    by simp
qed (simp add: quietly_refl)

lemma quietly_reject: "quietly s (reject_reliable e s)"
  using quietly_fold_emit [of "\<lambda>t. Transfer_Rejected t e" s "outgoing_transfers s"]
  by (simp add: reject_reliable_def Let_def quietly_def)

lemma quietly_fold_delete: "quietly s (fold (\<lambda>(key, g). delete_fragment_group key g) gs s)"
proof (induction gs arbitrary: s)
  case (Cons kg gs)
  obtain key g where kg: "kg = (key, g)" by (cases kg)
  have "quietly s (delete_fragment_group key g s)"
    by (rule quietly_refl) (simp add: delete_fragment_group_def)
  from quietly_trans [OF this Cons.IH] show ?case
    by (simp add: kg)
qed (simp add: quietly_refl)

lemma quietly_finish: "quietly s (finish_closed s)"
proof (cases "closed s")
  case False
  let ?s1 = "clear_timers (s\<lparr>closing := True, closed := True\<rparr>)"
  let ?e = "case close_error ?s1 of Some e \<Rightarrow> e | None \<Rightarrow> Client_Error ''Lidgren client closed''"
  let ?s3 = "fold (\<lambda>(key, g). delete_fragment_group key g) (fragments (reject_reliable ?e ?s1)) (reject_reliable ?e ?s1)"
  have "quietly s ?s1"
    by (rule quietly_refl) (simp add: clear_timers_def)
  then have "quietly s ?s3"
    by (intro quietly_trans [OF _ quietly_trans [OF quietly_reject quietly_fold_delete]])
  moreover have "quietly ?s3 (finish_closed s)"
    using False by (simp add: finish_closed_def Let_def quietly_def emit_def)
  ultimately show ?thesis
    by (rule quietly_trans)
qed (simp add: finish_closed_def quietly_refl)

lemma quietly_close_socket: "quietly s (close_socket s)"
  by (cases "socket s") (simp_all add: close_socket_def quietly_finish, simp add: quietly_def emit_def)

lemma closing_quiet:
  assumes "shut s" "closing s"
  shows "quietly s (handle opt clk ev s)"
proof -
  have "\<not> maintenance_timer s" "\<not> sender_timer s"
    using assms by (auto simp: shut_def)
  then show ?thesis
    using assms(2) quietly_finish [of s] quietly_close_socket [of s] quietly_refl [of s s]
    by (cases ev) (auto simp: handle_def closing_skips connect_def lid_defs, auto simp: quietly_def)
qed

lemma closing_timer:
  assumes "shut s" "closing s" "\<not> handshake_timer s" "ev \<noteq> Ev_Socket_Connected"
  shows "\<not> handshake_timer (handle opt clk ev s)"
proof -
  have finish: "\<not> handshake_timer (finish_closed s)"
    using finish_closed_flags [of s] assms
    by (cases "closed s") (auto simp: finish_closed_def same_flags_def clear_timers_def)
  then have "\<not> handshake_timer (close_socket s)"
    using assms by (cases "socket s") (simp_all add: close_socket_def emit_def)
  moreover have "\<not> maintenance_timer s" "\<not> sender_timer s"
    using assms by (auto simp: shut_def)
  ultimately show ?thesis
    using assms finish by (cases ev) (simp_all add: handle_def closing_skips connect_def lid_defs)
qed

lemma closing_stays:
  assumes "shut s" "closing s"
  shows "closing (handle opt clk ev s)"
proof -
  have finish: "closing (finish_closed s)"
    using finish_closed_flags [of s] assms
    by (cases "closed s") (simp_all add: finish_closed_def same_flags_def clear_timers_def)
  then have "closing (close_socket s)"
    using assms by (cases "socket s") (simp_all add: close_socket_def emit_def)
  moreover have "\<not> maintenance_timer s" "\<not> sender_timer s"
    using assms by (auto simp: shut_def)
  ultimately show ?thesis
    using assms(2) finish by (cases ev) (simp_all add: handle_def closing_skips connect_def lid_defs)
qed

end
