(* ===== verification/Lidgren_Framing.thy ===== *)
theory Lidgren_Framing
  imports Lidgren_Fragments Lidgren_Closing
begin

text \<open>
  The five-byte header of a Lidgren message, written by \<open>sendMessage\<close> and read by
  \<open>receiveDatagram\<close>, and the handshake: \<open>hail_bytes\<close> is the payload that carries the
  application's identifier and hail, and \<open>read_connect_response\<close> accepts it.
\<close>

section \<open>The header\<close>

lemma take_bit_of_nat_u32: "q < 2 ^ n \<Longrightarrow> n \<le> 32 \<Longrightarrow> take_bit n (of_nat q :: u32) = of_nat q"
  by (metis take_bit_nat_eq_self take_bit_of_nat)

lemma header_type: "ty < 256 \<Longrightarrow> unat (of_nat ty :: byte) = ty"
  by (simp add: unsigned_of_nat take_bit_nat_eq_self)

lemma and_255: "v AND 255 = take_bit 8 (v :: 'a::len word)"
  by (simp add: take_bit_eq_mask mask_eq_exp_minus_1)

lemma bit_of_nat_u32: "q < 2 ^ n \<Longrightarrow> n \<le> 32 \<Longrightarrow> bit (of_nat q :: u32) j \<Longrightarrow> j < n"
  using take_bit_of_nat_u32 [of q n] by (metis bit_take_bit_iff)

lemma sequence_bytes:
  fixes v :: u32
  assumes "\<And>j. bit v j \<Longrightarrow> j < 10"
  shows "(drop_bit 1 (ucast (ucast ((push_bit 1 v OR (if f then 1 else 0)) AND 0xFF) :: byte) :: u32)
      OR push_bit 7 (ucast (ucast (drop_bit 7 v) :: byte))) AND 1023 = v"
  unfolding and_255 and_1023
  by (rule bit_word_eqI) (auto simp: bit_simps bit_1_iff dest: assms simp del: push_bit_Suc drop_bit_Suc)

lemma bits_bytes:
  fixes v :: u32
  assumes "\<And>j. bit v j \<Longrightarrow> j < 16"
  shows "(ucast (ucast (v AND 0xFF) :: byte) :: u32) OR push_bit 8 (ucast (ucast (drop_bit 8 v) :: byte)) = v"
  unfolding and_255
  by (rule bit_word_eqI) (auto simp: bit_simps dest: assms simp del: push_bit_Suc drop_bit_Suc)

lemma header_sequence_bytes:
  assumes "q < 1024"
  shows "header_sequence (ucast ((push_bit 1 (of_nat q :: u32) OR (if f then 1 else 0)) AND 0xFF)) (ucast (drop_bit 7 (of_nat q :: u32))) = q"
proof -
  have "bit (of_nat q :: u32) j \<Longrightarrow> j < 10" for j
    using assms bit_of_nat_u32 [of q 10] by simp
  from sequence_bytes [OF this] show ?thesis
    using assms unfolding header_sequence_def by (simp only: unat_of_nat_u32)
qed

lemma header_fragmented:
  "ucast ((push_bit 1 (v :: u32) OR (if f then 1 else 0)) AND 0xFF) AND (1 :: byte) = 1 \<longleftrightarrow> f"
proof -
  have "bit (ucast ((push_bit 1 (v :: u32) OR (if f then 1 else 0)) AND 0xFF) :: byte) 0 \<longleftrightarrow> f"
    unfolding and_255 by (simp add: bit_simps bit_1_iff del: push_bit_Suc)
  moreover have "b AND 1 = 1 \<longleftrightarrow> bit b 0" for b :: byte
    by (simp add: and_one_eq bit_0 odd_iff_mod_2_eq_one)
  ultimately show ?thesis
    by blast
qed

lemma header_bits_bytes:
  assumes "n \<le> 0xFFFF"
  shows "header_bits (ucast ((of_nat n :: u32) AND 0xFF)) (ucast (drop_bit 8 (of_nat n :: u32))) = n"
proof -
  have "bit (of_nat n :: u32) j \<Longrightarrow> j < 16" for j
    using assms bit_of_nat_u32 [of n 16] by simp
  from bits_bytes [OF this] show ?thesis
    using assms by (simp add: header_bits_def unat_of_nat_u32)
qed

lemma receive_framed:
  assumes "ty < 256" "q < sequence_modulus" "bits \<le> 0xFFFF" "length payload = ceil_div bits 8"
  shows "receive_loop opt clk (message_bytes ty payload bits q f @ behind) s =
    (case receive_message opt clk \<lparr>in_fragmented = f, in_payload = payload, in_sequence = q, in_type = ty\<rparr> s of
       (Inl e, s') \<Rightarrow> (Inl e, s')
     | (Inr _, s') \<Rightarrow> receive_loop opt clk behind s')"
  using assms unfolding receive_loop.simps [of _ _ "_ @ _"] message_bytes_def
  by (simp only: append_Cons append_Nil list.case header_sequence_bytes header_fragmented header_bits_bytes header_type
      sequence_modulus_def Let_def length_append take_append drop_append) (simp split: prod.split sum.split)

section \<open>The handshake\<close>

text \<open>The body of the connect message, and of the response: identifier, a 64-bit number, a time and the hail.\<close>

definition hail_message :: "jstring \<Rightarrow> int \<Rightarrow> js_number \<Rightarrow> byte list \<Rightarrow> bit_writer \<Rightarrow> bit_writer" where
  "hail_message identifier unique time hail w =
     write_bytes hail (write_float32 time (write_int64 unique (write_string identifier w)))"

definition hail_bits :: "jstring \<Rightarrow> int \<Rightarrow> js_number \<Rightarrow> byte list \<Rightarrow> bool list" where
  "hail_bits identifier unique time hail = enc_string identifier @ map (bit unique) [0..<64]
     @ map (bit (f64_to_f32 time)) [0..<32] @ bits_of hail"

lemma emits_hail: "string_ok n identifier \<Longrightarrow> emits (hail_message identifier unique time hail) (hail_bits identifier unique time hail)"
  unfolding hail_message_def hail_bits_def append_assoc [symmetric]
  by (intro emits_comp emits_write_string emits_write_int64 emits_write_float32 emits_write_bytes)
    (simp add: string_ok_def)

lemma length_hail_bits: "length (hail_bits identifier unique time hail) = 8 * (length (varint (length (text_encode identifier)))
    + length (text_encode identifier) + 12 + length hail)"
  by (simp add: hail_bits_def enc_string_def)

lemma pad_mult: "pad (8 * n) = 0"
  using ceil_div_mult [of 8 n] by (simp add: pad_def mult.commute)

lemma pad_hail: "pad (length (hail_bits identifier unique time hail)) = 0"
  unfolding length_hail_bits by (rule pad_mult)

lemma length_hail_limit:
  fixes unique :: int and time :: js_number
  assumes "string_ok 64 identifier" "length hail \<le> 8000"
  shows "length (hail_bits identifier unique time hail) \<le> 8 * 8081"
  using assms varint_length_u32 [of "length (text_encode identifier)"] by (simp add: string_ok_def length_hail_bits)

lemma length_hail_message:
  fixes unique :: int and time :: js_number
  assumes "string_ok 64 identifier" "length hail \<le> 8000"
  defines "w \<equiv> hail_message identifier unique time hail new_writer"
  shows "wpos w \<le> 0xFFFF" "length (to_uint8_array w) = ceil_div (wpos w) 8" "length (to_uint8_array w) \<le> 8192"
proof -
  have e: "emits (hail_message identifier unique time hail) (hail_bits identifier unique time hail)"
    by (rule emits_hail [OF assms(1)])
  have small: "length (hail_bits identifier unique time hail) < 2 ^ 32"
    using length_hail_limit [OF assms(1,2), of unique time] by simp
  have pos: "wpos w = length (hail_bits identifier unique time hail)"
    unfolding w_def by (rule to_uint8_array_emits(2) [OF e small])
  show "wpos w \<le> 0xFFFF"
    using length_hail_limit [OF assms(1,2), of unique time] unfolding pos by simp
  have "8 * length (to_uint8_array w) = wpos w"
    using arg_cong [OF to_uint8_array_emits(1) [OF e small], of length] unfolding w_def [symmetric] pos by (simp add: pad_hail)
  then show "length (to_uint8_array w) = ceil_div (wpos w) 8" "length (to_uint8_array w) \<le> 8192"
    using length_hail_limit [OF assms(1,2), of unique time] ceil_div_mult [of 8 "length (to_uint8_array w)"] unfolding pos
    by (simp_all add: mult.commute)
qed

lemma read_hail:
  assumes id: "string_ok 64 (application_identifier opt)" "drop_bom (application_identifier opt) = application_identifier opt"
    and len: "length hail \<le> 8000"
  shows "\<exists>r. read_connect_response opt
      (new_reader (to_uint8_array (hail_message (application_identifier opt) unique time hail new_writer))) = Inr (Some hail, r)"
proof -
  let ?id = "application_identifier opt"
  let ?r = "new_reader (to_uint8_array (hail_message ?id unique time hail new_writer))"
  let ?e = "enc_string ?id" and ?u = "map (bit unique) [0..<64]" and ?t = "map (bit (f64_to_f32 time)) [0..<32]"
  let ?r1 = "adv (length ?e) ?r"
  let ?r2 = "adv (length ?u) ?r1"
  let ?r3 = "adv (length ?t) ?r2"
  have addressable: "addressable ?r"
    using length_hail_message(3) [OF id(1) len, of unique time] by simp
  have "length (hail_bits ?id unique time hail) < 2 ^ 32"
    using length_hail_limit [OF id(1) len] by (rule le_less_trans) simp
  from to_uint8_array_emits(1) [OF emits_hail [OF id(1)] this]
  have "bits_of (to_uint8_array (hail_message ?id unique time hail new_writer)) = hail_bits ?id unique time hail"
    by (simp only: pad_hail replicate_0 append_Nil2)
  then have rest: "rest ?r = ?e @ ?u @ ?t @ bits_of hail"
    by (simp add: rest_def new_reader_def hail_bits_def)
  have 1: "read_string 64 ?r = Inr (?id, ?r1)"
    using parsesD [OF parses_read_string [OF id(1)] addressable rest] id(2) by simp
  have rest1: "rest ?r1 = ?u @ ?t @ bits_of hail"
    by (rule rest_adv [OF rest])
  have 2: "\<exists>v. read_int64 ?r1 = Inr (v, ?r2)"
    using parsesD [OF int64.parses_read _ rest1] addressable by simp
  have rest2: "rest ?r2 = ?t @ bits_of hail"
    by (rule rest_adv [OF rest1])
  have 3: "\<exists>v. read_float32 ?r2 = Inr (v, ?r3)"
    using parsesD [OF float32.parses_read _ rest2] addressable by simp
  have rest3: "rest ?r3 = bits_of hail @ []"
    using rest_adv [OF rest2] by simp
  then have 4: "remaining_bits ?r3 div 8 = length hail"
    using length_rest [of ?r3] by simp
  have 5: "read_bytes (length hail) ?r3 = Inr (hail, adv (length (bits_of hail)) ?r3)"
    using addressable by (intro parsesD [OF parses_read_bytes _ rest3]) simp
  from 1 2 3 4 5 show ?thesis
    unfolding read_connect_response_def rd_bind_def by (auto simp: rd_return_def)
qed

section \<open>A connected client\<close>

definition connect_response :: "options \<Rightarrow> int \<Rightarrow> js_number \<Rightarrow> byte list \<Rightarrow> byte list" where
  "connect_response opt unique time hail =
     (let w = hail_message (application_identifier opt) unique time hail new_writer in
      message_bytes connect_response_type (to_uint8_array w) (wpos w) 0 False)"

text \<open>The two datagrams that the client itself sends: its hail, and the confirmation with its time.\<close>

definition connect_datagram :: "options \<Rightarrow> clock \<Rightarrow> byte list" where
  "connect_datagram opt clk =
     (let w = hail_message (application_identifier opt) (opt_unique_identifier opt) (now_s clk) (opt_hail opt) new_writer in
      message_bytes connect_type (to_uint8_array w) (wpos w) 0 False)"

definition established_datagram :: "clock \<Rightarrow> byte list" where
  "established_datagram clk =
     message_bytes connection_established_type (to_uint8_array (write_float32 (now_s clk) new_writer)) 32 0 False"

text \<open>A client that has been opened, has sent its connect message and has got a response.\<close>

definition handshaken :: "options \<Rightarrow> clock \<Rightarrow> byte list \<Rightarrow> client" where
  "handshaken opt clk datagram =
     handle opt clk (Ev_Datagram datagram) (handle opt clk Ev_Socket_Connected (handle opt clk Ev_Connect (new_client (now_ms clk))))"

lemma handshaken_reachable: "reachable opt (handshaken opt clk datagram)"
  unfolding handshaken_def by (intro reachable_step reachable_new)

lemma receive_loop_Nil: "receive_loop opt clk [] s = (Inr (), s)"
  by (simp add: receive_loop.simps)

lemma connect_sent:
  assumes "string_ok 64 (application_identifier opt)" "length (opt_hail opt) \<le> 8000"
  shows "handle opt clk Ev_Socket_Connected (handle opt clk Ev_Connect (new_client now))
    = (new_client now)\<lparr>socket := Socket_Open, handshake_attempts := 1, handshake_timer := True,
        effects := [Datagram_Sent (connect_datagram opt clk)]\<rparr>"
proof -
  let ?w = "hail_message (application_identifier opt) (opt_unique_identifier opt) (now_s clk) (opt_hail opt) new_writer"
  have "send_written connect_type (\<lambda>w. write_bytes (opt_hail opt) (write_float32 (now_s clk) (write_int64 (opt_unique_identifier opt)
      (write_string (application_identifier opt) w)))) = send_message connect_type (to_uint8_array ?w) (wpos ?w) 0 False"
    by (simp add: send_written_def Let_def hail_message_def)
  then show ?thesis
    using length_hail_message(1) [OF assms, of "opt_unique_identifier opt" "now_s clk"]
    by (simp add: handle_def connect_def socket_connected_def send_connect_def new_client_def send_message_def
        socket_send_def lid_defs emit_def connect_datagram_def Let_def)
qed

lemma established_open:
  assumes "socket s = Socket_Open" "\<not> closed s"
  shows "send_connection_established clk s = (Inr (), emit (Datagram_Sent (established_datagram clk)) s)"
proof -
  have "wpos (write_float32 (now_s clk) new_writer) = 32"
    using to_uint8_array_emits(2) [OF emits_write_float32] by simp
  with assms show ?thesis
    by (simp add: send_connection_established_def send_written_def Let_def send_message_def socket_send_def lid_defs
        established_datagram_def)
qed

lemma handshaken_state:
  assumes id: "string_ok 64 (application_identifier opt)" "drop_bom (application_identifier opt) = application_identifier opt"
    and len: "length hail \<le> 8000" "length (opt_hail opt) \<le> 8000"
  shows "handshaken opt clk (connect_response opt unique time hail) =
    (new_client (now_ms clk))\<lparr>socket := Socket_Open, connected := True, handshake_attempts := 1, maintenance_timer := True, sender_timer := True,
      effects := [Datagram_Sent (connect_datagram opt clk), Connected_Called hail, Datagram_Sent (established_datagram clk),
        Connect_Resolved]\<rparr>"
proof -
  let ?w = "hail_message (application_identifier opt) unique time hail new_writer"
  have c: "handle opt clk Ev_Socket_Connected (handle opt clk Ev_Connect (new_client (now_ms clk)))
    = (new_client (now_ms clk))\<lparr>socket := Socket_Open, handshake_attempts := 1, handshake_timer := True,
        effects := [Datagram_Sent (connect_datagram opt clk)]\<rparr>" (is "_ = ?s")
    by (rule connect_sent [OF id(1) len(2)])
  let ?s1 = "(emit (Connected_Called hail) ?s)\<lparr>connected := True, handshake_timer := False\<rparr>"
  have e: "send_connection_established clk ?s1 = (Inr (), emit (Datagram_Sent (established_datagram clk)) ?s1)"
    by (rule established_open) (simp_all add: new_client_def emit_def)
  obtain r where r: "read_connect_response opt (new_reader (to_uint8_array ?w)) = Inr (Some hail, r)"
    using read_hail [OF id len(1)] by blast
  note w = length_hail_message [OF id(1) len(1), of unique time]
  have response: "handle_connect_response opt clk (to_uint8_array ?w) ?s
      = (Inr (), emit Connect_Resolved ((emit (Datagram_Sent (established_datagram clk)) ?s1)\<lparr>maintenance_timer := True, sender_timer := True\<rparr>))"
    (is "_ = (_, ?s2)")
    using e by (simp add: handle_connect_response_def lid_with_def lid_bind_def lid_lift_def r lid_then_def lid_modify_def) (simp add: new_client_def)
  have loop: "receive_loop opt clk (connect_response opt unique time hail) ?s = (Inr (), ?s2)"
    using receive_framed [of connect_response_type 0 "wpos ?w" "to_uint8_array ?w" opt clk False "[]" ?s] w(1,2) response
    by (simp add: connect_response_def Let_def receive_message_def lidgren_types sequence_modulus_def receive_loop_Nil)
  have "length (connect_response opt unique time hail) \<le> max_datagram_bytes"
    using w(3) by (simp add: connect_response_def Let_def message_bytes_def max_datagram_bytes_def)
  then have "receive_datagram opt clk (connect_response opt unique time hail) ?s = (Inr (), ?s2)"
    using loop by (simp add: receive_datagram_def lid_with_def lid_then_def lid_bind_def lid_modify_def new_client_def lid_skip_def)
  then have "handshaken opt clk (connect_response opt unique time hail) = ?s2"
    unfolding handshaken_def c by (simp add: handle_def)
  then show ?thesis
    by (simp add: emit_def new_client_def)
qed

end
