(* ===== verification/Lidgren_Properties.thy ===== *)
theory Lidgren_Properties
  imports Lidgren_Framing
begin

text \<open>
  The properties of the Lidgren client: ordered delivery as a refinement of \<open>first_missing\<close>, the
  bounds on its windows and buffers in every reachable state, the settling of transfers, the framing
  of datagrams, fragmented transfers end to end, the handshake, and shutdown.
\<close>

text \<open>The options and the clock of the examples.\<close>

abbreviation sample_options :: options where
  "sample_options \<equiv> \<lparr>opt_application_identifier = None, opt_hail = [], opt_mtu = None, opt_unique_identifier = 7\<rparr>"

abbreviation sample_clock :: clock where
  "sample_clock \<equiv> \<lparr>now_ms = 5000, now_s = 0\<rparr>"

section \<open>Ordered delivery\<close>

text \<open>The arrival of messages of one channel, in any order, and what the specification makes of it.\<close>

fun arrive :: "clock \<Rightarrow> (nat \<Rightarrow> byte list) \<Rightarrow> nat \<Rightarrow> nat list \<Rightarrow> unit lid" where
  "arrive clk f ty [] = lid_skip"
| "arrive clk f ty (k # ks) = lid_then (receive_reliable_ordered clk (stream_message f ty k)) (arrive clk f ty ks)"

fun accept_all :: "nat list \<Rightarrow> nat list \<Rightarrow> nat list" where
  "accept_all R [] = R"
| "accept_all R (k # ks) = accept_all (accept R k) ks"

fun near_all :: "nat list \<Rightarrow> nat list \<Rightarrow> bool" where
  "near_all R [] = True"
| "near_all R (k # ks) = (near R k \<and> near_all (accept R k) ks)"

fun delivered :: "client_output list \<Rightarrow> byte list list" where
  "delivered [] = []"
| "delivered (Payload_Delivered p # es) = p # delivered es"
| "delivered (_ # es) = delivered es"

lemma delivered_append: "delivered (es @ fs) = delivered es @ delivered fs"
  by (induction es rule: delivered.induct) simp_all

lemma delivered_deliveries: "delivered (deliveries f n n') = map f [n..<n']"
proof -
  have "delivered (map (\<lambda>k. Payload_Delivered (f k)) ks) = map f ks" for ks
    by (induction ks) simp_all
  then show ?thesis
    by (simp add: deliveries_def)
qed

lemma first_missing_mono: "set R \<subseteq> set R' \<Longrightarrow> first_missing R \<le> first_missing R'"
  by (metis first_missing_props not_less subsetD)

lemma accept_set: "set R \<subseteq> set (accept R k)"
  by (auto simp: accept_def)

lemma accept_all_set: "set R \<subseteq> set (accept_all R ks)"
proof (induction ks arbitrary: R)
  case (Cons k ks)
  from subset_trans [OF accept_set Cons.IH] show ?case
    by simp
qed simp

lemma arrive_simulation:
  assumes "channel_rel f ty R s" "near_all R ks" "socket s = Socket_Open" "\<not> closed s"
  shows "\<exists>s'. arrive clk f ty ks s = (Inr (), s') \<and> channel_rel f ty (accept_all R ks) s'
    \<and> delivered (effects s') = delivered (effects s) @ map f [first_missing R..<first_missing (accept_all R ks)]"
  using assms
proof (induction ks arbitrary: R s)
  case Nil
  then show ?case
    by (simp add: lid_defs)
next
  case (Cons k ks)
  let ?R = "accept R k"
  have near: "near R k" "near_all ?R ks"
    using Cons.prems(2) by simp_all
  from receive_step [OF Cons.prems(1) near(1) Cons.prems(3,4), of clk] obtain s1 ack where s1: "receive_reliable_ordered clk (stream_message f ty k) s = (Inr (), s1)"
    "channel_rel f ty ?R s1" "socket s1 = Socket_Open" "\<not> closed s1"
    "effects s1 = effects s @ Datagram_Sent ack # deliveries f (first_missing R) (first_missing ?R)"
    by blast
  from Cons.IH [OF s1(2) near(2) s1(3,4)] obtain s2 where s2:
    "arrive clk f ty ks s1 = (Inr (), s2)" "channel_rel f ty (accept_all ?R ks) s2"
    "delivered (effects s2) = delivered (effects s1) @ map f [first_missing ?R..<first_missing (accept_all ?R ks)]"
    by blast
  have "first_missing R \<le> first_missing ?R" "first_missing ?R \<le> first_missing (accept_all ?R ks)"
    by (intro first_missing_mono accept_set accept_all_set)+
  then have "[first_missing R..<first_missing (accept_all ?R ks)]
      = [first_missing R..<first_missing ?R] @ [first_missing ?R..<first_missing (accept_all ?R ks)]"
    by (metis le_iff_add upt_add_eq_append)
  with s1 s2 show ?case
    by (simp add: lid_then_def lid_bind_def delivered_append delivered_deliveries)
qed

lemma first_missing_Nil: "first_missing [] = 0"
  by (rule first_missing_eq) simp_all

lemma channel_new: "map_of (expected_sequences s) ty = None \<Longrightarrow> map_of (withheld s) ty = None \<Longrightarrow> channel_rel f ty [] s"
  by (simp add: channel_rel_def map_get_def first_missing_Nil held_ok_def)

text \<open>
  C4: a channel of an open client on which nothing has arrived yet delivers a peer's stream of unfragmented
  messages in order, each once and without gaps, whatever is lost, reordered and duplicated on the way, as long as every arrival is near: at
  most 512 behind and less than 512 ahead of the first message still missing, half the sequence space. (The sequence numbers have ten bits,
  so that a copy of message 0 that arrives when 1024 is expected is taken for 1024.) What is delivered is
  exactly the stream up to the first message that has not been accepted, where a message is accepted when it is at
  most 64 ahead of that point.
\<close>

theorem reliable_in_order:
  assumes "socket s = Socket_Open" "\<not> closed s"
    and "map_of (expected_sequences s) ty = None" "map_of (withheld s) ty = None"
    and "near_all [] ks"
  shows "\<exists>s'. arrive clk f ty ks s = (Inr (), s')
    \<and> delivered (effects s') = delivered (effects s) @ map f [0..<first_missing (accept_all [] ks)]"
  using arrive_simulation [OF channel_new [OF assms(3,4)] assms(5,1,2)] by (auto simp: first_missing_Nil)

lemma reliable_in_order_witness:
  "\<exists>s'. arrive sample_clock (\<lambda>k. [of_nat k]) 67 [2, 0, 0, 1, 200] ((new_client 0)\<lparr>socket := Socket_Open\<rparr>) = (Inr (), s')
    \<and> delivered (effects s') = [[0], [1], [2]]"
proof -
  have fm: "first_missing [] = 0" "first_missing [2] = 0" "first_missing [0, 2] = 1" "first_missing [0, 0, 2] = 1"
    "first_missing [Suc 0, 0, 0, 2] = 3"
    by (simp_all add: first_missing_def upt_rec)
  have "near_all [] [2, 0, 0, 1, 200]" "accept_all [] [2, 0, 0, 1, 200] = [1, 0, 0, 2]"
    by (simp_all add: near_def accept_def fm)
  with reliable_in_order [of "(new_client 0)\<lparr>socket := Socket_Open\<rparr>" 67 "[2, 0, 0, 1, 200]" sample_clock "\<lambda>k. [of_nat k]"]
  show ?thesis
    by (auto simp: new_client_def fm upt_rec)
qed

fun window_all :: "nat list \<Rightarrow> nat list \<Rightarrow> bool" where
  "window_all R [] = True"
| "window_all R (k # ks) = (k \<le> first_missing R + 64 \<and> window_all (accept R k) ks)"

lemma window_accepts: "window_all R ks \<Longrightarrow> set (accept_all R ks) = set R \<union> set ks"
  by (induction ks arbitrary: R) (auto simp: accept_def)

text \<open>
  C20: nothing is lost of a stream of unfragmented messages on a channel of an open client on which nothing has
  arrived yet. If each of its first n messages arrives at least
  once, no message while it is more than 64 ahead of the first one still missing, and no late copy more than
  512 behind it (\<open>near_all\<close>, without which a sequence number stands for another message), then the first n messages
  have all been delivered, in order.
\<close>

theorem reliable_delivers:
  assumes "socket s = Socket_Open" "\<not> closed s"
    and "map_of (expected_sequences s) ty = None" "map_of (withheld s) ty = None"
    and "near_all [] ks" "window_all [] ks" and "{0..<n} \<subseteq> set ks"
  shows "\<exists>s' ps. arrive clk f ty ks s = (Inr (), s')
    \<and> delivered (effects s') = delivered (effects s) @ map f [0..<n] @ ps"
proof -
  let ?m = "first_missing (accept_all [] ks)"
  have "n \<le> ?m"
    using first_missing_props(1) [of "accept_all [] ks"] window_accepts [OF assms(6)] assms(7)
    by (metis Un_iff atLeastLessThan_iff le0 not_less subsetD)
  then have "[0..<?m] = [0..<n] @ [n..<?m]"
    by (metis le_iff_add upt_add_eq_append zero_le)
  moreover obtain s' where "arrive clk f ty ks s = (Inr (), s')"
    "delivered (effects s') = delivered (effects s) @ map f [0..<?m]"
    using arrive_simulation [OF channel_new [OF assms(3,4)] assms(5,1,2), where clk = clk and f = f]
    by (auto simp: first_missing_Nil)
  ultimately show ?thesis
    by (intro exI [of _ s'] exI [of _ "map f [n..<?m]"]) simp
qed

lemma reliable_delivers_witness:
  "\<exists>s' ps. arrive sample_clock (\<lambda>k. [of_nat k]) 67 [1, 2, 0] ((new_client 0)\<lparr>socket := Socket_Open\<rparr>) = (Inr (), s')
    \<and> delivered (effects s') = [0] # [1] # [2] # ps"
proof -
  have fm: "first_missing [] = 0" "first_missing [Suc 0] = 0" "first_missing [2, Suc 0] = 0" "first_missing [0, 2, Suc 0] = 3"
    by (simp_all add: first_missing_def upt_rec)
  have "near_all [] [1, 2, 0]" "window_all [] [1, 2, 0]" "{0..<3} \<subseteq> set [1, 2, 0::nat]"
    by (simp_all add: near_def accept_def fm) (auto simp: subset_eq less_Suc_eq numeral_eq_Suc)
  with reliable_delivers [of "(new_client 0)\<lparr>socket := Socket_Open\<rparr>" 67 "[1, 2, 0]" 3 sample_clock "\<lambda>k. [of_nat k]"]
  show ?thesis
    by (auto simp: new_client_def upt_rec)
qed

section \<open>A client to try the properties on\<close>

text \<open>A connected client, and the same client with a payload of three bytes on the way.\<close>

definition sample_connected :: client where
  "sample_connected = handshaken sample_options sample_clock (connect_response sample_options 9 0 [1, 2])"

definition sample_sending :: client where
  "sample_sending = handle sample_options sample_clock (Ev_Send [7, 8, 9] 0) sample_connected"

lemma sample_identifier: "string_ok 64 (application_identifier sample_options)"
  "drop_bom (application_identifier sample_options) = application_identifier sample_options"
  by (simp_all add: application_identifier_def string_ok_def string_eval drop_bom_def)

lemma sample_connected_state: "sample_connected =
  (new_client 5000)\<lparr>socket := Socket_Open, connected := True, handshake_attempts := 1, maintenance_timer := True, sender_timer := True,
    effects := [Datagram_Sent (connect_datagram sample_options sample_clock), Connected_Called [1, 2],
      Datagram_Sent (established_datagram sample_clock), Connect_Resolved]\<rparr>"
  unfolding sample_connected_def by (subst handshaken_state [OF sample_identifier]) simp_all

lemma js_integer_0: "js_integer 0 = Some 0"
  by (simp add: js_integer_def Let_def f64_exp_def f64_man_def f64_mag_def)

lemma sample_sending_state:
  obtains d where "sample_sending = (let s = sample_connected in
    s\<lparr>send_sequences := [(67, 1)], outgoing_transfers := [0], outgoing_bytes := 3, next_transfer := 1,
      pending_reliable := [((67, 0), \<lparr>p_attempts = 1, p_fragmented = False, p_last_sent_at = 5000, p_payload = [7, 8, 9],
        p_payload_bits = 24, p_sequence = 0, p_transfer = 0, p_type = 67\<rparr>)],
      transfer_store := (transfer_store s)(0 := \<lparr>t_chunk_byte_size = 1168, t_chunk_count = 1, t_group_id = 0, t_message_type = 67,
        t_next_chunk = 1, t_payload = [7, 8, 9], t_remaining = 1\<rparr>),
      effects := effects s @ [Datagram_Sent d]\<rparr>)"
proof -
  let ?t = "\<lparr>t_chunk_byte_size = 1168, t_chunk_count = 1, t_group_id = 0, t_message_type = 67, t_next_chunk = 0, t_payload = [7, 8, 9],
    t_remaining = 1\<rparr>"
  note s = sample_connected_state
  let ?s = sample_connected
  let ?s1 = "?s\<lparr>next_transfer := 1, transfer_store := (transfer_store ?s)(0 := ?t), outgoing_bytes := 3, outgoing_transfers := [0],
    transfer_queue := [0]\<rparr>"
  have enqueue: "enqueue_transfer 1200 67 [7, 8, 9] ?s = (0, ?s1)"
    by (simp add: enqueue_transfer_def Let_def s new_client_def)
  let ?s2 = "flush_state sample_clock 0 ?s1"
  have p: "flush_pending sample_clock 0 ?s1 = \<lparr>p_attempts = 1, p_fragmented = False, p_last_sent_at = 5000, p_payload = [7, 8, 9],
        p_payload_bits = 24, p_sequence = 0, p_transfer = 0, p_type = 67\<rparr>"
    by (simp add: flush_pending_def Let_def encode_chunk_def chunk_of_def map_get_def) (simp add: s new_client_def)
  let ?d = "message_bytes 67 [7, 8, 9] 24 0 False"
  have "socket ?s2 = Socket_Open" "\<not> closed ?s2"
    by (simp_all add: flush_state_def Let_def) (simp_all add: s new_client_def)
  then have "flush_step sample_clock 0 ?s1 = (Inr (), emit (Datagram_Sent ?d) ?s2)"
    unfolding flush_step_eq p by (simp add: send_message_def socket_send_def lid_defs)
  moreover have "transfer_queue ?s2 = []" "length (pending_reliable ?s2) = 1" "length (pending_reliable ?s1) = 0"
    by (simp_all add: flush_state_def Let_def) (simp_all add: s new_client_def)
  ultimately have "flush_reliable_queue sample_clock ?s1 = (Inr (), emit (Datagram_Sent ?d) ?s2)"
    by (subst flush_reliable_queue.simps, subst flush_reliable_queue.simps) (simp add: send_window_def emit_def)
  moreover have "connected ?s" "\<not> closing ?s" "\<not> closed ?s" "outgoing_bytes ?s = 0" "outgoing_transfers ?s = []"
    by (simp_all add: s new_client_def)
  ultimately have "sample_sending = emit (Datagram_Sent ?d) ?s2"
    using enqueue by (simp add: sample_sending_def handle_def send_reliable_ordered_def lid_defs js_integer_0 default_mtu_def
        max_outgoing_bytes_def max_outgoing_transfers_def reliable_ordered_type_def)
  then show ?thesis
    unfolding flush_state_def Let_def p
    by (intro that [of ?d]) (simp add: emit_def map_get_def sequence_modulus_def s new_client_def Let_def)
qed

lemma sample_reachable: "reachable sample_options sample_connected" "reachable sample_options sample_sending"
  unfolding sample_sending_def sample_connected_def by (intro reachable_step handshaken_reachable)+

lemma sample_pending:
  "pending_reliable sample_sending = [((67, 0), \<lparr>p_attempts = 1, p_fragmented = False, p_last_sent_at = 5000, p_payload = [7, 8, 9],
     p_payload_bits = 24, p_sequence = 0, p_transfer = 0, p_type = 67\<rparr>)]"
  "outgoing_transfers sample_sending = [0]" "outgoing_bytes sample_sending = 3" "transfer_queue sample_sending = []"
  "transfer_store sample_sending 0 = \<lparr>t_chunk_byte_size = 1168, t_chunk_count = 1, t_group_id = 0, t_message_type = 67,
     t_next_chunk = 1, t_payload = [7, 8, 9], t_remaining = 1\<rparr>"
proof -
  note s = sample_connected_state
  obtain d where d: "sample_sending = (let s = sample_connected in
    s\<lparr>send_sequences := [(67, 1)], outgoing_transfers := [0], outgoing_bytes := 3, next_transfer := 1,
      pending_reliable := [((67, 0), \<lparr>p_attempts = 1, p_fragmented = False, p_last_sent_at = 5000, p_payload = [7, 8, 9],
        p_payload_bits = 24, p_sequence = 0, p_transfer = 0, p_type = 67\<rparr>)],
      transfer_store := (transfer_store s)(0 := \<lparr>t_chunk_byte_size = 1168, t_chunk_count = 1, t_group_id = 0, t_message_type = 67,
        t_next_chunk = 1, t_payload = [7, 8, 9], t_remaining = 1\<rparr>),
      effects := effects s @ [Datagram_Sent d]\<rparr>)"
    by (rule sample_sending_state)
  show "pending_reliable sample_sending = [((67, 0), \<lparr>p_attempts = 1, p_fragmented = False, p_last_sent_at = 5000, p_payload = [7, 8, 9],
     p_payload_bits = 24, p_sequence = 0, p_transfer = 0, p_type = 67\<rparr>)]"
    "outgoing_transfers sample_sending = [0]" "outgoing_bytes sample_sending = 3" "transfer_queue sample_sending = []"
    "transfer_store sample_sending 0 = \<lparr>t_chunk_byte_size = 1168, t_chunk_count = 1, t_group_id = 0, t_message_type = 67,
     t_next_chunk = 1, t_payload = [7, 8, 9], t_remaining = 1\<rparr>"
    by (simp_all add: d Let_def) (simp add: s new_client_def)
qed

section \<open>Bounds in every reachable state\<close>

lemma alist_all:
  "distinct (map fst al) \<Longrightarrow> (\<And>k v. map_of al k = Some v \<Longrightarrow> P k v) \<Longrightarrow> (k, v) \<in> set al \<Longrightarrow> P k v"
  by simp

text \<open>
  C11: at most 64 reliable messages wait for their acknowledgement, each under its own type and sequence number,
  with a sequence number of ten bits and after one to twenty attempts.
\<close>

theorem send_window_bounded:
  assumes "reachable opt s"
  shows "length (pending_reliable s) \<le> 64
    \<and> (\<forall>(key, p) \<in> set (pending_reliable s). key = (p_type p, p_sequence p) \<and> p_sequence p < 1024
        \<and> 67 \<le> p_type p \<and> p_type p < 99 \<and> 1 \<le> p_attempts p \<and> p_attempts p \<le> 20)"
proof -
  have inv: "pending_inv s"
    by (rule pending.reachable_keeps [OF assms])
  have "pending_ok key p" if "(key, p) \<in> set (pending_reliable s)" for key p
    by (rule alist_all [OF _ _ that]) (use inv in \<open>auto simp: pending_inv_def wf_maps_def\<close>)
  with inv show ?thesis
    by (auto simp: pending_inv_def send_window_def pending_ok_def max_send_attempts_def sequence_modulus_def reliable_ordered_type_def)
qed

lemma send_window_bounded_witness:
  "length (pending_reliable sample_sending) = 1 \<and> length (pending_reliable sample_sending) \<le> 64"
  using send_window_bounded [OF sample_reachable(2)] by (simp add: sample_pending)

text \<open>
  C27: the transfers of the set are distinct, at most 128, and their payloads add up to the byte count, at
  most 64 MiB; whatever is queued or waits for an acknowledgement belongs to one of them.
\<close>

theorem outgoing_accounting:
  assumes "reachable opt s"
  shows "distinct (outgoing_transfers s) \<and> length (outgoing_transfers s) \<le> 128
    \<and> outgoing_bytes s = (\<Sum>a\<leftarrow>outgoing_transfers s. int (length (t_payload (transfer_store s a))))
    \<and> outgoing_bytes s \<le> 64 * 1024 * 1024
    \<and> set (transfer_queue s) \<subseteq> set (outgoing_transfers s)
    \<and> (\<forall>(key, p) \<in> set (pending_reliable s). p_transfer p \<in> set (outgoing_transfers s))"
proof -
  have inv: "outgoing_inv s"
    by (rule outgoing.reachable_keeps [OF assms])
  have "p_transfer p \<in> set (outgoing_transfers s)" if "(key, p) \<in> set (pending_reliable s)" for key p
    by (rule alist_all [OF _ _ that]) (use inv in \<open>auto simp: outgoing_inv_def wf_maps_def\<close>)
  with inv show ?thesis
    by (auto simp: outgoing_inv_def outgoing_sum_def max_outgoing_bytes_def max_outgoing_transfers_def)
qed

lemma outgoing_accounting_witness:
  "outgoing_transfers sample_sending = [0] \<and> outgoing_bytes sample_sending = 3
   \<and> outgoing_bytes sample_sending = (\<Sum>a\<leftarrow>outgoing_transfers sample_sending. int (length (t_payload (transfer_store sample_sending a))))"
  using outgoing_accounting [OF sample_reachable(2)] by (simp add: sample_pending)

text \<open>
  C21: the fragments held are counted exactly and never exceed 8 MiB in at most 32 groups; a group holds
  each chunk once, under a number below the chunk count, and only chunks of the right size.
\<close>

theorem fragment_memory_bounded:
  assumes "reachable opt s"
  shows "length (fragments s) \<le> 32
    \<and> fragment_bytes s = (\<Sum>(key, g)\<leftarrow>fragments s. \<Sum>(n, c)\<leftarrow>g_chunks g. int (length c))
    \<and> fragment_bytes s \<le> 8 * 1024 * 1024
    \<and> (\<forall>(key, g) \<in> set (fragments s). group_ok g)"
proof -
  have inv: "fragment_inv s"
    by (rule fragment.reachable_keeps [OF assms])
  have "group_ok g" if "(key, g) \<in> set (fragments s)" for key g
    by (rule alist_all [OF _ _ that]) (use inv in \<open>auto simp: fragment_inv_def wf_maps_def\<close>)
  moreover have "alist_sum group_bytes (fragments s) = (\<Sum>(key, g)\<leftarrow>fragments s. \<Sum>(n, c)\<leftarrow>g_chunks g. int (length c))"
    by (simp add: alist_sum_def group_bytes_def split_def)
  ultimately show ?thesis
    using inv by (auto simp: fragment_inv_def max_fragment_groups_def max_fragment_bytes_def)
qed

lemma fragment_memory_bounded_witness:
  "fragments sample_connected = [] \<and> fragment_bytes sample_connected = (\<Sum>(key, g)\<leftarrow>fragments sample_connected. \<Sum>(n, c)\<leftarrow>g_chunks g. int (length c))
   \<and> fragment_bytes sample_connected \<le> 8 * 1024 * 1024"
proof -
  note s = sample_connected_state
  have "fragments sample_connected = []"
    by (simp add: s new_client_def)
  with fragment_memory_bounded [OF sample_reachable(1)] show ?thesis
    by simp
qed

section \<open>Settling a transfer\<close>

text \<open>
  C28: over any run, each transfer ever accepted is open or has been settled, exactly one of the two and
  settled at most once. The promise of a transfer is resolved only when all its chunks have been sent, the count
  of its unacknowledged chunks has come down to zero and no message of it waits for an acknowledgement;
  while it is open that count is positive.
\<close>

theorem transfer_resolved_when_acknowledged:
  assumes "reachable opt s"
  shows "distinct (outgoing_transfers s @ map settled_transfer (settled s))
    \<and> set (outgoing_transfers s @ map settled_transfer (settled s)) = {0..<next_transfer s}
    \<and> (\<forall>a. Transfer_Resolved a \<in> set (effects s) \<longrightarrow>
         t_next_chunk (transfer_store s a) = t_chunk_count (transfer_store s a) \<and> t_remaining (transfer_store s a) = 0
         \<and> (\<forall>(key, p) \<in> set (pending_reliable s). p_transfer p \<noteq> a))
    \<and> (\<forall>a\<in>set (outgoing_transfers s). 0 < t_remaining (transfer_store s a))"
proof -
  have inv: "transfers_inv s"
    by (rule settle.reachable_keeps [OF assms])
  then have out: "outgoing_inv s"
    by (simp add: transfers_inv_def)
  have open_: "p_transfer p \<in> set (outgoing_transfers s)" if "(key, p) \<in> set (pending_reliable s)" for key p
    by (rule alist_all [OF _ _ that]) (use out in \<open>auto simp: outgoing_inv_def wf_maps_def\<close>)
  have "t_next_chunk (transfer_store s a) = t_chunk_count (transfer_store s a) \<and> t_remaining (transfer_store s a) = 0
      \<and> a \<notin> set (outgoing_transfers s)" if r: "Transfer_Resolved a \<in> set (effects s)" for a
  proof -
    have "Transfer_Resolved a \<in> set (settled s)"
      using r by (simp add: settled_def)
    moreover from this have "a \<in> settled_transfer ` set (settled s)"
      by force
    ultimately show ?thesis
      using inv by (auto simp: transfers_inv_def done_transfer_def unsent_def)
  qed
  moreover have "\<forall>a\<in>set (outgoing_transfers s). 0 < t_remaining (transfer_store s a)"
    using out by (simp add: outgoing_inv_def transfer_ok_def)
  ultimately show ?thesis
    using inv open_ unfolding transfers_inv_def by blast
qed

text \<open>The transfer of \<open>sample_sending\<close>, acknowledged by a datagram.\<close>

lemma sample_acknowledged:
  "handle sample_options sample_clock (Ev_Datagram (message_bytes acknowledge_type [67, 0, 0] 24 0 False)) sample_sending
    = acknowledge 67 0 sample_sending"
proof -
  obtain d where d: "sample_sending = (let s = sample_connected in
    s\<lparr>send_sequences := [(67, 1)], outgoing_transfers := [0], outgoing_bytes := 3, next_transfer := 1,
      pending_reliable := [((67, 0), \<lparr>p_attempts = 1, p_fragmented = False, p_last_sent_at = 5000, p_payload = [7, 8, 9],
        p_payload_bits = 24, p_sequence = 0, p_transfer = 0, p_type = 67\<rparr>)],
      transfer_store := (transfer_store s)(0 := \<lparr>t_chunk_byte_size = 1168, t_chunk_count = 1, t_group_id = 0, t_message_type = 67,
        t_next_chunk = 1, t_payload = [7, 8, 9], t_remaining = 1\<rparr>),
      effects := effects s @ [Datagram_Sent d]\<rparr>)"
    by (rule sample_sending_state)
  have "socket sample_sending = Socket_Open" "\<not> closing sample_sending" "\<not> closed sample_sending"
    "sample_sending\<lparr>last_received_at := 5000\<rparr> = sample_sending"
    by (simp_all add: d Let_def) (simp_all add: sample_connected_state new_client_def)
  moreover have "transfer_queue (acknowledge 67 0 sample_sending) = []"
    by (simp add: acknowledge_def Let_def sample_pending complete_transfer_def emit_def)
  moreover from this have "receive_message sample_options sample_clock
      \<lparr>in_fragmented = False, in_payload = [67, 0, 0], in_sequence = 0, in_type = acknowledge_type\<rparr> sample_sending
      = (Inr (), acknowledge 67 0 sample_sending)"
    by (simp add: receive_message_def lidgren_types receive_acknowledgements_def lid_then_def lid_bind_def lid_modify_def
        flush_reliable_queue.simps)
  from receive_framed [of acknowledge_type 0 24 "[67, 0, 0]" sample_options sample_clock False "[]" sample_sending] this
  have "receive_loop sample_options sample_clock (message_bytes acknowledge_type [67, 0, 0] 24 0 False @ []) sample_sending
      = (Inr (), acknowledge 67 0 sample_sending)"
    by (simp add: acknowledge_type_def receive_loop_Nil ceil_div_def sequence_modulus_def)
  ultimately show ?thesis
    by (simp add: handle_def receive_datagram_def lid_defs message_bytes_def max_datagram_bytes_def)
qed

lemma transfer_resolved_when_acknowledged_witness:
  "let s = handle sample_options sample_clock (Ev_Datagram (message_bytes acknowledge_type [67, 0, 0] 24 0 False)) sample_sending in
   Transfer_Resolved 0 \<in> set (effects s) \<and> t_next_chunk (transfer_store s 0) = t_chunk_count (transfer_store s 0)
   \<and> t_remaining (transfer_store s 0) = 0"
proof -
  have "Transfer_Resolved 0 \<in> set (effects (acknowledge 67 0 sample_sending))"
    by (simp add: acknowledge_def Let_def sample_pending complete_transfer_def emit_def)
  with transfer_resolved_when_acknowledged [OF reachable_step [OF sample_reachable(2)], of sample_clock
      "Ev_Datagram (message_bytes acknowledge_type [67, 0, 0] 24 0 False)"]
  show ?thesis
    by (simp add: sample_acknowledged Let_def)
qed

lemma send_open:
  "socket s = Socket_Open \<Longrightarrow> \<not> closed s \<Longrightarrow> \<exists>s'. send_message ty p b q f s = (Inr (), s') \<and> socket s' = Socket_Open \<and> \<not> closed s'"
  by (cases "0xFFFF < b") (simp_all add: send_message_def socket_send_def lid_defs emit_def)

text \<open>
  C35: as long as the socket is open, flushing the queue returns without an error, and stops only with a
  full window or an empty queue.
\<close>

theorem flush_fills_window:
  assumes "socket s = Socket_Open" "\<not> closed s"
  shows "\<exists>s'. flush_reliable_queue clk s = (Inr (), s') \<and> (64 \<le> length (pending_reliable s') \<or> transfer_queue s' = [])"
  using assms
proof (induction clk s rule: flush_reliable_queue.induct)
  case (1 clk s)
  show ?case
  proof (cases "length (pending_reliable s) < send_window \<and> transfer_queue s \<noteq> []")
    case True
    then obtain a as where q: "transfer_queue s = a # as"
      by (cases "transfer_queue s") auto
    have "socket (flush_state clk a s) = Socket_Open" "\<not> closed (flush_state clk a s)"
      using "1.prems" by (simp_all add: flush_state_def Let_def)
    then obtain s' where step: "flush_step clk a s = (Inr (), s')" "socket s' = Socket_Open" "\<not> closed s'"
      unfolding flush_step_eq using send_open by blast
    from "1.IH" [OF _ q step(1) [symmetric] refl step(2,3)] True q step(1) show ?thesis
      by (simp add: flush_reliable_queue.simps [of clk s])
  next
    case False
    then show ?thesis
      by (auto simp: flush_reliable_queue.simps [of clk s] send_window_def split: list.splits)
  qed
qed

lemma flush_fills_window_witness:
  "flush_reliable_queue sample_clock sample_connected = (Inr (), sample_connected) \<and> transfer_queue sample_connected = []"
proof -
  note s = sample_connected_state
  have "socket sample_connected = Socket_Open" "\<not> closed sample_connected" "transfer_queue sample_connected = []"
    by (simp_all add: s new_client_def)
  with flush_fills_window [of sample_connected sample_clock] show ?thesis
    by (simp add: flush_reliable_queue.simps split: if_splits)
qed

section \<open>Datagrams and fragments\<close>

text \<open>
  C36: a datagram that starts with a message built by the sender is received as exactly that message (its
  type, sequence number, fragment flag and payload), and then as the rest of the datagram.
\<close>

theorem datagram_framing:
  assumes "ty < 256" "q < 1024" "bits \<le> 0xFFFF" "length payload = ceil_div bits 8"
  shows "receive_loop opt clk (message_bytes ty payload bits q f @ behind) s =
    (case receive_message opt clk \<lparr>in_fragmented = f, in_payload = payload, in_sequence = q, in_type = ty\<rparr> s of
       (Inl e, s') \<Rightarrow> (Inl e, s')
     | (Inr _, s') \<Rightarrow> receive_loop opt clk behind s')"
  using assms by (intro receive_framed) (simp_all add: sequence_modulus_def)

lemma datagram_framing_witness:
  "receive_loop sample_options sample_clock (message_bytes 200 [7, 8] 13 1023 True @ [1, 2, 3]) (new_client 0)
    = (Inr (), fail (Client_Error ''Malformed Lidgren datagram header'') (new_client 0))"
proof -
  have "receive_loop sample_options sample_clock [1, 2, 3] (new_client 0) = (Inr (), fail (Client_Error ''Malformed Lidgren datagram header'') (new_client 0))"
    by (simp add: receive_loop.simps)
  then show ?thesis
    using datagram_framing [of 200 1023 13 "[7, 8]" sample_options sample_clock True "[1, 2, 3]" "new_client 0"]
    by (simp add: receive_message_def lidgren_types lid_defs ceil_div_def)
qed

text \<open>
  C22: a transfer that the receiver has room for (\<open>transferable\<close>) arrives whole. When its payload and its
  chunk size have at least one byte and at most 2 MiB, its group id is a positive 32-bit number that no open group of its channel
  has, there are fewer than 32 open groups and the payload fits into what is left of the 8 MiB for
  fragments, the chunks that the sender makes of it, released in order, deliver its payload once, with the last
  of them, and leave no fragment behind; with only some of them nothing is delivered.
\<close>

theorem fragmented_transfer_delivered:
  assumes "transferable t s"
  shows "release_all clk (\<lambda>n. fragment_message t (q n) n) (t_chunk_count t) s = (Inr (), emit (Payload_Delivered (t_payload t)) s)
    \<and> (\<forall>k<t_chunk_count t. \<exists>s'. release_all clk (\<lambda>n. fragment_message t (q n) n) k s = (Inr (), s') \<and> effects s' = effects s)"
proof -
  have "effects (partial_state t now k s) = effects s" for now k
    by (simp add: partial_state_def)
  with release_chunks [OF assms, of "t_chunk_count t" clk q] show ?thesis
    by (auto simp: release_chunks [OF assms])
qed

lemma fragmented_transfer_delivered_witness:
  "release_all (\<lambda>_. sample_clock) (\<lambda>n. fragment_message \<lparr>t_chunk_byte_size = 2, t_chunk_count = 3, t_group_id = 1, t_message_type = 67,
      t_next_chunk = 0, t_payload = [1, 2, 3, 4, 5], t_remaining = 3\<rparr> n n) 3 (new_client 0)
    = (Inr (), emit (Payload_Delivered [1, 2, 3, 4, 5]) (new_client 0))"
proof -
  have "transferable \<lparr>t_chunk_byte_size = 2, t_chunk_count = 3, t_group_id = 1, t_message_type = 67,
      t_next_chunk = 0, t_payload = [1, 2, 3, 4, 5], t_remaining = 3\<rparr> (new_client 0)"
    by (simp add: transferable_def new_client_def max_reassembled_bytes_def max_fragment_groups_def max_fragment_bytes_def ceil_div_def)
  from fragmented_transfer_delivered [OF this, of "\<lambda>_. sample_clock" "\<lambda>n. n"] show ?thesis
    by simp
qed

section \<open>Opening and closing\<close>

text \<open>
  C34: a client whose application identifier is well formed, at most 64 bytes in UTF-8 and without a leading
  byte-order mark, and whose hail and the peer's have at most 8000 bytes each, connects when it is opened and
  gets a response with its own identifier. What it does outside is, in this order: it sends the connect message
  with its identifier, its unique number, the time and its hail; it calls its owner once with the peer's hail;
  it sends the confirmation with the time; and it resolves the connect promise. Both maintenance timers run
  and the handshake timer is off.
\<close>

theorem handshake_connects:
  assumes "string_ok 64 (application_identifier opt)" "drop_bom (application_identifier opt) = application_identifier opt"
    and "length hail \<le> 8000" "length (opt_hail opt) \<le> 8000"
  shows "let s = handshaken opt clk (connect_response opt unique time hail);
      w = write_bytes (opt_hail opt) (write_float32 (now_s clk) (write_int64 (opt_unique_identifier opt)
        (write_string (application_identifier opt) new_writer))) in
    connected s \<and> \<not> closing s \<and> maintenance_timer s \<and> sender_timer s \<and> \<not> handshake_timer s
    \<and> effects s = [Datagram_Sent (message_bytes 131 (to_uint8_array w) (wpos w) 0 False), Connected_Called hail,
        Datagram_Sent (message_bytes 133 (to_uint8_array (write_float32 (now_s clk) new_writer)) 32 0 False), Connect_Resolved]"
  by (simp add: handshaken_state [OF assms] new_client_def Let_def connect_datagram_def established_datagram_def
      hail_message_def lidgren_types)

lemma handshake_connects_witness:
  "connected sample_connected \<and> Connected_Called [1, 2] \<in> set (effects sample_connected)
   \<and> Datagram_Sent (message_bytes 133 (to_uint8_array (write_float32 0 new_writer)) 32 0 False) \<in> set (effects sample_connected)"
  using handshake_connects [OF sample_identifier, of "[1, 2]" sample_clock 9 0] by (simp add: sample_connected_def Let_def)

text \<open>
  C33: closing is final and quiet, event by event. A reachable client that is closing stays closing, and all it
  does outside is reject open transfers, close its socket and settle the promise of its end: it sends and
  delivers nothing. While it is closing its maintenance and sender timers are off. So is its handshake timer:
  the event that makes the client close stops it and no later one starts it. The one event left out there is the
  connect callback of the socket, which starts that timer whatever the state of the client.
\<close>

theorem closing_is_silent:
  assumes "reachable opt s"
  shows "let s' = handle opt clk ev s in
    (closing s' \<longrightarrow> \<not> maintenance_timer s' \<and> \<not> sender_timer s')
    \<and> (closing s' \<and> (closing s \<longrightarrow> \<not> handshake_timer s) \<and> ev \<noteq> Ev_Socket_Connected \<longrightarrow> \<not> handshake_timer s')
    \<and> (closing s \<longrightarrow> closing s' \<and> (\<exists>es. effects s' = effects s @ es \<and> list_all quiet_output es))"
proof -
  have s: "shut s"
    by (rule reachable_shut [OF assms])
  from shut_keeps [OF s, where opt = opt and clk = clk and ev = ev] closing_quiet [OF s, of opt clk ev] closing_stays [OF s, of opt clk ev]
    closing_timer [OF s, of ev opt clk] show ?thesis
    by (auto simp: shut_def quietly_def list_all_iff Let_def)
qed

lemma closing_is_silent_witness:
  "let s = handle sample_options sample_clock Ev_Socket_Error sample_connected in
   closing s \<and> \<not> handshake_timer s \<and> \<not> maintenance_timer s \<and> \<not> sender_timer s"
proof -
  let ?s = "handle sample_options sample_clock Ev_Socket_Error sample_connected"
  have "?s = fail (Client_Error ''UDP transport error'') sample_connected" "\<not> closing sample_connected"
    by (simp_all add: handle_def) (simp_all add: sample_connected_state new_client_def)
  then have "closing ?s" "\<not> closing sample_connected"
    by (simp_all add: fail_def Let_def reject_connect_def reject_reliable_def close_socket_def emit_def clear_timers_def
        sample_connected_state new_client_def)
  with closing_is_silent [OF sample_reachable(1), of sample_clock Ev_Socket_Error] show ?thesis
    by (simp add: Let_def)
qed

end
