(* ===== verification/Admission.thy ===== *)
theory Admission
  imports Zeep_Prelude "HOL-Library.Multiset"
begin

text \<open>
  The admission controller of the GraphQL server
  (\<open>packages/postgraphile/src/admissionController.ts\<close>): at most \<open>maxConcurrent\<close> tasks run, at most
  \<open>maxQueued\<close> wait.

  A task is a number. The variables of the closure are the record \<open>admission\<close>; \<open>ad_running\<close> lists the
  tasks whose promise is open, which the source keeps in its pending calls of \<open>start\<close>. What the
  controller does to the outside (a task started, its promise settled, the statistics reported, the
  drain promise resolved) is appended to \<open>ad_outputs\<close>. An event is a call of the interface or the
  settling of a task; it runs to completion, as JavaScript callbacks do. The tasks and
  \<open>onStatsChange\<close> do not call the controller back.
\<close>

section \<open>State\<close>

datatype admission_output =
    Task_Started nat
  | Task_Resolved nat
  | Task_Rejected nat
  | Task_Closed nat
  | Stats_Changed nat nat
  | Drained

record admission =
  ad_active :: nat
  ad_disposed :: bool
  resolve_drain :: bool
  dispose_promise :: bool
  task_queue :: "nat list"
  ad_running :: "nat list"
  ad_outputs :: "admission_output list"

definition new_admission :: admission where
  "new_admission = \<lparr>ad_active = 0, ad_disposed = False, resolve_drain = False, dispose_promise = False,
     task_queue = [], ad_running = [], ad_outputs = []\<rparr>"

definition ad_out :: "admission_output \<Rightarrow> admission \<Rightarrow> admission" where
  "ad_out e s = s\<lparr>ad_outputs := ad_outputs s @ [e]\<rparr>"

section \<open>Operations\<close>

definition ad_stats :: "admission \<Rightarrow> nat \<times> nat" where
  "ad_stats s = (ad_active s, length (task_queue s))"

definition ad_notify :: "admission \<Rightarrow> admission" where
  "ad_notify s = (let (a, q) = ad_stats s in ad_out (Stats_Changed a q) s)"

text \<open>\<open>start\<close> up to its first \<open>await\<close>: the task runs.\<close>

definition ad_start :: "nat \<Rightarrow> admission \<Rightarrow> admission" where
  "ad_start t s = ad_out (Task_Started t) ((ad_notify (s\<lparr>ad_active := ad_active s + 1\<rparr>))\<lparr>ad_running := ad_running s @ [t]\<rparr>)"

function pump :: "nat \<Rightarrow> admission \<Rightarrow> admission" where
  "pump maxConcurrent s =
     (if \<not> ad_disposed s \<and> ad_active s < maxConcurrent then
        (case task_queue s of
           [] \<Rightarrow> s
         | t # ts \<Rightarrow> pump maxConcurrent (ad_start t (s\<lparr>task_queue := ts\<rparr>)))
      else s)"
  by pat_completeness auto
termination
  by (relation "measure (\<lambda>(m, s). length (task_queue s))") (auto simp: ad_start_def ad_notify_def ad_stats_def ad_out_def)

declare pump.simps [simp del]

text \<open>The rest of \<open>start\<close>, when the promise of the task settles.\<close>

definition settle :: "nat \<Rightarrow> nat \<Rightarrow> bool \<Rightarrow> admission \<Rightarrow> admission" where
  "settle maxConcurrent t ok s =
     (let s1 = ad_out (if ok then Task_Resolved t else Task_Rejected t) (s\<lparr>ad_running := remove1 t (ad_running s)\<rparr>);
          s2 = ad_notify (pump maxConcurrent (s1\<lparr>ad_active := ad_active s1 - 1\<rparr>)) in
      if ad_disposed s2 \<and> ad_active s2 = 0 \<and> resolve_drain s2 then ad_out Drained s2 else s2)"

text \<open>\<open>admit\<close>: whether a promise is returned, and the state.\<close>

definition admit :: "nat \<Rightarrow> nat \<Rightarrow> nat \<Rightarrow> admission \<Rightarrow> bool \<times> admission" where
  "admit maxConcurrent maxQueued t s =
     (if ad_disposed s then (False, s)
      else if maxConcurrent \<le> ad_active s \<and> maxQueued \<le> length (task_queue s) then (False, s)
      else if ad_active s < maxConcurrent then (True, ad_start t s)
      else (True, ad_notify (s\<lparr>task_queue := task_queue s @ [t]\<rparr>)))"

definition ad_dispose :: "admission \<Rightarrow> admission" where
  "ad_dispose s =
     (if dispose_promise s then s
      else
        let s1 = fold (\<lambda>t. ad_out (Task_Closed t)) (task_queue s) (s\<lparr>ad_disposed := True, task_queue := []\<rparr>);
            s2 = ad_notify s1 in
        if ad_active s2 = 0 then ad_out Drained (s2\<lparr>dispose_promise := True\<rparr>)
        else s2\<lparr>dispose_promise := True, resolve_drain := True\<rparr>)"

section \<open>Runs\<close>

datatype admission_event = Ad_Admit | Ad_Settle nat bool | Ad_Dispose

text \<open>
  A run over events: the tasks offered are numbered by \<open>n\<close>; the value says which of them were admitted,
  in order. A settling of a task that does not run is no event.
\<close>

fun admission_run :: "nat \<Rightarrow> nat \<Rightarrow> admission_event list \<Rightarrow> nat \<Rightarrow> nat list \<Rightarrow> admission \<Rightarrow> nat list \<times> admission" where
  "admission_run maxConcurrent maxQueued [] n adm s = (adm, s)"
| "admission_run maxConcurrent maxQueued (Ad_Admit # es) n adm s =
     (let (ok, s') = admit maxConcurrent maxQueued n s in
      admission_run maxConcurrent maxQueued es (n + 1) (if ok then adm @ [n] else adm) s')"
| "admission_run maxConcurrent maxQueued (Ad_Settle t ok # es) n adm s =
     admission_run maxConcurrent maxQueued es n adm (if t \<in> set (ad_running s) then settle maxConcurrent t ok s else s)"
| "admission_run maxConcurrent maxQueued (Ad_Dispose # es) n adm s =
     admission_run maxConcurrent maxQueued es n adm (ad_dispose s)"

section \<open>What an output log says\<close>

fun ad_started :: "admission_output list \<Rightarrow> nat list" where
  "ad_started [] = []"
| "ad_started (Task_Started t # es) = t # ad_started es"
| "ad_started (_ # es) = ad_started es"

fun ad_closed :: "admission_output list \<Rightarrow> nat list" where
  "ad_closed [] = []"
| "ad_closed (Task_Closed t # es) = t # ad_closed es"
| "ad_closed (_ # es) = ad_closed es"

fun ad_finished :: "admission_output list \<Rightarrow> nat list" where
  "ad_finished [] = []"
| "ad_finished (Task_Resolved t # es) = t # ad_finished es"
| "ad_finished (Task_Rejected t # es) = t # ad_finished es"
| "ad_finished (_ # es) = ad_finished es"

lemma ad_started_append [simp]: "ad_started (es @ fs) = ad_started es @ ad_started fs"
  by (induction es rule: ad_started.induct) simp_all

lemma ad_closed_append [simp]: "ad_closed (es @ fs) = ad_closed es @ ad_closed fs"
  by (induction es rule: ad_closed.induct) simp_all

lemma ad_finished_append [simp]: "ad_finished (es @ fs) = ad_finished es @ ad_finished fs"
  by (induction es rule: ad_finished.induct) simp_all

section \<open>The invariant\<close>

text \<open>
  \<open>admission_inv\<close> relates the state to the list \<open>adm\<close> of all tasks admitted so far: they were started in
  that order, the rest of them is waiting (or was rejected by \<open>dispose\<close>), and the started ones run or have
  finished. Nothing waits while there is room.
\<close>

definition admission_inv :: "nat \<Rightarrow> nat \<Rightarrow> nat list \<Rightarrow> admission \<Rightarrow> bool" where
  "admission_inv maxConcurrent maxQueued adm s \<longleftrightarrow>
     distinct adm \<and> ad_active s = length (ad_running s) \<and> ad_active s \<le> maxConcurrent \<and> length (task_queue s) \<le> maxQueued
     \<and> adm = ad_started (ad_outputs s) @ (if ad_disposed s then ad_closed (ad_outputs s) else task_queue s)
     \<and> (ad_disposed s \<longrightarrow> task_queue s = []) \<and> (\<not> ad_disposed s \<longrightarrow> ad_closed (ad_outputs s) = [])
     \<and> (task_queue s \<noteq> [] \<longrightarrow> ad_active s = maxConcurrent)
     \<and> mset (ad_started (ad_outputs s)) = mset (ad_running s) + mset (ad_finished (ad_outputs s))
     \<and> (dispose_promise s \<longleftrightarrow> ad_disposed s)
     \<and> count_list (ad_outputs s) Drained = (if ad_disposed s \<and> ad_active s = 0 then 1 else 0)
     \<and> (ad_disposed s \<and> 0 < ad_active s \<longrightarrow> resolve_drain s)"

lemma ad_out_simps [simp]:
  "ad_active (ad_out e s) = ad_active s" "ad_disposed (ad_out e s) = ad_disposed s" "resolve_drain (ad_out e s) = resolve_drain s"
  "dispose_promise (ad_out e s) = dispose_promise s" "task_queue (ad_out e s) = task_queue s" "ad_running (ad_out e s) = ad_running s"
  "ad_outputs (ad_out e s) = ad_outputs s @ [e]"
  by (simp_all add: ad_out_def)

lemma ad_notify_simps [simp]:
  "ad_active (ad_notify s) = ad_active s" "ad_disposed (ad_notify s) = ad_disposed s" "resolve_drain (ad_notify s) = resolve_drain s"
  "dispose_promise (ad_notify s) = dispose_promise s" "task_queue (ad_notify s) = task_queue s" "ad_running (ad_notify s) = ad_running s"
  "ad_outputs (ad_notify s) = ad_outputs s @ [Stats_Changed (ad_active s) (length (task_queue s))]"
  by (simp_all add: ad_notify_def ad_stats_def)

lemma ad_start_simps [simp]:
  "ad_active (ad_start t s) = ad_active s + 1" "ad_disposed (ad_start t s) = ad_disposed s" "resolve_drain (ad_start t s) = resolve_drain s"
  "dispose_promise (ad_start t s) = dispose_promise s" "task_queue (ad_start t s) = task_queue s" "ad_running (ad_start t s) = ad_running s @ [t]"
  "ad_outputs (ad_start t s) = ad_outputs s @ [Stats_Changed (ad_active s + 1) (length (task_queue s)), Task_Started t]"
  by (simp_all add: ad_start_def)

text \<open>The invariant without its last clauses: what holds between taking a task out and pumping.\<close>

definition admission_mid :: "nat \<Rightarrow> nat \<Rightarrow> nat list \<Rightarrow> admission \<Rightarrow> bool" where
  "admission_mid maxConcurrent maxQueued adm s \<longleftrightarrow>
     distinct adm \<and> ad_active s = length (ad_running s) \<and> ad_active s \<le> maxConcurrent \<and> length (task_queue s) \<le> maxQueued
     \<and> adm = ad_started (ad_outputs s) @ (if ad_disposed s then ad_closed (ad_outputs s) else task_queue s)
     \<and> (ad_disposed s \<longrightarrow> task_queue s = []) \<and> (\<not> ad_disposed s \<longrightarrow> ad_closed (ad_outputs s) = [])
     \<and> mset (ad_started (ad_outputs s)) = mset (ad_running s) + mset (ad_finished (ad_outputs s))
     \<and> (dispose_promise s \<longleftrightarrow> ad_disposed s)"

lemma admission_split: "admission_inv m k adm s \<longleftrightarrow> admission_mid m k adm s
    \<and> (task_queue s \<noteq> [] \<longrightarrow> ad_active s = m)
    \<and> count_list (ad_outputs s) Drained = (if ad_disposed s \<and> ad_active s = 0 then 1 else 0)
    \<and> (ad_disposed s \<and> 0 < ad_active s \<longrightarrow> resolve_drain s)"
  unfolding admission_inv_def admission_mid_def by blast

lemma pump_mid:
  assumes "admission_mid m k adm s"
  shows "admission_mid m k adm (pump m s) \<and> (task_queue (pump m s) \<noteq> [] \<longrightarrow> ad_active (pump m s) = m)
    \<and> ad_disposed (pump m s) = ad_disposed s \<and> resolve_drain (pump m s) = resolve_drain s
    \<and> count_list (ad_outputs (pump m s)) Drained = count_list (ad_outputs s) Drained
    \<and> (ad_disposed s \<longrightarrow> pump m s = s)"
  using assms
proof (induction m s rule: pump.induct)
  case (1 m s)
  show ?case
  proof (cases "\<not> ad_disposed s \<and> ad_active s < m \<and> task_queue s \<noteq> []")
    case True
    then obtain t ts where q: "task_queue s = t # ts"
      by (cases "task_queue s") auto
    let ?s = "ad_start t (s\<lparr>task_queue := ts\<rparr>)"
    have "admission_mid m k adm ?s"
      using "1.prems" True by (auto simp: admission_mid_def q)
    with "1.IH" [OF _ q] True q show ?thesis
      by (simp add: pump.simps [of m s])
  next
    case False
    then have "pump m s = s"
      by (auto simp: pump.simps [of m s] split: list.splits)
    with False "1.prems" show ?thesis
      by (auto simp: admission_mid_def)
  qed
qed

lemma settle_inv:
  assumes s: "admission_inv m k adm s" and t: "t \<in> set (ad_running s)"
  shows "admission_inv m k adm (settle m t ok s)"
proof -
  let ?e = "if ok then Task_Resolved t else Task_Rejected t"
  let ?s1 = "ad_out ?e (s\<lparr>ad_running := remove1 t (ad_running s)\<rparr>)"
  let ?s2 = "?s1\<lparr>ad_active := ad_active ?s1 - 1\<rparr>"
  have pos: "0 < ad_active s" "ad_active s = length (ad_running s)"
    using s t by (auto simp: admission_inv_def)
  have mid: "admission_mid m k adm ?s2"
    using s t by (auto simp: admission_inv_def admission_mid_def length_remove1)
  define u where "u = pump m ?s2"
  have p: "admission_mid m k adm u" "task_queue u \<noteq> [] \<longrightarrow> ad_active u = m" "ad_disposed u = ad_disposed s"
    "resolve_drain u = resolve_drain s" "count_list (ad_outputs u) Drained = count_list (ad_outputs s) Drained"
    "ad_disposed s \<longrightarrow> ad_active u = ad_active s - 1"
    using pump_mid [OF mid] unfolding u_def by auto
  have drained: "count_list (ad_outputs s) Drained = 0" "ad_disposed s \<longrightarrow> resolve_drain s"
    using s pos(1) by (auto simp: admission_inv_def)
  have out: "settle m t ok s = (if ad_disposed (ad_notify u) \<and> ad_active (ad_notify u) = 0 \<and> resolve_drain (ad_notify u)
      then ad_out Drained (ad_notify u) else ad_notify u)"
    by (simp add: settle_def Let_def u_def)
  have "admission_mid m k adm (settle m t ok s)"
    unfolding out using p(1) by (auto simp: admission_mid_def)
  then show ?thesis
    using p drained unfolding admission_split out by auto
qed

lemma admit_inv:
  assumes s: "admission_inv m k adm s" and n: "n \<notin> set adm"
  shows "admission_inv m k (if fst (admit m k n s) then adm @ [n] else adm) (snd (admit m k n s))"
  using assms by (auto simp: admit_def admission_inv_def)

lemma ad_dispose_inv:
  assumes s: "admission_inv m k adm s"
  shows "admission_inv m k adm (ad_dispose s)"
proof -
  have "ad_started (ad_outputs (fold (\<lambda>t. ad_out (Task_Closed t)) ts u)) = ad_started (ad_outputs u)
    \<and> ad_closed (ad_outputs (fold (\<lambda>t. ad_out (Task_Closed t)) ts u)) = ad_closed (ad_outputs u) @ ts
    \<and> ad_finished (ad_outputs (fold (\<lambda>t. ad_out (Task_Closed t)) ts u)) = ad_finished (ad_outputs u)
    \<and> count_list (ad_outputs (fold (\<lambda>t. ad_out (Task_Closed t)) ts u)) Drained = count_list (ad_outputs u) Drained
    \<and> ad_active (fold (\<lambda>t. ad_out (Task_Closed t)) ts u) = ad_active u \<and> ad_disposed (fold (\<lambda>t. ad_out (Task_Closed t)) ts u) = ad_disposed u
    \<and> task_queue (fold (\<lambda>t. ad_out (Task_Closed t)) ts u) = task_queue u
    \<and> ad_running (fold (\<lambda>t. ad_out (Task_Closed t)) ts u) = ad_running u" for ts u
    by (induction ts arbitrary: u) auto
  then show ?thesis
    using s by (auto simp: ad_dispose_def Let_def admission_inv_def)
qed

lemma ad_new_inv: "admission_inv m k [] new_admission"
  by (simp add: admission_inv_def new_admission_def)

lemma admission_run_inv:
  assumes "admission_inv m k adm s" "\<forall>t\<in>set adm. t < n"
  shows "case admission_run m k es n adm s of (adm', s') \<Rightarrow> admission_inv m k adm' s' \<and> (\<exists>ts. adm' = adm @ ts)"
  using assms
proof (induction es arbitrary: n adm s)
  case (Cons e es)
  show ?case
  proof (cases e)
    case Ad_Admit
    let ?adm = "if fst (admit m k n s) then adm @ [n] else adm"
    have "admission_inv m k ?adm (snd (admit m k n s))"
      using Cons.prems by (intro admit_inv) auto
    moreover have "\<forall>t\<in>set ?adm. t < n + 1"
      using Cons.prems(2) by auto
    ultimately show ?thesis
      using Cons.IH [of ?adm "snd (admit m k n s)" "n + 1"]
      by (cases "admit m k n s") (auto simp: Ad_Admit split: prod.splits if_splits)
  next
    case (Ad_Settle t ok)
    have "admission_inv m k adm (if t \<in> set (ad_running s) then settle m t ok s else s)"
      using Cons.prems(1) settle_inv by simp
    from Cons.IH [OF this Cons.prems(2)] show ?thesis
      by (simp add: Ad_Settle)
  next
    case Ad_Dispose
    from Cons.IH [OF ad_dispose_inv [OF Cons.prems(1)] Cons.prems(2)] show ?thesis
      by (simp add: Ad_Dispose)
  qed
qed simp

end
