(* ===== verification/Readiness.thy ===== *)
theory Readiness
  imports Zeep_Prelude
begin

text \<open>
  The readiness service of the GraphQL server (\<open>packages/postgraphile/src/readiness.ts\<close>): a cached
  answer, one probe of the database at a time, and a timeout on the answer but not on the probe.

  The record \<open>readiness\<close> holds the closure's variables: \<open>in_flight\<close> is the promise of the running
  check with its result once it has one, \<open>underlying\<close> the probe's own promise. Attempts are numbered.
  An event is a call or the settling of a promise or timer, together with the promise reactions it
  causes, which JavaScript runs before any other event. \<open>probe_starts\<close> says whether \<open>probe.start()\<close>
  returns or throws; metrics are logged by their outcome.
\<close>

datatype probe_outcome = Outcome_Ready | Outcome_Error | Outcome_Timeout

datatype readiness_output =
    Attempt_Started nat
  | Attempt_Cancelled nat
  | Attempt_Recorded probe_outcome
  | Probe_Closed

record readiness =
  rd_cached :: "(int \<times> bool) option"
  in_flight :: "(nat \<times> bool option) option"
  underlying :: "nat option"
  rd_disposed :: bool
  close_waiting :: nat
  next_attempt :: nat
  rd_outputs :: "readiness_output list"

definition new_readiness :: readiness where
  "new_readiness = \<lparr>rd_cached = None, in_flight = None, underlying = None, rd_disposed = False, close_waiting = 0,
     next_attempt = 0, rd_outputs = []\<rparr>"

definition rd_out :: "readiness_output \<Rightarrow> readiness \<Rightarrow> readiness" where
  "rd_out e s = s\<lparr>rd_outputs := rd_outputs s @ [e]\<rparr>"

text \<open>The answer of a check: at once, or with the promise of an attempt.\<close>

datatype check_answer = Answer bool | Await nat

section \<open>Checking\<close>

text \<open>
  \<open>runProbe\<close>. A probe that throws gives a false answer, and its promise is resolved at once: the
  reactions to it leave no check in flight.
\<close>

definition run_probe :: "bool \<Rightarrow> int \<Rightarrow> int \<Rightarrow> readiness \<Rightarrow> check_answer \<times> readiness" where
  "run_probe probe_starts cacheMs now s =
     (if probe_starts then
        (let a = next_attempt s in
         (Await a, rd_out (Attempt_Started a)
            (s\<lparr>next_attempt := a + 1, underlying := Some a, in_flight := Some (a, None)\<rparr>)))
      else
        (Answer False, (rd_out (Attempt_Recorded Outcome_Error) s)\<lparr>rd_cached := Some (now + cacheMs, False)\<rparr>))"

definition rd_check :: "bool \<Rightarrow> int \<Rightarrow> int \<Rightarrow> readiness \<Rightarrow> check_answer \<times> readiness" where
  "rd_check probe_starts cacheMs now s =
     (if rd_disposed s then (Answer False, s)
      else
        case rd_cached s of
          Some (expiresAt, result) \<Rightarrow>
            if now < expiresAt then (Answer result, s)
            else (case in_flight s of
                Some (a, Some r) \<Rightarrow> (Answer r, s)
              | Some (a, None) \<Rightarrow> (Await a, s)
              | None \<Rightarrow> run_probe probe_starts cacheMs now s)
        | None \<Rightarrow>
            (case in_flight s of
                Some (a, Some r) \<Rightarrow> (Answer r, s)
              | Some (a, None) \<Rightarrow> (Await a, s)
              | None \<Rightarrow> run_probe probe_starts cacheMs now s))"

section \<open>What happens to an attempt\<close>

text \<open>The race of an attempt is decided: its result is recorded and cached.\<close>

definition rd_decide :: "nat \<Rightarrow> bool \<Rightarrow> probe_outcome \<Rightarrow> int \<Rightarrow> int \<Rightarrow> readiness \<Rightarrow> readiness" where
  "rd_decide a result outcome cacheMs now s =
     (rd_out (Attempt_Recorded outcome) s)\<lparr>in_flight := Some (a, Some result), rd_cached := Some (now + cacheMs, result)\<rparr>"

text \<open>
  A \<open>dispose\<close> waits for the promises it finds and then closes the probe; \<open>close_waiting\<close> counts the calls
  that wait.
\<close>

definition try_close :: "readiness \<Rightarrow> readiness" where
  "try_close s =
     (if underlying s = None
      then s\<lparr>close_waiting := 0, rd_outputs := rd_outputs s @ replicate (close_waiting s) Probe_Closed\<rparr> else s)"

text \<open>
  The timer of an attempt fires: it is cancelled and the check answers false, but stays in flight until the
  probe itself settles.
\<close>

definition probe_timeout :: "nat \<Rightarrow> int \<Rightarrow> int \<Rightarrow> readiness \<Rightarrow> readiness" where
  "probe_timeout a cacheMs now s =
     (if in_flight s = Some (a, None) then rd_decide a False Outcome_Timeout cacheMs now (rd_out (Attempt_Cancelled a) s) else s)"

definition probe_settled :: "nat \<Rightarrow> bool \<Rightarrow> int \<Rightarrow> int \<Rightarrow> readiness \<Rightarrow> readiness" where
  "probe_settled a ok cacheMs now s =
     (if underlying s \<noteq> Some a then s
      else
        let s1 = (if in_flight s = Some (a, None)
          then rd_decide a ok (if ok then Outcome_Ready else Outcome_Error) cacheMs now s else s) in
        try_close (s1\<lparr>underlying := None, in_flight := None\<rparr>))"

definition rd_dispose :: "readiness \<Rightarrow> readiness" where
  "rd_dispose s = try_close (s\<lparr>rd_disposed := True, rd_cached := None, close_waiting := close_waiting s + 1\<rparr>)"

section \<open>Runs\<close>

datatype readiness_event =
    Rd_Check bool int
  | Rd_Timeout nat int
  | Rd_Settled nat bool int
  | Rd_Dispose

definition readiness_step :: "int \<Rightarrow> readiness_event \<Rightarrow> readiness \<Rightarrow> readiness" where
  "readiness_step cacheMs ev s =
     (case ev of
        Rd_Check probe_starts now \<Rightarrow> snd (rd_check probe_starts cacheMs now s)
      | Rd_Timeout a now \<Rightarrow> probe_timeout a cacheMs now s
      | Rd_Settled a ok now \<Rightarrow> probe_settled a ok cacheMs now s
      | Rd_Dispose \<Rightarrow> rd_dispose s)"

definition readiness_run :: "int \<Rightarrow> readiness_event list \<Rightarrow> readiness" where
  "readiness_run cacheMs es = fold (readiness_step cacheMs) es new_readiness"

section \<open>The invariant\<close>

fun attempts :: "readiness_output list \<Rightarrow> nat list" where
  "attempts [] = []"
| "attempts (Attempt_Started a # es) = a # attempts es"
| "attempts (_ # es) = attempts es"

lemma attempts_append [simp]: "attempts (es @ fs) = attempts es @ attempts fs"
  by (induction es rule: attempts.induct) simp_all

fun recorded :: "readiness_output list \<Rightarrow> probe_outcome list" where
  "recorded [] = []"
| "recorded (Attempt_Recorded e # es) = e # recorded es"
| "recorded (_ # es) = recorded es"

lemma recorded_append [simp]: "recorded (es @ fs) = recorded es @ recorded fs"
  by (induction es rule: recorded.induct) simp_all

text \<open>
  At most one attempt is open, it is the last one started, and a check in flight belongs to it. Of the \<open>n\<close>
  calls of \<open>dispose\<close> so far all wait while an attempt is open, and all have closed the probe when none is.
\<close>

definition readiness_inv :: "nat \<Rightarrow> readiness \<Rightarrow> bool" where
  "readiness_inv n s \<longleftrightarrow>
     attempts (rd_outputs s) = [0..<next_attempt s]
     \<and> (case underlying s of
          None \<Rightarrow> in_flight s = None
        | Some a \<Rightarrow> Suc a = next_attempt s \<and> (\<exists>r. in_flight s = Some (a, r)))
     \<and> (rd_disposed s \<longleftrightarrow> 0 < n)
     \<and> close_waiting s = (if underlying s = None then 0 else n)
     \<and> count_list (rd_outputs s) Probe_Closed = (if underlying s = None then n else 0)"

lemma attempts_closed [simp]: "attempts (replicate n Probe_Closed) = []"
  by (induction n) simp_all

lemma count_closed [simp]: "count_list (replicate n x) x = n"
  by (induction n) simp_all

lemma rd_out_simps [simp]:
  "rd_cached (rd_out e s) = rd_cached s" "in_flight (rd_out e s) = in_flight s" "underlying (rd_out e s) = underlying s"
  "rd_disposed (rd_out e s) = rd_disposed s" "close_waiting (rd_out e s) = close_waiting s" "next_attempt (rd_out e s) = next_attempt s"
  "rd_outputs (rd_out e s) = rd_outputs s @ [e]"
  by (simp_all add: rd_out_def)

lemma run_probe_inv: "readiness_inv n s \<Longrightarrow> in_flight s = None \<Longrightarrow> \<not> rd_disposed s \<Longrightarrow> readiness_inv n (snd (run_probe b c now s))"
  by (auto simp: readiness_inv_def run_probe_def Let_def split: option.splits)

lemma rd_check_inv: "readiness_inv n s \<Longrightarrow> readiness_inv n (snd (rd_check b c now s))"
  by (auto simp: rd_check_def run_probe_inv split: option.splits)

lemma timeout_inv: "readiness_inv n s \<Longrightarrow> readiness_inv n (probe_timeout a c now s)"
  by (auto simp: probe_timeout_def rd_decide_def readiness_inv_def split: option.splits)

lemma settled_inv: "readiness_inv n s \<Longrightarrow> readiness_inv n (probe_settled a ok c now s)"
  by (auto simp: probe_settled_def rd_decide_def try_close_def Let_def readiness_inv_def split: option.splits)

lemma rd_dispose_inv: "readiness_inv n s \<Longrightarrow> readiness_inv (Suc n) (rd_dispose s)"
  by (auto simp: rd_dispose_def try_close_def readiness_inv_def split: option.splits)

lemma readiness_step_inv: "readiness_inv n s \<Longrightarrow> readiness_inv (if ev = Rd_Dispose then Suc n else n) (readiness_step c ev s)"
  by (cases ev) (simp_all add: readiness_step_def rd_check_inv timeout_inv settled_inv rd_dispose_inv)

lemma readiness_run_inv: "readiness_inv (count_list es Rd_Dispose) (readiness_run c es)"
proof (induction es rule: rev_induct)
  case Nil
  then show ?case
    by (simp add: readiness_run_def readiness_inv_def new_readiness_def)
next
  case (snoc ev es)
  from readiness_step_inv [OF this, of ev c] show ?case
    by (cases "ev = Rd_Dispose") (simp_all add: readiness_run_def)
qed

end
