(* ===== verification/Invalidation_Poller.thy ===== *)
theory Invalidation_Poller
  imports Zeep_Prelude
begin

text \<open>
  The poller that tells the live queries to run again
  (\<open>createLiveQueryInvalidationPoller\<close> of \<open>packages/postgraphile/src/liveQueryInvalidationPoller.ts\<close>).

  The store is a parameter by its answers: the events \<open>Po_Ids\<close>, \<open>Po_Ids_Failed\<close>, \<open>Po_Pruned\<close> and
  \<open>Po_Prune_Failed\<close> settle the promise the current poll waits for. \<open>active_poll\<close> is the phase of that
  poll, with the generation it was started in while it waits for the ids. \<open>onInvalidate\<close> does not throw
  and does not call the poller.
\<close>

definition prune_every_polls :: nat where "prune_every_polls = 240"
definition max_tracked_invalidations :: nat where "max_tracked_invalidations = 10000"
definition overflow_refresh_ms :: int where "overflow_refresh_ms = 5000"

datatype poll_phase = Awaiting_Ids nat | Awaiting_Prune

datatype poller_output = Ids_Requested nat | Invalidated | Prune_Requested | Warned | Store_Closed

record poller =
  po_interval :: bool
  seen_ids :: "int list option"
  last_refresh_at :: int
  po_generation :: nat
  active_poll :: "poll_phase option"
  prune_counter :: nat
  po_warned :: bool
  po_store :: bool
  po_closing :: nat
  po_outputs :: "poller_output list"

text \<open>\<open>po_store\<close>: whether there is a store, from the start when one is provided, otherwise from the first poll on (\<open>getStore\<close>).\<close>

definition new_poller :: "bool \<Rightarrow> poller" where
  "new_poller provided = \<lparr>po_interval = False, seen_ids = None, last_refresh_at = 0, po_generation = 0, active_poll = None,
     prune_counter = 0, po_warned = False, po_store = provided, po_closing = 0, po_outputs = []\<rparr>"

definition po_out :: "poller_output \<Rightarrow> poller \<Rightarrow> poller" where
  "po_out e s = s\<lparr>po_outputs := po_outputs s @ [e]\<rparr>"

text \<open>\<open>runPoll\<close>, with \<open>poll\<close> up to its first \<open>await\<close>.\<close>

definition run_poll :: "poller \<Rightarrow> poller" where
  "run_poll s =
     (if active_poll s \<noteq> None then s
      else po_out (Ids_Requested (max_tracked_invalidations + 1)) (s\<lparr>active_poll := Some (Awaiting_Ids (po_generation s)), po_store := True\<rparr>))"

text \<open>Whether the ids of a poll call for a refresh.\<close>

definition refresh_needed :: "int \<Rightarrow> int list \<Rightarrow> poller \<Rightarrow> bool" where
  "refresh_needed now ids s =
     (case seen_ids s of
        None \<Rightarrow> True
      | Some seen \<Rightarrow>
          (\<exists>id\<in>set (take max_tracked_invalidations ids). id \<notin> set seen)
          \<or> max_tracked_invalidations < length ids \<and> overflow_refresh_ms \<le> now - last_refresh_at s)"

text \<open>The promise of the current poll settles: \<open>active_poll\<close> is cleared, and every \<open>dispose\<close> that waits for it closes the store.\<close>

definition poll_settled :: "poller \<Rightarrow> poller" where
  "poll_settled s = s\<lparr>active_poll := None, po_closing := 0, po_outputs := po_outputs s @ replicate (if po_store s then po_closing s else 0) Store_Closed\<rparr>"

text \<open>The ids arrive: the rest of \<open>poll\<close>, up to the \<open>await\<close> of the pruning.\<close>

definition poll_ids :: "int \<Rightarrow> int list \<Rightarrow> poller \<Rightarrow> poller" where
  "poll_ids now ids s =
     (case active_poll s of
        Some (Awaiting_Ids currentGeneration) \<Rightarrow>
          if po_generation s \<noteq> currentGeneration then poll_settled s
          else
            let s1 = (if refresh_needed now ids s then po_out Invalidated (s\<lparr>last_refresh_at := now\<rparr>) else s);
                s2 = s1\<lparr>seen_ids := Some (take max_tracked_invalidations ids), po_warned := False,
                  prune_counter := prune_counter s1 + 1\<rparr> in
            if prune_every_polls \<le> prune_counter s2
            then po_out Prune_Requested (s2\<lparr>prune_counter := 0, active_poll := Some Awaiting_Prune\<rparr>)
            else poll_settled s2
      | _ \<Rightarrow> s)"

definition poll_failed :: "poller \<Rightarrow> poller" where
  "poll_failed s =
     poll_settled (if po_warned s then s else po_out Warned (s\<lparr>po_warned := True\<rparr>))"

definition po_start :: "poller \<Rightarrow> poller" where
  "po_start s = (if po_interval s then s else (run_poll (s\<lparr>po_generation := po_generation s + 1\<rparr>))\<lparr>po_interval := True\<rparr>)"

definition po_stop :: "poller \<Rightarrow> poller" where
  "po_stop s = (if \<not> po_interval s then s else s\<lparr>po_interval := False, po_generation := po_generation s + 1, seen_ids := None\<rparr>)"

definition po_dispose :: "poller \<Rightarrow> poller" where
  "po_dispose s =
     (let s1 = po_stop s in
      if active_poll s1 = None then (if po_store s1 then po_out Store_Closed s1 else s1)
      else s1\<lparr>po_closing := po_closing s1 + 1\<rparr>)"

section \<open>Runs\<close>

datatype poller_event =
    Po_Start | Po_Stop | Po_Tick | Po_Dispose
  | Po_Ids int "int list" | Po_Ids_Failed | Po_Pruned | Po_Prune_Failed

definition poller_step :: "poller_event \<Rightarrow> poller \<Rightarrow> poller" where
  "poller_step ev s =
     (case ev of
        Po_Start \<Rightarrow> po_start s
      | Po_Stop \<Rightarrow> po_stop s
      | Po_Tick \<Rightarrow> if po_interval s then run_poll s else s
      | Po_Dispose \<Rightarrow> po_dispose s
      | Po_Ids now ids \<Rightarrow> poll_ids now ids s
      | Po_Ids_Failed \<Rightarrow> (case active_poll s of Some (Awaiting_Ids g) \<Rightarrow> poll_failed s | _ \<Rightarrow> s)
      | Po_Pruned \<Rightarrow> if active_poll s = Some Awaiting_Prune then poll_settled s else s
      | Po_Prune_Failed \<Rightarrow> if active_poll s = Some Awaiting_Prune then poll_failed s else s)"

definition poller_run :: "bool \<Rightarrow> poller_event list \<Rightarrow> poller" where
  "poller_run provided es = fold poller_step es (new_poller provided)"

section \<open>The invariant\<close>

text \<open>
  A poll in flight was started in this generation or an earlier one, and a stopped poller has forgotten
  what it saw, so that its next start refreshes everything. Between two polls of a generation the ids
  seen are those of the last one.
\<close>

definition poller_inv :: "poller \<Rightarrow> bool" where
  "poller_inv s \<longleftrightarrow>
     (\<forall>g. active_poll s = Some (Awaiting_Ids g) \<longrightarrow> g \<le> po_generation s)
     \<and> (\<not> po_interval s \<longrightarrow> seen_ids s = None)
     \<and> (\<forall>g. active_poll s = Some (Awaiting_Ids g) \<and> g = po_generation s \<longrightarrow> po_interval s)
     \<and> prune_counter s < prune_every_polls
     \<and> (active_poll s = None \<longrightarrow> po_closing s = 0)
     \<and> (\<forall>ids. seen_ids s = Some ids \<longrightarrow> length ids \<le> max_tracked_invalidations)"

lemma po_out_simps [simp]:
  "po_interval (po_out e s) = po_interval s" "seen_ids (po_out e s) = seen_ids s" "last_refresh_at (po_out e s) = last_refresh_at s"
  "po_generation (po_out e s) = po_generation s" "active_poll (po_out e s) = active_poll s" "prune_counter (po_out e s) = prune_counter s"
  "po_warned (po_out e s) = po_warned s" "po_store (po_out e s) = po_store s" "po_outputs (po_out e s) = po_outputs s @ [e]"
  by (simp_all add: po_out_def)

lemma po_out_closing [simp]: "po_closing (po_out e s) = po_closing s"
  by (simp add: po_out_def)

lemma poll_settled_simps [simp]:
  "active_poll (poll_settled s) = None" "po_closing (poll_settled s) = 0" "po_interval (poll_settled s) = po_interval s"
  "seen_ids (poll_settled s) = seen_ids s" "po_generation (poll_settled s) = po_generation s"
  "prune_counter (poll_settled s) = prune_counter s"
  by (simp_all add: poll_settled_def)

lemma poll_ids_inv: "poller_inv s \<Longrightarrow> poller_inv (poll_ids now ids s)"
  by (auto simp: poll_ids_def Let_def poller_inv_def prune_every_polls_def split: option.splits poll_phase.splits)

lemma poller_step_inv: "poller_inv s \<Longrightarrow> poller_inv (poller_step ev s)"
  by (cases ev) (auto simp: poller_step_def poll_ids_inv,
    auto simp: po_start_def po_stop_def po_dispose_def Let_def run_poll_def poll_failed_def poller_inv_def prune_every_polls_def
      split: option.splits poll_phase.splits)

lemma poller_run_inv: "poller_inv (poller_run provided es)"
proof -
  have "poller_inv s \<Longrightarrow> poller_inv (fold poller_step es s)" for s
    by (induction es arbitrary: s) (simp_all add: poller_step_inv)
  moreover have "poller_inv (new_poller provided)"
    by (simp add: poller_inv_def new_poller_def prune_every_polls_def)
  ultimately show ?thesis
    by (simp add: poller_run_def)
qed

end
