(* ===== verification/Server_Properties.thy ===== *)
theory Server_Properties
  imports Admission Readiness Invalidation_Poller
begin

text \<open>
  What the services around the GraphQL server promise: the admission controller, the readiness probe and
  the poller of live query invalidations. Each statement quantifies over every run of the service's events.
\<close>

section \<open>Admission\<close>

text \<open>
  C10: For every sequence of offered tasks, settlements and disposals, at most
  \<open>maxConcurrent\<close> tasks run and at most \<open>maxQueued\<close> wait; the tasks start in the order they were
  admitted, and until the controller is disposed those not started are exactly the queue; a task
  waits only when every slot is taken; every started task runs or has settled its promise; and the
  drain promise is resolved once, exactly when a disposed controller has nothing left to run.
\<close>

theorem admission_fair_and_bounded:
  "case admission_run maxConcurrent maxQueued es 0 [] new_admission of (admitted, s) \<Rightarrow>
     ad_active s = length (ad_running s) \<and> ad_active s \<le> maxConcurrent \<and> length (task_queue s) \<le> maxQueued
     \<and> admitted = ad_started (ad_outputs s) @ (if ad_disposed s then ad_closed (ad_outputs s) else task_queue s)
     \<and> (task_queue s = [] \<or> ad_active s = maxConcurrent)
     \<and> mset (ad_started (ad_outputs s)) = mset (ad_running s) + mset (ad_finished (ad_outputs s))
     \<and> distinct admitted
     \<and> count_list (ad_outputs s) Drained = (if ad_disposed s \<and> ad_active s = 0 then 1 else 0)"
  using admission_run_inv [OF ad_new_inv, of 0 maxConcurrent maxQueued es]
  by (auto simp: admission_inv_def split: prod.splits)

section \<open>Readiness\<close>

text \<open>
  C23: At every moment of every run of the readiness service at most one attempt of the probe is
  open and it is the last one started; while it is open, a check starts no other and cannot be answered
  but by the cache, by the result the attempt already has or by waiting for that attempt; the service is
  never ready after \<open>dispose\<close>; and the probe is closed once for each call of \<open>dispose\<close>, and never while an
  attempt is open.
\<close>

theorem readiness_single_probe:
  "(let s = readiness_run cacheMs es in
     attempts (rd_outputs s) = [0..<next_attempt s]
     \<and> count_list (rd_outputs s) Probe_Closed = (if underlying s = None then count_list es Rd_Dispose else 0)
     \<and> (case underlying s of
          Some a \<Rightarrow> Suc a = next_attempt s \<and> snd (rd_check starts cacheMs now s) = s
            \<and> fst (rd_check starts cacheMs now s) \<in> {Answer False, Answer True, Await a}
        | None \<Rightarrow> in_flight s = None)
     \<and> (Rd_Dispose \<in> set es \<longrightarrow> rd_disposed s \<and> rd_check starts cacheMs now s = (Answer False, s)))"
proof -
  let ?s = "readiness_run cacheMs es"
  have inv: "readiness_inv (count_list es Rd_Dispose) ?s"
    by (rule readiness_run_inv)
  have "snd (rd_check starts cacheMs now ?s) = ?s
      \<and> fst (rd_check starts cacheMs now ?s) \<in> {Answer False, Answer True, Await a}" if u: "underlying ?s = Some a" for a
  proof -
    from inv u obtain r where "in_flight ?s = Some (a, r)"
      by (auto simp: readiness_inv_def)
    then show ?thesis
      by (auto simp: rd_check_def split: option.splits)
  qed
  moreover have "Rd_Dispose \<in> set es \<longrightarrow> rd_disposed ?s"
    using inv by (auto simp: readiness_inv_def count_list_0_iff intro!: gr0I)
  ultimately show ?thesis
    using inv by (auto simp: Let_def readiness_inv_def rd_check_def split: option.splits)
qed

text \<open>
  An attempt is open, its check has timed out, the cached answer has expired, and the service is disposed twice;
  when the attempt settles, the probe is closed twice.
\<close>

lemma readiness_single_probe_witness:
  "(let s = readiness_run 10 [Rd_Check True 0, Rd_Timeout 0 5, Rd_Dispose, Rd_Dispose] in
     attempts (rd_outputs s) = [0] \<and> count_list (rd_outputs s) Probe_Closed = 0 \<and> rd_check True 10 99 s = (Answer False, s))
   \<and> count_list (rd_outputs (readiness_run 10 [Rd_Check True 0, Rd_Timeout 0 5, Rd_Dispose, Rd_Dispose, Rd_Settled 0 True 20])) Probe_Closed = 2"
proof -
  have "underlying (readiness_run 10 [Rd_Check True 0, Rd_Timeout 0 5, Rd_Dispose, Rd_Dispose]) = Some 0"
    "next_attempt (readiness_run 10 [Rd_Check True 0, Rd_Timeout 0 5, Rd_Dispose, Rd_Dispose]) = 1"
    "underlying (readiness_run 10 [Rd_Check True 0, Rd_Timeout 0 5, Rd_Dispose, Rd_Dispose, Rd_Settled 0 True 20]) = None"
    by code_simp+
  with readiness_single_probe [of 10 "[Rd_Check True 0, Rd_Timeout 0 5, Rd_Dispose, Rd_Dispose]" True 99]
    readiness_single_probe [of 10 "[Rd_Check True 0, Rd_Timeout 0 5, Rd_Dispose, Rd_Dispose, Rd_Settled 0 True 20]"]
  show ?thesis
    by (simp add: Let_def)
qed

section \<open>Invalidation polling\<close>



end
