(* ===== verification/Js_Arith.thy ===== *)
theory Js_Arith
  imports Js_Number Js_String
begin

text \<open>
  Arithmetic on JavaScript numbers, and their conversion from and to text.

  \<open>f64_round\<close> is the IEEE-754 rounding of an exact non-negative ratio, to nearest with ties to even;
  \<open>js_add\<close>, \<open>js_mul\<close> and the decimal conversions are the exact result rounded once. \<open>string_to_number\<close> is
  \<open>Number(s)\<close>, \<open>parse_float\<close> and \<open>parse_int\<close> are the global functions, \<open>number_to_string\<close> is
  \<open>String(x)\<close>: the shortest decimal that reads back as the number.
\<close>

section \<open>Rounding a ratio\<close>

text \<open>\<open>n / d\<close> to the nearest integer, ties to even.\<close>

definition round_div :: "nat \<Rightarrow> nat \<Rightarrow> nat" where
  "round_div n d =
     (let q = n div d; r = n mod d in if d < 2 * r \<or> (2 * r = d \<and> odd q) then q + 1 else q)"

text \<open>\<open>n * 2 ^ e\<close> and \<open>1\<close> over a common denominator.\<close>

definition scale_up :: "nat \<Rightarrow> int \<Rightarrow> nat" where
  "scale_up n e = n * 2 ^ nat e"

text \<open>The exponent \<open>e\<close> with \<open>2 ^ e \<le> num / den < 2 ^ (e + 1)\<close>.\<close>

definition ratio_exp :: "nat \<Rightarrow> nat \<Rightarrow> int" where
  "ratio_exp num den =
     (let d = int (top_bit num) - int (top_bit den) in
      if scale_up den d \<le> scale_up num (- d) then d else d - 1)"

text \<open>
  \<open>q\<close> is the exponent of the last place; as in \<open>f64_to_f32\<close>, a rounding that carries into the next
  binade gives that binade's pattern, and everything from infinity up is infinity.
\<close>

definition f64_round :: "nat \<Rightarrow> nat \<Rightarrow> nat \<Rightarrow> js_number" where
  "f64_round s num den =
     (if num = 0 then f64_make s 0 0
      else
        let q = max (ratio_exp num den - 52) (- 1074);
            m = round_div (scale_up num (- q)) (scale_up den q) in
        of_nat (s * 2 ^ 63 + min (2047 * 2 ^ 52) (nat (q + 1074) * 2 ^ 52 + m)))"

section \<open>Operations\<close>

definition js_inf :: "nat \<Rightarrow> js_number" where
  "js_inf s = f64_make s 2047 0"

definition is_inf :: "js_number \<Rightarrow> bool" where
  "is_inf x \<longleftrightarrow> f64_exp x = 2047 \<and> f64_man x = 0"

definition is_zero :: "js_number \<Rightarrow> bool" where
  "is_zero x \<longleftrightarrow> f64_mag x = 0"

text \<open>A finite number is \<open>sig * 2 ^ pow\<close>, with its sign.\<close>

definition f64_sig :: "js_number \<Rightarrow> nat" where
  "f64_sig x = (if f64_exp x = 0 then f64_man x else 2 ^ 52 + f64_man x)"

definition f64_pow :: "js_number \<Rightarrow> int" where
  "f64_pow x = (if f64_exp x = 0 then - 1074 else int (f64_exp x) - 1075)"

definition f64_signed :: "js_number \<Rightarrow> int \<Rightarrow> int" where
  "f64_signed x e = (if f64_sign x = 0 then 1 else - 1) * int (scale_up (f64_sig x) (f64_pow x - e))"

definition js_mul :: "js_number \<Rightarrow> js_number \<Rightarrow> js_number" where
  "js_mul x y =
     (let s = (f64_sign x + f64_sign y) mod 2 in
      if is_nan x \<or> is_nan y then js_nan
      else if is_inf x \<or> is_inf y then (if is_zero x \<or> is_zero y then js_nan else js_inf s)
      else
        let e = f64_pow x + f64_pow y in
        f64_round s (scale_up (f64_sig x * f64_sig y) e) (scale_up 1 (- e)))"

definition js_add :: "js_number \<Rightarrow> js_number \<Rightarrow> js_number" where
  "js_add x y =
     (if is_nan x \<or> is_nan y then js_nan
      else if is_inf x then (if is_inf y \<and> f64_sign x \<noteq> f64_sign y then js_nan else x)
      else if is_inf y then y
      else if is_zero x \<and> is_zero y then (if f64_sign x = 1 \<and> f64_sign y = 1 then x else 0)
      else
        let e = min (f64_pow x) (f64_pow y); v = f64_signed x e + f64_signed y e in
        f64_round (if v < 0 then 1 else 0) (scale_up (nat \<bar>v\<bar>) e) (scale_up 1 (- e)))"

text \<open>\<open>Math.max\<close> of two numbers, \<open>Math.ceil\<close> and \<open>Math.trunc\<close>.\<close>

definition js_max :: "js_number \<Rightarrow> js_number \<Rightarrow> js_number" where
  "js_max x y =
     (if is_nan x \<or> is_nan y then js_nan
      else if f64_key y < f64_key x then x
      else if f64_key x < f64_key y then y
      else if f64_sign x = 0 then x else y)"

definition js_int_part :: "bool \<Rightarrow> js_number \<Rightarrow> js_number" where
  "js_int_part up x =
     (if f64_exp x = 2047 \<or> 0 \<le> f64_pow x \<or> is_zero x then canon x
      else
        let d = 2 ^ nat (- f64_pow x) in
        f64_round (f64_sign x) (if up then ceil_div (f64_sig x) d else f64_sig x div d) 1)"

definition js_ceil :: "js_number \<Rightarrow> js_number" where
  "js_ceil x = js_int_part (f64_sign x = 0) x"

definition js_trunc :: "js_number \<Rightarrow> js_number" where
  "js_trunc x = js_int_part False x"

text \<open>Equality of numbers: NaN equals nothing, the zeros are equal.\<close>

definition js_eq :: "js_number \<Rightarrow> js_number \<Rightarrow> bool" where
  "js_eq x y \<longleftrightarrow> \<not> is_nan x \<and> \<not> is_nan y \<and> f64_key x = f64_key y"

lemma js_add_nan [simp]: "is_nan x \<Longrightarrow> js_add x y = js_nan" "is_nan y \<Longrightarrow> js_add x y = js_nan"
  by (simp_all add: js_add_def)

lemma js_mul_nan [simp]: "is_nan x \<Longrightarrow> js_mul x y = js_nan" "is_nan y \<Longrightarrow> js_mul x y = js_nan"
  by (simp_all add: js_mul_def)

lemma js_max_nan [simp]: "is_nan x \<Longrightarrow> js_max x y = js_nan" "is_nan y \<Longrightarrow> js_max x y = js_nan"
  by (simp_all add: js_max_def)

lemma js_ceil_nan: "is_nan x \<Longrightarrow> js_ceil x = js_nan"
  by (simp add: js_ceil_def js_int_part_def is_nan_def canon_def)

lemma js_lt_nan [simp]: "is_nan x \<Longrightarrow> \<not> js_lt x y" "is_nan y \<Longrightarrow> \<not> js_lt x y"
  by (simp_all add: js_lt_def)

lemma finite_below_inf: "is_finite x \<Longrightarrow> js_lt x (js_inf 0)"
proof -
  assume x: "is_finite x"
  have "f64_mag x = f64_exp x * 2 ^ 52 + f64_man x"
    unfolding f64_exp_def f64_man_def by (simp only: div_mult_mod_eq)
  moreover have "f64_exp x \<le> 2046"
    using x by (simp add: is_finite_def)
  then have "f64_exp x * 2 ^ 52 \<le> 2046 * 2 ^ 52"
    by (rule mult_le_mono1)
  moreover have "2047 * 2 ^ 52 = 2046 * 2 ^ 52 + (2 ^ 52 :: nat)"
    by simp
  ultimately have "f64_mag x < 2047 * 2 ^ 52"
    using f64_man_less [of x] by linarith
  moreover have "f64_key (js_inf 0) = int (2047 * 2 ^ 52)"
    using unat_f64_make [of 0 2047 0] by (simp add: f64_key_def f64_mag_def js_inf_def)
  moreover have "\<not> is_nan (js_inf 0)"
    by (simp add: js_inf_def is_nan_def)
  ultimately show ?thesis
    using is_finite_not_nan [OF x] by (simp add: js_lt_def f64_key_def)
qed

section \<open>Text to number\<close>

definition is_digit :: "u16 \<Rightarrow> bool" where
  "is_digit u \<longleftrightarrow> 48 \<le> unat u \<and> unat u < 58"

definition digit_val :: "u16 \<Rightarrow> nat" where
  "digit_val u = unat u - 48"

definition digits_val :: "nat \<Rightarrow> nat list \<Rightarrow> nat" where
  "digits_val base ds = foldl (\<lambda>n d. base * n + d) 0 ds"

definition decimal_val :: "jstring \<Rightarrow> nat" where
  "decimal_val s = digits_val 10 (map digit_val s)"

text \<open>\<open>WhiteSpace\<close> and \<open>LineTerminator\<close> of the language.\<close>

definition is_space :: "u16 \<Rightarrow> bool" where
  "is_space u \<longleftrightarrow>
     (let c = unat u in (9 \<le> c \<and> c \<le> 13) \<or> (8192 \<le> c \<and> c \<le> 8202)
       \<or> c \<in> {32, 160, 5760, 8232, 8233, 8239, 8287, 12288, 65279})"

definition trim_start :: "jstring \<Rightarrow> jstring" where
  "trim_start s = dropWhile is_space s"

definition trim :: "jstring \<Rightarrow> jstring" where
  "trim s = rev (dropWhile is_space (rev (trim_start s)))"

text \<open>A leading sign.\<close>

definition split_sign :: "jstring \<Rightarrow> nat \<times> jstring" where
  "split_sign s =
     (case s of
        u # us \<Rightarrow> if u = 45 then (1, us) else if u = 43 then (0, us) else (0, s)
      | [] \<Rightarrow> (0, s))"

text \<open>
  The longest prefix that is an unsigned decimal literal: the digits, the power of ten they are scaled
  by, and the rest.
\<close>

definition decimal_prefix :: "jstring \<Rightarrow> (nat \<times> int \<times> jstring) option" where
  "decimal_prefix s =
     (let ip = takeWhile is_digit s; r1 = dropWhile is_digit s;
          (fp, r2) = (case r1 of
              u # us \<Rightarrow> if u = 46 \<and> (ip \<noteq> [] \<or> takeWhile is_digit us \<noteq> [])
                then (takeWhile is_digit us, dropWhile is_digit us) else ([], r1)
            | [] \<Rightarrow> ([], r1));
          (ex, r3) = (case r2 of
              u # us \<Rightarrow> if u = 101 \<or> u = 69 then
                  (case split_sign us of (sg, vs) \<Rightarrow>
                     if takeWhile is_digit vs = [] then (0, r2)
                     else ((if sg = 1 then - 1 else 1) * int (decimal_val (takeWhile is_digit vs)), dropWhile is_digit vs))
                else (0, r2)
            | [] \<Rightarrow> (0, r2)) in
      if ip = [] \<and> fp = [] then None
      else Some (decimal_val (ip @ fp), ex - int (length fp), r3))"

definition decimal_number :: "nat \<Rightarrow> nat \<Rightarrow> int \<Rightarrow> js_number" where
  "decimal_number s n e = f64_round s (n * 10 ^ nat e) (10 ^ nat (- e))"

definition infinity_text :: jstring where
  "infinity_text = lit ''Infinity''"

definition radix_digit :: "u16 \<Rightarrow> nat" where
  "radix_digit u =
     (let c = unat u in
      if 48 \<le> c \<and> c < 58 then c - 48 else if 97 \<le> c \<and> c < 123 then c - 87
      else if 65 \<le> c \<and> c < 91 then c - 55 else 99)"

text \<open>\<open>0x\<close>, \<open>0o\<close> and \<open>0b\<close> literals.\<close>

definition radix_literal :: "jstring \<Rightarrow> (nat \<times> jstring) option" where
  "radix_literal s =
     (case s of
        z # c # ds \<Rightarrow>
          if z \<noteq> 48 then None
          else if c = 120 \<or> c = 88 then Some (16, ds)
          else if c = 111 \<or> c = 79 then Some (8, ds)
          else if c = 98 \<or> c = 66 then Some (2, ds)
          else None
      | _ \<Rightarrow> None)"

definition string_to_number :: "jstring \<Rightarrow> js_number" where
  "string_to_number str =
     (let s = trim str in
      if s = [] then 0
      else
        case radix_literal s of
          Some (base, ds) \<Rightarrow>
            if ds \<noteq> [] \<and> (\<forall>u\<in>set ds. radix_digit u < base)
            then f64_round 0 (digits_val base (map radix_digit ds)) 1 else js_nan
        | None \<Rightarrow>
            (case split_sign s of (sg, r) \<Rightarrow>
               if r = infinity_text then js_inf sg
               else
                 (case decimal_prefix r of
                    Some (n, e, rest) \<Rightarrow> if rest = [] then decimal_number sg n e else js_nan
                  | None \<Rightarrow> js_nan)))"

definition parse_float :: "jstring \<Rightarrow> js_number" where
  "parse_float s =
     (case split_sign (trim_start s) of (sg, r) \<Rightarrow>
        if take (length infinity_text) r = infinity_text then js_inf sg
        else
          (case decimal_prefix r of
             Some (n, e, rest) \<Rightarrow> decimal_number sg n e
           | None \<Rightarrow> js_nan))"

text \<open>\<open>Number.parseInt(s, 10)\<close>.\<close>

definition parse_int :: "jstring \<Rightarrow> js_number" where
  "parse_int s =
     (case split_sign (trim_start s) of (sg, r) \<Rightarrow>
        (case takeWhile is_digit r of
           [] \<Rightarrow> js_nan
         | ds \<Rightarrow> f64_round sg (decimal_val ds) 1))"

section \<open>Number to text\<close>

definition decimal_text :: "nat \<Rightarrow> jstring" where
  "decimal_text n = lit (show_nat n)"

text \<open>
  \<open>decimal_exp num den\<close>: the \<open>n\<close> with \<open>10 ^ (n - 1) \<le> num / den < 10 ^ n\<close>, counted up from the exponent of
  the least number.
\<close>

definition ratio_below :: "nat \<Rightarrow> nat \<Rightarrow> int \<Rightarrow> bool" where
  "ratio_below num den n \<longleftrightarrow> num * 10 ^ nat (- n) < den * 10 ^ nat n"

fun decimal_exp_from :: "nat \<Rightarrow> nat \<Rightarrow> nat \<Rightarrow> int \<Rightarrow> int" where
  "decimal_exp_from 0 num den n = n"
| "decimal_exp_from (Suc k) num den n = (if ratio_below num den n then n else decimal_exp_from k num den (n + 1))"

definition decimal_exp :: "nat \<Rightarrow> nat \<Rightarrow> int" where
  "decimal_exp num den = decimal_exp_from 640 num den (- 324)"

text \<open>The \<open>k\<close>-digit candidates for a number: its value cut off, and one more; the nearer one first.\<close>

definition digit_candidates :: "nat \<Rightarrow> nat \<Rightarrow> int \<Rightarrow> nat \<Rightarrow> nat list" where
  "digit_candidates num den n k =
     (let a = num * 10 ^ nat (int k - n); b = den * 10 ^ nat (n - int k); f = a div b in
      if 2 * (a mod b) \<le> b then [f, f + 1] else [f + 1, f])"

fun shortest_digits :: "nat \<Rightarrow> js_number \<Rightarrow> nat \<Rightarrow> nat \<Rightarrow> int \<Rightarrow> nat \<Rightarrow> nat \<times> int" where
  "shortest_digits 0 x num den n k = (1, n)"
| "shortest_digits (Suc fuel) x num den n k =
     (case filter (\<lambda>s. decimal_number 0 s (n - int k) = x) (digit_candidates num den n k) of
        s # _ \<Rightarrow> if s = 10 ^ k then (1, n + 1) else (s, n)
      | [] \<Rightarrow> shortest_digits fuel x num den n (k + 1))"

definition exp_text :: "int \<Rightarrow> jstring" where
  "exp_text e = (if e < 0 then 45 else 43) # decimal_text (nat \<bar>e\<bar>)"

definition digits_text :: "nat \<Rightarrow> int \<Rightarrow> jstring" where
  "digits_text s n =
     (let ds = decimal_text s; k = int (length ds) in
      if k \<le> n \<and> n \<le> 21 then ds @ replicate (nat (n - k)) 48
      else if 0 < n \<and> n \<le> 21 then take (nat n) ds @ 46 # drop (nat n) ds
      else if - 6 < n \<and> n \<le> 0 then 48 # 46 # replicate (nat (- n)) 48 @ ds
      else if k = 1 then ds @ 101 # exp_text (n - 1)
      else take 1 ds @ 46 # drop 1 ds @ 101 # exp_text (n - 1))"

definition number_to_string :: "js_number \<Rightarrow> jstring" where
  "number_to_string x =
     (if is_nan x then lit ''NaN''
      else if is_zero x then lit ''0''
      else (if f64_sign x = 1 then [45] else []) @
        (if is_inf x then infinity_text
         else
           let num = scale_up (f64_sig x) (f64_pow x); den = scale_up 1 (- f64_pow x);
               (s, n) = shortest_digits 17 (f64_make 0 (f64_exp x) (f64_man x)) num den (decimal_exp num den) 1 in
           digits_text s n))"

end
