(* ===== verification/Query_Cost.thy ===== *)
theory Query_Cost
  imports Js_Arith
begin

text \<open>
  The cost estimate of a GraphQL query
  (\<open>packages/postgraphile/src/middleware/createQueryCostMiddleware.ts\<close>).

  A document is what \<open>parse\<close> of the GraphQL library returns, cut down to what the estimate reads: names,
  arguments, selection sets. Names are ASCII by the grammar of GraphQL and are \<open>string\<close>s. Costs are
  JavaScript numbers; \<open>Math.log2\<close>, which the language leaves to the implementation, is the parameter
  \<open>log2\<close>. The sets of active and visited fragments, which the source adds to before and deletes from after
  a nested call, are arguments of the call.
\<close>

section \<open>Documents\<close>

datatype value_node =
    IntValue jstring
  | FloatValue jstring
  | StringValue jstring
  | BooleanValue bool
  | Other_Value

datatype selection =
    Field string "(string \<times> value_node) list" "selection list option"
  | FragmentSpread string
  | InlineFragment "selection list"

datatype operation_kind = Query_Operation | Mutation_Operation | Subscription_Operation

datatype definition_node =
    OperationDefinition operation_kind "string option" "selection list"
  | FragmentDefinition string "selection list"
  | Other_Definition

type_synonym fragments = "(string \<times> selection list) list"

text \<open>The table of fragments: a later definition of a name replaces an earlier one.\<close>

definition fragments_of :: "definition_node list \<Rightarrow> fragments" where
  "fragments_of defs =
     rev (concat (map (\<lambda>d. case d of FragmentDefinition n sels \<Rightarrow> [(n, sels)] | _ \<Rightarrow> []) defs))"

section \<open>Arguments\<close>

datatype arg_value = Arg_Number js_number | Arg_String jstring | Arg_Boolean bool

fun getArgValue :: "value_node \<Rightarrow> arg_value option" where
  "getArgValue (IntValue v) = Some (Arg_Number (parse_int v))"
| "getArgValue (FloatValue v) = Some (Arg_Number (parse_float v))"
| "getArgValue (StringValue v) = Some (Arg_String v)"
| "getArgValue (BooleanValue b) = Some (Arg_Boolean b)"
| "getArgValue Other_Value = None"

definition find_arg :: "string \<Rightarrow> (string \<times> value_node) list \<Rightarrow> arg_value option" where
  "find_arg n args = Option.bind (map_option snd (find (\<lambda>a. fst a = n) args)) getArgValue"

definition getPaginationMultiplier :: "(string \<times> value_node) list \<Rightarrow> js_number \<Rightarrow> arg_value" where
  "getPaginationMultiplier args defaultSize =
     (case find_arg ''first'' args of
        Some v \<Rightarrow> v
      | None \<Rightarrow> (case find_arg ''last'' args of Some v \<Rightarrow> v | None \<Rightarrow> Arg_Number defaultSize))"

fun arg_number :: "arg_value \<Rightarrow> js_number" where
  "arg_number (Arg_Number x) = x"
| "arg_number (Arg_String s) = string_to_number s"
| "arg_number (Arg_Boolean b) = (if b then js_of_nat 1 else 0)"

section \<open>Fields\<close>

definition flattened_fields_no_depth :: "string list" where
  "flattened_fields_no_depth =
     [''nodes'', ''edges'', ''keys'', ''aggregates'', ''groupedAggregates'', ''speeds'', ''splits'', ''blocks'',
      ''amountBlocks'', ''amountCheckpoints'', ''amountFinishes'', ''numRecords'', ''points'', ''totalPoints'',
      ''worldRecords'']"

definition shouldIncreaseDepth :: "string \<Rightarrow> bool" where
  "shouldIncreaseDepth fieldName \<longleftrightarrow> fieldName \<notin> set flattened_fields_no_depth \<and> take 2 fieldName \<noteq> ''__''"

text \<open>\<open>split('By')[0]\<close>, when there is more than one part.\<close>

fun before_by :: "string \<Rightarrow> string option" where
  "before_by [] = None"
| "before_by (c # cs) = (if take 2 (c # cs) = ''By'' then Some [] else map_option ((#) c) (before_by cs))"

definition ends_with_s :: "string \<Rightarrow> bool" where
  "ends_with_s s \<longleftrightarrow> s \<noteq> [] \<and> last s = CHR ''s''"

definition isManyToMany :: "string \<Rightarrow> bool" where
  "isManyToMany fieldName = (case before_by fieldName of Some p \<Rightarrow> ends_with_s p | None \<Rightarrow> False)"

definition isCollectionField :: "string \<Rightarrow> (string \<times> value_node) list \<Rightarrow> bool" where
  "isCollectionField fieldName args =
     (if fieldName \<in> set flattened_fields_no_depth then False
      else (\<exists>a\<in>set args. fst a = ''first'' \<or> fst a = ''last'') \<or> ends_with_s fieldName \<or> isManyToMany fieldName)"

section \<open>The traversal budget\<close>

text \<open>Fragments a traversal can still enter: the measure of the three traversals.\<close>

definition unvisited :: "fragments \<Rightarrow> string list \<Rightarrow> nat" where
  "unvisited frags visited = card (fst ` set frags - set visited)"

lemma unvisited_less:
  assumes "map_of frags n = Some sels" "n \<notin> set visited"
  shows "unvisited frags (n # visited) < unvisited frags visited"
proof -
  have "n \<in> fst ` set frags - set visited"
    using assms by (force dest: map_of_SomeD)
  then show ?thesis
    unfolding unvisited_def by (intro psubset_card_mono) auto
qed

text \<open>\<open>visit\<close>: what remains of the budget, or \<open>None\<close> for its result \<open>false\<close>.\<close>

function visit :: "fragments \<Rightarrow> string list \<Rightarrow> selection list \<Rightarrow> nat \<Rightarrow> int \<Rightarrow> int option" where
  "visit frags active [] depth remaining = (if 128 < depth then None else Some remaining)"
| "visit frags active (FragmentSpread name # sels) depth remaining =
     (if 128 < depth \<or> remaining - 1 < 0 then None
      else
        (case map_of frags name of
           Some body \<Rightarrow>
             if name \<notin> set active then
               (case visit frags (name # active) body (depth + 1) (remaining - 1) of
                  None \<Rightarrow> None
                | Some r \<Rightarrow> visit frags active sels depth r)
             else visit frags active sels depth (remaining - 1)
         | None \<Rightarrow> visit frags active sels depth (remaining - 1)))"
| "visit frags active (Field name args (Some ss) # sels) depth remaining =
     (if 128 < depth \<or> remaining - 1 < 0 then None
      else
        (case visit frags active ss (depth + 1) (remaining - 1) of
           None \<Rightarrow> None
         | Some r \<Rightarrow> visit frags active sels depth r))"
| "visit frags active (Field name args None # sels) depth remaining =
     (if 128 < depth \<or> remaining - 1 < 0 then None else visit frags active sels depth (remaining - 1))"
| "visit frags active (InlineFragment ss # sels) depth remaining =
     (if 128 < depth \<or> remaining - 1 < 0 then None
      else
        (case visit frags active ss (depth + 1) (remaining - 1) of
           None \<Rightarrow> None
         | Some r \<Rightarrow> visit frags active sels depth r))"
  by pat_completeness auto
termination
  by (relation "measures [\<lambda>(frags, active, sels, d, r). unvisited frags active,
        \<lambda>(frags, active, sels, d, r). size_list size sels]")
    (auto simp: unvisited_less)

declare visit.simps [simp del]

fun visit_definitions :: "fragments \<Rightarrow> definition_node list \<Rightarrow> int \<Rightarrow> bool" where
  "visit_definitions frags [] remaining = True"
| "visit_definitions frags (OperationDefinition k n sels # defs) remaining =
     (case visit frags [] sels 0 remaining of None \<Rightarrow> False | Some r \<Rightarrow> visit_definitions frags defs r)"
| "visit_definitions frags (_ # defs) remaining = visit_definitions frags defs remaining"

definition withinTraversalBudget :: "definition_node list \<Rightarrow> bool" where
  "withinTraversalBudget doc = visit_definitions (fragments_of doc) doc 10000"

section \<open>Introspection\<close>

text \<open>
  \<open>classifyIntrospectionSelections\<close> as a loop with its variable \<open>hasIntrospection\<close>; the value is
  \<open>(pure, hasIntrospection)\<close>.
\<close>

function classify :: "fragments \<Rightarrow> bool \<Rightarrow> string list \<Rightarrow> selection list \<Rightarrow> bool \<Rightarrow> bool \<times> bool" where
  "classify frags allowQueryWrapper visited [] has = (True, has)"
| "classify frags allowQueryWrapper visited (Field name args sub # sels) has =
     (if name = ''__schema'' \<or> name = ''__type'' then classify frags allowQueryWrapper visited sels True
      else if name = ''__typename'' then classify frags allowQueryWrapper visited sels has
      else if \<not> allowQueryWrapper \<or> name \<noteq> ''query'' then (False, has)
      else
        (case sub of
           None \<Rightarrow> (False, has)
         | Some ss \<Rightarrow>
             let nested = classify frags False [] ss False in
             if \<not> fst nested then nested
             else classify frags allowQueryWrapper visited sels (has \<or> snd nested)))"
| "classify frags allowQueryWrapper visited (InlineFragment ss # sels) has =
     (let nested = classify frags allowQueryWrapper visited ss False in
      if \<not> fst nested then nested
      else classify frags allowQueryWrapper visited sels (has \<or> snd nested))"
| "classify frags allowQueryWrapper visited (FragmentSpread name # sels) has =
     (case map_of frags name of
        None \<Rightarrow> (False, has)
      | Some body \<Rightarrow>
          if name \<in> set visited then (False, has)
          else
            let nested = classify frags allowQueryWrapper (name # visited) body False in
            if \<not> fst nested then nested
            else classify frags allowQueryWrapper visited sels (has \<or> snd nested))"
  by pat_completeness auto
termination
  by (relation "measures [\<lambda>(frags, allow, visited, sels, has). if allow then 1 else 0,
        \<lambda>(frags, allow, visited, sels, has). unvisited frags visited,
        \<lambda>(frags, allow, visited, sels, has). size_list size sels]")
    (auto simp: unvisited_less)

declare classify.simps [simp del]

section \<open>The estimate\<close>

text \<open>
  \<open>Math.max(1, Math.log2(Math.max(0, Number(multiplier)) + 1))\<close>
\<close>

definition collection_multiplier :: "(js_number \<Rightarrow> js_number) \<Rightarrow> (string \<times> value_node) list \<Rightarrow> js_number \<Rightarrow> js_number" where
  "collection_multiplier log2 args defaultSize =
     js_max (js_of_nat 1) (log2 (js_add (js_max 0 (arg_number (getPaginationMultiplier args defaultSize))) (js_of_nat 1)))"

text \<open>
  \<open>estimateSelectionsCost\<close> as a loop with its variable \<open>cost\<close>. The depth is an integer, as the source only
  adds to it and takes from it.
\<close>

function estimateSelectionsCost ::
  "(js_number \<Rightarrow> js_number) \<Rightarrow> js_number \<Rightarrow> fragments \<Rightarrow> string list \<Rightarrow> selection list \<Rightarrow> int \<Rightarrow> js_number \<Rightarrow> js_number \<Rightarrow> js_number"
where
  "estimateSelectionsCost log2 dflt frags visited [] depth parentMultiplier cost = cost"
| "estimateSelectionsCost log2 dflt frags visited (Field fieldName args sub # sels) depth parentMultiplier cost =
     (let collectionMultiplier = (if isCollectionField fieldName args then collection_multiplier log2 args dflt else js_of_nat 1);
          totalMultiplier = js_mul parentMultiplier collectionMultiplier;
          effectiveDepth = (if shouldIncreaseDepth fieldName then depth else depth - 1);
          cost1 = js_add cost (js_mul totalMultiplier (js_of_nat (nat (max 1 effectiveDepth))));
          cost2 = (case sub of
              None \<Rightarrow> cost1
            | Some ss \<Rightarrow> js_add cost1
                (estimateSelectionsCost log2 dflt frags visited ss (effectiveDepth + 1) totalMultiplier 0)) in
      estimateSelectionsCost log2 dflt frags visited sels depth parentMultiplier cost2)"
| "estimateSelectionsCost log2 dflt frags visited (FragmentSpread fragmentName # sels) depth parentMultiplier cost =
     (let cost1 = (if fragmentName \<in> set visited then cost
          else
            (case map_of frags fragmentName of
               None \<Rightarrow> cost
             | Some body \<Rightarrow> js_add cost
                 (estimateSelectionsCost log2 dflt frags (fragmentName # visited) body depth parentMultiplier 0))) in
      estimateSelectionsCost log2 dflt frags visited sels depth parentMultiplier cost1)"
| "estimateSelectionsCost log2 dflt frags visited (InlineFragment ss # sels) depth parentMultiplier cost =
     estimateSelectionsCost log2 dflt frags visited sels depth parentMultiplier
       (js_add cost (estimateSelectionsCost log2 dflt frags visited ss depth parentMultiplier 0))"
  by pat_completeness auto
termination
  by (relation "measures [\<lambda>(log2, dflt, frags, visited, sels, r). unvisited frags visited,
        \<lambda>(log2, dflt, frags, visited, sels, r). size_list size sels]")
    (auto simp: unvisited_less)

declare estimateSelectionsCost.simps [simp del]

definition operation_cost :: "(js_number \<Rightarrow> js_number) \<Rightarrow> js_number \<Rightarrow> fragments \<Rightarrow> selection list \<Rightarrow> js_number" where
  "operation_cost log2 dflt frags sels = estimateSelectionsCost log2 dflt frags [] sels 1 (js_of_nat 1) 0"

text \<open>The operation the caller names, when the name is not empty and the document has it.\<close>

fun named_operation :: "definition_node list \<Rightarrow> jstring \<Rightarrow> selection list option" where
  "named_operation [] name = None"
| "named_operation (OperationDefinition k n sels # defs) name =
     (if map_option lit n = Some name then Some sels else named_operation defs name)"
| "named_operation (_ # defs) name = named_operation defs name"

fun sum_operations :: "(selection list \<Rightarrow> js_number) \<Rightarrow> definition_node list \<Rightarrow> js_number \<Rightarrow> js_number" where
  "sum_operations f [] acc = acc"
| "sum_operations f (OperationDefinition k n sels # defs) acc = sum_operations f defs (js_add acc (f sels))"
| "sum_operations f (_ # defs) acc = sum_operations f defs acc"

definition estimateQueryCost ::
  "(js_number \<Rightarrow> js_number) \<Rightarrow> js_number \<Rightarrow> definition_node list \<Rightarrow> jstring option \<Rightarrow> js_number" where
  "estimateQueryCost log2 dflt doc operationName =
     (if \<not> withinTraversalBudget doc then js_inf 0
      else
        let frags = fragments_of doc;
            name = (case operationName of None \<Rightarrow> [] | Some n \<Rightarrow> n) in
        case (if name = [] then None else named_operation doc name) of
          Some sels \<Rightarrow> js_ceil (js_add 0 (operation_cost log2 dflt frags sels))
        | None \<Rightarrow> js_ceil (sum_operations (operation_cost log2 dflt frags) doc 0))"

end
