(* ===== verification/Js_Json.thy ===== *)
theory Js_Json
  imports Js_Arith "HOL-Library.List_Lexorder"
begin

text \<open>
  JSON as JavaScript reads and writes it.

  \<open>json\<close> is what \<open>JSON.parse\<close> returns; the properties of an object are listed as the language enumerates
  them (\<open>own_order\<close>): array indices first and ascending, then the others in insertion order, where a repeated
  key keeps its place and takes the later value. \<open>json_parse\<close> is \<open>JSON.parse\<close>, with \<open>None\<close> for the
  \<open>SyntaxError\<close>; its fuel is the length of the text, which bounds the number of nested calls.
  \<open>json_quote\<close> and \<open>json_number\<close> are \<open>JSON.stringify\<close> of a string and of a number.
\<close>

datatype json =
    JNull
  | JBool bool
  | JNumber js_number
  | JString jstring
  | JArray "json list"
  | JObject "(jstring \<times> json) list"

section \<open>Writing\<close>

definition hex_digit :: "nat \<Rightarrow> u16" where
  "hex_digit d = (if d < 10 then of_nat (48 + d) else of_nat (87 + d))"

definition unicode_escape :: "u16 \<Rightarrow> jstring" where
  "unicode_escape u =
     (let c = unat u in
      92 # 117 # map hex_digit [c div 4096, c div 256 mod 16, c div 16 mod 16, c mod 16])"

text \<open>\<open>QuoteJSONString\<close>: surrogates that have no partner are escaped.\<close>

definition quote_unit :: "u16 \<Rightarrow> jstring" where
  "quote_unit u =
     (if u = 8 then lit [CHR 92, CHR ''b''] else if u = 9 then lit [CHR 92, CHR ''t'']
      else if u = 10 then lit [CHR 92, CHR ''n''] else if u = 12 then lit [CHR 92, CHR ''f'']
      else if u = 13 then lit [CHR 92, CHR ''r''] else if u = 34 then [92, 34] else if u = 92 then [92, 92]
      else if unat u < 32 then unicode_escape u else [u])"

fun quote_units :: "jstring \<Rightarrow> jstring" where
  "quote_units [] = []"
| "quote_units (u # us) =
     (if is_high u then
        (case us of
           v # vs \<Rightarrow> if is_low v then u # v # quote_units vs else unicode_escape u @ quote_units us
         | [] \<Rightarrow> unicode_escape u)
      else if is_low u then unicode_escape u @ quote_units us
      else quote_unit u @ quote_units us)"

definition json_quote :: "jstring \<Rightarrow> jstring" where
  "json_quote s = 34 # quote_units s @ [34]"

definition json_number :: "js_number \<Rightarrow> jstring" where
  "json_number x = (if is_finite x then number_to_string x else lit ''null'')"

section \<open>Reading\<close>

definition is_json_space :: "u16 \<Rightarrow> bool" where
  "is_json_space u \<longleftrightarrow> u = 32 \<or> u = 9 \<or> u = 10 \<or> u = 13"

definition skip_ws :: "jstring \<Rightarrow> jstring" where
  "skip_ws s = dropWhile is_json_space s"

definition hex_val :: "u16 \<Rightarrow> nat option" where
  "hex_val u = (let d = radix_digit u in if d < 16 then Some d else None)"

definition hex4 :: "u16 \<Rightarrow> u16 \<Rightarrow> u16 \<Rightarrow> u16 \<Rightarrow> u16 option" where
  "hex4 a b c d =
     (case (hex_val a, hex_val b, hex_val c, hex_val d) of
        (Some w, Some x, Some y, Some z) \<Rightarrow> Some (of_nat (w * 4096 + x * 256 + y * 16 + z))
      | _ \<Rightarrow> None)"

definition short_escape :: "u16 \<Rightarrow> u16 option" where
  "short_escape u =
     (if u = 34 \<or> u = 92 \<or> u = 47 then Some u
      else if u = 98 then Some 8 else if u = 102 then Some 12 else if u = 110 then Some 10
      else if u = 114 then Some 13 else if u = 116 then Some 9 else None)"

text \<open>The rest of a string literal after its opening quote.\<close>

fun json_string :: "jstring \<Rightarrow> (jstring \<times> jstring) option" where
  "json_string [] = None"
| "json_string (u # us) =
     (if u = 34 then Some ([], us)
      else if u = 92 then
        (case us of
           e # vs \<Rightarrow>
             if e = 117 then
               (case vs of
                  a # b # c # d # ws \<Rightarrow>
                    (case hex4 a b c d of
                       Some x \<Rightarrow> map_option (\<lambda>(t, r). (x # t, r)) (json_string ws)
                     | None \<Rightarrow> None)
                | _ \<Rightarrow> None)
             else
               (case short_escape e of
                  Some x \<Rightarrow> map_option (\<lambda>(t, r). (x # t, r)) (json_string vs)
                | None \<Rightarrow> None)
         | [] \<Rightarrow> None)
      else if unat u < 32 then None
      else map_option (\<lambda>(t, r). (u # t, r)) (json_string us))"

text \<open>
  The longest prefix that matches \<open>-?(?:0|[1-9]\d*)(?:\.\d+)?(?:[eE][+-]?\d+)?\<close>, and the rest.
\<close>

definition frac_part :: "jstring \<Rightarrow> jstring \<times> jstring" where
  "frac_part s =
     (case s of
        u # us \<Rightarrow> if u = 46 \<and> takeWhile is_digit us \<noteq> [] then (u # takeWhile is_digit us, dropWhile is_digit us) else ([], s)
      | [] \<Rightarrow> ([], s))"

definition exp_part :: "jstring \<Rightarrow> jstring \<times> jstring" where
  "exp_part s =
     (case s of
        u # us \<Rightarrow>
          let (sg, ds) = (case us of v # vs \<Rightarrow> if v = 43 \<or> v = 45 then ([v], vs) else ([], us) | [] \<Rightarrow> ([], us)) in
          if (u = 101 \<or> u = 69) \<and> takeWhile is_digit ds \<noteq> []
          then (u # sg @ takeWhile is_digit ds, dropWhile is_digit ds) else ([], s)
      | [] \<Rightarrow> ([], s))"

definition number_token :: "jstring \<Rightarrow> (jstring \<times> jstring) option" where
  "number_token s =
     (let (sg, r) = (case s of u # us \<Rightarrow> if u = 45 then ([u], us) else ([], s) | [] \<Rightarrow> ([], s)) in
      case r of
        [] \<Rightarrow> None
      | u # us \<Rightarrow>
          if \<not> is_digit u then None
          else
            let (ip, r1) = (if u = 48 then ([u], us) else (takeWhile is_digit r, dropWhile is_digit r));
                (fp, r2) = frac_part r1; (ex, r3) = exp_part r2 in
            Some (sg @ ip @ fp @ ex, r3))"

text \<open>\<open>split(',')\<close>\<close>

fun split_commas :: "jstring \<Rightarrow> jstring list" where
  "split_commas [] = [[]]"
| "split_commas (u # us) =
     (if u = 44 then [] # split_commas us
      else (case split_commas us of l # ls \<Rightarrow> (u # l) # ls | [] \<Rightarrow> [[u]]))"

text \<open>An object with a property set: \<open>CreateDataProperty\<close>.\<close>

fun put_key :: "jstring \<Rightarrow> 'v \<Rightarrow> (jstring \<times> 'v) list \<Rightarrow> (jstring \<times> 'v) list" where
  "put_key k v [] = [(k, v)]"
| "put_key k v ((k', v') # kvs) = (if k = k' then (k, v) # kvs else (k', v') # put_key k v kvs)"

lemma put_key_new: "k \<notin> fst ` set kvs \<Longrightarrow> put_key k v kvs = kvs @ [(k, v)]"
  by (induction k v kvs rule: put_key.induct) auto

text \<open>An array index as a key; such keys come first, in numeric order, in every object.\<close>

definition is_index_key :: "jstring \<Rightarrow> bool" where
  "is_index_key k \<longleftrightarrow> list_all is_digit k \<and> decimal_text (decimal_val k) = k \<and> decimal_val k < 2 ^ 32 - 1"

definition own_order :: "(jstring \<times> 'v) list \<Rightarrow> (jstring \<times> 'v) list" where
  "own_order kvs =
     sort_key (\<lambda>e. decimal_val (fst e)) (filter (\<lambda>e. is_index_key (fst e)) kvs) @ filter (\<lambda>e. \<not> is_index_key (fst e)) kvs"

lemma own_order_Nil [simp]: "own_order [] = []"
  by (simp add: own_order_def)

definition literal_rest :: "string \<Rightarrow> jstring \<Rightarrow> jstring option" where
  "literal_rest w s = (if take (length w) s = lit w then Some (drop (length w) s) else None)"

text \<open>
  A value, the elements of an array up to its closing bracket, the members of an object up to its closing
  brace; the texts start at a token.
\<close>

fun json_value :: "nat \<Rightarrow> jstring \<Rightarrow> (json \<times> jstring) option"
  and json_elements :: "nat \<Rightarrow> jstring \<Rightarrow> (json list \<times> jstring) option"
  and json_members :: "nat \<Rightarrow> (jstring \<times> json) list \<Rightarrow> jstring \<Rightarrow> ((jstring \<times> json) list \<times> jstring) option"
where
  "json_value 0 s = None"
| "json_value (Suc fuel) s =
     (case s of
        [] \<Rightarrow> None
      | u # us \<Rightarrow>
          if u = 34 then map_option (\<lambda>(t, r). (JString t, r)) (json_string us)
          else if u = 91 then
            (case skip_ws us of
               v # vs \<Rightarrow> if v = 93 then Some (JArray [], vs)
                 else map_option (\<lambda>(xs, r). (JArray xs, r)) (json_elements fuel (v # vs))
             | [] \<Rightarrow> None)
          else if u = 123 then
            (case skip_ws us of
               v # vs \<Rightarrow> if v = 125 then Some (JObject [], vs)
                 else map_option (\<lambda>(kvs, r). (JObject (own_order kvs), r)) (json_members fuel [] (v # vs))
             | [] \<Rightarrow> None)
          else if u = 110 then map_option (Pair JNull) (literal_rest ''null'' s)
          else if u = 116 then map_option (Pair (JBool True)) (literal_rest ''true'' s)
          else if u = 102 then map_option (Pair (JBool False)) (literal_rest ''false'' s)
          else map_option (\<lambda>(t, r). (JNumber (string_to_number t), r)) (number_token s))"
| "json_elements 0 s = None"
| "json_elements (Suc fuel) s =
     (case json_value fuel s of
        None \<Rightarrow> None
      | Some (x, r) \<Rightarrow>
          (case skip_ws r of
             v # vs \<Rightarrow>
               if v = 93 then Some ([x], vs)
               else if v = 44 then map_option (\<lambda>(xs, r'). (x # xs, r')) (json_elements fuel (skip_ws vs))
               else None
           | [] \<Rightarrow> None))"
| "json_members 0 acc s = None"
| "json_members (Suc fuel) acc s =
     (case s of
        [] \<Rightarrow> None
      | u # us \<Rightarrow>
          if u \<noteq> 34 then None
          else
            (case json_string us of
               None \<Rightarrow> None
             | Some (k, r) \<Rightarrow>
                 (case skip_ws r of
                    [] \<Rightarrow> None
                  | c # cs \<Rightarrow>
                      if c \<noteq> 58 then None
                      else
                        (case json_value fuel (skip_ws cs) of
                           None \<Rightarrow> None
                         | Some (x, r') \<Rightarrow>
                             (case skip_ws r' of
                                [] \<Rightarrow> None
                              | v # vs \<Rightarrow>
                                  if v = 125 then Some (put_key k x acc, vs)
                                  else if v = 44 then json_members fuel (put_key k x acc) (skip_ws vs)
                                  else None)))))"

definition json_parse :: "jstring \<Rightarrow> json option" where
  "json_parse s =
     (case json_value (2 * length s + 2) (skip_ws s) of
        Some (v, r) \<Rightarrow> if skip_ws r = [] then Some v else None
      | None \<Rightarrow> None)"

section \<open>A quoted string reads back\<close>

lemma unat_u16_lit [simp]: "unat (of_nat n :: u16) = n mod 65536"
  by (simp add: unat_of_nat)

lemma radix_hex_digit: "d < 16 \<Longrightarrow> radix_digit (hex_digit d) = d"
proof -
  have "\<forall>d\<in>set [0..<16]. radix_digit (hex_digit d) = d"
    by code_simp
  then show "d < 16 \<Longrightarrow> radix_digit (hex_digit d) = d"
    by simp
qed

lemma hex4_digits:
  assumes "n < 65536"
  shows "hex4 (hex_digit (n div 4096)) (hex_digit (n div 256 mod 16)) (hex_digit (n div 16 mod 16)) (hex_digit (n mod 16))
    = Some (of_nat n)"
proof -
  have d: "n div 4096 < 16"
    using assms by (simp add: div_less_iff_less_mult)
  have "n div 4096 * 4096 + n div 256 mod 16 * 256 + n div 16 mod 16 * 16 + n mod 16 = n"
  proof -
    have "n div 256 div 16 = n div 4096" "n div 16 div 16 = n div 256"
      by (simp_all flip: div_mult2_eq)
    then show ?thesis
      using div_mult_mod_eq [of n 16] div_mult_mod_eq [of "n div 16" 16] div_mult_mod_eq [of "n div 256" 16]
      by linarith
  qed
  with d show ?thesis
    unfolding hex4_def hex_val_def Let_def by (simp add: radix_hex_digit del: unat_u16_lit)
qed

lemma json_string_escape: "json_string (unicode_escape u @ r) = map_option (\<lambda>(t, r'). (u # t, r')) (json_string r)"
  using hex4_digits [of "unat u"] unat_u16_less [of u] by (simp add: unicode_escape_def Let_def)

lemma json_string_plain:
  "u \<noteq> 34 \<Longrightarrow> u \<noteq> 92 \<Longrightarrow> 32 \<le> unat u \<Longrightarrow> json_string (u # r) = map_option (\<lambda>(t, r'). (u # t, r')) (json_string r)"
  by simp

lemma json_string_unit:
  assumes "\<not> is_high u" "\<not> is_low u"
  shows "json_string (quote_unit u @ r) = map_option (\<lambda>(t, r'). (u # t, r')) (json_string r)"
  using assms unfolding quote_unit_def
  by (auto simp: json_string_escape short_escape_def lit_def simp del: json_string.simps(2) intro: json_string_plain)
    (simp_all add: short_escape_def)

lemma surrogate_plain: "is_high u \<or> is_low u \<Longrightarrow> u \<noteq> 34 \<and> u \<noteq> 92 \<and> 32 \<le> unat u"
  by (auto simp: is_high_def is_low_def)

lemma quote_units_cases:
  "is_high u \<Longrightarrow> quote_units [u] = unicode_escape u"
  "is_high u \<Longrightarrow> is_low v \<Longrightarrow> quote_units (u # v # vs) = u # v # quote_units vs"
  "is_high u \<Longrightarrow> \<not> is_low v \<Longrightarrow> quote_units (u # v # vs) = unicode_escape u @ quote_units (v # vs)"
  "\<not> is_high u \<Longrightarrow> is_low u \<Longrightarrow> quote_units (u # us) = unicode_escape u @ quote_units us"
  "\<not> is_high u \<Longrightarrow> \<not> is_low u \<Longrightarrow> quote_units (u # us) = quote_unit u @ quote_units us"
  by simp_all

lemma json_string_surrogate:
  "is_high u \<or> is_low u \<Longrightarrow> json_string (u # r) = map_option (\<lambda>(t, r'). (u # t, r')) (json_string r)"
  using surrogate_plain [of u] by (intro json_string_plain) auto

lemma json_string_quote: "json_string (quote_units s @ 34 # r) = Some (s, r)"
proof (induction s rule: quote_units.induct)
  case 1
  show ?case by simp
next
  case (2 u us)
  show ?case
  proof (cases "is_high u")
    case True
    note high = True
    show ?thesis
    proof (cases us)
      case Nil
      have "json_string (34 # r) = Some ([], r)"
        by simp
      then show ?thesis
        unfolding Nil quote_units_cases(1) [OF high] json_string_escape by (simp del: json_string.simps)
    next
      case (Cons v vs)
      show ?thesis
      proof (cases "is_low v")
        case True
        show ?thesis
          unfolding Cons quote_units_cases(2) [OF high True] append_Cons json_string_surrogate [OF disjI1 [OF high]]
            json_string_surrogate [OF disjI2 [OF True]] "2.IH"(1) [OF high Cons True] by simp
      next
        case False
        show ?thesis
          unfolding Cons quote_units_cases(3) [OF high False] append_assoc json_string_escape
            "2.IH"(2) [OF high Cons False, unfolded Cons] by simp
      qed
    qed
  next
    case False
    show ?thesis
    proof (cases "is_low u")
      case True
      show ?thesis
        unfolding quote_units_cases(4) [OF False True] append_assoc json_string_escape "2.IH"(3) [OF False True] by simp
    next
      case low: False
      show ?thesis
        unfolding quote_units_cases(5) [OF False low] append_assoc json_string_unit [OF False low]
          "2.IH"(4) [OF False low] by simp
    qed
  qed
qed

lemma json_quote_inject:
  assumes "json_quote s @ r = json_quote s' @ r'"
  shows "s = s' \<and> r = r'"
proof -
  have "quote_units s @ 34 # r = quote_units s' @ 34 # r'"
    using assms by (simp add: json_quote_def)
  then show ?thesis
    using json_string_quote [of s r] json_string_quote [of s' r'] by (metis option.inject prod.inject)
qed

declare json_string.simps [simp del] quote_units.simps [simp del]

end
