(* ===== verification/Query_Evaluator.thy ===== *)
theory Query_Evaluator
  imports Query_Cost Js_Json
begin

text \<open>
  The query cost evaluator with its cache (\<open>createQueryCostEvaluator\<close> of
  \<open>packages/postgraphile/src/middleware/createQueryCostMiddleware.ts\<close>).

  \<open>parse\<close> of the GraphQL library is the field \<open>opt_parse\<close> of the options: an error message or a document.
  The cache, a \<open>Map\<close>, is the list of its entries in insertion order. Tracing spans and timings are left
  out; \<open>onCacheMiss\<close> is the counter \<open>cache_misses\<close>.
\<close>

datatype cached_cost = Cached_Syntax jstring | Cached_Introspection | Cached_Cost js_number

record evaluator_options =
  opt_parse :: "jstring \<Rightarrow> jstring + definition_node list"
  opt_log2 :: "js_number \<Rightarrow> js_number"
  opt_max_cost :: js_number
  opt_default_size :: js_number
  opt_cache_size :: int
  opt_max_bytes :: nat

record evaluator =
  cost_cache :: "(jstring \<times> cached_cost) list"
  cache_misses :: nat

text \<open>A body: \<open>None\<close> where the field is not a string.\<close>

record graphql_body =
  body_query :: "jstring option"
  body_operation :: "jstring option"

datatype reject_reason = Reject_Syntax | Reject_Cost | Reject_Size

datatype query_cost_result =
    Cost_Empty
  | Cost_Introspection
  | Cost_Accepted js_number
  | Cost_Rejected reject_reason "js_number option" jstring jstring

definition new_evaluator :: evaluator where
  "new_evaluator = \<lparr>cost_cache = [], cache_misses = 0\<rparr>"

section \<open>The cache\<close>

definition queryCostCacheKey :: "jstring \<Rightarrow> jstring option \<Rightarrow> js_number \<Rightarrow> jstring" where
  "queryCostCacheKey query operationName defaultCollectionSize =
     91 # json_quote query @ 44 # json_quote (case operationName of Some n \<Rightarrow> n | None \<Rightarrow> []) @
       44 # json_number defaultCollectionSize @ [93]"

definition getCachedQueryCostResult ::
  "(jstring \<times> cached_cost) list \<Rightarrow> jstring \<Rightarrow> cached_cost option \<times> (jstring \<times> cached_cost) list" where
  "getCachedQueryCostResult cache key =
     (case map_of cache key of
        None \<Rightarrow> (None, cache)
      | Some v \<Rightarrow> (Some v, put_key key v (filter (\<lambda>e. fst e \<noteq> key) cache)))"

definition setCachedQueryCostResult ::
  "(jstring \<times> cached_cost) list \<Rightarrow> jstring \<Rightarrow> cached_cost \<Rightarrow> int \<Rightarrow> (jstring \<times> cached_cost) list" where
  "setCachedQueryCostResult cache key v cacheSize =
     (if cacheSize \<le> 0 then cache
      else
        put_key key v
          (if cacheSize \<le> int (length cache) then
             (case cache of
                [] \<Rightarrow> []
              | (oldestKey, old) # r \<Rightarrow> if oldestKey \<noteq> [] then r else cache)
           else cache))"

section \<open>Evaluation\<close>

text \<open>\<open>!operationName || definition.name?.value === operationName\<close>\<close>

definition names_operation :: "jstring option \<Rightarrow> string option \<Rightarrow> bool" where
  "names_operation operationName n =
     (case operationName of None \<Rightarrow> True | Some name \<Rightarrow> name = [] \<or> map_option lit n = Some name)"

definition selected_operations :: "jstring option \<Rightarrow> definition_node list \<Rightarrow> definition_node list" where
  "selected_operations operationName doc =
     filter (\<lambda>d. case d of OperationDefinition k n sels \<Rightarrow> names_operation operationName n | _ \<Rightarrow> False) doc"

text \<open>What a cache miss computes.\<close>

definition compute_cost :: "evaluator_options \<Rightarrow> jstring \<Rightarrow> jstring option \<Rightarrow> cached_cost" where
  "compute_cost opts query operationName =
     (case opt_parse opts query of
        Inl message \<Rightarrow> Cached_Syntax message
      | Inr doc \<Rightarrow>
          let frags = fragments_of doc;
              classification = (case selected_operations operationName doc of
                  [OperationDefinition k n sels] \<Rightarrow>
                    if withinTraversalBudget doc
                    then classify frags (k = Subscription_Operation) [] sels False else (False, False)
                | _ \<Rightarrow> (False, False)) in
          if fst classification \<and> snd classification then Cached_Introspection
          else Cached_Cost (estimateQueryCost (opt_log2 opts) (opt_default_size opts) doc operationName))"

definition cost_result :: "evaluator_options \<Rightarrow> cached_cost \<Rightarrow> query_cost_result" where
  "cost_result opts c =
     (case c of
        Cached_Syntax message \<Rightarrow> Cost_Rejected Reject_Syntax None (lit ''Invalid GraphQL Syntax'') message
      | Cached_Introspection \<Rightarrow> Cost_Introspection
      | Cached_Cost totalCost \<Rightarrow>
          if js_lt (opt_max_cost opts) totalCost then
            Cost_Rejected Reject_Cost (Some totalCost) (lit ''Query Cost Exceeded'')
              (lit ''Estimated cost: '' @ number_to_string totalCost @ lit '' > '' @ number_to_string (opt_max_cost opts) @
               lit ''. Optimsise your query by using pagination, reducing field depth and limiting requested fields per selection to fetch only the data you need.'')
          else Cost_Accepted totalCost)"

definition size_result :: "evaluator_options \<Rightarrow> query_cost_result" where
  "size_result opts =
     Cost_Rejected Reject_Size None (lit ''GraphQL query is too large'')
       (lit ''Query exceeds '' @ decimal_text (opt_max_bytes opts) @ lit '' byte limit'')"

definition evaluateQueryCostWithCache ::
  "evaluator_options \<Rightarrow> graphql_body \<Rightarrow> evaluator \<Rightarrow> query_cost_result \<times> evaluator" where
  "evaluateQueryCostWithCache opts body s =
     (case body_query body of
        None \<Rightarrow> (Cost_Empty, s)
      | Some query \<Rightarrow>
          if opt_max_bytes opts < length (text_encode query) then (size_result opts, s)
          else
            let key = queryCostCacheKey query (body_operation body) (opt_default_size opts) in
            case getCachedQueryCostResult (cost_cache s) key of
              (Some v, cache) \<Rightarrow> (cost_result opts v, s\<lparr>cost_cache := cache\<rparr>)
            | (None, cache) \<Rightarrow>
                let v = compute_cost opts query (body_operation body) in
                (cost_result opts v,
                 s\<lparr>cost_cache := setCachedQueryCostResult cache key v (opt_cache_size opts),
                   cache_misses := cache_misses s + 1\<rparr>))"

fun evaluate_all :: "evaluator_options \<Rightarrow> graphql_body list \<Rightarrow> evaluator \<Rightarrow> query_cost_result list \<times> evaluator" where
  "evaluate_all opts [] s = ([], s)"
| "evaluate_all opts (b # bs) s =
     (let (r, s1) = evaluateQueryCostWithCache opts b s; (rs, s2) = evaluate_all opts bs s1 in (r # rs, s2))"

text \<open>\<open>evaluateQueryCost\<close>: a fresh evaluator with the default limits for one body.\<close>

definition evaluateQueryCost ::
  "(jstring \<Rightarrow> jstring + definition_node list) \<Rightarrow> (js_number \<Rightarrow> js_number) \<Rightarrow> js_number \<Rightarrow> js_number \<Rightarrow> graphql_body \<Rightarrow>
     query_cost_result" where
  "evaluateQueryCost parse_doc log2 maxCost defaultCollectionSize body =
     fst (evaluateQueryCostWithCache
       \<lparr>opt_parse = parse_doc, opt_log2 = log2, opt_max_cost = maxCost, opt_default_size = defaultCollectionSize,
        opt_cache_size = 500, opt_max_bytes = 64 * 1024\<rparr> body new_evaluator)"

section \<open>The response\<close>

record cost_response =
  response_status :: nat
  response_cost :: "jstring option"
  response_error :: "jstring \<times> jstring"

definition createQueryCostResponse :: "query_cost_result \<Rightarrow> cost_response option" where
  "createQueryCostResponse result =
     (case result of
        Cost_Rejected reason cost message details \<Rightarrow>
          if message = [] \<or> details = [] then None
          else Some \<lparr>response_status = (if reason = Reject_Size then 413 else 400),
            response_cost = map_option number_to_string cost, response_error = (message, details)\<rparr>
      | _ \<Rightarrow> None)"

end
