(* ===== verification/Query_Properties.thy ===== *)
theory Query_Properties
  imports Query_Evaluator
begin

text \<open>
  What the query cost evaluator promises: the cache changes no answer and stays within its size, the work
  of an estimate is within the traversal budget, and only meta queries escape the estimate.
\<close>

section \<open>The cache\<close>

text \<open>The answer of an evaluator that keeps nothing.\<close>

definition cost_of_body :: "evaluator_options \<Rightarrow> graphql_body \<Rightarrow> query_cost_result" where
  "cost_of_body opts body =
     (case body_query body of
        None \<Rightarrow> Cost_Empty
      | Some query \<Rightarrow>
          if opt_max_bytes opts < length (text_encode query) then size_result opts
          else cost_result opts (compute_cost opts query (body_operation body)))"

lemma cache_key_inject:
  assumes "queryCostCacheKey q op d = queryCostCacheKey q' op' d"
  shows "q = q' \<and> (case op of Some n \<Rightarrow> n | None \<Rightarrow> []) = (case op' of Some n \<Rightarrow> n | None \<Rightarrow> [])"
proof -
  let ?n = "case op of Some n \<Rightarrow> n | None \<Rightarrow> []" and ?n' = "case op' of Some n \<Rightarrow> n | None \<Rightarrow> []"
  let ?r = "44 # json_number d @ [93]"
  have "json_quote q @ 44 # json_quote ?n @ ?r = json_quote q' @ 44 # json_quote ?n' @ ?r"
    using assms by (simp add: queryCostCacheKey_def)
  from json_quote_inject [OF this] have "q = q'" "json_quote ?n @ ?r = json_quote ?n' @ ?r"
    by simp_all
  with json_quote_inject [OF this(2)] show ?thesis
    by simp
qed

lemma named_operation_some: "named_operation defs n = Some sels \<Longrightarrow>
    \<exists>k m. OperationDefinition k m sels \<in> set defs \<and> map_option lit m = Some n"
  by (induction defs n rule: named_operation.induct) (auto split: if_splits)

text \<open>An absent operation name and an empty one share a key and an answer.\<close>

lemma compute_cost_name:
  assumes "(case op of Some n \<Rightarrow> n | None \<Rightarrow> []) = (case op' of Some n \<Rightarrow> n | None \<Rightarrow> [])"
  shows "compute_cost opts q op = compute_cost opts q op'"
proof -
  have "estimateQueryCost l d doc op = estimateQueryCost l d doc op'" for l d doc
    using assms by (simp add: estimateQueryCost_def)
  moreover have "names_operation op = names_operation op'"
    using assms by (auto simp: names_operation_def fun_eq_iff split: option.splits)
  then have "selected_operations op doc = selected_operations op' doc" for doc
    by (simp only: selected_operations_def)
  ultimately show ?thesis
    by (simp add: compute_cost_def Let_def split: sum.split)
qed

lemma put_key_set: "set (put_key k v kvs) \<subseteq> insert (k, v) (set kvs)"
  by (induction k v kvs rule: put_key.induct) auto

definition cache_inv :: "evaluator_options \<Rightarrow> evaluator \<Rightarrow> bool" where
  "cache_inv opts s \<longleftrightarrow>
     distinct (map fst (cost_cache s))
     \<and> int (length (cost_cache s)) \<le> max 0 (opt_cache_size opts)
     \<and> (\<forall>e\<in>set (cost_cache s). \<exists>q op. fst e = queryCostCacheKey q op (opt_default_size opts)
          \<and> snd e = compute_cost opts q op)"

lemma cache_hit:
  assumes "cache_inv opts s" "map_of (cost_cache s) (queryCostCacheKey q op (opt_default_size opts)) = Some v"
  shows "v = compute_cost opts q op"
proof -
  have "(queryCostCacheKey q op (opt_default_size opts), v) \<in> set (cost_cache s)"
    using assms(2) by (rule map_of_SomeD)
  then obtain q' op' where "queryCostCacheKey q op (opt_default_size opts) = queryCostCacheKey q' op' (opt_default_size opts)"
    "v = compute_cost opts q' op'"
    using assms(1) by (fastforce simp: cache_inv_def)
  with cache_key_inject [OF this(1)] show ?thesis
    using compute_cost_name [of op op' opts q] by simp
qed

lemma cache_refresh:
  assumes "cache_inv opts s" "map_of (cost_cache s) k = Some v"
  shows "cache_inv opts (s\<lparr>cost_cache := put_key k v (filter (\<lambda>e. fst e \<noteq> k) (cost_cache s))\<rparr>)"
proof -
  let ?f = "filter (\<lambda>e. fst e \<noteq> k) (cost_cache s)"
  have mem: "(k, v) \<in> set (cost_cache s)"
    using assms(2) by (rule map_of_SomeD)
  have new: "put_key k v ?f = ?f @ [(k, v)]"
    by (rule put_key_new) auto
  have "length ?f < length (cost_cache s)"
    by (rule length_filter_less [OF mem]) simp
  then have "int (length (?f @ [(k, v)])) \<le> max 0 (opt_cache_size opts)"
    using assms(1) by (simp add: cache_inv_def)
  moreover have "distinct (map fst ?f)"
    using assms(1) by (simp add: cache_inv_def distinct_map_filter)
  moreover have "\<exists>q op. k = queryCostCacheKey q op (opt_default_size opts) \<and> v = compute_cost opts q op"
    using assms(1) mem by (fastforce simp: cache_inv_def)
  ultimately show ?thesis
    using assms(1) unfolding new by (auto simp: cache_inv_def)
qed

lemma cache_store:
  assumes s: "cache_inv opts s" and k: "k = queryCostCacheKey q op (opt_default_size opts)" "v = compute_cost opts q op"
    and new: "map_of (cost_cache s) k = None"
  shows "cache_inv opts (s\<lparr>cost_cache := setCachedQueryCostResult (cost_cache s) k v (opt_cache_size opts), cache_misses := n\<rparr>)"
proof (cases "opt_cache_size opts \<le> 0")
  case True
  with s show ?thesis
    by (simp add: setCachedQueryCostResult_def cache_inv_def)
next
  case False
  define kept where "kept = (if opt_cache_size opts \<le> int (length (cost_cache s)) then
      (case cost_cache s of [] \<Rightarrow> [] | (oldestKey, old) # r \<Rightarrow> if oldestKey \<noteq> [] then r else cost_cache s)
    else cost_cache s)"
  have nonempty: "fst e \<noteq> []" if "e \<in> set (cost_cache s)" for e
    using s that by (fastforce simp: cache_inv_def queryCostCacheKey_def)
  have kept: "set kept \<subseteq> set (cost_cache s)" "distinct (map fst kept)"
    subgoal using s unfolding kept_def by (cases "cost_cache s") (auto simp: cache_inv_def)
    subgoal using s unfolding kept_def by (cases "cost_cache s") (auto simp: cache_inv_def)
    done
  have size: "int (length kept) < opt_cache_size opts"
    using s nonempty False unfolding kept_def by (cases "cost_cache s") (force simp: cache_inv_def)+
  have notin: "k \<notin> fst ` set kept"
    using new kept(1) by (auto simp: map_of_eq_None_iff)
  have set: "setCachedQueryCostResult (cost_cache s) k v (opt_cache_size opts) = kept @ [(k, v)]"
    using put_key_new [OF notin] False by (simp only: setCachedQueryCostResult_def kept_def if_False)
  have "\<forall>e\<in>set kept. \<exists>q op. fst e = queryCostCacheKey q op (opt_default_size opts) \<and> snd e = compute_cost opts q op"
    using s kept(1) unfolding cache_inv_def by blast
  with size kept(2) notin k show ?thesis
    unfolding cache_inv_def set by auto
qed

lemma evaluate_step:
  assumes s: "cache_inv opts s"
  shows "fst (evaluateQueryCostWithCache opts body s) = cost_of_body opts body
    \<and> cache_inv opts (snd (evaluateQueryCostWithCache opts body s))"
proof (cases "body_query body")
  case None
  with s show ?thesis
    by (simp add: evaluateQueryCostWithCache_def cost_of_body_def)
next
  case (Some q)
  let ?k = "queryCostCacheKey q (body_operation body) (opt_default_size opts)"
  show ?thesis
  proof (cases "map_of (cost_cache s) ?k")
    case None
    from cache_store [OF s refl refl None] show ?thesis
      by (simp add: evaluateQueryCostWithCache_def cost_of_body_def getCachedQueryCostResult_def Some None s Let_def)
  next
    case hit: (Some v)
    from cache_hit [OF s hit] cache_refresh [OF s hit] show ?thesis
      by (simp add: evaluateQueryCostWithCache_def cost_of_body_def getCachedQueryCostResult_def Some hit s Let_def)
  qed
qed

lemma evaluate_all_inv:
  "cache_inv opts s \<Longrightarrow> fst (evaluate_all opts bodies s) = map (cost_of_body opts) bodies
    \<and> cache_inv opts (snd (evaluate_all opts bodies s))"
proof (induction bodies arbitrary: s)
  case (Cons b bs)
  from evaluate_step [OF Cons.prems, of b] Cons.IH [of "snd (evaluateQueryCostWithCache opts b s)"] show ?case
    by (cases "evaluateQueryCostWithCache opts b s"; cases "evaluate_all opts bs (snd (evaluateQueryCostWithCache opts b s))") simp
qed simp

text \<open>
  C5: Whatever bodies an evaluator answers, in any order and with any repetition, each answer is the
  one an evaluator without a cache gives to that body alone; and the cache never holds more entries than
  its configured size, nor two for one key.
\<close>

theorem cache_transparent:
  "(let (results, s) = evaluate_all opts bodies new_evaluator in
     results = map (cost_of_body opts) bodies
     \<and> int (length (cost_cache s)) \<le> max 0 (opt_cache_size opts) \<and> distinct (map fst (cost_cache s)))"
proof -
  have "cache_inv opts new_evaluator"
    by (simp add: cache_inv_def new_evaluator_def)
  from evaluate_all_inv [OF this, of bodies] show ?thesis
    by (auto simp: cache_inv_def split: prod.splits)
qed

section \<open>The traversal budget\<close>

text \<open>
  The work of \<open>estimateSelectionsCost\<close>: the selections its calls loop over, and how deep its calls nest.
\<close>

function cost_visits :: "fragments \<Rightarrow> string list \<Rightarrow> selection list \<Rightarrow> nat" where
  "cost_visits frags visited [] = 0"
| "cost_visits frags visited (Field n args None # sels) = 1 + cost_visits frags visited sels"
| "cost_visits frags visited (Field n args (Some ss) # sels) =
     1 + cost_visits frags visited ss + cost_visits frags visited sels"
| "cost_visits frags visited (InlineFragment ss # sels) =
     1 + cost_visits frags visited ss + cost_visits frags visited sels"
| "cost_visits frags visited (FragmentSpread n # sels) =
     1 + (if n \<in> set visited then 0
          else (case map_of frags n of None \<Rightarrow> 0 | Some body \<Rightarrow> cost_visits frags (n # visited) body))
       + cost_visits frags visited sels"
  by pat_completeness auto
termination
  by (relation "measures [\<lambda>(frags, visited, sels). unvisited frags visited, \<lambda>(frags, visited, sels). size_list size sels]")
    (auto simp: unvisited_less)

function cost_nesting :: "fragments \<Rightarrow> string list \<Rightarrow> selection list \<Rightarrow> nat" where
  "cost_nesting frags visited [] = 0"
| "cost_nesting frags visited (Field n args None # sels) = cost_nesting frags visited sels"
| "cost_nesting frags visited (Field n args (Some ss) # sels) =
     max (1 + cost_nesting frags visited ss) (cost_nesting frags visited sels)"
| "cost_nesting frags visited (InlineFragment ss # sels) =
     max (1 + cost_nesting frags visited ss) (cost_nesting frags visited sels)"
| "cost_nesting frags visited (FragmentSpread n # sels) =
     max (if n \<in> set visited then 0
          else (case map_of frags n of None \<Rightarrow> 0 | Some body \<Rightarrow> 1 + cost_nesting frags (n # visited) body))
       (cost_nesting frags visited sels)"
  by pat_completeness auto
termination
  by (relation "measures [\<lambda>(frags, visited, sels). unvisited frags visited, \<lambda>(frags, visited, sels). size_list size sels]")
    (auto simp: unvisited_less)

declare cost_visits.simps [simp del] cost_nesting.simps [simp del]

lemma visit_chain:
  assumes "v = (if Suc d + a \<le> 128 \<and> int p \<le> r - 1 then Some (r - 1 - int p) else None)"
    and "\<And>r'. v = Some r' \<Longrightarrow> 0 \<le> r' \<Longrightarrow> w r' = (if d + b \<le> 128 \<and> int q \<le> r' then Some (r' - int q) else None)"
  shows "(case v of None \<Rightarrow> None | Some r' \<Rightarrow> w r') =
    (if d + max (1 + a) b \<le> 128 \<and> int (1 + p + q) \<le> r then Some (r - int (1 + p + q)) else None)"
proof (cases "Suc d + a \<le> 128 \<and> int p \<le> r - 1")
  case True
  then have "v = Some (r - 1 - int p)" "0 \<le> r - 1 - int p"
    using assms(1) by simp_all
  with assms(2) [OF this] True show ?thesis
    by auto
next
  case False
  then have "v = None"
    using assms(1) by simp
  with False show ?thesis
    by auto
qed

lemma visit_spec: "0 \<le> r \<Longrightarrow> visit frags active sels d r =
    (if d + cost_nesting frags active sels \<le> 128 \<and> int (cost_visits frags active sels) \<le> r
     then Some (r - int (cost_visits frags active sels)) else None)"
proof (induction frags active sels d r rule: visit.induct)
  case (1 frags active depth r)
  then show ?case
    by (simp add: visit.simps cost_visits.simps cost_nesting.simps)
next
  case (2 frags active name sels depth r)
  show ?case
  proof (cases "128 < depth \<or> r - 1 < 0")
    case False
    note no = False
    have skip: "visit frags active sels depth (r - 1) =
        (if depth + cost_nesting frags active sels \<le> 128 \<and> int (1 + cost_visits frags active sels) \<le> r
         then Some (r - int (1 + cost_visits frags active sels)) else None)"
      if "map_of frags name = None \<or> name \<in> set active"
    proof (cases "map_of frags name")
      case None
      from "2.IH"(1) [OF no None] no show ?thesis
        by (auto simp del: map_of_eq_None_iff)
    next
      case (Some body)
      with that have "\<not> name \<notin> set active"
        by simp
      from "2.IH"(4) [OF no Some this] no show ?thesis
        by auto
    qed
    show ?thesis
    proof (cases "\<exists>body. map_of frags name = Some body \<and> name \<notin> set active")
      case True
      then obtain body where b: "map_of frags name = Some body" "name \<notin> set active"
        by blast
      have first: "visit frags (name # active) body (depth + 1) (r - 1) =
          (if Suc depth + cost_nesting frags (name # active) body \<le> 128 \<and> int (cost_visits frags (name # active) body) \<le> r - 1
           then Some (r - 1 - int (cost_visits frags (name # active) body)) else None)"
        using "2.IH"(2) [OF no b] no by simp
      from visit_chain [OF first "2.IH"(3) [OF no b]] no b show ?thesis
        by (simp add: visit.simps cost_visits.simps cost_nesting.simps)
    next
      case False
      then have "map_of frags name = None \<or> name \<in> set active"
        by auto
      with skip [OF this] no show ?thesis
        by (cases "map_of frags name") (auto simp: visit.simps cost_visits.simps cost_nesting.simps)
    qed
  qed (use "2.prems" in \<open>auto simp: visit.simps cost_visits.simps\<close>)
next
  case (3 frags active n args ss sels depth r)
  show ?case
  proof (cases "128 < depth \<or> r - 1 < 0")
    case False
    with "3.IH"(1) have first: "visit frags active ss (depth + 1) (r - 1) =
        (if Suc depth + cost_nesting frags active ss \<le> 128 \<and> int (cost_visits frags active ss) \<le> r - 1
         then Some (r - 1 - int (cost_visits frags active ss)) else None)"
      by simp
    from visit_chain [OF first "3.IH"(2) [OF False]] False show ?thesis
      by (simp add: visit.simps cost_visits.simps cost_nesting.simps)
  qed (use "3.prems" in \<open>auto simp: visit.simps cost_visits.simps\<close>)
next
  case (4 frags active n args sels depth r)
  then show ?case
    by (cases "128 < depth \<or> r - 1 < 0") (auto simp: visit.simps cost_visits.simps cost_nesting.simps)
next
  case (5 frags active ss sels depth r)
  show ?case
  proof (cases "128 < depth \<or> r - 1 < 0")
    case False
    with "5.IH"(1) have first: "visit frags active ss (depth + 1) (r - 1) =
        (if Suc depth + cost_nesting frags active ss \<le> 128 \<and> int (cost_visits frags active ss) \<le> r - 1
         then Some (r - 1 - int (cost_visits frags active ss)) else None)"
      by simp
    from visit_chain [OF first "5.IH"(2) [OF False]] False show ?thesis
      by (simp add: visit.simps cost_visits.simps cost_nesting.simps)
  qed (use "5.prems" in \<open>auto simp: visit.simps cost_visits.simps\<close>)
qed

fun operation_selections :: "definition_node list \<Rightarrow> selection list list" where
  "operation_selections [] = []"
| "operation_selections (OperationDefinition k n sels # defs) = sels # operation_selections defs"
| "operation_selections (_ # defs) = operation_selections defs"

lemma visit_definitions_spec: "0 \<le> r \<Longrightarrow> visit_definitions frags defs r \<longleftrightarrow>
    (\<forall>sels\<in>set (operation_selections defs). cost_nesting frags [] sels \<le> 128)
    \<and> int (sum_list (map (cost_visits frags []) (operation_selections defs))) \<le> r"
  by (induction frags defs r rule: visit_definitions.induct) (auto simp: visit_spec)

text \<open>
  C29: The budget check accepts a document exactly when estimating all its operations visits at
  most 10,000 selections, fragments counted each time they are expanded, with calls nested at most 128
  deep; any other document is given an infinite cost, so it is rejected whenever the limit is finite.
\<close>

theorem budget_bounds_work:
  assumes "is_finite maxCost"
  shows "(withinTraversalBudget doc \<longleftrightarrow>
      (\<forall>sels\<in>set (operation_selections doc). cost_nesting (fragments_of doc) [] sels \<le> 128)
      \<and> sum_list (map (cost_visits (fragments_of doc) []) (operation_selections doc)) \<le> 10000)
    \<and> (withinTraversalBudget doc \<or> js_lt maxCost (estimateQueryCost log2 dflt doc op))"
proof
  show "withinTraversalBudget doc \<longleftrightarrow>
      (\<forall>sels\<in>set (operation_selections doc). cost_nesting (fragments_of doc) [] sels \<le> 128)
      \<and> sum_list (map (cost_visits (fragments_of doc) []) (operation_selections doc)) \<le> 10000"
    unfolding withinTraversalBudget_def using visit_definitions_spec [of 10000 "fragments_of doc" doc]
    by (simp add: nat_le_iff)
  show "withinTraversalBudget doc \<or> js_lt maxCost (estimateQueryCost log2 dflt doc op)"
    using finite_below_inf [OF assms] by (auto simp: estimateQueryCost_def)
qed

text \<open>A fragment that spreads itself twice is expanded once, and the document is accepted.\<close>

lemma budget_bounds_work_witness:
  "withinTraversalBudget
     [OperationDefinition Query_Operation None [Field ''user'' [] (Some [FragmentSpread ''f''])],
      FragmentDefinition ''f'' [FragmentSpread ''f'', FragmentSpread ''f'']]
   \<and> is_finite 0"
proof -
  have fin: "is_finite 0"
    by (simp add: is_finite_def f64_exp_def f64_mag_def)
  let ?doc = "[OperationDefinition Query_Operation None [Field ''user'' [] (Some [FragmentSpread ''f''])],
      FragmentDefinition ''f'' [FragmentSpread ''f'', FragmentSpread ''f'']]"
  have "\<forall>sels\<in>set (operation_selections ?doc). cost_nesting (fragments_of ?doc) [] sels \<le> 128"
    by code_simp
  moreover have "sum_list (map (cost_visits (fragments_of ?doc) []) (operation_selections ?doc)) = 4"
    by code_simp
  ultimately show ?thesis
    using budget_bounds_work [OF fin, of ?doc id 0 None] fin by (simp only: simp_thms) simp
qed

section \<open>Introspection\<close>

text \<open>The fields a selection set has once its fragments are expanded.\<close>

inductive expands :: "fragments \<Rightarrow> selection list \<Rightarrow> selection \<Rightarrow> bool" for frags where
  field: "Field n args sub \<in> set sels \<Longrightarrow> expands frags sels (Field n args sub)"
| inline: "InlineFragment ss \<in> set sels \<Longrightarrow> expands frags ss x \<Longrightarrow> expands frags sels x"
| spread: "FragmentSpread n \<in> set sels \<Longrightarrow> map_of frags n = Some body \<Longrightarrow> expands frags body x \<Longrightarrow>
    expands frags sels x"

definition meta_field :: "string \<Rightarrow> bool" where
  "meta_field n \<longleftrightarrow> n \<in> {''__schema'', ''__type'', ''__typename''}"

lemma classify_member:
  assumes "fst (classify frags allow visited sels has)" "x \<in> set sels"
  shows "case x of
      Field n args sub \<Rightarrow> meta_field n \<or> allow \<and> n = ''query'' \<and> (\<exists>ss. sub = Some ss \<and> fst (classify frags False [] ss False))
    | InlineFragment ss \<Rightarrow> fst (classify frags allow visited ss False)
    | FragmentSpread n \<Rightarrow> \<exists>body. map_of frags n = Some body \<and> fst (classify frags allow (n # visited) body False)"
  using assms
proof (induction sels arbitrary: has)
  case (Cons y ys)
  show ?case
  proof (cases y)
    case (Field n args sub)
    with Cons show ?thesis
      by (auto simp: classify.simps Let_def meta_field_def split: if_splits option.splits)
  next
    case (FragmentSpread n)
    with Cons show ?thesis
      by (auto simp: classify.simps Let_def split: if_splits option.splits)
  next
    case (InlineFragment ss)
    with Cons show ?thesis
      by (auto simp: classify.simps Let_def split: if_splits)
  qed
qed simp

lemma classify_expands:
  assumes "expands frags sels x" "fst (classify frags allow visited sels False)"
  shows "\<exists>n args sub. x = Field n args sub \<and>
    (meta_field n \<or> allow \<and> n = ''query'' \<and> (\<exists>ss. sub = Some ss \<and> fst (classify frags False [] ss False)))"
  using assms
proof (induction arbitrary: visited rule: expands.induct)
  case (field n args sub sels)
  from classify_member [OF field.prems field.hyps] show ?case
    by simp
next
  case (inline ss sels x)
  from classify_member [OF inline.prems inline.hyps(1)] inline.IH show ?case
    by simp
next
  case (spread n sels body x)
  from classify_member [OF spread.prems spread.hyps(1)] spread.hyps(2) spread.IH show ?case
    by auto
qed

text \<open>
  C30: A query that escapes the estimate as introspection is meta only: its
  document has one operation of the requested name, and every field of that operation, once fragments are
  expanded, is \<open>__schema\<close>, \<open>__type\<close> or \<open>__typename\<close>, or, in a subscription, the wrapper \<open>query\<close> around fields that all
  are.
\<close>

theorem introspection_is_meta_only:
  assumes "compute_cost opts query op = Cached_Introspection"
  shows "\<exists>doc k name sels. opt_parse opts query = Inr doc
    \<and> selected_operations op doc = [OperationDefinition k name sels] \<and> withinTraversalBudget doc
    \<and> (\<forall>x. expands (fragments_of doc) sels x \<longrightarrow>
          (\<exists>n args sub. x = Field n args sub \<and>
             (meta_field n \<or>
              k = Subscription_Operation \<and> n = ''query'' \<and>
              (\<exists>ss. sub = Some ss \<and>
                (\<forall>y. expands (fragments_of doc) ss y \<longrightarrow> (\<exists>n' args' sub'. y = Field n' args' sub' \<and> meta_field n'))))))"
proof -
  from assms obtain doc k name sels where doc: "opt_parse opts query = Inr doc"
      "selected_operations op doc = [OperationDefinition k name sels]" "withinTraversalBudget doc"
      "fst (classify (fragments_of doc) (k = Subscription_Operation) [] sels False)"
    by (auto simp: compute_cost_def Let_def split: sum.splits list.splits definition_node.splits if_splits)
  have wrapped: "\<exists>n' args' sub'. y = Field n' args' sub' \<and> meta_field n'"
    if "expands (fragments_of doc) ss y" "fst (classify (fragments_of doc) False [] ss False)" for ss y
    using classify_expands [OF that] by blast
  have "\<exists>n args sub. x = Field n args sub \<and>
      (meta_field n \<or> k = Subscription_Operation \<and> n = ''query'' \<and>
       (\<exists>ss. sub = Some ss \<and> (\<forall>y. expands (fragments_of doc) ss y \<longrightarrow> (\<exists>n' args' sub'. y = Field n' args' sub' \<and> meta_field n'))))"
    if "expands (fragments_of doc) sels x" for x
  proof -
    from classify_expands [OF that doc(4)] obtain n args sub where x: "x = Field n args sub"
      "meta_field n \<or> (k = Subscription_Operation) \<and> n = ''query'' \<and> (\<exists>ss. sub = Some ss \<and> fst (classify (fragments_of doc) False [] ss False))"
      by blast
    from x(2) have "meta_field n \<or> k = Subscription_Operation \<and> n = ''query'' \<and>
       (\<exists>ss. sub = Some ss \<and> (\<forall>y. expands (fragments_of doc) ss y \<longrightarrow> (\<exists>n' args' sub'. y = Field n' args' sub' \<and> meta_field n')))"
      by (auto, metis wrapped)
    with x(1) show ?thesis
      by simp
  qed
  with doc(1-3) show ?thesis
    by (intro exI [of _ doc] exI [of _ k] exI [of _ name] exI [of _ sels]) simp
qed

lemma introspection_is_meta_only_witness:
  "compute_cost
     \<lparr>opt_parse = \<lambda>q. Inr [OperationDefinition Subscription_Operation None
         [Field ''query'' [] (Some [Field ''__schema'' [] (Some [Field ''types'' [] None]), FragmentSpread ''f''])],
       FragmentDefinition ''f'' [Field ''__typename'' [] None]],
      opt_log2 = id, opt_max_cost = 0, opt_default_size = 0, opt_cache_size = 0, opt_max_bytes = 0\<rparr> [] None
     = Cached_Introspection
   \<and> meta_field ''__schema'' \<and> \<not> meta_field ''types''"
proof -
  let ?doc = "[OperationDefinition Subscription_Operation None
         [Field ''query'' [] (Some [Field ''__schema'' [] (Some [Field ''types'' [] None]), FragmentSpread ''f''])],
       FragmentDefinition ''f'' [Field ''__typename'' [] None]]"
  let ?opts = "\<lparr>opt_parse = \<lambda>q. Inr ?doc, opt_log2 = id, opt_max_cost = 0, opt_default_size = 0, opt_cache_size = 0,
      opt_max_bytes = 0\<rparr>"
  have c: "compute_cost ?opts [] None = Cached_Introspection"
    by (simp add: compute_cost_def selected_operations_def names_operation_def fragments_of_def withinTraversalBudget_def
        visit.simps classify.simps Let_def)
  have "expands (fragments_of ?doc) [Field ''__schema'' [] (Some [Field ''types'' [] None]), FragmentSpread ''f'']
      (Field ''__schema'' [] (Some [Field ''types'' [] None]))"
    by (rule expands.field) simp
  with introspection_is_meta_only [OF c] have "meta_field ''__schema''"
    by (auto simp: meta_field_def)
  with c show ?thesis
    by (simp add: meta_field_def)
qed

section \<open>Costs that are not numbers\<close>

text \<open>
  A cost of NaN exceeds no limit, and a page size given as a string that is no number makes the cost NaN:
  such a query is accepted by the estimate whatever the limit is.
\<close>

lemma nan_cost_accepted: "is_nan c \<Longrightarrow> cost_result opts (Cached_Cost c) = Cost_Accepted c"
  by (simp add: cost_result_def)

lemma non_numeric_page_size_accepted:
  assumes "is_nan (log2 js_nan)"
  shows "is_nan (estimateQueryCost log2 dflt
     [OperationDefinition Query_Operation None [Field ''records'' [(''first'', StringValue (lit ''all''))] None]] None)"
proof -
  have "string_to_number (lit ''all'') = js_nan"
    by (simp add: string_to_number_def trim_def trim_start_def is_space_def radix_literal_def split_sign_def
        infinity_text_def decimal_prefix_def is_digit_def lit_def)
  then have "is_nan (collection_multiplier log2 [(''first'', StringValue (lit ''all''))] dflt)"
    using assms by (simp add: collection_multiplier_def getPaginationMultiplier_def find_arg_def)
  moreover have "isCollectionField ''records'' [(''first'', StringValue (lit ''all''))]"
    "withinTraversalBudget
      [OperationDefinition Query_Operation None [Field ''records'' [(''first'', StringValue (lit ''all''))] None]]"
    by code_simp+
  ultimately show ?thesis
    by (simp add: estimateQueryCost_def operation_cost_def estimateSelectionsCost.simps js_ceil_nan)
qed

end
