(* ===== verification/Level_Metadata.thy ===== *)
theory Level_Metadata
  imports Js_Json
begin

text \<open>
  Counting the checkpoints and finishes of a level (\<open>packages/core/src/levels/metadata.ts\<close>), with the
  helpers of \<open>packages/core/src/levels/utils.ts\<close> and the conversions of JSON values they use.

  A block of a JSON level is a \<open>json\<close> value. A missing property is \<open>None\<close>; the properties the sources read
  are none that strings, arrays or the prototypes have.
\<close>

section \<open>Reading JSON values\<close>

text \<open>\<open>v.k\<close> and \<open>v?.k\<close>.\<close>

definition json_get :: "json option \<Rightarrow> string \<Rightarrow> js_error + json option" where
  "json_get v k =
     (case v of
        None \<Rightarrow> Inl (TypeError ''undefined is not an object'')
      | Some JNull \<Rightarrow> Inl (TypeError ''null is not an object'')
      | Some (JObject kvs) \<Rightarrow> Inr (map_of kvs (lit k))
      | Some _ \<Rightarrow> Inr None)"

definition json_opt_key :: "json option \<Rightarrow> jstring \<Rightarrow> json option" where
  "json_opt_key v k = (case v of Some (JObject kvs) \<Rightarrow> map_of kvs k | _ \<Rightarrow> None)"

definition json_opt :: "json option \<Rightarrow> string \<Rightarrow> json option" where
  "json_opt v k = json_opt_key v (lit k)"

text \<open>\<open>v ?? d\<close>\<close>

definition json_or :: "json option \<Rightarrow> json \<Rightarrow> json" where
  "json_or v d = (case v of None \<Rightarrow> d | Some JNull \<Rightarrow> d | Some x \<Rightarrow> x)"

definition joined :: "jstring \<Rightarrow> jstring list \<Rightarrow> jstring" where
  "joined sep ss = (case ss of [] \<Rightarrow> [] | x # xs \<Rightarrow> x @ concat (map (\<lambda>y. sep @ y) xs))"

fun res_list :: "('e + 'a) list \<Rightarrow> 'e + 'a list" where
  "res_list [] = Inr []"
| "res_list (x # xs) = res_bind x (\<lambda>y. res_map ((#) y) (res_list xs))"

text \<open>
  \<open>String(v)\<close>. An object whose own \<open>toString\<close> is data cannot be converted; \<open>join\<close> writes null as nothing.
\<close>

fun json_to_string :: "json \<Rightarrow> js_error + jstring" where
  "json_to_string JNull = Inr (lit ''null'')"
| "json_to_string (JBool b) = Inr (lit (if b then ''true'' else ''false''))"
| "json_to_string (JNumber x) = Inr (number_to_string x)"
| "json_to_string (JString s) = Inr s"
| "json_to_string (JArray xs) =
     res_map (joined [44]) (res_list (map (\<lambda>x. if x = JNull then Inr [] else json_to_string x) xs))"
| "json_to_string (JObject kvs) =
     (if lit ''toString'' \<in> fst ` set kvs then Inl (TypeError ''Cannot convert object to primitive value'')
      else Inr (lit ''[object Object]''))"

definition json_to_number :: "json option \<Rightarrow> js_error + js_number" where
  "json_to_number v =
     (case v of
        None \<Rightarrow> Inr js_nan
      | Some JNull \<Rightarrow> Inr 0
      | Some (JBool b) \<Rightarrow> Inr (if b then js_of_nat 1 else 0)
      | Some (JNumber x) \<Rightarrow> Inr x
      | Some (JString s) \<Rightarrow> Inr (string_to_number s)
      | Some x \<Rightarrow> res_map string_to_number (json_to_string x))"

text \<open>\<open>v === n\<close> for a natural number.\<close>

definition json_is_nat :: "json option \<Rightarrow> nat \<Rightarrow> bool" where
  "json_is_nat v n = (case v of Some (JNumber x) \<Rightarrow> js_eq x (js_of_nat n) | _ \<Rightarrow> False)"

section \<open>Numbers with defaults\<close>

definition present_block_id :: nat where
  "present_block_id = 2264"

definition numberOrDefault :: "json option \<Rightarrow> js_number \<Rightarrow> js_number" where
  "numberOrDefault v fallback =
     (case v of
        Some (JNumber x) \<Rightarrow> if is_finite x then x else fallback
      | Some (JString s) \<Rightarrow> (let parsed = string_to_number s in if is_finite parsed then parsed else fallback)
      | _ \<Rightarrow> fallback)"

definition integerOrDefault :: "json option \<Rightarrow> js_number \<Rightarrow> js_number" where
  "integerOrDefault v fallback = js_trunc (numberOrDefault v fallback)"

definition medalTime :: "json option \<Rightarrow> js_number" where
  "medalTime v = numberOrDefault v 0"

text \<open>The left result of \<open>parseFinite\<close> is the message of the error it throws.\<close>

definition parseFinite :: "jstring \<Rightarrow> string \<Rightarrow> jstring + js_number" where
  "parseFinite s label =
     (let parsed = string_to_number s in
      if is_finite parsed then Inr parsed else Inl (lit (''Invalid '' @ label @ '': '') @ s))"

definition compareNumber :: "js_number \<Rightarrow> js_number \<Rightarrow> int" where
  "compareNumber l r = (if js_lt l r then - 1 else if js_lt r l then 1 else 0)"

section \<open>Checkpoints and finishes\<close>

definition checkpoint_ids :: "nat list" where
  "checkpoint_ids = [22, 372, 373, 1275, 1276, 1277, 1278, 1279, 1615]"

definition alternate_checkpoint_ids :: "nat list" where
  "alternate_checkpoint_ids =
     [1609, 1610, 1613, 1614, 1979, 1981, 1983, 1985, 1607, 1608, 1611, 1612, 1978, 1980, 1982, 1984,
      1986, 1987, 1988, 1989, 1990, 1991, 1992, 1993]"

definition finish_ids :: "nat list" where
  "finish_ids = [2, 1273, 1274, 1412, 1616]"

text \<open>\<open>Set.has\<close> of a set of natural numbers.\<close>

definition has_id :: "nat list \<Rightarrow> js_number \<Rightarrow> bool" where
  "has_id ids x \<longleftrightarrow> (\<exists>n\<in>set ids. js_eq x (js_of_nat n))"

definition countCheckpoints :: "(js_number \<times> bool) list \<Rightarrow> nat" where
  "countCheckpoints blocks =
     foldl (\<lambda>acc (i, isCheckpoint).
       if has_id checkpoint_ids i then acc + 1
       else acc + (if has_id alternate_checkpoint_ids i \<and> isCheckpoint then 1 else 0)) 0 blocks"

definition countFinishes :: "js_number list \<Rightarrow> nat" where
  "countFinishes ids = foldl (\<lambda>acc i. acc + (if has_id finish_ids i then 1 else 0)) 0 ids"

section \<open>Checkpoint groups\<close>

text \<open>A node is a checkpoint block with its \<open>active\<close> flag; the \<open>Map\<close> is a list in insertion order.\<close>

type_synonym checkpoint_nodes = "(jstring \<times> json \<times> bool) list"

fun collect_nodes :: "json list \<Rightarrow> nat \<Rightarrow> checkpoint_nodes \<Rightarrow> js_error + checkpoint_nodes" where
  "collect_nodes [] index nodes = Inr nodes"
| "collect_nodes (block # blocks) index nodes =
     res_bind (json_get (Some block) ''i'') (\<lambda>i.
     res_bind (json_to_number i) (\<lambda>x.
       if \<not> has_id checkpoint_ids x \<and> \<not> has_id alternate_checkpoint_ids x then collect_nodes blocks (index + 1) nodes
       else
         let active = has_id checkpoint_ids x
               \<or> json_is_nat (json_opt (json_opt (json_opt (Some block) ''d'') ''n'') ''ch5'') 1;
             key = (case json_opt (Some block) ''u'' of
                 Some (JString s) \<Rightarrow> s
               | _ \<Rightarrow> lit ''missing:'' @ decimal_text index) in
         collect_nodes blocks (index + 1) (put_key key (block, active) nodes)))"

type_synonym checkpoint_edges = "(jstring \<times> jstring list) list"

definition targets_of :: "checkpoint_edges \<Rightarrow> jstring \<Rightarrow> jstring list" where
  "targets_of edges u = (case map_of edges u of Some ts \<Rightarrow> ts | None \<Rightarrow> [])"

definition add_edge :: "jstring \<Rightarrow> jstring \<Rightarrow> checkpoint_edges \<Rightarrow> checkpoint_edges" where
  "add_edge a b edges =
     put_key a (if b \<in> set (targets_of edges a) then targets_of edges a else targets_of edges a @ [b]) edges"

text \<open>One link text of a block: \<open>id0-\<close> and its index.\<close>

definition add_link :: "checkpoint_nodes \<Rightarrow> jstring \<Rightarrow> json option \<Rightarrow> nat \<Rightarrow> checkpoint_edges \<Rightarrow> checkpoint_edges" where
  "add_link nodes uid data index edges =
     (case json_opt_key (json_opt data ''t'') (lit ''id0-'' @ decimal_text index) of
        Some (JString link_text) \<Rightarrow>
          (case json_parse link_text of
             None \<Rightarrow> edges
           | Some link \<Rightarrow>
               if \<not> json_is_nat (json_opt (Some link) ''c'') 0 then edges
               else
                 (case json_opt (Some link) ''t'' of
                    Some (JString t) \<Rightarrow>
                      if t \<in> fst ` set nodes then add_edge t uid (add_edge uid t edges) else edges
                  | _ \<Rightarrow> edges))
      | _ \<Rightarrow> edges)"

text \<open>The count of links of a block, when it is an integer within the limits.\<close>

definition link_count :: "js_number \<Rightarrow> nat \<Rightarrow> nat option" where
  "link_count x budget =
     (case js_integer x of
        None \<Rightarrow> None
      | Some n \<Rightarrow> if n < 0 \<or> 20000 < n \<or> int budget < n then None else Some (nat n))"

fun collect_edges :: "checkpoint_nodes \<Rightarrow> checkpoint_nodes \<Rightarrow> nat \<Rightarrow> checkpoint_edges \<Rightarrow> js_error + checkpoint_edges" where
  "collect_edges nodes [] budget edges = Inr edges"
| "collect_edges nodes ((uid, block, act) # rest) budget edges =
     (let data = json_opt (Some block) ''d'' in
      res_bind (json_to_number (Some (json_or (json_opt (json_opt data ''n'') ''id0'') (JNumber 0)))) (\<lambda>x.
        case link_count x budget of
          None \<Rightarrow> collect_edges nodes rest budget edges
        | Some count \<Rightarrow>
            collect_edges nodes rest (budget - count)
              (fold (\<lambda>index. add_link nodes uid data index) [0..<count] edges)))"

text \<open>
  The inner loop: \<open>pending\<close> has the top of the stack first. Its value is the set of visited nodes and
  whether one of those visited now is active.
\<close>

definition edge_targets :: "checkpoint_edges \<Rightarrow> jstring set" where
  "edge_targets edges = (\<Union>e\<in>set edges. set (snd e))"

lemma finite_edge_targets [simp]: "finite (edge_targets edges)"
  by (simp add: edge_targets_def)

lemma targets_of_sub: "set (targets_of edges u) \<subseteq> edge_targets edges"
proof (cases "map_of edges u")
  case (Some ts)
  then have "(u, ts) \<in> set edges"
    by (rule map_of_SomeD)
  with Some show ?thesis
    by (force simp: targets_of_def edge_targets_def)
qed (simp add: targets_of_def)

function flood :: "checkpoint_nodes \<Rightarrow> checkpoint_edges \<Rightarrow> jstring list \<Rightarrow> jstring list \<Rightarrow> bool \<Rightarrow> jstring list \<times> bool" where
  "flood nodes edges [] visited active = (visited, active)"
| "flood nodes edges (current # pending) visited active =
     (if current \<in> set visited then flood nodes edges pending visited active
      else flood nodes edges (rev (targets_of edges current) @ pending) (current # visited)
        (active \<or> (case map_of nodes current of Some (b, a) \<Rightarrow> a | None \<Rightarrow> False)))"
  by pat_completeness auto
termination
proof (relation "measures [\<lambda>(nodes, edges, pending, visited, active). card ((set pending \<union> edge_targets edges) - set visited),
      \<lambda>(nodes, edges, pending, visited, active). length pending]", goal_cases)
  case 1
  show ?case by simp
next
  case (2 nodes edges current pending visited active)
  then show ?case
    by (auto simp: insert_absorb intro!: card_mono)
next
  case (3 nodes edges current pending visited active)
  have "set (rev (targets_of edges current) @ pending) \<union> edge_targets edges - set (current # visited)
      \<subset> set (current # pending) \<union> edge_targets edges - set visited"
    using 3 targets_of_sub [of edges current] by auto
  then have "card (set (rev (targets_of edges current) @ pending) \<union> edge_targets edges - set (current # visited))
      < card (set (current # pending) \<union> edge_targets edges - set visited)"
    by (rule psubset_card_mono [rotated]) simp
  then show ?case
    by simp
qed

declare flood.simps [simp del]

fun count_groups :: "checkpoint_nodes \<Rightarrow> checkpoint_edges \<Rightarrow> jstring list \<Rightarrow> jstring list \<Rightarrow> nat \<Rightarrow> nat" where
  "count_groups nodes edges [] visited count = count"
| "count_groups nodes edges (uid # uids) visited count =
     (if uid \<in> set visited then count_groups nodes edges uids visited count
      else
        let (visited', active) = flood nodes edges [uid] visited False in
        count_groups nodes edges uids visited' (if active then count + 1 else count))"

definition countJsonCheckpointGroups :: "json list \<Rightarrow> js_error + nat" where
  "countJsonCheckpointGroups blocks =
     res_bind (collect_nodes blocks 0 []) (\<lambda>nodes.
     res_map (\<lambda>edges. count_groups nodes edges (map fst nodes) [] 0) (collect_edges nodes nodes 100000 []))"

end
