(* ===== verification/Level_Json.thy ===== *)
theory Level_Json
  imports Level_Metadata
begin

text \<open>
  JSON levels (\<open>packages/core/src/levels/json.ts\<close>) and the types they share with CSV levels
  (\<open>packages/core/src/levels/types.ts\<close>).

  The hash function of the native add-on is the parameter \<open>xxhash\<close>. A text that \<open>JSON.parse\<close> rejects is the
  error \<open>SyntaxError\<close>, kept as an \<open>Error\<close>. Values read from a level are of any JSON type at run time, whatever the
  declared types say: \<open>uid\<close>, \<open>hash\<close> and the author are \<open>json\<close>.
\<close>

section \<open>Types\<close>

record vector3 =
  vec_x :: js_number
  vec_y :: js_number
  vec_z :: js_number

record csv_block =
  block_euler :: vector3
  block_id :: js_number
  block_options :: "js_number list"
  block_paints :: "js_number list"
  block_position :: vector3
  block_scale :: vector3

datatype level_format = Format_Csv | Format_Json

datatype level_blocks = Csv_Blocks "csv_block list" | Json_Blocks "json list"

record parsed_level =
  level_fmt :: level_format
  level_hash :: json
  level_uid :: json
  author_id :: int
  file_author :: json
  time_author :: js_number
  time_gold :: js_number
  time_silver :: js_number
  time_bronze :: js_number
  amount_checkpoints :: nat
  amount_finishes :: nat
  amount_blocks :: nat
  type_ground :: js_number
  type_skybox :: js_number
  level_blocks :: level_blocks
  environment :: json

text \<open>\<open>ParsedLevelV2\<close>: the level with the content hash, and the hash it had as \<open>zeepHash\<close>.\<close>

record parsed_level_v2 = parsed_level +
  zeep_hash :: json

section \<open>The hash\<close>

definition hex_upper :: "nat \<Rightarrow> u16" where
  "hex_upper d = (if d < 10 then of_nat (48 + d) else of_nat (55 + d))"

definition hex_text :: "byte list \<Rightarrow> jstring" where
  "hex_text bs = concat (map (\<lambda>b. [hex_upper (unat b div 16), hex_upper (unat b mod 16)]) bs)"

definition xxHash128Hex :: "(byte list \<Rightarrow> byte list) \<Rightarrow> jstring \<Rightarrow> jstring" where
  "xxHash128Hex xxhash content = hex_text (xxhash (text_encode content))"

section \<open>Numbers JSON does not have\<close>

definition isJsonIdentifierCharacter :: "u16 option \<Rightarrow> bool" where
  "isJsonIdentifierCharacter character =
     (case character of
        None \<Rightarrow> False
      | Some u \<Rightarrow>
          let c = unat u in
          (65 \<le> c \<and> c \<le> 90) \<or> (97 \<le> c \<and> c \<le> 122) \<or> (48 \<le> c \<and> c \<le> 57) \<or> c = 95 \<or> c = 36)"

definition char_at :: "jstring \<Rightarrow> nat \<Rightarrow> u16 option" where
  "char_at s i = (if i < length s then Some (s ! i) else None)"

definition starts_with :: "jstring \<Rightarrow> jstring \<Rightarrow> bool" where
  "starts_with tok s \<longleftrightarrow> take (length tok) s = tok"

text \<open>
  The position \<open>index\<close> of the source is given by the character before it, \<open>prev\<close>, and the text from it on,
  \<open>rest\<close>.
\<close>

definition replaceBareToken :: "u16 option \<Rightarrow> jstring \<Rightarrow> string \<Rightarrow> jstring option" where
  "replaceBareToken prev rest tok =
     (if \<not> starts_with (lit tok) rest then None
      else if isJsonIdentifierCharacter prev \<or> isJsonIdentifierCharacter (char_at rest (length tok)) then None
      else Some (lit ''0''))"

definition first_some :: "'a option \<Rightarrow> 'a option \<Rightarrow> 'a option" where
  "first_some a b = (case a of Some x \<Rightarrow> Some x | None \<Rightarrow> b)"

definition non_finite :: "(string \<Rightarrow> 'a option) \<Rightarrow> 'a option" where
  "non_finite f = first_some (f ''-Infinity'') (first_some (f ''Infinity'') (f ''NaN''))"

definition token_length :: "jstring \<Rightarrow> nat" where
  "token_length rest =
     (if starts_with (lit ''-Infinity'') rest then 9
      else if starts_with (lit ''Infinity'') rest then 8 else 3)"

lemma token_length_pos: "0 < token_length rest"
  by (simp add: token_length_def)

function normalize_from :: "bool \<Rightarrow> bool \<Rightarrow> u16 option \<Rightarrow> jstring \<Rightarrow> jstring" where
  "normalize_from inString escaped prev [] = []"
| "normalize_from inString escaped prev (character # rest) =
     (if inString then
        character #
          (if escaped then normalize_from True False (Some character) rest
           else if character = 92 then normalize_from True True (Some character) rest
           else if character = 34 then normalize_from False False (Some character) rest
           else normalize_from True False (Some character) rest)
      else if character = 34 then character # normalize_from True escaped (Some character) rest
      else
        (case non_finite (replaceBareToken prev (character # rest)) of
           Some replacement \<Rightarrow>
             replacement @
               normalize_from False escaped (char_at (character # rest) (token_length (character # rest) - 1))
                 (drop (token_length (character # rest)) (character # rest))
         | None \<Rightarrow> character # normalize_from False escaped (Some character) rest))"
  by pat_completeness auto
termination
  by (relation "measure (\<lambda>(i, e, p, s). length s)") (auto simp: token_length_pos)

declare normalize_from.simps [simp del]

definition normalizeNonFiniteJsonNumbers :: "jstring \<Rightarrow> jstring" where
  "normalizeNonFiniteJsonNumbers content = normalize_from False False None content"

section \<open>The canonical text\<close>

text \<open>\<open>Object.keys(value).sort()\<close>: the keys by their code units.\<close>

fun canonicalJson :: "json \<Rightarrow> jstring" where
  "canonicalJson JNull = lit ''null''"
| "canonicalJson (JBool b) = lit (if b then ''true'' else ''false'')"
| "canonicalJson (JNumber x) = json_number x"
| "canonicalJson (JString s) = json_quote s"
| "canonicalJson (JArray xs) = 91 # joined [44] (map canonicalJson xs) @ [93]"
| "canonicalJson (JObject kvs) =
     123 # joined [44] (map (\<lambda>(k, s). json_quote k @ 58 # s) (sort_key fst (map (\<lambda>(k, v). (k, canonicalJson v)) kvs))) @ [125]"

text \<open>\<open>block.i !== presentBlockId\<close>; a null block throws.\<close>

definition block_kept :: "json \<Rightarrow> js_error + bool" where
  "block_kept block = res_map (\<lambda>i. \<not> json_is_nat i present_block_id) (json_get (Some block) ''i'')"

fun res_filter :: "('a \<Rightarrow> 'e + bool) \<Rightarrow> 'a list \<Rightarrow> 'e + 'a list" where
  "res_filter p [] = Inr []"
| "res_filter p (x # xs) = res_bind (p x) (\<lambda>b. res_map (\<lambda>ys. if b then x # ys else ys) (res_filter p xs))"

text \<open>The blocks in the order of their canonical texts; equal texts are interchangeable.\<close>

definition canonicalJsonBlocks :: "json list \<Rightarrow> js_error + jstring" where
  "canonicalJsonBlocks blocks =
     res_map (\<lambda>kept. 91 # joined [44] (sort (map canonicalJson kept)) @ [93]) (res_filter block_kept blocks)"

definition parse_level_json :: "jstring \<Rightarrow> js_error + json" where
  "parse_level_json content =
     (case json_parse (normalizeNonFiniteJsonNumbers content) of
        None \<Rightarrow> Inl (Error ''SyntaxError'')
      | Some v \<Rightarrow> Inr v)"

definition calculateJsonLevelXxHash :: "(byte list \<Rightarrow> byte list) \<Rightarrow> jstring \<Rightarrow> js_error + jstring" where
  "calculateJsonLevelXxHash xxhash content =
     res_bind (parse_level_json content) (\<lambda>v.
     res_bind (json_get (Some v) ''blox'') (\<lambda>blox.
       case blox of
         Some (JArray blocks) \<Rightarrow> res_map (xxHash128Hex xxhash) (canonicalJsonBlocks blocks)
       | _ \<Rightarrow> Inl (Error ''JSON level is missing blox'')))"

section \<open>The parsed level\<close>

text \<open>\<open>content.match(/"StmID"\s*:\s*"?(\d+)"?/)?.[1]\<close>\<close>

definition stm_id_here :: "jstring \<Rightarrow> jstring option" where
  "stm_id_here s =
     (let key = 34 # lit ''StmID'' @ [34]; r1 = dropWhile is_space (drop (length key) s) in
      if \<not> starts_with key s then None
      else
        (case r1 of
           [] \<Rightarrow> None
         | c # r2 \<Rightarrow>
             if c \<noteq> 58 then None
             else
               let r3 = dropWhile is_space r2;
                   r4 = (case r3 of q # r \<Rightarrow> if q = 34 then r else r3 | [] \<Rightarrow> []);
                   ds = takeWhile is_digit r4 in
               if ds = [] then None else Some ds))"

fun match_stm_id :: "jstring \<Rightarrow> jstring option" where
  "match_stm_id [] = None"
| "match_stm_id (u # us) = (case stm_id_here (u # us) of Some ds \<Rightarrow> Some ds | None \<Rightarrow> match_stm_id us)"

definition parseJsonLevel :: "jstring \<Rightarrow> bool \<Rightarrow> js_error + parsed_level" where
  "parseJsonLevel content adventure =
     res_bind (parse_level_json content) (\<lambda>v.
     res_bind (json_get (Some v) ''level'') (\<lambda>level.
       let uid = json_or (json_opt level ''UID'') (JString []);
           zeepHash = json_or (json_opt level ''zeepHash'') uid;
           blocks = (case json_opt (Some v) ''blox'' of Some (JArray bs) \<Rightarrow> bs | _ \<Rightarrow> []);
           medals = json_opt (Some v) ''medals''; enviro = json_opt (Some v) ''enviro'' in
       res_bind (res_list (map (\<lambda>b. json_get (Some b) ''i'') blocks)) (\<lambda>ids.
       res_map (\<lambda>groups.
         \<lparr>level_fmt = Format_Json, level_hash = (if adventure then uid else zeepHash), level_uid = uid,
          author_id = (case match_stm_id content of Some ds \<Rightarrow> int (decimal_val ds) | None \<Rightarrow> 0),
          file_author = json_or (json_opt (json_opt (Some v) ''author'') ''name'') (JString []),
          time_author = medalTime (json_opt medals ''author''), time_gold = medalTime (json_opt medals ''gold''),
          time_silver = medalTime (json_opt medals ''silver''), time_bronze = medalTime (json_opt medals ''bronze''),
          amount_checkpoints = groups,
          amount_finishes = countFinishes (map (\<lambda>i. numberOrDefault i 0) ids),
          amount_blocks = length blocks,
          type_ground = numberOrDefault (json_opt enviro ''groundMat'') 0,
          type_skybox = numberOrDefault (json_opt enviro ''skybox'') 0,
          level_blocks = Json_Blocks blocks, environment = json_or enviro JNull\<rparr>)
         (countJsonCheckpointGroups blocks))))"

definition level_v2 :: "parsed_level \<Rightarrow> jstring \<Rightarrow> parsed_level_v2" where
  "level_v2 l h =
     \<lparr>level_fmt = level_fmt l, level_hash = JString h, level_uid = level_uid l, author_id = author_id l,
      file_author = file_author l, time_author = time_author l, time_gold = time_gold l,
      time_silver = time_silver l, time_bronze = time_bronze l, amount_checkpoints = amount_checkpoints l,
      amount_finishes = amount_finishes l, amount_blocks = amount_blocks l, type_ground = type_ground l,
      type_skybox = type_skybox l, level_blocks = level_blocks l, environment = environment l,
      zeep_hash = level_hash l\<rparr>"

definition parseJsonLevelV2 :: "(byte list \<Rightarrow> byte list) \<Rightarrow> jstring \<Rightarrow> bool \<Rightarrow> js_error + parsed_level_v2" where
  "parseJsonLevelV2 xxhash content adventure =
     res_bind (parseJsonLevel content adventure) (\<lambda>parsed.
     res_map (level_v2 parsed) (calculateJsonLevelXxHash xxhash content))"

end
