(* ===== verification/Level_Canonical.thy ===== *)
theory Level_Canonical
  imports Level_Json
begin

text \<open>
  The canonical text of a JSON level reads back. \<open>number_token\<close> finds the text of a number again, quoted
  strings end where they should, and so \<open>json_value\<close> returns the canonical value \<open>json_normal\<close>: the members of
  an object sorted by key and then in the order of the language (array indices first), numbers as their text
  denotes them.
\<close>

section \<open>Texts of numbers\<close>

lemma is_digit_char: "d < 10 \<Longrightarrow> is_digit (of_nat (48 + d)) \<and> digit_val (of_nat (48 + d)) = d \<and> (of_nat (48 + d) = (48 :: u16) \<longleftrightarrow> d = 0)"
proof -
  assume "d < 10"
  then have u: "unat (of_nat (48 + d) :: u16) = 48 + d"
    by (simp only: unat_u16_lit) simp
  moreover have "(of_nat (48 + d) = (48 :: u16)) \<longleftrightarrow> unat (of_nat (48 + d) :: u16) = unat (48 :: u16)"
    by (simp only: word_unat_eq_iff)
  ultimately show ?thesis
    using \<open>d < 10\<close> by (simp add: is_digit_def digit_val_def del: of_nat_add)
qed

lemma lit_char: "d < 10 \<Longrightarrow> lit [char_of (48 + d)] = [of_nat (48 + d)]"
  by (simp add: lit_def of_char_of del: of_nat_add)

lemma lit_append: "lit (a @ b) = lit a @ lit b"
  by (simp add: lit_def)

lemma decimal_text_unfold:
  "decimal_text n = (if n < 10 then [of_nat (48 + n)] else decimal_text (n div 10) @ [of_nat (48 + n mod 10)])"
proof (cases "n < 10")
  case True
  then show ?thesis
    by (simp add: decimal_text_def show_nat.simps [of n] lit_char del: of_nat_add)
next
  case False
  then show ?thesis
    by (simp add: decimal_text_def show_nat.simps [of n] lit_append lit_char del: of_nat_add)
qed

lemma digits_val_snoc: "digits_val b (ds @ [d]) = b * digits_val b ds + d"
  by (simp add: digits_val_def)

lemma decimal_val_snoc: "decimal_val (s @ [u]) = 10 * decimal_val s + digit_val u"
  by (simp add: decimal_val_def digits_val_snoc)

lemma decimal_val_Nil [simp]: "decimal_val [] = 0"
  by (simp add: decimal_val_def digits_val_def)

lemma decimal_text_digits: "list_all is_digit (decimal_text n)"
proof (induction n rule: less_induct)
  case (less n)
  then show ?case
    using is_digit_char [of n] is_digit_char [of "n mod 10"]
    by (subst decimal_text_unfold) (auto simp del: of_nat_add)
qed

lemma decimal_text_nonempty [simp]: "decimal_text n \<noteq> []"
  by (subst decimal_text_unfold) simp

lemma decimal_text_hd: "0 < n \<Longrightarrow> hd (decimal_text n) \<noteq> 48"
proof (induction n rule: less_induct)
  case (less n)
  show ?case
  proof (cases "n < 10")
    case True
    with less.prems is_digit_char [of n] show ?thesis
      by (subst decimal_text_unfold) (simp del: of_nat_add)
  next
    case False
    with less.IH [of "n div 10"] show ?thesis
      by (subst decimal_text_unfold) (simp del: of_nat_add)
  qed
qed

lemma decimal_val_text [simp]: "decimal_val (decimal_text n) = n"
proof (induction n rule: less_induct)
  case (less n)
  show ?case
  proof (cases "n < 10")
    case True
    then show ?thesis
      using is_digit_char [of n]
      by (subst decimal_text_unfold) (simp add: decimal_val_def digits_val_def del: of_nat_add)
  next
    case False
    with less.IH [of "n div 10"] is_digit_char [of "n mod 10"] show ?thesis
      by (subst decimal_text_unfold) (simp add: decimal_val_snoc del: of_nat_add)
  qed
qed

text \<open>What may follow a number.\<close>

definition number_end :: "jstring \<Rightarrow> bool" where
  "number_end r \<longleftrightarrow> (case r of [] \<Rightarrow> True | u # us \<Rightarrow> \<not> is_digit u \<and> u \<noteq> 46 \<and> u \<noteq> 101 \<and> u \<noteq> 69)"

lemma number_end_simps [simp]: "number_end []" "number_end (44 # r)" "number_end (93 # r)" "number_end (125 # r)"
  by (simp_all add: number_end_def is_digit_def)

lemma take_digits: "list_all is_digit ds \<Longrightarrow> (case r of [] \<Rightarrow> True | u # us \<Rightarrow> \<not> is_digit u) \<Longrightarrow>
    takeWhile is_digit (ds @ r) = ds \<and> dropWhile is_digit (ds @ r) = r"
  by (induction ds) (auto split: list.splits)

text \<open>The parts of a number: integer digits, a fraction, an exponent.\<close>

definition is_frac :: "jstring \<Rightarrow> bool" where
  "is_frac fp \<longleftrightarrow> fp = [] \<or> (\<exists>ds. fp = 46 # ds \<and> ds \<noteq> [] \<and> list_all is_digit ds)"

definition is_expo :: "jstring \<Rightarrow> bool" where
  "is_expo ex \<longleftrightarrow> ex = [] \<or> (\<exists>sg ds. ex = 101 # sg # ds \<and> (sg = 43 \<or> sg = 45) \<and> ds \<noteq> [] \<and> list_all is_digit ds)"

lemma frac_part_app:
  assumes "is_frac fp" "is_expo ex" "number_end r"
  shows "frac_part (fp @ ex @ r) = (fp, ex @ r)"
proof (cases "fp = []")
  case True
  have "case ex @ r of [] \<Rightarrow> True | u # us \<Rightarrow> u \<noteq> 46"
    using assms(2,3) by (auto simp: is_expo_def number_end_def split: list.splits)
  with True show ?thesis
    by (auto simp: frac_part_def split: list.splits)
next
  case False
  then obtain ds where ds: "fp = 46 # ds" "ds \<noteq> []" "list_all is_digit ds"
    using assms(1) by (auto simp: is_frac_def)
  have "case ex @ r of [] \<Rightarrow> True | u # us \<Rightarrow> \<not> is_digit u"
    using assms(2,3) by (auto simp: is_expo_def number_end_def is_digit_def split: list.splits)
  with ds take_digits [OF ds(3), of "ex @ r"] show ?thesis
    by (simp add: frac_part_def)
qed

lemma exp_part_app:
  assumes "is_expo ex" "number_end r"
  shows "exp_part (ex @ r) = (ex, r)"
proof (cases "ex = []")
  case True
  with assms(2) show ?thesis
    by (auto simp: exp_part_def number_end_def Let_def split: list.splits)
next
  case False
  then obtain sg ds where ds: "ex = 101 # sg # ds" "sg = 43 \<or> sg = 45" "ds \<noteq> []" "list_all is_digit ds"
    using assms(1) by (auto simp: is_expo_def)
  have "case r of [] \<Rightarrow> True | u # us \<Rightarrow> \<not> is_digit u"
    using assms(2) by (auto simp: number_end_def split: list.splits)
  with ds take_digits [OF ds(4), of r] show ?thesis
    by (auto simp: exp_part_def Let_def)
qed

definition is_integer_part :: "jstring \<Rightarrow> bool" where
  "is_integer_part ip \<longleftrightarrow> ip = [48] \<or> (ip \<noteq> [] \<and> list_all is_digit ip \<and> hd ip \<noteq> 48)"

lemma number_token_app:
  assumes "sg = [] \<or> sg = [45]" "is_integer_part ip" "is_frac fp" "is_expo ex" "number_end r"
  shows "number_token (sg @ ip @ fp @ ex @ r) = Some (sg @ ip @ fp @ ex, r)"
proof -
  have stop: "case fp @ ex @ r of [] \<Rightarrow> True | u # us \<Rightarrow> \<not> is_digit u"
    using assms(3,4,5) by (auto simp: is_frac_def is_expo_def number_end_def is_digit_def split: list.splits)
  obtain u us where ip: "ip = u # us"
    using assms(2) by (cases ip) (auto simp: is_integer_part_def)
  have u: "is_digit u"
    using assms(2) by (auto simp: is_integer_part_def ip is_digit_def)
  have split: "(case sg @ ip @ fp @ ex @ r of u # us \<Rightarrow> if u = 45 then ([u], us) else ([], sg @ ip @ fp @ ex @ r)
      | [] \<Rightarrow> ([], sg @ ip @ fp @ ex @ r)) = (sg, ip @ fp @ ex @ r)"
    using assms(1) u by (auto simp: ip is_digit_def)
  have int: "(if u = 48 then ([u], us @ fp @ ex @ r) else (takeWhile is_digit (ip @ fp @ ex @ r), dropWhile is_digit (ip @ fp @ ex @ r)))
      = (ip, fp @ ex @ r)"
    using assms(2) take_digits [OF _ stop, of ip] by (auto simp: is_integer_part_def ip)
  show ?thesis
    unfolding number_token_def split Let_def
    using u int frac_part_app [OF assms(3-5)] exp_part_app [OF assms(4,5)]
    by (cases "u = 48") (simp_all add: ip)
qed

lemma digits_text_shape:
  assumes "0 < s"
  shows "\<exists>ip fp ex. digits_text s n = ip @ fp @ ex \<and> is_integer_part ip \<and> is_frac fp \<and> is_expo ex"
proof -
  define ds where "ds = decimal_text s"
  have ds: "ds \<noteq> []" "list_all is_digit ds" "hd ds \<noteq> 48"
    using assms decimal_text_digits decimal_text_hd by (simp_all add: ds_def)
  have zeros: "list_all is_digit (replicate k 48)" for k
    by (induction k) (simp_all add: is_digit_def)
  have sub: "list_all is_digit (take k ds)" "list_all is_digit (drop k ds)" for k
    using ds(2) by (simp_all add: list_all_iff) (meson in_set_takeD in_set_dropD)+
  have ex: "is_expo (101 # exp_text e)" for e
    unfolding is_expo_def exp_text_def using decimal_text_digits [of "nat \<bar>e\<bar>"] by auto
  have short: "\<not> int (length ds) \<le> n \<Longrightarrow> 0 < n \<Longrightarrow> take (nat n) ds \<noteq> [] \<and> hd (take (nat n) ds) = hd ds \<and> drop (nat n) ds \<noteq> []"
    using ds(1) by auto
  consider (A) "int (length ds) \<le> n" "n \<le> 21" | (B) "\<not> int (length ds) \<le> n" "0 < n" "n \<le> 21"
    | (C) "- 6 < n" "n \<le> 0" | (D) "n \<le> - 6 \<or> 21 < n" "length ds = 1" | (E) "n \<le> - 6 \<or> 21 < n" "length ds \<noteq> 1"
    by linarith
  then show ?thesis
  proof cases
    case A
    then have "digits_text s n = (ds @ replicate (nat (n - int (length ds))) 48) @ [] @ []"
      by (simp add: digits_text_def ds_def [symmetric] Let_def)
    moreover have "is_integer_part (ds @ replicate (nat (n - int (length ds))) 48)"
      using ds zeros by (auto simp: is_integer_part_def)
    ultimately show ?thesis
      by (metis is_frac_def is_expo_def)
  next
    case B
    then have "digits_text s n = take (nat n) ds @ (46 # drop (nat n) ds) @ []"
      by (simp add: digits_text_def ds_def [symmetric] Let_def)
    moreover have "is_integer_part (take (nat n) ds)" "is_frac (46 # drop (nat n) ds)"
      using ds short [OF B(1,2)] sub by (auto simp: is_integer_part_def is_frac_def)
    ultimately show ?thesis
      by (metis is_expo_def)
  next
    case C
    moreover have "\<not> int (length ds) \<le> n"
      using ds(1) C(2) by (cases ds) auto
    ultimately have "digits_text s n = [48] @ (46 # replicate (nat (- n)) 48 @ ds) @ []"
      by (simp add: digits_text_def ds_def [symmetric] Let_def)
    moreover have "is_integer_part [48]" "is_frac (46 # replicate (nat (- n)) 48 @ ds)"
      using ds zeros by (auto simp: is_integer_part_def is_frac_def)
    ultimately show ?thesis
      by (metis is_expo_def)
  next
    case D
    then have "digits_text s n = ds @ [] @ (101 # exp_text (n - 1))"
      by (auto simp: digits_text_def ds_def [symmetric] Let_def)
    moreover have "is_integer_part ds"
      using ds by (auto simp: is_integer_part_def)
    ultimately show ?thesis
      using ex by (metis is_frac_def)
  next
    case E
    with ds(1) have "digits_text s n = take 1 ds @ (46 # drop 1 ds) @ (101 # exp_text (n - 1))"
      by (auto simp: digits_text_def ds_def [symmetric] Let_def)
    moreover have "is_integer_part (take 1 ds)" "is_frac (46 # drop 1 ds)"
      using ds sub [of 1] E(2) by (auto simp: is_integer_part_def is_frac_def neq_Nil_conv)
    ultimately show ?thesis
      using ex by metis
  qed
qed

lemma shortest_digits_pos:
  assumes "\<not> is_zero x" "shortest_digits fuel x num den n k = (s, n')"
  shows "0 < s"
  using assms
proof (induction fuel x num den n k rule: shortest_digits.induct)
  case (2 fuel x num den n k)
  show ?case
  proof (cases "filter (\<lambda>s. decimal_number 0 s (n - int k) = x) (digit_candidates num den n k)")
    case Nil
    with "2.prems" "2.IH" [OF Nil "2.prems"(1)] show ?thesis by simp
  next
    case (Cons c cs)
    then have "decimal_number 0 c (n - int k) = x"
      by (metis (mono_tags, lifting) filter_eq_ConsD)
    moreover have "decimal_number 0 0 e = 0" for e
      by (simp add: decimal_number_def f64_round_def f64_make_def)
    moreover have "is_zero 0"
      by (simp add: is_zero_def f64_mag_def)
    ultimately have "c \<noteq> 0"
      using "2.prems"(1) by (cases "c = 0") auto
    with "2.prems" Cons show ?thesis
      by (auto split: if_splits)
  qed
qed simp

lemma mag_f64_make: "s < 2 \<Longrightarrow> e < 2048 \<Longrightarrow> m < 2 ^ 52 \<Longrightarrow> f64_mag (f64_make s e m) = e * 2 ^ 52 + m"
  by (simp add: f64_mag_def unat_f64_make add.assoc)

lemma is_zero_abs: "is_zero (f64_make 0 (f64_exp x) (f64_man x)) \<longleftrightarrow> is_zero x"
proof -
  have "f64_mag x = f64_exp x * 2 ^ 52 + f64_man x"
    unfolding f64_exp_def f64_man_def by (simp only: div_mult_mod_eq)
  then show ?thesis
    using mag_f64_make [of 0 "f64_exp x" "f64_man x"] f64_exp_less [of x] f64_man_less [of x] by (simp add: is_zero_def)
qed

lemma json_number_shape:
  assumes "is_finite x"
  shows "\<exists>sg ip fp ex. json_number x = sg @ ip @ fp @ ex \<and> (sg = [] \<or> sg = [45]) \<and> is_integer_part ip \<and> is_frac fp \<and> is_expo ex"
proof (cases "is_zero x")
  case True
  with assms have "json_number x = [] @ [48] @ [] @ []"
    by (simp add: json_number_def number_to_string_def is_finite_not_nan lit_def)
  then show ?thesis
    by (metis is_integer_part_def is_frac_def is_expo_def)
next
  case False
  let ?num = "scale_up (f64_sig x) (f64_pow x)" and ?den = "scale_up 1 (- f64_pow x)"
  obtain s n where d: "shortest_digits 17 (f64_make 0 (f64_exp x) (f64_man x)) ?num ?den (decimal_exp ?num ?den) 1 = (s, n)"
    by fastforce
  have "0 < s"
    using shortest_digits_pos [OF _ d] False by (simp add: is_zero_abs)
  then obtain ip fp ex where t: "digits_text s n = ip @ fp @ ex" "is_integer_part ip" "is_frac fp" "is_expo ex"
    using digits_text_shape by blast
  have "json_number x = (if f64_sign x = 1 then [45] else []) @ digits_text s n"
    using assms False d by (simp add: json_number_def number_to_string_def is_finite_not_nan is_inf_def is_finite_def Let_def)
  with t show ?thesis
    by (metis (full_types))
qed

section \<open>Canonical values\<close>

text \<open>No object has a key twice: what \<open>JSON.parse\<close> guarantees.\<close>

fun json_ok :: "json \<Rightarrow> bool" where
  "json_ok (JArray xs) \<longleftrightarrow> (\<forall>x\<in>set xs. json_ok x)"
| "json_ok (JObject kvs) \<longleftrightarrow> distinct (map fst kvs) \<and> (\<forall>(k, v)\<in>set kvs. json_ok v)"
| "json_ok _ \<longleftrightarrow> True"

fun json_normal :: "json \<Rightarrow> json" where
  "json_normal (JNumber x) = (if is_finite x then JNumber (string_to_number (number_to_string x)) else JNull)"
| "json_normal (JArray xs) = JArray (map json_normal xs)"
| "json_normal (JObject kvs) = JObject (own_order (sort_key fst (map (\<lambda>(k, v). (k, json_normal v)) kvs)))"
| "json_normal v = v"

lemma insort_key_map: "insort_key fst (k, f v) (map (\<lambda>(k, v). (k, f v)) kvs) = map (\<lambda>(k, v). (k, f v)) (insort_key fst (k, v) kvs)"
  by (induction kvs) auto

lemma sort_key_map: "sort_key fst (map (\<lambda>(k, v). (k, f v)) kvs) = map (\<lambda>(k, v). (k, f v)) (sort_key fst kvs)"
  by (induction kvs) (auto simp: insort_key_map)

lemma json_value_number:
  assumes "is_finite x" "number_end r"
  shows "json_value (Suc fuel) (json_number x @ r) = Some (JNumber (string_to_number (number_to_string x)), r)"
proof -
  obtain sg ip fp ex where s: "json_number x = sg @ ip @ fp @ ex" "sg = [] \<or> sg = [45]" "is_integer_part ip"
      "is_frac fp" "is_expo ex"
    using json_number_shape [OF assms(1)] by blast
  have tok: "number_token (json_number x @ r) = Some (json_number x, r)"
    using number_token_app [OF s(2-5) assms(2)] by (simp add: s(1))
  obtain u us where u: "json_number x @ r = u # us" "u = 45 \<or> is_digit u"
    using s(2,3) by (cases ip) (auto simp: s(1) is_integer_part_def is_digit_def)
  then have "u \<noteq> 34" "u \<noteq> 91" "u \<noteq> 123" "u \<noteq> 110" "u \<noteq> 116" "u \<noteq> 102"
    by (auto simp: is_digit_def)
  with tok show ?thesis
    unfolding u(1) using assms(1) by (simp add: json_number_def)
qed

lemma lit_prefix: "literal_rest w (lit w @ r) = Some r"
  by (simp add: literal_rest_def lit_def)

lemma joined_Cons [simp]: "joined sep [x] = x" "joined sep (x # y # ys) = x @ sep @ joined sep (y # ys)"
  by (simp_all add: joined_def)

lemma skip_ws_plain: "\<not> is_json_space u \<Longrightarrow> skip_ws (u # us) = u # us"
  by (simp add: skip_ws_def)

lemma canonical_hd: "\<exists>u us. canonicalJson v = u # us \<and> \<not> is_json_space u \<and> u \<noteq> 93 \<and> u \<noteq> 125"
proof (cases v)
  case (JNumber x)
  show ?thesis
  proof (cases "is_finite x")
    case True
    obtain sg ip fp ex where s: "json_number x = sg @ ip @ fp @ ex" "sg = [] \<or> sg = [45]" "is_integer_part ip"
      using json_number_shape [OF True] by blast
    then show ?thesis
      by (cases ip) (auto simp: JNumber is_integer_part_def is_digit_def is_json_space_def)
  qed (simp add: JNumber json_number_def lit_def is_json_space_def)
qed (auto simp: lit_def is_json_space_def json_quote_def)

lemma skip_canonical [simp]: "skip_ws (canonicalJson v @ r) = canonicalJson v @ r"
  using canonical_hd [of v] by (auto simp: skip_ws_plain)

section \<open>Reading a canonical text\<close>

lemma json_elements_read:
  assumes "\<And>x f r. x \<in> set xs \<Longrightarrow> number_end r \<Longrightarrow> 2 * length (canonicalJson x) \<le> f \<Longrightarrow>
      json_value f (canonicalJson x @ r) = Some (json_normal x, r)"
    and "xs \<noteq> []" "2 * length (joined [44] (map canonicalJson xs)) + 1 \<le> f"
  shows "json_elements f (joined [44] (map canonicalJson xs) @ 93 # r) = Some (map json_normal xs, r)"
  using assms
proof (induction xs arbitrary: f)
  case (Cons x xs)
  from Cons.prems(3) obtain f' where f: "f = Suc f'"
    by (cases f) auto
  show ?case
  proof (cases xs)
    case Nil
    have "json_value f' (canonicalJson x @ 93 # r) = Some (json_normal x, 93 # r)"
      using Cons.prems(3) by (intro Cons.prems(1)) (simp_all add: Nil f)
    then show ?thesis
      by (simp add: Nil f skip_ws_plain is_json_space_def)
  next
    case (Cons y ys)
    let ?t = "joined [44] (map canonicalJson xs)"
    have split_text: "joined [44] (map canonicalJson (x # xs)) = canonicalJson x @ 44 # ?t"
      by (simp add: Cons)
    have "json_value f' (canonicalJson x @ 44 # ?t @ 93 # r) = Some (json_normal x, 44 # ?t @ 93 # r)"
      using Cons.prems(3) [unfolded split_text] by (intro Cons.prems(1)) (simp_all add: f)
    moreover have "json_elements f' (?t @ 93 # r) = Some (map json_normal xs, r)"
      using Cons.prems(1) Cons.prems(3) [unfolded split_text] by (intro Cons.IH) (simp_all add: f Cons)
    moreover have "skip_ws (44 # ?t @ 93 # r) = 44 # ?t @ 93 # r" "skip_ws (?t @ 93 # r) = ?t @ 93 # r"
      by (simp_all add: skip_ws_plain is_json_space_def Cons) (cases ys; simp)+
    ultimately show ?thesis
      unfolding split_text by (simp add: f)
  qed
qed simp

definition member_text :: "jstring \<times> json \<Rightarrow> jstring" where
  "member_text e = json_quote (fst e) @ 58 # canonicalJson (snd e)"

definition member_normal :: "jstring \<times> json \<Rightarrow> jstring \<times> json" where
  "member_normal e = (fst e, json_normal (snd e))"

lemma json_member_read:
  assumes "json_value f (canonicalJson v @ t) = Some (json_normal v, t)" "t = c # cs" "\<not> is_json_space c" "k \<notin> fst ` set acc"
  shows "json_members (Suc f) acc (json_quote k @ 58 # canonicalJson v @ t) =
    (if c = 125 then Some (acc @ [(k, json_normal v)], cs)
     else if c = 44 then json_members f (acc @ [(k, json_normal v)]) (skip_ws cs) else None)"
  using assms put_key_new [OF assms(4)]
  by (simp add: json_quote_def json_string_quote skip_ws_plain is_json_space_def)

lemma json_members_read:
  assumes "\<And>e f r. e \<in> set es \<Longrightarrow> number_end r \<Longrightarrow> 2 * length (canonicalJson (snd e)) \<le> f \<Longrightarrow>
      json_value f (canonicalJson (snd e) @ r) = Some (json_normal (snd e), r)"
    and "es \<noteq> []" "2 * length (joined [44] (map member_text es)) + 1 \<le> f" "distinct (map fst (acc @ es))"
  shows "json_members f acc (joined [44] (map member_text es) @ 125 # r) = Some (acc @ map member_normal es, r)"
  using assms
proof (induction es arbitrary: f acc)
  case (Cons e es)
  from Cons.prems(3) obtain f' where f: "f = Suc f'"
    by (cases f) auto
  have new: "fst e \<notin> fst ` set acc"
    using Cons.prems(4) by auto
  show ?case
  proof (cases es)
    case Nil
    have "json_value f' (canonicalJson (snd e) @ 125 # r) = Some (json_normal (snd e), 125 # r)"
      using Cons.prems(3) by (intro Cons.prems(1)) (simp_all add: Nil f member_text_def)
    from json_member_read [OF this refl _ new] show ?thesis
      by (simp add: Nil f member_text_def member_normal_def is_json_space_def)
  next
    case (Cons e' es')
    let ?t = "joined [44] (map member_text es)"
    have split_text: "joined [44] (map member_text (e # es)) = member_text e @ 44 # ?t"
      by (simp add: Cons)
    have "json_value f' (canonicalJson (snd e) @ 44 # ?t @ 125 # r) = Some (json_normal (snd e), 44 # ?t @ 125 # r)"
      using Cons.prems(3) [unfolded split_text] by (intro Cons.prems(1)) (simp_all add: f member_text_def)
    from json_member_read [OF this refl _ new]
    have "json_members (Suc f') acc (member_text e @ 44 # ?t @ 125 # r) =
        json_members f' (acc @ [member_normal e]) (skip_ws (?t @ 125 # r))"
      by (simp add: member_text_def member_normal_def is_json_space_def)
    moreover have "skip_ws (?t @ 125 # r) = ?t @ 125 # r"
      by (cases es') (simp_all add: Cons member_text_def json_quote_def skip_ws_plain is_json_space_def)
    moreover have "json_members f' (acc @ [member_normal e]) (?t @ 125 # r)
        = Some ((acc @ [member_normal e]) @ map member_normal es, r)"
      using Cons.prems(1,4) Cons.prems(3) [unfolded split_text] by (intro Cons.IH) (simp_all add: f Cons member_normal_def)
    ultimately show ?thesis
      unfolding split_text by (simp add: f)
  qed
qed simp

lemma canonical_object: "canonicalJson (JObject kvs) = 123 # joined [44] (map member_text (sort_key fst kvs)) @ [125]"
proof -
  have "sort_key fst (map (\<lambda>(k, v). (k, canonicalJson v)) kvs) = map (\<lambda>(k, v). (k, canonicalJson v)) (sort_key fst kvs)"
    by (rule sort_key_map)
  moreover have "(\<lambda>(k, s). json_quote k @ 58 # s) \<circ> (\<lambda>(k, v). (k, canonicalJson v)) = member_text"
    by (auto simp: fun_eq_iff member_text_def)
  ultimately show ?thesis
    by (simp only: canonicalJson.simps map_map)
qed

lemma normal_object: "json_normal (JObject kvs) = JObject (own_order (map member_normal (sort_key fst kvs)))"
proof -
  have "(\<lambda>(k, v). (k, json_normal v)) = member_normal"
    by (auto simp: fun_eq_iff member_normal_def)
  then show ?thesis
    using sort_key_map [of json_normal kvs] by simp
qed

lemma json_value_read:
  assumes "json_ok v" "number_end r" "2 * length (canonicalJson v) \<le> f"
  shows "json_value f (canonicalJson v @ r) = Some (json_normal v, r)"
  using assms
proof (induction v arbitrary: r f rule: json_ok.induct [case_names Array Object Null Bool Number Text])
  case (Array xs)
  from Array.prems(3) obtain f' where f: "f = Suc f'"
    by (cases f) auto
  show ?case
  proof (cases "xs = []")
    case True
    then show ?thesis
      by (simp add: f joined_def skip_ws_plain is_json_space_def)
  next
    case False
    let ?t = "joined [44] (map canonicalJson xs)"
    have "json_elements f' (?t @ 93 # r) = Some (map json_normal xs, r)"
      using Array.IH Array.prems(1,3) False by (intro json_elements_read) (simp_all add: f)
    moreover obtain u us where "?t @ 93 # r = u # us" "\<not> is_json_space u" "u \<noteq> 93"
      using False canonical_hd [of "hd xs"] by (cases xs; cases "tl xs") auto
    ultimately show ?thesis
      by (simp add: f skip_ws_plain)
  qed
next
  case (Object kvs)
  from Object.prems(3) obtain f' where f: "f = Suc f'"
    by (cases f) auto
  let ?es = "sort_key fst kvs"
  show ?case
  proof (cases "kvs = []")
    case True
    then show ?thesis
      by (simp add: f joined_def skip_ws_plain is_json_space_def)
  next
    case False
    let ?t = "joined [44] (map member_text ?es)"
    have ne: "?es \<noteq> []"
      using False by (metis set_empty set_sort)
    have len: "2 * length ?t + 1 \<le> f'"
      using Object.prems(3) unfolding canonical_object f by simp
    have "distinct (map fst ?es)"
      using Object.prems(1) by (metis distinct_map distinct_sort json_ok.simps(2) set_sort)
    then have "json_members f' [] (?t @ 125 # r) = Some ([] @ map member_normal ?es, r)"
      using Object.IH Object.prems(1) len ne by (intro json_members_read) (auto split: prod.splits)
    moreover obtain us where "?t @ 125 # r = 34 # us"
      using ne by (cases ?es; cases "tl ?es") (auto simp: member_text_def json_quote_def)
    ultimately show ?thesis
      unfolding canonical_object normal_object by (simp add: f skip_ws_plain is_json_space_def)
  qed
next
  case Null
  then obtain f' where "f = Suc f'"
    by (cases f) (auto simp: lit_def)
  then show ?case
    using lit_prefix [of "''null''" r] by (simp add: lit_def)
next
  case (Bool b)
  then obtain f' where "f = Suc f'"
    by (cases f) (auto simp: lit_def split: if_splits)
  then show ?case
    using lit_prefix [of "''true''" r] lit_prefix [of "''false''" r] by (cases b) (simp_all add: lit_def)
next
  case (Number x)
  then obtain f' where f: "f = Suc f'"
    using canonical_hd [of "JNumber x"] by (cases f) auto
  show ?case
  proof (cases "is_finite x")
    case True
    from json_value_number [OF True Number(2)] True show ?thesis
      by (simp add: f)
  next
    case False
    then show ?thesis
      using lit_prefix [of "''null''" r] by (simp add: f json_number_def lit_def)
  qed
next
  case (Text s)
  then obtain f' where "f = Suc f'"
    by (cases f) (auto simp: json_quote_def)
  then show ?case
    by (simp add: json_quote_def json_string_quote)
qed

lemma json_parse_canonical:
  assumes "json_ok v"
  shows "json_parse (canonicalJson v) = Some (json_normal v)"
proof -
  have "json_value (2 * length (canonicalJson v) + 2) (canonicalJson v @ []) = Some (json_normal v, [])"
    using assms by (rule json_value_read) simp_all
  moreover have "skip_ws (canonicalJson v @ []) = canonicalJson v @ []"
    by (rule skip_canonical)
  ultimately show ?thesis
    by (simp add: json_parse_def skip_ws_def)
qed

end
