(* ===== verification/Level_Properties.thy ===== *)
theory Level_Properties
  imports Level_Canonical "HOL-Library.Multiset"
begin

text \<open>
  What the hash of a JSON level rests on: canonical texts read back through the tolerant parser, they depend
  on the blocks but not on their order nor on the order of keys, and different blocks have different texts.
\<close>

section \<open>Bare tokens do not occur in canonical texts\<close>

lemma inside_plain: "u \<noteq> 92 \<Longrightarrow> u \<noteq> 34 \<Longrightarrow> normalize_from True False p (u # r) = u # normalize_from True False (Some u) r"
  by (simp add: normalize_from.simps)

lemma inside_escape: "normalize_from True False p (92 # x # r) = 92 # x # normalize_from True False (Some x) r"
  by (simp add: normalize_from.simps)

lemma hex_digit_plain: "d < 16 \<Longrightarrow> hex_digit d \<noteq> 92 \<and> hex_digit d \<noteq> 34"
proof -
  have "\<forall>d\<in>set [0..<16]. hex_digit d \<noteq> 92 \<and> hex_digit d \<noteq> 34"
    by code_simp
  then show "d < 16 \<Longrightarrow> hex_digit d \<noteq> 92 \<and> hex_digit d \<noteq> 34"
    by simp
qed

lemma inside_unicode: "\<exists>q. normalize_from True False p (unicode_escape u @ r) = unicode_escape u @ normalize_from True False q r"
proof -
  have "unat u div 4096 < 16"
    using unat_u16_less [of u] by (simp add: div_less_iff_less_mult)
  then show ?thesis
    by (auto simp: unicode_escape_def Let_def inside_escape inside_plain hex_digit_plain)
qed

lemma inside_unit:
  assumes "\<not> is_high u" "\<not> is_low u"
  shows "\<exists>q. normalize_from True False p (quote_unit u @ r) = quote_unit u @ normalize_from True False q r"
  using inside_unicode [of p u r] unfolding quote_unit_def
  by (auto simp: lit_def inside_escape inside_plain)

lemma inside_surrogate:
  "is_high u \<or> is_low u \<Longrightarrow> normalize_from True False p (u # r) = u # normalize_from True False (Some u) r"
  using surrogate_plain [of u] by (intro inside_plain) auto

lemma inside_quoted: "normalize_from True False p (quote_units s @ 34 # r) = quote_units s @ 34 # normalize_from False False (Some 34) r"
proof (induction s arbitrary: p rule: quote_units.induct)
  case 1
  show ?case by (simp add: normalize_from.simps quote_units.simps)
next
  case (2 u us)
  have stop: "normalize_from True False q (34 # r) = 34 # normalize_from False False (Some 34) r" for q
    by (simp add: normalize_from.simps)
  show ?case
  proof (cases "is_high u")
    case True
    note high = True
    show ?thesis
    proof (cases us)
      case Nil
      from inside_unicode [of p u "34 # r"] stop show ?thesis
        by (auto simp: Nil quote_units_cases(1) [OF high])
    next
      case (Cons v vs)
      show ?thesis
      proof (cases "is_low v")
        case True
        from "2.IH"(1) [OF high Cons True] show ?thesis
          by (simp add: Cons quote_units_cases(2) [OF high True] inside_surrogate high True)
      next
        case False
        from inside_unicode [of p u "quote_units us @ 34 # r"] "2.IH"(2) [OF high Cons False] show ?thesis
          by (auto simp: Cons quote_units_cases(3) [OF high False])
      qed
    qed
  next
    case False
    show ?thesis
    proof (cases "is_low u")
      case True
      from inside_unicode [of p u "quote_units us @ 34 # r"] "2.IH"(3) [OF False True] show ?thesis
        by (auto simp: quote_units_cases(4) [OF False True])
    next
      case low: False
      from inside_unit [OF False low, of p "quote_units us @ 34 # r"] "2.IH"(4) [OF False low] show ?thesis
        by (auto simp: quote_units_cases(5) [OF False low])
    qed
  qed
qed

text \<open>A text the loop copies when it starts outside a string, and after which it is outside a string.\<close>

definition no_token :: "jstring \<Rightarrow> bool" where
  "no_token r \<longleftrightarrow> (case r of [] \<Rightarrow> True | u # us \<Rightarrow> u \<noteq> 73)"

definition steady :: "jstring \<Rightarrow> bool" where
  "steady t \<longleftrightarrow> no_token t \<and>
     (\<forall>p r. no_token r \<longrightarrow> (\<exists>q. normalize_from False False p (t @ r) = t @ normalize_from False False q r))"

lemma no_token_append: "no_token a \<Longrightarrow> no_token b \<Longrightarrow> no_token (a @ b)"
  by (cases a) (simp_all add: no_token_def)

lemma steady_Nil [simp]: "steady []"
  by (auto simp: steady_def no_token_def)

lemma steady_append [intro]:
  assumes "steady a" "steady b"
  shows "steady (a @ b)"
  unfolding steady_def
proof (intro conjI allI impI)
  show "no_token (a @ b)"
    using assms by (simp add: steady_def no_token_append)
  fix p r
  assume r: "no_token r"
  obtain q where "normalize_from False False p (a @ b @ r) = a @ normalize_from False False q (b @ r)"
    using assms r unfolding steady_def by (metis no_token_append)
  moreover obtain q' where "normalize_from False False q (b @ r) = b @ normalize_from False False q' r"
    using assms r unfolding steady_def by metis
  ultimately show "\<exists>q. normalize_from False False p ((a @ b) @ r) = (a @ b) @ normalize_from False False q r"
    by auto
qed

lemma steady_char:
  assumes "u \<noteq> 34" "u \<noteq> 73" "u \<noteq> 78"
  shows "steady [u]"
proof -
  have "non_finite (replaceBareToken p (u # r)) = None" if "no_token r" for p r
    using assms that
    by (cases r) (auto simp: non_finite_def first_some_def replaceBareToken_def starts_with_def lit_def no_token_def)
  then show ?thesis
    using assms by (auto simp: steady_def no_token_def normalize_from.simps)
qed

lemma steady_chars: "(\<And>u. u \<in> set t \<Longrightarrow> u \<noteq> 34 \<and> u \<noteq> 73 \<and> u \<noteq> 78) \<Longrightarrow> steady t"
proof (induction t)
  case (Cons u t)
  then have "steady ([u] @ t)"
    by (intro steady_append steady_char) auto
  then show ?case by simp
qed simp

lemma steady_quote: "steady (json_quote s)"
  by (auto simp: steady_def no_token_def json_quote_def normalize_from.simps inside_quoted)

lemma steady_Cons: "u \<noteq> 34 \<Longrightarrow> u \<noteq> 73 \<Longrightarrow> u \<noteq> 78 \<Longrightarrow> steady t \<Longrightarrow> steady (u # t)"
  using steady_append [OF steady_char, of u t] by simp

lemma steady_joined: "(\<And>t. t \<in> set ts \<Longrightarrow> steady t) \<Longrightarrow> steady (joined [44] ts)"
proof (induction ts rule: induct_list012)
  case 1
  show ?case by (simp add: joined_def)
next
  case (3 x y zs)
  have "steady (joined [44] (y # zs))"
    using 3 by simp
  then show ?case
    using "3.prems" by (simp add: steady_append steady_Cons)
qed simp

lemma digits_plain: "list_all is_digit ds \<Longrightarrow> u \<in> set ds \<Longrightarrow> u \<noteq> 34 \<and> u \<noteq> 73 \<and> u \<noteq> 78"
  by (auto simp: list_all_iff is_digit_def)

lemma steady_number: "steady (json_number x)"
proof (cases "is_finite x")
  case True
  obtain sg ip fp ex where s: "json_number x = sg @ ip @ fp @ ex" "sg = [] \<or> sg = [45]" "is_integer_part ip"
      "is_frac fp" "is_expo ex"
    using json_number_shape [OF True] by blast
  have "steady sg"
    using s(2) by (auto intro: steady_char)
  moreover have "steady ip"
    using s(3) by (intro steady_chars) (auto simp: is_integer_part_def dest: digits_plain)
  moreover have "steady fp"
    using s(4) by (intro steady_chars) (auto simp: is_frac_def dest: digits_plain)
  moreover have "steady ex"
    using s(5) by (intro steady_chars) (auto simp: is_expo_def dest: digits_plain)
  ultimately show ?thesis
    unfolding s(1) by blast
next
  case False
  then show ?thesis
    by (auto simp: json_number_def lit_def intro!: steady_chars)
qed

lemma steady_canonical: "steady (canonicalJson v)"
proof (induction v rule: json_ok.induct)
  case (1 xs)
  then have "steady (joined [44] (map canonicalJson xs))"
    by (intro steady_joined) auto
  then show ?case
    by (simp add: steady_append steady_Cons)
next
  case (2 kvs)
  have "steady (member_text e)" if "e \<in> set (sort_key fst kvs)" for e
  proof -
    have "steady (canonicalJson (snd e))"
      using that "2.IH" [of e "fst e" "snd e"] by simp
    then show ?thesis
      unfolding member_text_def by (simp add: steady_append steady_Cons steady_quote)
  qed
  then have "steady (joined [44] (map member_text (sort_key fst kvs)))"
    by (intro steady_joined) auto
  then show ?case
    unfolding canonical_object by (simp add: steady_append steady_Cons)
qed (auto simp: lit_def steady_number steady_quote intro!: steady_chars split: if_splits)

lemma normalize_canonical: "normalizeNonFiniteJsonNumbers (canonicalJson v) = canonicalJson v"
proof -
  obtain q where "normalize_from False False None (canonicalJson v @ []) = canonicalJson v @ normalize_from False False q []"
    using steady_canonical [of v] unfolding steady_def by (metis no_token_def list.simps(4))
  then show ?thesis
    by (simp add: normalizeNonFiniteJsonNumbers_def normalize_from.simps(1))
qed

text \<open>
  C17: The canonical text of a JSON value is a level text: the tolerant parser, which first
  replaces \<open>NaN\<close> and the infinities, changes no character of it and reads back \<open>json_normal v\<close>: the value with
  every number as its shortest decimal denotes it (a number that is not finite is \<open>null\<close>) and the members of every
  object in the order in which the language enumerates the sorted members, that is, keys that are array indices
  first in numeric order, then the others by their code units.
\<close>

theorem canonical_json_roundtrip:
  assumes "json_ok v"
  shows "parse_level_json (canonicalJson v) = Inr (json_normal v)"
  by (simp add: parse_level_json_def normalize_canonical json_parse_canonical [OF assms])

lemma canonical_json_roundtrip_witness:
  "parse_level_json (canonicalJson (JObject [(lit ''b'', JArray [JNull, JString (lit ''NaN'')]), (lit ''10'', JBool True), (lit ''9'', JNull)]))
   = Inr (JObject [(lit ''9'', JNull), (lit ''10'', JBool True), (lit ''b'', JArray [JNull, JString (lit ''NaN'')])])"
proof -
  let ?v = "JObject [(lit ''b'', JArray [JNull, JString (lit ''NaN'')]), (lit ''10'', JBool True), (lit ''9'', JNull)]"
  have "json_ok ?v"
    by (simp add: lit_def)
  moreover have "json_normal ?v = JObject [(lit ''9'', JNull), (lit ''10'', JBool True), (lit ''b'', JArray [JNull, JString (lit ''NaN'')])]"
    by (simp add: own_order_def is_index_key_def lit_def is_digit_def decimal_val_def digits_val_def digit_val_def
        decimal_text_def show_nat.simps of_char_of)
  ultimately show ?thesis
    using canonical_json_roundtrip [of ?v] by simp
qed

section \<open>The order of blocks and of keys\<close>

fun json_sorted :: "json \<Rightarrow> json" where
  "json_sorted (JArray xs) = JArray (map json_sorted xs)"
| "json_sorted (JObject kvs) = JObject (sort_key fst (map (\<lambda>(k, v). (k, json_sorted v)) kvs))"
| "json_sorted v = v"

lemma sort_key_twice: "sort_key f (sort_key f xs) = sort_key f xs"
  by (simp add: sort_key_id_if_sorted)

lemma canonical_sorted: "canonicalJson (json_sorted v) = canonicalJson v"
proof (induction v rule: json_sorted.induct)
  case (1 xs)
  then show ?case
    by (simp cong: map_cong)
next
  case (2 kvs)
  have "member_text (k, json_sorted v) = member_text (k, v)" if "(k, v) \<in> set kvs" for k v
    using "2.IH" [OF that refl] by (simp add: member_text_def)
  then have "map (member_text \<circ> (\<lambda>(k, v). (k, json_sorted v))) (sort_key fst kvs) = map member_text (sort_key fst kvs)"
    by (intro map_cong) auto
  then show ?case
    unfolding json_sorted.simps canonical_object sort_key_twice sort_key_map by (simp only: map_map)
qed simp_all

lemma map_of_sort:
  assumes "distinct (map fst kvs)"
  shows "map_of (sort_key fst kvs) = map_of kvs"
proof (rule ext)
  fix k
  have "distinct (map fst (sort_key fst kvs))"
    using assms by (simp add: distinct_map)
  then show "map_of (sort_key fst kvs) k = map_of kvs k"
    using assms by (metis map_of_inject_set set_sort)
qed

lemma block_kept_sorted: "json_ok b \<Longrightarrow> block_kept (json_sorted b) = block_kept b"
proof (cases b)
  case (JObject kvs)
  assume "json_ok b"
  then have d: "distinct (map fst (map (\<lambda>(k, v). (k, json_sorted v)) kvs))"
    by (simp add: JObject case_prod_unfold comp_def)
  have "map_of (sort_key fst (map (\<lambda>(k, v). (k, json_sorted v)) kvs)) (lit ''i'') = map_option json_sorted (map_of kvs (lit ''i''))"
    unfolding map_of_sort [OF d] by (simp add: map_of_map)
  moreover have "json_is_nat (map_option json_sorted i) n = json_is_nat i n" for i n
    by (cases i; cases "the i") (auto simp: json_is_nat_def)
  ultimately show ?thesis
    by (simp add: JObject block_kept_def json_get_def)
qed (simp_all add: block_kept_def json_get_def)

lemma res_filter_Inr:
  "res_filter p xs = Inr ys \<longleftrightarrow> (\<forall>x\<in>set xs. \<exists>b. p x = Inr b) \<and> ys = filter (\<lambda>x. p x = Inr True) xs"
proof (induction xs arbitrary: ys)
  case (Cons x xs)
  show ?case
  proof (cases "p x")
    case (Inr b)
    then show ?thesis
      by (cases b) (simp_all add: res_map_Inr_iff Cons.IH, blast+)
  qed simp
qed auto

lemma sorted_canonical: "sort (map canonicalJson bs) = map canonicalJson (sort_key canonicalJson bs)"
proof (rule properties_for_sort)
  show "mset (map canonicalJson (sort_key canonicalJson bs)) = mset (map canonicalJson bs)"
    by simp
qed simp

text \<open>
  C25: Two lists of blocks that differ only in the order of the blocks and in the order of keys
  have the same canonical text, and so the same hash; and when two lists have the same canonical text, then the
  JSON values that the texts of their blocks denote (\<open>json_normal\<close>), without the present blocks, are the same up
  to order. Blocks that differ in what JSON text does not keep share a text and a hash: \<open>-0\<close> and \<open>0\<close>, and
  a number that is not finite (\<open>1e999\<close>) and \<open>null\<close>.
\<close>

theorem canonical_blocks_iff_content:
  assumes "\<forall>b\<in>set bs \<union> set cs. json_ok b" "canonicalJsonBlocks bs = Inr t" "canonicalJsonBlocks cs = Inr u"
  shows "(mset (map json_sorted bs) = mset (map json_sorted cs) \<longrightarrow> t = u)
    \<and> (t = u \<longrightarrow> mset (map json_normal (filter (\<lambda>b. block_kept b = Inr True) bs))
                 = mset (map json_normal (filter (\<lambda>b. block_kept b = Inr True) cs)))"
proof -
  let ?kept = "filter (\<lambda>b. block_kept b = Inr True)"
  have shape: "canonicalJsonBlocks bs = Inr t \<Longrightarrow>
      t = 91 # joined [44] (sort (map canonicalJson (?kept bs))) @ [93]" for bs t
    by (auto simp: canonicalJsonBlocks_def res_map_Inr_iff res_filter_Inr)
  note t = shape [OF assms(2)] and u = shape [OF assms(3)]
  show ?thesis
  proof (intro conjI impI)
    assume eq: "mset (map json_sorted bs) = mset (map json_sorted cs)"
    have "mset (map canonicalJson (?kept bs)) = image_mset canonicalJson (filter_mset (\<lambda>b. block_kept b = Inr True) (mset (map json_sorted bs)))"
      if "\<forall>b\<in>set bs. json_ok b" for bs
      using that by (induction bs) (auto simp: block_kept_sorted canonical_sorted)
    with assms(1) eq have "mset (map canonicalJson (?kept bs)) = mset (map canonicalJson (?kept cs))"
      by simp
    then have "sort (map canonicalJson (?kept bs)) = sort (map canonicalJson (?kept cs))"
      by (intro properties_for_sort) simp_all
    then show "t = u"
      unfolding t u by simp
  next
    assume "t = u"
    have read: "json_parse (91 # joined [44] (sort (map canonicalJson (?kept bs))) @ [93])
        = Some (JArray (map json_normal (sort_key canonicalJson (?kept bs))))" if "\<forall>b\<in>set bs. json_ok b" for bs
    proof -
      have "json_ok (JArray (sort_key canonicalJson (?kept bs)))"
        using that by simp
      from json_parse_canonical [OF this] show ?thesis
        by (simp add: sorted_canonical)
    qed
    have "map json_normal (sort_key canonicalJson (?kept bs)) = map json_normal (sort_key canonicalJson (?kept cs))"
      using read [of bs] read [of cs] assms(1) \<open>t = u\<close> unfolding t u by simp
    then have "mset (map json_normal (sort_key canonicalJson (?kept bs))) = mset (map json_normal (sort_key canonicalJson (?kept cs)))"
      by simp
    then show "mset (map json_normal (?kept bs)) = mset (map json_normal (?kept cs))"
      by simp
  qed
qed

text \<open>Two blocks in either order, the keys of one in either order.\<close>

lemma canonical_blocks_iff_content_witness:
  "canonicalJsonBlocks [JObject [(lit ''i'', JNull), (lit ''a'', JBool True)], JObject [(lit ''b'', JNull)]]
   = canonicalJsonBlocks [JObject [(lit ''b'', JNull)], JObject [(lit ''a'', JBool True), (lit ''i'', JNull)]]"
proof -
  let ?bs = "[JObject [(lit ''i'', JNull), (lit ''a'', JBool True)], JObject [(lit ''b'', JNull)]]"
  let ?cs = "[JObject [(lit ''b'', JNull)], JObject [(lit ''a'', JBool True), (lit ''i'', JNull)]]"
  have "\<exists>t. canonicalJsonBlocks ?bs = Inr t" "\<exists>u. canonicalJsonBlocks ?cs = Inr u"
    by (simp_all add: canonicalJsonBlocks_def block_kept_def json_get_def)
  then obtain t u where tu: "canonicalJsonBlocks ?bs = Inr t" "canonicalJsonBlocks ?cs = Inr u"
    by blast
  have "\<forall>b\<in>set ?bs \<union> set ?cs. json_ok b"
    by (simp add: lit_def)
  from canonical_blocks_iff_content [OF this tu] have "t = u"
    by (simp add: lit_def add_mset_commute)
  with tu show ?thesis
    by (simp only:)
qed

end
