(* ===== verification/Level_Legacy.thy ===== *)
theory Level_Legacy
  imports Level_Json
begin

text \<open>
  The hash that the old ZeepSDK gives a JSON level
  (\<open>packages/core/src/levels/legacyZeepSdkHash.ts\<close>): numbers keep their text through \<open>JSON.parse\<close> inside a
  wrapper object, and are written as the SDK's 28-digit decimals.

  A string cannot be longer than the engine allows, and \<open>'0'.repeat(n)\<close> throws beyond that; the limit is the
  parameter \<open>maxLength\<close>.
\<close>

section \<open>Wrapping the numbers\<close>

definition legacy_number_key :: jstring where
  "legacy_number_key = lit ''__zeepcentraalLegacyJsonNumber''"

definition max_legacy_decimal_integer :: jstring where
  "max_legacy_decimal_integer = lit ''79228162514264337593543950335''"

definition legacy_wrapped :: "json \<Rightarrow> jstring option" where
  "legacy_wrapped v =
     (case v of
        JObject [(k, JString s)] \<Rightarrow> if k = legacy_number_key then Some s else None
      | _ \<Rightarrow> None)"

definition isLegacyNumberWrapper :: "json \<Rightarrow> bool" where
  "isLegacyNumberWrapper v \<longleftrightarrow> legacy_wrapped v \<noteq> None"

definition bareTokenLength :: "u16 option \<Rightarrow> jstring \<Rightarrow> string \<Rightarrow> nat option" where
  "bareTokenLength prev rest tok =
     (if \<not> starts_with (lit tok) rest then None
      else if isJsonIdentifierCharacter prev \<or> isJsonIdentifierCharacter (char_at rest (length tok)) then None
      else Some (length tok))"

definition wrapper_text :: "jstring \<Rightarrow> jstring" where
  "wrapper_text num = 123 # 34 # legacy_number_key @ 34 # 58 # 34 # num @ [34, 125]"

text \<open>How many characters the loop takes at a number, and the text of the number.\<close>

definition number_here :: "u16 option \<Rightarrow> jstring \<Rightarrow> (nat \<times> jstring) option" where
  "number_here prev rest =
     (case non_finite (bareTokenLength prev rest) of
        Some n \<Rightarrow> Some (n, lit ''0'')
      | None \<Rightarrow> (case number_token rest of Some (tok, r) \<Rightarrow> Some (length tok, tok) | None \<Rightarrow> None))"

lemma number_token_nonempty: "number_token s = Some (tok, r) \<Longrightarrow> tok \<noteq> []"
  by (auto simp: number_token_def Let_def split: list.splits if_splits prod.splits)

lemma number_here_pos: "number_here prev rest = Some (n, t) \<Longrightarrow> 0 < n"
  using number_token_nonempty [of rest]
  by (auto simp: number_here_def non_finite_def first_some_def bareTokenLength_def split: option.splits if_splits)

function wrap_from :: "bool \<Rightarrow> bool \<Rightarrow> u16 option \<Rightarrow> jstring \<Rightarrow> jstring" where
  "wrap_from inString escaped prev [] = []"
| "wrap_from inString escaped prev (character # rest) =
     (if inString then
        character #
          (if escaped then wrap_from True False (Some character) rest
           else if character = 92 then wrap_from True True (Some character) rest
           else if character = 34 then wrap_from False False (Some character) rest
           else wrap_from True False (Some character) rest)
      else if character = 34 then character # wrap_from True escaped (Some character) rest
      else
        (case number_here prev (character # rest) of
           Some (n, num) \<Rightarrow>
             wrapper_text num @
               wrap_from False escaped (char_at (character # rest) (n - 1)) (drop n (character # rest))
         | None \<Rightarrow> character # wrap_from False escaped (Some character) rest))"
  by pat_completeness auto
termination
  by (relation "measure (\<lambda>(i, e, p, s). length s)") (auto dest: number_here_pos)

declare wrap_from.simps [simp del]

definition wrapJsonNumbers :: "jstring \<Rightarrow> jstring" where
  "wrapJsonNumbers content = wrap_from False False None content"

section \<open>Fixed decimals\<close>

text \<open>\<open>replace(/^0+(?=\d)/, '')\<close>, \<open>replace(/^0+/, '')\<close> and \<open>replace(/0+$/, '')\<close>\<close>

definition strip_zeros :: "jstring \<Rightarrow> jstring" where
  "strip_zeros s = dropWhile (\<lambda>u. u = 48) s"

definition strip_zeros_keep :: "jstring \<Rightarrow> jstring" where
  "strip_zeros_keep s =
     (case strip_zeros s of
        u # us \<Rightarrow> if is_digit u then u # us else if strip_zeros s = s then s else 48 # u # us
      | [] \<Rightarrow> if s = [] then [] else [48])"

definition strip_zeros_end :: "jstring \<Rightarrow> jstring" where
  "strip_zeros_end s = rev (dropWhile (\<lambda>u. u = 48) (rev s))"

definition or_zero :: "jstring \<Rightarrow> jstring" where
  "or_zero s = (if s = [] then [48] else s)"

text \<open>
  An exponent is read as a number, which is infinite from the midpoint of the largest double and \<open>2 ^ 1024\<close>
  on. A count of zeros taken from it is then infinite too, and \<open>repeat\<close> rejects it as a count; a
  finite count that is too large for a string is another error.
\<close>

definition infinite_exponent :: "int \<Rightarrow> bool" where
  "infinite_exponent e \<longleftrightarrow> 2 ^ 1024 - 2 ^ 970 \<le> \<bar>e\<bar>"

definition js_repeat :: "nat \<Rightarrow> bool \<Rightarrow> int \<Rightarrow> js_error + jstring" where
  "js_repeat maxLength unbounded n =
     (if unbounded \<or> n < 0 then Inl (RangeError ''Invalid count value'')
      else if int maxLength < n then Inl (RangeError ''Invalid string length'')
      else Inr (replicate (nat n) 48))"

definition with_fraction :: "jstring \<Rightarrow> jstring \<Rightarrow> jstring" where
  "with_fraction integer fraction = (if fraction = [] then integer else integer @ 46 # fraction)"

definition roundFixedDecimal :: "jstring \<Rightarrow> jstring \<Rightarrow> nat \<Rightarrow> jstring" where
  "roundFixedDecimal integer fraction scale =
     (if length fraction \<le> scale then
        with_fraction (or_zero (strip_zeros_keep integer)) (strip_zeros_end fraction)
      else
        let keptFraction = take scale fraction;
            roundDigit = fraction ! scale;
            combined = or_zero (strip_zeros (integer @ keptFraction));
            rounded = decimal_text (decimal_val combined + (if 53 \<le> unat roundDigit then 1 else 0));
            padded = replicate (scale + 1 - length rounded) 48 @ rounded in
        with_fraction (or_zero (strip_zeros_keep (take (length padded - scale) padded)))
          (strip_zeros_end (drop (length padded - scale) padded)))"

text \<open>\<open>split\<close> at the first character of a kind: the part before it and, if there is one, the part after it up to the next.\<close>

definition split2 :: "(u16 \<Rightarrow> bool) \<Rightarrow> jstring \<Rightarrow> jstring \<times> jstring option" where
  "split2 sep s =
     (takeWhile (\<lambda>u. \<not> sep u) s,
      (case dropWhile (\<lambda>u. \<not> sep u) s of [] \<Rightarrow> None | u # us \<Rightarrow> Some (takeWhile (\<lambda>u. \<not> sep u) us)))"

text \<open>\<open>Number.parseInt(exponentText, 10)\<close> of a text that is an optional sign and digits.\<close>

definition exponent_val :: "jstring \<Rightarrow> int" where
  "exponent_val s =
     (case split_sign s of (sg, ds) \<Rightarrow> (if sg = 1 then - 1 else 1) * int (decimal_val (takeWhile is_digit ds)))"

definition unsigned_fixed :: "nat \<Rightarrow> jstring \<Rightarrow> js_error + jstring" where
  "unsigned_fixed maxLength magnitude =
     (let (mantissa, ex) = split2 (\<lambda>u. u = 101 \<or> u = 69) magnitude;
          exponent = exponent_val (case ex of Some t \<Rightarrow> t | None \<Rightarrow> [48]);
          (integerPart, frac) = split2 (\<lambda>u. u = 46) mantissa;
          fractionPart = (case frac of Some t \<Rightarrow> t | None \<Rightarrow> []);
          digits = or_zero (strip_zeros (integerPart @ fractionPart));
          significantInteger = strip_zeros integerPart;
          leadingFractionZeroes = (if significantInteger \<noteq> [] then 0 else length (takeWhile (\<lambda>u. u = 48) fractionPart));
          point = (if significantInteger \<noteq> [] then int (length significantInteger) else - int leadingFractionZeroes)
            + exponent in
      if point \<le> 0 then
        res_map (\<lambda>zeros. roundFixedDecimal [48] (zeros @ digits) 28) 
          (js_repeat maxLength (infinite_exponent exponent) (- point))
      else if int (length digits) \<le> point then
        res_map (\<lambda>zeros. roundFixedDecimal (digits @ zeros) [] 28) 
          (js_repeat maxLength (infinite_exponent exponent) (point - int (length digits)))
      else Inr (roundFixedDecimal (take (nat point) digits) (drop (nat point) digits) 28))"

definition rawNumberToFixedDecimal :: "nat \<Rightarrow> jstring \<Rightarrow> js_error + jstring" where
  "rawNumberToFixedDecimal maxLength raw =
     (let negative = starts_with [45] raw in
      res_map (\<lambda>fixed. if fixed = [48] then [48] else if negative then 45 # fixed else fixed)
        (unsigned_fixed maxLength (if negative then drop 1 raw else raw)))"

definition unsigned_part :: "jstring \<Rightarrow> jstring" where
  "unsigned_part fixed = (if starts_with [45] fixed then drop 1 fixed else fixed)"

definition assertLegacyDecimalRange :: "jstring \<Rightarrow> js_error + unit" where
  "assertLegacyDecimalRange fixed =
     (let integer = or_zero (strip_zeros (takeWhile (\<lambda>u. u \<noteq> 46) (unsigned_part fixed))) in
      if length max_legacy_decimal_integer < length integer
         \<or> (length integer = length max_legacy_decimal_integer \<and> max_legacy_decimal_integer < integer)
      then Inl (Error ''JSON number is outside legacy ZeepSDK decimal range'') else Inr ())"

definition js_abs :: "js_number \<Rightarrow> js_number" where
  "js_abs x = (if is_nan x then js_nan else f64_make 0 (f64_exp x) (f64_man x))"

definition legacyZeepSdkNumber :: "nat \<Rightarrow> jstring \<Rightarrow> js_error + jstring" where
  "legacyZeepSdkNumber maxLength raw =
     res_bind (rawNumberToFixedDecimal maxLength raw) (\<lambda>fixed.
       if fixed = [48] \<or> fixed = [45, 48] then Inr [48]
       else
         res_map (\<lambda>u.
           let absolute = js_abs (string_to_number fixed) in
           if \<not> js_eq absolute 0 \<and> js_lt absolute (string_to_number (lit ''0.000001'')) then
             let digits = (if starts_with [48, 46] (unsigned_part fixed) then drop 2 (unsigned_part fixed) else fixed);
                 leadingZeroes = length (takeWhile (\<lambda>u. u = 48) digits);
                 significant = strip_zeros_end (drop leadingZeroes digits) in
             if significant = [] then [48]
             else
               (if starts_with [45] fixed then [45] else [])
               @ (if length significant = 1 then significant else take 1 significant @ 46 # drop 1 significant)
               @ 101 # 45 # decimal_text (leadingZeroes + 1)
           else fixed)
           (assertLegacyDecimalRange fixed))"

section \<open>The canonical text and the hash\<close>

fun canonicalLegacyZeepSdkJson :: "nat \<Rightarrow> json \<Rightarrow> js_error + jstring" where
  "canonicalLegacyZeepSdkJson m JNull = Inr (lit ''null'')"
| "canonicalLegacyZeepSdkJson m (JBool b) = Inr (lit (if b then ''true'' else ''false''))"
| "canonicalLegacyZeepSdkJson m (JNumber x) = legacyZeepSdkNumber m (number_to_string x)"
| "canonicalLegacyZeepSdkJson m (JString s) = Inr (json_quote s)"
| "canonicalLegacyZeepSdkJson m (JArray xs) =
     res_map (\<lambda>ts. 91 # joined [44] ts @ [93]) (res_list (map (canonicalLegacyZeepSdkJson m) xs))"
| "canonicalLegacyZeepSdkJson m (JObject kvs) =
     (case legacy_wrapped (JObject kvs) of
        Some s \<Rightarrow> legacyZeepSdkNumber m s
      | None \<Rightarrow>
          res_map (\<lambda>ts. 123 # joined [44] ts @ [125])
            (res_list (map (\<lambda>(k, t). res_map (\<lambda>s. json_quote k @ 58 # s) t)
              (sort_key fst (map (\<lambda>(k, v). (k, canonicalLegacyZeepSdkJson m v)) kvs)))))"

definition blockId :: "json \<Rightarrow> js_error + json option" where
  "blockId block =
     res_map (\<lambda>i. case Option.bind i legacy_wrapped of
         Some s \<Rightarrow> Some (JNumber (string_to_number s)) | None \<Rightarrow> i)
       (json_get (Some block) ''i'')"

definition strip_bom_char :: "jstring \<Rightarrow> jstring" where
  "strip_bom_char content = (case content of u # us \<Rightarrow> if u = 65279 then us else content | [] \<Rightarrow> [])"

definition canonicalLegacyZeepSdkBlocks :: "nat \<Rightarrow> jstring \<Rightarrow> js_error + jstring" where
  "canonicalLegacyZeepSdkBlocks m content =
     (case json_parse (wrapJsonNumbers (strip_bom_char content)) of
        None \<Rightarrow> Inl (Error ''SyntaxError'')
      | Some parsed \<Rightarrow>
          res_bind (json_get (Some parsed) ''blox'') (\<lambda>blox.
            case blox of
              Some (JArray blocks) \<Rightarrow>
                res_bind (res_filter (\<lambda>b. res_map (\<lambda>i. \<not> json_is_nat i present_block_id) (blockId b)) blocks) (\<lambda>kept.
                res_map (\<lambda>ts. 91 # joined [44] (sort ts) @ [93]) (res_list (map (canonicalLegacyZeepSdkJson m) kept)))
            | _ \<Rightarrow> Inl (Error ''JSON level is missing blox'')))"

definition calculateLegacyZeepSdkJsonXxHash :: "nat \<Rightarrow> (byte list \<Rightarrow> byte list) \<Rightarrow> jstring \<Rightarrow> js_error + jstring" where
  "calculateLegacyZeepSdkJsonXxHash m xxhash content =
     res_map (xxHash128Hex xxhash) (canonicalLegacyZeepSdkBlocks m content)"

end
