(* ===== verification/Level_Decimal.thy ===== *)
theory Level_Decimal
  imports Level_Legacy Level_Canonical
begin

text \<open>
  The legacy number of a JSON number text is its exact value rounded to 28 decimal places, half away from
  zero, in a form without superfluous zeros.
\<close>

section \<open>Digit strings\<close>

lemma decimal_val_append: "decimal_val (a @ b) = decimal_val a * 10 ^ length b + decimal_val b"
proof (induction b rule: rev_induct)
  case (snoc u b)
  then show ?case
    by (simp add: append_assoc [symmetric] decimal_val_snoc del: append_assoc)
qed simp

lemma decimal_val_zeros [simp]: "decimal_val (replicate n 48) = 0"
  by (induction n) (simp_all add: decimal_val_def digits_val_def digit_val_def)

lemma decimal_val_strip [simp]: "decimal_val (strip_zeros s) = decimal_val s"
proof -
  have "decimal_val s = decimal_val (takeWhile (\<lambda>u. u = 48) s @ strip_zeros s)"
    by (simp add: strip_zeros_def)
  moreover have "takeWhile (\<lambda>u. u = 48) s = replicate (length (takeWhile (\<lambda>u. u = 48) s)) 48"
    by (rule replicate_length_same [symmetric]) (auto dest: set_takeWhileD)
  ultimately show ?thesis
    by (metis add_0 decimal_val_append decimal_val_zeros mult_0)
qed

lemma decimal_val_or_zero [simp]: "decimal_val (or_zero s) = decimal_val s"
  by (simp add: or_zero_def decimal_val_def digits_val_def digit_val_def)

lemma is_digit_val: "is_digit u \<Longrightarrow> digit_val u < 10"
  by (auto simp: is_digit_def digit_val_def)

lemma decimal_val_less: "list_all is_digit s \<Longrightarrow> decimal_val s < 10 ^ length s"
proof (induction s rule: rev_induct)
  case (snoc u s)
  then have "decimal_val s < 10 ^ length s" "digit_val u < 10"
    by (simp_all add: is_digit_val)
  then show ?case
    by (simp add: decimal_val_snoc)
qed simp

lemma is_digit_48 [simp]: "is_digit 48"
  by (simp add: is_digit_def)

lemma digits_zeros [simp]: "list_all is_digit (replicate n 48)"
  by (induction n) simp_all

lemma digits_or_zero: "list_all is_digit s \<Longrightarrow> list_all is_digit (or_zero s)"
  by (simp add: or_zero_def)

lemma digits_strip: "list_all is_digit s \<Longrightarrow> list_all is_digit (strip_zeros s)"
  by (auto simp: strip_zeros_def list_all_iff dest: set_dropWhileD)

lemma strip_zeros_hd: "strip_zeros s \<noteq> [] \<Longrightarrow> hd (strip_zeros s) \<noteq> 48"
  unfolding strip_zeros_def using hd_dropWhile [of "\<lambda>u. u = 48" s] by blast

lemma strip_keep: "list_all is_digit s \<Longrightarrow> or_zero (strip_zeros_keep s) = or_zero (strip_zeros s)"
proof (cases "strip_zeros s")
  case (Cons u us)
  assume "list_all is_digit s"
  then have "is_digit u"
    using digits_strip [of s] Cons by simp
  with Cons show ?thesis
    by (simp add: strip_zeros_keep_def)
qed (simp add: strip_zeros_keep_def or_zero_def)

lemma integer_part_strip: "list_all is_digit s \<Longrightarrow> is_integer_part (or_zero (strip_zeros s))"
  using strip_zeros_hd [of s] digits_strip [of s] by (auto simp: or_zero_def is_integer_part_def)

lemma strip_end_split: "\<exists>k. s = strip_zeros_end s @ replicate k 48"
proof -
  let ?z = "takeWhile (\<lambda>u. u = 48) (rev s)"
  have "rev s = ?z @ dropWhile (\<lambda>u. u = 48) (rev s)"
    by simp
  then have "s = strip_zeros_end s @ rev ?z"
    unfolding strip_zeros_end_def by (metis rev_append rev_rev_ident)
  moreover have "?z = replicate (length ?z) 48"
    by (rule replicate_length_same [symmetric]) (auto dest: set_takeWhileD)
  then have "rev ?z = replicate (length ?z) 48"
    by (metis rev_replicate)
  ultimately show ?thesis
    by metis
qed

lemma strip_end_last: "strip_zeros_end s \<noteq> [] \<Longrightarrow> last (strip_zeros_end s) \<noteq> 48"
  unfolding strip_zeros_end_def using hd_dropWhile [of "\<lambda>u. u = 48" "rev s"] by (simp add: last_rev)

lemma strip_end_digits: "list_all is_digit s \<Longrightarrow> list_all is_digit (strip_zeros_end s) \<and> length (strip_zeros_end s) \<le> length s"
  using strip_end_split [of s] by (metis length_append le_add1 list_all_append)

section \<open>The value of a fixed decimal\<close>

text \<open>An unsigned fixed decimal in units of the 28th place, and its canonical form.\<close>

definition fixed_scaled :: "jstring \<Rightarrow> nat" where
  "fixed_scaled s =
     (let i = takeWhile (\<lambda>u. u \<noteq> 46) s; f = drop (length i + 1) s in
      decimal_val (i @ f @ replicate (28 - length f) 48))"

definition canonical_fixed :: "jstring \<Rightarrow> bool" where
  "canonical_fixed s \<longleftrightarrow>
     (\<exists>i f. s = with_fraction i f \<and> is_integer_part i \<and> list_all is_digit f \<and> length f \<le> 28 \<and> (f \<noteq> [] \<longrightarrow> last f \<noteq> 48))"

text \<open>\<open>n * 10 ^ e\<close> in units of the 28th place, rounded half up.\<close>

definition half_up :: "nat \<Rightarrow> int \<Rightarrow> nat" where
  "half_up n e =
     (if - 28 \<le> e then n * 10 ^ nat (e + 28)
      else (2 * n + 10 ^ nat (- (e + 28))) div (2 * 10 ^ nat (- (e + 28))))"

lemma half_up_0 [simp]: "half_up 0 e = 0"
  by (simp add: half_up_def)

lemma half_up_shift: "half_up (n * 10 ^ k) 0 = half_up n (int k)"
proof -
  have "nat (int k + 28) = k + 28"
    by simp
  then show ?thesis
    by (simp add: half_up_def power_add)
qed

lemma digits_no_point: "list_all is_digit i \<Longrightarrow> takeWhile (\<lambda>u. u \<noteq> 46) (i @ 46 # f) = i \<and> takeWhile (\<lambda>u. u \<noteq> 46) i = i"
proof -
  assume "list_all is_digit i"
  then have "\<forall>u\<in>set i. u \<noteq> 46"
    by (auto simp: list_all_iff is_digit_def)
  then show ?thesis
    by (simp add: takeWhile_append2)
qed

lemma fixed_scaled_fraction:
  assumes "list_all is_digit i"
  shows "fixed_scaled (with_fraction i f) = decimal_val (i @ f @ replicate (28 - length f) 48)"
  using digits_no_point [OF assms, of f]
  by (cases "f = []") (simp_all add: fixed_scaled_def with_fraction_def Let_def del: takeWhile_eq_all_conv)

lemma integer_part_digits: "is_integer_part i \<Longrightarrow> list_all is_digit i"
  by (auto simp: is_integer_part_def)

lemma scaled_strip:
  assumes "list_all is_digit i" "length f \<le> 28"
  shows "fixed_scaled (with_fraction i (strip_zeros_end f)) = decimal_val (i @ f) * 10 ^ (28 - length f)"
proof -
  obtain k where k: "f = strip_zeros_end f @ replicate k 48"
    using strip_end_split by blast
  then have len: "length f = length (strip_zeros_end f) + k"
    by (metis length_append length_replicate)
  have "fixed_scaled (with_fraction i (strip_zeros_end f))
      = decimal_val (i @ strip_zeros_end f @ replicate (28 - length (strip_zeros_end f)) 48)"
    by (rule fixed_scaled_fraction [OF assms(1)])
  also have "replicate (28 - length (strip_zeros_end f)) 48 = replicate k (48 :: u16) @ replicate (28 - length f) 48"
    using len assms(2) by (simp flip: replicate_add)
  also have "i @ strip_zeros_end f @ (replicate k 48 @ replicate (28 - length f) 48) = (i @ f) @ replicate (28 - length f) 48"
    using k by (metis append_assoc)
  finally show ?thesis
    by (simp only: decimal_val_append [of "i @ f"] decimal_val_zeros length_replicate add_0_right)
qed

lemma canonical_strip:
  assumes "list_all is_digit i" "list_all is_digit f" "length f \<le> 28"
  shows "canonical_fixed (with_fraction (or_zero (strip_zeros i)) (strip_zeros_end f))"
  unfolding canonical_fixed_def
  using integer_part_strip [OF assms(1)] strip_end_digits [OF assms(2)] strip_end_last [of f] assms(3)
  by (intro exI [of _ "or_zero (strip_zeros i)"] exI [of _ "strip_zeros_end f"]) auto

lemma round_up_digit:
  assumes "list_all is_digit (u # r)"
  shows "(2 * (c * 10 ^ Suc (length r) + decimal_val (u # r)) + 10 ^ Suc (length r)) div (2 * 10 ^ Suc (length r))
    = c + (if 53 \<le> unat u then 1 else 0)"
proof -
  define p where "p = (10::nat) ^ length r"
  have p: "0 < p"
    by (simp add: p_def)
  have v: "decimal_val (u # r) = digit_val u * p + decimal_val r"
    using decimal_val_append [of "[u]" r] by (simp add: p_def decimal_val_def digits_val_def)
  have r: "decimal_val r < p"
    using assms decimal_val_less [of r] by (simp add: p_def)
  have d: "unat u = 48 + digit_val u" "digit_val u < 10"
    using assms by (auto simp: is_digit_def digit_val_def)
  have ge1: "1 * (2 * (10 * p)) \<le> 2 * (a + b) + 10 * p" if "5 * p \<le> a" for a b
    using that by simp
  have lt2: "2 * (a + b) + 10 * p < 2 * (2 * (10 * p))" if "a \<le> 9 * p" "b < p" for a b
    using that by simp
  have lt1: "2 * (a + b) + 10 * p < 2 * (10 * p)" if "a \<le> 4 * p" "b < p" for a b
    using that by simp
  have "(2 * (c * (10 * p) + decimal_val (u # r)) + 10 * p) div (2 * (10 * p))
      = c + (2 * decimal_val (u # r) + 10 * p) div (2 * (10 * p))"
  proof -
    have "2 * (c * (10 * p) + decimal_val (u # r)) + 10 * p = (2 * decimal_val (u # r) + 10 * p) + c * (2 * (10 * p))"
      by (simp add: algebra_simps)
    then show ?thesis
      using p by (simp only: div_mult_self1 [of "2 * (10 * p)" "2 * decimal_val (u # r) + 10 * p" c])
  qed
  moreover have "(2 * decimal_val (u # r) + 10 * p) div (2 * (10 * p)) = (if 53 \<le> unat u then 1 else 0)"
  proof (cases "5 \<le> digit_val u")
    case True
    then have lo: "5 * p \<le> digit_val u * p"
      by simp
    have hi: "digit_val u * p \<le> 9 * p"
      using d(2) by simp
    have "1 * (2 * (10 * p)) \<le> 2 * decimal_val (u # r) + 10 * p"
      unfolding v by (rule ge1 [OF lo])
    moreover have "2 * decimal_val (u # r) + 10 * p < 2 * (2 * (10 * p))"
      unfolding v by (rule lt2 [OF hi r])
    ultimately have "(2 * decimal_val (u # r) + 10 * p) div (2 * (10 * p)) = 1"
      by (intro div_nat_eqI) simp_all
    with True d show ?thesis
      by simp
  next
    case False
    then have four: "digit_val u * p \<le> 4 * p"
      by simp
    have "2 * decimal_val (u # r) + 10 * p < 2 * (10 * p)"
      unfolding v by (rule lt1 [OF four r])
    with False d show ?thesis
      by simp
  qed
  ultimately show ?thesis
    by (simp add: p_def)
qed

lemma round_fixed_spec:
  assumes "list_all is_digit i" "list_all is_digit f"
  shows "fixed_scaled (roundFixedDecimal i f 28) = half_up (decimal_val (i @ f)) (- int (length f))
    \<and> canonical_fixed (roundFixedDecimal i f 28)"
proof (cases "length f \<le> 28")
  case True
  have "list_all is_digit (or_zero (strip_zeros i))"
    using assms(1) by (intro digits_or_zero digits_strip)
  from scaled_strip [OF this True] have "fixed_scaled (roundFixedDecimal i f 28) = decimal_val (i @ f) * 10 ^ (28 - length f)"
    using True by (simp add: roundFixedDecimal_def strip_keep [OF assms(1)] decimal_val_append)
  moreover have "nat (- int (length f) + 28) = 28 - length f"
    using True by linarith
  ultimately show ?thesis
    using True canonical_strip [OF assms True] by (simp add: half_up_def roundFixedDecimal_def strip_keep [OF assms(1)])
next
  case False
  let ?K = "take 28 f" and ?u = "f ! 28" and ?r = "drop (Suc 28) f"
  have tail: "drop 28 f = ?u # ?r"
    using False by (intro Cons_nth_drop_Suc [symmetric]) simp
  have f: "f = ?K @ ?u # ?r"
    unfolding tail [symmetric] by (rule append_take_drop_id [symmetric])
  have "list_all is_digit ?K" "list_all is_digit (drop 28 f)" and K1: "length ?K = 28"
    using False assms(2) by (auto simp: list_all_iff dest: in_set_takeD in_set_dropD)
  then have K: "list_all is_digit ?K" "list_all is_digit (?u # ?r)"
    unfolding tail by simp_all
  define rounded where "rounded = decimal_text (decimal_val (i @ ?K) + (if 53 \<le> unat ?u then 1 else 0))"
  define padded where "padded = replicate (28 + 1 - length rounded) 48 @ rounded"
  have digits: "list_all is_digit padded"
    by (simp add: padded_def rounded_def decimal_text_digits)
  have len: "29 \<le> length padded"
    by (simp add: padded_def)
  let ?i = "take (length padded - 28) padded" and ?f = "drop (length padded - 28) padded"
  have parts: "list_all is_digit ?i" "list_all is_digit ?f" "length ?f = 28"
    using digits len by (auto simp: list_all_iff dest: in_set_takeD in_set_dropD)
  have eq: "roundFixedDecimal i f 28 = with_fraction (or_zero (strip_zeros ?i)) (strip_zeros_end ?f)"
    using False strip_keep [OF parts(1)]
    by (simp add: roundFixedDecimal_def Let_def padded_def rounded_def)
  have "list_all is_digit (or_zero (strip_zeros ?i))"
    using parts(1) by (intro digits_or_zero digits_strip)
  from scaled_strip [OF this, of ?f] parts(3) have "fixed_scaled (roundFixedDecimal i f 28) = decimal_val (?i @ ?f)"
    unfolding eq by (simp only: decimal_val_append decimal_val_or_zero decimal_val_strip diff_self_eq_0 power_0 mult_1_right)
  also have "\<dots> = decimal_val (i @ ?K) + (if 53 \<le> unat ?u then 1 else 0)"
    unfolding append_take_drop_id by (simp add: padded_def decimal_val_append rounded_def)
  also have "\<dots> = (2 * (decimal_val (i @ ?K) * 10 ^ Suc (length ?r) + decimal_val (?u # ?r)) + 10 ^ Suc (length ?r)) div (2 * 10 ^ Suc (length ?r))"
    by (rule round_up_digit [OF K(2), symmetric])
  also have "decimal_val (i @ ?K) * 10 ^ Suc (length ?r) + decimal_val (?u # ?r) = decimal_val (i @ f)"
    unfolding tail [symmetric] decimal_val_append [of "i @ ?K" "drop 28 f", symmetric, unfolded tail, folded tail]
      by (subst (2) append_take_drop_id [of 28 f, symmetric])
        (simp only: tail length_Cons append_assoc decimal_val_append [of "i @ ?K" "?u # ?r", symmetric, unfolded append_assoc length_Cons])
  also have "(2 * decimal_val (i @ f) + 10 ^ Suc (length ?r)) div (2 * 10 ^ Suc (length ?r)) = half_up (decimal_val (i @ f)) (- int (length f))"
  proof -
    have "nat (- (- int (length f) + 28)) = Suc (length ?r)"
      using False by simp
    with False show ?thesis
      by (simp add: half_up_def)
  qed
  finally show ?thesis
    using canonical_strip [OF parts(1,2)] parts(3) by (simp add: eq)
qed

section \<open>The parts of a number text\<close>

declare takeWhile_eq_all_conv [simp del] dropWhile_eq_Nil_conv [simp del]

definition is_exponent :: "jstring \<Rightarrow> bool" where
  "is_exponent ex \<longleftrightarrow> ex = [] \<or> (\<exists>u sg ds. ex = u # sg @ ds \<and> (u = 101 \<or> u = 69) \<and> (sg = [] \<or> sg = [43] \<or> sg = [45])
     \<and> ds \<noteq> [] \<and> list_all is_digit ds)"

lemma takeWhile_digits [simp]: "list_all is_digit (takeWhile is_digit s)"
  by (auto simp: list_all_iff dest: set_takeWhileD)

lemma frac_part_is: "frac_part s = (fp, r) \<Longrightarrow> is_frac fp"
  by (auto simp: frac_part_def is_frac_def split: list.splits if_splits)

lemma exp_part_is: "exp_part s = (ex, r) \<Longrightarrow> is_exponent ex"
proof (cases s)
  case (Cons u us)
  assume e: "exp_part s = (ex, r)"
  obtain sg ds where sg: "(case us of v # vs \<Rightarrow> if v = 43 \<or> v = 45 then ([v], vs) else ([], us) | [] \<Rightarrow> ([], us)) = (sg, ds)"
    by fastforce
  then have "sg = [] \<or> sg = [43] \<or> sg = [45]"
    by (auto split: list.splits if_splits)
  moreover have "ex = [] \<or> ex = u # sg @ takeWhile is_digit ds \<and> (u = 101 \<or> u = 69) \<and> takeWhile is_digit ds \<noteq> []"
    using e by (auto simp: exp_part_def Cons sg Let_def split: if_splits)
  ultimately show ?thesis
    unfolding is_exponent_def using takeWhile_digits [of ds] by metis
qed (simp add: exp_part_def is_exponent_def)

lemma number_token_parts:
  assumes "number_token s = Some (tok, r)"
  shows "\<exists>sg ip fp ex. tok = sg @ ip @ fp @ ex \<and> (sg = [] \<or> sg = [45]) \<and> is_integer_part ip \<and> is_frac fp \<and> is_exponent ex"
proof -
  obtain sg b where sg: "(case s of u # us \<Rightarrow> if u = 45 then ([u], us) else ([], s) | [] \<Rightarrow> ([], s)) = (sg, b)"
    by fastforce
  then have sg': "sg = [] \<or> sg = [45]"
    by (auto split: list.splits if_splits)
  from assms sg obtain u us where b: "b = u # us" "is_digit u"
    by (auto simp: number_token_def Let_def split: list.splits if_splits)
  define ip r1 where "ip = (if u = 48 then [u] else takeWhile is_digit b)" "r1 = (if u = 48 then us else dropWhile is_digit b)"
  obtain fp r2 where fp: "frac_part r1 = (fp, r2)"
    by fastforce
  obtain ex r3 where ex: "exp_part r2 = (ex, r3)"
    by fastforce
  have "tok = sg @ ip @ fp @ ex"
    using assms b fp ex by (auto simp: number_token_def sg ip_r1_def Let_def split: if_splits)
  moreover have "is_integer_part ip"
    using b by (auto simp: ip_r1_def is_integer_part_def)
  ultimately show ?thesis
    using sg' frac_part_is [OF fp] exp_part_is [OF ex] by blast
qed

definition exponent_of :: "jstring \<Rightarrow> int" where
  "exponent_of ex = (if ex = [] then 0 else exponent_val (tl ex))"

lemma take_all_digits: "list_all is_digit ds \<Longrightarrow> takeWhile is_digit ds = ds \<and> dropWhile is_digit ds = []"
  using take_digits [of ds "[]"] by simp

lemma not_digit_chars: "\<not> is_digit 46" "\<not> is_digit 101" "\<not> is_digit 69" "\<not> is_digit 43" "\<not> is_digit 45"
  by (simp_all add: is_digit_def)

lemma exponent_parts:
  assumes "is_exponent ex" "ex \<noteq> []"
  obtains u sg ds where "ex = u # sg @ ds" "u = 101 \<or> u = 69" "sg = [] \<or> sg = [43] \<or> sg = [45]" "ds \<noteq> []" "list_all is_digit ds"
    "split_sign (sg @ ds) = (if sg = [45] then 1 else 0, ds)"
    "exponent_of ex = (if sg = [45] then - 1 else 1) * int (decimal_val ds)"
proof -
  from assms obtain u sg ds where e: "ex = u # sg @ ds" "u = 101 \<or> u = 69" "sg = [] \<or> sg = [43] \<or> sg = [45]" "ds \<noteq> []"
      "list_all is_digit ds"
    by (auto simp: is_exponent_def)
  have "split_sign (sg @ ds) = (if sg = [45] then 1 else 0, ds)"
    using e(3,4,5) by (cases ds) (auto simp: split_sign_def is_digit_def)
  moreover from this have "exponent_of ex = (if sg = [45] then - 1 else 1) * int (decimal_val ds)"
    using take_all_digits [OF e(5)] by (simp add: exponent_of_def exponent_val_def e(1))
  ultimately show ?thesis
    by (rule that [OF e])
qed

lemma decimal_prefix_parts:
  assumes "is_integer_part ip" "is_frac fp" "is_exponent ex"
  shows "decimal_prefix (ip @ fp @ ex) = Some (decimal_val (ip @ tl fp), exponent_of ex - int (length (tl fp)), [])"
proof -
  have ip: "list_all is_digit ip" "ip \<noteq> []"
    using assms(1) by (auto simp: is_integer_part_def)
  have stop: "case fp @ ex of [] \<Rightarrow> True | u # us \<Rightarrow> \<not> is_digit u" "case ex of [] \<Rightarrow> True | u # us \<Rightarrow> \<not> is_digit u"
    using assms(2,3) by (auto simp: is_frac_def is_exponent_def is_digit_def split: list.splits)
  have i: "takeWhile is_digit (ip @ fp @ ex) = ip" "dropWhile is_digit (ip @ fp @ ex) = fp @ ex"
    using take_digits [OF ip(1) stop(1)] by simp_all
  have f: "(case fp @ ex of u # us \<Rightarrow> if u = 46 \<and> (ip \<noteq> [] \<or> takeWhile is_digit us \<noteq> [])
                then (takeWhile is_digit us, dropWhile is_digit us) else ([], fp @ ex)
            | [] \<Rightarrow> ([], fp @ ex)) = (tl fp, ex)"
  proof (cases "fp = []")
    case True
    with assms(3) show ?thesis
      by (auto simp: is_exponent_def)
  next
    case False
    then obtain ds where ds: "fp = 46 # ds" "list_all is_digit ds"
      using assms(2) by (auto simp: is_frac_def)
    with ip(2) take_digits [OF ds(2) stop(2)] show ?thesis
      by simp
  qed
  show ?thesis
  proof (cases "ex = []")
    case True
    then show ?thesis
      using ip(2) i [unfolded True] f [unfolded True append_Nil2] by (simp add: decimal_prefix_def Let_def exponent_of_def)
  next
    case False
    from assms(3) False obtain u sg ds where ex: "ex = u # sg @ ds" "u = 101 \<or> u = 69" "sg = [] \<or> sg = [43] \<or> sg = [45]"
        "ds \<noteq> []" "list_all is_digit ds" "split_sign (sg @ ds) = (if sg = [45] then 1 else 0, ds)"
        "exponent_of ex = (if sg = [45] then - 1 else 1) * int (decimal_val ds)"
      by (rule exponent_parts)
    note e = ex(1,2,4-)
    have "(case ex of u # us \<Rightarrow> if u = 101 \<or> u = 69 then
                  (case split_sign us of (sg, vs) \<Rightarrow>
                     if takeWhile is_digit vs = [] then (0, ex)
                     else ((if sg = 1 then - 1 else 1) * int (decimal_val (takeWhile is_digit vs)), dropWhile is_digit vs))
                else (0, ex)
            | [] \<Rightarrow> (0, ex)) = (exponent_of ex, [])"
      using e take_all_digits [OF e(4)] by auto
    then show ?thesis
      using ip(2) by (simp add: decimal_prefix_def i f Let_def)
  qed
qed

lemma split2_none: "\<forall>u\<in>set a. \<not> sep u \<Longrightarrow> split2 sep a = (a, None)"
  by (simp add: split2_def takeWhile_eq_all_conv [THEN iffD2] dropWhile_eq_Nil_conv [THEN iffD2])

lemma split2_some: "\<forall>u\<in>set a. \<not> sep u \<Longrightarrow> sep c \<Longrightarrow> \<forall>u\<in>set b. \<not> sep u \<Longrightarrow> split2 sep (a @ c # b) = (a, Some b)"
  by (simp add: split2_def takeWhile_append2 dropWhile_append2 takeWhile_eq_all_conv [THEN iffD2])

lemma digits_not: "list_all is_digit s \<Longrightarrow> \<forall>u\<in>set s. u \<noteq> 46 \<and> u \<noteq> 101 \<and> u \<noteq> 69"
  by (auto simp: list_all_iff is_digit_def)

lemma digits_mem: "list_all is_digit s \<Longrightarrow> u \<in> set s \<Longrightarrow> u \<noteq> 46 \<and> u \<noteq> 101 \<and> u \<noteq> 69"
  using digits_not by blast

lemma split_parts:
  assumes "is_integer_part ip" "is_frac fp" "is_exponent ex"
  shows "split2 (\<lambda>u. u = 101 \<or> u = 69) (ip @ fp @ ex) = (ip @ fp, if ex = [] then None else Some (tl ex))"
    "split2 (\<lambda>u. u = 46) (ip @ fp) = (ip, if fp = [] then None else Some (tl fp))"
proof -
  have ip: "\<forall>u\<in>set ip. u \<noteq> 46 \<and> u \<noteq> 101 \<and> u \<noteq> 69"
    using digits_not [OF integer_part_digits [OF assms(1)]] .
  have fp: "\<forall>u\<in>set fp. u \<noteq> 101 \<and> u \<noteq> 69" "\<forall>u\<in>set (tl fp). u \<noteq> 46"
    using assms(2) by (auto simp: is_frac_def dest: digits_mem)
  show "split2 (\<lambda>u. u = 101 \<or> u = 69) (ip @ fp @ ex) = (ip @ fp, if ex = [] then None else Some (tl ex))"
  proof (cases "ex = []")
    case True
    then show ?thesis
      using split2_none [of "ip @ fp" "\<lambda>u. u = 101 \<or> u = 69"] ip fp by auto
  next
    case False
    then obtain u sg ds where e: "ex = u # sg @ ds" "u = 101 \<or> u = 69" "sg = [] \<or> sg = [43] \<or> sg = [45]" "list_all is_digit ds"
      using assms(3) unfolding is_exponent_def by blast
    have "\<forall>u\<in>set (sg @ ds). \<not> (u = 101 \<or> u = 69)"
    proof
      fix v
      assume "v \<in> set (sg @ ds)"
      then have "v = 43 \<or> v = 45 \<or> v \<in> set ds"
        using e(3) by (elim disjE) fastforce+
      then show "\<not> (v = 101 \<or> v = 69)"
        using digits_mem [OF e(4)] by (elim disjE) simp_all
    qed
    moreover have "\<forall>u\<in>set (ip @ fp). \<not> (u = 101 \<or> u = 69)"
      using ip fp(1) by auto
    ultimately have "split2 (\<lambda>u. u = 101 \<or> u = 69) ((ip @ fp) @ u # sg @ ds) = (ip @ fp, Some (sg @ ds))"
      using e(2) by (intro split2_some)
    then show ?thesis
      by (simp add: e(1))
  qed
  show "split2 (\<lambda>u. u = 46) (ip @ fp) = (ip, if fp = [] then None else Some (tl fp))"
  proof (cases "fp = []")
    case True
    then show ?thesis
      using split2_none [of ip "\<lambda>u. u = 46"] ip by auto
  next
    case False
    then obtain ds where ds: "fp = 46 # ds"
      using assms(2) unfolding is_frac_def by blast
    have "split2 (\<lambda>u. u = 46) (ip @ 46 # ds) = (ip, Some ds)"
      by (rule split2_some) (use ip fp(2) ds in auto)
    then show ?thesis
      by (simp add: ds)
  qed
qed

section \<open>The legacy number\<close>

lemma strip_leading:
  assumes "strip_zeros a = []"
  shows "length (strip_zeros (a @ b)) = length b - length (takeWhile (\<lambda>u. u = 48) b)"
proof -
  have "\<forall>u\<in>set a. u = 48"
    using assms by (simp add: strip_zeros_def dropWhile_eq_Nil_conv)
  then have "strip_zeros (a @ b) = strip_zeros b"
    by (simp add: strip_zeros_def dropWhile_append2)
  moreover have "length b = length (takeWhile (\<lambda>u. u = 48) b) + length (strip_zeros b)"
    unfolding strip_zeros_def by (metis length_append takeWhile_dropWhile_id)
  ultimately show ?thesis
    by simp
qed

lemma strip_significant:
  assumes "strip_zeros a \<noteq> []"
  shows "strip_zeros (a @ b) = strip_zeros a @ b"
proof -
  have "\<not> (\<forall>u\<in>set a. u = 48)"
    using assms by (simp add: strip_zeros_def dropWhile_eq_Nil_conv)
  then show ?thesis
    unfolding strip_zeros_def by (metis (mono_tags, lifting) dropWhile_append1)
qed

lemma all_zeros: "strip_zeros s = [] \<Longrightarrow> decimal_val s = 0"
  using decimal_val_strip [of s] by simp

lemma digits_take_drop: "list_all is_digit s \<Longrightarrow> list_all is_digit (take n s) \<and> list_all is_digit (drop n s)"
  by (auto simp: list_all_iff dest: in_set_takeD in_set_dropD)

text \<open>The point splits the digits so that the value is kept.\<close>

lemma point_split:
  assumes D: "list_all is_digit D" and v: "decimal_val D = n" "n = 0 \<or> point - int (length D) = e"
    and f: "(if point \<le> 0 then res_map (\<lambda>zeros. roundFixedDecimal [48] (zeros @ D) 28) (js_repeat m b (- point))
      else if int (length D) \<le> point then
        res_map (\<lambda>zeros. roundFixedDecimal (D @ zeros) [] 28) (js_repeat m b (point - int (length D)))
      else Inr (roundFixedDecimal (take (nat point) D) (drop (nat point) D) 28)) = Inr fixed"
  shows "fixed_scaled fixed = half_up n e \<and> canonical_fixed fixed"
proof -
  have zero: "half_up n e' = half_up n e" if "n = 0 \<or> e' = e" for e'
    using that by auto
  consider (low) "point \<le> 0" | (high) "0 < point" "int (length D) \<le> point" | (mid) "0 < point" "point < int (length D)"
    by linarith
  then show ?thesis
  proof cases
    case low
    then have fx: "fixed = roundFixedDecimal [48] (replicate (nat (- point)) 48 @ D) 28"
      using f by (auto simp: js_repeat_def res_map_Inr_iff split: if_splits)
    let ?F = "replicate (nat (- point)) 48 @ D"
    have "decimal_val [48] = 0"
      by (simp add: decimal_val_def digits_val_def digit_val_def)
    then have val: "decimal_val ([48] @ ?F) = n"
      unfolding decimal_val_append decimal_val_zeros v(1) by simp
    have len: "- int (length ?F) = point - int (length D)"
      using low by simp
    have "list_all is_digit [48]" "list_all is_digit ?F"
      using D by (auto simp: is_digit_def list_all_iff)
    from round_fixed_spec [OF this, unfolded val len] show ?thesis
      unfolding fx zero [OF v(2)] .
  next
    case high
    define k where "k = nat (point - int (length D))"
    have fx: "fixed = roundFixedDecimal (D @ replicate k 48) [] 28"
      using f high by (auto simp: js_repeat_def res_map_Inr_iff k_def split: if_splits)
    have val: "decimal_val (D @ replicate k 48) = n * 10 ^ k"
      using v(1) by (simp add: decimal_val_append)
    have "n = 0 \<or> int k = e"
      using high v(2) by (auto simp: k_def)
    then have shift: "half_up (n * 10 ^ k) 0 = half_up n e"
      unfolding half_up_shift by (rule zero)
    have "list_all is_digit (D @ replicate k 48)" "list_all is_digit []"
      using D by (auto simp: is_digit_def list_all_iff)
    from round_fixed_spec [OF this] show ?thesis
      unfolding fx append_Nil2 list.size(3) val by (simp add: shift)
  next
    case mid
    then have fx: "fixed = roundFixedDecimal (take (nat point) D) (drop (nat point) D) 28"
      using f by simp
    have len: "- int (length (drop (nat point) D)) = point - int (length D)"
      using mid by simp
    have "list_all is_digit (take (nat point) D)" "list_all is_digit (drop (nat point) D)"
      using digits_take_drop [OF D, of "nat point"] by simp_all
    from round_fixed_spec [OF this, unfolded append_take_drop_id v(1) len] show ?thesis
      unfolding fx zero [OF v(2)] .
  qed
qed

lemma unsigned_fixed_spec:
  assumes "is_integer_part ip" "is_frac fp" "is_exponent ex" "unsigned_fixed m (ip @ fp @ ex) = Inr fixed"
  shows "fixed_scaled fixed = half_up (decimal_val (ip @ tl fp)) (exponent_of ex - int (length (tl fp))) \<and> canonical_fixed fixed"
proof -
  let ?fd = "tl fp"
  have exponent: "exponent_val (case if ex = [] then None else Some (tl ex) of Some t \<Rightarrow> t | None \<Rightarrow> [48]) = exponent_of ex"
    by (cases "ex = []") (simp_all add: exponent_of_def exponent_val_def split_sign_def decimal_val_def digits_val_def digit_val_def)
  have frac: "(case if fp = [] then None else Some ?fd of Some t \<Rightarrow> t | None \<Rightarrow> []) = ?fd"
    by simp
  define D where "D = or_zero (strip_zeros (ip @ ?fd))"
  define point where "point = (if strip_zeros ip \<noteq> [] then int (length (strip_zeros ip))
      else - int (if strip_zeros ip \<noteq> [] then 0 else length (takeWhile (\<lambda>u. u = 48) ?fd))) + exponent_of ex"
  have digits: "list_all is_digit ip" "list_all is_digit ?fd"
    using assms(1,2) by (auto simp: is_frac_def intro: integer_part_digits)
  then have D: "list_all is_digit D" "decimal_val D = decimal_val (ip @ ?fd)"
    by (simp_all add: D_def digits_or_zero digits_strip)
  have f: "(if point \<le> 0 then res_map (\<lambda>zeros. roundFixedDecimal [48] (zeros @ D) 28) (js_repeat m (infinite_exponent (exponent_of ex)) (- point))
      else if int (length D) \<le> point then
        res_map (\<lambda>zeros. roundFixedDecimal (D @ zeros) [] 28) (js_repeat m (infinite_exponent (exponent_of ex)) (point - int (length D)))
      else Inr (roundFixedDecimal (take (nat point) D) (drop (nat point) D) 28)) = Inr fixed"
    using assms(4) by (simp only: unsigned_fixed_def split_parts [OF assms(1-3)] prod.case exponent frac Let_def
        D_def [symmetric] point_def [symmetric])
  have "decimal_val (ip @ ?fd) = 0 \<or> point - int (length D) = exponent_of ex - int (length ?fd)"
  proof (cases "strip_zeros (ip @ ?fd) = []")
    case True
    then show ?thesis
      using all_zeros by blast
  next
    case False
    show ?thesis
    proof (cases "strip_zeros ip = []")
      case True
      define z where "z = length (takeWhile (\<lambda>u. u = 48) ?fd)"
      have "z \<le> length ?fd"
        unfolding z_def by (rule length_takeWhile_le)
      moreover have "length D = length ?fd - z"
        using strip_leading [OF True, of ?fd] False unfolding D_def or_zero_def z_def by simp
      moreover have "point = - int z + exponent_of ex"
        using True by (simp add: point_def z_def)
      ultimately show ?thesis
        by linarith
    next
      case sig: False
      with False strip_significant [OF sig, of ?fd] show ?thesis
        by (simp add: point_def D_def or_zero_def)
    qed
  qed
  from point_split [OF D this f] show ?thesis .
qed

lemma canonical_not_sign:
  assumes "canonical_fixed s"
  shows "\<not> starts_with [45] s"
proof -
  from assms obtain i f where s: "s = with_fraction i f" "is_integer_part i"
    by (auto simp: canonical_fixed_def)
  moreover obtain u us where "i = u # us" "is_digit u"
    using s(2) by (cases i) (auto simp: is_integer_part_def)
  ultimately show ?thesis
    by (cases "f = []") (auto simp: with_fraction_def starts_with_def is_digit_def)
qed

lemma canonical_zero:
  assumes "canonical_fixed s"
  shows "fixed_scaled s = 0 \<longleftrightarrow> s = [48]"
proof
  assume z: "fixed_scaled s = 0"
  from assms obtain i f where s: "s = with_fraction i f" "is_integer_part i" "list_all is_digit f" "f \<noteq> [] \<longrightarrow> last f \<noteq> 48"
    by (auto simp: canonical_fixed_def)
  have "decimal_val (i @ f) = 0"
    using z unfolding s(1) fixed_scaled_fraction [OF integer_part_digits [OF s(2)]] append_assoc [symmetric]
    by (subst (asm) decimal_val_append) simp
  then have if0: "decimal_val i = 0" "decimal_val f = 0"
    by (simp_all add: decimal_val_append)
  have nonzero: "decimal_val t \<noteq> 0" if nz: "list_all is_digit t" "t \<noteq> []" "hd t \<noteq> 48" for t
  proof -
    obtain u us where t: "t = u # us"
      using nz(2) by (cases t) auto
    have "digit_val u \<noteq> 0"
      using nz(1,3) unfolding t by (auto simp: is_digit_def digit_val_def word_unat_eq_iff)
    moreover have "decimal_val t = digit_val u * 10 ^ length us + decimal_val us"
      using decimal_val_append [of "[u]" us] by (simp add: t decimal_val_def digits_val_def)
    ultimately show ?thesis
      by simp
  qed
  have "i = [48]"
    using s(2) if0(1) nonzero [of i] by (auto simp: is_integer_part_def)
  moreover have "f = []"
  proof (rule ccontr)
    assume ne: "f \<noteq> []"
    then obtain g u where f: "f = g @ [u]"
      by (metis append_butlast_last_id)
    have "u \<noteq> 48" "is_digit u"
      using s(3,4) by (simp_all add: f)
    then have "digit_val u \<noteq> 0"
      by (auto simp: is_digit_def digit_val_def word_unat_eq_iff)
    with if0(2) show False
      by (simp add: f decimal_val_snoc)
  qed
  ultimately show "s = [48]"
    by (simp add: s(1) with_fraction_def)
next
  assume "s = [48]"
  moreover have "fixed_scaled [48] = 0"
    by code_simp
  ultimately show "fixed_scaled s = 0"
    by simp
qed

text \<open>
  C8: When the fixed decimal of a JSON number text exists, it is the exact
  decimal value of the text, which \<open>decimal_prefix\<close> gives as digits and a power of ten, rounded to 28 places with
  halves away from zero; it has no superfluous zero, at most 28 digits after the point, and a minus sign exactly when
  the text has one and the rounded value is not zero.
\<close>

theorem legacy_decimal_exact:
  assumes "number_token raw = Some (raw, [])" "rawNumberToFixedDecimal maxLength raw = Inr fixed"
  shows "\<exists>n e. decimal_prefix (unsigned_part raw) = Some (n, e, [])
    \<and> fixed_scaled (unsigned_part fixed) = half_up n e \<and> canonical_fixed (unsigned_part fixed)
    \<and> (starts_with [45] fixed \<longleftrightarrow> starts_with [45] raw \<and> half_up n e \<noteq> 0)"
proof -
  obtain sg ip fp ex where raw: "raw = sg @ ip @ fp @ ex" "sg = [] \<or> sg = [45]"
    and parts: "is_integer_part ip" "is_frac fp" "is_exponent ex"
    using number_token_parts [OF assms(1)] by blast
  have "\<not> starts_with [45] (ip @ fp @ ex)"
    using parts(1) by (auto simp: is_integer_part_def starts_with_def is_digit_def neq_Nil_conv)
  then have raw': "unsigned_part raw = ip @ fp @ ex" "starts_with [45] raw \<longleftrightarrow> sg = [45]"
    using raw by (auto simp: unsigned_part_def starts_with_def)
  obtain f where f: "unsigned_fixed maxLength (ip @ fp @ ex) = Inr f"
    and fixed: "fixed = (if f = [48] then [48] else if starts_with [45] raw then 45 # f else f)"
    using assms(2) raw' by (auto simp: rawNumberToFixedDecimal_def unsigned_part_def Let_def res_map_Inr_iff)
  from unsigned_fixed_spec [OF parts f] have spec:
    "fixed_scaled f = half_up (decimal_val (ip @ tl fp)) (exponent_of ex - int (length (tl fp)))" "canonical_fixed f"
    by simp_all
  have u: "unsigned_part fixed = f" "starts_with [45] fixed \<longleftrightarrow> f \<noteq> [48] \<and> starts_with [45] raw"
    using canonical_not_sign [OF spec(2)] unfolding fixed by (auto simp: unsigned_part_def starts_with_def)
  show ?thesis
    using decimal_prefix_parts [OF parts] spec u canonical_zero [OF spec(2)] raw' by auto
qed

lemma legacy_decimal_exact_witness:
  "\<exists>n e. decimal_prefix (unsigned_part (lit ''-2.50e-3'')) = Some (n, e, [])
    \<and> fixed_scaled (unsigned_part (lit ''-0.0025'')) = half_up n e \<and> canonical_fixed (unsigned_part (lit ''-0.0025''))
    \<and> (starts_with [45] (lit ''-0.0025'') \<longleftrightarrow> starts_with [45] (lit ''-2.50e-3'') \<and> half_up n e \<noteq> 0)"
proof (rule legacy_decimal_exact [of _ 1000])
  show "number_token (lit ''-2.50e-3'') = Some (lit ''-2.50e-3'', [])"
    by code_simp
  show "rawNumberToFixedDecimal 1000 (lit ''-2.50e-3'') = Inr (lit ''-0.0025'')"
    by code_simp
qed

end
