(* ===== verification/Level_Csv.thy ===== *)
theory Level_Csv
  imports Level_Legacy
begin

text \<open>
  CSV levels (\<open>packages/core/src/levels/csv.ts\<close>) and the entry points for both formats
  (\<open>packages/core/src/levels/index.ts\<close>).

  A cell of a row is \<open>None\<close> when the row has no such index. The two digests, \<open>sha1\<close> and \<open>xxhash\<close>, are
  parameters, and so is the engine's limit on the length of a string, \<open>maxLength\<close>, which is below \<open>2 ^ 53\<close>: an
  exponent that a number would round is beyond it either way. Only \<open>repeat\<close> is held to the limit: texts joined from parts that fit
  are taken to fit.
\<close>

section \<open>Decimal texts\<close>

text \<open>\<open>'-' \<close> or nothing, the digits before and after the point, and the exponent, of a text the pattern matches.\<close>

definition match_decimal :: "jstring \<Rightarrow> (bool \<times> jstring \<times> jstring \<times> int) option" where
  "match_decimal s =
     (let negative = starts_with [45] s; (sg, r) = split_sign s;
          integer = takeWhile is_digit r; r1 = dropWhile is_digit r;
          (fraction, r2) = (if starts_with [46] r1 then (takeWhile is_digit (tl r1), dropWhile is_digit (tl r1)) else ([], r1)) in
      if integer = [] then None
      else if r2 = [] then Some (negative, integer, fraction, 0)
      else if hd r2 = 101 \<or> hd r2 = 69 then
        (let ds = snd (split_sign (tl r2)) in
         if ds \<noteq> [] \<and> list_all is_digit ds then Some (negative, integer, fraction, exponent_val (tl r2)) else None)
      else None)"

text \<open>The digits before and after the point, without an exponent.\<close>

definition expand_decimal :: "nat \<Rightarrow> jstring \<Rightarrow> jstring \<Rightarrow> int \<Rightarrow> js_error + jstring \<times> jstring option" where
  "expand_decimal maxLength integer fraction ex =
     (let digits = integer @ fraction; decimalIndex = int (length integer) + ex in
      if decimalIndex \<le> 0 then
        res_map (\<lambda>zeros. ([48], Some (zeros @ digits))) 
          (js_repeat maxLength (infinite_exponent ex) (- decimalIndex))
      else if int (length digits) \<le> decimalIndex then
        res_map (\<lambda>zeros. (digits @ zeros, None)) 
          (js_repeat maxLength (infinite_exponent ex) (decimalIndex - int (length digits)))
      else Inr (take (nat decimalIndex) digits, Some (drop (nat decimalIndex) digits)))"

definition formatDecimal :: "nat \<Rightarrow> jstring \<Rightarrow> js_error + jstring" where
  "formatDecimal maxLength s =
     (case match_decimal (trim s) of
        None \<Rightarrow> Inr [48]
      | Some (negative, integer, fraction, ex) \<Rightarrow>
          res_map (\<lambda>(expandedInteger, expandedFraction).
            let normalizedInteger = strip_zeros_keep expandedInteger;
                normalized = (case expandedFraction of
                    None \<Rightarrow> normalizedInteger
                  | Some f \<Rightarrow> normalizedInteger @ 46 # f);
                zero = (normalizedInteger = [48] \<and> (case expandedFraction of None \<Rightarrow> True | Some f \<Rightarrow> list_all (\<lambda>u. u = 48) f)) in
            if negative \<and> \<not> zero then 45 # normalized else normalized)
            (expand_decimal maxLength integer fraction ex))"

section \<open>Blocks\<close>

record parsed_csv_block = csv_block +
  raw_euler :: "jstring list"
  raw_position :: "jstring list"
  raw_scale :: "jstring list"

text \<open>\<open>values[index]\<close>\<close>

definition cell :: "jstring list \<Rightarrow> nat \<Rightarrow> json option" where
  "cell row i = (if i < length row then Some (JString (row ! i)) else None)"

definition safeVector :: "jstring list \<Rightarrow> nat \<Rightarrow> vector3" where
  "safeVector row offset =
     \<lparr>vec_x = numberOrDefault (cell row offset) 0,
      vec_y = numberOrDefault (cell row (offset + 1)) 0,
      vec_z = numberOrDefault (cell row (offset + 2)) 0\<rparr>"

text \<open>\<open>a || b\<close> on comparison results\<close>

definition or_then :: "int \<Rightarrow> int \<Rightarrow> int" where
  "or_then a b = (if a \<noteq> 0 then a else b)"

definition compareVector :: "vector3 \<Rightarrow> vector3 \<Rightarrow> int" where
  "compareVector l r =
     or_then (compareNumber (vec_x l) (vec_x r))
       (or_then (compareNumber (vec_y l) (vec_y r)) (compareNumber (vec_z l) (vec_z r)))"

fun compare_items :: "js_number list \<Rightarrow> js_number list \<Rightarrow> int" where
  "compare_items [] rs = 0"
| "compare_items (l # ls) rs =
     (case rs of
        [] \<Rightarrow> or_then (compareNumber l 0) (compare_items ls [])
      | r # rs' \<Rightarrow> or_then (compareNumber l r) (compare_items ls rs'))"

definition compareSequence :: "js_number list \<Rightarrow> js_number list \<Rightarrow> int" where
  "compareSequence l r =
     or_then (if length l < length r then - 1 else if length r < length l then 1 else 0) (compare_items l r)"

definition compareBlocks :: "parsed_csv_block \<Rightarrow> parsed_csv_block \<Rightarrow> int" where
  "compareBlocks l r =
     or_then (compareNumber (block_id l) (block_id r))
       (or_then (compareVector (block_position l) (block_position r))
         (or_then (compareVector (block_euler l) (block_euler r))
           (or_then (compareVector (block_scale l) (block_scale r))
             (or_then (compareSequence (block_paints l) (block_paints r))
               (compareSequence (block_options l) (block_options r))))))"

section \<open>Texts of blocks\<close>

definition vectorText :: "jstring list \<Rightarrow> jstring" where
  "vectorText values = 60 # joined [44] values @ [62]"

text \<open>
  \<open>toPrecision(p)\<close> of a finite number that is not zero: the \<open>p\<close> digits nearest to it, the larger ones when
  two are as near, and the exponent of the first digit.
\<close>

definition precision_digits :: "nat \<Rightarrow> js_number \<Rightarrow> nat \<times> int" where
  "precision_digits p x =
     (let num = scale_up (f64_sig x) (f64_pow x); den = scale_up 1 (- f64_pow x); n = decimal_exp num den;
          a = num * 10 ^ nat (int p - n); b = den * 10 ^ nat (n - int p);
          m = (2 * a + b) div (2 * b) in
      if m = 10 ^ p then (10 ^ (p - 1), n) else (m, n - 1))"

definition to_precision :: "nat \<Rightarrow> js_number \<Rightarrow> jstring" where
  "to_precision p x =
     (if is_nan x then lit ''NaN''
      else if is_zero x then (if p = 1 then [48] else 48 # 46 # replicate (p - 1) 48)
      else (if f64_sign x = 1 then [45] else []) @
        (if is_inf x then infinity_text
         else
           let (m, e) = precision_digits p x; ds = decimal_text m in
           if e < - 6 \<or> int p \<le> e then
             (if p = 1 then ds else take 1 ds @ 46 # drop 1 ds) @ 101 # exp_text e
           else if e = int p - 1 then ds
           else if 0 \<le> e then take (nat e + 1) ds @ 46 # drop (nat e + 1) ds
           else 48 # 46 # replicate (nat (- (e + 1))) 48 @ ds))"

text \<open>The replacements that cut zeros off the end of the fraction, and a point nothing follows.\<close>

definition trim_fraction :: "jstring \<Rightarrow> jstring" where
  "trim_fraction s =
     with_fraction (takeWhile (\<lambda>u. u \<noteq> 46) s) (strip_zeros_end (drop 1 (dropWhile (\<lambda>u. u \<noteq> 46) s)))"

definition formatSingle :: "js_number \<Rightarrow> jstring" where
  "formatSingle x =
     (let formatted = to_precision 7 (js_fround x) in
      if 101 \<notin> set formatted then trim_fraction formatted
      else trim_fraction (takeWhile (\<lambda>u. u \<noteq> 101) formatted) @ dropWhile (\<lambda>u. u \<noteq> 101) formatted)"

section \<open>Rows\<close>

definition normalizeBlockValues :: "jstring list \<Rightarrow> jstring list" where
  "normalizeBlockValues row = row @ replicate (38 - length row) [48]"

definition normalizeRow :: "jstring list \<Rightarrow> nat \<Rightarrow> jstring list" where
  "normalizeRow row n = take n row @ replicate (n - length row) [48]"

text \<open>\<open>split(/\r?\n/)\<close>\<close>

fun split_lines :: "jstring \<Rightarrow> jstring list" where
  "split_lines [] = [[]]"
| "split_lines (u # us) =
     (if u = 10 then [] # split_lines us
      else if u = 13 \<and> starts_with [10] us then [] # split_lines (drop 1 us)
      else (case split_lines us of l # ls \<Rightarrow> (u # l) # ls | [] \<Rightarrow> [[u]]))"

record csv_content =
  csv_first :: "jstring list"
  csv_camera :: "jstring list"
  csv_validation :: "jstring list"
  csv_block_lines :: "jstring list"

definition row_at :: "jstring list \<Rightarrow> nat \<Rightarrow> jstring list" where
  "row_at lines i = split_commas (if i < length lines then lines ! i else [])"

definition parseCsvContent :: "jstring \<Rightarrow> csv_content" where
  "parseCsvContent content =
     (let lines = split_lines content; rawValidation = row_at lines 2;
          validationIsBlock = (10 \<le> length rawValidation) in
      \<lparr>csv_first = normalizeRow (row_at lines 0) 3, csv_camera = normalizeRow (row_at lines 1) 8,
       csv_validation = (if validationIsBlock then replicate 6 [48] else normalizeRow rawValidation 6),
       csv_block_lines = (if validationIsBlock then drop 2 lines else drop 3 lines)\<rparr>)"

definition blockText :: "parsed_csv_block \<Rightarrow> jstring" where
  "blockText b =
     lit ''Id: '' @ number_to_string (block_id b)
     @ lit '', Position: '' @ vectorText (raw_position b)
     @ lit '', Euler: '' @ vectorText (raw_euler b)
     @ lit '', Scale: '' @ vectorText (raw_scale b)
     @ lit '', Paints: '' @ joined (lit '', '') (map number_to_string (block_paints b))
     @ lit '', Options: '' @ joined (lit '', '') (map formatSingle (block_options b))"

text \<open>The sort by \<open>compareBlocks\<close>, which keeps the order of blocks that compare as equal.\<close>

fun insert_block :: "parsed_csv_block \<Rightarrow> parsed_csv_block list \<Rightarrow> parsed_csv_block list" where
  "insert_block b [] = [b]"
| "insert_block b (c # cs) = (if compareBlocks b c \<le> 0 then b # c # cs else c # insert_block b cs)"

definition sort_blocks :: "parsed_csv_block list \<Rightarrow> parsed_csv_block list" where
  "sort_blocks blocks = foldr insert_block blocks []"

definition kept_blocks :: "parsed_csv_block list \<Rightarrow> parsed_csv_block list" where
  "kept_blocks blocks = filter (\<lambda>b. \<not> js_eq (block_id b) (js_of_nat present_block_id)) blocks"

definition canonicalCsvContent :: "js_number \<Rightarrow> js_number \<Rightarrow> parsed_csv_block list \<Rightarrow> jstring" where
  "canonicalCsvContent skybox ground blocks =
     joined [13, 10]
       (number_to_string skybox # number_to_string ground # map blockText (sort_blocks (kept_blocks blocks)) @ [[]])"

definition calculateHash :: "(byte list \<Rightarrow> byte list) \<Rightarrow> js_number \<Rightarrow> js_number \<Rightarrow> parsed_csv_block list \<Rightarrow> jstring" where
  "calculateHash sha1 skybox ground blocks = hex_text (sha1 (text_encode (canonicalCsvContent skybox ground blocks)))"

section \<open>Reading blocks\<close>

definition paint_value :: "js_number \<Rightarrow> jstring \<Rightarrow> js_number" where
  "paint_value i s =
     (let parsed = numberOrDefault (Some (JString s)) 0 in
      if js_eq i (js_of_nat 2279) then js_trunc (js_fround parsed) else js_trunc parsed)"

text \<open>The block of a row, with the texts of its vectors.\<close>

definition csv_row_block :: "jstring list \<Rightarrow> jstring list \<Rightarrow> jstring list \<Rightarrow> jstring list \<Rightarrow> parsed_csv_block" where
  "csv_row_block row rawPosition rawEuler rawScale =
     (let i = integerOrDefault (cell row 0) 0 in
      \<lparr>block_euler = safeVector row 4, block_id = i,
       block_options = map (\<lambda>s. js_fround (numberOrDefault (Some (JString s)) 0)) (drop 27 row),
       block_paints = map (paint_value i) (take 17 (drop 10 row)),
       block_position = safeVector row 1, block_scale = safeVector row 7,
       raw_euler = rawEuler, raw_position = rawPosition, raw_scale = rawScale\<rparr>)"

definition hash_block :: "nat \<Rightarrow> jstring \<Rightarrow> js_error + parsed_csv_block" where
  "hash_block maxLength line =
     (let row = normalizeBlockValues (split_commas line);
          raw = (\<lambda>offset. res_list (map (formatDecimal maxLength) (take 3 (drop offset row)))) in
      res_bind (raw 1) (\<lambda>p. res_bind (raw 4) (\<lambda>e. res_map (csv_row_block row p e) (raw 7))))"

definition block_lines :: "jstring list \<Rightarrow> jstring list" where
  "block_lines lines = filter (\<lambda>line. trim line \<noteq> []) lines"

definition parseCsvBlocksForHash :: "nat \<Rightarrow> jstring list \<Rightarrow> js_error + parsed_csv_block list" where
  "parseCsvBlocksForHash maxLength lines = res_list (map (hash_block maxLength) (block_lines lines))"

definition validation_number :: "csv_content \<Rightarrow> nat \<Rightarrow> js_number" where
  "validation_number c i = integerOrDefault (cell (csv_validation c) i) 0"

definition calculateCsvLevelXxHash :: "nat \<Rightarrow> (byte list \<Rightarrow> byte list) \<Rightarrow> jstring \<Rightarrow> js_error + jstring" where
  "calculateCsvLevelXxHash maxLength xxhash content =
     (let c = parseCsvContent content in
      res_map (\<lambda>blocks. xxHash128Hex xxhash (canonicalCsvContent (validation_number c 4) (validation_number c 5) blocks))
        (parseCsvBlocksForHash maxLength (csv_block_lines c)))"

definition calculateCsvLegacyHash :: "nat \<Rightarrow> (byte list \<Rightarrow> byte list) \<Rightarrow> jstring \<Rightarrow> js_error + jstring" where
  "calculateCsvLegacyHash maxLength sha1 content =
     (let c = parseCsvContent content in
      res_map (calculateHash sha1 (validation_number c 4) (validation_number c 5))
        (parseCsvBlocksForHash maxLength (csv_block_lines c)))"

definition metadata_block :: "jstring \<Rightarrow> parsed_csv_block" where
  "metadata_block line =
     (let row = normalizeBlockValues (split_commas line);
          raw = (\<lambda>offset. map (\<lambda>s. number_to_string (numberOrDefault (Some (JString s)) 0)) (take 3 (drop offset row))) in
      csv_row_block row (raw 1) (raw 4) (raw 7))"

definition parseCsvBlocksForMetadata :: "jstring list \<Rightarrow> parsed_csv_block list" where
  "parseCsvBlocksForMetadata lines = map metadata_block (block_lines lines)"

section \<open>The level\<close>

definition first_cell :: "csv_content \<Rightarrow> nat \<Rightarrow> jstring" where
  "first_cell c i = (if i < length (csv_first c) then csv_first c ! i else [])"

definition is_active_option :: "csv_block \<Rightarrow> bool" where
  "is_active_option b \<longleftrightarrow>
     \<not> js_lt (if 5 < length (block_options b) then block_options b ! 5 else 0) (string_to_number (lit ''0.5''))"

text \<open>The reads of the camera row have no effect.\<close>

definition parseCsvLevel :: "nat \<Rightarrow> (byte list \<Rightarrow> byte list) \<Rightarrow> jstring \<Rightarrow> bool \<Rightarrow> int \<Rightarrow> parsed_level" where
  "parseCsvLevel maxLength sha1 content adventure authorId =
     (let c = parseCsvContent content; uid = first_cell c 2;
          time = (\<lambda>i. medalTime (cell (csv_validation c) i));
          skybox = validation_number c 4; ground = validation_number c 5;
          blocks = map csv_block.truncate (parseCsvBlocksForMetadata (csv_block_lines c));
          metadataBlocks = map (\<lambda>b. (block_id b, is_active_option b)) blocks;
          zeepHash = (if adventure then uid
            else case calculateCsvLegacyHash maxLength sha1 content of Inr h \<Rightarrow> h | Inl e \<Rightarrow> uid) in
      \<lparr>level_fmt = Format_Csv, level_hash = JString zeepHash, level_uid = JString uid, author_id = authorId,
       file_author = JString (first_cell c 1),
       time_author = time 0, time_gold = time 1, time_silver = time 2, time_bronze = time 3,
       amount_checkpoints = countCheckpoints metadataBlocks, amount_finishes = countFinishes (map fst metadataBlocks),
       amount_blocks = length blocks, type_ground = ground, type_skybox = skybox,
       level_blocks = Csv_Blocks blocks,
       environment = JObject [(lit ''skybox'', JNumber skybox), (lit ''groundMat'', JNumber ground)]\<rparr>)"

definition parseCsvLevelV2 :: "nat \<Rightarrow> (byte list \<Rightarrow> byte list) \<Rightarrow> (byte list \<Rightarrow> byte list) \<Rightarrow> jstring \<Rightarrow> bool \<Rightarrow> int
    \<Rightarrow> js_error + parsed_level_v2" where
  "parseCsvLevelV2 maxLength sha1 xxhash content adventure authorId =
     res_map (level_v2 (parseCsvLevel maxLength sha1 content adventure authorId))
       (calculateCsvLevelXxHash maxLength xxhash content)"

section \<open>Either format\<close>

definition is_json_text :: "jstring \<Rightarrow> bool" where
  "is_json_text s \<longleftrightarrow> starts_with [123] (trim_start s)"

definition parseLevel :: "nat \<Rightarrow> (byte list \<Rightarrow> byte list) \<Rightarrow> jstring \<Rightarrow> bool \<Rightarrow> int \<Rightarrow> js_error + parsed_level" where
  "parseLevel maxLength sha1 content adventure workshopAuthorId =
     (let normalized = strip_bom_char content in
      if is_json_text normalized then parseJsonLevel normalized adventure
      else Inr (parseCsvLevel maxLength sha1 normalized adventure workshopAuthorId))"

definition parseLevelV2 :: "nat \<Rightarrow> (byte list \<Rightarrow> byte list) \<Rightarrow> (byte list \<Rightarrow> byte list) \<Rightarrow> jstring \<Rightarrow> bool \<Rightarrow> int
    \<Rightarrow> js_error + parsed_level_v2" where
  "parseLevelV2 maxLength sha1 xxhash content adventure workshopAuthorId =
     (let normalized = strip_bom_char content in
      if is_json_text normalized then parseJsonLevelV2 xxhash normalized adventure
      else parseCsvLevelV2 maxLength sha1 xxhash normalized adventure workshopAuthorId)"

end
