(* ===== verification/Level_Groups.thy ===== *)
theory Level_Groups
  imports Level_Metadata
begin

text \<open>
  The checkpoint groups that \<open>countJsonCheckpointGroups\<close> counts are connected components: \<open>flood\<close> visits
  what is reachable from its stack, links are symmetric, and \<open>count_groups\<close> counts each component with an
  active member once.
\<close>

section \<open>Maps as lists\<close>

lemma map_of_put_key [simp]: "map_of (put_key k v kvs) = (map_of kvs)(k \<mapsto> v)"
  by (induction k v kvs rule: put_key.induct) (auto simp: fun_eq_iff)

lemma put_key_keys [simp]: "fst ` set (put_key k v kvs) = insert k (fst ` set kvs)"
  by (induction k v kvs rule: put_key.induct) auto

lemma put_key_distinct [simp]: "distinct (map fst (put_key k v kvs)) \<longleftrightarrow> distinct (map fst kvs)"
proof (induction k v kvs rule: put_key.induct)
  case (2 k v k' v' kvs)
  then show ?case
    by (cases "k = k'") auto
qed simp

section \<open>Reachability\<close>

definition adjacent :: "checkpoint_edges \<Rightarrow> (jstring \<times> jstring) set" where
  "adjacent edges = {(u, v). v \<in> set (targets_of edges u)}"

definition group_of :: "checkpoint_edges \<Rightarrow> jstring \<Rightarrow> jstring set" where
  "group_of edges u = (adjacent edges)\<^sup>* `` {u}"

definition node_active :: "checkpoint_nodes \<Rightarrow> jstring \<Rightarrow> bool" where
  "node_active nodes u = (case map_of nodes u of Some (b, a) \<Rightarrow> a | None \<Rightarrow> False)"

definition closed_under :: "checkpoint_edges \<Rightarrow> jstring set \<Rightarrow> bool" where
  "closed_under edges V \<longleftrightarrow> (\<forall>u\<in>V. set (targets_of edges u) \<subseteq> V)"

lemma group_of_refl [simp]: "u \<in> group_of edges u"
  by (simp add: group_of_def)

lemma closed_group: "closed_under edges V \<Longrightarrow> u \<in> V \<Longrightarrow> group_of edges u \<subseteq> V"
proof
  fix v
  assume c: "closed_under edges V" "u \<in> V" and "v \<in> group_of edges u"
  then have "(u, v) \<in> (adjacent edges)\<^sup>*"
    by (simp add: group_of_def)
  then show "v \<in> V"
    using c by (induction rule: rtrancl_induct) (auto simp: closed_under_def adjacent_def)
qed

lemma group_closed: "closed_under edges (group_of edges u)"
  by (auto simp: closed_under_def group_of_def adjacent_def intro: rtrancl_into_rtrancl)

lemma group_step: "v \<in> set (targets_of edges u) \<Longrightarrow> group_of edges v \<subseteq> group_of edges u"
  by (auto simp: group_of_def adjacent_def intro: converse_rtrancl_into_rtrancl)

lemma group_eq:
  assumes "sym (adjacent edges)" "v \<in> group_of edges u"
  shows "group_of edges v = group_of edges u"
proof -
  have uv: "(u, v) \<in> (adjacent edges)\<^sup>*"
    using assms(2) by (simp add: group_of_def)
  then have "(v, u) \<in> (adjacent edges)\<^sup>*"
    using assms(1) by (meson sym_rtrancl symD)
  with uv show ?thesis
    by (auto simp: group_of_def intro: rtrancl_trans)
qed

lemma flood_spec:
  assumes "\<forall>u\<in>set visited. set (targets_of edges u) \<subseteq> set visited \<union> set pending"
    and "flood nodes edges pending visited active = (visited', active')"
  shows "closed_under edges (set visited') \<and> set visited \<union> set pending \<subseteq> set visited'
    \<and> set visited' \<subseteq> set visited \<union> (\<Union>u\<in>set pending. group_of edges u)
    \<and> (active' \<longleftrightarrow> active \<or> (\<exists>v\<in>set visited' - set visited. node_active nodes v))"
  using assms
proof (induction nodes edges pending visited active rule: flood.induct)
  case (1 nodes edges visited active)
  then show ?case
    by (simp add: flood.simps closed_under_def)
next
  case (2 nodes edges current pending visited active)
  show ?case
  proof (cases "current \<in> set visited")
    case True
    with "2.prems" have "closed_under edges (set visited') \<and> set visited \<union> set pending \<subseteq> set visited'
        \<and> set visited' \<subseteq> set visited \<union> (\<Union>u\<in>set pending. group_of edges u)
        \<and> (active' \<longleftrightarrow> active \<or> (\<exists>v\<in>set visited' - set visited. node_active nodes v))"
      by (intro "2.IH"(1)) (auto simp: flood.simps insert_absorb)
    with True show ?thesis
      by auto
  next
    case False
    let ?p = "rev (targets_of edges current) @ pending"
    have "flood nodes edges ?p (current # visited) (active \<or> node_active nodes current) = (visited', active')"
      using "2.prems"(2) False by (simp add: flood.simps node_active_def)
    moreover have "\<forall>u\<in>set (current # visited). set (targets_of edges u) \<subseteq> set (current # visited) \<union> set ?p"
      using "2.prems"(1) by auto
    ultimately have "closed_under edges (set visited') \<and> set (current # visited) \<union> set ?p \<subseteq> set visited'
        \<and> set visited' \<subseteq> set (current # visited) \<union> (\<Union>u\<in>set ?p. group_of edges u)
        \<and> (active' \<longleftrightarrow> (active \<or> node_active nodes current)
             \<or> (\<exists>v\<in>set visited' - set (current # visited). node_active nodes v))"
      by (intro "2.IH"(2) [OF False, folded node_active_def])
    then have r: "closed_under edges (set visited')" "set (current # visited) \<union> set ?p \<subseteq> set visited'"
      "set visited' \<subseteq> set (current # visited) \<union> (\<Union>u\<in>set ?p. group_of edges u)"
      "active' \<longleftrightarrow> (active \<or> node_active nodes current)
         \<or> (\<exists>v\<in>set visited' - set (current # visited). node_active nodes v)"
      by blast+
    have mono: "A \<subseteq> V \<union> Y" if "X \<subseteq> Y" "c \<in> Y" "A \<subseteq> insert c V \<union> X" for A V X Y :: "jstring set" and c
      using that by blast
    have "(\<Union>u\<in>set ?p. group_of edges u) \<subseteq> (\<Union>u\<in>set (current # pending). group_of edges u)"
      using group_step [of _ edges current] by auto
    moreover have "current \<in> (\<Union>u\<in>set (current # pending). group_of edges u)"
      using group_of_refl [of current edges] by simp
    ultimately have "set visited' \<subseteq> set visited \<union> (\<Union>u\<in>set (current # pending). group_of edges u)"
      by (rule mono [OF _ _ r(3) [unfolded list.set(2) [of current visited]]])
    moreover have "active' \<longleftrightarrow> active \<or> (\<exists>v\<in>set visited' - set visited. node_active nodes v)"
      using r(2) False unfolding r(4) by auto
    moreover have "set visited \<union> set (current # pending) \<subseteq> set visited'"
      using r(2) by auto
    moreover note r(1)
    ultimately have "closed_under edges (set visited')" "set visited \<union> set (current # pending) \<subseteq> set visited'"
      "set visited' \<subseteq> set visited \<union> (\<Union>u\<in>set (current # pending). group_of edges u)"
      "active' \<longleftrightarrow> active \<or> (\<exists>v\<in>set visited' - set visited. node_active nodes v)"
      by blast+
    then show ?thesis
      by blast
  qed
qed

lemma flood_group:
  assumes "sym (adjacent edges)" "closed_under edges (set visited)" "u \<notin> set visited"
    and "flood nodes edges [u] visited False = (visited', active')"
  shows "set visited' = set visited \<union> group_of edges u \<and> closed_under edges (set visited')
    \<and> (active' \<longleftrightarrow> (\<exists>v\<in>group_of edges u. node_active nodes v))"
proof -
  have spec: "closed_under edges (set visited')" "set visited \<union> {u} \<subseteq> set visited'"
    "set visited' \<subseteq> set visited \<union> group_of edges u"
    "active' \<longleftrightarrow> (\<exists>v\<in>set visited' - set visited. node_active nodes v)"
    using flood_spec [OF _ assms(4)] assms(2) by (auto simp: closed_under_def)
  then have eq: "set visited' = set visited \<union> group_of edges u"
    using closed_group [of edges "set visited'" u] by auto
  have "group_of edges u \<inter> set visited = {}"
  proof (rule ccontr)
    assume "group_of edges u \<inter> set visited \<noteq> {}"
    then obtain v where v: "v \<in> group_of edges u" "v \<in> set visited"
      by auto
    then have "u \<in> group_of edges v"
      using group_eq [OF assms(1), of v u] by simp
    with closed_group [OF assms(2) v(2)] assms(3) show False
      by auto
  qed
  with spec eq show ?thesis
    by auto
qed

text \<open>The groups of some nodes that have an active member.\<close>

definition active_groups :: "checkpoint_nodes \<Rightarrow> checkpoint_edges \<Rightarrow> jstring set \<Rightarrow> jstring set set" where
  "active_groups nodes edges U = {C \<in> group_of edges ` U. \<exists>v\<in>C. node_active nodes v}"

lemma count_groups_spec:
  assumes "sym (adjacent edges)" "closed_under edges (set visited)"
  shows "count_groups nodes edges uids visited n = n + card (active_groups nodes edges (set uids - set visited))"
  using assms(2)
proof (induction uids arbitrary: visited n)
  case Nil
  then show ?case
    by (simp add: active_groups_def)
next
  case (Cons u uids)
  show ?case
  proof (cases "u \<in> set visited")
    case True
    then have "set (u # uids) - set visited = set uids - set visited"
      by auto
    with Cons.IH [OF Cons.prems, of n] True show ?thesis
      by simp
  next
    case False
    obtain visited' active where f: "flood nodes edges [u] visited False = (visited', active)"
      by fastforce
    note spec = flood_group [OF assms(1) Cons.prems False f]
    let ?rest = "active_groups nodes edges (set uids - set visited')"
    have eq: "group_of edges v = group_of edges u" if "v \<in> group_of edges u" for v
      by (rule group_eq [OF assms(1) that])
    have all: "active_groups nodes edges (set (u # uids) - set visited) =
        (if active then insert (group_of edges u) ?rest else ?rest)"
    proof -
      have "group_of edges ` (set (u # uids) - set visited) =
          insert (group_of edges u) (group_of edges ` (set uids - set visited'))"
      proof (intro equalityI subsetI)
        fix C
        assume "C \<in> group_of edges ` (set (u # uids) - set visited)"
        then obtain v where v: "v \<in> set (u # uids)" "v \<notin> set visited" "C = group_of edges v"
          by blast
        show "C \<in> insert (group_of edges u) (group_of edges ` (set uids - set visited'))"
        proof (cases "v \<in> group_of edges u")
          case True
          from eq [OF True] v(3) show ?thesis by blast
        next
          case False
          then have "v \<noteq> u" by auto
          with v False spec show ?thesis by simp
        qed
      next
        fix C
        assume "C \<in> insert (group_of edges u) (group_of edges ` (set uids - set visited'))"
        with spec False show "C \<in> group_of edges ` (set (u # uids) - set visited)"
          by auto
      qed
      note img = this
      have act: "active \<longleftrightarrow> (\<exists>v\<in>group_of edges u. node_active nodes v)"
        using spec by blast
      have "{C \<in> insert G I. P C} = (if P G then insert G {C \<in> I. P C} else {C \<in> I. P C})"
        for G :: "jstring set" and I P
        by auto
      then show ?thesis
        unfolding active_groups_def img act .
    qed
    have "group_of edges u \<notin> ?rest"
    proof
      assume "group_of edges u \<in> ?rest"
      then obtain v where "v \<notin> set visited'" "group_of edges u = group_of edges v"
        by (auto simp: active_groups_def)
      with group_of_refl [of v edges] spec show False
        by auto
    qed
    moreover have "finite ?rest"
      by (simp add: active_groups_def)
    ultimately have "card (active_groups nodes edges (set (u # uids) - set visited)) = (if active then 1 else 0) + card ?rest"
      unfolding all by simp
    moreover have "closed_under edges (set visited')"
      using spec by blast
    note Cons.IH [OF this, of "if active then n + 1 else n"]
    ultimately show ?thesis
      using f False by simp
  qed
qed

section \<open>Links are symmetric\<close>

definition links_ok :: "checkpoint_nodes \<Rightarrow> checkpoint_edges \<Rightarrow> bool" where
  "links_ok nodes edges \<longleftrightarrow> sym (adjacent edges) \<and> adjacent edges \<subseteq> (fst ` set nodes) \<times> (fst ` set nodes)"

lemma targets_of_add_edge:
  "set (targets_of (add_edge a b edges) u) = (if u = a then insert b (set (targets_of edges a)) else set (targets_of edges u))"
  by (auto simp: add_edge_def targets_of_def)

lemma adjacent_add_edge: "adjacent (add_edge a b edges) = insert (a, b) (adjacent edges)"
  by (auto simp: adjacent_def targets_of_add_edge split: if_splits)

lemma add_link_ok:
  assumes "links_ok nodes edges" "uid \<in> fst ` set nodes"
  shows "links_ok nodes (add_link nodes uid data index edges)"
proof -
  have "links_ok nodes (add_edge t uid (add_edge uid t edges))" if "t \<in> fst ` set nodes" for t
    using assms that unfolding links_ok_def adjacent_add_edge by (auto simp: sym_def)
  with assms(1) show ?thesis
    by (auto simp: add_link_def split: option.splits json.splits)
qed

lemma add_links_ok:
  assumes "uid \<in> fst ` set nodes"
  shows "links_ok nodes edges \<Longrightarrow> links_ok nodes (fold (\<lambda>index. add_link nodes uid data index) is edges)"
  by (induction "is" arbitrary: edges) (simp_all add: add_link_ok assms)

lemma collect_edges_ok:
  assumes "links_ok nodes edges" "set rest \<subseteq> set nodes" "collect_edges nodes rest budget edges = Inr edges'"
  shows "links_ok nodes edges'"
  using assms
proof (induction nodes rest budget edges rule: collect_edges.induct)
  case (2 nodes uid block act rest budget edges)
  have uid: "uid \<in> fst ` set nodes"
    using "2.prems"(2) by force
  from "2.prems"(3) obtain x where
    x: "json_to_number (Some (json_or (json_opt (json_opt (json_opt (Some block) ''d'') ''n'') ''id0'') (JNumber 0))) = Inr x"
    by (auto simp: res_bind_Inr_iff Let_def)
  show ?case
  proof (cases "link_count x budget")
    case None
    with "2.prems" x "2.IH"(1) [OF refl None] show ?thesis
      by simp
  next
    case (Some count)
    with "2.prems" x "2.IH"(2) [OF refl Some] add_links_ok [OF uid "2.prems"(1)] show ?thesis
      by simp
  qed
qed simp

lemma collect_nodes_distinct:
  "distinct (map fst nodes) \<Longrightarrow> collect_nodes blocks index nodes = Inr nodes' \<Longrightarrow> distinct (map fst nodes')"
  by (induction blocks index nodes rule: collect_nodes.induct)
    (auto simp: res_bind_Inr_iff Let_def split: if_splits)

text \<open>
  C6: The checkpoint count of a JSON level is the number of connected components, with at least one
  active checkpoint, of the undirected graph whose nodes are the checkpoint blocks and whose edges are the links
  between them; a component is counted once, whichever of its blocks comes first and whether links form cycles.
\<close>

theorem checkpoint_groups_are_components:
  assumes "countJsonCheckpointGroups blocks = Inr n"
  shows "\<exists>nodes edges. collect_nodes blocks 0 [] = Inr nodes \<and> collect_edges nodes nodes 100000 [] = Inr edges
    \<and> distinct (map fst nodes) \<and> links_ok nodes edges
    \<and> n = card {C \<in> group_of edges ` fst ` set nodes. \<exists>v\<in>C. node_active nodes v}"
proof -
  obtain nodes edges where c: "collect_nodes blocks 0 [] = Inr nodes" "collect_edges nodes nodes 100000 [] = Inr edges"
    and n: "n = count_groups nodes edges (map fst nodes) [] 0"
    using assms by (auto simp: countJsonCheckpointGroups_def res_bind_Inr_iff res_map_Inr_iff)
  have "links_ok nodes []"
    by (simp add: links_ok_def adjacent_def targets_of_def sym_def)
  from collect_edges_ok [OF this subset_refl c(2)] have ok: "links_ok nodes edges" .
  then have "n = card (active_groups nodes edges (fst ` set nodes))"
    unfolding n using count_groups_spec [of edges "[]" nodes "map fst nodes" 0]
    by (simp add: links_ok_def closed_under_def)
  moreover have "distinct (map fst nodes)"
    using collect_nodes_distinct [OF _ c(1)] by simp
  ultimately show ?thesis
    using c ok unfolding active_groups_def by blast
qed

text \<open>Two checkpoints, the second linked to the first, are one group.\<close>

definition linked_blocks :: "json list" where
  "linked_blocks =
     [JObject [(lit ''i'', JNumber (js_of_nat 22)), (lit ''u'', JString (lit ''a''))],
      JObject [(lit ''i'', JNumber (js_of_nat 22)), (lit ''u'', JString (lit ''b'')),
        (lit ''d'', JObject [(lit ''n'', JObject [(lit ''id0'', JNumber (js_of_nat 1))]),
          (lit ''t'', JObject [(lit ''id0-0'', JString (lit (''{'' @ [CHR 34] @ ''t'' @ [CHR 34] @ '':'' @ [CHR 34] @ ''a'' @ [CHR 34] @ '',''
            @ [CHR 34] @ ''c'' @ [CHR 34] @ '':0}'')))])])]]"

lemma small_numbers:
  "js_integer (js_of_nat 1) = Some 1" "js_integer 0 = Some 0" "\<not> is_nan (js_of_nat 22)" "\<not> is_nan 0" "js_of_nat 0 = 0"
  by (simp_all add: js_integer_def js_of_nat_def top_bit.simps Let_def is_nan_def f64_exp_def [of 0] f64_mag_def [of 0] f64_man_def [of 0])

lemma linked_blocks_nodes:
  "collect_nodes linked_blocks 0 [] = Inr [(lit ''a'', linked_blocks ! 0, True), (lit ''b'', linked_blocks ! 1, True)]"
  by (simp add: linked_blocks_def json_get_def json_to_number_def has_id_def checkpoint_ids_def js_eq_def small_numbers
      json_opt_def json_opt_key_def lit_def Let_def)

lemmas json_fuel =
  json_value.simps(2) [of "pred_numeral k" for k, folded numeral_eq_Suc]
  json_elements.simps(2) [of "pred_numeral k" for k, folded numeral_eq_Suc]
  json_members.simps(2) [of "pred_numeral k" for k, folded numeral_eq_Suc]

lemma linked_text: "json_parse (lit (''{'' @ [CHR 34] @ ''t'' @ [CHR 34] @ '':'' @ [CHR 34] @ ''a'' @ [CHR 34] @ '',''
            @ [CHR 34] @ ''c'' @ [CHR 34] @ '':0}'')) = Some (JObject [(lit ''t'', JString (lit ''a'')), (lit ''c'', JNumber 0)])"
  by (simp add: json_parse_def lit_def skip_ws_def is_json_space_def json_string.simps number_token_def is_digit_def
      frac_part_def exp_part_def string_to_number_def trim_def trim_start_def is_space_def radix_literal_def split_sign_def
      infinity_text_def decimal_prefix_def decimal_val_def digits_val_def digit_val_def decimal_number_def f64_round_def f64_make_def Let_def json_fuel own_order_def is_index_key_def)

lemma linked_blocks_edges:
  "collect_edges [(lit ''a'', linked_blocks ! 0, True), (lit ''b'', linked_blocks ! 1, True)]
     [(lit ''a'', linked_blocks ! 0, True), (lit ''b'', linked_blocks ! 1, True)] 100000 []
   = Inr [(lit ''b'', [lit ''a'']), (lit ''a'', [lit ''b''])]"
  using linked_text
  by (simp add: linked_blocks_def json_to_number_def json_or_def json_opt_def json_opt_key_def link_count_def small_numbers
      small_numbers(1) [simplified] add_link_def json_is_nat_def js_eq_def add_edge_def targets_of_def lit_def Let_def
      decimal_text_def show_nat.simps)

lemma checkpoint_groups_are_components_witness:
  "countJsonCheckpointGroups linked_blocks = Inr 1
   \<and> card {C \<in> group_of [(lit ''b'', [lit ''a'']), (lit ''a'', [lit ''b''])] ` {lit ''a'', lit ''b''}.
        \<exists>v\<in>C. node_active [(lit ''a'', linked_blocks ! 0, True), (lit ''b'', linked_blocks ! 1, True)] v} = 1"
proof -
  have "lit ''a'' \<noteq> lit ''b''"
    by (simp add: lit_def)
  then have "count_groups [(lit ''a'', linked_blocks ! 0, True), (lit ''b'', linked_blocks ! 1, True)]
      [(lit ''b'', [lit ''a'']), (lit ''a'', [lit ''b''])] [lit ''a'', lit ''b''] [] 0 = 1"
    by (simp add: flood.simps targets_of_def)
  then have c: "countJsonCheckpointGroups linked_blocks = Inr 1"
    by (simp only: countJsonCheckpointGroups_def linked_blocks_nodes res_bind.simps linked_blocks_edges res_map.simps
        list.map fst_conv)
  from checkpoint_groups_are_components [OF this] obtain nodes edges where
    e: "collect_nodes linked_blocks 0 [] = Inr nodes" "collect_edges nodes nodes 100000 [] = Inr edges"
    "1 = card {C \<in> group_of edges ` fst ` set nodes. \<exists>v\<in>C. node_active nodes v}"
    by blast
  from e(1) have n: "nodes = [(lit ''a'', linked_blocks ! 0, True), (lit ''b'', linked_blocks ! 1, True)]"
    unfolding linked_blocks_nodes by (simp only: sum.inject)
  from e(2) have "edges = [(lit ''b'', [lit ''a'']), (lit ''a'', [lit ''b''])]"
    unfolding n linked_blocks_edges by (simp only: sum.inject)
  with e(3) n have "1 = card {C \<in> group_of [(lit ''b'', [lit ''a'']), (lit ''a'', [lit ''b''])] ` {lit ''a'', lit ''b''}.
        \<exists>v\<in>C. node_active [(lit ''a'', linked_blocks ! 0, True), (lit ''b'', linked_blocks ! 1, True)] v}"
    by (simp only: list.set image_insert image_empty fst_conv)
  with c show ?thesis
    by (simp only: simp_thms)
qed

end
