(* ===== verification/Level_Types.thy ===== *)
theory Level_Types
  imports Level_Csv Level_Groups
begin

text \<open>
  What the types of a parsed level promise: the numbers are numbers, of the kind the declarations mean.
\<close>

section \<open>Numbers\<close>

text \<open>A number that truncating does not change, and one that fits a 32-bit float.\<close>

definition is_integral :: "js_number \<Rightarrow> bool" where
  "is_integral x \<longleftrightarrow> \<not> is_nan x \<and> js_trunc x = x"

definition is_single :: "js_number \<Rightarrow> bool" where
  "is_single x \<longleftrightarrow> \<not> is_nan x \<and> js_fround x = x"

lemma top_bit_scale:
  assumes "0 < n" "n < 2 ^ 53"
  shows "top_bit n \<le> 52" "2 ^ 52 \<le> n * 2 ^ (52 - top_bit n)" "n * 2 ^ (52 - top_bit n) < 2 ^ 53"
proof -
  have b: "2 ^ top_bit n \<le> n" "n < 2 ^ Suc (top_bit n)"
    using top_bit_bounds [OF assms(1)] by simp_all
  have "(2::nat) ^ top_bit n < 2 ^ 53"
    using b(1) assms(2) by (rule order.strict_trans1)
  then show t: "top_bit n \<le> 52"
    using power_less_imp_less_exp [of "2::nat" "top_bit n" 53] by simp
  have pow: "(2::nat) ^ top_bit n * 2 ^ (52 - top_bit n) = 2 ^ 52" "(2::nat) ^ Suc (top_bit n) * 2 ^ (52 - top_bit n) = 2 ^ 53"
    using t by (simp_all flip: power_add)
  show "2 ^ 52 \<le> n * 2 ^ (52 - top_bit n)"
    using mult_le_mono1 [OF b(1), of "2 ^ (52 - top_bit n)"] unfolding pow .
  show "n * 2 ^ (52 - top_bit n) < 2 ^ 53"
    using mult_less_mono1 [OF b(2), of "2 ^ (52 - top_bit n)"] unfolding pow by simp
qed

lemma round_div_1 [simp]: "round_div n (Suc 0) = n"
  by (simp add: round_div_def)

lemma f64_round_nat:
  assumes "0 < n" "n < 2 ^ 53" "s < 2"
  shows "f64_round s n 1 = f64_make s (top_bit n + 1023) (n * 2 ^ (52 - top_bit n) - 2 ^ 52)"
proof -
  note t = top_bit_scale [OF assms(1,2)]
  have one: "top_bit 1 = 0"
    by code_simp
  have "scale_up 1 (int (top_bit n)) \<le> scale_up n (- int (top_bit n))"
    using top_bit_bounds [OF assms(1)] by (simp add: scale_up_def)
  then have "ratio_exp n 1 = int (top_bit n)"
    by (simp add: ratio_exp_def one [unfolded One_nat_def])
  then have q: "max (ratio_exp n 1 - 52) (- 1074) = int (top_bit n) - 52"
    using t(1) by simp
  have m: "round_div (scale_up n (- (int (top_bit n) - 52))) (scale_up 1 (int (top_bit n) - 52)) = n * 2 ^ (52 - top_bit n)"
  proof -
    have "nat (52 - int (top_bit n)) = 52 - top_bit n" "nat (int (top_bit n) - 52) = 0"
      using t(1) by simp_all
    then show ?thesis
      by (simp add: scale_up_def)
  qed
  have e: "nat (int (top_bit n) - 52 + 1074) = top_bit n + 1022"
    by simp
  define f where "f = n * 2 ^ (52 - top_bit n) - 2 ^ 52"
  have f: "n * 2 ^ (52 - top_bit n) = 2 ^ 52 + f" "f < 2 ^ 52"
    using t(2,3) by (simp_all add: f_def)
  have sum: "(top_bit n + 1022) * 2 ^ 52 + (2 ^ 52 + f) = (top_bit n + 1023) * 2 ^ 52 + f"
    by simp
  have "(top_bit n + 1023) * 2 ^ 52 \<le> 1075 * 2 ^ 52"
    using t(1) by (intro mult_le_mono1) simp
  then have min: "min (2047 * 2 ^ 52) ((top_bit n + 1023) * 2 ^ 52 + f) = (top_bit n + 1023) * 2 ^ 52 + f"
    using f(2) by simp
  show ?thesis
    using assms(1) unfolding f64_round_def Let_def q m e f(1) sum min f64_make_def by (simp add: f_def add.assoc)
qed

lemma f64_round_nat_trunc:
  assumes "n < 2 ^ 53" "s < 2"
  shows "is_finite (f64_round s n 1) \<and> js_trunc (f64_round s n 1) = f64_round s n 1"
proof (cases "n = 0")
  case True
  have "f64_mag (f64_make s 0 0) = 0"
    using assms(2) unfolding f64_mag_def by (simp add: unat_f64_make)
  with True assms(2) show ?thesis
    by (simp add: f64_round_def js_trunc_def js_int_part_def is_finite_def is_zero_def)
next
  case False
  then have n: "0 < n" by simp
  note t = top_bit_scale [OF n assms(1)]
  let ?x = "f64_round s n 1"
  define f where "f = n * 2 ^ (52 - top_bit n) - 2 ^ 52"
  have f: "2 ^ 52 + f = n * 2 ^ (52 - top_bit n)" "f < 2 ^ 52"
    using t(2,3) by (simp_all add: f_def)
  have x: "?x = f64_make s (top_bit n + 1023) f"
    unfolding f_def by (rule f64_round_nat [OF n assms])
  have fields: "f64_sign ?x = s" "f64_exp ?x = top_bit n + 1023" "f64_man ?x = f"
    unfolding x using assms(2) t(1) f(2) by simp_all
  have fin: "is_finite ?x"
    unfolding is_finite_def fields using t(1) by simp
  have pow: "f64_pow ?x = int (top_bit n) - 52" and sig: "f64_sig ?x = n * 2 ^ (52 - top_bit n)"
    unfolding f64_pow_def f64_sig_def fields f(1) by simp_all
  have "nat (- f64_pow ?x) = 52 - top_bit n"
    unfolding pow using t(1) by simp
  then have "f64_sig ?x div 2 ^ nat (- f64_pow ?x) = n"
    unfolding sig by (simp only:) simp
  then have "js_int_part False ?x = ?x"
    using fin unfolding js_int_part_def fields by simp
  with fin show ?thesis
    by (simp add: js_trunc_def)
qed

lemma f64_sig_less: "f64_sig x < 2 ^ 53"
  using f64_man_less [of x] by (simp add: f64_sig_def)

lemma trunc_finite: "is_finite x \<Longrightarrow> is_finite (js_trunc x) \<and> js_trunc (js_trunc x) = js_trunc x"
proof -
  assume x: "is_finite x"
  consider "0 \<le> f64_pow x \<or> is_zero x" | "f64_pow x < 0" "\<not> is_zero x"
    by linarith
  then show ?thesis
  proof cases
    case 1
    with x show ?thesis
      by (simp add: js_trunc_def js_int_part_def)
  next
    case 2
    let ?n = "f64_sig x div 2 ^ nat (- f64_pow x)"
    have "?n < 2 ^ 53"
      using div_le_dividend f64_sig_less by (rule order.strict_trans1)
    moreover have "js_trunc x = f64_round (f64_sign x) ?n 1"
      using x 2 by (simp add: js_trunc_def js_int_part_def is_finite_def)
    ultimately show ?thesis
      using f64_round_nat_trunc [OF _ f64_sign_less] by simp
  qed
qed

lemma trunc_integral: "is_finite x \<Longrightarrow> is_finite (js_trunc x) \<and> is_integral (js_trunc x)"
  using trunc_finite [of x] is_finite_not_nan by (auto simp: is_integral_def)


lemma trunc_not_nan: "\<not> is_nan x \<Longrightarrow> is_integral (js_trunc x)"
proof (cases "is_finite x")
  case True
  then show ?thesis
    using trunc_integral by blast
next
  case False
  assume "\<not> is_nan x"
  with False f64_exp_less [of x] show ?thesis
    by (simp add: is_integral_def js_trunc_def js_int_part_def is_finite_def canon_def)
qed

lemma is_nan_f64_make: "s < 2 \<Longrightarrow> e < 2048 \<Longrightarrow> m < 2 ^ 52 \<Longrightarrow> is_nan (f64_make s e m) \<longleftrightarrow> e = 2047 \<and> m \<noteq> 0"
  by (simp add: is_nan_def)

lemma f32_to_f64_not_nan:
  assumes "\<not> f32_is_nan w"
  shows "\<not> is_nan (f32_to_f64 w)"
proof -
  note b = f32_bounds [of w]
  consider (inf) "f32_exp w = 255" "f32_man w = 0" | (zero) "f32_exp w = 0" "f32_man w = 0"
    | (sub) "f32_exp w = 0" "0 < f32_man w" | (norm) "0 < f32_exp w" "f32_exp w < 255"
    using assms b by (fastforce simp: f32_is_nan_def)
  then show ?thesis
  proof cases
    case sub
    define k where "k = top_bit (f32_man w)"
    have k: "2 ^ k \<le> f32_man w" "f32_man w < 2 ^ Suc k"
      using top_bit_bounds [of "f32_man w"] sub(2) by (simp_all add: k_def)
    have "(2::nat) ^ k < 2 ^ 23"
      using k(1) b(3) by (rule order.strict_trans1)
    then have k23: "k < 23"
      by (rule power_less_imp_less_exp [rotated]) simp
    have "(f32_man w - 2 ^ k) * 2 ^ (52 - k) < 2 ^ k * 2 ^ (52 - k)"
      using k by simp
    also have "\<dots> = 2 ^ 52"
      using k23 by (simp flip: power_add)
    finally have "(f32_man w - 2 ^ k) * 2 ^ (52 - k) < 2 ^ 52" .
    then show ?thesis
      using sub b k23 unfolding f32_to_f64_def Let_def k_def [symmetric] by (simp add: is_nan_f64_make)
  next
    case norm
    have "f32_man w * 2 ^ 29 < 2 ^ 52"
      using b(3) by simp
    then show ?thesis
      using norm b unfolding f32_to_f64_def Let_def by (simp add: is_nan_f64_make)
  qed (use b in \<open>simp_all add: f32_to_f64_def is_nan_f64_make\<close>)
qed

lemma f32_make_not_nan:
  assumes "s < 2" "mag \<le> 255 * 2 ^ 23"
  shows "\<not> f32_is_nan (f32_make s mag)"
proof -
  have "s * 2 ^ 31 + mag < 2 ^ 32"
    using assms by simp
  then have "unat (f32_make s mag) = s * 2 ^ 31 + mag"
    unfolding f32_make_def by (subst unat_of_nat) (simp add: mod_less)
  then have "f32_mag (f32_make s mag) = mag"
    using assms(2) by (simp add: f32_mag_def)
  moreover have "mag mod 2 ^ 23 = 0" if "mag div 2 ^ 23 = 255"
  proof -
    have "mag = 255 * 2 ^ 23 + mag mod 2 ^ 23"
      using div_mult_mod_eq [of mag "2 ^ 23"] unfolding that by (rule sym)
    with assms(2) show ?thesis
      by simp
  qed
  ultimately show ?thesis
    by (auto simp: f32_is_nan_def f32_exp_def f32_man_def)
qed

lemma f64_to_f32_not_nan: "\<not> is_nan x \<Longrightarrow> \<not> f32_is_nan (f64_to_f32 x)"
  using f32_make_not_nan [OF f64_sign_less [of x], of "min (255 * 2 ^ 23) _"] f32_make_not_nan [OF f64_sign_less [of x], of "255 * 2 ^ 23"]
  unfolding f64_to_f32_def Let_def is_nan_def by simp

lemma fround_single: "\<not> is_nan x \<Longrightarrow> is_single (js_fround x)"
  using f64_to_f32_not_nan [of x] by (simp add: is_single_def js_fround_def f32_roundtrip f32_to_f64_not_nan)

lemma default_finite [simp]: "is_finite (numberOrDefault v 0)"
proof -
  have "is_finite 0"
    by (simp add: is_finite_def f64_exp_def f64_mag_def)
  then show ?thesis
    by (auto simp: numberOrDefault_def Let_def split: option.splits json.splits)
qed

lemma integer_or_default: "is_finite (integerOrDefault v 0) \<and> is_integral (integerOrDefault v 0)"
  by (simp add: integerOrDefault_def trunc_integral)

section \<open>Blocks and counts\<close>

definition vector_ok :: "vector3 \<Rightarrow> bool" where
  "vector_ok v \<longleftrightarrow> is_finite (vec_x v) \<and> is_finite (vec_y v) \<and> is_finite (vec_z v)"

definition csv_block_ok :: "'a csv_block_scheme \<Rightarrow> bool" where
  "csv_block_ok b \<longleftrightarrow>
     is_finite (block_id b) \<and> is_integral (block_id b)
     \<and> vector_ok (block_position b) \<and> vector_ok (block_euler b) \<and> vector_ok (block_scale b)
     \<and> length (block_paints b) = 17 \<and> list_all is_integral (block_paints b)
     \<and> 11 \<le> length (block_options b) \<and> list_all is_single (block_options b)"

lemma paint_integral: "is_integral (paint_value i s)"
  by (simp add: paint_value_def Let_def trunc_integral trunc_not_nan is_finite_not_nan fround_single [unfolded is_single_def])

lemma row_block_ok: "csv_block_ok (csv_row_block (normalizeBlockValues row) p e s)"
  by (auto simp: csv_block_ok_def csv_row_block_def Let_def vector_ok_def safeVector_def integer_or_default
      normalizeBlockValues_def list_all_iff paint_integral fround_single is_finite_not_nan)

lemma truncate_ok [simp]: "csv_block_ok (csv_block.truncate b) = csv_block_ok b"
  by (simp add: csv_block_ok_def csv_block.truncate_def)

lemma countFinishes_le: "countFinishes ids \<le> length ids"
proof -
  have "foldl (\<lambda>acc i. acc + (if has_id finish_ids i then 1 else 0)) c ids \<le> c + length ids" for c
  proof (induction ids arbitrary: c)
    case (Cons i ids)
    show ?case
      using Cons [of "c + (if has_id finish_ids i then 1 else 0)"] by (simp split: if_splits)
  qed simp
  from this [of 0] show ?thesis
    by (simp add: countFinishes_def)
qed

lemma countCheckpoints_le: "countCheckpoints bs \<le> length bs"
proof -
  let ?f = "\<lambda>acc (i, c). if has_id checkpoint_ids i then acc + 1
       else acc + (if has_id alternate_checkpoint_ids i \<and> c then 1 else 0)"
  have "foldl ?f n bs \<le> n + length bs" for n
  proof (induction bs arbitrary: n)
    case (Cons b bs)
    show ?case
      using Cons [of "?f n b"] by (auto split: if_splits prod.splits)
  qed simp
  from this [of 0] show ?thesis
    by (simp add: countCheckpoints_def)
qed

lemma put_key_length: "length (put_key k v kvs) \<le> Suc (length kvs)"
  by (induction k v kvs rule: put_key.induct) auto

lemma collect_nodes_length:
  "collect_nodes bs i nodes = Inr ns \<Longrightarrow> length ns \<le> length nodes + length bs"
proof (induction bs arbitrary: i nodes)
  case (Cons b bs)
  from Cons.prems consider "collect_nodes bs (i + 1) nodes = Inr ns"
    | k v where "collect_nodes bs (i + 1) (put_key k v nodes) = Inr ns"
    by (auto simp: res_bind_Inr_iff Let_def split: if_splits)
  then show ?case
  proof cases
    case 1
    with Cons.IH show ?thesis
      by fastforce
  next
    case 2
    from Cons.IH [OF 2] put_key_length [of k v nodes] show ?thesis
      by simp
  qed
qed simp

lemma count_groups_le: "count_groups nodes edges us visited c \<le> c + length us"
proof (induction us arbitrary: visited c)
  case (Cons u us)
  have "count_groups nodes edges us v (if a then c + 1 else c) \<le> c + length (u # us)" for v a
    using Cons [of v "if a then c + 1 else c"] by (simp split: if_splits)
  moreover have "count_groups nodes edges us visited c \<le> c + length (u # us)"
    using Cons [of visited c] by simp
  ultimately show ?case
    by (simp split: prod.splits)
qed simp

lemma group_count_le:
  assumes "countJsonCheckpointGroups bs = Inr n"
  shows "n \<le> length bs"
proof -
  obtain ns es where ns: "collect_nodes bs 0 [] = Inr ns" and n: "n = count_groups ns es (map fst ns) [] 0"
    using assms by (auto simp: countJsonCheckpointGroups_def res_bind_Inr_iff res_map_Inr_iff)
  have "n \<le> length ns"
    using count_groups_le [of ns es "map fst ns" "[]" 0] by (simp add: n)
  also have "\<dots> \<le> length bs"
    using collect_nodes_length [OF ns] by simp
  finally show ?thesis .
qed

section \<open>The level\<close>

text \<open>The characters of a hash.\<close>

definition is_hex_upper :: "u16 \<Rightarrow> bool" where
  "is_hex_upper u \<longleftrightarrow> is_digit u \<or> (65 \<le> unat u \<and> unat u \<le> 70)"

lemma hex_upper_char: "d < 16 \<Longrightarrow> is_hex_upper (hex_upper d)"
  using unat_u16 [of "48 + d"] unat_u16 [of "55 + d"]
  unfolding is_hex_upper_def is_digit_def hex_upper_def by (simp only: split: if_split) linarith

lemma hex_text_chars: "list_all is_hex_upper (hex_text bs) \<and> length (hex_text bs) = 2 * length bs"
proof (induction bs)
  case (Cons b bs)
  have "unat b < 256"
    using unsigned_less [of b] by simp
  then have "unat b div 16 < 16" "unat b mod 16 < 16"
    by (simp_all add: div_less_iff_less_mult)
  with Cons show ?case
    by (simp add: hex_text_def hex_upper_char)
qed (simp add: hex_text_def)

definition level_typed :: "'a parsed_level_scheme \<Rightarrow> bool" where
  "level_typed l \<longleftrightarrow>
     list_all is_finite [time_author l, time_gold l, time_silver l, time_bronze l, type_ground l, type_skybox l]
     \<and> amount_checkpoints l \<le> amount_blocks l \<and> amount_finishes l \<le> amount_blocks l
     \<and> (case level_blocks l of
          Csv_Blocks bs \<Rightarrow>
            level_fmt l = Format_Csv \<and> amount_blocks l = length bs \<and> list_all csv_block_ok bs
            \<and> is_integral (type_ground l) \<and> is_integral (type_skybox l)
        | Json_Blocks bs \<Rightarrow> level_fmt l = Format_Json \<and> amount_blocks l = length bs \<and> 0 \<le> author_id l)"

lemma csv_level_typed: "level_typed (parseCsvLevel m sha1 content adventure authorId)"
  using countCheckpoints_le countFinishes_le
  by (auto simp: level_typed_def parseCsvLevel_def Let_def medalTime_def validation_number_def integer_or_default
      list_all_iff parseCsvBlocksForMetadata_def metadata_block_def row_block_ok comp_def
      intro: order_trans [OF countCheckpoints_le] order_trans [OF countFinishes_le])

lemma json_level_typed:
  assumes "parseJsonLevel content adventure = Inr l"
  shows "level_typed l"
proof -
  have len: "length xs = length rs" if "res_list rs = Inr xs" for rs :: "(js_error + json option) list" and xs
    using that by (induction rs arbitrary: xs) (auto simp: res_bind_Inr_iff res_map_Inr_iff)
  obtain blocks ids groups where b: "res_list (map (\<lambda>b. json_get (Some b) ''i'') blocks) = Inr ids"
      "countJsonCheckpointGroups blocks = Inr groups" "level_blocks l = Json_Blocks blocks" "level_fmt l = Format_Json"
      "amount_blocks l = length blocks" "amount_checkpoints l = groups" "0 \<le> author_id l"
      "amount_finishes l = countFinishes (map (\<lambda>i. numberOrDefault i 0) ids)"
    and fin: "list_all is_finite [time_author l, time_gold l, time_silver l, time_bronze l, type_ground l, type_skybox l]"
    using assms by (auto simp: parseJsonLevel_def Let_def res_bind_Inr_iff res_map_Inr_iff medalTime_def split: option.splits)
  have "amount_finishes l \<le> length blocks"
    using countFinishes_le [of "map (\<lambda>i. numberOrDefault i 0) ids"] len [OF b(1)] by (simp add: b(8))
  with b group_count_le [OF b(2)] fin show ?thesis
    by (simp add: level_typed_def)
qed

lemma level_v2_fields [simp]:
  "level_fmt (level_v2 l h) = level_fmt l" "author_id (level_v2 l h) = author_id l"
  "time_author (level_v2 l h) = time_author l" "time_gold (level_v2 l h) = time_gold l"
  "time_silver (level_v2 l h) = time_silver l" "time_bronze (level_v2 l h) = time_bronze l"
  "amount_checkpoints (level_v2 l h) = amount_checkpoints l" "amount_finishes (level_v2 l h) = amount_finishes l"
  "amount_blocks (level_v2 l h) = amount_blocks l" "type_ground (level_v2 l h) = type_ground l"
  "type_skybox (level_v2 l h) = type_skybox l" "level_blocks (level_v2 l h) = level_blocks l"
  "level_hash (level_v2 l h) = JString h" "zeep_hash (level_v2 l h) = level_hash l"
  by (simp_all add: level_v2_def)

lemma level_v2_typed: "level_typed (level_v2 l h) = level_typed l"
  by (simp only: level_typed_def level_v2_fields)

lemma csv_hash_text: "calculateCsvLevelXxHash m xxhash c = Inr h \<Longrightarrow> \<exists>b. h = hex_text (xxhash b)"
  by (auto simp: calculateCsvLevelXxHash_def Let_def res_map_Inr_iff xxHash128Hex_def)

lemma json_hash_text: "calculateJsonLevelXxHash xxhash c = Inr h \<Longrightarrow> \<exists>b. h = hex_text (xxhash b)"
proof -
  assume h: "calculateJsonLevelXxHash xxhash c = Inr h"
  then obtain blox where blox: "(case blox of Some (JArray bs) \<Rightarrow> res_map (xxHash128Hex xxhash) (canonicalJsonBlocks bs)
      | _ \<Rightarrow> Inl (Error ''JSON level is missing blox'')) = Inr h"
    unfolding calculateJsonLevelXxHash_def res_bind_Inr_iff by blast
  then obtain bs where "res_map (xxHash128Hex xxhash) (canonicalJsonBlocks bs) = Inr h"
    by (cases blox rule: option.exhaust [case_names None Some]) (simp, rename_tac v, case_tac v, simp_all)
  then show ?thesis
    by (auto simp: res_map_Inr_iff xxHash128Hex_def)
qed

lemma v2_hash:
  assumes "parseLevelV2 m sha1 xxhash content adventure a = Inr l2"
  shows "\<exists>l h. parseLevel m sha1 content adventure a = Inr l \<and> l2 = level_v2 l (hex_text (xxhash h))"
proof (cases "is_json_text (strip_bom_char content)")
  case True
  with assms obtain l h where "parseJsonLevel (strip_bom_char content) adventure = Inr l"
      "calculateJsonLevelXxHash xxhash (strip_bom_char content) = Inr h" "l2 = level_v2 l h"
    by (auto simp: parseLevelV2_def Let_def parseJsonLevelV2_def res_bind_Inr_iff res_map_Inr_iff)
  with True json_hash_text show ?thesis
    by (simp add: parseLevel_def) blast
next
  case False
  with assms obtain h where h: "calculateCsvLevelXxHash m xxhash (strip_bom_char content) = Inr h"
      "l2 = level_v2 (parseCsvLevel m sha1 (strip_bom_char content) adventure a) h"
    by (auto simp: parseLevelV2_def Let_def parseCsvLevelV2_def res_map_Inr_iff)
  from csv_hash_text [OF h(1)] obtain b where "h = hex_text (xxhash b)"
    by blast
  with False h(2) show ?thesis
    by (auto simp: parseLevel_def Let_def)
qed

lemma level_v2_only_adds: "parsed_level.truncate (level_v2 l h) = l\<lparr>level_hash := JString h\<rparr>"
  by (simp add: level_v2_def parsed_level.truncate_def)

text \<open>
  C26: Whatever the text and its format, a parsed level has finite medal times, ground and skybox, counts
  that do not exceed the number of its blocks, and the blocks of its format; the blocks of a CSV level have finite
  integral ids, finite vectors, 17 paints without a fraction and at least 11 options that are 32-bit floats (a paint or
  option beyond the range of a 32-bit float is infinite; none is \<open>NaN\<close>). A level of \<open>parseLevelV2\<close> is the level of
  \<open>parseLevel\<close> with two changes, no other field differs: its hash is the upper-case hexadecimal text of the
  content's digest, and the hash it had is added as \<open>zeepHash\<close>. Nothing is said of the values inside JSON blocks.
\<close>

theorem level_well_typed:
  "(\<forall>l. parseLevel m sha1 content adventure a = Inr l \<longrightarrow> level_typed l)
   \<and> (\<forall>l2. parseLevelV2 m sha1 xxhash content adventure a = Inr l2 \<longrightarrow>
        level_typed l2
        \<and> (\<exists>l h digest. parseLevel m sha1 content adventure a = Inr l \<and> zeep_hash l2 = level_hash l
             \<and> parsed_level.truncate l2 = l\<lparr>level_hash := JString h\<rparr>
             \<and> level_hash l2 = JString h \<and> list_all is_hex_upper h \<and> length h = 2 * length (xxhash digest)))"
proof (intro conjI allI impI)
  have typed: "level_typed l" if "parseLevel m sha1 content adventure a = Inr l" for l
    using that by (auto simp: parseLevel_def Let_def csv_level_typed json_level_typed split: if_splits)
  then show "level_typed l" if "parseLevel m sha1 content adventure a = Inr l" for l
    using that .
  fix l2
  assume "parseLevelV2 m sha1 xxhash content adventure a = Inr l2"
  then obtain l h where l: "parseLevel m sha1 content adventure a = Inr l" "l2 = level_v2 l (hex_text (xxhash h))"
    using v2_hash by blast
  then show "level_typed l2"
    using typed by (simp add: level_v2_typed)
  show "\<exists>l h digest. parseLevel m sha1 content adventure a = Inr l \<and> zeep_hash l2 = level_hash l
      \<and> parsed_level.truncate l2 = l\<lparr>level_hash := JString h\<rparr>
      \<and> level_hash l2 = JString h \<and> list_all is_hex_upper h \<and> length h = 2 * length (xxhash digest)"
    using l hex_text_chars by (fastforce simp: level_v2_only_adds)
qed

definition sample_level :: jstring where
  "sample_level = lit ''me,author,uid'' @ [13, 10] @ lit ''1,2'' @ [10] @ lit ''9.5,10,11,12,3,4'' @ [10] @ lit ''22,1,-2.50,3e2''"

lemma trim_id: "s \<noteq> [] \<Longrightarrow> \<not> is_space (hd s) \<Longrightarrow> \<not> is_space (last s) \<Longrightarrow> trim s = s"
proof -
  assume s: "s \<noteq> []" "\<not> is_space (hd s)" "\<not> is_space (last s)"
  have plain: "dropWhile is_space t = t" if "t \<noteq> []" "\<not> is_space (hd t)" for t
    using that by (cases t) simp_all
  have "trim_start s = s"
    unfolding trim_start_def using s(1,2) by (rule plain)
  moreover have "dropWhile is_space (rev s) = rev s"
    using s(1,3) by (intro plain) (simp_all add: hd_rev)
  ultimately show ?thesis
    by (simp add: trim_def)
qed

lemma not_space: "\<not> is_space 48" "\<not> is_space 49" "\<not> is_space 50" "\<not> is_space 45" "\<not> is_space 51" "\<not> is_space 109"
  by (simp_all add: is_space_def)

lemma sample_decimals:
  "formatDecimal 100 [48] = Inr [48]" "formatDecimal 100 [49] = Inr [49]"
  "formatDecimal 100 [45, 50, 46, 53, 48] = Inr [45, 50, 46, 53, 48]" "formatDecimal 100 [51, 101, 50] = Inr [51, 48, 48]"
proof -
  have t: "trim [48] = [48]" "trim [49] = [49]" "trim [45, 50, 46, 53, 48] = [45, 50, 46, 53, 48]" "trim [51, 101, 50] = [51, 101, 50]"
    by (simp_all add: trim_id not_space)
  have m: "match_decimal [48] = Some (False, [48], [], 0)" "match_decimal [49] = Some (False, [49], [], 0)"
    "match_decimal [45, 50, 46, 53, 48] = Some (True, [50], [53, 48], 0)" "match_decimal [51, 101, 50] = Some (False, [51], [], 2)"
    by code_simp+
  show "formatDecimal 100 [48] = Inr [48]" "formatDecimal 100 [49] = Inr [49]"
    "formatDecimal 100 [45, 50, 46, 53, 48] = Inr [45, 50, 46, 53, 48]" "formatDecimal 100 [51, 101, 50] = Inr [51, 48, 48]"
    unfolding formatDecimal_def t m by code_simp+
qed

lemma sample_hash: "\<exists>h. calculateCsvLevelXxHash 100 (\<lambda>bs. take 16 bs) sample_level = Inr h"
proof -
  have "csv_block_lines (parseCsvContent sample_level) = [lit ''22,1,-2.50,3e2'']"
    by code_simp
  moreover have "block_lines [lit ''22,1,-2.50,3e2''] = [lit ''22,1,-2.50,3e2'']"
    by (simp add: block_lines_def lit_def trim_id not_space)
  moreover have "take 3 (drop 1 row) = [[49], [45, 50, 46, 53, 48], [51, 101, 50]]" "take 3 (drop 4 row) = [[48], [48], [48]]"
      "take 3 (drop 7 row) = [[48], [48], [48]]" if "row = normalizeBlockValues (split_commas (lit ''22,1,-2.50,3e2''))" for row
    unfolding that by code_simp+
  ultimately show ?thesis
    by (simp add: calculateCsvLevelXxHash_def Let_def parseCsvBlocksForHash_def hash_block_def sample_decimals)
qed

lemma level_well_typed_witness:
  "\<exists>l2. parseLevelV2 100 (\<lambda>bs. take 20 bs) (\<lambda>bs. take 16 bs) sample_level False 7 = Inr l2 \<and> level_typed l2
     \<and> level_typed (parseCsvLevel 100 (\<lambda>bs. take 20 bs) sample_level False 7)"
proof -
  have plain: "strip_bom_char sample_level = sample_level" "\<not> is_json_text sample_level"
    by (simp_all add: sample_level_def lit_def strip_bom_char_def is_json_text_def starts_with_def trim_start_def not_space)
  then obtain l2 where l2: "parseLevelV2 100 (\<lambda>bs. take 20 bs) (\<lambda>bs. take 16 bs) sample_level False 7 = Inr l2"
    using sample_hash by (auto simp: parseLevelV2_def parseCsvLevelV2_def)
  have "parseLevel 100 (\<lambda>bs. take 20 bs) sample_level False 7 = Inr (parseCsvLevel 100 (\<lambda>bs. take 20 bs) sample_level False 7)"
    using plain by (simp add: parseLevel_def)
  with l2 level_well_typed [of 100 "\<lambda>bs. take 20 bs" sample_level False 7 "\<lambda>bs. take 16 bs"] show ?thesis
    by blast
qed

end
