(* ===== verification/Level_Csv_Properties.thy ===== *)
theory Level_Csv_Properties
  imports Level_Types "HOL-Library.List_Lexorder" "HOL-Library.Multiset"
begin

text \<open>
  The order of the blocks of a CSV level: the sort of \<open>canonicalCsvContent\<close> is the library's stable sort by a key,
  so its text does not depend on the order in the file, except for blocks that compare as equal but are
  written differently.
\<close>

section \<open>The comparison is the order of a key\<close>

definition vector_key :: "vector3 \<Rightarrow> int list" where
  "vector_key v = [f64_key (vec_x v), f64_key (vec_y v), f64_key (vec_z v)]"

definition block_key :: "parsed_csv_block \<Rightarrow> int list" where
  "block_key b =
     f64_key (block_id b) # vector_key (block_position b) @ vector_key (block_euler b) @ vector_key (block_scale b)
     @ int (length (block_paints b)) # map f64_key (block_paints b)
     @ int (length (block_options b)) # map f64_key (block_options b)"

definition numbers_of :: "parsed_csv_block \<Rightarrow> js_number list" where
  "numbers_of b =
     block_id b # concat (map (\<lambda>v. [vec_x v, vec_y v, vec_z v]) [block_position b, block_euler b, block_scale b])
     @ block_paints b @ block_options b"

definition ordered_block :: "parsed_csv_block \<Rightarrow> bool" where
  "ordered_block b \<longleftrightarrow> (\<forall>x\<in>set (numbers_of b). \<not> is_nan x)"

lemma or_then_number:
  assumes "\<not> is_nan x" "\<not> is_nan y" "k \<le> 0 \<longleftrightarrow> A \<le> B"
  shows "or_then (compareNumber x y) k \<le> 0 \<longleftrightarrow> f64_key x # A \<le> f64_key y # B"
  using assms by (auto simp: or_then_def compareNumber_def js_lt_def)

lemma compare_last: "compareNumber x y = or_then (compareNumber x y) 0"
  by (simp add: or_then_def)

lemma or_then_assoc: "or_then (or_then a b) c = or_then a (or_then b c)"
  by (simp add: or_then_def)

lemma or_then_items:
  assumes "length xs = length ys" "\<forall>x\<in>set xs. \<not> is_nan x" "\<forall>y\<in>set ys. \<not> is_nan y" "k \<le> 0 \<longleftrightarrow> A \<le> B"
  shows "or_then (compare_items xs ys) k \<le> 0 \<longleftrightarrow> map f64_key xs @ A \<le> map f64_key ys @ B"
  using assms
proof (induction xs ys rule: list_induct2)
  case Nil
  then show ?case
    by (simp add: or_then_def)
next
  case (Cons x xs y ys)
  then show ?case
    by (simp add: or_then_assoc or_then_number del: Cons_le_Cons)
qed

lemma or_then_sequence:
  assumes "\<forall>x\<in>set xs. \<not> is_nan x" "\<forall>y\<in>set ys. \<not> is_nan y" "k \<le> 0 \<longleftrightarrow> A \<le> B"
  shows "or_then (compareSequence xs ys) k \<le> 0 \<longleftrightarrow>
    int (length xs) # map f64_key xs @ A \<le> int (length ys) # map f64_key ys @ B"
proof (cases "length xs = length ys")
  case True
  with or_then_items [OF True assms] show ?thesis
    by (simp add: compareSequence_def or_then_def)
next
  case False
  then show ?thesis
    by (auto simp: compareSequence_def or_then_def)
qed

lemma compare_key:
  assumes "ordered_block b" "ordered_block c"
  shows "compareBlocks b c \<le> 0 \<longleftrightarrow> block_key b \<le> block_key c"
proof -
  have seq: "compareSequence xs ys = or_then (compareSequence xs ys) 0" for xs ys
    by (simp add: or_then_def)
  have nn: "\<not> is_nan x" if "x \<in> set (numbers_of b) \<union> set (numbers_of c)" for x
    using assms that by (auto simp: ordered_block_def)
  show ?thesis
    unfolding compareBlocks_def compareVector_def or_then_assoc block_key_def vector_key_def append_Cons append_Nil
    apply (subst (2) seq)
    apply (subst append_Nil2 [of "map f64_key (block_options b)", symmetric])
    apply (subst append_Nil2 [of "map f64_key (block_options c)", symmetric])
    apply (intro or_then_number or_then_sequence)
    using nn by (simp_all add: numbers_of_def)
qed

lemma compare_neg:
  "compareNumber y x = - compareNumber x y" "or_then (- i) (- j) = - or_then i j"
  "compareVector v w = - compareVector w v" "compareSequence ys xs = - compareSequence xs ys"
  "compareBlocks c b = - compareBlocks b c"
proof -
  show number: "compareNumber y x = - compareNumber x y" for x y
    by (auto simp: compareNumber_def js_lt_def)
  show neg_then: "or_then (- i) (- j) = - or_then i j" for i j
    by (simp add: or_then_def)
  show vector: "compareVector v w = - compareVector w v" for v w
    unfolding compareVector_def number [of "vec_x v"] number [of "vec_y v"] number [of "vec_z v"] neg_then ..
  have items: "compare_items ys xs = - compare_items xs ys" if "length xs = length ys" for xs ys
    using that
  proof (induction xs ys rule: list_induct2)
    case (Cons x xs y ys)
    show ?case
      unfolding compare_items.simps list.case Cons.IH number [of y x] neg_then ..
  qed simp
  show sequence: "compareSequence ys xs = - compareSequence xs ys" for xs ys
    using items [of xs ys] by (auto simp: compareSequence_def or_then_def)
  show "compareBlocks c b = - compareBlocks b c"
    unfolding compareBlocks_def number [of "block_id c"] vector [of "block_position c"] vector [of "block_euler c"]
      vector [of "block_scale c"] sequence [of "block_paints c"] sequence [of "block_options c"] neg_then ..
qed

lemma compare_zero:
  assumes "ordered_block b" "ordered_block c"
  shows "compareBlocks b c = 0 \<longleftrightarrow> block_key b = block_key c"
  using compare_key [OF assms] compare_key [OF assms(2,1)] compare_neg(5) [of c b] by auto

lemma csv_block_ordered: "csv_block_ok b \<Longrightarrow> ordered_block b"
  by (auto simp: csv_block_ok_def vector_ok_def ordered_block_def numbers_of_def list_all_iff is_integral_def is_single_def
      is_finite_not_nan)

section \<open>The sort\<close>

lemma sort_blocks_key:
  assumes "\<forall>b\<in>set bs. ordered_block b"
  shows "sort_blocks bs = sort_key block_key bs"
  using assms
proof (induction bs)
  case (Cons b bs)
  have "insert_block b cs = insort_key block_key b cs" if "\<forall>c\<in>set cs. ordered_block c" for cs
    using that Cons.prems by (induction cs) (simp_all add: compare_key)
  with Cons show ?case
    by (simp add: sort_blocks_def)
qed (simp add: sort_blocks_def)

lemma map_sort_key: "map f (sort_key f xs) = sort (map f xs)"
  by (rule properties_for_sort [symmetric]) simp_all

lemma sorted_texts:
  assumes "mset bs = mset cs" "\<forall>b\<in>set bs. ordered_block b"
    and "\<forall>b\<in>set bs. \<forall>c\<in>set bs. compareBlocks b c = 0 \<longrightarrow> f b = f c"
  shows "map f (sort_blocks bs) = map f (sort_blocks cs)"
proof -
  have set: "set cs = set bs"
    using assms(1) by (metis set_mset_mset)
  define g where "g k = f (SOME b. b \<in> set bs \<and> block_key b = k)" for k
  have f: "f b = g (block_key b)" if "b \<in> set bs" for b
  proof -
    have "\<exists>c. c \<in> set bs \<and> block_key c = block_key b"
      using that by blast
    from someI_ex [OF this] that assms(2,3) show ?thesis
      unfolding g_def using compare_zero by metis
  qed
  have "map f (sort_blocks ds) = map g (sort (map block_key ds))" if "set ds = set bs" for ds
    using that assms(2) f by (simp add: sort_blocks_key map_sort_key [symmetric])
  moreover have "sort (map block_key bs) = sort (map block_key cs)"
    using assms(1) by (intro properties_for_sort) simp_all
  ultimately show ?thesis
    using set by simp
qed

text \<open>The two errors of \<open>repeat\<close>: which one a level throws depends on which of its lines comes first.\<close>

definition repeat_error :: "js_error \<Rightarrow> bool" where
  "repeat_error e \<longleftrightarrow> e = RangeError ''Invalid count value'' \<or> e = RangeError ''Invalid string length''"

lemma res_list_cases:
  "res_list rs = (if \<forall>r\<in>set rs. \<exists>x. r = Inr x then Inr (map projr rs)
    else Inl (projl (hd (filter (\<lambda>r. \<exists>e. r = Inl e) rs))))"
proof (induction rs)
  case (Cons r rs)
  then show ?case
    by (cases r) auto
qed simp

lemma res_list_error: "res_list rs = Inl e \<Longrightarrow> Inl e \<in> set rs"
proof (induction rs)
  case (Cons r rs)
  then show ?case
    by (cases r; cases "res_list rs") auto
qed simp

lemma format_error: "formatDecimal m t = Inl e \<Longrightarrow> repeat_error e"
  by (auto simp: formatDecimal_def expand_decimal_def Let_def js_repeat_def repeat_error_def split: option.splits if_splits prod.splits)

lemma hash_block_error: "hash_block m line = Inl e \<Longrightarrow> repeat_error e"
proof -
  assume h: "hash_block m line = Inl e"
  have l: "res_list (map (formatDecimal m) ts) = Inl e' \<Longrightarrow> repeat_error e'" for ts e'
    using format_error by (force dest: res_list_error)
  have bind: "res_bind r f = Inl e' \<longleftrightarrow> r = Inl e' \<or> (\<exists>x. r = Inr x \<and> f x = Inl e')" for r :: "js_error + jstring list" and f :: "jstring list \<Rightarrow> js_error + parsed_csv_block" and e'
    by (cases r) auto
  have map: "res_map f r = Inl e' \<longleftrightarrow> r = Inl e'" for r :: "js_error + jstring list" and f :: "jstring list \<Rightarrow> parsed_csv_block" and e'
    by (cases r) auto
  from h show ?thesis
    unfolding hash_block_def Let_def bind map using l by blast
qed

lemma hash_block_ok: "hash_block m line = Inr b \<Longrightarrow> csv_block_ok b"
  by (auto simp: hash_block_def Let_def res_bind_Inr_iff res_map_Inr_iff row_block_ok)

lemma blocks_for_hash_ok:
  "parseCsvBlocksForHash m ls = Inr bs \<longleftrightarrow>
     (\<forall>l\<in>set (block_lines ls). \<exists>b. hash_block m l = Inr b) \<and> bs = map (\<lambda>l. projr (hash_block m l)) (block_lines ls)"
  unfolding parseCsvBlocksForHash_def by (auto simp: res_list_cases comp_def)

lemma blocks_for_hash_error: "parseCsvBlocksForHash m ls = Inl e \<Longrightarrow> repeat_error e"
  unfolding parseCsvBlocksForHash_def
  by (drule res_list_error) (metis (no_types, lifting) hash_block_error imageE list.set_map)

lemma blocks_for_hash_perm:
  assumes "mset ls = mset ms" "parseCsvBlocksForHash m ls = Inr bs"
  shows "\<exists>cs. parseCsvBlocksForHash m ms = Inr cs \<and> mset bs = mset cs"
proof -
  have b: "mset (block_lines ls) = mset (block_lines ms)"
    using assms(1) by (simp add: block_lines_def)
  then have "set (block_lines ls) = set (block_lines ms)"
    by (metis set_mset_mset)
  with b assms(2) show ?thesis
    unfolding blocks_for_hash_ok by (metis mset_map)
qed

lemma kept_ordered: "parseCsvBlocksForHash m ls = Inr bs \<Longrightarrow> \<forall>b\<in>set (kept_blocks bs). ordered_block b"
proof -
  assume bs: "parseCsvBlocksForHash m ls = Inr bs"
  have "ordered_block b" if "b \<in> set bs" for b
  proof -
    from that bs obtain l where "b = projr (hash_block m l)" "\<exists>c. hash_block m l = Inr c"
      unfolding blocks_for_hash_ok by auto
    then show ?thesis
      using hash_block_ok csv_block_ordered by fastforce
  qed
  then show ?thesis
    by (simp add: kept_blocks_def)
qed

text \<open>
  C14: Two CSV levels with the same validation row and the same block lines in any order have the same
  hashes, the XXH128 one and the SHA-1 one of \<open>parseCsvLevel\<close>: one has a hash exactly when the other has, and then
  the same; when there is none, both throw one of the two errors of \<open>repeat\<close>, not always the same one. This
  holds provided that blocks that compare as equal are written alike (\<open>1.0\<close> and \<open>1.00\<close> are not).
\<close>

theorem csv_order_irrelevant:
  assumes "csv_validation (parseCsvContent c) = csv_validation (parseCsvContent d)"
    and lines: "mset (csv_block_lines (parseCsvContent c)) = mset (csv_block_lines (parseCsvContent d))"
    and alike: "\<forall>bs. parseCsvBlocksForHash m (csv_block_lines (parseCsvContent c)) = Inr bs \<longrightarrow>
      (\<forall>b\<in>set (kept_blocks bs). \<forall>b'\<in>set (kept_blocks bs). compareBlocks b b' = 0 \<longrightarrow> blockText b = blockText b')"
  shows "(case (calculateCsvLevelXxHash m xxhash c, calculateCsvLevelXxHash m xxhash d) of
        (Inr h, Inr h') \<Rightarrow> h = h' | (Inl e, Inl e') \<Rightarrow> repeat_error e \<and> repeat_error e' | _ \<Rightarrow> False)
    \<and> (case (calculateCsvLegacyHash m sha1 c, calculateCsvLegacyHash m sha1 d) of
        (Inr h, Inr h') \<Rightarrow> h = h' | (Inl e, Inl e') \<Rightarrow> repeat_error e \<and> repeat_error e' | _ \<Rightarrow> False)"
proof -
  let ?P = "\<lambda>t. parseCsvBlocksForHash m (csv_block_lines (parseCsvContent t))"
  have v: "validation_number (parseCsvContent c) i = validation_number (parseCsvContent d) i" for i
    using assms(1) by (simp add: validation_number_def)
  have canonical: "canonicalCsvContent x y bs = canonicalCsvContent x y cs"
    if "?P c = Inr bs" "mset bs = mset cs" for x y bs cs
  proof -
    have "mset (kept_blocks bs) = mset (kept_blocks cs)"
      using that(2) by (simp add: kept_blocks_def)
    from sorted_texts [OF this kept_ordered [OF that(1)], of blockText] alike that(1) show ?thesis
      by (simp add: canonicalCsvContent_def)
  qed
  note hashes = calculateCsvLevelXxHash_def calculateCsvLegacyHash_def calculateHash_def Let_def
  show ?thesis
  proof (cases "?P c")
    case (Inl e)
    with blocks_for_hash_perm [OF lines [symmetric], of m] obtain e' where "?P d = Inl e'"
      by (cases "?P d") auto
    with Inl show ?thesis
      using blocks_for_hash_error by (simp add: hashes)
  next
    case (Inr bs)
    with blocks_for_hash_perm [OF lines, of m] obtain cs where "?P d = Inr cs" "mset bs = mset cs"
      by blast
    with Inr canonical [OF Inr] show ?thesis
      by (simp add: hashes v)
  qed
qed

text \<open>Two blocks in either order.\<close>

definition two_blocks :: "string \<Rightarrow> string \<Rightarrow> jstring" where
  "two_blocks a b = lit ''me,author,uid'' @ [10] @ lit ''1,2'' @ [10] @ lit ''9,10,11,12,3,4'' @ [10] @ lit a @ [10] @ lit b"

lemma two_blocks_lines:
  "csv_block_lines (parseCsvContent (two_blocks ''22,1'' ''1,3'')) = [lit ''22,1'', lit ''1,3'']"
  "csv_block_lines (parseCsvContent (two_blocks ''1,3'' ''22,1'')) = [lit ''1,3'', lit ''22,1'']"
  "csv_validation (parseCsvContent (two_blocks ''22,1'' ''1,3'')) = csv_validation (parseCsvContent (two_blocks ''1,3'' ''22,1''))"
  by code_simp+

lemma sample_ids:
  "numberOrDefault (Some (JString (lit ''22''))) 0 = f64_round 0 22 1" "numberOrDefault (Some (JString (lit ''1''))) 0 = f64_round 0 1 1"
  using f64_round_nat_trunc [of 22 0] f64_round_nat_trunc [of 1 0]
  by (simp_all add: numberOrDefault_def Let_def lit_def string_to_number_def trim_id not_space radix_literal_def split_sign_def
      infinity_text_def decimal_prefix_def is_digit_def decimal_val_def digits_val_def digit_val_def decimal_number_def)

lemma sample_row: "normalizeBlockValues (split_commas (lit ''22,1'')) = lit ''22'' # [49] # replicate 36 [48]"
    "normalizeBlockValues (split_commas (lit ''1,3'')) = lit ''1'' # [51] # replicate 36 [48]"
  by code_simp+

lemma sample_block_ids:
  "hash_block m (lit ''22,1'') = Inr b \<Longrightarrow> block_id b = f64_round 0 22 1"
  "hash_block m (lit ''1,3'') = Inr b \<Longrightarrow> block_id b = f64_round 0 1 1"
  using f64_round_nat_trunc [of 22 0] f64_round_nat_trunc [of 1 0]
  unfolding hash_block_def sample_row
  by (auto simp: Let_def res_bind_Inr_iff res_map_Inr_iff csv_row_block_def cell_def integerOrDefault_def sample_ids)

lemma sample_numbers: "compareNumber (f64_round 0 22 1) (f64_round 0 1 1) = 1" "compareNumber (f64_round 0 1 1) (f64_round 0 22 1) = - 1"
  using f64_round_nat [of 22 0] f64_round_nat [of 1 0]
  by (simp_all add: top_bit.simps compareNumber_def js_lt_def is_nan_f64_make f64_key_def f64_mag_def unat_f64_make)

lemma csv_order_irrelevant_witness:
  "\<exists>h l. calculateCsvLevelXxHash 100 (\<lambda>bs. take 16 bs) (two_blocks ''22,1'' ''1,3'') = Inr h
     \<and> calculateCsvLevelXxHash 100 (\<lambda>bs. take 16 bs) (two_blocks ''1,3'' ''22,1'') = Inr h
     \<and> calculateCsvLegacyHash 100 (\<lambda>bs. take 20 bs) (two_blocks ''22,1'' ''1,3'') = Inr l
     \<and> calculateCsvLegacyHash 100 (\<lambda>bs. take 20 bs) (two_blocks ''1,3'' ''22,1'') = Inr l"
proof -
  have b: "block_lines [lit ''22,1'', lit ''1,3''] = [lit ''22,1'', lit ''1,3'']"
    by (simp add: block_lines_def lit_def trim_id not_space)
  have lines: "mset (csv_block_lines (parseCsvContent (two_blocks ''22,1'' ''1,3''))) = mset (csv_block_lines (parseCsvContent (two_blocks ''1,3'' ''22,1'')))"
    by (simp add: two_blocks_lines)
  have alike: "\<forall>bs. parseCsvBlocksForHash 100 (csv_block_lines (parseCsvContent (two_blocks ''22,1'' ''1,3''))) = Inr bs \<longrightarrow>
      (\<forall>b\<in>set (kept_blocks bs). \<forall>b'\<in>set (kept_blocks bs). compareBlocks b b' = 0 \<longrightarrow> blockText b = blockText b')"
    unfolding two_blocks_lines parseCsvBlocksForHash_def b
    using sample_block_ids by (auto simp: res_bind_Inr_iff res_map_Inr_iff kept_blocks_def compareBlocks_def or_then_def sample_numbers [simplified])
  have three: "formatDecimal 100 [51] = Inr [51]"
  proof -
    have t: "trim [51] = [51]"
      by (simp add: trim_id not_space)
    have m: "match_decimal [51] = Some (False, [51], [], 0)"
      by code_simp
    show ?thesis
      unfolding formatDecimal_def t m by code_simp
  qed
  have cells: "take 3 (drop 1 (x # [d] # replicate 36 [48])) = [[d], [48], [48]]"
    "take 3 (drop 4 (x # [d] # replicate 36 [48])) = [[48], [48], [48]]"
    "take 3 (drop 7 (x # [d] # replicate 36 [48])) = [[48], [48], [48]]" for x :: jstring and d
    by (simp_all add: numeral_eq_Suc)
  have "\<exists>b. hash_block 100 (lit ''22,1'') = Inr b" "\<exists>b. hash_block 100 (lit ''1,3'') = Inr b"
    unfolding hash_block_def sample_row Let_def cells by (simp_all add: sample_decimals three)
  then have "\<exists>bs. parseCsvBlocksForHash 100 (csv_block_lines (parseCsvContent (two_blocks ''22,1'' ''1,3''))) = Inr bs"
    unfolding two_blocks_lines blocks_for_hash_ok b by simp
  then obtain h l where "calculateCsvLevelXxHash 100 (\<lambda>bs. take 16 bs) (two_blocks ''22,1'' ''1,3'') = Inr h"
    "calculateCsvLegacyHash 100 (\<lambda>bs. take 20 bs) (two_blocks ''22,1'' ''1,3'') = Inr l"
    by (auto simp: calculateCsvLevelXxHash_def calculateCsvLegacyHash_def Let_def)
  with csv_order_irrelevant [OF two_blocks_lines(3) lines alike, of "\<lambda>bs. take 16 bs" "\<lambda>bs. take 20 bs"] show ?thesis
    by (auto split: sum.splits)
qed

section \<open>Exponents beyond the longest string\<close>

text \<open>
  A coordinate whose zeros do not fit a string makes both hashes throw. \<open>parseCsvLevel\<close> catches that and uses the
  uid as the hash; \<open>parseCsvLevelV2\<close> does not.
\<close>

lemma csv_exponent_overflow:
  assumes "line \<in> set (block_lines (csv_block_lines (parseCsvContent content)))" "hash_block m line = Inl e"
  shows "\<exists>e'. parseCsvLevelV2 m sha1 xxhash content adventure a = Inl e' \<and> repeat_error e'"
    and "level_hash (parseCsvLevel m sha1 content adventure a) = level_uid (parseCsvLevel m sha1 content adventure a)"
proof -
  have "\<not> (\<exists>bs. parseCsvBlocksForHash m (csv_block_lines (parseCsvContent content)) = Inr bs)"
    using assms unfolding blocks_for_hash_ok by force
  then obtain e' where "parseCsvBlocksForHash m (csv_block_lines (parseCsvContent content)) = Inl e'"
    by (metis sum.exhaust)
  then show "\<exists>e'. parseCsvLevelV2 m sha1 xxhash content adventure a = Inl e' \<and> repeat_error e'"
    "level_hash (parseCsvLevel m sha1 content adventure a) = level_uid (parseCsvLevel m sha1 content adventure a)"
    using blocks_for_hash_error
    by (simp_all add: parseCsvLevelV2_def calculateCsvLevelXxHash_def parseCsvLevel_def calculateCsvLegacyHash_def Let_def)
qed

end
