(* ===== verification/Live_Protocol.thy ===== *)
theory Live_Protocol
  imports Level_Metadata Query_Evaluator
begin

text \<open>
  The messages of live queries: \<open>packages/postgraphile/src/liveQueryProtocol.ts\<close>, the preparation of the
  operation they carry (\<open>liveQueryOperation.ts\<close>) and the text that identifies it (\<open>stableJson.ts\<close>).

  A header list has lower-case names, as \<open>Headers\<close> keeps them. \<open>parse\<close>, \<open>validate\<close> and \<open>print\<close> of the GraphQL library,
  the URL of the server's root and \<open>localeCompare\<close> are parameters. The properties of an object are listed in
  the order the language enumerates them.
\<close>

section \<open>JSON texts\<close>

text \<open>\<open>JSON.stringify\<close>\<close>

fun json_text :: "json \<Rightarrow> jstring" where
  "json_text JNull = lit ''null''"
| "json_text (JBool b) = lit (if b then ''true'' else ''false'')"
| "json_text (JNumber x) = json_number x"
| "json_text (JString s) = json_quote s"
| "json_text (JArray xs) = 91 # joined [44] (map json_text xs) @ [93]"
| "json_text (JObject kvs) = 123 # joined [44] (map (\<lambda>(k, v). json_quote k @ 58 # json_text v) kvs) @ [125]"

text \<open>\<open>sort\<close> by a comparator, which keeps the order of entries that compare as equal.\<close>

fun insert_by :: "('a \<Rightarrow> 'a \<Rightarrow> int) \<Rightarrow> 'a \<Rightarrow> 'a list \<Rightarrow> 'a list" where
  "insert_by compare x [] = [x]"
| "insert_by compare x (y # ys) = (if compare x y \<le> 0 then x # y # ys else y # insert_by compare x ys)"

definition sort_by :: "('a \<Rightarrow> 'a \<Rightarrow> int) \<Rightarrow> 'a list \<Rightarrow> 'a list" where
  "sort_by compare xs = foldr (insert_by compare) xs []"

fun sortValue :: "(jstring \<Rightarrow> jstring \<Rightarrow> int) \<Rightarrow> json \<Rightarrow> json" where
  "sortValue locale (JArray xs) = JArray (map (sortValue locale) xs)"
| "sortValue locale (JObject kvs) =
     JObject (own_order (sort_by (\<lambda>a b. locale (fst a) (fst b)) (map (\<lambda>(k, v). (k, sortValue locale v)) kvs)))"
| "sortValue locale v = v"

definition stableStringify :: "(jstring \<Rightarrow> jstring \<Rightarrow> int) \<Rightarrow> json \<Rightarrow> jstring" where
  "stableStringify locale v = json_text (sortValue locale v)"

section \<open>Messages\<close>

record graphql_payload =
  pl_query :: jstring
  pl_variables :: "json option"
  pl_operation :: "jstring option"

datatype websocket_protocol = Graphql_Transport_Ws | Subscriptions_Transport_Ws

text \<open>
  \<open>new TextDecoder().decode\<close>: an ill-formed sequence becomes U+FFFD, and reading goes on with the first byte that
  cannot belong to it. \<open>needed\<close> continuation bytes are missing, the next one from \<open>lo\<close> to \<open>hi\<close>.
\<close>

function lossy_scalars :: "nat \<Rightarrow> nat \<Rightarrow> nat \<Rightarrow> nat \<Rightarrow> byte list \<Rightarrow> nat list" where
  "lossy_scalars needed cp lo hi [] = (if needed = 0 then [] else [65533])"
| "lossy_scalars needed cp lo hi (b # bs) =
     (if needed = 0 then
        (let n = unat b in
         if n < 128 then n # lossy_scalars 0 0 128 191 bs
         else if 194 \<le> n \<and> n \<le> 223 then lossy_scalars 1 (n - 192) 128 191 bs
         else if 224 \<le> n \<and> n \<le> 239 then
           lossy_scalars 2 (n - 224) (if n = 224 then 160 else 128) (if n = 237 then 159 else 191) bs
         else if 240 \<le> n \<and> n \<le> 244 then
           lossy_scalars 3 (n - 240) (if n = 240 then 144 else 128) (if n = 244 then 143 else 191) bs
         else 65533 # lossy_scalars 0 0 128 191 bs)
      else if unat b < lo \<or> hi < unat b then 65533 # lossy_scalars 0 0 128 191 (b # bs)
      else if needed = 1 then (cp * 64 + (unat b - 128)) # lossy_scalars 0 0 128 191 bs
      else lossy_scalars (needed - 1) (cp * 64 + (unat b - 128)) 128 191 bs)"
  by pat_completeness auto
termination
  by (relation "measures [\<lambda>(n, c, l, h, bs). length bs, \<lambda>(n, c, l, h, bs). n]") auto

declare lossy_scalars.simps [simp del]

definition text_decode_lossy :: "byte list \<Rightarrow> jstring" where
  "text_decode_lossy bytes =
     (let cs = lossy_scalars 0 0 128 191 bytes in
      concat (map units (if cs \<noteq> [] \<and> hd cs = 65279 then tl cs else cs)))"

text \<open>What the web socket delivers: a value already parsed, text, bytes, or another value by its \<open>String\<close>.\<close>

datatype raw_message =
    Raw_Object json
  | Raw_Text jstring
  | Raw_Bytes "byte list"
  | Raw_Other jstring

definition is_object :: "json \<Rightarrow> bool" where
  "is_object v = (case v of JObject _ \<Rightarrow> True | JArray _ \<Rightarrow> True | _ \<Rightarrow> False)"

definition parseMessage :: "raw_message \<Rightarrow> json option" where
  "parseMessage rawMessage =
     (case rawMessage of
        Raw_Object v \<Rightarrow> Some v
      | _ \<Rightarrow>
          let message = (case rawMessage of Raw_Text t \<Rightarrow> t | Raw_Bytes bs \<Rightarrow> text_decode_lossy bs | Raw_Other t \<Rightarrow> t) in
          (case json_parse message of Some v \<Rightarrow> if is_object v then Some v else None | None \<Rightarrow> None))"

definition normalizePayload :: "json option \<Rightarrow> graphql_payload option" where
  "normalizePayload payload =
     (case json_opt payload ''query'' of
        Some (JString query) \<Rightarrow>
          Some \<lparr>pl_query = query, pl_variables = json_opt payload ''variables'',
            pl_operation = (case json_opt payload ''operationName'' of Some (JString n) \<Rightarrow> Some n | _ \<Rightarrow> None)\<rparr>
      | _ \<Rightarrow> None)"

record http_request =
  rq_method :: string
  rq_url :: jstring
  rq_headers :: "(jstring \<times> jstring) list"

definition hop_headers :: "jstring set" where
  "hop_headers = set (map lit [''connection'', ''upgrade'', ''sec-websocket-extensions'', ''sec-websocket-key'',
     ''sec-websocket-protocol'', ''sec-websocket-version''])"

definition createExecutionRequest :: "(jstring \<Rightarrow> jstring) \<Rightarrow> http_request \<Rightarrow> http_request" where
  "createExecutionRequest root_url request =
     \<lparr>rq_method = ''POST'', rq_url = root_url (rq_url request),
      rq_headers = filter (\<lambda>h. fst h \<notin> hop_headers)
        (put_key (lit ''content-type'') (lit ''application/json'') (rq_headers request))\<rparr>"

text \<open>\<open>...(id ? { id } : null)\<close>\<close>

definition id_field :: "jstring option \<Rightarrow> (jstring \<times> json) list" where
  "id_field mid = (case mid of Some i \<Rightarrow> if i = [] then [] else [(lit ''id'', JString i)] | None \<Rightarrow> [])"

definition type_message :: "string \<Rightarrow> jstring" where
  "type_message t = json_text (JObject [(lit ''type'', JString (lit t))])"

definition sendProtocolError :: "websocket_protocol \<Rightarrow> jstring option \<Rightarrow> jstring \<Rightarrow> jstring" where
  "sendProtocolError protocol mid message =
     (let body = JObject [(lit ''message'', JString message)] in
      json_text (JObject (id_field mid @
        [(lit ''type'', JString (lit ''error'')),
         (lit ''payload'', if protocol = Subscriptions_Transport_Ws then body else JArray [body])])))"

definition sendSerializedResult :: "websocket_protocol \<Rightarrow> jstring \<Rightarrow> jstring \<Rightarrow> jstring" where
  "sendSerializedResult protocol mid payload =
     123 # json_quote (lit ''id'') @ 58 # json_quote mid @ 44 # json_quote (lit ''type'') @ 58 #
     json_quote (lit (if protocol = Subscriptions_Transport_Ws then ''data'' else ''next'')) @ 44 #
     json_quote (lit ''payload'') @ 58 # payload @ [125]"

definition getRequestedProtocols :: "http_request \<Rightarrow> jstring list" where
  "getRequestedProtocols request =
     filter (\<lambda>p. p \<noteq> []) (map trim (split_commas
       (case map_of (rq_headers request) (lit ''sec-websocket-protocol'') of Some v \<Rightarrow> v | None \<Rightarrow> [])))"

definition resolveProtocol :: "http_request \<Rightarrow> websocket_protocol" where
  "resolveProtocol request =
     (let protocols = getRequestedProtocols request in
      if lit ''graphql-ws'' \<in> set protocols \<or> lit ''subscriptions-transport-ws'' \<in> set protocols
      then Subscriptions_Transport_Ws else Graphql_Transport_Ws)"

definition selectProtocolHeader :: "http_request \<Rightarrow> string option" where
  "selectProtocolHeader request =
     (let protocols = getRequestedProtocols request in
      if lit ''graphql-transport-ws'' \<in> set protocols then Some ''graphql-transport-ws''
      else if lit ''graphql-ws'' \<in> set protocols then Some ''graphql-ws''
      else if lit ''subscriptions-transport-ws'' \<in> set protocols then Some ''subscriptions-transport-ws''
      else None)"

section \<open>Preparing the operation\<close>

text \<open>A definition of a document: an operation with its kind and name, or another one; the rest of the node is opaque.\<close>

datatype 'r live_definition =
    Live_Operation operation_kind "jstring option" 'r
  | Live_Other 'r

record 'r graphql_library =
  gql_parse :: "jstring \<Rightarrow> jstring + 'r live_definition list"
  gql_validate :: "'r live_definition list \<Rightarrow> jstring + jstring list"
  gql_print :: "'r live_definition list \<Rightarrow> jstring"

definition operation_indices :: "'r live_definition list \<Rightarrow> nat list" where
  "operation_indices document =
     filter (\<lambda>i. case document ! i of Live_Operation _ _ _ \<Rightarrow> True | Live_Other _ \<Rightarrow> False) [0..<length document]"

definition operation_name :: "'r live_definition \<Rightarrow> jstring option" where
  "operation_name d = (case d of Live_Operation _ n _ \<Rightarrow> n | Live_Other _ \<Rightarrow> None)"

text \<open>The operation, by its place in the document.\<close>

definition findOperation :: "'r live_definition list \<Rightarrow> jstring option \<Rightarrow> nat option" where
  "findOperation document operationName =
     (case operationName of
        Some n \<Rightarrow> find (\<lambda>i. operation_name (document ! i) = Some n) (operation_indices document)
      | None \<Rightarrow> (case operation_indices document of [i] \<Rightarrow> Some i | _ \<Rightarrow> None))"

definition rewriteSubscriptionAsQuery :: "'r live_definition list \<Rightarrow> nat \<Rightarrow> 'r live_definition list" where
  "rewriteSubscriptionAsQuery document selected =
     map (\<lambda>i. if i \<noteq> selected then document ! i
       else (case document ! i of Live_Operation _ n r \<Rightarrow> Live_Operation Query_Operation n r | d \<Rightarrow> d)) [0..<length document]"

definition is_subscription :: "'r live_definition \<Rightarrow> bool" where
  "is_subscription d = (case d of Live_Operation k _ _ \<Rightarrow> k = Subscription_Operation | Live_Other _ \<Rightarrow> False)"

text \<open>The text of the query, or the error.\<close>

definition prepareLiveQuery :: "'r graphql_library \<Rightarrow> graphql_payload \<Rightarrow> jstring + jstring" where
  "prepareLiveQuery gql payload =
     (case gql_parse gql (pl_query payload) of
        Inl message \<Rightarrow> Inl message
      | Inr document \<Rightarrow>
          (case findOperation document (pl_operation payload) of
             None \<Rightarrow> Inl (lit ''GraphQL operation not found'')
           | Some i \<Rightarrow>
               if \<not> is_subscription (document ! i)
               then Inl (lit ''Live query websocket only accepts subscription operations'')
               else
                 (case gql_validate gql document of
                    Inl message \<Rightarrow> Inl message
                  | Inr (message # _) \<Rightarrow> Inl message
                  | Inr [] \<Rightarrow> Inr (gql_print gql (rewriteSubscriptionAsQuery document i)))))"

text \<open>The key of the shared operation.\<close>

definition operation_key :: "(jstring \<Rightarrow> jstring \<Rightarrow> int) \<Rightarrow> jstring \<Rightarrow> graphql_payload \<Rightarrow> jstring \<Rightarrow> jstring" where
  "operation_key locale executionScopeKey payload query =
     stableStringify locale (JObject
       [(lit ''executionScopeKey'', JString executionScopeKey),
        (lit ''operationName'', case pl_operation payload of Some n \<Rightarrow> JString n | None \<Rightarrow> JNull),
        (lit ''query'', JString query),
        (lit ''variables'', json_or (pl_variables payload) JNull)])"

end
