(* ===== verification/Live_Query.thy ===== *)
theory Live_Query
  imports Live_Protocol
begin

text \<open>
  Live queries over web sockets (\<open>packages/postgraphile/src/liveQueryWebSocket.ts\<close>).

  Connections, subscriptions and shared operations are objects with identity: each has a number, and the state maps
  numbers to records. A shared operation that lost its last subscriber leaves the map of shared operations
  but may still be running, while another one is made for the same key.

  Every \<open>await\<close> ends a step; an event is what the step waits for: the next message of the chain of a connection, the
  answer of the cost evaluator, the prepared operation, the scope key, the result of an execution, the promise
  reactions after it, the debounce timer. \<open>ws.send\<close> and the callbacks of the configuration do not throw and do not
  call back; what they are given is logged in \<open>live_outputs\<close>. \<open>execute\<close> is an async function, so it does
  not throw before it returns its promise. \<open>hash_text\<close> is \<open>Bun.hash\<close>.
\<close>

section \<open>State\<close>

datatype queue_kind = Initial_Run | Rerun

record live_subscription =
  ls_id :: jstring
  ls_initial :: bool
  ls_state :: nat
  ls_shared :: nat

record shared_operation =
  so_key :: jstring
  so_request :: http_request
  so_query :: jstring
  so_variables :: "json option"
  so_name :: "jstring option"
  so_subscribers :: "nat list"
  so_fingerprint :: "nat option"
  so_length :: "nat option"
  so_replay :: "jstring option"
  so_bytes :: nat
  so_running :: bool
  so_queued :: "queue_kind option"
  so_rerun :: bool

text \<open>Where the subscription that a connection is setting up waits.\<close>

datatype subscribe_stage = At_Cost | At_Prepare | At_Scope jstring

record subscribe_task =
  tk_id :: jstring
  tk_payload :: graphql_payload
  tk_replaces :: bool
  tk_stage :: subscribe_stage

text \<open>The link of the message chain that is running: nothing, a subscription, or a link that is done but not yet counted off.\<close>

datatype chain_link = Link_None | Link_Subscribe subscribe_task | Link_Done

record live_socket =
  lc_request :: http_request
  lc_protocol :: websocket_protocol
  lc_operations :: "(jstring \<times> nat) list"
  lc_chain :: "json list"
  lc_link :: chain_link
  lc_pending :: nat
  lc_closed :: bool
  lc_attached :: bool

datatype reject_kind =
    Global_Limit | Connection_Limit | Cost_Limit | Introspection_Rejected | Invalid_Message | Message_Backlog | Result_Size

datatype live_output =
    Sent nat jstring
  | Socket_Closed nat nat string
  | Rejected reject_kind
  | Active_Changed bool
  | Active_Operations int
  | Active_Shared nat
  | Queue_Depth nat
  | Running_Executions int
  | Cached_Bytes int
  | Deduplicated
  | Execution_Finished bool
  | Execution_Started nat
  | Cost_Asked nat graphql_payload

record live_state =
  lv_conns :: "nat \<Rightarrow> live_socket"
  lv_subs :: "nat \<Rightarrow> live_subscription"
  lv_ops :: "nat \<Rightarrow> shared_operation"
  conn_count :: nat
  sub_count :: nat
  op_count :: nat
  shared_operations :: "(jstring \<times> nat) list"
  initial_queue :: "nat list"
  rerun_queue :: "nat list"
  replay_order :: "(jstring \<times> nat) list"
  running_promises :: "(nat \<times> bool) list"
  active_operations :: int
  pending_operations :: int
  running_executions :: int
  live_debounce :: bool
  cached_result_bytes :: int
  live_disposed :: bool
  live_disposing :: bool
  live_outputs :: "live_output list"

record live_config =
  live_prepare :: "graphql_payload \<Rightarrow> jstring + jstring"
  live_root_url :: "jstring \<Rightarrow> jstring"
  live_locale :: "jstring \<Rightarrow> jstring \<Rightarrow> int"
  hash_text :: "jstring \<Rightarrow> nat"
  max_operations :: nat
  max_operations_per_connection :: nat
  max_concurrent_executions :: nat
  max_pending_messages :: nat
  result_cache_max_bytes :: nat
  max_result_bytes :: nat

definition no_request :: http_request where
  "no_request = \<lparr>rq_method = [], rq_url = [], rq_headers = []\<rparr>"

definition no_connection :: live_socket where
  "no_connection = \<lparr>lc_request = no_request, lc_protocol = Graphql_Transport_Ws, lc_operations = [], lc_chain = [],
     lc_link = Link_None, lc_pending = 0, lc_closed = False, lc_attached = False\<rparr>"

definition no_subscription :: live_subscription where
  "no_subscription = \<lparr>ls_id = [], ls_initial = False, ls_state = 0, ls_shared = 0\<rparr>"

definition no_operation :: shared_operation where
  "no_operation = \<lparr>so_key = [], so_request = no_request, so_query = [], so_variables = None, so_name = None,
     so_subscribers = [], so_fingerprint = None, so_length = None, so_replay = None, so_bytes = 0, so_running = False,
     so_queued = None, so_rerun = False\<rparr>"

definition new_live :: live_state where
  "new_live = \<lparr>lv_conns = (\<lambda>_. no_connection), lv_subs = (\<lambda>_. no_subscription), lv_ops = (\<lambda>_. no_operation),
     conn_count = 0, sub_count = 0, op_count = 0, shared_operations = [], initial_queue = [], rerun_queue = [],
     replay_order = [], running_promises = [], active_operations = 0, pending_operations = 0, running_executions = 0,
     live_debounce = False, cached_result_bytes = 0, live_disposed = False,
     live_disposing = False, live_outputs = []\<rparr>"

definition lv_out :: "live_output \<Rightarrow> live_state \<Rightarrow> live_state" where
  "lv_out e s = s\<lparr>live_outputs := live_outputs s @ [e]\<rparr>"

definition on_conn :: "nat \<Rightarrow> (live_socket \<Rightarrow> live_socket) \<Rightarrow> live_state \<Rightarrow> live_state" where
  "on_conn c f s = s\<lparr>lv_conns := (lv_conns s)(c := f (lv_conns s c))\<rparr>"

definition on_sub :: "nat \<Rightarrow> (live_subscription \<Rightarrow> live_subscription) \<Rightarrow> live_state \<Rightarrow> live_state" where
  "on_sub i f s = s\<lparr>lv_subs := (lv_subs s)(i := f (lv_subs s i))\<rparr>"

definition on_op :: "nat \<Rightarrow> (shared_operation \<Rightarrow> shared_operation) \<Rightarrow> live_state \<Rightarrow> live_state" where
  "on_op x f s = s\<lparr>lv_ops := (lv_ops s)(x := f (lv_ops s x))\<rparr>"

text \<open>\<open>Map.delete\<close>\<close>

definition delete_key :: "jstring \<Rightarrow> (jstring \<times> 'v) list \<Rightarrow> (jstring \<times> 'v) list" where
  "delete_key k kvs = filter (\<lambda>e. fst e \<noteq> k) kvs"

definition lv_send :: "nat \<Rightarrow> jstring \<Rightarrow> live_state \<Rightarrow> live_state" where
  "lv_send c frame s = lv_out (Sent c frame) s"

definition lv_error :: "nat \<Rightarrow> jstring option \<Rightarrow> jstring \<Rightarrow> live_state \<Rightarrow> live_state" where
  "lv_error c mid message s = lv_send c (sendProtocolError (lc_protocol (lv_conns s c)) mid message) s"

section \<open>The replay cache\<close>

definition clearReplay :: "nat \<Rightarrow> live_state \<Rightarrow> live_state" where
  "clearReplay x s =
     (let op = lv_ops s x in
      if so_replay op = None then s
      else
        let s1 = s\<lparr>replay_order := delete_key (so_key op) (replay_order s),
              cached_result_bytes := cached_result_bytes s - int (so_bytes op)\<rparr>;
            s2 = on_op x (\<lambda>op. op\<lparr>so_replay := None, so_bytes := 0\<rparr>) s1 in
        lv_out (Cached_Bytes (cached_result_bytes s2)) s2)"

text \<open>The loop that makes room; every round removes an entry, so the fuel is the number of entries.\<close>

fun make_room :: "nat \<Rightarrow> nat \<Rightarrow> nat \<Rightarrow> live_state \<Rightarrow> live_state" where
  "make_room 0 limit bytes s = s"
| "make_room (Suc fuel) limit bytes s =
     (if cached_result_bytes s + int bytes > int limit then
        (case replay_order s of
           [] \<Rightarrow> s
         | (k, oldest) # _ \<Rightarrow> make_room fuel limit bytes (clearReplay oldest s))
      else s)"

definition cacheReplay :: "live_config \<Rightarrow> nat \<Rightarrow> jstring \<Rightarrow> live_state \<Rightarrow> live_state" where
  "cacheReplay cfg x result s =
     (let s1 = clearReplay x s; bytes = length result * 2 in
      if result_cache_max_bytes cfg < bytes then s1
      else
        let s2 = make_room (length (replay_order s1)) (result_cache_max_bytes cfg) bytes s1;
            s3 = on_op x (\<lambda>op. op\<lparr>so_replay := Some result, so_bytes := bytes\<rparr>) s2;
            s4 = s3\<lparr>replay_order := put_key (so_key (lv_ops s3 x)) x (replay_order s3),
              cached_result_bytes := cached_result_bytes s3 + int bytes\<rparr> in
        lv_out (Cached_Bytes (cached_result_bytes s4)) s4)"

section \<open>Operations and their queue\<close>

definition setActiveDelta :: "int \<Rightarrow> live_state \<Rightarrow> live_state" where
  "setActiveDelta delta s =
     (let wasActive = 0 < active_operations s;
          s1 = s\<lparr>active_operations := active_operations s + delta\<rparr>;
          s2 = lv_out (Active_Operations (active_operations s1)) s1;
          isActive = 0 < active_operations s2;
          s3 = (if wasActive \<noteq> isActive then lv_out (Active_Changed isActive) s2 else s2) in
      if \<not> isActive \<and> live_debounce s3 then s3\<lparr>live_debounce := False\<rparr> else s3)"

definition queue_depth :: "live_state \<Rightarrow> nat" where
  "queue_depth s = length (initial_queue s) + length (rerun_queue s)"

definition updateQueueDepth :: "live_state \<Rightarrow> live_state" where
  "updateQueueDepth s = lv_out (Queue_Depth (queue_depth s)) s"

definition removeQueuedOperation :: "nat \<Rightarrow> live_state \<Rightarrow> live_state" where
  "removeQueuedOperation x s =
     (case so_queued (lv_ops s x) of
        None \<Rightarrow> s
      | Some kind \<Rightarrow>
          let s1 = (if kind = Initial_Run then s\<lparr>initial_queue := remove1 x (initial_queue s)\<rparr>
            else s\<lparr>rerun_queue := remove1 x (rerun_queue s)\<rparr>) in
          updateQueueDepth (on_op x (\<lambda>op. op\<lparr>so_queued := None\<rparr>) s1))"

definition drop_shared :: "nat \<Rightarrow> live_state \<Rightarrow> live_state" where
  "drop_shared x s =
     (let s1 = s\<lparr>shared_operations := delete_key (so_key (lv_ops s x)) (shared_operations s)\<rparr>;
          s2 = clearReplay x (removeQueuedOperation x s1);
          s3 = on_op x (\<lambda>op. op\<lparr>so_fingerprint := None, so_length := None\<rparr>) s2 in
      lv_out (Active_Shared (length (shared_operations s3))) s3)"

definition deleteOperation :: "nat \<Rightarrow> jstring \<Rightarrow> live_state \<Rightarrow> live_state" where
  "deleteOperation c mid s =
     (case map_of (lc_operations (lv_conns s c)) mid of
        None \<Rightarrow> s
      | Some i \<Rightarrow>
          let x = ls_shared (lv_subs s i);
              s1 = on_conn c (\<lambda>k. k\<lparr>lc_operations := delete_key mid (lc_operations k)\<rparr>) s;
              s2 = on_op x (\<lambda>op. op\<lparr>so_subscribers := remove1 i (so_subscribers op)\<rparr>) s1;
              s3 = setActiveDelta (- 1) s2 in
          if so_subscribers (lv_ops s3 x) = [] \<and> map_of (shared_operations s3) (so_key (lv_ops s3 x)) = Some x
          then drop_shared x s3 else s3)"

definition nextQueuedOperation :: "live_state \<Rightarrow> (nat \<times> live_state) option" where
  "nextQueuedOperation s =
     (case initial_queue s of
        x # xs \<Rightarrow> Some (x, updateQueueDepth (on_op x (\<lambda>op. op\<lparr>so_queued := None\<rparr>) (s\<lparr>initial_queue := xs\<rparr>)))
      | [] \<Rightarrow>
          (case rerun_queue s of
             x # xs \<Rightarrow> Some (x, updateQueueDepth (on_op x (\<lambda>op. op\<lparr>so_queued := None\<rparr>) (s\<lparr>rerun_queue := xs\<rparr>)))
           | [] \<Rightarrow> None))"

text \<open>The start of an execution; the promise of \<open>executeOperation\<close> is in \<open>running_promises\<close>, with whether it has settled.\<close>

definition start_execution :: "nat \<Rightarrow> live_state \<Rightarrow> live_state" where
  "start_execution x s =
     (let s1 = on_op x (\<lambda>op. op\<lparr>so_running := True\<rparr>) s;
          s2 = s1\<lparr>running_executions := running_executions s1 + 1\<rparr>;
          s3 = lv_out (Execution_Started x) (lv_out (Running_Executions (running_executions s2)) s2) in
      s3\<lparr>running_promises := running_promises s3 @ [(x, False)]\<rparr>)"

definition is_current :: "nat \<Rightarrow> live_state \<Rightarrow> bool" where
  "is_current x s \<longleftrightarrow>
     so_subscribers (lv_ops s x) \<noteq> [] \<and> map_of (shared_operations s) (so_key (lv_ops s x)) = Some x"

lemma next_queued_shorter: "nextQueuedOperation s = Some (x, t) \<Longrightarrow> queue_depth t < queue_depth s"
  by (auto simp: nextQueuedOperation_def queue_depth_def updateQueueDepth_def lv_out_def on_op_def split: list.splits)

lemma start_execution_depth: "queue_depth (start_execution x s) = queue_depth s"
  by (simp add: start_execution_def Let_def queue_depth_def lv_out_def on_op_def)

function pumpQueue :: "live_config \<Rightarrow> live_state \<Rightarrow> live_state" where
  "pumpQueue cfg s =
     (if live_disposed s \<or> int (max_concurrent_executions cfg) \<le> running_executions s then s
      else
        (case nextQueuedOperation s of
           None \<Rightarrow> s
         | Some (x, t) \<Rightarrow> if \<not> is_current x t then pumpQueue cfg t else pumpQueue cfg (start_execution x t)))"
  by pat_completeness auto
termination
  by (relation "measure (\<lambda>(cfg, s). queue_depth s)") (auto simp: start_execution_depth dest: next_queued_shorter)

declare pumpQueue.simps [simp del]

definition enqueue :: "live_config \<Rightarrow> nat \<Rightarrow> queue_kind \<Rightarrow> live_state \<Rightarrow> live_state" where
  "enqueue cfg x kind s =
     (let op = lv_ops s x in
      if live_disposed s \<or> so_subscribers op = [] then s
      else if so_running op then (if kind = Rerun then on_op x (\<lambda>op. op\<lparr>so_rerun := True\<rparr>) s else s)
      else if so_queued op \<noteq> None then s
      else
        let s1 = on_op x (\<lambda>op. op\<lparr>so_queued := Some kind\<rparr>) s;
            s2 = (if kind = Initial_Run then s1\<lparr>initial_queue := initial_queue s1 @ [x]\<rparr>
              else s1\<lparr>rerun_queue := rerun_queue s1 @ [x]\<rparr>) in
        pumpQueue cfg (updateQueueDepth s2))"

section \<open>Executions\<close>

text \<open>\<open>subscriber.state.operations.get(subscriber.id) === subscriber\<close>\<close>

definition is_registered :: "nat \<Rightarrow> live_state \<Rightarrow> bool" where
  "is_registered i s \<longleftrightarrow> map_of (lc_operations (lv_conns s (ls_state (lv_subs s i)))) (ls_id (lv_subs s i)) = Some i"

definition deliver_result :: "bool \<Rightarrow> jstring \<Rightarrow> nat \<Rightarrow> live_state \<Rightarrow> live_state" where
  "deliver_result changed resultKey i s =
     (let sub = lv_subs s i in
      if (changed \<or> ls_initial sub) \<and> is_registered i s then
        on_sub i (\<lambda>sub. sub\<lparr>ls_initial := False\<rparr>)
          (lv_send (ls_state sub) (sendSerializedResult (lc_protocol (lv_conns s (ls_state sub))) (ls_id sub) resultKey) s)
      else s)"

definition reject_result :: "live_config \<Rightarrow> nat \<Rightarrow> live_state \<Rightarrow> live_state" where
  "reject_result cfg i s =
     (let sub = lv_subs s i in
      deleteOperation (ls_state sub) (ls_id sub)
        (lv_error (ls_state sub) (Some (ls_id sub))
          (lit ''Live query result exceeds '' @ decimal_text (max_result_bytes cfg) @ lit '' byte limit'') s))"

definition fail_subscriber :: "jstring \<Rightarrow> nat \<Rightarrow> live_state \<Rightarrow> live_state" where
  "fail_subscriber message i s =
     (let sub = lv_subs s i in
      if is_registered i s then lv_error (ls_state sub) (Some (ls_id sub)) message s else s)"

text \<open>The rest of \<open>executeOperation\<close>, with the result, \<open>None\<close> for undefined, or the message of the error.\<close>

definition execution_result :: "live_config \<Rightarrow> nat \<Rightarrow> json option \<Rightarrow> live_state \<Rightarrow> live_state" where
  "execution_result cfg x result s =
     (let resultKey = (case result of Some v \<Rightarrow> json_text v | None \<Rightarrow> lit ''null'') in
      if max_result_bytes cfg < length (text_encode resultKey) then
        lv_out (Execution_Finished False)
          (fold (reject_result cfg) (so_subscribers (lv_ops s x)) (lv_out (Rejected Result_Size) s))
      else
        let fingerprint = hash_text cfg resultKey; op = lv_ops s x;
            changed = (so_fingerprint op \<noteq> Some fingerprint \<or> so_length op \<noteq> Some (length resultKey)) in
        lv_out (Execution_Finished True)
          (if is_current x s \<and> (changed \<or> (\<exists>i\<in>set (so_subscribers op). ls_initial (lv_subs s i))) then
             let s1 = on_op x (\<lambda>op. op\<lparr>so_fingerprint := Some fingerprint, so_length := Some (length resultKey)\<rparr>) s;
                 s2 = cacheReplay cfg x resultKey s1 in
             fold (deliver_result changed resultKey) (so_subscribers (lv_ops s2 x)) s2
           else s))"

definition execution_error :: "nat \<Rightarrow> jstring \<Rightarrow> live_state \<Rightarrow> live_state" where
  "execution_error x message s =
     lv_out (Execution_Finished False) (fold (fail_subscriber message) (so_subscribers (lv_ops s x)) s)"

definition settle_promise :: "nat \<Rightarrow> live_state \<Rightarrow> live_state" where
  "settle_promise x s = s\<lparr>running_promises := map (\<lambda>p. if fst p = x then (x, True) else p) (running_promises s)\<rparr>"

definition execution_done :: "live_config \<Rightarrow> nat \<Rightarrow> jstring + json option \<Rightarrow> live_state \<Rightarrow> live_state" where
  "execution_done cfg x outcome s =
     (if (x, False) \<notin> set (running_promises s) then s
      else settle_promise x (case outcome of Inl message \<Rightarrow> execution_error x message s
        | Inr result \<Rightarrow> execution_result cfg x result s))"

text \<open>The \<open>finally\<close> of an execution.\<close>

definition execution_finally :: "live_config \<Rightarrow> nat \<Rightarrow> live_state \<Rightarrow> live_state" where
  "execution_finally cfg x s =
     (if (x, True) \<notin> set (running_promises s) then s
      else
        let s1 = s\<lparr>running_promises := filter (\<lambda>p. fst p \<noteq> x) (running_promises s)\<rparr>;
            s2 = on_op x (\<lambda>op. op\<lparr>so_running := False\<rparr>) s1;
            s3 = s2\<lparr>running_executions := running_executions s2 - 1\<rparr>;
            s4 = lv_out (Running_Executions (running_executions s3)) s3;
            again = (so_rerun (lv_ops s4 x) \<and> so_subscribers (lv_ops s4 x) \<noteq> []);
            s5 = on_op x (\<lambda>op. op\<lparr>so_rerun := False\<rparr>) s4;
            s6 = (if again then enqueue cfg x Rerun s5 else s5) in
        if live_disposed s6 then s6 else pumpQueue cfg s6)"

definition rerunAll :: "live_config \<Rightarrow> live_state \<Rightarrow> live_state" where
  "rerunAll cfg s =
     (if \<not> live_debounce s then s
      else fold (\<lambda>e. enqueue cfg (snd e) Rerun) (shared_operations s) (s\<lparr>live_debounce := False\<rparr>))"

definition scheduleRerunAll :: "live_state \<Rightarrow> live_state" where
  "scheduleRerunAll s = (if live_disposed s then s else s\<lparr>live_debounce := True\<rparr>)"

end
