(* ===== verification/Live_Handlers.thy ===== *)
theory Live_Handlers
  imports Live_Query
begin

text \<open>
  The handlers of the live query server and its subscriptions
  (\<open>packages/postgraphile/src/liveQueryWebSocket.ts\<close>), and its runs: \<open>live_step\<close> is one event.
\<close>

section \<open>Subscribing\<close>

definition message_type :: "json \<Rightarrow> json option" where
  "message_type message = json_opt (Some message) ''type''"

definition has_type :: "json \<Rightarrow> string \<Rightarrow> bool" where
  "has_type message t \<longleftrightarrow> message_type message = Some (JString (lit t))"

definition message_id :: "json \<Rightarrow> jstring option" where
  "message_id message = (case json_opt (Some message) ''id'' of Some (JString mid) \<Rightarrow> Some mid | _ \<Rightarrow> None)"

definition link_done :: "nat \<Rightarrow> live_state \<Rightarrow> live_state" where
  "link_done c s = on_conn c (\<lambda>k. k\<lparr>lc_link := Link_Done\<rparr>) s"

text \<open>The \<open>finally\<close> of \<open>subscribe\<close>.\<close>

definition release_pending :: "bool \<Rightarrow> live_state \<Rightarrow> live_state" where
  "release_pending replacesOperation s =
     (if \<not> replacesOperation then s\<lparr>pending_operations := pending_operations s - 1\<rparr> else s)"

definition end_subscribe :: "nat \<Rightarrow> bool \<Rightarrow> live_state \<Rightarrow> live_state" where
  "end_subscribe c replacesOperation s = link_done c (release_pending replacesOperation s)"

definition refuse :: "nat \<Rightarrow> jstring option \<Rightarrow> reject_kind \<Rightarrow> jstring \<Rightarrow> live_state \<Rightarrow> live_state" where
  "refuse c mid reason message s = lv_error c mid message (lv_out (Rejected reason) s)"

text \<open>\<open>subscribe\<close> up to its first \<open>await\<close>.\<close>

definition begin_subscribe :: "live_config \<Rightarrow> nat \<Rightarrow> json \<Rightarrow> live_state \<Rightarrow> live_state" where
  "begin_subscribe cfg c message s =
     (case message_id message of
        None \<Rightarrow> link_done c (refuse c None Invalid_Message (lit ''Subscribe message requires string id'') s)
      | Some mid \<Rightarrow>
          let operations = lc_operations (lv_conns s c); replacesOperation = mid \<in> fst ` set operations in
          if int (max_operations cfg) \<le> active_operations s + pending_operations s \<and> \<not> replacesOperation
          then link_done c (refuse c (Some mid) Global_Limit (lit ''Too many live query operations'') s)
          else if max_operations_per_connection cfg \<le> length operations \<and> \<not> replacesOperation
          then link_done c (refuse c (Some mid) Connection_Limit (lit ''Too many live query operations on this connection'') s)
          else
            let s1 = (if \<not> replacesOperation then s\<lparr>pending_operations := pending_operations s + 1\<rparr> else s) in
            (case normalizePayload (json_opt (Some message) ''payload'') of
               None \<Rightarrow>
                 end_subscribe c replacesOperation
                   (refuse c (Some mid) Invalid_Message (lit ''Subscribe payload requires query'') s1)
             | Some payload \<Rightarrow>
                 lv_out (Cost_Asked c payload)
                   (on_conn c (\<lambda>k. k\<lparr>lc_link := Link_Subscribe \<lparr>tk_id = mid, tk_payload = payload,
                      tk_replaces = replacesOperation, tk_stage = At_Cost\<rparr>\<rparr>) s1)))"

definition next_stage :: "nat \<Rightarrow> subscribe_task \<Rightarrow> subscribe_stage \<Rightarrow> live_state \<Rightarrow> live_state" where
  "next_stage c task stage s = on_conn c (\<lambda>k. k\<lparr>lc_link := Link_Subscribe (task\<lparr>tk_stage := stage\<rparr>)\<rparr>) s"

text \<open>An awaited promise rejects: \<open>finally\<close>, then \<open>handleError\<close> of the message chain.\<close>

definition subscribe_failed :: "nat \<Rightarrow> subscribe_task \<Rightarrow> jstring \<Rightarrow> live_state \<Rightarrow> live_state" where
  "subscribe_failed c task message s =
     (let s1 = end_subscribe c (tk_replaces task) s in
      if \<not> lc_closed (lv_conns s1 c) then lv_error c None message s1 else s1)"

text \<open>The cost of the query arrives; \<open>None\<close> is a configuration without an evaluator.\<close>

definition cost_arrived :: "nat \<Rightarrow> subscribe_task \<Rightarrow> query_cost_result option \<Rightarrow> live_state \<Rightarrow> live_state" where
  "cost_arrived c task queryCost s =
     (if lc_closed (lv_conns s c) then end_subscribe c (tk_replaces task) s
      else
        (case queryCost of
           Some (Cost_Rejected reason cost message details) \<Rightarrow>
             end_subscribe c (tk_replaces task)
               (refuse c (Some (tk_id task)) (if reason = Reject_Cost then Cost_Limit else Invalid_Message)
                 (if details \<noteq> [] then message @ [58, 32] @ details else message) s)
         | Some Cost_Introspection \<Rightarrow>
             end_subscribe c (tk_replaces task)
               (refuse c (Some (tk_id task)) Introspection_Rejected
                 (lit ''Live query websocket does not accept introspection operations'') s)
         | _ \<Rightarrow> next_stage c task At_Prepare s))"

definition prepared :: "live_config \<Rightarrow> nat \<Rightarrow> subscribe_task \<Rightarrow> live_state \<Rightarrow> live_state" where
  "prepared cfg c task s =
     (if lc_closed (lv_conns s c) then end_subscribe c (tk_replaces task) s
      else
        (case live_prepare cfg (tk_payload task) of
           Inl message \<Rightarrow>
             end_subscribe c (tk_replaces task) (refuse c (Some (tk_id task)) Invalid_Message message s)
         | Inr query \<Rightarrow> next_stage c task (At_Scope query) s))"

definition new_shared :: "live_config \<Rightarrow> nat \<Rightarrow> jstring \<Rightarrow> graphql_payload \<Rightarrow> jstring \<Rightarrow> live_state \<Rightarrow> shared_operation" where
  "new_shared cfg c key payload query s =
     \<lparr>so_key = key, so_request = createExecutionRequest (live_root_url cfg) (lc_request (lv_conns s c)), so_query = query,
      so_variables = pl_variables payload, so_name = pl_operation payload, so_subscribers = [], so_fingerprint = None,
      so_length = None, so_replay = None, so_bytes = 0, so_running = False, so_queued = None, so_rerun = False\<rparr>"

text \<open>The shared operation of a key, a new one when there is none.\<close>

definition get_shared :: "live_config \<Rightarrow> nat \<Rightarrow> jstring \<Rightarrow> graphql_payload \<Rightarrow> jstring \<Rightarrow> live_state \<Rightarrow> nat \<times> live_state" where
  "get_shared cfg c key payload query s =
     (case map_of (shared_operations s) key of
        Some x \<Rightarrow> (x, lv_out Deduplicated s)
      | None \<Rightarrow>
          let x = op_count s;
              s1 = (on_op x (\<lambda>_. new_shared cfg c key payload query s) s)\<lparr>op_count := op_count s + 1\<rparr>;
              s2 = s1\<lparr>shared_operations := shared_operations s1 @ [(key, x)]\<rparr> in
          (x, lv_out (Active_Shared (length (shared_operations s2))) s2))"

definition add_subscription :: "nat \<Rightarrow> jstring \<Rightarrow> nat \<Rightarrow> live_state \<Rightarrow> live_state" where
  "add_subscription c mid x s =
     (let i = sub_count s;
          s1 = (on_sub i (\<lambda>_. \<lparr>ls_id = mid, ls_initial = True, ls_state = c, ls_shared = x\<rparr>) s)\<lparr>sub_count := sub_count s + 1\<rparr>;
          s2 = on_conn c (\<lambda>k. k\<lparr>lc_operations := put_key mid i (lc_operations k)\<rparr>) s1;
          s3 = on_op x (\<lambda>op. op\<lparr>so_subscribers := so_subscribers op @ [i]\<rparr>) s2 in
      setActiveDelta 1 s3)"

definition replay_to :: "nat \<Rightarrow> nat \<Rightarrow> nat \<Rightarrow> live_state \<Rightarrow> live_state" where
  "replay_to c i x s =
     (case so_replay (lv_ops s x) of
        None \<Rightarrow> s
      | Some replay \<Rightarrow>
          let s1 = lv_send c (sendSerializedResult (lc_protocol (lv_conns s c)) (ls_id (lv_subs s i)) replay) s;
              s2 = on_sub i (\<lambda>sub. sub\<lparr>ls_initial := False\<rparr>) s1; key = so_key (lv_ops s2 x) in
          s2\<lparr>replay_order := delete_key key (replay_order s2) @ [(key, x)]\<rparr>)"

text \<open>The scope key arrives: the rest of \<open>subscribe\<close>.\<close>

definition complete_subscribe :: "live_config \<Rightarrow> nat \<Rightarrow> subscribe_task \<Rightarrow> jstring \<Rightarrow> jstring option \<Rightarrow> live_state \<Rightarrow> live_state" where
  "complete_subscribe cfg c task query scope s =
     (if lc_closed (lv_conns s c) then end_subscribe c (tk_replaces task) s
      else
        let executionScopeKey = (case scope of Some k \<Rightarrow> k | None \<Rightarrow> lit ''public'');
            key = operation_key (live_locale cfg) executionScopeKey (tk_payload task) query;
            s1 = deleteOperation c (tk_id task) s;
            (x, s2) = get_shared cfg c key (tk_payload task) query s1;
            i = sub_count s2;
            s3 = add_subscription c (tk_id task) x s2;
            s4 = replay_to c i x s3;
            op = lv_ops s4 x;
            s5 = (if \<not> so_running op \<and> so_queued op = None \<and> ls_initial (lv_subs s4 i) then enqueue cfg x Initial_Run s4
              else s4) in
        end_subscribe c (tk_replaces task) s5)"

section \<open>Handlers\<close>

definition live_open :: "http_request \<Rightarrow> live_state \<Rightarrow> live_state" where
  "live_open request s =
     (on_conn (conn_count s) (\<lambda>_. no_connection\<lparr>lc_request := request, lc_protocol := resolveProtocol request,
        lc_attached := True\<rparr>) s)\<lparr>conn_count := conn_count s + 1\<rparr>"

definition is_chained :: "json \<Rightarrow> bool" where
  "is_chained message \<longleftrightarrow>
     has_type message ''subscribe'' \<or> has_type message ''start'' \<or> has_type message ''complete'' \<or> has_type message ''stop''"

text \<open>\<open>handleMessage\<close> of a message of the chain, up to its first \<open>await\<close>.\<close>

definition handle_chained :: "live_config \<Rightarrow> nat \<Rightarrow> json \<Rightarrow> live_state \<Rightarrow> live_state" where
  "handle_chained cfg c message s =
     (if lc_closed (lv_conns s c) then link_done c s
      else if has_type message ''subscribe'' then
        begin_subscribe cfg c message (on_conn c (\<lambda>k. k\<lparr>lc_protocol := Graphql_Transport_Ws\<rparr>) s)
      else if has_type message ''start'' then
        begin_subscribe cfg c message (on_conn c (\<lambda>k. k\<lparr>lc_protocol := Subscriptions_Transport_Ws\<rparr>) s)
      else
        link_done c (case message_id message of Some mid \<Rightarrow> deleteOperation c mid s | None \<Rightarrow> s))"

text \<open>The other messages are answered at once.\<close>

definition handle_plain :: "nat \<Rightarrow> json \<Rightarrow> live_state \<Rightarrow> live_state" where
  "handle_plain c message s =
     (if lc_closed (lv_conns s c) then s
      else if has_type message ''connection_init'' then lv_send c (type_message ''connection_ack'') s
      else if has_type message ''ping'' then lv_send c (type_message ''pong'') s
      else s)"

definition live_message :: "live_config \<Rightarrow> nat \<Rightarrow> raw_message \<Rightarrow> live_state \<Rightarrow> live_state" where
  "live_message cfg c rawMessage s =
     (if \<not> lc_attached (lv_conns s c) then s
      else
        (case parseMessage rawMessage of
           None \<Rightarrow> lv_out (Socket_Closed c 4400 ''Malformed websocket message'') s
         | Some message \<Rightarrow>
             if is_chained message then
               if max_pending_messages cfg \<le> lc_pending (lv_conns s c) then
                 lv_out (Socket_Closed c 4429 ''Too many pending websocket messages'') (lv_out (Rejected Message_Backlog) s)
               else on_conn c (\<lambda>k. k\<lparr>lc_pending := lc_pending k + 1, lc_chain := lc_chain k @ [message]\<rparr>) s
             else handle_plain c message s))"

text \<open>The next link of the chain of a connection runs.\<close>

definition chain_runs :: "live_config \<Rightarrow> nat \<Rightarrow> live_state \<Rightarrow> live_state" where
  "chain_runs cfg c s =
     (case (lc_link (lv_conns s c), lc_chain (lv_conns s c)) of
        (Link_None, message # rest) \<Rightarrow> handle_chained cfg c message (on_conn c (\<lambda>k. k\<lparr>lc_chain := rest\<rparr>) s)
      | _ \<Rightarrow> s)"

definition chain_settles :: "nat \<Rightarrow> live_state \<Rightarrow> live_state" where
  "chain_settles c s =
     (if lc_link (lv_conns s c) = Link_Done
      then on_conn c (\<lambda>k. k\<lparr>lc_link := Link_None, lc_pending := lc_pending k - 1\<rparr>) s else s)"

definition live_close :: "nat \<Rightarrow> live_state \<Rightarrow> live_state" where
  "live_close c s =
     (if \<not> lc_attached (lv_conns s c) then s
      else
        on_conn c (\<lambda>k. k\<lparr>lc_attached := False\<rparr>)
          (fold (deleteOperation c) (map fst (lc_operations (lv_conns s c))) (on_conn c (\<lambda>k. k\<lparr>lc_closed := True\<rparr>) s)))"

definition dispose_subscriber :: "nat \<Rightarrow> live_state \<Rightarrow> live_state" where
  "dispose_subscriber i s =
     (let sub = lv_subs s i in
      deleteOperation (ls_state sub) (ls_id sub) (on_conn (ls_state sub) (\<lambda>k. k\<lparr>lc_closed := True\<rparr>) s))"

definition dispose_operation :: "nat \<Rightarrow> live_state \<Rightarrow> live_state" where
  "dispose_operation x s = fold dispose_subscriber (so_subscribers (lv_ops s x)) s"

definition live_dispose :: "live_state \<Rightarrow> live_state" where
  "live_dispose s =
     (if live_disposed s then s
      else
        let s1 = updateQueueDepth (s\<lparr>live_disposed := True, live_disposing := True, live_debounce := False,
               initial_queue := [], rerun_queue := []\<rparr>) in
        fold dispose_operation (map snd (shared_operations s1)) s1)"

text \<open>The rest of \<open>dispose\<close>, once every running execution has settled.\<close>

definition dispose_settled :: "live_state \<Rightarrow> live_state" where
  "dispose_settled s =
     (if \<not> live_disposing s \<or> (\<exists>p\<in>set (running_promises s). \<not> snd p) then s
      else
        let s1 = fold clearReplay (map snd (shared_operations s)) s in
        lv_out (Cached_Bytes 0) (s1\<lparr>live_disposing := False, shared_operations := [], replay_order := [], cached_result_bytes := 0\<rparr>))"

section \<open>Runs\<close>

datatype live_event =
    Ev_Open http_request
  | Ev_Message nat raw_message
  | Ev_Chain nat
  | Ev_Cost nat "jstring + query_cost_result option"
  | Ev_Prepared nat
  | Ev_Scope nat "jstring + jstring option"
  | Ev_Chain_Settled nat
  | Ev_Result nat "jstring + json option"
  | Ev_Finally nat
  | Ev_Close nat
  | Ev_Invalidate
  | Ev_Debounce
  | Ev_Dispose
  | Ev_Dispose_Settled

definition live_awaited :: "live_config \<Rightarrow> nat \<Rightarrow> live_event \<Rightarrow> live_state \<Rightarrow> live_state" where
  "live_awaited cfg c e s =
     (case lc_link (lv_conns s c) of
        Link_Subscribe task \<Rightarrow>
          (case (tk_stage task, e) of
             (At_Cost, Ev_Cost _ (Inl message)) \<Rightarrow> subscribe_failed c task message s
           | (At_Cost, Ev_Cost _ (Inr queryCost)) \<Rightarrow> cost_arrived c task queryCost s
           | (At_Prepare, Ev_Prepared _) \<Rightarrow> prepared cfg c task s
           | (At_Scope query, Ev_Scope _ (Inl message)) \<Rightarrow> subscribe_failed c task message s
           | (At_Scope query, Ev_Scope _ (Inr scope)) \<Rightarrow> complete_subscribe cfg c task query scope s
           | _ \<Rightarrow> s)
      | _ \<Rightarrow> s)"

fun live_step :: "live_config \<Rightarrow> live_event \<Rightarrow> live_state \<Rightarrow> live_state" where
  "live_step cfg (Ev_Open request) s = live_open request s"
| "live_step cfg (Ev_Message c rawMessage) s = live_message cfg c rawMessage s"
| "live_step cfg (Ev_Chain c) s = chain_runs cfg c s"
| "live_step cfg (Ev_Cost c r) s = live_awaited cfg c (Ev_Cost c r) s"
| "live_step cfg (Ev_Prepared c) s = live_awaited cfg c (Ev_Prepared c) s"
| "live_step cfg (Ev_Scope c r) s = live_awaited cfg c (Ev_Scope c r) s"
| "live_step cfg (Ev_Chain_Settled c) s = chain_settles c s"
| "live_step cfg (Ev_Result x outcome) s = execution_done cfg x outcome s"
| "live_step cfg (Ev_Finally x) s = execution_finally cfg x s"
| "live_step cfg (Ev_Close c) s = live_close c s"
| "live_step cfg Ev_Invalidate s = scheduleRerunAll s"
| "live_step cfg Ev_Debounce s = rerunAll cfg s"
| "live_step cfg Ev_Dispose s = live_dispose s"
| "live_step cfg Ev_Dispose_Settled s = dispose_settled s"

definition live_run :: "live_config \<Rightarrow> live_event list \<Rightarrow> live_state" where
  "live_run cfg events = fold (live_step cfg) events new_live"

end
