(* ===== verification/Live_Graph.thy ===== *)
theory Live_Graph
  imports Live_Handlers
begin

text \<open>
  Invariants of live queries, first part: which connection holds which subscription of which shared operation.

  The state is looked at through views, \<open>graph\<close> here, that the operations of other parts do not change; an invariant
  is a predicate of its view.
\<close>

lemmas live_defs = lv_out_def on_conn_def on_sub_def on_op_def lv_send_def lv_error_def Let_def

section \<open>The view\<close>

type_synonym live_graph = "(nat \<Rightarrow> (jstring \<times> nat) list) \<times> (nat \<Rightarrow> jstring \<times> nat \<times> nat) \<times> nat \<times>
  (nat \<Rightarrow> nat list \<times> jstring) \<times> (jstring \<times> nat) list \<times> nat \<times> nat \<times> bool"

definition graph :: "live_state \<Rightarrow> live_graph" where
  "graph s = ((\<lambda>c. lc_operations (lv_conns s c)), (\<lambda>i. (ls_id (lv_subs s i), ls_state (lv_subs s i), ls_shared (lv_subs s i))),
     sub_count s, (\<lambda>x. (so_subscribers (lv_ops s x), so_key (lv_ops s x))), shared_operations s, op_count s, conn_count s, live_disposed s)"

definition graph_ok :: "live_state \<Rightarrow> bool" where
  "graph_ok s \<longleftrightarrow>
     (\<forall>c. distinct (map fst (lc_operations (lv_conns s c))))
     \<and> (\<forall>c m i. (m, i) \<in> set (lc_operations (lv_conns s c)) \<longrightarrow>
          i < sub_count s \<and> ls_id (lv_subs s i) = m \<and> ls_state (lv_subs s i) = c
          \<and> i \<in> set (so_subscribers (lv_ops s (ls_shared (lv_subs s i)))))
     \<and> (\<forall>x i. i \<in> set (so_subscribers (lv_ops s x)) \<longrightarrow>
          ls_shared (lv_subs s i) = x \<and> (ls_id (lv_subs s i), i) \<in> set (lc_operations (lv_conns s (ls_state (lv_subs s i)))))
     \<and> (\<forall>x. distinct (so_subscribers (lv_ops s x)))
     \<and> distinct (map fst (shared_operations s))
     \<and> (\<forall>k x. (k, x) \<in> set (shared_operations s) \<longrightarrow> so_key (lv_ops s x) = k \<and> so_subscribers (lv_ops s x) \<noteq> [])
     \<and> (\<forall>x. \<not> live_disposed s \<and> so_subscribers (lv_ops s x) \<noteq> [] \<longrightarrow> (so_key (lv_ops s x), x) \<in> set (shared_operations s))
     \<and> (\<forall>x. so_subscribers (lv_ops s x) \<noteq> [] \<longrightarrow> x < op_count s)
     \<and> (\<forall>c. lc_operations (lv_conns s c) \<noteq> [] \<longrightarrow> c < conn_count s)"

lemma graph_iff:
  "graph t = graph s \<longleftrightarrow>
     (\<forall>c. lc_operations (lv_conns t c) = lc_operations (lv_conns s c))
     \<and> (\<forall>i. ls_id (lv_subs t i) = ls_id (lv_subs s i) \<and> ls_state (lv_subs t i) = ls_state (lv_subs s i)
          \<and> ls_shared (lv_subs t i) = ls_shared (lv_subs s i))
     \<and> sub_count t = sub_count s
     \<and> (\<forall>x. so_subscribers (lv_ops t x) = so_subscribers (lv_ops s x) \<and> so_key (lv_ops t x) = so_key (lv_ops s x))
     \<and> shared_operations t = shared_operations s \<and> op_count t = op_count s \<and> conn_count t = conn_count s \<and> live_disposed t = live_disposed s"
  by (auto simp: graph_def fun_eq_iff)

lemma graph_cong: "graph t = graph s \<Longrightarrow> graph_ok t = graph_ok s"
  unfolding graph_iff graph_ok_def by simp

lemma registered_cong: "graph t = graph s \<Longrightarrow> is_registered i t = is_registered i s"
  unfolding graph_iff is_registered_def by simp

lemma current_cong: "graph t = graph s \<Longrightarrow> is_current x t = is_current x s"
  unfolding graph_iff is_current_def by simp

lemma graph_okD:
  assumes "graph_ok s"
  shows "distinct (map fst (lc_operations (lv_conns s c)))"
    and "(m, i) \<in> set (lc_operations (lv_conns s c)) \<Longrightarrow>
      i < sub_count s \<and> ls_id (lv_subs s i) = m \<and> ls_state (lv_subs s i) = c
      \<and> i \<in> set (so_subscribers (lv_ops s (ls_shared (lv_subs s i))))"
    and "i \<in> set (so_subscribers (lv_ops s x)) \<Longrightarrow>
      ls_shared (lv_subs s i) = x \<and> (ls_id (lv_subs s i), i) \<in> set (lc_operations (lv_conns s (ls_state (lv_subs s i))))"
    and "distinct (so_subscribers (lv_ops s x))"
    and "distinct (map fst (shared_operations s))"
    and "(k, x) \<in> set (shared_operations s) \<Longrightarrow> so_key (lv_ops s x) = k \<and> so_subscribers (lv_ops s x) \<noteq> []"
    and "\<not> live_disposed s \<Longrightarrow> so_subscribers (lv_ops s x) \<noteq> [] \<Longrightarrow> (so_key (lv_ops s x), x) \<in> set (shared_operations s)"
    and "so_subscribers (lv_ops s x) \<noteq> [] \<Longrightarrow> x < op_count s"
    and "lc_operations (lv_conns s c) \<noteq> [] \<Longrightarrow> c < conn_count s"
  using assms by (simp_all only: graph_ok_def) blast+

section \<open>What keeps the graph\<close>

lemma graph_out [simp]: "graph (lv_out e s) = graph s" "graph (lv_send c f s) = graph s" "graph (lv_error c mid message s) = graph s"
    "graph (updateQueueDepth s) = graph s"
  by (simp_all add: graph_def live_defs updateQueueDepth_def)

lemma graph_on_op: "(\<And>op. so_subscribers (f op) = so_subscribers op \<and> so_key (f op) = so_key op) \<Longrightarrow> graph (on_op x f s) = graph s"
  by (simp add: graph_iff live_defs)

lemma graph_on_conn: "(\<And>k. lc_operations (f k) = lc_operations k) \<Longrightarrow> graph (on_conn c f s) = graph s"
  by (simp add: graph_iff live_defs)

lemma graph_on_sub: "(\<And>k. ls_id (f k) = ls_id k \<and> ls_state (f k) = ls_state k \<and> ls_shared (f k) = ls_shared k) \<Longrightarrow>
    graph (on_sub c f s) = graph s"
  by (simp add: graph_iff live_defs)

lemma graph_fields [simp]:
  "graph (s\<lparr>initial_queue := a\<rparr>) = graph s" "graph (s\<lparr>rerun_queue := a\<rparr>) = graph s" "graph (s\<lparr>replay_order := r\<rparr>) = graph s"
  "graph (s\<lparr>running_promises := p\<rparr>) = graph s" "graph (s\<lparr>active_operations := n\<rparr>) = graph s"
  "graph (s\<lparr>pending_operations := n\<rparr>) = graph s" "graph (s\<lparr>running_executions := n\<rparr>) = graph s"
  "graph (s\<lparr>live_debounce := b\<rparr>) = graph s" "graph (s\<lparr>cached_result_bytes := n\<rparr>) = graph s"
  "graph (s\<lparr>live_disposing := b\<rparr>) = graph s" "graph (s\<lparr>live_outputs := es\<rparr>) = graph s"
  by (simp_all add: graph_def)

lemma graph_clearReplay [simp]: "graph (clearReplay x s) = graph s"
  by (simp add: clearReplay_def Let_def graph_on_op)

lemma graph_make_room [simp]: "graph (make_room fuel limit bytes s) = graph s"
  by (induction fuel limit bytes s rule: make_room.induct) (auto split: list.splits)

lemma graph_cacheReplay [simp]: "graph (cacheReplay cfg x r s) = graph s"
  by (simp add: cacheReplay_def Let_def graph_on_op)

lemma graph_setActiveDelta [simp]: "graph (setActiveDelta d s) = graph s"
  by (simp add: setActiveDelta_def Let_def)

lemma graph_removeQueued [simp]: "graph (removeQueuedOperation x s) = graph s"
  by (simp add: removeQueuedOperation_def Let_def graph_on_op split: option.split)

lemma graph_start [simp]: "graph (start_execution x s) = graph s"
  by (simp add: start_execution_def Let_def graph_on_op)

lemma graph_next: "nextQueuedOperation s = Some (x, t) \<Longrightarrow> graph t = graph s"
  by (auto simp: nextQueuedOperation_def graph_on_op split: list.splits)

lemma graph_pump [simp]: "graph (pumpQueue cfg s) = graph s"
proof (induction cfg s rule: pumpQueue.induct)
  case (1 cfg s)
  then show ?case
    by (subst pumpQueue.simps) (auto split: option.split dest: graph_next)
qed

lemma graph_enqueue [simp]: "graph (enqueue cfg x k s) = graph s"
  by (simp add: enqueue_def Let_def graph_on_op)

lemma graph_deliver [simp]: "graph (deliver_result changed r i s) = graph s"
  by (simp add: deliver_result_def Let_def graph_on_sub)

lemma graph_fail [simp]: "graph (fail_subscriber m i s) = graph s"
  by (simp add: fail_subscriber_def Let_def)

lemma graph_fold: "(\<And>a t. graph (f a t) = graph t) \<Longrightarrow> graph (fold f xs s) = graph s"
  by (induction xs arbitrary: s) simp_all

lemma graph_settle [simp]: "graph (settle_promise x s) = graph s"
  by (simp add: settle_promise_def)

lemma graph_execution_error [simp]: "graph (execution_error x m s) = graph s"
  by (simp add: execution_error_def graph_fold)

lemma graph_finally [simp]: "graph (execution_finally cfg x s) = graph s"
  by (simp add: execution_finally_def Let_def graph_on_op)

lemma graph_rerunAll [simp]: "graph (rerunAll cfg s) = graph s"
  by (simp add: rerunAll_def graph_fold)

lemma graph_schedule [simp]: "graph (scheduleRerunAll s) = graph s"
  by (simp add: scheduleRerunAll_def)

lemma graph_link [simp]: "graph (link_done c s) = graph s" "graph (release_pending b s) = graph s" "graph (end_subscribe c b s) = graph s"
    "graph (refuse c m r e s) = graph s" "graph (next_stage c task st s) = graph s" "graph (subscribe_failed c task e s) = graph s"
    "graph (cost_arrived c task q s) = graph s" "graph (prepared cfg c task s) = graph s"
  by (simp_all add: link_done_def release_pending_def end_subscribe_def refuse_def next_stage_def subscribe_failed_def
      cost_arrived_def prepared_def Let_def graph_on_conn split: option.splits query_cost_result.splits sum.splits)

lemma graph_begin [simp]: "graph (begin_subscribe cfg c m s) = graph s"
  by (simp add: begin_subscribe_def Let_def graph_on_conn split: option.split)

lemma graph_replay_to [simp]: "graph (replay_to c i x s) = graph s"
  by (simp add: replay_to_def Let_def graph_on_sub split: option.split)

text \<open>The same, for the invariant and what else reads only the graph.\<close>

lemmas graph_frames = graph_out graph_fields graph_clearReplay graph_make_room graph_cacheReplay graph_setActiveDelta
  graph_removeQueued graph_start graph_pump graph_enqueue graph_deliver graph_fail
  graph_settle graph_execution_error graph_finally graph_rerunAll graph_schedule graph_link
  graph_begin graph_replay_to graph_on_op graph_on_conn graph_on_sub

lemmas graph_ok_simps [simp] = graph_frames [THEN graph_cong]

section \<open>What changes the graph\<close>

lemma delete_key_simps [simp]: "set (delete_key k kvs) = {e \<in> set kvs. fst e \<noteq> k}" "delete_key k [] = []"
  by (auto simp: delete_key_def)

lemma delete_key_distinct [simp]: "distinct (map fst kvs) \<Longrightarrow> distinct (map fst (delete_key k kvs))"
  by (induction kvs) (auto simp: delete_key_def)

lemma delete_key_absent: "k \<notin> fst ` set kvs \<Longrightarrow> delete_key k kvs = kvs"
  by (force simp: delete_key_def filter_id_conv)

lemma graph_drop [simp]: "graph (drop_shared x s) = graph (s\<lparr>shared_operations := delete_key (so_key (lv_ops s x)) (shared_operations s)\<rparr>)"
  by (simp add: drop_shared_def Let_def graph_on_op)

definition drops :: "nat \<Rightarrow> nat \<Rightarrow> live_state \<Rightarrow> bool" where
  "drops i x s \<longleftrightarrow> remove1 i (so_subscribers (lv_ops s x)) = [] \<and> map_of (shared_operations s) (so_key (lv_ops s x)) = Some x"

definition detach :: "nat \<Rightarrow> jstring \<Rightarrow> nat \<Rightarrow> nat \<Rightarrow> live_state \<Rightarrow> live_state" where
  "detach c mid i x s =
     on_op x (\<lambda>op. op\<lparr>so_subscribers := remove1 i (so_subscribers op)\<rparr>)
       (on_conn c (\<lambda>k. k\<lparr>lc_operations := delete_key mid (lc_operations k)\<rparr>) s)"

lemma deleteOperation_cases:
  "deleteOperation c mid s =
     (case map_of (lc_operations (lv_conns s c)) mid of
        None \<Rightarrow> s
      | Some i \<Rightarrow>
          let x = ls_shared (lv_subs s i); t = setActiveDelta (- 1) (detach c mid i x s) in
          if drops i x s then drop_shared x t else t)"
proof -
  have "so_subscribers (lv_ops (setActiveDelta d u) x) = so_subscribers (lv_ops u x)"
    "so_key (lv_ops (setActiveDelta d u) x) = so_key (lv_ops u x)"
    "shared_operations (setActiveDelta d u) = shared_operations u" for d u x
    using graph_setActiveDelta [of d u] unfolding graph_iff by simp_all
  then show ?thesis
    by (simp add: deleteOperation_def drops_def detach_def live_defs split: option.split)
qed

lemma graph_delete:
  assumes "map_of (lc_operations (lv_conns s c)) mid = Some i"
  defines "x \<equiv> ls_shared (lv_subs s i)" and "t \<equiv> deleteOperation c mid s"
  shows "lc_operations (lv_conns t c') = (if c' = c then delete_key mid (lc_operations (lv_conns s c)) else lc_operations (lv_conns s c'))"
    "ls_id (lv_subs t j) = ls_id (lv_subs s j)" "ls_state (lv_subs t j) = ls_state (lv_subs s j)"
    "ls_shared (lv_subs t j) = ls_shared (lv_subs s j)" "sub_count t = sub_count s" "op_count t = op_count s" "conn_count t = conn_count s"
    "live_disposed t = live_disposed s" "so_key (lv_ops t y) = so_key (lv_ops s y)"
    "so_subscribers (lv_ops t y) = (if y = x then remove1 i (so_subscribers (lv_ops s x)) else so_subscribers (lv_ops s y))"
    "shared_operations t = (if drops i x s then delete_key (so_key (lv_ops s x)) (shared_operations s) else shared_operations s)"
proof -
  let ?u = "setActiveDelta (- 1) (detach c mid i x s)"
  have t: "t = (if drops i x s then drop_shared x ?u else ?u)"
    using assms(1) by (simp add: t_def x_def deleteOperation_cases Let_def)
  have u: "graph ?u = graph (detach c mid i x s)"
    by simp
  have k: "so_key (lv_ops ?u x) = so_key (lv_ops s x)" "shared_operations ?u = shared_operations s"
    using u unfolding graph_iff by (simp_all add: detach_def live_defs)
  have "graph t = graph ((detach c mid i x s)\<lparr>shared_operations :=
      if drops i x s then delete_key (so_key (lv_ops s x)) (shared_operations s) else shared_operations s\<rparr>)"
    using u k unfolding t graph_iff [of _ "s\<lparr>shared_operations := _\<rparr>" for s] graph_iff [of ?u]
    by (simp add: graph_drop [unfolded graph_iff] detach_def live_defs)
  then show "lc_operations (lv_conns t c') = (if c' = c then delete_key mid (lc_operations (lv_conns s c)) else lc_operations (lv_conns s c'))"
    "ls_id (lv_subs t j) = ls_id (lv_subs s j)" "ls_state (lv_subs t j) = ls_state (lv_subs s j)"
    "ls_shared (lv_subs t j) = ls_shared (lv_subs s j)" "sub_count t = sub_count s" "op_count t = op_count s" "conn_count t = conn_count s"
    "live_disposed t = live_disposed s" "so_key (lv_ops t y) = so_key (lv_ops s y)"
    "so_subscribers (lv_ops t y) = (if y = x then remove1 i (so_subscribers (lv_ops s x)) else so_subscribers (lv_ops s y))"
    "shared_operations t = (if drops i x s then delete_key (so_key (lv_ops s x)) (shared_operations s) else shared_operations s)"
    unfolding graph_iff by (simp_all add: detach_def live_defs)
qed

lemma delete_none: "map_of (lc_operations (lv_conns s c)) mid = None \<Longrightarrow> deleteOperation c mid s = s"
  by (simp add: deleteOperation_def)

lemma delete_graph_ok:
  assumes ok: "graph_ok s"
  shows "graph_ok (deleteOperation c mid s)"
proof (cases "map_of (lc_operations (lv_conns s c)) mid")
  case None
  with ok show ?thesis
    by (simp add: delete_none)
next
  case (Some i)
  note d = graph_okD [OF ok]
  note t = graph_delete [OF Some]
  let ?x = "ls_shared (lv_subs s i)"
  have i: "(mid, i) \<in> set (lc_operations (lv_conns s c))"
    using Some by (rule map_of_SomeD)
  note i' = d(2) [OF i]
  have uniq: "(m, j) \<in> set (lc_operations (lv_conns s c')) \<Longrightarrow> j = i \<Longrightarrow> c' = c \<and> m = mid" for m j c'
    using d(2) i' by blast
  have same: "(mid, j) \<in> set (lc_operations (lv_conns s c)) \<Longrightarrow> j = i" for j
    using d(1) [of c] i by (metis eq_key_imp_eq_value)
  show ?thesis
    unfolding graph_ok_def t
  proof (intro conjI allI impI)
    fix c' m j
    assume "(m, j) \<in> set (if c' = c then delete_key mid (lc_operations (lv_conns s c)) else lc_operations (lv_conns s c'))"
    then have m: "(m, j) \<in> set (lc_operations (lv_conns s c'))" and gone: "c' = c \<Longrightarrow> m \<noteq> mid"
      by (simp_all split: if_splits)
    have "j \<noteq> i"
      using uniq [OF m] gone by blast
    with d(2) [OF m] show "j < sub_count s" "ls_id (lv_subs s j) = m" "ls_state (lv_subs s j) = c'"
      "j \<in> set (if ls_shared (lv_subs s j) = ?x then remove1 i (so_subscribers (lv_ops s ?x)) else so_subscribers (lv_ops s (ls_shared (lv_subs s j))))"
      using d(4) [of ?x] by auto
  next
    fix y j
    assume "j \<in> set (if y = ?x then remove1 i (so_subscribers (lv_ops s ?x)) else so_subscribers (lv_ops s y))"
    then have j: "j \<in> set (so_subscribers (lv_ops s y))" and "j \<noteq> i"
      using d(4) [of ?x] d(3) [of j y] i' by (auto split: if_splits dest: notin_set_remove1)
    with d(3) [OF j] show "ls_shared (lv_subs s j) = y"
      "(ls_id (lv_subs s j), j) \<in> set (if ls_state (lv_subs s j) = c then delete_key mid (lc_operations (lv_conns s c))
        else lc_operations (lv_conns s (ls_state (lv_subs s j))))"
      using same by auto
  next
    fix k y
    assume "(k, y) \<in> set (if drops i ?x s then delete_key (so_key (lv_ops s ?x)) (shared_operations s) else shared_operations s)"
    then have k: "(k, y) \<in> set (shared_operations s)" and "\<not> (drops i ?x s \<and> k = so_key (lv_ops s ?x))"
      by (auto split: if_splits)
    with d(6) [OF k] have "y = ?x \<longrightarrow> remove1 i (so_subscribers (lv_ops s ?x)) \<noteq> []"
      unfolding drops_def using d(5) by auto
    with d(6) [OF k] show "so_key (lv_ops s y) = k"
      "(if y = ?x then remove1 i (so_subscribers (lv_ops s ?x)) else so_subscribers (lv_ops s y)) \<noteq> []"
      by auto
  next
    fix y
    assume "\<not> live_disposed s \<and> (if y = ?x then remove1 i (so_subscribers (lv_ops s ?x)) else so_subscribers (lv_ops s y)) \<noteq> []"
    then have "\<not> live_disposed s" and ne: "so_subscribers (lv_ops s y) \<noteq> []" and y: "y = ?x \<longrightarrow> remove1 i (so_subscribers (lv_ops s ?x)) \<noteq> []"
      by (auto split: if_splits)
    from d(7) [OF this(1,2)] have k: "(so_key (lv_ops s y), y) \<in> set (shared_operations s)" .
    moreover have "so_key (lv_ops s y) \<noteq> so_key (lv_ops s ?x)" if "drops i ?x s"
    proof
      assume "so_key (lv_ops s y) = so_key (lv_ops s ?x)"
      then have "map_of (shared_operations s) (so_key (lv_ops s ?x)) = Some y"
        using k d(5) by (metis map_of_is_SomeI)
      with that y show False
        by (simp add: drops_def)
    qed
    ultimately show "(so_key (lv_ops s y), y)
      \<in> set (if drops i ?x s then delete_key (so_key (lv_ops s ?x)) (shared_operations s) else shared_operations s)"
      by auto
  next
    fix y
    assume "(if y = ?x then remove1 i (so_subscribers (lv_ops s ?x)) else so_subscribers (lv_ops s y)) \<noteq> []"
    then show "y < op_count s"
      using d(8) by (metis remove1.simps(1))
  next
    fix c'
    assume "(if c' = c then delete_key mid (lc_operations (lv_conns s c)) else lc_operations (lv_conns s c')) \<noteq> []"
    then show "c' < conn_count s"
      using d(9) by (metis delete_key_simps(2))
  qed (use d(1,4,5) in auto)
qed

lemma graph_ok_shared_current:
  assumes "graph_ok s" "(k, x) \<in> set (shared_operations s)"
  shows "is_current x s"
  using graph_okD(5) [OF assms(1)] graph_okD(6) [OF assms] assms(2) by (auto simp: is_current_def)

lemma graph_get_shared:
  assumes "get_shared cfg c key payload query s = (x, t)"
  shows "lc_operations (lv_conns t c') = lc_operations (lv_conns s c')" "lv_subs t = lv_subs s" "sub_count t = sub_count s"
    "live_disposed t = live_disposed s" "conn_count t = conn_count s"
    "case map_of (shared_operations s) key of
        Some y \<Rightarrow> x = y \<and> graph t = graph s
      | None \<Rightarrow> x = op_count s \<and> op_count t = op_count s + 1 \<and> shared_operations t = shared_operations s @ [(key, x)]
          \<and> so_subscribers (lv_ops t x) = [] \<and> so_key (lv_ops t x) = key \<and> (\<forall>y. y \<noteq> x \<longrightarrow> lv_ops t y = lv_ops s y)"
  using assms by (auto simp: get_shared_def new_shared_def live_defs graph_iff split: option.splits)

lemma graph_add:
  assumes "t = add_subscription c mid x s"
  shows "lc_operations (lv_conns t c') = (if c' = c then put_key mid (sub_count s) (lc_operations (lv_conns s c)) else lc_operations (lv_conns s c'))"
    "ls_id (lv_subs t j) = (if j = sub_count s then mid else ls_id (lv_subs s j))"
    "ls_state (lv_subs t j) = (if j = sub_count s then c else ls_state (lv_subs s j))"
    "ls_shared (lv_subs t j) = (if j = sub_count s then x else ls_shared (lv_subs s j))"
    "sub_count t = sub_count s + 1" "op_count t = op_count s" "conn_count t = conn_count s" "live_disposed t = live_disposed s"
    "so_key (lv_ops t y) = so_key (lv_ops s y)" "shared_operations t = shared_operations s"
    "so_subscribers (lv_ops t y) = (if y = x then so_subscribers (lv_ops s y) @ [sub_count s] else so_subscribers (lv_ops s y))"
proof -
  define u where "u = on_op x (\<lambda>op. op\<lparr>so_subscribers := so_subscribers op @ [sub_count s]\<rparr>)
    (on_conn c (\<lambda>k. k\<lparr>lc_operations := put_key mid (sub_count s) (lc_operations k)\<rparr>)
      ((on_sub (sub_count s) (\<lambda>_. \<lparr>ls_id = mid, ls_initial = True, ls_state = c, ls_shared = x\<rparr>) s)\<lparr>sub_count := sub_count s + 1\<rparr>))"
  have "graph t = graph u"
    by (simp add: assms add_subscription_def Let_def u_def)
  then show "lc_operations (lv_conns t c') = (if c' = c then put_key mid (sub_count s) (lc_operations (lv_conns s c)) else lc_operations (lv_conns s c'))"
    "ls_id (lv_subs t j) = (if j = sub_count s then mid else ls_id (lv_subs s j))"
    "ls_state (lv_subs t j) = (if j = sub_count s then c else ls_state (lv_subs s j))"
    "ls_shared (lv_subs t j) = (if j = sub_count s then x else ls_shared (lv_subs s j))"
    "sub_count t = sub_count s + 1" "op_count t = op_count s" "conn_count t = conn_count s" "live_disposed t = live_disposed s"
    "so_key (lv_ops t y) = so_key (lv_ops s y)" "shared_operations t = shared_operations s"
    "so_subscribers (lv_ops t y) = (if y = x then so_subscribers (lv_ops s y) @ [sub_count s] else so_subscribers (lv_ops s y))"
    unfolding graph_iff u_def by (simp_all add: live_defs)
qed

text \<open>The graph between \<open>get_shared\<close> and \<open>add_subscription\<close>: the operation may have no subscriber yet.\<close>

lemma add_graph_ok:
  assumes ok: "graph_ok s" and new: "map_of (lc_operations (lv_conns s c)) mid = None" and c: "c < conn_count s"
    and g: "get_shared cfg c key payload query s = (x, u)"
  shows "graph_ok (add_subscription c mid x u)"
proof -
  note d = graph_okD [OF ok]
  note u = graph_get_shared(1-5) [OF g]
  note t = graph_add [OF refl, of c mid x u]
  have new_key: "mid \<notin> fst ` set (lc_operations (lv_conns s c))"
    using new by (simp add: map_of_eq_None_iff)
  have X: "op_count s \<le> op_count u \<and> x < op_count u \<and> (so_key (lv_ops u x), x) \<in> set (shared_operations u)
      \<and> distinct (map fst (shared_operations u)) \<and> so_subscribers (lv_ops u y) = so_subscribers (lv_ops s y)
      \<and> (so_subscribers (lv_ops s y) \<noteq> [] \<longrightarrow> so_key (lv_ops u y) = so_key (lv_ops s y))
      \<and> set (shared_operations s) \<subseteq> set (shared_operations u)
      \<and> ((k, y) \<in> set (shared_operations u) \<longrightarrow> y = x \<and> so_key (lv_ops u x) = k \<or> y \<noteq> x \<and> so_key (lv_ops u y) = k \<and> so_subscribers (lv_ops s y) \<noteq> [])" for y k
  proof (cases "map_of (shared_operations s) key")
    case None
    have old: "\<not> (so_subscribers (lv_ops s (op_count s)) \<noteq> [])"
      using d(8) [of "op_count s"] by blast
    have none: "key \<notin> fst ` set (shared_operations s)"
      using None by (simp add: map_of_eq_None_iff)
    have u': "x = op_count s" "op_count u = op_count s + 1" "shared_operations u = shared_operations s @ [(key, x)]"
        "so_subscribers (lv_ops u x) = []" "so_key (lv_ops u x) = key" "\<And>y. y \<noteq> x \<Longrightarrow> lv_ops u y = lv_ops s y"
      using graph_get_shared(6) [OF g, unfolded None option.case] by blast+
    have fresh: "y \<noteq> x" if "(k, y) \<in> set (shared_operations s)"
      using d(6) [OF that] old u'(1) by auto
    show ?thesis
      using u' old none d(5) d(6) [of k y] fresh by (cases "y = x") auto
  next
    case (Some y')
    have u': "x = y'" "graph u = graph s"
      using graph_get_shared(6) [OF g] Some by simp_all
    from Some have m: "(key, x) \<in> set (shared_operations s)"
      unfolding u'(1) by (rule map_of_SomeD)
    show ?thesis
      using u'(2) d(5) d(6) [OF m] d(6) [of k y] d(8) [of x] m unfolding graph_iff by auto
  qed
  have x: "op_count s \<le> op_count u" "x < op_count u" "(so_key (lv_ops u x), x) \<in> set (shared_operations u)"
      "distinct (map fst (shared_operations u))" "so_subscribers (lv_ops u y) = so_subscribers (lv_ops s y)"
      "so_subscribers (lv_ops s y) \<noteq> [] \<Longrightarrow> so_key (lv_ops u y) = so_key (lv_ops s y)"
      "set (shared_operations s) \<subseteq> set (shared_operations u)"
      "(k, y) \<in> set (shared_operations u) \<Longrightarrow> y = x \<and> so_key (lv_ops u x) = k \<or> y \<noteq> x \<and> so_key (lv_ops u y) = k \<and> so_subscribers (lv_ops s y) \<noteq> []" for y k
    using X [of y k] by blast+
  show ?thesis
    unfolding graph_ok_def t u
  proof (intro conjI allI impI)
    fix c' m j
    assume "(m, j) \<in> set (if c' = c then put_key mid (sub_count s) (lc_operations (lv_conns s c)) else lc_operations (lv_conns s c'))"
    then consider "(m, j) \<in> set (lc_operations (lv_conns s c'))" | "c' = c" "m = mid" "j = sub_count s"
      by (auto simp: put_key_new [OF new_key] split: if_splits)
    then show "j < sub_count s + 1" "(if j = sub_count s then mid else ls_id (lv_subs s j)) = m"
      "(if j = sub_count s then c else ls_state (lv_subs s j)) = c'"
      "j \<in> set (if (if j = sub_count s then x else ls_shared (lv_subs s j)) = x
        then so_subscribers (lv_ops u (if j = sub_count s then x else ls_shared (lv_subs s j))) @ [sub_count s]
        else so_subscribers (lv_ops u (if j = sub_count s then x else ls_shared (lv_subs s j))))"
      using d(2) [of m j c'] x(5) by (cases; fastforce)+
  next
    fix y j
    assume "j \<in> set (if y = x then so_subscribers (lv_ops u y) @ [sub_count s] else so_subscribers (lv_ops u y))"
    then consider "j \<in> set (so_subscribers (lv_ops s y))" | "y = x" "j = sub_count s"
      using x(5) by (auto split: if_splits)
    then show "(if j = sub_count s then x else ls_shared (lv_subs s j)) = y"
      "(if j = sub_count s then mid else ls_id (lv_subs s j), j)
        \<in> set (if (if j = sub_count s then c else ls_state (lv_subs s j)) = c then put_key mid (sub_count s) (lc_operations (lv_conns s c))
          else lc_operations (lv_conns s (if j = sub_count s then c else ls_state (lv_subs s j))))"
      using d(2,3) by (cases; fastforce simp: put_key_new [OF new_key])+
  next
    fix c'
    show "distinct (map fst (if c' = c then put_key mid (sub_count s) (lc_operations (lv_conns s c)) else lc_operations (lv_conns s c')))"
      using d(1) [of c'] d(1) [of c] new_key by (simp add: put_key_new [OF new_key])
  next
    fix y
    have "sub_count s \<notin> set (so_subscribers (lv_ops s y))"
      using d(2,3) by blast
    then show "distinct (if y = x then so_subscribers (lv_ops u y) @ [sub_count s] else so_subscribers (lv_ops u y))"
      using d(4) [of y] x(5) by auto
  next
    show "distinct (map fst (shared_operations u))"
      by (rule x)
  next
    fix k y
    assume "(k, y) \<in> set (shared_operations u)"
    from x(8) [OF this] show "so_key (lv_ops u y) = k" "(if y = x then so_subscribers (lv_ops u y) @ [sub_count s] else so_subscribers (lv_ops u y)) \<noteq> []"
      using x(5) by auto
  next
    fix y
    assume "\<not> live_disposed s \<and> (if y = x then so_subscribers (lv_ops u y) @ [sub_count s] else so_subscribers (lv_ops u y)) \<noteq> []"
    then show "(so_key (lv_ops u y), y) \<in> set (shared_operations u)"
      using x(3) x(5) [of y] x(6) [of y] x(7) d(7) [of y] by (auto split: if_splits)
  next
    fix y
    assume "(if y = x then so_subscribers (lv_ops u y) @ [sub_count s] else so_subscribers (lv_ops u y)) \<noteq> []"
    then show "y < op_count u"
      using x(1,2) x(5) [of y] d(8) [of y] by (auto split: if_splits)
  next
    fix c'
    assume "(if c' = c then put_key mid (sub_count s) (lc_operations (lv_conns s c)) else lc_operations (lv_conns s c')) \<noteq> []"
    then show "c' < conn_count s"
      using c d(9) by (auto split: if_splits)
  qed
qed

section \<open>Every step keeps the graph well formed\<close>

lemma fold_invariant: "P s \<Longrightarrow> (\<And>a t. P t \<Longrightarrow> P (f a t)) \<Longrightarrow> P (fold f xs s)"
  by (induction xs arbitrary: s) simp_all

lemma fold_invariant_in: "P s \<Longrightarrow> (\<And>a t. a \<in> set xs \<Longrightarrow> P t \<Longrightarrow> P (f a t)) \<Longrightarrow> P (fold f xs s)"
  by (induction xs arbitrary: s) simp_all

lemma complete_graph:
  assumes "graph_ok s" "c < conn_count s" "s1 = deleteOperation c mid s"
    and u: "get_shared cfg c key payload query s1 = (x, u)"
  shows "graph_ok (add_subscription c mid x u)"
proof (rule add_graph_ok [OF _ _ _ u])
  show "map_of (lc_operations (lv_conns s1 c)) mid = None"
  proof (cases "map_of (lc_operations (lv_conns s c)) mid")
    case (Some i)
    then show ?thesis
      by (auto simp: assms(3) graph_delete(1) map_of_eq_None_iff)
  qed (simp add: assms(3) delete_none)
  show "c < conn_count s1"
    using assms(2) by (cases "map_of (lc_operations (lv_conns s c)) mid") (simp_all add: assms(3) delete_none graph_delete)
qed (simp add: assms delete_graph_ok)

lemma graph_ok_complete:
  assumes "graph_ok s" "c < conn_count s"
  shows "graph_ok (complete_subscribe cfg c task query scope s)"
proof (cases "lc_closed (lv_conns s c)")
  case True
  with assms show ?thesis
    by (simp add: complete_subscribe_def)
next
  case False
  let ?s1 = "deleteOperation c (tk_id task) s"
  define key where "key = operation_key (live_locale cfg) (case scope of Some k \<Rightarrow> k | None \<Rightarrow> lit ''public'') (tk_payload task) query"
  obtain x u where u: "get_shared cfg c key (tk_payload task) query ?s1 = (x, u)"
    by (cases "get_shared cfg c key (tk_payload task) query ?s1")
  have "graph_ok (add_subscription c (tk_id task) x u)"
    by (rule complete_graph [OF assms refl u])
  then show ?thesis
    using False u unfolding complete_subscribe_def Let_def key_def [symmetric] by simp
qed

lemma graph_ok_reject: "graph_ok s \<Longrightarrow> graph_ok (reject_result cfg i s)"
  by (simp add: reject_result_def Let_def delete_graph_ok)

lemma graph_ok_execution_done: "graph_ok s \<Longrightarrow> graph_ok (execution_done cfg x r s)"
proof -
  assume ok: "graph_ok s"
  have "graph_ok (execution_result cfg x v s)" for v
  proof -
    have "graph_ok (fold (reject_result cfg) xs (lv_out e s))" for xs e
      using ok by (intro fold_invariant [of graph_ok]) (simp_all add: graph_ok_reject)
    then show ?thesis
      using ok unfolding execution_result_def Let_def by (simp add: graph_fold [THEN graph_cong])
  qed
  then show ?thesis
    using ok by (simp add: execution_done_def split: sum.split)
qed

lemma graph_ok_open: "graph_ok s \<Longrightarrow> graph_ok (live_open request s)"
proof -
  assume ok: "graph_ok s"
  have none: "lc_operations (lv_conns s (conn_count s)) = []"
    using graph_okD(9) [OF ok, of "conn_count s"] by blast
  then have ops: "lc_operations (lv_conns (live_open request s) c) = lc_operations (lv_conns s c)" for c
    by (simp add: live_open_def live_defs no_connection_def)
  have "graph (live_open request s) = graph (s\<lparr>conn_count := conn_count s + 1\<rparr>)"
    using ops unfolding graph_iff by (simp add: live_open_def live_defs)
  moreover have "graph_ok (s\<lparr>conn_count := conn_count s + 1\<rparr>)"
    using ok unfolding graph_ok_def by (auto simp: is_registered_def intro: less_SucI)
  ultimately show ?thesis
    using graph_cong by blast
qed

lemma graph_ok_close: "graph_ok s \<Longrightarrow> graph_ok (live_close c s)"
proof -
  assume "graph_ok s"
  then have "graph_ok (fold (deleteOperation c) ms (on_conn c (\<lambda>k. k\<lparr>lc_closed := True\<rparr>) s))" for ms
    by (intro fold_invariant [of graph_ok]) (simp_all add: delete_graph_ok)
  with \<open>graph_ok s\<close> show ?thesis
    by (simp add: live_close_def)
qed

lemma graph_ok_dispose_subscriber: "graph_ok s \<Longrightarrow> graph_ok (dispose_subscriber i s)"
  by (simp add: dispose_subscriber_def Let_def delete_graph_ok)

lemma graph_ok_disposed: "graph_ok s \<Longrightarrow> graph_ok (s\<lparr>live_disposed := True\<rparr>)"
  by (auto simp: graph_ok_def)

lemma graph_ok_dispose: "graph_ok s \<Longrightarrow> graph_ok (live_dispose s)"
proof -
  assume ok: "graph_ok s"
  have sub: "graph_ok t \<Longrightarrow> graph_ok (dispose_operation x t)" for x t
    unfolding dispose_operation_def by (rule fold_invariant) (simp_all add: graph_ok_dispose_subscriber)
  let ?s = "s\<lparr>live_disposed := True, live_disposing := True, live_debounce := False, initial_queue := [], rerun_queue := []\<rparr>"
  have "graph ?s = graph (s\<lparr>live_disposed := True\<rparr>)"
    by simp
  then have "graph_ok ?s"
    using graph_ok_disposed [OF ok] graph_cong by blast
  then have "graph_ok (updateQueueDepth ?s)"
    by simp
  then show ?thesis
    using ok by (simp add: live_dispose_def Let_def fold_invariant [of graph_ok] sub)
qed

lemma graph_ok_dispose_settled:
  assumes ok: "graph_ok s" and "live_disposing s \<longrightarrow> live_disposed s"
  shows "graph_ok (dispose_settled s)"
proof -
  have f: "graph (fold clearReplay xs s) = graph s" for xs
    by (simp add: graph_fold)
  have g: "graph (dispose_settled s) = (if live_disposing s \<and> \<not> (\<exists>p\<in>set (running_promises s). \<not> snd p)
      then graph (s\<lparr>shared_operations := []\<rparr>) else graph s)"
    using f [of "map snd (shared_operations s)"] by (simp add: dispose_settled_def Let_def) (simp add: graph_def)
  have "live_disposed s \<Longrightarrow> graph_ok (s\<lparr>shared_operations := []\<rparr>)"
    using ok by (simp add: graph_ok_def)
  then show ?thesis
    using ok assms(2) graph_cong [OF g [THEN trans, OF if_P]] graph_cong [OF g [THEN trans, OF if_not_P]] by blast
qed

end
