(* ===== verification/Live_Limits.thy ===== *)
theory Live_Limits
  imports Live_Graph
begin

text \<open>
  Invariants of live queries, second part: the counters and their limits.

  A connection that replaces one of its operations reserves nothing for the replacement; when the operation goes
  away meanwhile, because a result was too large, the replacement is counted by nobody until it is complete. \<open>load\<close>
  is what a connection uses and has reserved, with such a replacement.
\<close>

section \<open>The view\<close>

definition size_rejected :: "live_state \<Rightarrow> bool" where
  "size_rejected s \<longleftrightarrow> Rejected Result_Size \<in> set (live_outputs s)"

definition counts where
  "counts s = ((\<lambda>c. let k = lv_conns s c in (lc_operations k, lc_link k, lc_chain k, lc_pending k, lc_closed k)), conn_count s,
     active_operations s, pending_operations s, size_rejected s)"

lemma counts_iff:
  "counts t = counts s \<longleftrightarrow>
     (\<forall>c. lc_operations (lv_conns t c) = lc_operations (lv_conns s c) \<and> lc_link (lv_conns t c) = lc_link (lv_conns s c)
        \<and> lc_chain (lv_conns t c) = lc_chain (lv_conns s c) \<and> lc_pending (lv_conns t c) = lc_pending (lv_conns s c)
        \<and> lc_closed (lv_conns t c) = lc_closed (lv_conns s c))
     \<and> conn_count t = conn_count s \<and> active_operations t = active_operations s
     \<and> pending_operations t = pending_operations s \<and> size_rejected t = size_rejected s"
  by (auto simp: counts_def fun_eq_iff Let_def)

definition waiting :: "chain_link \<Rightarrow> int" where
  "waiting link = (case link of Link_Subscribe t \<Rightarrow> if tk_replaces t then 0 else 1 | _ \<Rightarrow> 0)"

definition stale :: "live_socket \<Rightarrow> int" where
  "stale k = (case lc_link k of Link_Subscribe t \<Rightarrow> if tk_replaces t \<and> tk_id t \<notin> fst ` set (lc_operations k) then 1 else 0 | _ \<Rightarrow> 0)"

definition load :: "live_socket \<Rightarrow> int" where
  "load k = int (length (lc_operations k)) + waiting (lc_link k) + stale k"

definition busy_link :: "chain_link \<Rightarrow> nat" where
  "busy_link link = (if link = Link_None then 0 else 1)"

text \<open>What holds of one connection.\<close>

definition conn_ok :: "live_config \<Rightarrow> live_socket \<Rightarrow> bool" where
  "conn_ok cfg k \<longleftrightarrow>
     length (lc_operations k) \<le> max_operations_per_connection cfg
     \<and> (\<forall>t. lc_link k = Link_Subscribe t \<longrightarrow>
          length (delete_key (tk_id t) (lc_operations k)) < max_operations_per_connection cfg
          \<and> (\<not> tk_replaces t \<longrightarrow> tk_id t \<notin> fst ` set (lc_operations k)))
     \<and> lc_pending k = length (lc_chain k) + busy_link (lc_link k) \<and> lc_pending k \<le> max_pending_messages cfg"

definition kept_replaced :: "live_socket \<Rightarrow> bool" where
  "kept_replaced k \<longleftrightarrow> lc_closed k \<or> (\<forall>t. lc_link k = Link_Subscribe t \<and> tk_replaces t \<longrightarrow> tk_id t \<in> fst ` set (lc_operations k))"

definition limits_ok :: "live_config \<Rightarrow> live_state \<Rightarrow> bool" where
  "limits_ok cfg s \<longleftrightarrow>
     (\<forall>c. conn_ok cfg (lv_conns s c))
     \<and> (\<forall>c. conn_count s \<le> c \<longrightarrow> lc_operations (lv_conns s c) = [] \<and> lc_link (lv_conns s c) = Link_None \<and> lc_chain (lv_conns s c) = [])
     \<and> active_operations s = (\<Sum>c<conn_count s. int (length (lc_operations (lv_conns s c))))
     \<and> pending_operations s = (\<Sum>c<conn_count s. waiting (lc_link (lv_conns s c)))
     \<and> (\<Sum>c<conn_count s. load (lv_conns s c)) \<le> int (max_operations cfg) + int (conn_count s)
     \<and> (size_rejected s \<or> active_operations s + pending_operations s \<le> int (max_operations cfg) \<and> (\<forall>c. kept_replaced (lv_conns s c)))"

lemma limits_cong: "counts t = counts s \<Longrightarrow> limits_ok cfg t = limits_ok cfg s"
  unfolding counts_iff limits_ok_def conn_ok_def kept_replaced_def load_def stale_def by (simp cong: chain_link.case_cong)

section \<open>What keeps the counters\<close>

lemma counts_out [simp]: "e \<noteq> Rejected Result_Size \<Longrightarrow> counts (lv_out e s) = counts s"
  by (auto simp: counts_def live_defs size_rejected_def)

lemma counts_send [simp]: "counts (lv_send c f s) = counts s" "counts (lv_error c mid message s) = counts s"
    "counts (updateQueueDepth s) = counts s"
  by (simp_all add: counts_def live_defs updateQueueDepth_def size_rejected_def)

lemma counts_on [simp]: "counts (on_op x f s) = counts s" "counts (on_sub i g s) = counts s"
  by (simp_all add: counts_def live_defs size_rejected_def)

lemma counts_on_conn:
  "(\<And>k. lc_operations (f k) = lc_operations k \<and> lc_link (f k) = lc_link k \<and> lc_chain (f k) = lc_chain k
      \<and> lc_pending (f k) = lc_pending k \<and> lc_closed (f k) = lc_closed k) \<Longrightarrow> counts (on_conn c f s) = counts s"
  by (simp add: counts_iff live_defs size_rejected_def)

lemma counts_fields [simp]:
  "counts (s\<lparr>initial_queue := a\<rparr>) = counts s" "counts (s\<lparr>rerun_queue := a\<rparr>) = counts s" "counts (s\<lparr>replay_order := r\<rparr>) = counts s"
  "counts (s\<lparr>running_promises := p\<rparr>) = counts s" "counts (s\<lparr>running_executions := n\<rparr>) = counts s"
  "counts (s\<lparr>live_debounce := b\<rparr>) = counts s" "counts (s\<lparr>cached_result_bytes := n\<rparr>) = counts s"
  "counts (s\<lparr>live_disposing := b\<rparr>) = counts s" "counts (s\<lparr>live_disposed := b\<rparr>) = counts s"
  "counts (s\<lparr>shared_operations := sh\<rparr>) = counts s" "counts (s\<lparr>op_count := m\<rparr>) = counts s" "counts (s\<lparr>sub_count := m\<rparr>) = counts s"
  by (simp_all add: counts_def size_rejected_def)

lemma counts_fold: "(\<And>a t. counts (f a t) = counts t) \<Longrightarrow> counts (fold f xs s) = counts s"
  by (induction xs arbitrary: s) simp_all

lemma counts_clearReplay [simp]: "counts (clearReplay x s) = counts s"
  by (simp add: clearReplay_def Let_def)

lemma counts_make_room [simp]: "counts (make_room fuel limit bytes s) = counts s"
  by (induction fuel limit bytes s rule: make_room.induct) (auto split: list.splits)

lemma counts_cacheReplay [simp]: "counts (cacheReplay cfg x r s) = counts s"
  by (simp add: cacheReplay_def Let_def)

lemma counts_removeQueued [simp]: "counts (removeQueuedOperation x s) = counts s"
  by (simp add: removeQueuedOperation_def Let_def split: option.split)

lemma counts_drop [simp]: "counts (drop_shared x s) = counts s"
  by (simp add: drop_shared_def Let_def)

lemma counts_start [simp]: "counts (start_execution x s) = counts s"
  by (simp add: start_execution_def Let_def)

lemma counts_next: "nextQueuedOperation s = Some (x, t) \<Longrightarrow> counts t = counts s"
  by (auto simp: nextQueuedOperation_def split: list.splits)

lemma counts_pump [simp]: "counts (pumpQueue cfg s) = counts s"
proof (induction cfg s rule: pumpQueue.induct)
  case (1 cfg s)
  then show ?case
    by (subst pumpQueue.simps) (auto split: option.split dest: counts_next)
qed

lemma counts_enqueue [simp]: "counts (enqueue cfg x k s) = counts s"
  by (simp add: enqueue_def Let_def)

lemma counts_deliver [simp]: "counts (deliver_result changed r i s) = counts s"
  by (simp add: deliver_result_def Let_def)

lemma counts_fail [simp]: "counts (fail_subscriber m i s) = counts s"
  by (simp add: fail_subscriber_def Let_def)

lemma counts_settle [simp]: "counts (settle_promise x s) = counts s"
  by (simp add: settle_promise_def)

lemma counts_execution_error [simp]: "counts (execution_error x m s) = counts s"
  by (simp add: execution_error_def counts_fold)

lemma counts_finally [simp]: "counts (execution_finally cfg x s) = counts s"
  by (simp add: execution_finally_def Let_def)

lemma counts_rerunAll [simp]: "counts (rerunAll cfg s) = counts s"
  by (simp add: rerunAll_def counts_fold)

lemma counts_schedule [simp]: "counts (scheduleRerunAll s) = counts s"
  by (simp add: scheduleRerunAll_def)

lemma counts_replay_to [simp]: "counts (replay_to c i x s) = counts s"
  by (simp add: replay_to_def Let_def split: option.split)

lemma counts_dispose_settled [simp]: "counts (dispose_settled s) = counts s"
  by (simp add: dispose_settled_def Let_def counts_fold)

lemma counts_get_shared: "get_shared cfg c key payload query s = (x, t) \<Longrightarrow> counts t = counts s"
  by (auto simp: get_shared_def Let_def split: option.splits)

lemmas counts_frames = counts_out counts_send counts_on counts_fields counts_clearReplay counts_cacheReplay
  counts_removeQueued counts_drop counts_pump counts_enqueue counts_settle counts_execution_error counts_finally
  counts_rerunAll counts_schedule counts_replay_to counts_dispose_settled counts_on_conn

lemmas limits_ok_simps [simp] = counts_frames [THEN limits_cong]

section \<open>What changes the counters\<close>

lemma counts_setActiveDelta: "counts (setActiveDelta d s) = counts (s\<lparr>active_operations := active_operations s + d\<rparr>)"
  by (simp add: setActiveDelta_def Let_def)

lemma counts_delete:
  assumes "map_of (lc_operations (lv_conns s c)) mid = Some i"
  shows "counts (deleteOperation c mid s) =
    counts ((on_conn c (\<lambda>k. k\<lparr>lc_operations := delete_key mid (lc_operations k)\<rparr>) s)\<lparr>active_operations := active_operations s - 1\<rparr>)"
  using assms
  by (simp add: deleteOperation_cases Let_def counts_setActiveDelta detach_def) (simp add: counts_def live_defs size_rejected_def)

lemma sum_replace:
  assumes "c < (n :: nat)" "\<And>c'. c' \<noteq> c \<Longrightarrow> g c' = f c'"
  shows "(\<Sum>c'<n. g c') = (\<Sum>c'<n. f c') - f c + (g c :: int)"
proof -
  have "(\<Sum>c'<n. h c') = h c + (\<Sum>c'\<in>{..<n} - {c}. h c')" for h :: "nat \<Rightarrow> int"
    using assms(1) by (intro sum.remove) simp_all
  moreover have "(\<Sum>c'\<in>{..<n} - {c}. g c') = (\<Sum>c'\<in>{..<n} - {c}. f c')"
    using assms(2) by (intro sum.cong) simp_all
  ultimately show ?thesis
    by simp
qed

lemma stale_bounds: "0 \<le> stale k" "stale k \<le> 1" "0 \<le> waiting l" "waiting l \<le> 1"
  by (simp_all add: stale_def waiting_def split: chain_link.split)

text \<open>One connection changes: \<open>load\<close> does not grow, or grows by one below the limit.\<close>

lemma limits_step:
  assumes ok: "limits_ok cfg s" and c: "c < conn_count s" "conn_count t = conn_count s"
    and others: "\<And>c'. c' \<noteq> c \<Longrightarrow> lc_operations (lv_conns t c') = lc_operations (lv_conns s c') \<and> lc_link (lv_conns t c') = lc_link (lv_conns s c')
        \<and> lc_chain (lv_conns t c') = lc_chain (lv_conns s c') \<and> lc_pending (lv_conns t c') = lc_pending (lv_conns s c')
        \<and> lc_closed (lv_conns t c') = lc_closed (lv_conns s c')"
    and conn: "conn_ok cfg (lv_conns t c)"
    and active: "active_operations t = active_operations s - int (length (lc_operations (lv_conns s c))) + int (length (lc_operations (lv_conns t c)))"
    and pending: "pending_operations t = pending_operations s - waiting (lc_link (lv_conns s c)) + waiting (lc_link (lv_conns t c))"
    and load: "load (lv_conns t c) \<le> load (lv_conns s c)
      \<or> load (lv_conns t c) \<le> load (lv_conns s c) + 1 \<and> active_operations s + pending_operations s < int (max_operations cfg)"
    and exact: "size_rejected t \<or> \<not> size_rejected s
      \<and> (kept_replaced (lv_conns s c) \<longrightarrow> kept_replaced (lv_conns t c)
          \<and> (active_operations s + pending_operations s \<le> int (max_operations cfg) \<longrightarrow> active_operations t + pending_operations t \<le> int (max_operations cfg)))"
  shows "limits_ok cfg t"
proof -
  have o: "conn_ok cfg (lv_conns t c') = conn_ok cfg (lv_conns s c')" "kept_replaced (lv_conns t c') = kept_replaced (lv_conns s c')"
      "load (lv_conns t c') = load (lv_conns s c')" if "c' \<noteq> c" for c'
    using others [OF that] by (simp_all add: conn_ok_def kept_replaced_def load_def stale_def cong: chain_link.case_cong)
  have sums: "(\<Sum>c'<conn_count s. g (lv_conns t c')) = (\<Sum>c'<conn_count s. g (lv_conns s c')) - g (lv_conns s c) + g (lv_conns t c)"
    if "\<And>c'. c' \<noteq> c \<Longrightarrow> g (lv_conns t c') = g (lv_conns s c')" for g :: "live_socket \<Rightarrow> int"
    using sum_replace [OF c(1) that] .
  have A: "active_operations s = (\<Sum>c<conn_count s. int (length (lc_operations (lv_conns s c))))"
    and P: "pending_operations s = (\<Sum>c<conn_count s. waiting (lc_link (lv_conns s c)))"
    and L: "(\<Sum>c<conn_count s. load (lv_conns s c)) \<le> int (max_operations cfg) + int (conn_count s)"
    using ok by (simp_all add: limits_ok_def)
  have "(\<Sum>c<conn_count s. stale (lv_conns s c)) \<le> (\<Sum>c<conn_count s. 1)"
    by (rule sum_mono) (rule stale_bounds)
  then have "(\<Sum>c<conn_count s. load (lv_conns s c)) \<le> active_operations s + pending_operations s + int (conn_count s)"
    by (simp add: A P load_def sum.distrib)
  then have L': "(\<Sum>c'<conn_count s. load (lv_conns t c')) \<le> int (max_operations cfg) + int (conn_count s)"
    using load L sums [of load, OF o(3)] by linarith
  show ?thesis
    unfolding limits_ok_def c(2)
  proof (intro conjI)
    show "\<forall>c'. conn_ok cfg (lv_conns t c')"
      using ok conn o(1) unfolding limits_ok_def by metis
    show "\<forall>c'. conn_count s \<le> c' \<longrightarrow> lc_operations (lv_conns t c') = [] \<and> lc_link (lv_conns t c') = Link_None \<and> lc_chain (lv_conns t c') = []"
      using ok others c(1) unfolding limits_ok_def by (metis linorder_not_less)
    show "active_operations t = (\<Sum>c<conn_count s. int (length (lc_operations (lv_conns t c))))"
      using sums [of "\<lambda>k. int (length (lc_operations k))"] others by (simp add: active A)
    show "pending_operations t = (\<Sum>c<conn_count s. waiting (lc_link (lv_conns t c)))"
      using sums [of "\<lambda>k. waiting (lc_link k)"] others by (simp add: pending P)
    show "(\<Sum>c<conn_count s. load (lv_conns t c)) \<le> int (max_operations cfg) + int (conn_count s)"
      by (rule L')
    show "size_rejected t \<or> active_operations t + pending_operations t \<le> int (max_operations cfg) \<and> (\<forall>c. kept_replaced (lv_conns t c))"
      using exact ok o(2) unfolding limits_ok_def by metis
  qed
qed

lemma limits_okD:
  assumes "limits_ok cfg s"
  shows "conn_ok cfg (lv_conns s c)"
    and "lc_operations (lv_conns s c) \<noteq> [] \<Longrightarrow> c < conn_count s" "lc_link (lv_conns s c) \<noteq> Link_None \<Longrightarrow> c < conn_count s"
    "lc_chain (lv_conns s c) \<noteq> [] \<Longrightarrow> c < conn_count s"
  using assms unfolding limits_ok_def by (meson linorder_not_less)+

lemma delete_key_length:
  assumes "distinct (map fst kvs)" "k \<in> fst ` set kvs"
  shows "length (delete_key k kvs) + 1 = length kvs"
  using assms
proof (induction kvs)
  case (Cons e kvs)
  show ?case
  proof (cases "fst e = k")
    case True
    then have "delete_key k kvs = kvs"
      using Cons.prems(1) by (intro delete_key_absent) auto
    with True show ?thesis
      by (simp add: delete_key_def)
  next
    case False
    with Cons show ?thesis
      by (simp add: delete_key_def image_iff)
  qed
qed simp

lemma delete_limits:
  assumes ok: "limits_ok cfg s" and g: "graph_ok s"
    and free: "size_rejected s \<or> lc_closed (lv_conns s c) \<or> (\<forall>t. lc_link (lv_conns s c) \<noteq> Link_Subscribe t)"
  shows "limits_ok cfg (deleteOperation c mid s)"
proof (cases "map_of (lc_operations (lv_conns s c)) mid")
  case None
  with ok show ?thesis
    by (simp add: delete_none)
next
  case (Some i)
  then have mid: "(mid, i) \<in> set (lc_operations (lv_conns s c))"
    by (rule map_of_SomeD)
  then have len: "length (delete_key mid (lc_operations (lv_conns s c))) + 1 = length (lc_operations (lv_conns s c))"
    using graph_okD(1) [OF g] by (intro delete_key_length) force+
  have sub: "length (delete_key k (delete_key mid kvs)) \<le> length (delete_key k kvs)" "fst ` set (delete_key mid kvs) \<subseteq> fst ` set kvs" for k and kvs :: "(jstring \<times> nat) list"
  proof -
    have "delete_key k (delete_key mid kvs) = delete_key mid (delete_key k kvs)"
      by (simp add: delete_key_def conj_commute)
    then show "length (delete_key k (delete_key mid kvs)) \<le> length (delete_key k kvs)"
      by (simp add: delete_key_def [of mid])
  qed auto
  let ?u = "(on_conn c (\<lambda>k. k\<lparr>lc_operations := delete_key mid (lc_operations k)\<rparr>) s)\<lparr>active_operations := active_operations s - 1\<rparr>"
  let ?k = "(lv_conns s c)\<lparr>lc_operations := delete_key mid (lc_operations (lv_conns s c))\<rparr>"
  have u: "lv_conns ?u = (lv_conns s)(c := ?k)" "conn_count ?u = conn_count s" "pending_operations ?u = pending_operations s"
      "active_operations ?u = active_operations s - 1" "size_rejected ?u = size_rejected s"
    by (simp_all add: live_defs size_rejected_def)
  have "limits_ok cfg ?u"
  proof (rule limits_step [OF ok])
    show "c < conn_count s"
      using limits_okD(2) [OF ok, of c] mid by force
    show "conn_ok cfg (lv_conns ?u c)"
    proof -
      note k = limits_okD(1) [OF ok, of c, unfolded conn_ok_def]
      have "length (delete_key mid (lc_operations (lv_conns s c))) \<le> max_operations_per_connection cfg"
        using k len by linarith
      moreover have "length (delete_key (tk_id t) (delete_key mid (lc_operations (lv_conns s c)))) < max_operations_per_connection cfg"
        if "lc_link (lv_conns s c) = Link_Subscribe t" for t
        using k that by (blast intro: order.strict_trans1 [OF sub(1)])
      moreover have "tk_id t \<notin> fst ` set (delete_key mid (lc_operations (lv_conns s c)))"
        if "lc_link (lv_conns s c) = Link_Subscribe t" "\<not> tk_replaces t" for t
        using k that sub(2) by blast
      ultimately show ?thesis
        using k unfolding u conn_ok_def by simp
    qed
    show "load (lv_conns ?u c) \<le> load (lv_conns s c) \<or> load (lv_conns ?u c) \<le> load (lv_conns s c) + 1 \<and>
        active_operations s + pending_operations s < int (max_operations cfg)"
      using len stale_bounds(1,2) [of "lv_conns s c"] stale_bounds(1,2) [of ?k] unfolding u by (simp add: load_def)
    show "size_rejected ?u \<or> \<not> size_rejected s \<and> (kept_replaced (lv_conns s c) \<longrightarrow> kept_replaced (lv_conns ?u c)
        \<and> (active_operations s + pending_operations s \<le> int (max_operations cfg) \<longrightarrow> active_operations ?u + pending_operations ?u \<le> int (max_operations cfg)))"
      using free unfolding u by (auto simp: kept_replaced_def)
  qed (use len in \<open>simp_all add: u\<close>)
  then show ?thesis
    using limits_cong [OF counts_delete [OF Some]] by simp
qed

section \<open>Every step keeps the limits\<close>

lemma counts_refuse [simp]: "r \<noteq> Result_Size \<Longrightarrow> counts (refuse c mid r message s) = counts s"
  by (simp add: refuse_def)

lemma counts_congs:
  "counts t = counts s \<Longrightarrow> counts (link_done c t) = counts (link_done c s)"
  "counts t = counts s \<Longrightarrow> counts (release_pending b t) = counts (release_pending b s)"
  "counts t = counts s \<Longrightarrow> counts (end_subscribe c b t) = counts (end_subscribe c b s)"
  by (simp_all add: counts_iff end_subscribe_def release_pending_def link_done_def live_defs size_rejected_def)

lemma counts_refused [simp]:
  "r \<noteq> Result_Size \<Longrightarrow> counts (link_done c (refuse c mid r message s)) = counts (link_done c s)"
  "r \<noteq> Result_Size \<Longrightarrow> counts (end_subscribe c b (refuse c mid r message s)) = counts (end_subscribe c b s)"
  by (intro counts_congs counts_refuse; assumption)+

lemma begin_counts:
  obtains (settled) "counts (begin_subscribe cfg c message s) = counts (link_done c s)"
  | (task) task where "tk_replaces task \<longleftrightarrow> tk_id task \<in> fst ` set (lc_operations (lv_conns s c))"
      "\<not> tk_replaces task \<Longrightarrow> active_operations s + pending_operations s < int (max_operations cfg)
        \<and> length (lc_operations (lv_conns s c)) < max_operations_per_connection cfg"
      "counts (begin_subscribe cfg c message s) = counts ((on_conn c (\<lambda>k. k\<lparr>lc_link := Link_Subscribe task\<rparr>) s)
        \<lparr>pending_operations := pending_operations s + waiting (Link_Subscribe task)\<rparr>)"
proof (cases "message_id message")
  case None
  then show thesis
    by (intro settled) (simp add: begin_subscribe_def)
next
  case (Some mid)
  let ?ops = "lc_operations (lv_conns s c)"
  let ?replaces = "mid \<in> fst ` set ?ops"
  consider (full) "int (max_operations cfg) \<le> active_operations s + pending_operations s" "\<not> ?replaces"
    | (crowded) "max_operations_per_connection cfg \<le> length ?ops" "\<not> ?replaces"
        "\<not> int (max_operations cfg) \<le> active_operations s + pending_operations s"
    | (bad) "normalizePayload (json_opt (Some message) ''payload'') = None"
        "\<not> (int (max_operations cfg) \<le> active_operations s + pending_operations s \<and> \<not> ?replaces)"
        "\<not> (max_operations_per_connection cfg \<le> length ?ops \<and> \<not> ?replaces)"
    | (ok) payload where "normalizePayload (json_opt (Some message) ''payload'') = Some payload"
        "\<not> (int (max_operations cfg) \<le> active_operations s + pending_operations s \<and> \<not> ?replaces)"
        "\<not> (max_operations_per_connection cfg \<le> length ?ops \<and> \<not> ?replaces)"
    by (cases "normalizePayload (json_opt (Some message) ''payload'')") blast+
  then show thesis
  proof cases
    case full
    then have "begin_subscribe cfg c message s
        = link_done c (refuse c (Some mid) Global_Limit (lit ''Too many live query operations'') s)"
      unfolding begin_subscribe_def Let_def using Some by simp
    then show thesis
      by (intro settled) simp
  next
    case crowded
    then have "begin_subscribe cfg c message s
        = link_done c (refuse c (Some mid) Connection_Limit (lit ''Too many live query operations on this connection'') s)"
      unfolding begin_subscribe_def Let_def using Some by simp
    then show thesis
      by (intro settled) simp
  next
    case bad
    let ?s = "if \<not> ?replaces then s\<lparr>pending_operations := pending_operations s + 1\<rparr> else s"
    have "begin_subscribe cfg c message s
        = end_subscribe c ?replaces (refuse c (Some mid) Invalid_Message (lit ''Subscribe payload requires query'') ?s)"
      unfolding begin_subscribe_def Let_def using Some bad by auto
    then have "counts (begin_subscribe cfg c message s) = counts (end_subscribe c ?replaces ?s)"
      by (simp only: counts_refused reject_kind.distinct not_False_eq_True)
    then show thesis
      by (intro settled) (simp add: end_subscribe_def release_pending_def link_done_def counts_iff live_defs size_rejected_def)
  next
    case (ok payload)
    define task where "task = \<lparr>tk_id = mid, tk_payload = payload, tk_replaces = ?replaces, tk_stage = At_Cost\<rparr>"
    let ?s = "if \<not> ?replaces then s\<lparr>pending_operations := pending_operations s + 1\<rparr> else s"
    have b: "begin_subscribe cfg c message s = lv_out (Cost_Asked c payload) (on_conn c (\<lambda>k. k\<lparr>lc_link := Link_Subscribe task\<rparr>) ?s)"
      unfolding begin_subscribe_def Let_def task_def using Some ok by auto
    show thesis
    proof (rule task [of task])
      show "counts (begin_subscribe cfg c message s) = counts ((on_conn c (\<lambda>k. k\<lparr>lc_link := Link_Subscribe task\<rparr>) s)
          \<lparr>pending_operations := pending_operations s + waiting (Link_Subscribe task)\<rparr>)"
        unfolding b by (simp add: counts_iff live_defs size_rejected_def waiting_def task_def)
    qed (use ok in \<open>auto simp: task_def not_le\<close>)
  qed
qed

text \<open>The head of the chain is taken, and its link is done or waits for the cost.\<close>

lemma chain_taken:
  assumes ok: "limits_ok cfg s" and chain: "lc_link (lv_conns s c) = Link_None" "lc_chain (lv_conns s c) = message # rest"
    and t: "lv_conns t = (lv_conns s)(c := (lv_conns s c)\<lparr>lc_chain := rest, lc_protocol := p, lc_link := link\<rparr>)"
      "conn_count t = conn_count s" "active_operations t = active_operations s"
      "pending_operations t = pending_operations s + waiting link" "size_rejected t = size_rejected s"
    and link: "link = Link_Done \<or> (\<exists>task. link = Link_Subscribe task
      \<and> (tk_replaces task \<longleftrightarrow> tk_id task \<in> fst ` set (lc_operations (lv_conns s c)))
      \<and> (\<not> tk_replaces task \<longrightarrow> active_operations s + pending_operations s < int (max_operations cfg)
          \<and> length (lc_operations (lv_conns s c)) < max_operations_per_connection cfg))"
    and g: "graph_ok s"
  shows "limits_ok cfg t"
proof (rule limits_step [OF ok, of c])
  let ?k = "lv_conns s c" and ?l = "(lv_conns s c)\<lparr>lc_chain := rest, lc_protocol := p, lc_link := link\<rparr>"
  note k = limits_okD(1) [OF ok, of c, unfolded conn_ok_def]
  show "c < conn_count s"
    using limits_okD(4) [OF ok, of c] chain by simp
  have shorter: "length (delete_key (tk_id task) (lc_operations ?k)) < max_operations_per_connection cfg"
    if "tk_id task \<in> fst ` set (lc_operations ?k)" for task
    using delete_key_length [OF graph_okD(1) [OF g, of c] that] k by linarith
  show "conn_ok cfg (lv_conns t c)"
    using link k shorter chain unfolding t by (auto simp: conn_ok_def busy_link_def delete_key_absent)
  show "load (lv_conns t c) \<le> load ?k \<or> load (lv_conns t c) \<le> load ?k + 1 \<and> active_operations s + pending_operations s < int (max_operations cfg)"
  proof (cases "link = Link_Done")
    case True
    with chain show ?thesis
      unfolding t by (simp add: load_def waiting_def stale_def)
  next
    case False
    with link obtain task where task: "link = Link_Subscribe task"
        "tk_replaces task \<longleftrightarrow> tk_id task \<in> fst ` set (lc_operations ?k)"
        "\<not> tk_replaces task \<longrightarrow> active_operations s + pending_operations s < int (max_operations cfg)"
      by blast
    have "load ?l = load ?k + (if tk_replaces task then 0 else 1)"
      using chain task(2) by (simp add: task(1) load_def waiting_def stale_def)
    with task(3) show ?thesis
      unfolding t fun_upd_same by (cases "tk_replaces task") simp_all
  qed
  show "size_rejected t \<or> \<not> size_rejected s \<and> (kept_replaced ?k \<longrightarrow> kept_replaced (lv_conns t c)
      \<and> (active_operations s + pending_operations s \<le> int (max_operations cfg) \<longrightarrow> active_operations t + pending_operations t \<le> int (max_operations cfg)))"
    using link unfolding t by (auto simp: kept_replaced_def waiting_def)
qed (use chain in \<open>simp_all add: t waiting_def\<close>)

lemma chain_limits:
  assumes ok: "limits_ok cfg s" and g: "graph_ok s"
  shows "limits_ok cfg (chain_runs cfg c s)"
proof (cases "lc_link (lv_conns s c) = Link_None \<and> lc_chain (lv_conns s c) \<noteq> []")
  case False
  then show ?thesis
    using ok by (auto simp: chain_runs_def split: chain_link.split list.split)
next
  case True
  then obtain message rest where chain: "lc_link (lv_conns s c) = Link_None" "lc_chain (lv_conns s c) = message # rest"
    by (cases "lc_chain (lv_conns s c)") auto
  let ?p = "\<lambda>p. on_conn c (\<lambda>k. k\<lparr>lc_protocol := p\<rparr>) (on_conn c (\<lambda>k. k\<lparr>lc_chain := rest\<rparr>) s)"
  let ?s0 = "on_conn c (\<lambda>k. k\<lparr>lc_chain := rest\<rparr>) s"
  have d: "limits_ok cfg (link_done c (?p p))" for p
    by (rule chain_taken [OF ok chain _ _ _ _ _ _ g, where p = p and link = Link_Done])
      (simp_all add: link_done_def live_defs waiting_def size_rejected_def)
  have d0: "limits_ok cfg (link_done c ?s0)"
    using d [of "lc_protocol (lv_conns s c)"] by (simp add: live_defs link_done_def)
  have b: "limits_ok cfg (begin_subscribe cfg c message (?p p))" for p
  proof (rule begin_counts [of cfg c message "?p p"])
    assume "counts (begin_subscribe cfg c message (?p p)) = counts (link_done c (?p p))"
    with d [of p] show ?thesis
      using limits_cong by blast
  next
    fix task
    assume a: "tk_replaces task \<longleftrightarrow> tk_id task \<in> fst ` set (lc_operations (lv_conns (?p p) c))"
      "\<not> tk_replaces task \<Longrightarrow> active_operations (?p p) + pending_operations (?p p) < int (max_operations cfg)
        \<and> length (lc_operations (lv_conns (?p p) c)) < max_operations_per_connection cfg"
      and eq: "counts (begin_subscribe cfg c message (?p p)) = counts ((on_conn c (\<lambda>k. k\<lparr>lc_link := Link_Subscribe task\<rparr>) (?p p))
        \<lparr>pending_operations := pending_operations (?p p) + waiting (Link_Subscribe task)\<rparr>)"
    have "limits_ok cfg ((on_conn c (\<lambda>k. k\<lparr>lc_link := Link_Subscribe task\<rparr>) (?p p))
        \<lparr>pending_operations := pending_operations (?p p) + waiting (Link_Subscribe task)\<rparr>)"
      by (rule chain_taken [OF ok chain _ _ _ _ _ _ g, where p = p and link = "Link_Subscribe task"]) (use a in \<open>simp_all add: live_defs size_rejected_def\<close>)
    then show ?thesis
      using limits_cong [OF eq] by simp
  qed
  have del: "limits_ok cfg (link_done c (deleteOperation c mid ?s0))" for mid
  proof -
    have "counts (link_done c (deleteOperation c mid ?s0)) = counts (deleteOperation c mid (link_done c ?s0))"
    proof (cases "map_of (lc_operations (lv_conns s c)) mid")
      case None
      then have "deleteOperation c mid ?s0 = ?s0" "deleteOperation c mid (link_done c ?s0) = link_done c ?s0"
        by (simp_all add: delete_none link_done_def live_defs)
      then show ?thesis
        by simp
    next
      case (Some i)
      then have "map_of (lc_operations (lv_conns ?s0 c)) mid = Some i" "map_of (lc_operations (lv_conns (link_done c ?s0) c)) mid = Some i"
        by (simp_all add: link_done_def live_defs)
      from this [THEN counts_delete] show ?thesis
        by (simp add: counts_iff link_done_def live_defs size_rejected_def)
    qed
    moreover have "limits_ok cfg (deleteOperation c mid (link_done c ?s0))"
    proof (rule delete_limits [OF d0])
      show "graph_ok (link_done c ?s0)"
        using g by simp
    qed (simp add: link_done_def live_defs)
    ultimately show ?thesis
      using limits_cong by blast
  qed
  show ?thesis
    using chain b d0 del by (auto simp: chain_runs_def handle_chained_def split: option.split)
qed

lemma end_limits:
  assumes ok: "limits_ok cfg s" and link: "lc_link (lv_conns s c) = Link_Subscribe task"
  shows "limits_ok cfg (end_subscribe c (tk_replaces task) s)"
proof (rule limits_step [OF ok, of c])
  let ?t = "end_subscribe c (tk_replaces task) s"
  have t: "lv_conns ?t = (lv_conns s)(c := (lv_conns s c)\<lparr>lc_link := Link_Done\<rparr>)" "conn_count ?t = conn_count s"
      "active_operations ?t = active_operations s" "size_rejected ?t = size_rejected s"
      "pending_operations ?t = pending_operations s - waiting (Link_Subscribe task)"
    by (simp_all add: end_subscribe_def release_pending_def link_done_def live_defs size_rejected_def waiting_def)
  note k = limits_okD(1) [OF ok, of c, unfolded conn_ok_def]
  show "c < conn_count s"
    using limits_okD(3) [OF ok, of c] link by simp
  show "conn_ok cfg (lv_conns ?t c)"
    using k unfolding t by (simp add: conn_ok_def busy_link_def link)
  show "load (lv_conns ?t c) \<le> load (lv_conns s c) \<or> load (lv_conns ?t c) \<le> load (lv_conns s c) + 1 \<and> active_operations s + pending_operations s < int (max_operations cfg)"
    using stale_bounds(1,2) [of "lv_conns s c"] unfolding t by (simp add: load_def stale_def waiting_def link)
  show "size_rejected ?t \<or> \<not> size_rejected s \<and> (kept_replaced (lv_conns s c) \<longrightarrow> kept_replaced (lv_conns ?t c)
      \<and> (active_operations s + pending_operations s \<le> int (max_operations cfg) \<longrightarrow> active_operations ?t + pending_operations ?t \<le> int (max_operations cfg)))"
    unfolding t by (auto simp: kept_replaced_def waiting_def)
qed (simp_all add: end_subscribe_def release_pending_def link_done_def live_defs link waiting_def)

lemma stage_limits:
  assumes ok: "limits_ok cfg s" and link: "lc_link (lv_conns s c) = Link_Subscribe task"
  shows "limits_ok cfg (next_stage c task stage s)"
proof (rule limits_step [OF ok, of c])
  let ?t = "next_stage c task stage s"
  have t: "lv_conns ?t = (lv_conns s)(c := (lv_conns s c)\<lparr>lc_link := Link_Subscribe (task\<lparr>tk_stage := stage\<rparr>)\<rparr>)"
      "active_operations ?t = active_operations s" "size_rejected ?t = size_rejected s" "pending_operations ?t = pending_operations s"
    by (simp_all add: next_stage_def live_defs size_rejected_def)
  show "c < conn_count s"
    using limits_okD(3) [OF ok, of c] link by simp
  show "conn_ok cfg (lv_conns ?t c)"
    using limits_okD(1) [OF ok, of c] unfolding t by (simp add: conn_ok_def busy_link_def link)
  show "load (lv_conns ?t c) \<le> load (lv_conns s c) \<or> load (lv_conns ?t c) \<le> load (lv_conns s c) + 1 \<and> active_operations s + pending_operations s < int (max_operations cfg)"
    unfolding t by (simp add: load_def stale_def waiting_def link)
  show "size_rejected ?t \<or> \<not> size_rejected s \<and> (kept_replaced (lv_conns s c) \<longrightarrow> kept_replaced (lv_conns ?t c)
      \<and> (active_operations s + pending_operations s \<le> int (max_operations cfg) \<longrightarrow> active_operations ?t + pending_operations ?t \<le> int (max_operations cfg)))"
    unfolding t by (simp add: kept_replaced_def link)
qed (simp_all add: next_stage_def live_defs link waiting_def)

text \<open>A subscription completes: its reservation, or the place of the operation it replaces, becomes an operation.\<close>

lemma complete_counts:
  assumes closed: "\<not> lc_closed (lv_conns s c)"
    and t_def: "t = complete_subscribe cfg c task query scope s"
  shows "\<exists>i. lc_operations (lv_conns t c) = delete_key (tk_id task) (lc_operations (lv_conns s c)) @ [(tk_id task, i)]"
    "lc_link (lv_conns t c) = Link_Done" "lc_chain (lv_conns t c) = lc_chain (lv_conns s c)"
    "lc_pending (lv_conns t c) = lc_pending (lv_conns s c)" "lc_closed (lv_conns t c) = lc_closed (lv_conns s c)"
    "c' \<noteq> c \<Longrightarrow> lc_operations (lv_conns t c') = lc_operations (lv_conns s c') \<and> lc_link (lv_conns t c') = lc_link (lv_conns s c')
        \<and> lc_chain (lv_conns t c') = lc_chain (lv_conns s c') \<and> lc_pending (lv_conns t c') = lc_pending (lv_conns s c')
        \<and> lc_closed (lv_conns t c') = lc_closed (lv_conns s c')"
    "conn_count t = conn_count s" "size_rejected t = size_rejected s"
    "active_operations t = active_operations s + (if tk_id task \<in> fst ` set (lc_operations (lv_conns s c)) then 0 else 1)"
    "pending_operations t = pending_operations s - waiting (Link_Subscribe task)"
proof -
  let ?s1 = "deleteOperation c (tk_id task) s" and ?ops = "lc_operations (lv_conns s c)"
  define key where "key = operation_key (live_locale cfg) (case scope of Some k \<Rightarrow> k | None \<Rightarrow> lit ''public'') (tk_payload task) query"
  obtain x u where u: "get_shared cfg c key (tk_payload task) query ?s1 = (x, u)"
    by (cases "get_shared cfg c key (tk_payload task) query ?s1")
  define i where "i = sub_count u"
  define v where "v = add_subscription c (tk_id task) x u"
  have t: "counts t = counts (end_subscribe c (tk_replaces task) v)"
    using closed u unfolding t_def complete_subscribe_def Let_def key_def [symmetric] v_def
    by (auto intro!: counts_congs)
  have s1: "counts ?s1 = counts ((on_conn c (\<lambda>k. k\<lparr>lc_operations := delete_key (tk_id task) (lc_operations k)\<rparr>) s)
      \<lparr>active_operations := active_operations s - (if tk_id task \<in> fst ` set ?ops then 1 else 0)\<rparr>)"
  proof (cases "map_of ?ops (tk_id task)")
    case None
    then have "tk_id task \<notin> fst ` set ?ops"
      by (simp add: map_of_eq_None_iff)
    with None show ?thesis
      by (simp add: delete_none counts_iff live_defs delete_key_absent size_rejected_def)
  next
    case (Some j)
    then have "tk_id task \<in> fst ` set ?ops"
      by (force dest: map_of_SomeD)
    with counts_delete [OF Some] show ?thesis
      by simp
  qed
  have none: "tk_id task \<notin> fst ` set (delete_key (tk_id task) ?ops)"
    by auto
  have ops: "lc_operations (lv_conns u c) = delete_key (tk_id task) ?ops"
    using counts_get_shared [OF u] s1 unfolding counts_iff by (simp add: live_defs)
  have v': "counts v = counts ((on_conn c (\<lambda>k. k\<lparr>lc_operations := delete_key (tk_id task) ?ops @ [(tk_id task, i)]\<rparr>) u)
      \<lparr>active_operations := active_operations u + 1\<rparr>)"
    by (simp add: v_def add_subscription_def Let_def counts_setActiveDelta)
      (simp add: counts_iff live_defs size_rejected_def i_def ops put_key_new [OF none])
  note eqs = t [unfolded counts_iff] v' [unfolded counts_iff] counts_get_shared [OF u, unfolded counts_iff] s1 [unfolded counts_iff]
  have e: "lv_conns (end_subscribe c b w) = (lv_conns w)(c := (lv_conns w c)\<lparr>lc_link := Link_Done\<rparr>)" "conn_count (end_subscribe c b w) = conn_count w"
      "active_operations (end_subscribe c b w) = active_operations w" "size_rejected (end_subscribe c b w) = size_rejected w"
      "pending_operations (end_subscribe c b w) = pending_operations w - (if b then 0 else 1)" for b w
    by (simp_all add: end_subscribe_def release_pending_def link_done_def live_defs size_rejected_def)
  have sz: "size_rejected (s'\<lparr>active_operations := n\<rparr>) = size_rejected s'" "size_rejected (on_conn c f s') = size_rejected s'" for s' n f
    by (simp_all add: size_rejected_def live_defs)
  show "\<exists>i. lc_operations (lv_conns t c) = delete_key (tk_id task) ?ops @ [(tk_id task, i)]"
    "lc_link (lv_conns t c) = Link_Done" "lc_chain (lv_conns t c) = lc_chain (lv_conns s c)"
    "lc_pending (lv_conns t c) = lc_pending (lv_conns s c)" "lc_closed (lv_conns t c) = lc_closed (lv_conns s c)"
    "c' \<noteq> c \<Longrightarrow> lc_operations (lv_conns t c') = lc_operations (lv_conns s c') \<and> lc_link (lv_conns t c') = lc_link (lv_conns s c')
        \<and> lc_chain (lv_conns t c') = lc_chain (lv_conns s c') \<and> lc_pending (lv_conns t c') = lc_pending (lv_conns s c')
        \<and> lc_closed (lv_conns t c') = lc_closed (lv_conns s c')"
    "conn_count t = conn_count s" "size_rejected t = size_rejected s"
    "active_operations t = active_operations s + (if tk_id task \<in> fst ` set ?ops then 0 else 1)"
    "pending_operations t = pending_operations s - waiting (Link_Subscribe task)"
    using eqs by (simp_all add: e sz waiting_def) (simp_all add: live_defs)
qed

lemma complete_limits:
  assumes ok: "limits_ok cfg s" and g: "graph_ok s" and link: "lc_link (lv_conns s c) = Link_Subscribe task"
  shows "limits_ok cfg (complete_subscribe cfg c task query scope s)"
proof (cases "lc_closed (lv_conns s c)")
  case True
  with end_limits [OF ok link] show ?thesis
    by (simp add: complete_subscribe_def)
next
  case False
  let ?k = "lv_conns s c" and ?t = "complete_subscribe cfg c task query scope s"
  note t = complete_counts [OF False refl, where cfg = cfg and task = task and query = query and scope = scope]
  obtain i where ops: "lc_operations (lv_conns ?t c) = delete_key (tk_id task) (lc_operations ?k) @ [(tk_id task, i)]"
    using t(1) by blast
  note k = limits_okD(1) [OF ok, of c, unfolded conn_ok_def]
  have len: "int (length (lc_operations (lv_conns ?t c)))
      = int (length (lc_operations ?k)) + (if tk_id task \<in> fst ` set (lc_operations ?k) then 0 else 1)"
  proof (cases "tk_id task \<in> fst ` set (lc_operations ?k)")
    case True
    have "length (lc_operations (lv_conns ?t c)) = length (delete_key (tk_id task) (lc_operations ?k)) + 1"
      by (simp add: ops)
    also have "\<dots> = length (lc_operations ?k)"
      by (rule delete_key_length [OF graph_okD(1) [OF g] True])
    finally show ?thesis
      using True by simp
  next
    case False
    then show ?thesis
      by (simp add: ops delete_key_absent)
  qed
  have new: "\<not> tk_replaces task \<Longrightarrow> tk_id task \<notin> fst ` set (lc_operations ?k)"
    using k link by blast
  show ?thesis
  proof (rule limits_step [OF ok, of c])
    show "c < conn_count s"
      using limits_okD(3) [OF ok, of c] link by simp
    have "length (delete_key (tk_id task) (lc_operations ?k)) < max_operations_per_connection cfg"
      using k link by blast
    then show "conn_ok cfg (lv_conns ?t c)"
      using k link unfolding conn_ok_def t(2-4) ops by (simp add: busy_link_def)
    show "load (lv_conns ?t c) \<le> load ?k \<or> load (lv_conns ?t c) \<le> load ?k + 1 \<and> active_operations s + pending_operations s < int (max_operations cfg)"
      using len new link t(2) by (auto simp: load_def stale_def waiting_def)
    show "size_rejected ?t \<or> \<not> size_rejected s \<and> (kept_replaced ?k \<longrightarrow> kept_replaced (lv_conns ?t c)
        \<and> (active_operations s + pending_operations s \<le> int (max_operations cfg) \<longrightarrow> active_operations ?t + pending_operations ?t \<le> int (max_operations cfg)))"
      using False link t(2,8-10) by (auto simp: kept_replaced_def waiting_def)
    show "active_operations ?t = active_operations s - int (length (lc_operations ?k)) + int (length (lc_operations (lv_conns ?t c)))"
      unfolding len t(9) by simp
    show "pending_operations ?t = pending_operations s - waiting (lc_link ?k) + waiting (lc_link (lv_conns ?t c))"
      by (simp add: t(2,10) link) (simp add: waiting_def)
    show "conn_count ?t = conn_count s"
      by (rule t)
  qed (rule t(6))
qed

lemma awaited_limits:
  assumes ok: "limits_ok cfg s" and g: "graph_ok s"
  shows "limits_ok cfg (live_awaited cfg c e s)"
proof (cases "lc_link (lv_conns s c)")
  case (Link_Subscribe task)
  note e = end_limits [OF ok Link_Subscribe] and n = stage_limits [OF ok Link_Subscribe] and f = complete_limits [OF ok g Link_Subscribe]
  have "limits_ok cfg (end_subscribe c (tk_replaces task) (refuse c mid r m s)) = limits_ok cfg (end_subscribe c (tk_replaces task) s)"
    if "r \<noteq> Result_Size" for mid r m
    using that by (intro limits_cong) simp
  then have "limits_ok cfg (subscribe_failed c task m s)" "limits_ok cfg (cost_arrived c task q s)" "limits_ok cfg (prepared cfg c task s)" for m q
    using e n by (simp_all add: subscribe_failed_def Let_def cost_arrived_def prepared_def split: option.split query_cost_result.split sum.split)
  with f ok show ?thesis
    by (simp add: live_awaited_def Link_Subscribe split: live_event.split subscribe_stage.split sum.split)
qed (use ok in \<open>simp_all add: live_awaited_def\<close>)

lemma conn_limits:
  assumes ok: "limits_ok cfg s" and c: "c < conn_count s" and conn: "conn_ok cfg (f (lv_conns s c))"
    and f: "lc_operations (f (lv_conns s c)) = lc_operations (lv_conns s c)"
      "waiting (lc_link (f (lv_conns s c))) = waiting (lc_link (lv_conns s c))" "stale (f (lv_conns s c)) = stale (lv_conns s c)"
      "kept_replaced (lv_conns s c) \<longrightarrow> kept_replaced (f (lv_conns s c))"
  shows "limits_ok cfg (on_conn c f s)"
  by (rule limits_step [OF ok, of c]) (use c conn f in \<open>simp_all add: live_defs load_def size_rejected_def\<close>)

lemma attached_count: "limits_ok cfg s \<Longrightarrow> (\<forall>c. lc_attached (lv_conns s c) \<longrightarrow> c < conn_count s) \<Longrightarrow> limits_ok cfg (live_message cfg c raw s)"
proof -
  assume ok: "limits_ok cfg s" and at: "\<forall>c. lc_attached (lv_conns s c) \<longrightarrow> c < conn_count s"
  have plain: "limits_ok cfg (handle_plain c m s)" for m
    using ok by (simp add: handle_plain_def)
  have "limits_ok cfg (on_conn c (\<lambda>k. k\<lparr>lc_pending := lc_pending k + 1, lc_chain := lc_chain k @ [m]\<rparr>) s)"
    if "lc_attached (lv_conns s c)" "\<not> max_pending_messages cfg \<le> lc_pending (lv_conns s c)" for m
    using ok limits_okD(1) [OF ok, of c] at that
    by (intro conn_limits) (auto simp: conn_ok_def stale_def kept_replaced_def cong: chain_link.case_cong)
  with ok plain show ?thesis
    by (simp add: live_message_def split: option.split)
qed

lemma settle_limits: "limits_ok cfg s \<Longrightarrow> limits_ok cfg (chain_settles c s)"
proof -
  assume ok: "limits_ok cfg s"
  have "limits_ok cfg (on_conn c (\<lambda>k. k\<lparr>lc_link := Link_None, lc_pending := lc_pending k - 1\<rparr>) s)"
    if "lc_link (lv_conns s c) = Link_Done"
    using ok limits_okD(1,3) [OF ok, of c] that
    by (intro conn_limits) (auto simp: conn_ok_def stale_def kept_replaced_def busy_link_def waiting_def)
  with ok show ?thesis
    by (simp add: chain_settles_def)
qed

text \<open>Closing a connection and deleting its operations.\<close>

lemma close_limits:
  assumes "limits_ok cfg s" "c < conn_count s"
  shows "limits_ok cfg (on_conn c (\<lambda>k. k\<lparr>lc_closed := True\<rparr>) s)"
  using assms limits_okD(1) [OF assms(1), of c]
  by (intro conn_limits) (auto simp: conn_ok_def stale_def kept_replaced_def cong: chain_link.case_cong)

lemma delete_frame:
  "lc_closed (lv_conns (deleteOperation c mid s) c') = lc_closed (lv_conns s c')" "conn_count (deleteOperation c mid s) = conn_count s"
  "lc_link (lv_conns (deleteOperation c mid s) c') = lc_link (lv_conns s c')"
  "size_rejected (deleteOperation c mid s) = size_rejected s"
proof -
  have "lc_closed (lv_conns (deleteOperation c mid s) c') = lc_closed (lv_conns s c') \<and> conn_count (deleteOperation c mid s) = conn_count s
    \<and> lc_link (lv_conns (deleteOperation c mid s) c') = lc_link (lv_conns s c') \<and> size_rejected (deleteOperation c mid s) = size_rejected s"
  proof (cases "map_of (lc_operations (lv_conns s c)) mid")
    case (Some i)
    from counts_delete [OF this] show ?thesis
      unfolding counts_iff by (simp add: live_defs size_rejected_def)
  qed (simp add: delete_none)
  then show "lc_closed (lv_conns (deleteOperation c mid s) c') = lc_closed (lv_conns s c')" "conn_count (deleteOperation c mid s) = conn_count s"
    "lc_link (lv_conns (deleteOperation c mid s) c') = lc_link (lv_conns s c')" "size_rejected (deleteOperation c mid s) = size_rejected s"
    by simp_all
qed

lemma live_close_limits:
  assumes ok: "limits_ok cfg s" and g: "graph_ok s" and c: "lc_attached (lv_conns s c) \<Longrightarrow> c < conn_count s"
  shows "limits_ok cfg (live_close c s)"
proof (cases "lc_attached (lv_conns s c)")
  case True
  let ?s = "on_conn c (\<lambda>k. k\<lparr>lc_closed := True\<rparr>) s"
  have "limits_ok cfg ?s \<and> graph_ok ?s \<and> lc_closed (lv_conns ?s c)"
    using close_limits [OF ok c [OF True]] g by (simp add: on_conn_def [of c _ s] graph_iff) (simp add: graph_on_conn [THEN graph_cong] flip: on_conn_def)
  then have "limits_ok cfg (fold (deleteOperation c) ms ?s) \<and> graph_ok (fold (deleteOperation c) ms ?s)
      \<and> lc_closed (lv_conns (fold (deleteOperation c) ms ?s) c)" for ms
    by (intro fold_invariant [of "\<lambda>s. limits_ok cfg s \<and> graph_ok s \<and> lc_closed (lv_conns s c)"])
      (simp_all add: delete_limits delete_graph_ok delete_frame)
  then show ?thesis
    using True by (simp add: live_close_def)
next
  case False
  with ok show ?thesis
    by (simp add: live_close_def)
qed

lemma out_limits: "limits_ok cfg s \<Longrightarrow> limits_ok cfg (lv_out e s)"
  by (auto simp: limits_ok_def live_defs size_rejected_def)

lemma execution_limits:
  assumes ok: "limits_ok cfg s" and g: "graph_ok s"
  shows "limits_ok cfg (execution_done cfg x outcome s)"
proof -
  let ?P = "\<lambda>t. limits_ok cfg t \<and> graph_ok t \<and> size_rejected t"
  have rej: "?P (reject_result cfg i t)" if "?P t" for i t
  proof -
    let ?e = "lv_error (ls_state (lv_subs t i)) (Some (ls_id (lv_subs t i)))
      (lit ''Live query result exceeds '' @ decimal_text (max_result_bytes cfg) @ lit '' byte limit'') t"
    have "limits_ok cfg ?e" "graph_ok ?e" "size_rejected ?e"
      using that counts_send(2) [of "ls_state (lv_subs t i)" _ _ t] unfolding counts_iff by simp_all
    then show ?thesis
      by (simp add: reject_result_def Let_def delete_limits delete_graph_ok delete_frame)
  qed
  have "?P (lv_out (Rejected Result_Size) s)"
    using ok g out_limits by simp (simp add: size_rejected_def live_defs)
  then have "?P (fold (reject_result cfg) js (lv_out (Rejected Result_Size) s))" for js
    by (rule fold_invariant) (rule rej)
  moreover have "limits_ok cfg (fold (deliver_result changed r) js t) = limits_ok cfg t" for changed r js t
    by (intro limits_cong counts_fold) simp
  ultimately have "limits_ok cfg (execution_result cfg x v s)" for v
    using ok by (simp add: execution_result_def Let_def)
  with ok show ?thesis
    by (simp add: execution_done_def split: sum.split)
qed

lemma dispose_subscriber_limits:
  assumes P: "limits_ok cfg t" "graph_ok t" and i: "ls_state (lv_subs t i) < conn_count t"
  shows "limits_ok cfg (dispose_subscriber i t)"
proof -
  let ?u = "on_conn (ls_state (lv_subs t i)) (\<lambda>k. k\<lparr>lc_closed := True\<rparr>) t"
  have "lc_closed (lv_conns ?u (ls_state (lv_subs t i)))"
    by (simp add: live_defs)
  moreover have "graph_ok ?u"
    using P(2) by simp
  ultimately show ?thesis
    using close_limits [OF P(1) i] by (simp add: dispose_subscriber_def Let_def delete_limits)
qed

lemma dispose_subscriber_frame:
  "ls_state (lv_subs (dispose_subscriber i t) j) = ls_state (lv_subs t j)" "conn_count (dispose_subscriber i t) = conn_count t"
proof -
  let ?c = "ls_state (lv_subs t i)" and ?m = "ls_id (lv_subs t i)"
  let ?u = "on_conn ?c (\<lambda>k. k\<lparr>lc_closed := True\<rparr>) t"
  have "ls_state (lv_subs (deleteOperation ?c ?m ?u) j) = ls_state (lv_subs ?u j)"
    by (cases "map_of (lc_operations (lv_conns ?u ?c)) ?m") (simp_all only: delete_none graph_delete)
  then show "ls_state (lv_subs (dispose_subscriber i t) j) = ls_state (lv_subs t j)" "conn_count (dispose_subscriber i t) = conn_count t"
    by (simp_all add: dispose_subscriber_def Let_def delete_frame) (simp_all add: live_defs)
qed

lemma dispose_limits:
  assumes ok: "limits_ok cfg s" and g: "graph_ok s"
  shows "limits_ok cfg (live_dispose s)"
proof -
  let ?P = "\<lambda>t. limits_ok cfg t \<and> graph_ok t"
  have op: "?P (dispose_operation x t)" if P: "?P t" for x t
  proof -
    let ?is = "so_subscribers (lv_ops t x)"
    let ?Q = "\<lambda>u. ?P u \<and> (\<forall>i\<in>set ?is. ls_state (lv_subs u i) < conn_count u)"
    have "?Q t"
    proof (intro conjI ballI)
      fix i
      assume "i \<in> set ?is"
      with P have "lc_operations (lv_conns t (ls_state (lv_subs t i))) \<noteq> []"
        using graph_okD(3) by fastforce
      with P show "ls_state (lv_subs t i) < conn_count t"
        using graph_okD(9) by blast
    qed (use P in simp_all)
    then have "?Q (fold dispose_subscriber ?is t)"
      by (rule fold_invariant_in) (simp add: dispose_subscriber_limits graph_ok_dispose_subscriber dispose_subscriber_frame)
    then show ?thesis
      by (simp add: dispose_operation_def)
  qed
  let ?s = "s\<lparr>live_disposed := True, live_disposing := True, live_debounce := False, initial_queue := [], rerun_queue := []\<rparr>"
  have "graph ?s = graph (s\<lparr>live_disposed := True\<rparr>)"
    by simp
  then have "graph_ok ?s"
    using graph_ok_disposed [OF g] graph_cong by blast
  then have "?P (updateQueueDepth ?s)"
    using ok by simp
  then have "?P (fold dispose_operation xs (updateQueueDepth ?s))" for xs
    by (rule fold_invariant) (rule op)
  with ok show ?thesis
    by (simp add: live_dispose_def Let_def)
qed

lemma open_limits:
  assumes ok: "limits_ok cfg s"
  shows "limits_ok cfg (live_open request s)"
proof -
  let ?n = "conn_count s" and ?t = "live_open request s"
  have fresh: "lc_operations (lv_conns s ?n) = []" "lc_link (lv_conns s ?n) = Link_None" "lc_chain (lv_conns s ?n) = []"
    using ok by (simp_all add: limits_ok_def)
  note k = limits_okD(1) [OF ok, of ?n, unfolded conn_ok_def]
  have same: "lc_operations (lv_conns ?t c) = lc_operations (lv_conns s c)" "lc_link (lv_conns ?t c) = lc_link (lv_conns s c)"
      "lc_chain (lv_conns ?t c) = lc_chain (lv_conns s c)" "lc_pending (lv_conns ?t c) = lc_pending (lv_conns s c)" for c
    using fresh k by (simp_all add: live_open_def live_defs no_connection_def busy_link_def)
  have t: "conn_count ?t = ?n + 1" "active_operations ?t = active_operations s" "pending_operations ?t = pending_operations s"
      "size_rejected ?t = size_rejected s"
    by (simp_all add: live_open_def live_defs size_rejected_def)
  have kept: "kept_replaced (lv_conns s c) \<longrightarrow> kept_replaced (lv_conns ?t c)" for c
    using fresh by (cases "c = ?n") (simp_all add: kept_replaced_def live_open_def live_defs no_connection_def)
  have load: "load (lv_conns ?t c) = load (lv_conns s c)" for c
    by (simp add: load_def stale_def same cong: chain_link.case_cong)
  have zero: "load (lv_conns s ?n) = 0" "waiting (lc_link (lv_conns s ?n)) = 0"
    by (simp_all add: load_def waiting_def stale_def fresh)
  have conn: "conn_ok cfg (lv_conns ?t c) = conn_ok cfg (lv_conns s c)" for c
    by (simp add: conn_ok_def same)
  show ?thesis
    unfolding limits_ok_def t same load conn
  proof (intro conjI)
    show "active_operations s = (\<Sum>c<?n + 1. int (length (lc_operations (lv_conns s c))))"
      "pending_operations s = (\<Sum>c<?n + 1. waiting (lc_link (lv_conns s c)))"
      "(\<Sum>c<?n + 1. load (lv_conns s c)) \<le> int (max_operations cfg) + int (?n + 1)"
      using ok zero fresh by (simp_all add: limits_ok_def)
    show "size_rejected s \<or> active_operations s + pending_operations s \<le> int (max_operations cfg) \<and> (\<forall>c. kept_replaced (lv_conns ?t c))"
      using ok kept unfolding limits_ok_def by blast
  qed (use ok in \<open>auto simp: limits_ok_def\<close>)
qed

end
