(* ===== verification/Live_Schedule.thy ===== *)
theory Live_Schedule
  imports Live_Graph
begin

text \<open>
  Invariants of live queries, third part: the queues and the executions. An operation is in at most one queue, once, and
  not while it runs; no more executions run than allowed, and nothing waits while one more could run.
\<close>

section \<open>The view\<close>

definition sched where
  "sched s = ((\<lambda>x. (so_queued (lv_ops s x), so_running (lv_ops s x), so_rerun (lv_ops s x))), initial_queue s, rerun_queue s,
     running_promises s, running_executions s)"

lemma sched_iff:
  "sched t = sched s \<longleftrightarrow>
     (\<forall>x. so_queued (lv_ops t x) = so_queued (lv_ops s x) \<and> so_running (lv_ops t x) = so_running (lv_ops s x)
        \<and> so_rerun (lv_ops t x) = so_rerun (lv_ops s x))
     \<and> initial_queue t = initial_queue s \<and> rerun_queue t = rerun_queue s \<and> running_promises t = running_promises s
     \<and> running_executions t = running_executions s"
  by (auto simp: sched_def fun_eq_iff)

definition sched_core :: "live_config \<Rightarrow> live_state \<Rightarrow> bool" where
  "sched_core cfg s \<longleftrightarrow>
     distinct (initial_queue s) \<and> distinct (rerun_queue s)
     \<and> (\<forall>x. x \<in> set (initial_queue s) \<longleftrightarrow> so_queued (lv_ops s x) = Some Initial_Run \<and> \<not> live_disposed s)
     \<and> (\<forall>x. x \<in> set (rerun_queue s) \<longleftrightarrow> so_queued (lv_ops s x) = Some Rerun \<and> \<not> live_disposed s)
     \<and> (\<forall>x. so_queued (lv_ops s x) \<noteq> None \<and> \<not> live_disposed s \<longrightarrow> \<not> so_running (lv_ops s x) \<and> is_current x s)
     \<and> distinct (map fst (running_promises s))
     \<and> (\<forall>x. so_running (lv_ops s x) \<longleftrightarrow> x \<in> fst ` set (running_promises s))
     \<and> running_executions s = int (length (running_promises s)) \<and> length (running_promises s) \<le> max_concurrent_executions cfg
     \<and> (\<forall>x. so_rerun (lv_ops s x) \<longrightarrow> so_running (lv_ops s x))
     \<and> (\<forall>x. so_running (lv_ops s x) \<longrightarrow> x < op_count s)"

definition sched_ok :: "live_config \<Rightarrow> live_state \<Rightarrow> bool" where
  "sched_ok cfg s \<longleftrightarrow> sched_core cfg s
     \<and> (\<not> live_disposed s \<and> running_executions s < int (max_concurrent_executions cfg) \<longrightarrow> queue_depth s = 0)"

lemma sched_cong:
  assumes "graph t = graph s" "sched t = sched s"
  shows "sched_core cfg t = sched_core cfg s" "sched_ok cfg t = sched_ok cfg s"
proof -
  have c: "is_current x t = is_current x s" for x
    using assms(1) by (rule current_cong)
  show "sched_core cfg t = sched_core cfg s"
    using assms unfolding graph_iff sched_iff sched_core_def by (simp add: c)
  then show "sched_ok cfg t = sched_ok cfg s"
    using assms unfolding graph_iff sched_iff sched_ok_def queue_depth_def by simp
qed

section \<open>What keeps the schedule\<close>

lemma sched_out [simp]: "sched (lv_out e s) = sched s" "sched (lv_send c f s) = sched s" "sched (lv_error c mid message s) = sched s"
    "sched (updateQueueDepth s) = sched s"
  by (simp_all add: sched_def live_defs updateQueueDepth_def)

lemma sched_on_op: "(\<And>op. so_queued (f op) = so_queued op \<and> so_running (f op) = so_running op \<and> so_rerun (f op) = so_rerun op) \<Longrightarrow>
    sched (on_op x f s) = sched s"
  by (simp add: sched_iff live_defs)

lemma sched_on [simp]: "sched (on_conn c g s) = sched s" "sched (on_sub i h s) = sched s"
  by (simp_all add: sched_def live_defs)

lemma sched_fields [simp]:
  "sched (s\<lparr>replay_order := r\<rparr>) = sched s" "sched (s\<lparr>active_operations := n\<rparr>) = sched s"
  "sched (s\<lparr>pending_operations := n\<rparr>) = sched s" "sched (s\<lparr>live_debounce := b\<rparr>) = sched s"
  "sched (s\<lparr>cached_result_bytes := n\<rparr>) = sched s" "sched (s\<lparr>live_disposing := b\<rparr>) = sched s" "sched (s\<lparr>live_disposed := b\<rparr>) = sched s"
  "sched (s\<lparr>conn_count := m\<rparr>) = sched s" "sched (s\<lparr>sub_count := m\<rparr>) = sched s" "sched (s\<lparr>op_count := m\<rparr>) = sched s"
  "sched (s\<lparr>shared_operations := sh\<rparr>) = sched s"
  by (simp_all add: sched_def)

lemma sched_fold: "(\<And>a t. sched (f a t) = sched t) \<Longrightarrow> sched (fold f xs s) = sched s"
  by (induction xs arbitrary: s) simp_all

lemma sched_clearReplay [simp]: "sched (clearReplay x s) = sched s"
  by (simp add: clearReplay_def Let_def sched_on_op)

lemma sched_make_room [simp]: "sched (make_room fuel limit bytes s) = sched s"
  by (induction fuel limit bytes s rule: make_room.induct) (auto split: list.splits)

lemma sched_cacheReplay [simp]: "sched (cacheReplay cfg x r s) = sched s"
  by (simp add: cacheReplay_def Let_def sched_on_op)

lemma sched_setActiveDelta [simp]: "sched (setActiveDelta d s) = sched s"
  by (simp add: setActiveDelta_def Let_def)

lemma sched_deliver [simp]: "sched (deliver_result changed r i s) = sched s"
  by (simp add: deliver_result_def Let_def)

lemma sched_fail [simp]: "sched (fail_subscriber m i s) = sched s"
  by (simp add: fail_subscriber_def Let_def)

lemma sched_execution_error [simp]: "sched (execution_error x m s) = sched s"
  by (simp add: execution_error_def sched_fold)

lemma sched_schedule [simp]: "sched (scheduleRerunAll s) = sched s"
  by (simp add: scheduleRerunAll_def)

lemma sched_link [simp]: "sched (link_done c s) = sched s" "sched (release_pending b s) = sched s" "sched (end_subscribe c b s) = sched s"
    "sched (refuse c mid r e s) = sched s" "sched (next_stage c task st s) = sched s" "sched (subscribe_failed c task m s) = sched s"
    "sched (cost_arrived c task q s) = sched s" "sched (prepared cfg c task s) = sched s"
  by (simp_all add: link_done_def release_pending_def end_subscribe_def refuse_def next_stage_def subscribe_failed_def
      cost_arrived_def prepared_def Let_def split: option.splits query_cost_result.splits sum.splits)

lemma sched_begin [simp]: "sched (begin_subscribe cfg c m s) = sched s"
  by (simp add: begin_subscribe_def Let_def split: option.split)

lemma sched_replay_to [simp]: "sched (replay_to c i x s) = sched s"
  by (simp add: replay_to_def Let_def split: option.split)

lemma sched_detach [simp]: "sched (detach c mid i x s) = sched s"
  by (simp add: detach_def sched_on_op)

lemma sched_add [simp]: "sched (add_subscription c mid x s) = sched s"
  by (simp add: add_subscription_def Let_def sched_on_op)

lemmas sched_frames [simp] =
  sched_cong [OF graph_out(1) sched_out(1)] sched_cong [OF graph_out(2) sched_out(2)] sched_cong [OF graph_out(3) sched_out(3)]
  sched_cong [OF graph_out(4) sched_out(4)] sched_cong [OF graph_clearReplay sched_clearReplay]
  sched_cong [OF graph_cacheReplay sched_cacheReplay] sched_cong [OF graph_setActiveDelta sched_setActiveDelta]
  sched_cong [OF graph_deliver sched_deliver] sched_cong [OF graph_execution_error sched_execution_error]
  sched_cong [OF graph_schedule sched_schedule] sched_cong [OF graph_begin sched_begin] sched_cong [OF graph_replay_to sched_replay_to]
  sched_cong [OF graph_link(1) sched_link(1)] sched_cong [OF graph_link(3) sched_link(3)] sched_cong [OF graph_link(4) sched_link(4)]
  sched_cong [OF graph_link(5) sched_link(5)] sched_cong [OF graph_link(6) sched_link(6)]
  sched_cong [OF graph_link(7) sched_link(7)] sched_cong [OF graph_link(8) sched_link(8)]

lemma sched_conn_frame [simp]:
  assumes "\<And>k. lc_operations (f k) = lc_operations k"
  shows "sched_core cfg (on_conn c f s) = sched_core cfg s" "sched_ok cfg (on_conn c f s) = sched_ok cfg s"
  using sched_cong [OF graph_on_conn sched_on(1)] assms by blast+

section \<open>The queue\<close>

lemma sched_coreD:
  assumes "sched_core cfg s"
  shows "distinct (initial_queue s)" "distinct (rerun_queue s)"
    "x \<in> set (initial_queue s) \<longleftrightarrow> so_queued (lv_ops s x) = Some Initial_Run \<and> \<not> live_disposed s"
    "x \<in> set (rerun_queue s) \<longleftrightarrow> so_queued (lv_ops s x) = Some Rerun \<and> \<not> live_disposed s"
    "so_queued (lv_ops s x) \<noteq> None \<Longrightarrow> \<not> live_disposed s \<Longrightarrow> \<not> so_running (lv_ops s x) \<and> is_current x s"
    "distinct (map fst (running_promises s))"
    "so_running (lv_ops s x) \<longleftrightarrow> x \<in> fst ` set (running_promises s)"
    "running_executions s = int (length (running_promises s))" "length (running_promises s) \<le> max_concurrent_executions cfg"
    "so_rerun (lv_ops s x) \<Longrightarrow> so_running (lv_ops s x)" "so_running (lv_ops s x) \<Longrightarrow> x < op_count s"
  using assms unfolding sched_core_def by blast+

lemma sched_coreI:
  assumes "distinct (initial_queue s)" "distinct (rerun_queue s)"
    "\<And>x. x \<in> set (initial_queue s) \<longleftrightarrow> so_queued (lv_ops s x) = Some Initial_Run \<and> \<not> live_disposed s"
    "\<And>x. x \<in> set (rerun_queue s) \<longleftrightarrow> so_queued (lv_ops s x) = Some Rerun \<and> \<not> live_disposed s"
    "\<And>x. so_queued (lv_ops s x) \<noteq> None \<Longrightarrow> \<not> live_disposed s \<Longrightarrow> \<not> so_running (lv_ops s x) \<and> is_current x s"
    "distinct (map fst (running_promises s))"
    "\<And>x. so_running (lv_ops s x) \<longleftrightarrow> x \<in> fst ` set (running_promises s)"
    "running_executions s = int (length (running_promises s))" "length (running_promises s) \<le> max_concurrent_executions cfg"
    "\<And>x. so_rerun (lv_ops s x) \<Longrightarrow> so_running (lv_ops s x)" "\<And>x. so_running (lv_ops s x) \<Longrightarrow> x < op_count s"
  shows "sched_core cfg s"
  using assms unfolding sched_core_def by simp

lemma sched_idle:
  assumes "sched_core cfg s" "\<not> live_disposed s" "so_running (lv_ops s x) \<or> \<not> is_current x s"
  shows "so_queued (lv_ops s x) = None"
  using assms sched_coreD(5) [OF assms(1), of x] by blast

lemma next_core:
  assumes core: "sched_core cfg s" and t: "nextQueuedOperation s = Some (x, t)" and live: "\<not> live_disposed s"
  shows "sched_core cfg t" "\<not> so_running (lv_ops t x)" "so_queued (lv_ops t x) = None" "is_current x t"
    "running_executions t = running_executions s"
proof -
  note d = sched_coreD [OF core]
  have g: "graph t = graph s"
    by (rule graph_next [OF t])
  have cur: "is_current y t = is_current y s" for y
    using g by (rule current_cong)
  have dis: "live_disposed t = live_disposed s" "op_count t = op_count s"
    using g unfolding graph_iff by simp_all
  consider xs where "initial_queue s = x # xs" "t = updateQueueDepth (on_op x (\<lambda>op. op\<lparr>so_queued := None\<rparr>) (s\<lparr>initial_queue := xs\<rparr>))"
    | xs where "initial_queue s = []" "rerun_queue s = x # xs" "t = updateQueueDepth (on_op x (\<lambda>op. op\<lparr>so_queued := None\<rparr>) (s\<lparr>rerun_queue := xs\<rparr>))"
    using t by (auto simp: nextQueuedOperation_def split: list.splits)
  then have "sched_core cfg t \<and> \<not> so_running (lv_ops t x) \<and> so_queued (lv_ops t x) = None \<and> is_current x s
    \<and> running_executions t = running_executions s"
  proof cases
    case (1 xs)
    have q: "so_queued (lv_ops s x) = Some Initial_Run"
      using d(3) [of x] 1 by simp
    have rp: "running_promises t = running_promises s" "running_executions t = running_executions s" "rerun_queue t = rerun_queue s"
        "initial_queue t = xs" "lv_ops t = (lv_ops s)(x := (lv_ops s x)\<lparr>so_queued := None\<rparr>)"
      by (simp_all add: 1(2) updateQueueDepth_def live_defs)
    show ?thesis
      using d 1(1) live q d(5) [of x] d(10) [of x] unfolding sched_core_def rp cur dis
      by (auto simp: distinct_map)
  next
    case (2 xs)
    have q: "so_queued (lv_ops s x) = Some Rerun"
      using d(4) [of x] 2 by simp
    have rp: "running_promises t = running_promises s" "running_executions t = running_executions s" "initial_queue t = []"
        "rerun_queue t = xs" "lv_ops t = (lv_ops s)(x := (lv_ops s x)\<lparr>so_queued := None\<rparr>)"
      using 2(1) by (simp_all add: 2(3) updateQueueDepth_def live_defs)
    show ?thesis
      using d 2(1,2) live q d(5) [of x] d(10) [of x] unfolding sched_core_def rp cur dis
      by (auto simp: distinct_map)
  qed
  then show "sched_core cfg t" "\<not> so_running (lv_ops t x)" "so_queued (lv_ops t x) = None" "is_current x t"
    "running_executions t = running_executions s"
    by (simp_all add: cur)
qed

lemma start_core:
  assumes core: "sched_core cfg s" and g: "graph_ok s" and x: "\<not> so_running (lv_ops s x)" "so_queued (lv_ops s x) = None" "is_current x s"
    and room: "running_executions s < int (max_concurrent_executions cfg)"
  shows "sched_core cfg (start_execution x s)"
proof -
  note d = sched_coreD [OF core]
  let ?t = "start_execution x s"
  have cur: "is_current y ?t = is_current y s" for y
    by (rule current_cong) simp
  have t: "lv_ops ?t = (lv_ops s)(x := (lv_ops s x)\<lparr>so_running := True\<rparr>)" "initial_queue ?t = initial_queue s" "rerun_queue ?t = rerun_queue s"
      "running_promises ?t = running_promises s @ [(x, False)]" "running_executions ?t = running_executions s + 1"
      "live_disposed ?t = live_disposed s" "op_count ?t = op_count s"
    by (simp_all add: start_execution_def live_defs)
  have "x < op_count s"
    using graph_okD(8) [OF g, of x] x(3) by (simp add: is_current_def)
  then show ?thesis
    using d x room unfolding sched_core_def t cur by auto
qed

lemma pump_ok: "sched_core cfg s \<Longrightarrow> graph_ok s \<Longrightarrow> sched_ok cfg (pumpQueue cfg s)"
proof (induction cfg s rule: pumpQueue.induct)
  case (1 cfg s)
  show ?case
  proof (cases "live_disposed s \<or> int (max_concurrent_executions cfg) \<le> running_executions s")
    case True
    with "1.prems" show ?thesis
      by (auto simp: pumpQueue.simps sched_ok_def)
  next
    case run: False
    show ?thesis
    proof (cases "nextQueuedOperation s")
      case None
      then have "queue_depth s = 0"
        by (auto simp: nextQueuedOperation_def queue_depth_def split: list.splits)
      with None run "1.prems" show ?thesis
        by (simp add: pumpQueue.simps sched_ok_def)
    next
      case (Some p)
      obtain x t where p: "p = (x, t)"
        by (cases p)
      note n = next_core [OF "1.prems"(1) Some [unfolded p]]
      have t: "sched_core cfg t" "graph_ok t" "is_current x t"
        using n run "1.prems"(2) graph_cong [OF graph_next [OF Some [unfolded p]]] by simp_all
      have "sched_core cfg (start_execution x t)"
        using n run t by (intro start_core) simp_all
      moreover have "graph_ok (start_execution x t)"
        using t(2) by simp
      ultimately have "sched_ok cfg (pumpQueue cfg (start_execution x t))"
        using "1.IH"(2) [OF run Some p [symmetric]] t(3) by simp
      with run Some p t(3) show ?thesis
        by (subst pumpQueue.simps) simp
    qed
  qed
qed

lemma subscribed_current:
  "graph_ok s \<Longrightarrow> \<not> live_disposed s \<Longrightarrow> so_subscribers (lv_ops s x) \<noteq> [] \<Longrightarrow> is_current x s"
  by (simp add: is_current_def graph_okD)

lemma enqueue_core:
  assumes core: "sched_core cfg s" and g: "graph_ok s"
  shows "sched_core cfg (enqueue cfg x kind s)" "sched_ok cfg s \<Longrightarrow> sched_ok cfg (enqueue cfg x kind s)"
proof -
  note d = sched_coreD [OF core]
  have "sched_core cfg (enqueue cfg x kind s) \<and> (sched_ok cfg s \<longrightarrow> sched_ok cfg (enqueue cfg x kind s))"
  proof (cases "live_disposed s \<or> so_subscribers (lv_ops s x) = [] \<or> (\<not> so_running (lv_ops s x) \<and> so_queued (lv_ops s x) \<noteq> None)")
    case True
    with core d(5) [of x] show ?thesis
      by (auto simp: enqueue_def Let_def)
  next
    case out: False
    then have cur: "is_current x s"
      using subscribed_current [OF g] by blast
    show ?thesis
    proof (cases "so_running (lv_ops s x)")
      case True
      let ?t = "on_op x (\<lambda>op. op\<lparr>so_rerun := True\<rparr>) s"
      have c: "is_current y ?t = is_current y s" for y
        by (rule current_cong) (simp add: graph_on_op)
      have r: "so_queued (lv_ops ?t y) = so_queued (lv_ops s y)" "so_running (lv_ops ?t y) = so_running (lv_ops s y)"
          "so_rerun (lv_ops ?t y) \<longleftrightarrow> y = x \<or> so_rerun (lv_ops s y)" "initial_queue ?t = initial_queue s" "rerun_queue ?t = rerun_queue s"
          "running_promises ?t = running_promises s" "running_executions ?t = running_executions s"
          "live_disposed ?t = live_disposed s" "op_count ?t = op_count s" for y
        by (simp_all add: live_defs)
      have "sched_core cfg ?t"
      proof (rule sched_coreI; unfold c r)
        show "y = x \<or> so_rerun (lv_ops s y) \<Longrightarrow> so_running (lv_ops s y)" for y
          using d(10) True by blast
      qed (use d in blast)+
      then show ?thesis
        using True out core by (simp add: enqueue_def Let_def sched_ok_def queue_depth_def) (simp add: live_defs)
    next
      case False
      define t where "t = (let s1 = on_op x (\<lambda>op. op\<lparr>so_queued := Some kind\<rparr>) s in
        if kind = Initial_Run then s1\<lparr>initial_queue := initial_queue s1 @ [x]\<rparr> else s1\<lparr>rerun_queue := rerun_queue s1 @ [x]\<rparr>)"
      have gt: "graph t = graph s"
        by (simp add: t_def Let_def graph_on_op)
      have c: "is_current y t = is_current y s" for y
        using gt by (rule current_cong)
      have t: "so_queued (lv_ops t y) = (if y = x then Some kind else so_queued (lv_ops s y))"
          "so_running (lv_ops t y) = so_running (lv_ops s y)" "so_rerun (lv_ops t y) = so_rerun (lv_ops s y)"
          "initial_queue t = initial_queue s @ (if kind = Initial_Run then [x] else [])"
          "rerun_queue t = rerun_queue s @ (if kind = Rerun then [x] else [])"
          "running_promises t = running_promises s" "running_executions t = running_executions s"
          "live_disposed t = live_disposed s" "op_count t = op_count s" for y
        by (cases kind; simp add: t_def live_defs)+
      have q: "so_queued (lv_ops s x) = None"
        using out False by blast
      have in_queues: "x \<notin> set (initial_queue s)" "x \<notin> set (rerun_queue s)"
        using d(3,4) [of x] q by simp_all
      have "sched_core cfg t"
      proof (rule sched_coreI; unfold t c)
        show "y \<in> set (initial_queue s @ (if kind = Initial_Run then [x] else []))
            \<longleftrightarrow> (if y = x then Some kind else so_queued (lv_ops s y)) = Some Initial_Run \<and> \<not> live_disposed s" for y
          using d(3) [of y] in_queues out by (cases "y = x"; cases kind) simp_all
        show "y \<in> set (rerun_queue s @ (if kind = Rerun then [x] else []))
            \<longleftrightarrow> (if y = x then Some kind else so_queued (lv_ops s y)) = Some Rerun \<and> \<not> live_disposed s" for y
          using d(4) [of y] in_queues out by (cases "y = x"; cases kind) simp_all
        show "\<not> so_running (lv_ops s y) \<and> is_current y s"
          if "(if y = x then Some kind else so_queued (lv_ops s y)) \<noteq> None" "\<not> live_disposed s" for y
          using that d(5) [of y] False cur by (cases "y = x") simp_all
        show "distinct (initial_queue s @ (if kind = Initial_Run then [x] else []))" "distinct (rerun_queue s @ (if kind = Rerun then [x] else []))"
          using d(1,2) in_queues by (cases kind; simp)+
      qed (use d in blast)+
      then have "sched_ok cfg (pumpQueue cfg (updateQueueDepth t))"
        using g graph_cong [OF gt] by (simp add: pump_ok)
      moreover have "enqueue cfg x kind s = pumpQueue cfg (updateQueueDepth t)"
        using out False q by (simp add: enqueue_def t_def Let_def)
      ultimately show ?thesis
        by (simp add: sched_ok_def)
    qed
  qed
  then show "sched_core cfg (enqueue cfg x kind s)" "sched_ok cfg s \<Longrightarrow> sched_ok cfg (enqueue cfg x kind s)"
    by blast+
qed

section \<open>Deleting an operation\<close>

lemma removeQueued_fields:
  fixes x :: nat and s :: live_state
  defines "t \<equiv> removeQueuedOperation x s"
  shows "so_queued (lv_ops t y) = (if y = x then None else so_queued (lv_ops s y))" "so_running (lv_ops t y) = so_running (lv_ops s y)"
    "so_rerun (lv_ops t y) = so_rerun (lv_ops s y)"
    "initial_queue t = (if so_queued (lv_ops s x) = Some Initial_Run then remove1 x (initial_queue s) else initial_queue s)"
    "rerun_queue t = (if so_queued (lv_ops s x) = Some Rerun then remove1 x (rerun_queue s) else rerun_queue s)"
    "running_promises t = running_promises s" "running_executions t = running_executions s"
  using queue_kind.exhaust unfolding t_def
  by (auto simp: removeQueuedOperation_def updateQueueDepth_def live_defs split: option.split)

lemma sched_drop: "sched (drop_shared x s) = sched (removeQueuedOperation x s)"
proof -
  have "sched (removeQueuedOperation x (s\<lparr>shared_operations := sh\<rparr>)) = sched (removeQueuedOperation x s)" for sh
    unfolding sched_iff removeQueued_fields by simp
  then show ?thesis
    by (simp add: drop_shared_def Let_def sched_on_op)
qed

lemma sched_delete:
  assumes "map_of (lc_operations (lv_conns s c)) mid = Some i"
  defines "x \<equiv> ls_shared (lv_subs s i)"
  shows "sched (deleteOperation c mid s) = sched (if drops i x s then removeQueuedOperation x s else s)"
proof -
  have "sched (removeQueuedOperation x (setActiveDelta (- 1) (detach c mid i x s))) = sched (removeQueuedOperation x s)"
  proof -
    have "sched (setActiveDelta (- 1) (detach c mid i x s)) = sched s"
      by simp
    then show ?thesis
      unfolding sched_iff removeQueued_fields by simp
  qed
  then show ?thesis
    using assms(1) by (simp add: deleteOperation_cases Let_def sched_drop flip: x_def)
qed

lemma map_of_delete_key: "map_of (delete_key k kvs) k' = (if k' = k then None else map_of kvs k')"
  by (induction kvs) (auto simp: delete_key_def)

lemma delete_sched_ok:
  assumes ok: "sched_core cfg s" and g: "graph_ok s"
  shows "sched_core cfg (deleteOperation c mid s)" "sched_ok cfg s \<Longrightarrow> sched_ok cfg (deleteOperation c mid s)"
proof -
  have "sched_core cfg (deleteOperation c mid s) \<and> (sched_ok cfg s \<longrightarrow> sched_ok cfg (deleteOperation c mid s))"
  proof (cases "map_of (lc_operations (lv_conns s c)) mid")
    case None
    with ok show ?thesis
      by (simp add: delete_none)
  next
    case (Some i)
    let ?t = "deleteOperation c mid s" and ?x = "ls_shared (lv_subs s i)"
    note d = sched_coreD [OF ok]
    note g = graph_delete [OF Some]
    note sd = sched_delete [OF Some]
    have keep: "is_current y ?t" if "is_current y s" "\<not> (drops i ?x s \<and> y = ?x)" for y
      using that by (auto simp: is_current_def g drops_def map_of_delete_key)
    show ?thesis
    proof (cases "drops i ?x s")
      case False
      then have e: "sched ?t = sched s"
        using sd by simp
      have "is_current y ?t" if "is_current y s" for y
        using keep [OF that] False by blast
      then have "sched_core cfg ?t"
        using d e [unfolded sched_iff] unfolding sched_core_def g by auto
      then show ?thesis
        using e [unfolded sched_iff] by (simp add: sched_ok_def queue_depth_def g)
    next
      case True
      then have e: "sched ?t = sched (removeQueuedOperation ?x s)"
        using sd by simp
      have "\<not> live_disposed s \<Longrightarrow> so_queued (lv_ops s y) \<noteq> None \<Longrightarrow> y \<noteq> ?x \<Longrightarrow> is_current y ?t" for y
        using keep [of y] d(5) [of y] by blast
      then have "sched_core cfg ?t"
        using d e [unfolded sched_iff removeQueued_fields] unfolding sched_core_def g by auto
      then show ?thesis
        using e [unfolded sched_iff removeQueued_fields] by (auto simp: sched_ok_def queue_depth_def g)
    qed
  qed
  then show "sched_core cfg (deleteOperation c mid s)" "sched_ok cfg s \<Longrightarrow> sched_ok cfg (deleteOperation c mid s)"
    by blast+
qed

lemma delete_both:
  "sched_ok cfg s \<and> graph_ok s \<Longrightarrow> sched_ok cfg (deleteOperation c mid s) \<and> graph_ok (deleteOperation c mid s)"
  using delete_sched_ok(2) [OF _ _, of cfg s] delete_graph_ok by (auto simp: sched_ok_def)

section \<open>A new subscription\<close>

text \<open>The schedule is kept when nothing that is current stops being so.\<close>

lemma sched_grow:
  assumes "sched_ok cfg s" "sched t = sched s" "live_disposed t = live_disposed s" "op_count s \<le> op_count t"
    and "\<And>y. is_current y s \<Longrightarrow> is_current y t"
  shows "sched_ok cfg t"
proof -
  have core: "sched_core cfg s"
    using assms(1) by (simp add: sched_ok_def)
  have "sched_core cfg t"
    using sched_coreD [OF core] assms(3) assms(2) [unfolded sched_iff] order.strict_trans2 [OF _ assms(4)] assms(5)
    unfolding sched_core_def by auto
  with assms(1,2,3) show ?thesis
    by (simp add: sched_ok_def sched_iff queue_depth_def)
qed

lemma get_shared_sched:
  assumes ok: "sched_ok cfg s" and g: "graph_ok s" and u: "get_shared cfg c key payload query s = (x, u)"
  shows "sched_ok cfg u"
proof (cases "map_of (shared_operations s) key")
  case (Some y)
  with ok u show ?thesis
    by (auto simp: get_shared_def)
next
  case None
  let ?x = "op_count s"
  have core: "sched_core cfg s"
    using ok by (simp add: sched_ok_def)
  note d = sched_coreD [OF core]
  have free: "\<not> so_running (lv_ops s ?x)" "\<not> so_rerun (lv_ops s ?x)" "\<not> live_disposed s \<Longrightarrow> so_queued (lv_ops s ?x) = None"
      "\<not> is_current ?x s"
    using sched_idle [OF core, of ?x] d(10,11) [of ?x] graph_okD(8) [OF g, of ?x] by (auto simp: is_current_def)
  have u': "u = lv_out (Active_Shared (length (shared_operations s) + 1)) ((on_op ?x (\<lambda>_. new_shared cfg c key payload query s) s)
      \<lparr>op_count := ?x + 1, shared_operations := shared_operations s @ [(key, ?x)]\<rparr>)"
    using u None by (auto simp: get_shared_def Let_def live_defs)
  have ops: "lv_ops u = (lv_ops s)(?x := new_shared cfg c key payload query s)" "initial_queue u = initial_queue s"
      "rerun_queue u = rerun_queue s" "running_promises u = running_promises s" "running_executions u = running_executions s"
      "live_disposed u = live_disposed s" "op_count u = ?x + 1" "shared_operations u = shared_operations s @ [(key, ?x)]"
    by (simp_all add: u' live_defs)
  have cur: "is_current y u" if "is_current y s" for y
  proof -
    have "y \<noteq> ?x"
      using that free(4) by blast
    with that show ?thesis
      unfolding is_current_def ops by (simp add: map_add_Some_iff)
  qed
  have n: "so_queued (new_shared cfg c key payload query s) = None" "\<not> so_running (new_shared cfg c key payload query s)"
      "\<not> so_rerun (new_shared cfg c key payload query s)"
    by (simp_all add: new_shared_def)
  have "sched_core cfg u"
    using d free cur unfolding sched_core_def ops by (auto simp: n less_Suc_eq)
  then show ?thesis
    using ok by (simp add: sched_ok_def queue_depth_def ops)
qed

lemma add_subscription_sched: "sched_ok cfg u \<Longrightarrow> sched_ok cfg (add_subscription c mid x u)"
  by (rule sched_grow) (auto simp: graph_add [OF refl] is_current_def)

lemma complete_sched:
  assumes ok: "sched_ok cfg s" and g: "graph_ok s" and c: "c < conn_count s"
  shows "sched_ok cfg (complete_subscribe cfg c task query scope s)"
proof (cases "lc_closed (lv_conns s c)")
  case True
  with ok show ?thesis
    by (simp add: complete_subscribe_def)
next
  case False
  let ?s1 = "deleteOperation c (tk_id task) s"
  define key where "key = operation_key (live_locale cfg) (case scope of Some k \<Rightarrow> k | None \<Rightarrow> lit ''public'') (tk_payload task) query"
  obtain x u where u: "get_shared cfg c key (tk_payload task) query ?s1 = (x, u)"
    by (cases "get_shared cfg c key (tk_payload task) query ?s1")
  define v where "v = replay_to c (sub_count u) x (add_subscription c (tk_id task) x u)"
  have s1: "sched_ok cfg ?s1" "graph_ok ?s1"
    using delete_both [of cfg s c] ok g by blast+
  have "sched_ok cfg v"
    using add_subscription_sched [OF get_shared_sched [OF s1 u]] by (simp add: v_def)
  moreover have "graph_ok v"
    unfolding v_def using complete_graph [OF g c refl u] by simp
  ultimately have "sched_ok cfg (enqueue cfg x Initial_Run v)"
    using enqueue_core(2) sched_ok_def by blast
  with \<open>sched_ok cfg v\<close> show ?thesis
    using False u unfolding complete_subscribe_def Let_def key_def [symmetric] v_def by simp
qed

section \<open>Executions\<close>

lemma sched_ok_settle: "sched_ok cfg (settle_promise x s) = sched_ok cfg s"
proof -
  have p: "map fst (running_promises (settle_promise x s)) = map fst (running_promises s)"
      "length (running_promises (settle_promise x s)) = length (running_promises s)"
    by (auto simp: settle_promise_def)
  have i: "fst ` set (running_promises (settle_promise x s)) = fst ` set (running_promises s)"
    using arg_cong [OF p(1), of set] by simp
  have o: "is_current y (settle_promise x s) = is_current y s" for y
    by (rule current_cong) simp
  have "sched_core cfg (settle_promise x s) = sched_core cfg s"
    unfolding sched_core_def p i o by (simp add: settle_promise_def)
  then show ?thesis
    by (simp add: sched_ok_def queue_depth_def settle_promise_def)
qed

lemma execution_sched:
  assumes ok: "sched_ok cfg s" and g: "graph_ok s"
  shows "sched_ok cfg (execution_done cfg x outcome s)"
proof -
  have "sched_ok cfg (fold (reject_result cfg) xs (lv_out e s)) \<and> graph_ok (fold (reject_result cfg) xs (lv_out e s))" for xs e
    by (rule fold_invariant [where P = "\<lambda>t. sched_ok cfg t \<and> graph_ok t"])
      (use ok g in \<open>simp_all add: reject_result_def Let_def delete_both delete_graph_ok\<close>)
  moreover have "sched_ok cfg (fold (deliver_result changed r) xs t) = sched_ok cfg t" for changed r xs t
    by (intro sched_cong graph_fold sched_fold) simp_all
  moreover have "sched_ok cfg (on_op x (\<lambda>op. op\<lparr>so_fingerprint := a, so_length := b\<rparr>) s) = sched_ok cfg s" for a b
    by (intro sched_cong graph_on_op sched_on_op) simp_all
  ultimately have "sched_ok cfg (execution_result cfg x v s)" for v
    using ok by (simp add: execution_result_def Let_def)
  with ok show ?thesis
    by (simp add: execution_done_def sched_ok_settle split: sum.split)
qed

lemma finally_sched:
  assumes ok: "sched_ok cfg s" and g: "graph_ok s"
  shows "sched_ok cfg (execution_finally cfg x s)"
proof (cases "(x, True) \<in> set (running_promises s)")
  case False
  with ok show ?thesis
    by (simp add: execution_finally_def)
next
  case True
  have core: "sched_core cfg s"
    using ok by (simp add: sched_ok_def)
  note d = sched_coreD [OF core]
  define u where "u = (let s1 = s\<lparr>running_promises := filter (\<lambda>p. fst p \<noteq> x) (running_promises s)\<rparr>;
      s2 = on_op x (\<lambda>op. op\<lparr>so_running := False\<rparr>) s1; s3 = s2\<lparr>running_executions := running_executions s2 - 1\<rparr> in
    lv_out (Running_Executions (running_executions s3)) s3)"
  define again where "again \<longleftrightarrow> so_rerun (lv_ops u x) \<and> so_subscribers (lv_ops u x) \<noteq> []"
  define t where "t = on_op x (\<lambda>op. op\<lparr>so_rerun := False\<rparr>) u"
  have gt: "graph t = graph s"
    by (simp add: t_def u_def Let_def graph_on_op)
  have c: "is_current y t = is_current y s" for y
    using gt by (rule current_cong)
  have t: "so_queued (lv_ops t y) = so_queued (lv_ops s y)" "so_running (lv_ops t y) \<longleftrightarrow> so_running (lv_ops s y) \<and> y \<noteq> x"
      "so_rerun (lv_ops t y) \<longleftrightarrow> so_rerun (lv_ops s y) \<and> y \<noteq> x" "initial_queue t = initial_queue s" "rerun_queue t = rerun_queue s"
      "running_promises t = filter (\<lambda>p. fst p \<noteq> x) (running_promises s)" "running_executions t = running_executions s - 1"
      "live_disposed t = live_disposed s" "op_count t = op_count s" for y
    by (simp_all add: t_def u_def live_defs)
  have len: "length (filter (\<lambda>p. fst p \<noteq> x) (running_promises s)) + 1 = length (running_promises s)"
  proof -
    have "length (filter (\<lambda>p. fst p \<noteq> x) ps) + 1 = length ps"
      if "distinct (map fst ps)" "x \<in> fst ` set ps" for ps :: "(nat \<times> bool) list"
      using that
    proof (induction ps)
      case (Cons p ps)
      then show ?case
        by (cases "fst p = x") (auto simp: image_iff intro!: arg_cong [of _ _ length] filter_True)
    qed simp
    with d(6) True show ?thesis
      by force
  qed
  have run: "so_running (lv_ops s x)"
    using True d(7) [of x] by force
  have "sched_core cfg t"
  proof (rule sched_coreI; unfold t c)
    show "distinct (map fst (filter (\<lambda>p. fst p \<noteq> x) (running_promises s)))"
      using d(6) by (simp add: distinct_map_filter)
    show "(so_running (lv_ops s y) \<and> y \<noteq> x) = (y \<in> fst ` set (filter (\<lambda>p. fst p \<noteq> x) (running_promises s)))" for y
      using d(7) [of y] by force
    show "running_executions s - 1 = int (length (filter (\<lambda>p. fst p \<noteq> x) (running_promises s)))"
      "length (filter (\<lambda>p. fst p \<noteq> x) (running_promises s)) \<le> max_concurrent_executions cfg"
      using d(8,9) len by linarith+
  qed (use d in blast)+
  moreover have "graph_ok t"
    using g graph_cong [OF gt] by simp
  ultimately have "sched_core cfg (enqueue cfg x Rerun t)" "sched_ok cfg (pumpQueue cfg t)" "sched_ok cfg (pumpQueue cfg (enqueue cfg x Rerun t))"
    "sched_core cfg t"
    by (simp_all add: enqueue_core(1) pump_ok)
  moreover have "execution_finally cfg x s = (let v = if again then enqueue cfg x Rerun t else t in
      if live_disposed v then v else pumpQueue cfg v)"
    using True unfolding execution_finally_def Let_def t_def u_def again_def by (simp only: if_False not_True_eq_False)
  ultimately show ?thesis
    by (simp add: Let_def sched_ok_def)
qed

section \<open>The other steps\<close>

lemma delete_fold:
  assumes "sched_ok cfg s \<and> graph_ok s" "\<And>a t. sched_ok cfg t \<and> graph_ok t \<Longrightarrow> sched_ok cfg (f a t) \<and> graph_ok (f a t)"
  shows "sched_ok cfg (fold f xs s)"
  using fold_invariant [of "\<lambda>t. sched_ok cfg t \<and> graph_ok t" s f xs] assms by blast

lemma rerunAll_sched: "sched_ok cfg s \<Longrightarrow> graph_ok s \<Longrightarrow> sched_ok cfg (rerunAll cfg s)"
proof -
  assume ok: "sched_ok cfg s" and g: "graph_ok s"
  have step: "sched_ok cfg (enqueue cfg x k t) \<and> graph_ok (enqueue cfg x k t)" if "sched_ok cfg t \<and> graph_ok t" for x k t
    using that enqueue_core(2) [of cfg t] by (auto simp: sched_ok_def)
  have "sched_ok cfg (s\<lparr>live_debounce := False\<rparr>)"
    using ok sched_cong(2) [of "s\<lparr>live_debounce := False\<rparr>" s cfg] by simp
  then have "sched_ok cfg (fold (\<lambda>e. enqueue cfg (snd e) Rerun) xs (s\<lparr>live_debounce := False\<rparr>))" for xs :: "(jstring \<times> nat) list"
    using g step by (intro delete_fold) simp_all
  with ok show ?thesis
    by (simp add: rerunAll_def)
qed

lemma message_sched: "sched_ok cfg s \<Longrightarrow> sched_ok cfg (live_message cfg c raw s)"
  by (simp add: live_message_def handle_plain_def split: option.split)

lemma chain_sched:
  assumes ok: "sched_ok cfg s" and g: "graph_ok s"
  shows "sched_ok cfg (chain_runs cfg c s)"
proof -
  have "sched_ok cfg (handle_chained cfg c m (on_conn c (\<lambda>k. k\<lparr>lc_chain := rest\<rparr>) s))" for m rest
  proof -
    have "sched_ok cfg (deleteOperation c mid (on_conn c (\<lambda>k. k\<lparr>lc_chain := rest\<rparr>) s))" for mid
      using delete_both [of cfg "on_conn c (\<lambda>k. k\<lparr>lc_chain := rest\<rparr>) s"] ok g by simp
    then show ?thesis
      using ok by (simp add: handle_chained_def split: option.split)
  qed
  with ok show ?thesis
    by (simp add: chain_runs_def split: chain_link.split list.split)
qed

lemma chain_settles_sched: "sched_ok cfg s \<Longrightarrow> sched_ok cfg (chain_settles c s)"
  by (simp add: chain_settles_def)

lemma awaited_sched:
  assumes ok: "sched_ok cfg s" and g: "graph_ok s" and c: "lc_link (lv_conns s c) \<noteq> Link_None \<Longrightarrow> c < conn_count s"
  shows "sched_ok cfg (live_awaited cfg c e s)"
proof (cases "lc_link (lv_conns s c)")
  case (Link_Subscribe task)
  then have "sched_ok cfg (complete_subscribe cfg c task query scope s)" for query scope
    using ok g c by (simp add: complete_sched)
  with ok Link_Subscribe show ?thesis
    by (simp add: live_awaited_def split: subscribe_stage.split live_event.split sum.split)
qed (use ok in \<open>simp_all add: live_awaited_def\<close>)

lemma close_sched: "sched_ok cfg s \<Longrightarrow> graph_ok s \<Longrightarrow> sched_ok cfg (live_close c s)"
  by (simp add: live_close_def delete_fold delete_both delete_graph_ok)

lemma open_sched: "sched_ok cfg s \<Longrightarrow> sched_ok cfg (live_open request s)"
  by (erule sched_grow) (simp_all add: live_open_def sched_iff is_current_def live_defs)

lemma sched_disposed:
  assumes "sched_core cfg s" "live_disposed t" "initial_queue t = []" "rerun_queue t = []" "running_promises t = running_promises s"
    "running_executions t = running_executions s" "lv_ops t = lv_ops s" "op_count t = op_count s"
  shows "sched_ok cfg t"
proof -
  note d = sched_coreD [OF assms(1)]
  have "sched_core cfg t"
  proof (rule sched_coreI; unfold assms(3-8))
    show "distinct ([] :: nat list)" "distinct ([] :: nat list)"
      by simp_all
  qed (use d assms(2) in \<open>force\<close>)+
  with assms(2) show ?thesis
    by (simp add: sched_ok_def)
qed

lemma dispose_sched:
  assumes ok: "sched_ok cfg s" and g: "graph_ok s"
  shows "sched_ok cfg (live_dispose s)"
proof -
  let ?s = "s\<lparr>live_disposed := True, live_disposing := True, live_debounce := False, initial_queue := [], rerun_queue := []\<rparr>"
  have core: "sched_core cfg s"
    using ok by (simp add: sched_ok_def)
  have gs: "graph ?s = graph (s\<lparr>live_disposed := True\<rparr>)"
    by simp
  have "sched_ok cfg ?s"
    by (rule sched_disposed [OF core]) simp_all
  moreover have "graph_ok ?s"
    using graph_ok_disposed [OF g] graph_cong [OF gs] by simp
  ultimately have "sched_ok cfg (updateQueueDepth ?s) \<and> graph_ok (updateQueueDepth ?s)"
    by simp
  moreover have sub: "sched_ok cfg (dispose_subscriber i t) \<and> graph_ok (dispose_subscriber i t)" if "sched_ok cfg t \<and> graph_ok t" for i t
    using that by (simp add: dispose_subscriber_def Let_def delete_both delete_graph_ok)
  then have "sched_ok cfg (dispose_operation x t) \<and> graph_ok (dispose_operation x t)" if "sched_ok cfg t \<and> graph_ok t" for x t
    using that unfolding dispose_operation_def by (intro conjI delete_fold fold_invariant [of graph_ok] graph_ok_dispose_subscriber) simp_all
  ultimately have "sched_ok cfg (fold dispose_operation xs (updateQueueDepth ?s))" for xs
    by (rule delete_fold)
  with ok show ?thesis
    by (simp add: live_dispose_def Let_def)
qed

lemma dispose_settled_sched:
  assumes ok: "sched_ok cfg s" and d: "live_disposing s \<longrightarrow> live_disposed s"
  shows "sched_ok cfg (dispose_settled s)"
proof -
  let ?t = "fold clearReplay (map snd (shared_operations s)) s"
  have f: "graph ?t = graph s" "sched ?t = sched s"
    by (simp_all add: graph_fold sched_fold)
  have core: "sched_core cfg ?t" and dis: "live_disposed ?t = live_disposed s"
    using ok sched_cong(1) [OF f] f(1) by (simp_all add: graph_iff sched_ok_def)
  let ?u = "?t\<lparr>live_disposing := False, shared_operations := [], replay_order := [], cached_result_bytes := 0\<rparr>"
  have "sched_ok cfg ?u"
    if "live_disposed s"
  proof (rule sched_disposed [of cfg ?t])
    show "initial_queue ?u = []" "rerun_queue ?u = []"
      using sched_coreD(3,4) [OF core] that dis by (simp_all add: set_empty [symmetric] set_eq_iff del: set_empty)
  qed (simp_all add: core dis that)
  with ok d show ?thesis
    by (auto simp: dispose_settled_def Let_def)
qed

lemma new_sched: "sched_ok cfg new_live"
  by (simp add: sched_ok_def sched_core_def new_live_def no_operation_def queue_depth_def)

end
