(* ===== verification/Live_Cache.thy ===== *)
theory Live_Cache
  imports Live_Schedule
begin

text \<open>
  Invariants of live queries, fourth part: the cache of results. The order of the cache lists the operations that
  have a result, the number of cached bytes is the sum over them, and it stays within the limit.
\<close>

section \<open>The view\<close>

definition cache where
  "cache s = ((\<lambda>x. (so_key (lv_ops s x), so_replay (lv_ops s x), so_bytes (lv_ops s x))), replay_order s, cached_result_bytes s,
     shared_operations s)"

lemma cache_iff:
  "cache t = cache s \<longleftrightarrow>
     (\<forall>x. so_key (lv_ops t x) = so_key (lv_ops s x) \<and> so_replay (lv_ops t x) = so_replay (lv_ops s x)
        \<and> so_bytes (lv_ops t x) = so_bytes (lv_ops s x))
     \<and> replay_order t = replay_order s \<and> cached_result_bytes t = cached_result_bytes s \<and> shared_operations t = shared_operations s"
  by (auto simp: cache_def fun_eq_iff)

definition cached_sum :: "live_state \<Rightarrow> int" where
  "cached_sum s = (\<Sum>e\<leftarrow>replay_order s. int (so_bytes (lv_ops s (snd e))))"

definition cache_exact :: "live_state \<Rightarrow> bool" where
  "cache_exact s \<longleftrightarrow>
     distinct (map fst (replay_order s))
     \<and> (\<forall>k x. (k, x) \<in> set (replay_order s) \<longrightarrow> so_key (lv_ops s x) = k \<and> so_replay (lv_ops s x) \<noteq> None)
     \<and> (\<forall>x. so_replay (lv_ops s x) \<noteq> None \<longrightarrow>
          (so_key (lv_ops s x), x) \<in> set (replay_order s) \<and> map_of (shared_operations s) (so_key (lv_ops s x)) = Some x)
     \<and> (\<forall>x r. so_replay (lv_ops s x) = Some r \<longrightarrow> so_bytes (lv_ops s x) = 2 * length r)
     \<and> cached_result_bytes s = cached_sum s"

definition cache_ok :: "live_config \<Rightarrow> live_state \<Rightarrow> bool" where
  "cache_ok cfg s \<longleftrightarrow> cache_exact s \<and> cached_result_bytes s \<le> int (result_cache_max_bytes cfg)"

lemma cache_cong:
  assumes "cache t = cache s"
  shows "cache_exact t = cache_exact s" "cache_ok cfg t = cache_ok cfg s"
proof -
  show "cache_exact t = cache_exact s"
    using assms unfolding cache_iff cache_exact_def cached_sum_def by simp
  then show "cache_ok cfg t = cache_ok cfg s"
    using assms by (simp add: cache_ok_def cache_iff)
qed

lemma cache_exactD:
  assumes "cache_exact s"
  shows "distinct (map fst (replay_order s))"
    "(k, x) \<in> set (replay_order s) \<Longrightarrow> so_key (lv_ops s x) = k \<and> so_replay (lv_ops s x) \<noteq> None"
    "so_replay (lv_ops s x) \<noteq> None \<Longrightarrow>
       (so_key (lv_ops s x), x) \<in> set (replay_order s) \<and> map_of (shared_operations s) (so_key (lv_ops s x)) = Some x"
    "so_replay (lv_ops s x) = Some r \<Longrightarrow> so_bytes (lv_ops s x) = 2 * length r"
    "cached_result_bytes s = cached_sum s"
  using assms by (simp_all only: cache_exact_def) blast+

section \<open>What keeps the cache\<close>

lemma cache_out [simp]: "cache (lv_out e s) = cache s" "cache (lv_send c f s) = cache s" "cache (lv_error c mid message s) = cache s"
    "cache (updateQueueDepth s) = cache s"
  by (simp_all add: cache_def live_defs updateQueueDepth_def)

lemma cache_on_op: "(\<And>op. so_key (f op) = so_key op \<and> so_replay (f op) = so_replay op \<and> so_bytes (f op) = so_bytes op) \<Longrightarrow>
    cache (on_op x f s) = cache s"
  by (simp add: cache_iff live_defs)

lemma cache_on [simp]: "cache (on_conn c g s) = cache s" "cache (on_sub i h s) = cache s"
  by (simp_all add: cache_def live_defs)

lemma cache_fields [simp]:
  "cache (s\<lparr>initial_queue := a\<rparr>) = cache s" "cache (s\<lparr>rerun_queue := a\<rparr>) = cache s"
  "cache (s\<lparr>running_promises := p\<rparr>) = cache s" "cache (s\<lparr>active_operations := n\<rparr>) = cache s"
  "cache (s\<lparr>pending_operations := n\<rparr>) = cache s" "cache (s\<lparr>running_executions := n\<rparr>) = cache s"
  "cache (s\<lparr>live_debounce := b\<rparr>) = cache s" "cache (s\<lparr>live_disposing := b\<rparr>) = cache s" "cache (s\<lparr>live_disposed := b\<rparr>) = cache s"
  "cache (s\<lparr>conn_count := m\<rparr>) = cache s" "cache (s\<lparr>sub_count := m\<rparr>) = cache s" "cache (s\<lparr>op_count := m\<rparr>) = cache s"
  by (simp_all add: cache_def)

lemma cache_fold: "(\<And>a t. cache (f a t) = cache t) \<Longrightarrow> cache (fold f xs s) = cache s"
  by (induction xs arbitrary: s) simp_all

lemma cache_setActiveDelta [simp]: "cache (setActiveDelta d s) = cache s"
  by (simp add: setActiveDelta_def Let_def)

lemma cache_removeQueued [simp]: "cache (removeQueuedOperation x s) = cache s"
  by (simp add: removeQueuedOperation_def Let_def cache_on_op split: option.split)

lemma cache_start [simp]: "cache (start_execution x s) = cache s"
  by (simp add: start_execution_def Let_def cache_on_op)

lemma cache_next: "nextQueuedOperation s = Some (x, t) \<Longrightarrow> cache t = cache s"
  by (auto simp: nextQueuedOperation_def cache_on_op split: list.splits)

lemma cache_pump [simp]: "cache (pumpQueue cfg s) = cache s"
proof (induction cfg s rule: pumpQueue.induct)
  case (1 cfg s)
  then show ?case
    by (subst pumpQueue.simps) (auto split: option.split dest: cache_next)
qed

lemma cache_enqueue [simp]: "cache (enqueue cfg x k s) = cache s"
  by (simp add: enqueue_def Let_def cache_on_op)

lemma cache_deliver [simp]: "cache (deliver_result changed r i s) = cache s"
  by (simp add: deliver_result_def Let_def)

lemma cache_fail [simp]: "cache (fail_subscriber m i s) = cache s"
  by (simp add: fail_subscriber_def Let_def)

lemma cache_settle [simp]: "cache (settle_promise x s) = cache s"
  by (simp add: settle_promise_def)

lemma cache_execution_error [simp]: "cache (execution_error x m s) = cache s"
  by (simp add: execution_error_def cache_fold)

lemma cache_finally [simp]: "cache (execution_finally cfg x s) = cache s"
  by (simp add: execution_finally_def Let_def cache_on_op)

lemma cache_rerunAll [simp]: "cache (rerunAll cfg s) = cache s"
  by (simp add: rerunAll_def cache_fold)

lemma cache_schedule [simp]: "cache (scheduleRerunAll s) = cache s"
  by (simp add: scheduleRerunAll_def)

lemma cache_link [simp]: "cache (link_done c s) = cache s" "cache (release_pending b s) = cache s" "cache (end_subscribe c b s) = cache s"
    "cache (refuse c mid r e s) = cache s" "cache (next_stage c task st s) = cache s" "cache (subscribe_failed c task m s) = cache s"
    "cache (cost_arrived c task q s) = cache s" "cache (prepared cfg c task s) = cache s"
  by (simp_all add: link_done_def release_pending_def end_subscribe_def refuse_def next_stage_def subscribe_failed_def
      cost_arrived_def prepared_def Let_def split: option.splits query_cost_result.splits sum.splits)

lemma cache_begin [simp]: "cache (begin_subscribe cfg c m s) = cache s"
  by (simp add: begin_subscribe_def Let_def split: option.split)

lemma cache_detach [simp]: "cache (detach c mid i x s) = cache s"
  by (simp add: detach_def cache_on_op)

lemma cache_add [simp]: "cache (add_subscription c mid x s) = cache s"
  by (simp add: add_subscription_def Let_def cache_on_op)

lemma cache_message [simp]: "cache (live_message cfg c raw s) = cache s"
  by (simp add: live_message_def handle_plain_def split: option.split)

lemma cache_chain_settles [simp]: "cache (chain_settles c s) = cache s"
  by (simp add: chain_settles_def)

lemma cache_open [simp]: "cache (live_open request s) = cache s"
  by (simp add: live_open_def)

lemmas cache_frames = cache_out cache_on cache_fields cache_setActiveDelta cache_removeQueued cache_pump cache_enqueue cache_deliver
  cache_fail cache_settle cache_execution_error cache_finally cache_rerunAll cache_schedule cache_link cache_begin cache_detach
  cache_add cache_message cache_chain_settles cache_open

lemmas cache_ok_simps [simp] = cache_frames [THEN cache_cong(2)] cache_frames [THEN cache_cong(1)]

section \<open>Clearing and caching a result\<close>

lemma cache_clear:
  fixes x :: nat and s :: live_state
  defines "t \<equiv> clearReplay x s"
  shows "so_key (lv_ops t y) = so_key (lv_ops s y)" "shared_operations t = shared_operations s"
    "so_replay (lv_ops t y) = (if y = x then None else so_replay (lv_ops s y))"
    "so_bytes (lv_ops t y) = (if y = x \<and> so_replay (lv_ops s x) \<noteq> None then 0 else so_bytes (lv_ops s y))"
    "replay_order t = (if so_replay (lv_ops s x) = None then replay_order s else delete_key (so_key (lv_ops s x)) (replay_order s))"
    "cached_result_bytes t = cached_result_bytes s - (if so_replay (lv_ops s x) = None then 0 else int (so_bytes (lv_ops s x)))"
  by (auto simp: t_def clearReplay_def live_defs)

lemma sum_delete_key:
  assumes "distinct (map fst kvs)" "(k, x) \<in> set kvs"
  shows "(\<Sum>e\<leftarrow>delete_key k kvs. f (snd e)) = (\<Sum>e\<leftarrow>kvs. f (snd e)) - (f x :: int)"
  using assms
proof (induction kvs)
  case (Cons e kvs)
  show ?case
  proof (cases "fst e = k")
    case True
    then have "delete_key k kvs = kvs"
      using Cons.prems(1) by (intro delete_key_absent) auto
    moreover have "snd e = x"
      using Cons.prems True by (cases e) (force simp: image_iff)
    ultimately show ?thesis
      using True by (simp add: delete_key_def)
  next
    case False
    with Cons show ?thesis
      by (auto simp: delete_key_def)
  qed
qed simp

lemma clear_exact:
  assumes ok: "cache_exact s"
  shows "cache_exact (clearReplay x s)" "cached_result_bytes (clearReplay x s) \<le> cached_result_bytes s"
proof -
  show "cached_result_bytes (clearReplay x s) \<le> cached_result_bytes s"
    by (simp add: cache_clear)
  note d = cache_exactD [OF ok]
  show "cache_exact (clearReplay x s)"
  proof (cases "so_replay (lv_ops s x)")
    case None
    with ok show ?thesis
      by (simp add: clearReplay_def Let_def)
  next
    case (Some r)
    let ?t = "clearReplay x s" and ?k = "so_key (lv_ops s x)"
    have x: "(?k, x) \<in> set (replay_order s)"
      using d(3) [of x] Some by simp
    have unique: "y = x" if "(?k, y) \<in> set (replay_order s)" for y
      using map_of_is_SomeI [OF d(1) that] map_of_is_SomeI [OF d(1) x] by simp
    have other: "so_replay (lv_ops s y) \<noteq> None \<Longrightarrow> y \<noteq> x \<Longrightarrow> so_key (lv_ops s y) \<noteq> ?k" for y
      using d(3) [of y] unique by metis
    have "cached_sum ?t = (\<Sum>e\<leftarrow>delete_key ?k (replay_order s). int (so_bytes (lv_ops s (snd e))))"
      using d(2) Some unfolding cached_sum_def cache_clear by (intro arg_cong [of _ _ sum_list] map_cong) auto
    also have "\<dots> = cached_result_bytes ?t"
      using d(5) Some by (simp add: sum_delete_key [OF d(1) x, of "\<lambda>y. int (so_bytes (lv_ops s y))"] cache_clear cached_sum_def)
    finally show ?thesis
      using d(1,2,3,4) Some other unfolding cache_exact_def by (auto simp: cache_clear)
  qed
qed

lemma room_made:
  fixes limit bytes :: nat
  assumes "cache_exact s" "fuel = length (replay_order s)"
  defines "t \<equiv> make_room fuel limit bytes s"
  shows "cache_exact t \<and> shared_operations t = shared_operations s \<and> (\<forall>y. so_key (lv_ops t y) = so_key (lv_ops s y))
    \<and> (\<forall>y. so_replay (lv_ops s y) = None \<longrightarrow> so_replay (lv_ops t y) = None)
    \<and> (bytes \<le> limit \<longrightarrow> cached_result_bytes t + int bytes \<le> int limit)"
  using assms(1,2) unfolding t_def
proof (induction fuel arbitrary: s)
  case 0
  then show ?case
    by (simp add: cache_exact_def cached_sum_def)
next
  case (Suc fuel)
  then obtain k x rest where order: "replay_order s = (k, x) # rest"
    by (cases "replay_order s") auto
  have x: "so_key (lv_ops s x) = k" "so_replay (lv_ops s x) \<noteq> None"
    using cache_exactD(2) [OF Suc.prems(1), of k x] order by simp_all
  have "delete_key k rest = rest"
    using cache_exactD(1) [OF Suc.prems(1)] order by (intro delete_key_absent) simp
  then have "replay_order (clearReplay x s) = rest"
    using x order by (simp add: cache_clear delete_key_def)
  then have "fuel = length (replay_order (clearReplay x s))"
    using Suc.prems(2) order by simp
  note IH = Suc.IH [OF clear_exact(1) [OF Suc.prems(1)] this]
  show ?case
    using IH Suc.prems(1) order by (auto simp: cache_clear)
qed

lemma cacheReplay_ok:
  assumes ok: "cache_ok cfg s" and x: "map_of (shared_operations s) (so_key (lv_ops s x)) = Some x"
  shows "cache_ok cfg (cacheReplay cfg x r s)"
proof (cases "result_cache_max_bytes cfg < length r * 2")
  case True
  with ok show ?thesis
    using clear_exact [of s x] by (simp add: cacheReplay_def Let_def cache_ok_def)
next
  case False
  define s1 where "s1 = clearReplay x s"
  define s2 where "s2 = make_room (length (replay_order s1)) (result_cache_max_bytes cfg) (length r * 2) s1"
  define k where "k = so_key (lv_ops s x)"
  have e1: "cache_exact s1" "so_replay (lv_ops s1 x) = None"
    using ok clear_exact(1) [of s x] by (simp_all add: s1_def cache_ok_def cache_clear)
  note room = room_made [OF e1(1) refl, of "result_cache_max_bytes cfg" "length r * 2", folded s2_def]
  have s2: "cache_exact s2" "so_replay (lv_ops s2 x) = None" "so_key (lv_ops s2 x) = k" "shared_operations s2 = shared_operations s"
      "cached_result_bytes s2 + int (length r * 2) \<le> int (result_cache_max_bytes cfg)"
    using room e1(2) False by (simp_all add: s1_def k_def cache_clear)
  note d = cache_exactD [OF s2(1)]
  have other: "so_key (lv_ops s2 y) \<noteq> k" if "so_replay (lv_ops s2 y) \<noteq> None" for y
    using d(3) [OF that] that s2(2,4) x by (auto simp: k_def)
  then have new: "k \<notin> fst ` set (replay_order s2)"
    using d(2) by force
  let ?t = "cacheReplay cfg x r s"
  have t: "so_key (lv_ops ?t y) = so_key (lv_ops s2 y)" "so_replay (lv_ops ?t y) = (if y = x then Some r else so_replay (lv_ops s2 y))"
      "so_bytes (lv_ops ?t y) = (if y = x then length r * 2 else so_bytes (lv_ops s2 y))"
      "replay_order ?t = replay_order s2 @ [(k, x)]" "cached_result_bytes ?t = cached_result_bytes s2 + int (length r * 2)"
      "shared_operations ?t = shared_operations s" for y
    using False s2(3,4) by (simp_all add: cacheReplay_def live_defs s1_def [symmetric] s2_def [symmetric] put_key_new [OF new])
  have "cached_sum ?t = cached_sum s2 + int (length r * 2)"
  proof -
    have "snd e \<noteq> x" if "e \<in> set (replay_order s2)" for e
      using d(2) [of "fst e" "snd e"] that s2(2) by auto
    then have "(\<Sum>e\<leftarrow>replay_order s2. int (so_bytes (lv_ops ?t (snd e)))) = cached_sum s2"
      unfolding cached_sum_def t by (intro arg_cong [of _ _ sum_list] map_cong) auto
    then show ?thesis
      by (simp add: cached_sum_def [of ?t] t)
  qed
  then have "cache_exact ?t"
    using d new x s2(3) unfolding cache_exact_def by (auto simp: t k_def s2(4) simp flip: s2(4))
  then show ?thesis
    using s2(5) by (simp add: cache_ok_def t)
qed

section \<open>What changes the cache\<close>

lemma drop_cache:
  assumes ok: "cache_ok cfg s" and x: "map_of (shared_operations s) (so_key (lv_ops s x)) = Some x"
  shows "cache_ok cfg (drop_shared x s)"
proof -
  let ?c = "clearReplay x s" and ?sh = "delete_key (so_key (lv_ops s x)) (shared_operations s)"
  have "cache (clearReplay x (removeQueuedOperation x (s\<lparr>shared_operations := ?sh\<rparr>))) = cache (?c\<lparr>shared_operations := ?sh\<rparr>)"
  proof -
    have "cache (removeQueuedOperation x (s\<lparr>shared_operations := ?sh\<rparr>)) = cache (s\<lparr>shared_operations := ?sh\<rparr>)"
      by simp
    then show ?thesis
      unfolding cache_iff cache_clear by (simp add: cache_clear)
  qed
  then have t: "cache (drop_shared x s) = cache (?c\<lparr>shared_operations := ?sh\<rparr>)"
    by (simp add: drop_shared_def Let_def cache_on_op)
  have c: "cache_exact ?c" "cached_result_bytes ?c \<le> int (result_cache_max_bytes cfg)"
    using ok clear_exact [of s x] by (simp_all add: cache_ok_def)
  note d = cache_exactD [OF c(1)]
  have "map_of ?sh (so_key (lv_ops ?c y)) = Some y" if "so_replay (lv_ops ?c y) \<noteq> None" for y
  proof -
    have y: "y \<noteq> x" "map_of (shared_operations s) (so_key (lv_ops s y)) = Some y"
      using that d(3) [OF that] by (auto simp: cache_clear)
    with x show ?thesis
      by (auto simp: cache_clear map_of_delete_key)
  qed
  then have "cache_exact (?c\<lparr>shared_operations := ?sh\<rparr>)"
    using d by (simp add: cache_exact_def cached_sum_def)
  then show ?thesis
    using c(2) cache_cong(2) [OF t] by (simp add: cache_ok_def)
qed

lemma delete_cache:
  assumes ok: "cache_ok cfg s"
  shows "cache_ok cfg (deleteOperation c mid s)"
proof (cases "map_of (lc_operations (lv_conns s c)) mid")
  case None
  with ok show ?thesis
    by (simp add: delete_none)
next
  case (Some i)
  let ?x = "ls_shared (lv_subs s i)"
  let ?t = "setActiveDelta (- 1) (detach c mid i ?x s)"
  have e: "cache ?t = cache s"
    by simp
  then have ok': "cache_ok cfg ?t"
    using ok by simp
  have "map_of (shared_operations ?t) (so_key (lv_ops ?t ?x)) = Some ?x" if "drops i ?x s"
    using that e [unfolded cache_iff] by (simp add: drops_def)
  then show ?thesis
    using Some ok' drop_cache [OF ok'] by (simp add: deleteOperation_cases Let_def)
qed

lemma get_shared_cache:
  assumes ok: "cache_ok cfg s" and g: "graph_ok s" and u: "get_shared cfg c key payload query s = (x, u)"
  shows "cache_ok cfg u"
proof (cases "map_of (shared_operations s) key")
  case (Some y)
  with ok u show ?thesis
    by (auto simp: get_shared_def)
next
  case None
  let ?x = "op_count s"
  have e: "cache_exact s"
    using ok by (simp add: cache_ok_def)
  note d = cache_exactD [OF e]
  have free: "so_replay (lv_ops s ?x) = None"
  proof (rule ccontr)
    assume "so_replay (lv_ops s ?x) \<noteq> None"
    then have "(so_key (lv_ops s ?x), ?x) \<in> set (shared_operations s)"
      using d(3) [of ?x] by (blast dest: map_of_SomeD)
    then show False
      using graph_okD(6,8) [OF g] by blast
  qed
  then have order: "snd e \<noteq> ?x" if "e \<in> set (replay_order s)" for e
    using d(2) [of "fst e" "snd e"] that by auto
  have u': "lv_ops u = (lv_ops s)(?x := new_shared cfg c key payload query s)" "replay_order u = replay_order s"
      "cached_result_bytes u = cached_result_bytes s" "shared_operations u = shared_operations s @ [(key, ?x)]"
    using u None by (auto simp: get_shared_def live_defs)
  have "cached_sum u = cached_sum s"
    unfolding cached_sum_def u' using order by (intro arg_cong [of _ _ sum_list] map_cong) simp_all
  moreover have "so_replay (new_shared cfg c key payload query s) = None"
    by (simp add: new_shared_def)
  ultimately have "cache_exact u"
    using d free order unfolding cache_exact_def u' by (fastforce simp: map_add_Some_iff)
  then show ?thesis
    using ok by (simp add: cache_ok_def u')
qed

lemma map_of_inj: "map_of m k = Some y \<Longrightarrow> map_of m k = Some x \<Longrightarrow> y = x"
  by simp

lemma replay_to_cache:
  assumes ok: "cache_ok cfg s"
  shows "cache_ok cfg (replay_to c i x s)"
proof (cases "so_replay (lv_ops s x)")
  case None
  with ok show ?thesis
    by (simp add: replay_to_def)
next
  case (Some r)
  let ?k = "so_key (lv_ops s x)" and ?t = "replay_to c i x s"
  have e: "cache_exact s"
    using ok by (simp add: cache_ok_def)
  note d = cache_exactD [OF e]
  have x: "(?k, x) \<in> set (replay_order s)"
    using d(3) [of x] Some by simp
  have t: "lv_ops ?t = lv_ops s" "replay_order ?t = delete_key ?k (replay_order s) @ [(?k, x)]"
      "cached_result_bytes ?t = cached_result_bytes s" "shared_operations ?t = shared_operations s"
    using Some by (simp_all add: replay_to_def live_defs)
  have "cached_result_bytes s = cached_sum ?t"
    by (simp add: d(5) cached_sum_def t sum_delete_key [OF d(1) x, of "\<lambda>y. int (so_bytes (lv_ops s y))"])
  moreover have "(so_key (lv_ops s y), y) \<in> set (delete_key ?k (replay_order s) @ [(?k, x)])" if "so_replay (lv_ops s y) \<noteq> None" for y
  proof (cases "so_key (lv_ops s y) = ?k")
    case True
    have "map_of (shared_operations s) (so_key (lv_ops s y)) = Some y" "map_of (shared_operations s) ?k = Some x"
      using d(3) [OF that] d(3) [of x] Some by blast+
    then have "y = x"
      unfolding True by (rule map_of_inj)
    then show ?thesis
      by simp
  next
    case False
    have "(so_key (lv_ops s y), y) \<in> set (replay_order s)"
      using d(3) [OF that] by blast
    with False show ?thesis
      by simp
  qed
  moreover have "distinct (map fst (delete_key ?k (replay_order s) @ [(?k, x)]))"
    using d(1) by auto
  moreover have "so_key (lv_ops s y) = k \<and> so_replay (lv_ops s y) \<noteq> None"
    if "(k, y) \<in> set (delete_key ?k (replay_order s) @ [(?k, x)])" for k y
    using that d(2) [of k y] Some by auto
  ultimately have "cache_exact ?t"
    unfolding cache_exact_def t using d(3,4) by (intro conjI allI impI) blast+
  then show ?thesis
    using ok by (simp add: cache_ok_def t)
qed

lemma complete_cache:
  assumes ok: "cache_ok cfg s" and g: "graph_ok s"
  shows "cache_ok cfg (complete_subscribe cfg c task query scope s)"
proof (cases "lc_closed (lv_conns s c)")
  case True
  with ok show ?thesis
    by (simp add: complete_subscribe_def)
next
  case False
  let ?s1 = "deleteOperation c (tk_id task) s"
  define key where "key = operation_key (live_locale cfg) (case scope of Some k \<Rightarrow> k | None \<Rightarrow> lit ''public'') (tk_payload task) query"
  obtain x u where u: "get_shared cfg c key (tk_payload task) query ?s1 = (x, u)"
    by (cases "get_shared cfg c key (tk_payload task) query ?s1")
  have "cache_ok cfg (replay_to c (sub_count u) x (add_subscription c (tk_id task) x u))"
    using get_shared_cache [OF delete_cache [OF ok] delete_graph_ok [OF g] u] by (simp add: replay_to_cache)
  then show ?thesis
    using False u unfolding complete_subscribe_def Let_def key_def [symmetric] by simp
qed

section \<open>Every step keeps the cache\<close>

lemma execution_cache:
  assumes ok: "cache_ok cfg s"
  shows "cache_ok cfg (execution_done cfg x outcome s)"
proof -
  have "cache_ok cfg (fold (reject_result cfg) js (lv_out e s))" for js e
    by (rule fold_invariant) (use ok in \<open>simp_all add: reject_result_def Let_def delete_cache\<close>)
  moreover have "cache_ok cfg (fold (deliver_result changed r) js (cacheReplay cfg x r (on_op x (\<lambda>op. op\<lparr>so_fingerprint := a, so_length := b\<rparr>) s)))"
    if "is_current x s" for changed r js a b
  proof -
    let ?s = "on_op x (\<lambda>op. op\<lparr>so_fingerprint := a, so_length := b\<rparr>) s"
    have c: "cache ?s = cache s"
      by (simp add: cache_on_op)
    then have "map_of (shared_operations ?s) (so_key (lv_ops ?s x)) = Some x"
      using that unfolding cache_iff by (simp add: is_current_def)
    then have "cache_ok cfg (cacheReplay cfg x r ?s)"
      using ok cache_cong(2) [OF c] by (intro cacheReplay_ok) simp_all
    then show ?thesis
      using cache_cong(2) [OF cache_fold [of "deliver_result changed r"]] by simp
  qed
  ultimately have "cache_ok cfg (execution_result cfg x v s)" for v
    using ok by (simp add: execution_result_def Let_def)
  with ok show ?thesis
    by (simp add: execution_done_def split: sum.split)
qed

lemma chain_cache: "cache_ok cfg s \<Longrightarrow> cache_ok cfg (chain_runs cfg c s)"
  by (simp add: chain_runs_def handle_chained_def delete_cache split: chain_link.split list.split option.split)

lemma awaited_cache: "cache_ok cfg s \<Longrightarrow> graph_ok s \<Longrightarrow> cache_ok cfg (live_awaited cfg c e s)"
  by (simp add: live_awaited_def complete_cache split: chain_link.split subscribe_stage.split live_event.split sum.split)

lemma close_cache: "cache_ok cfg s \<Longrightarrow> cache_ok cfg (live_close c s)"
  by (simp add: live_close_def fold_invariant [of "cache_ok cfg"] delete_cache)

lemma dispose_cache: "cache_ok cfg s \<Longrightarrow> cache_ok cfg (live_dispose s)"
proof -
  assume ok: "cache_ok cfg s"
  have sub: "cache_ok cfg t \<Longrightarrow> cache_ok cfg (dispose_subscriber i t)" for i t
    by (simp add: dispose_subscriber_def Let_def delete_cache)
  then have op: "cache_ok cfg t \<Longrightarrow> cache_ok cfg (dispose_operation x t)" for x t
    by (simp add: dispose_operation_def fold_invariant [of "cache_ok cfg"])
  let ?s = "s\<lparr>live_disposed := True, live_disposing := True, live_debounce := False, initial_queue := [], rerun_queue := []\<rparr>"
  have "cache ?s = cache s"
    by simp
  then have "cache_ok cfg (updateQueueDepth ?s)"
    using ok cache_cong(2) [of ?s s cfg] by simp
  with ok op show ?thesis
    by (simp add: live_dispose_def Let_def fold_invariant [of "cache_ok cfg"])
qed

lemma fold_clear_replay:
  "so_replay (lv_ops (fold clearReplay xs s) y) = (if y \<in> set xs then None else so_replay (lv_ops s y))"
  by (induction xs arbitrary: s) (auto simp: cache_clear)

lemma dispose_settled_cache:
  assumes ok: "cache_ok cfg s"
  shows "cache_ok cfg (dispose_settled s)"
proof -
  let ?t = "fold clearReplay (map snd (shared_operations s)) s"
  have "so_replay (lv_ops s x) \<noteq> None \<Longrightarrow> x \<in> snd ` set (shared_operations s)" for x
    using ok cache_exactD(3) [of s x] map_of_SomeD [of "shared_operations s" "so_key (lv_ops s x)" x]
    by (force simp: cache_ok_def)
  then have "so_replay (lv_ops ?t x) = None" for x
    using not_Some_eq by (fastforce simp: fold_clear_replay)
  then have "cache_ok cfg (?t\<lparr>live_disposing := False, shared_operations := [], replay_order := [], cached_result_bytes := 0\<rparr>)"
    by (simp add: cache_ok_def cache_exact_def cached_sum_def)
  with ok show ?thesis
    by (simp add: dispose_settled_def Let_def)
qed

lemma new_cache: "cache_ok cfg new_live"
  by (simp add: cache_ok_def cache_exact_def cached_sum_def new_live_def no_operation_def)

end
