(* ===== verification/Live_Invariant.thy ===== *)
theory Live_Invariant
  imports Live_Limits Live_Cache
begin

text \<open>
  Invariants of live queries, last part: all of them together hold after every run.
\<close>

section \<open>What the other parts need\<close>

definition base where
  "base s = ((\<lambda>c. lc_attached (lv_conns s c)), conn_count s, live_disposed s, live_disposing s)"

lemma base_iff:
  "base t = base s \<longleftrightarrow>
     (\<forall>c. lc_attached (lv_conns t c) = lc_attached (lv_conns s c)) \<and> conn_count t = conn_count s
     \<and> live_disposed t = live_disposed s \<and> live_disposing t = live_disposing s"
  by (auto simp: base_def fun_eq_iff)

definition base_ok :: "live_state \<Rightarrow> bool" where
  "base_ok s \<longleftrightarrow> (\<forall>c. lc_attached (lv_conns s c) \<longrightarrow> c < conn_count s) \<and> (live_disposing s \<longrightarrow> live_disposed s)"

lemma base_cong: "base t = base s \<Longrightarrow> base_ok t = base_ok s"
  unfolding base_iff base_ok_def by simp

lemma base_out [simp]: "base (lv_out e s) = base s" "base (lv_send c f s) = base s" "base (lv_error c mid message s) = base s"
    "base (updateQueueDepth s) = base s"
  by (simp_all add: base_def live_defs updateQueueDepth_def)

lemma base_on [simp]: "base (on_op x f s) = base s" "base (on_sub i h s) = base s"
  by (simp_all add: base_def live_defs)

lemma base_on_conn: "(\<And>k. lc_attached (f k) = lc_attached k) \<Longrightarrow> base (on_conn c f s) = base s"
  by (simp add: base_iff live_defs)

lemma base_fields [simp]:
  "base (s\<lparr>initial_queue := a\<rparr>) = base s" "base (s\<lparr>rerun_queue := a\<rparr>) = base s" "base (s\<lparr>replay_order := r\<rparr>) = base s"
  "base (s\<lparr>running_promises := p\<rparr>) = base s" "base (s\<lparr>active_operations := n\<rparr>) = base s"
  "base (s\<lparr>pending_operations := n\<rparr>) = base s" "base (s\<lparr>running_executions := n\<rparr>) = base s"
  "base (s\<lparr>live_debounce := b\<rparr>) = base s" "base (s\<lparr>cached_result_bytes := n\<rparr>) = base s"
  "base (s\<lparr>shared_operations := sh\<rparr>) = base s" "base (s\<lparr>sub_count := m\<rparr>) = base s" "base (s\<lparr>op_count := m\<rparr>) = base s"
  by (simp_all add: base_def)

lemma base_fold: "(\<And>a t. base (f a t) = base t) \<Longrightarrow> base (fold f xs s) = base s"
  by (induction xs arbitrary: s) simp_all

lemma base_clearReplay [simp]: "base (clearReplay x s) = base s"
  by (simp add: clearReplay_def Let_def)

lemma base_make_room [simp]: "base (make_room fuel limit bytes s) = base s"
  by (induction fuel limit bytes s rule: make_room.induct) (auto split: list.splits)

lemma base_cacheReplay [simp]: "base (cacheReplay cfg x r s) = base s"
  by (simp add: cacheReplay_def Let_def)

lemma base_setActiveDelta [simp]: "base (setActiveDelta d s) = base s"
  by (simp add: setActiveDelta_def Let_def)

lemma base_removeQueued [simp]: "base (removeQueuedOperation x s) = base s"
  by (simp add: removeQueuedOperation_def Let_def split: option.split)

lemma base_drop [simp]: "base (drop_shared x s) = base s"
  by (simp add: drop_shared_def Let_def)

lemma base_delete [simp]: "base (deleteOperation c mid s) = base s"
  by (simp add: deleteOperation_def Let_def base_on_conn split: option.split)

lemma base_start [simp]: "base (start_execution x s) = base s"
  by (simp add: start_execution_def Let_def)

lemma base_next: "nextQueuedOperation s = Some (x, t) \<Longrightarrow> base t = base s"
  by (auto simp: nextQueuedOperation_def split: list.splits)

lemma base_pump [simp]: "base (pumpQueue cfg s) = base s"
proof (induction cfg s rule: pumpQueue.induct)
  case (1 cfg s)
  then show ?case
    by (subst pumpQueue.simps) (auto split: option.split dest: base_next)
qed

lemma base_enqueue [simp]: "base (enqueue cfg x k s) = base s"
  by (simp add: enqueue_def Let_def)

lemma base_deliver [simp]: "base (deliver_result changed r i s) = base s"
  by (simp add: deliver_result_def Let_def)

lemma base_fail [simp]: "base (fail_subscriber m i s) = base s"
  by (simp add: fail_subscriber_def Let_def)

lemma base_reject [simp]: "base (reject_result cfg i s) = base s"
  by (simp add: reject_result_def Let_def)

lemma base_execution_done [simp]: "base (execution_done cfg x outcome s) = base s"
proof -
  have "base (settle_promise x t) = base t" for t
    by (simp add: settle_promise_def)
  then show ?thesis
    by (simp add: execution_done_def execution_result_def execution_error_def Let_def base_fold split: sum.split)
qed

lemma base_finally [simp]: "base (execution_finally cfg x s) = base s"
  by (simp add: execution_finally_def Let_def)

lemma base_rerunAll [simp]: "base (rerunAll cfg s) = base s"
  by (simp add: rerunAll_def base_fold)

lemma base_schedule [simp]: "base (scheduleRerunAll s) = base s"
  by (simp add: scheduleRerunAll_def)

lemma base_link [simp]: "base (link_done c s) = base s" "base (release_pending b s) = base s" "base (end_subscribe c b s) = base s"
    "base (refuse c mid r e s) = base s" "base (next_stage c task st s) = base s" "base (subscribe_failed c task m s) = base s"
    "base (cost_arrived c task q s) = base s" "base (prepared cfg c task s) = base s"
  by (simp_all add: link_done_def release_pending_def end_subscribe_def refuse_def next_stage_def subscribe_failed_def
      cost_arrived_def prepared_def Let_def base_on_conn split: option.splits query_cost_result.splits sum.splits)

lemma base_begin [simp]: "base (begin_subscribe cfg c m s) = base s"
  by (simp add: begin_subscribe_def Let_def base_on_conn split: option.split)

lemma base_replay_to [simp]: "base (replay_to c i x s) = base s"
  by (simp add: replay_to_def Let_def split: option.split)

lemma base_complete [simp]: "base (complete_subscribe cfg c task query scope s) = base s"
proof -
  have "base (snd (get_shared cfg c key payload query t)) = base t" for key payload t
    by (simp add: get_shared_def Let_def split: option.split)
  then show ?thesis
    by (simp add: complete_subscribe_def add_subscription_def Let_def base_on_conn case_prod_unfold)
qed

lemma base_awaited [simp]: "base (live_awaited cfg c e s) = base s"
  by (simp add: live_awaited_def split: chain_link.split subscribe_stage.split live_event.split sum.split)

lemma base_message [simp]: "base (live_message cfg c raw s) = base s"
  by (simp add: live_message_def handle_plain_def base_on_conn split: option.split)

lemma base_chain [simp]: "base (chain_runs cfg c s) = base s"
  by (simp add: chain_runs_def handle_chained_def base_on_conn split: chain_link.split list.split option.split)

lemma base_chain_settles [simp]: "base (chain_settles c s) = base s"
  by (simp add: chain_settles_def base_on_conn)

lemma base_dispose_operation [simp]: "base (dispose_operation x s) = base s"
  by (simp add: dispose_operation_def dispose_subscriber_def Let_def base_fold base_on_conn)

lemma base_ok_open: "base_ok s \<Longrightarrow> base_ok (live_open request s)"
  by (auto simp: base_ok_def live_open_def live_defs intro: less_SucI)

lemma base_ok_close: "base_ok s \<Longrightarrow> base_ok (live_close c s)"
proof -
  assume ok: "base_ok s"
  have "base (fold (deleteOperation c) ms (on_conn c (\<lambda>k. k\<lparr>lc_closed := True\<rparr>) s)) = base s" for ms
    by (simp add: base_fold base_on_conn)
  with ok show ?thesis
    unfolding base_iff by (simp add: live_close_def base_ok_def live_defs)
qed

lemma base_ok_dispose: "base_ok s \<Longrightarrow> base_ok (live_dispose s)"
proof -
  assume ok: "base_ok s"
  let ?s = "updateQueueDepth (s\<lparr>live_disposed := True, live_disposing := True, live_debounce := False, initial_queue := [], rerun_queue := []\<rparr>)"
  have "base_ok ?s"
    using ok by (simp add: base_ok_def updateQueueDepth_def lv_out_def)
  then have "base_ok (fold dispose_operation xs ?s)" for xs
    by (intro fold_invariant [of base_ok]) (simp_all add: base_cong [OF base_dispose_operation])
  with ok show ?thesis
    by (simp add: live_dispose_def Let_def)
qed

lemma base_ok_dispose_settled: "base_ok s \<Longrightarrow> base_ok (dispose_settled s)"
proof -
  assume ok: "base_ok s"
  have "base (fold clearReplay xs s) = base s" for xs
    by (simp add: base_fold)
  with ok show ?thesis
    unfolding base_iff by (simp add: dispose_settled_def base_ok_def live_defs)
qed

section \<open>The invariant\<close>

definition live_ok :: "live_config \<Rightarrow> live_state \<Rightarrow> bool" where
  "live_ok cfg s \<longleftrightarrow> graph_ok s \<and> limits_ok cfg s \<and> sched_ok cfg s \<and> cache_ok cfg s \<and> base_ok s"

lemma graph_ok_message: "graph_ok s \<Longrightarrow> graph_ok (live_message cfg c raw s)"
  by (simp add: live_message_def handle_plain_def split: option.split)

lemma graph_ok_chain: "graph_ok s \<Longrightarrow> graph_ok (chain_runs cfg c s)"
  by (simp add: chain_runs_def handle_chained_def delete_graph_ok split: chain_link.split list.split option.split)

lemma graph_ok_settles: "graph_ok s \<Longrightarrow> graph_ok (chain_settles c s)"
  by (simp add: chain_settles_def)

lemma graph_ok_awaited:
  assumes "graph_ok s" "lc_link (lv_conns s c) \<noteq> Link_None \<Longrightarrow> c < conn_count s"
  shows "graph_ok (live_awaited cfg c e s)"
proof (cases "lc_link (lv_conns s c)")
  case (Link_Subscribe task)
  with assms have "graph_ok (complete_subscribe cfg c task query scope s)" for query scope
    by (simp add: graph_ok_complete)
  with assms(1) Link_Subscribe show ?thesis
    by (simp add: live_awaited_def split: subscribe_stage.split live_event.split sum.split)
qed (use assms in \<open>simp_all add: live_awaited_def\<close>)

lemma live_awaited_ok: "live_ok cfg s \<Longrightarrow> live_ok cfg (live_awaited cfg c e s)"
  unfolding live_ok_def using limits_okD(3) [of cfg s c]
  by (simp add: graph_ok_awaited awaited_limits awaited_sched awaited_cache base_cong [OF base_awaited])

lemma live_step_ok: "live_ok cfg s \<Longrightarrow> live_ok cfg (live_step cfg e s)"
proof (cases e)
  case (Ev_Open request)
  then show "live_ok cfg s \<Longrightarrow> ?thesis"
    by (simp add: live_ok_def graph_ok_open open_limits open_sched base_ok_open)
next
  case (Ev_Message c raw)
  then show "live_ok cfg s \<Longrightarrow> ?thesis"
    by (simp add: live_ok_def graph_ok_message attached_count message_sched base_cong [OF base_message]) (simp add: base_ok_def attached_count)
next
  case (Ev_Chain c)
  then show "live_ok cfg s \<Longrightarrow> ?thesis"
    by (simp add: live_ok_def graph_ok_chain chain_limits chain_sched chain_cache base_cong [OF base_chain])
next
  case (Ev_Chain_Settled c)
  then show "live_ok cfg s \<Longrightarrow> ?thesis"
    by (simp add: live_ok_def graph_ok_settles settle_limits chain_settles_sched base_cong [OF base_chain_settles])
next
  case (Ev_Result x outcome)
  then show "live_ok cfg s \<Longrightarrow> ?thesis"
    by (simp add: live_ok_def graph_ok_execution_done execution_limits execution_sched execution_cache base_cong [OF base_execution_done])
next
  case (Ev_Finally x)
  then show "live_ok cfg s \<Longrightarrow> ?thesis"
    by (simp add: live_ok_def finally_sched base_cong [OF base_finally])
next
  case (Ev_Close c)
  then show "live_ok cfg s \<Longrightarrow> ?thesis"
    by (simp add: live_ok_def graph_ok_close live_close_limits close_sched close_cache base_ok_close) (simp add: base_ok_def live_close_limits)
next
  case Ev_Invalidate
  then show "live_ok cfg s \<Longrightarrow> ?thesis"
    by (simp add: live_ok_def base_cong [OF base_schedule])
next
  case Ev_Debounce
  then show "live_ok cfg s \<Longrightarrow> ?thesis"
    by (simp add: live_ok_def rerunAll_sched base_cong [OF base_rerunAll])
next
  case Ev_Dispose
  then show "live_ok cfg s \<Longrightarrow> ?thesis"
    by (simp add: live_ok_def graph_ok_dispose dispose_limits dispose_sched dispose_cache base_ok_dispose)
next
  case Ev_Dispose_Settled
  then show "live_ok cfg s \<Longrightarrow> ?thesis"
    by (simp add: live_ok_def graph_ok_dispose_settled dispose_settled_sched dispose_settled_cache base_ok_dispose_settled)
      (simp add: base_ok_def graph_ok_dispose_settled dispose_settled_sched)
qed (simp_all add: live_awaited_ok)

lemma new_live_ok: "live_ok cfg new_live"
proof -
  have "graph_ok new_live"
    by (simp add: graph_ok_def new_live_def no_connection_def no_operation_def)
  moreover have "limits_ok cfg new_live"
    by (simp add: limits_ok_def conn_ok_def new_live_def no_connection_def busy_link_def size_rejected_def kept_replaced_def)
  moreover have "base_ok new_live"
    by (simp add: base_ok_def new_live_def no_connection_def)
  ultimately show ?thesis
    by (simp add: live_ok_def new_sched new_cache)
qed

text \<open>Every state of a run is well formed.\<close>

lemma live_run_ok: "live_ok cfg (live_run cfg events)"
  unfolding live_run_def by (rule fold_invariant) (simp_all add: new_live_ok live_step_ok)

end
