(* ===== verification/Live_Properties.thy ===== *)
theory Live_Properties
  imports Live_Invariant
begin

text \<open>
  The properties of live queries: the limits hold in every run, the shared operations and their queues are consistent,
  and the outcome of an execution is sent to the subscribers that wait for it.
\<close>

section \<open>What is sent\<close>

definition sent_of :: "live_output \<Rightarrow> (nat \<times> jstring) list" where
  "sent_of e = (case e of Sent c frame \<Rightarrow> [(c, frame)] | _ \<Rightarrow> [])"

definition sent_frames :: "live_state \<Rightarrow> (nat \<times> jstring) list" where
  "sent_frames s = concat (map sent_of (live_outputs s))"

lemma sent_out [simp]: "sent_frames (lv_out e s) = sent_frames s @ sent_of e"
  by (simp add: sent_frames_def lv_out_def)

lemma sent_of_simps [simp]: "sent_of (Sent c f) = [(c, f)]" "sent_of (Rejected r) = []" "sent_of (Active_Changed b) = []"
    "sent_of (Active_Operations n) = []" "sent_of (Active_Shared m) = []" "sent_of (Queue_Depth m) = []"
    "sent_of (Cached_Bytes n) = []" "sent_of (Execution_Finished b) = []"
  by (simp_all add: sent_of_def)

text \<open>What a frame to a subscription depends on.\<close>

definition who :: "live_state \<Rightarrow> nat \<Rightarrow> nat \<times> jstring \<times> websocket_protocol" where
  "who s i = (ls_state (lv_subs s i), ls_id (lv_subs s i), lc_protocol (lv_conns s (ls_state (lv_subs s i))))"

lemma who_out [simp]: "who (lv_out e s) i = who s i"
  by (simp add: who_def lv_out_def)

definition result_frame :: "live_state \<Rightarrow> jstring \<Rightarrow> nat \<Rightarrow> nat \<times> jstring" where
  "result_frame s payload i = (case who s i of (c, mid, protocol) \<Rightarrow> (c, sendSerializedResult protocol mid payload))"

definition error_frame :: "live_state \<Rightarrow> jstring \<Rightarrow> nat \<Rightarrow> nat \<times> jstring" where
  "error_frame s message i = (case who s i of (c, mid, protocol) \<Rightarrow> (c, sendProtocolError protocol (Some mid) message))"

lemma frame_cong:
  assumes "who t i = who s i"
  shows "result_frame t p i = result_frame s p i" "error_frame t m i = error_frame s m i"
  by (simp_all add: result_frame_def error_frame_def assms)

definition senders where
  "senders s = ((\<lambda>i. who s i), sent_frames s)"

lemma senders_iff: "senders t = senders s \<longleftrightarrow> (\<forall>i. who t i = who s i) \<and> sent_frames t = sent_frames s"
  by (auto simp: senders_def fun_eq_iff)

lemma senders_out: "sent_of e = [] \<Longrightarrow> senders (lv_out e s) = senders s"
  by (simp add: senders_iff)

lemma senders_on [simp]: "senders (on_op x f s) = senders s"
  by (simp add: senders_def who_def sent_frames_def live_defs)

lemma senders_conn: "(\<And>k. lc_protocol (f k) = lc_protocol k) \<Longrightarrow> senders (on_conn c f s) = senders s"
  by (auto simp: senders_def who_def sent_frames_def live_defs)

lemma senders_fields [simp]:
  "senders (s\<lparr>initial_queue := a\<rparr>) = senders s" "senders (s\<lparr>rerun_queue := a\<rparr>) = senders s"
  "senders (s\<lparr>replay_order := r\<rparr>) = senders s" "senders (s\<lparr>active_operations := n\<rparr>) = senders s"
  "senders (s\<lparr>live_debounce := b\<rparr>) = senders s" "senders (s\<lparr>cached_result_bytes := n\<rparr>) = senders s"
  "senders (s\<lparr>shared_operations := sh\<rparr>) = senders s" "senders (s\<lparr>running_promises := p\<rparr>) = senders s"
  by (simp_all add: senders_def who_def sent_frames_def)

lemma senders_clearReplay [simp]: "senders (clearReplay x s) = senders s"
  by (simp add: clearReplay_def Let_def senders_out)

lemma senders_make_room [simp]: "senders (make_room fuel limit bytes s) = senders s"
  by (induction fuel limit bytes s rule: make_room.induct) (auto split: list.splits)

lemma senders_cacheReplay [simp]: "senders (cacheReplay cfg x r s) = senders s"
  by (simp add: cacheReplay_def Let_def senders_out)

lemma senders_setActiveDelta [simp]: "senders (setActiveDelta d s) = senders s"
  by (simp add: setActiveDelta_def Let_def senders_out)

lemma senders_removeQueued [simp]: "senders (removeQueuedOperation x s) = senders s"
  by (simp add: removeQueuedOperation_def updateQueueDepth_def Let_def senders_out split: option.split)

lemma senders_drop [simp]: "senders (drop_shared x s) = senders s"
  by (simp add: drop_shared_def Let_def senders_out)

lemma senders_delete [simp]: "senders (deleteOperation c mid s) = senders s"
  by (simp add: deleteOperation_def Let_def senders_conn split: option.split)

lemma senders_settle [simp]: "senders (settle_promise x s) = senders s"
  by (simp add: settle_promise_def)

text \<open>The loops over the subscribers.\<close>

lemma reject_sent:
  "sent_frames (fold (reject_result cfg) js s) = sent_frames s @ map (error_frame s
     (lit ''Live query result exceeds '' @ decimal_text (max_result_bytes cfg) @ lit '' byte limit'')) js"
proof (induction js arbitrary: s)
  case (Cons j js)
  let ?m = "lit ''Live query result exceeds '' @ decimal_text (max_result_bytes cfg) @ lit '' byte limit''"
  let ?t = "reject_result cfg j s"
  have e: "lv_error (ls_state (lv_subs s j)) (Some (ls_id (lv_subs s j))) ?m s = lv_out (Sent (fst (error_frame s ?m j)) (snd (error_frame s ?m j))) s"
    by (simp add: lv_error_def lv_send_def error_frame_def who_def)
  have "senders ?t = senders (lv_out (Sent (fst (error_frame s ?m j)) (snd (error_frame s ?m j))) s)"
    by (simp add: reject_result_def Let_def e)
  then have t: "sent_frames ?t = sent_frames s @ [error_frame s ?m j]" "who ?t i = who s i" for i
    unfolding senders_iff by simp_all
  show ?case
    by (simp add: Cons.IH t(1) frame_cong(2) [OF t(2)])
qed simp

lemma fail_sent:
  assumes "\<forall>j\<in>set js. is_registered j s"
  shows "sent_frames (fold (fail_subscriber m) js s) = sent_frames s @ map (error_frame s m) js"
  using assms
proof (induction js arbitrary: s)
  case (Cons j js)
  let ?t = "fail_subscriber m j s"
  have e: "?t = lv_out (Sent (fst (error_frame s m j)) (snd (error_frame s m j))) s"
    using Cons.prems by (simp add: fail_subscriber_def lv_error_def lv_send_def error_frame_def who_def Let_def)
  have t: "who ?t i = who s i" "is_registered i ?t = is_registered i s" for i
    by (simp_all add: e is_registered_def) (simp add: lv_out_def)
  show ?case
    using Cons.prems by (simp add: Cons.IH t(2) frame_cong(2) [OF t(1)]) (simp add: e)
qed simp

lemma deliver_step:
  shows "is_registered j s \<Longrightarrow> sent_frames (deliver_result changed p j s) = sent_frames s @ (if changed \<or> ls_initial (lv_subs s j) then [result_frame s p j] else [])"
    "who (deliver_result changed p j s) i = who s i" "is_registered i (deliver_result changed p j s) = is_registered i s"
    "is_registered j s \<Longrightarrow> ls_initial (lv_subs (deliver_result changed p j s) i) \<longleftrightarrow> ls_initial (lv_subs s i) \<and> i \<noteq> j"
  by (auto simp: deliver_result_def Let_def lv_send_def result_frame_def who_def is_registered_def on_sub_def sent_frames_def lv_out_def)

lemma deliver_sent:
  assumes "\<forall>j\<in>set js. is_registered j s" "distinct js"
  shows "sent_frames (fold (deliver_result changed p) js s)
        = sent_frames s @ map (result_frame s p) (filter (\<lambda>i. changed \<or> ls_initial (lv_subs s i)) js)
      \<and> (\<forall>i. ls_initial (lv_subs (fold (deliver_result changed p) js s) i) \<longleftrightarrow> ls_initial (lv_subs s i) \<and> i \<notin> set js)"
  using assms
proof (induction js arbitrary: s)
  case (Cons j js)
  let ?t = "deliver_result changed p j s"
  note t = deliver_step [where j = j and s = s and changed = changed and p = p]
  have "filter (\<lambda>i. changed \<or> ls_initial (lv_subs ?t i)) js = filter (\<lambda>i. changed \<or> ls_initial (lv_subs s i)) js"
    using Cons.prems by (intro filter_cong) (auto simp: t(4))
  moreover have "map (result_frame ?t p) is = map (result_frame s p) is" for "is"
    by (simp add: frame_cong(1) [OF t(2)])
  ultimately show ?case
    using Cons.prems Cons.IH [of ?t] by (auto simp: t)
qed simp_all

lemma rejected_subscribers:
  "graph_ok s \<Longrightarrow> so_subscribers (lv_ops s x) = js \<Longrightarrow> so_subscribers (lv_ops (fold (reject_result cfg) js s) x) = []"
proof (induction js arbitrary: s)
  case (Cons j js)
  let ?e = "lv_error (ls_state (lv_subs s j)) (Some (ls_id (lv_subs s j)))
      (lit ''Live query result exceeds '' @ decimal_text (max_result_bytes cfg) @ lit '' byte limit'') s"
  have g: "graph ?e = graph s"
    by simp
  have j: "ls_shared (lv_subs s j) = x" "(ls_id (lv_subs s j), j) \<in> set (lc_operations (lv_conns s (ls_state (lv_subs s j))))"
    using graph_okD(3) [OF Cons.prems(1), of j x] Cons.prems(2) by simp_all
  then have "map_of (lc_operations (lv_conns s (ls_state (lv_subs s j)))) (ls_id (lv_subs s j)) = Some j"
    using graph_okD(1) [OF Cons.prems(1)] by (simp add: map_of_is_SomeI)
  then have "map_of (lc_operations (lv_conns ?e (ls_state (lv_subs s j)))) (ls_id (lv_subs s j)) = Some j"
    using g [unfolded graph_iff] by metis
  from graph_delete(10) [OF this, of x]
  have "so_subscribers (lv_ops (reject_result cfg j s) x) = js"
    using g [unfolded graph_iff] j(1) Cons.prems(2) by (simp add: reject_result_def Let_def)
  with Cons.IH [of "reject_result cfg j s"] show ?case
    using Cons.prems(1) by (simp add: graph_ok_reject)
qed simp

section \<open>Properties\<close>

definition result_text :: "json option \<Rightarrow> jstring" where
  "result_text result = (case result of Some v \<Rightarrow> json_text v | None \<Rightarrow> lit ''null'')"

definition result_changed :: "live_config \<Rightarrow> nat \<Rightarrow> jstring \<Rightarrow> live_state \<Rightarrow> bool" where
  "result_changed cfg x payload s \<longleftrightarrow>
     so_fingerprint (lv_ops s x) \<noteq> Some (hash_text cfg payload) \<or> so_length (lv_ops s x) \<noteq> Some (length payload)"

text \<open>The subscriptions of an operation that have got no result yet.\<close>

definition waiting_for :: "nat \<Rightarrow> live_state \<Rightarrow> nat list" where
  "waiting_for x s = filter (\<lambda>i. ls_initial (lv_subs s i)) (so_subscribers (lv_ops s x))"

lemma registered_subscribers: "graph_ok s \<Longrightarrow> i \<in> set (so_subscribers (lv_ops s x)) \<Longrightarrow> is_registered i s"
  using graph_okD(1) [of s "ls_state (lv_subs s i)"] graph_okD(3) [of s i x] by (simp add: is_registered_def map_of_is_SomeI)

lemma settle_outcome:
  "sent_frames (settle_promise x s) = sent_frames s" "waiting_for x (settle_promise x s) = waiting_for x s"
  by (simp_all add: settle_promise_def sent_frames_def waiting_for_def)

lemma outcome_out: "waiting_for x (lv_out e s) = waiting_for x s"
  by (simp add: waiting_for_def lv_out_def)

lemma initial_fail: "ls_initial (lv_subs (fold (fail_subscriber m) js s) i) = ls_initial (lv_subs s i)"
  by (induction js arbitrary: s) (simp_all add: fail_subscriber_def live_defs)

lemma execution_error_outcome:
  assumes g: "graph_ok s"
  shows "sent_frames (execution_error x m s) = sent_frames s @ map (error_frame s m) (so_subscribers (lv_ops s x))
    \<and> waiting_for x (execution_error x m s) = waiting_for x s"
proof -
  have "graph (fold (fail_subscriber m) js s) = graph s" for js
    by (simp add: graph_fold)
  then have "waiting_for x (fold (fail_subscriber m) js s) = waiting_for x s" for js
    unfolding graph_iff by (simp add: waiting_for_def initial_fail)
  then show ?thesis
    using registered_subscribers [OF g] by (simp add: execution_error_def fail_sent outcome_out)
qed

lemma execution_too_large:
  assumes g: "graph_ok s" and large: "max_result_bytes cfg < length (text_encode (result_text result))"
  shows "sent_frames (execution_result cfg x result s) = sent_frames s @ map (error_frame s
        (lit ''Live query result exceeds '' @ decimal_text (max_result_bytes cfg) @ lit '' byte limit'')) (so_subscribers (lv_ops s x))
    \<and> waiting_for x (execution_result cfg x result s) = []"
proof -
  let ?r = "lv_out (Rejected Result_Size) s"
  have ops: "lv_ops ?r = lv_ops s" "who ?r i = who s i" for i
    by simp_all (simp add: lv_out_def)
  have "waiting_for x (fold (reject_result cfg) (so_subscribers (lv_ops s x)) ?r) = []"
    using rejected_subscribers [of ?r x "so_subscribers (lv_ops s x)" cfg] g by (simp add: waiting_for_def ops)
  moreover have "execution_result cfg x result s
      = lv_out (Execution_Finished False) (fold (reject_result cfg) (so_subscribers (lv_ops s x)) ?r)"
    using large by (simp add: execution_result_def result_text_def)
  moreover have "map (error_frame ?r m) js = map (error_frame s m) js" for m js
    by (simp add: frame_cong(2) [OF ops(2)])
  ultimately show ?thesis
    by (simp add: reject_sent outcome_out)
qed

lemma execution_delivers:
  assumes g: "graph_ok s" and fits: "\<not> max_result_bytes cfg < length (text_encode (result_text result))"
  shows "sent_frames (execution_result cfg x result s) = sent_frames s @
      (if is_current x s then map (result_frame s (result_text result))
         (filter (\<lambda>i. result_changed cfg x (result_text result) s \<or> ls_initial (lv_subs s i)) (so_subscribers (lv_ops s x)))
       else [])
    \<and> waiting_for x (execution_result cfg x result s) = (if is_current x s then [] else waiting_for x s)"
proof -
  let ?p = "result_text result" and ?js = "so_subscribers (lv_ops s x)"
  let ?ch = "result_changed cfg x ?p s"
  define u where "u = on_op x (\<lambda>op. op\<lparr>so_fingerprint := Some (hash_text cfg ?p), so_length := Some (length ?p)\<rparr>) s"
  define v where "v = cacheReplay cfg x ?p u"
  have uv: "graph v = graph s" "senders v = senders s"
    by (simp_all add: u_def v_def graph_on_op)
  have initial: "ls_initial (lv_subs v i) = ls_initial (lv_subs s i)" for i
  proof -
    have m: "lv_subs (make_room fuel limit bytes t) = lv_subs t" for fuel limit bytes t
      by (induction fuel limit bytes t rule: make_room.induct) (auto simp: clearReplay_def live_defs split: list.splits)
    show ?thesis
      by (simp add: v_def u_def cacheReplay_def clearReplay_def m live_defs)
  qed
  have reg: "\<forall>j\<in>set ?js. is_registered j v" "distinct ?js" "so_subscribers (lv_ops v x) = ?js"
    using registered_subscribers [OF g] graph_okD(4) [OF g] registered_cong [OF uv(1)] uv(1) by (simp_all add: graph_iff)
  note d = deliver_sent [OF reg(1,2), of ?ch ?p]
  have gd: "graph (fold (deliver_result ?ch ?p) ?js v) = graph v"
    by (simp add: graph_fold)
  have e: "execution_result cfg x result s = lv_out (Execution_Finished True)
      (if is_current x s \<and> (?ch \<or> waiting_for x s \<noteq> []) then fold (deliver_result ?ch ?p) ?js v else s)"
    using fits reg(3)
    by (simp add: execution_result_def Let_def result_text_def [symmetric] result_changed_def u_def v_def waiting_for_def
        filter_empty_conv) blast
  have frames: "map (result_frame v ?p) is = map (result_frame s ?p) is" for "is"
  proof -
    have "who v i = who s i" for i
      using uv(2) by (simp add: senders_iff)
    from frame_cong(1) [OF this] show ?thesis
      by simp
  qed
  have sent: "sent_frames (fold (deliver_result ?ch ?p) ?js v) = sent_frames s @ map (result_frame s ?p) (filter (\<lambda>i. ?ch \<or> ls_initial (lv_subs s i)) ?js)"
    using d uv(2) [unfolded senders_iff] unfolding frames initial by simp
  have told: "waiting_for x (fold (deliver_result ?ch ?p) ?js v) = []"
    using d gd [unfolded graph_iff] reg(3) by (simp add: waiting_for_def filter_empty_conv)
  show ?thesis
  proof (cases "is_current x s \<and> (?ch \<or> waiting_for x s \<noteq> [])")
    case True
    then have "execution_result cfg x result s = lv_out (Execution_Finished True) (fold (deliver_result ?ch ?p) ?js v)"
      unfolding e by simp
    then show ?thesis
      using True by (simp add: sent told outcome_out)
  next
    case False
    have "execution_result cfg x result s = lv_out (Execution_Finished True) s"
      unfolding e if_not_P [OF False] ..
    moreover have "filter (\<lambda>i. ?ch \<or> ls_initial (lv_subs s i)) ?js = []" "waiting_for x s = []" if "is_current x s"
      using that False by (simp_all add: waiting_for_def filter_empty_conv)
    ultimately show ?thesis
      by (simp add: outcome_out)
  qed
qed

text \<open>
  C1: when an execution settles, every subscriber of its operation is told: with a result, in the protocol of
  its connection, when the result is new or the subscriber has had none, and with the error otherwise; a result
  that is too large ends the subscriptions. No other frame is sent, and after a result nobody waits for a first one.
\<close>

theorem outcome_sent:
  "let s = live_run cfg events; t = live_step cfg (Ev_Result x outcome) s; subscribers = so_subscribers (lv_ops s x) in
   (sent_frames t, waiting_for x t) =
     (if (x, False) \<notin> set (running_promises s) then (sent_frames s, waiting_for x s)
      else
        (case outcome of
           Inl message \<Rightarrow> (sent_frames s @ map (error_frame s message) subscribers, waiting_for x s)
         | Inr result \<Rightarrow>
             if max_result_bytes cfg < length (text_encode (result_text result)) then
               (sent_frames s @ map (error_frame s (lit ''Live query result exceeds '' @ decimal_text (max_result_bytes cfg)
                  @ lit '' byte limit'')) subscribers, [])
             else if is_current x s then
               (sent_frames s @ map (result_frame s (result_text result))
                  (filter (\<lambda>i. result_changed cfg x (result_text result) s \<or> ls_initial (lv_subs s i)) subscribers), [])
             else (sent_frames s, waiting_for x s)))"
proof -
  have g: "graph_ok (live_run cfg events)"
    using live_run_ok by (simp add: live_ok_def)
  show ?thesis
    using execution_error_outcome [OF g] execution_too_large [OF g] execution_delivers [OF g]
    by (simp add: Let_def execution_done_def settle_outcome split: sum.split)
qed

text \<open>
  C2: in every run, the executions are counted exactly and never exceed their limit; every connection
  keeps its limits of operations and pending messages; the operations are counted exactly and, with the reserved
  ones, keep the limit, unless a result was rejected for its size: then each connection can exceed it by one; the cached bytes are
  two for each unit of each cached result, and keep their limit.
\<close>

theorem live_limits:
  "let s = live_run cfg events in
   running_executions s = int (length (running_promises s)) \<and> length (running_promises s) \<le> max_concurrent_executions cfg
   \<and> (\<forall>c. length (lc_operations (lv_conns s c)) \<le> max_operations_per_connection cfg
        \<and> lc_pending (lv_conns s c) = length (lc_chain (lv_conns s c)) + busy_link (lc_link (lv_conns s c))
        \<and> lc_pending (lv_conns s c) \<le> max_pending_messages cfg)
   \<and> active_operations s = (\<Sum>c<conn_count s. int (length (lc_operations (lv_conns s c))))
   \<and> pending_operations s = (\<Sum>c<conn_count s. waiting (lc_link (lv_conns s c)))
   \<and> active_operations s + pending_operations s
        \<le> int (max_operations cfg) + (if size_rejected s then int (conn_count s) else 0)
   \<and> cached_result_bytes s = (\<Sum>e\<leftarrow>replay_order s. int (case so_replay (lv_ops s (snd e)) of Some r \<Rightarrow> 2 * length r | None \<Rightarrow> 0))
   \<and> cached_result_bytes s \<le> int (result_cache_max_bytes cfg)"
proof -
  define s where "s = live_run cfg events"
  have ok: "limits_ok cfg s" "sched_ok cfg s" "cache_ok cfg s"
    using live_run_ok by (simp_all add: live_ok_def s_def)
  have core: "sched_core cfg s" and cache: "cache_exact s"
    using ok by (simp_all add: sched_ok_def cache_ok_def)
  have bytes: "cached_sum s = (\<Sum>e\<leftarrow>replay_order s. int (case so_replay (lv_ops s (snd e)) of Some r \<Rightarrow> 2 * length r | None \<Rightarrow> 0))"
    unfolding cached_sum_def
  proof (intro arg_cong [of _ _ sum_list] map_cong refl)
    fix e
    assume "e \<in> set (replay_order s)"
    then obtain r where "so_replay (lv_ops s (snd e)) = Some r"
      using cache_exactD(2) [OF cache, of "fst e" "snd e"] by auto
    then show "int (so_bytes (lv_ops s (snd e))) = int (case so_replay (lv_ops s (snd e)) of Some r \<Rightarrow> 2 * length r | None \<Rightarrow> 0)"
      using cache_exactD(4) [OF cache] by simp
  qed
  have total: "active_operations s + pending_operations s \<le> int (max_operations cfg) + (if size_rejected s then int (conn_count s) else 0)"
  proof (cases "size_rejected s")
    case True
    have "(\<Sum>c<conn_count s. int (length (lc_operations (lv_conns s c))) + waiting (lc_link (lv_conns s c)))
        \<le> (\<Sum>c<conn_count s. load (lv_conns s c))"
      using stale_bounds(1) by (intro sum_mono) (simp add: load_def)
    then show ?thesis
      using ok(1) True by (simp add: limits_ok_def sum.distrib)
  next
    case False
    then show ?thesis
      using ok(1) by (simp add: limits_ok_def)
  qed
  have k: "conn_ok cfg (lv_conns s c)" for c
    using limits_okD(1) [OF ok(1)] .
  show ?thesis
    unfolding Let_def s_def [symmetric]
    using sched_coreD(8,9) [OF core] k total ok cache_exactD(5) [OF cache] bytes
    by (simp add: conn_ok_def limits_ok_def cache_ok_def)
qed

text \<open>
  C3: in every run, disposal included, an operation has exactly the subscribers whose connections hold them under their ids, no
  key is shared twice, no operation is twice in a queue or in a queue and running, and a queued operation is a current one. Until the
  handlers are disposed, also exactly the operations with subscribers are shared, each under its key, and operations wait only while
  every execution is busy. After that these two can fail: \<open>dispose\<close> closes the connections of the operations it finds, so another
  connection can still subscribe while it waits for the executions, and clearing the shared operations then leaves an
  operation with a subscriber that is not shared.
\<close>

theorem live_sharing:
  "let s = live_run cfg events in
   (\<forall>x i. i \<in> set (so_subscribers (lv_ops s x)) \<longleftrightarrow> ls_shared (lv_subs s i) = x \<and> is_registered i s)
   \<and> distinct (map fst (shared_operations s))
   \<and> (live_disposed s
      \<or> (\<forall>x. so_subscribers (lv_ops s x) = [] \<longleftrightarrow> x \<notin> snd ` set (shared_operations s))
        \<and> list_all (\<lambda>e. so_key (lv_ops s (snd e)) = fst e) (shared_operations s))
   \<and> distinct (initial_queue s @ rerun_queue s @ map fst (running_promises s))
   \<and> list_all (\<lambda>x. is_current x s) (initial_queue s @ rerun_queue s)
   \<and> (live_disposed s \<or> queue_depth s = 0 \<or> running_executions s = int (max_concurrent_executions cfg))"
proof -
  define s where "s = live_run cfg events"
  have g: "graph_ok s" and ok: "sched_ok cfg s"
    using live_run_ok by (simp_all add: live_ok_def s_def)
  have core: "sched_core cfg s"
    using ok by (simp add: sched_ok_def)
  note d = sched_coreD [OF core] and gd = graph_okD [OF g]
  have "i \<in> set (so_subscribers (lv_ops s x)) \<longleftrightarrow> ls_shared (lv_subs s i) = x \<and> is_registered i s" for x i
    using registered_subscribers [OF g, of i x] gd(3) [of i x] gd(2) [of _ i "ls_state (lv_subs s i)"]
    by (auto simp: is_registered_def dest: map_of_SomeD)
  moreover have "so_subscribers (lv_ops s x) = [] \<longleftrightarrow> x \<notin> snd ` set (shared_operations s)" if "\<not> live_disposed s" for x
    using gd(6) [of _ x] gd(7) [of x, OF that] by force
  moreover have "list_all (\<lambda>e. so_key (lv_ops s (snd e)) = fst e) (shared_operations s)"
    using gd(6) by (auto simp: list_all_iff)
  moreover have "distinct (initial_queue s @ rerun_queue s @ map fst (running_promises s))"
  proof -
    have "set (initial_queue s) \<inter> set (rerun_queue s) = {}"
      using d(3,4) by auto
    moreover have "x \<notin> fst ` set (running_promises s)" if "x \<in> set (initial_queue s) \<or> x \<in> set (rerun_queue s)" for x
    proof -
      have "so_queued (lv_ops s x) \<noteq> None" "\<not> live_disposed s"
        using that d(3,4) [of x] by auto
      then show ?thesis
        using d(5) [of x] d(7) [of x] by blast
    qed
    ultimately show ?thesis
      using d(1,2,6) by auto
  qed
  moreover have "list_all (\<lambda>x. is_current x s) (initial_queue s @ rerun_queue s)"
    unfolding list_all_iff
  proof
    fix x
    assume "x \<in> set (initial_queue s @ rerun_queue s)"
    then have "so_queued (lv_ops s x) \<noteq> None" "\<not> live_disposed s"
      using d(3,4) [of x] by auto
    then show "is_current x s"
      using d(5) [of x] by blast
  qed
  moreover have "live_disposed s \<or> queue_depth s = 0 \<or> running_executions s = int (max_concurrent_executions cfg)"
    using ok d(8,9) by (auto simp: sched_ok_def)
  ultimately show ?thesis
    using gd(5) unfolding Let_def s_def [symmetric] by blast
qed

end
