(* ===== verification/Js_Ops.thy ===== *)
theory Js_Ops
  imports Js_Arith
begin

text \<open>
  More arithmetic on JavaScript numbers: negation, subtraction, division, integers, \<open>Math.floor\<close>, \<open>Math.round\<close>, \<open>Math.abs\<close>, and
  the comparator \<open>(a, b) => a - b\<close>, which orders finite numbers by their value.
\<close>

section \<open>Operations\<close>

definition js_neg :: "js_number \<Rightarrow> js_number" where
  "js_neg x = (if is_nan x then js_nan else f64_make (1 - f64_sign x) (f64_exp x) (f64_man x))"

definition js_sub :: "js_number \<Rightarrow> js_number \<Rightarrow> js_number" where
  "js_sub x y = js_add x (js_neg y)"

definition js_div :: "js_number \<Rightarrow> js_number \<Rightarrow> js_number" where
  "js_div x y =
     (let s = (f64_sign x + f64_sign y) mod 2; e = f64_pow x - f64_pow y in
      if is_nan x \<or> is_nan y \<or> (is_inf x \<and> is_inf y) \<or> (is_zero x \<and> is_zero y) then js_nan
      else if is_inf x \<or> is_zero y then js_inf s
      else if is_inf y then f64_make s 0 0
      else f64_round s (scale_up (f64_sig x) e) (scale_up (f64_sig y) (- e)))"

definition js_of_int :: "int \<Rightarrow> js_number" where
  "js_of_int n = (if n < 0 then js_neg (js_of_nat (nat (- n))) else js_of_nat (nat n))"

definition number_abs :: "js_number \<Rightarrow> js_number" where
  "number_abs x = (if f64_sign x = 1 then js_neg x else x)"

text \<open>\<open>Math.floor\<close>; \<open>Math.round\<close> takes the nearest integer, and the one above of two that are as near.\<close>

definition js_floor :: "js_number \<Rightarrow> js_number" where
  "js_floor x = js_int_part (f64_sign x = 1) x"

definition js_round :: "js_number \<Rightarrow> js_number" where
  "js_round x =
     (if f64_exp x = 2047 \<or> 0 \<le> f64_pow x \<or> is_zero x then canon x
      else
        let d = 2 ^ nat (- f64_pow x); r = f64_sig x mod d in
        f64_round (f64_sign x)
          (f64_sig x div d + (if f64_sign x = 0 then (if d \<le> 2 * r then 1 else 0) else (if d < 2 * r then 1 else 0))) 1)"

text \<open>\<open>xs.toSorted((a, b) => a.k - b.k)\<close> on finite keys: a stable sort by the order of the numbers.\<close>

definition js_sort :: "('a \<Rightarrow> js_number) \<Rightarrow> 'a list \<Rightarrow> 'a list" where
  "js_sort k xs = sort_key (\<lambda>x. f64_key (k x)) xs"

section \<open>Rounding\<close>

text \<open>A common power of two does not change a ratio.\<close>

lemma top_bit_unique: "2 ^ k \<le> n \<Longrightarrow> n < 2 ^ Suc k \<Longrightarrow> top_bit n = k"
proof -
  assume n: "2 ^ k \<le> n" "n < 2 ^ Suc k"
  then have p: "0 < n"
    by (meson less_le_trans zero_less_numeral zero_less_power)
  have "2 ^ k < (2::nat) ^ Suc (top_bit n)" "2 ^ top_bit n < (2::nat) ^ Suc k"
    using n top_bit_bounds [OF p] by (meson le_less_trans less_le_trans)+
  then show ?thesis
    by (simp add: power_strict_increasing_iff del: power_Suc)
qed

lemma top_bit_shift: "0 < n \<Longrightarrow> top_bit (n * 2 ^ j) = top_bit n + j"
  using top_bit_bounds [of n] by (intro top_bit_unique) (simp_all add: power_add)

lemma scale_up_shift: "scale_up (n * 2 ^ j) e = scale_up n e * 2 ^ j"
  by (simp add: scale_up_def)

lemma ratio_exp_shift: "0 < n \<Longrightarrow> 0 < d \<Longrightarrow> ratio_exp (n * 2 ^ j) (d * 2 ^ j) = ratio_exp n d"
  by (simp add: ratio_exp_def top_bit_shift scale_up_shift)

lemma round_div_shift: "round_div (n * 2 ^ j) (d * 2 ^ j) = round_div n d"
proof -
  have "(n * 2 ^ j) mod (d * 2 ^ j) = (n mod d) * 2 ^ j"
    by (simp add: mult_mod_left)
  moreover have "2 * (n mod d * 2 ^ j) = (2 * (n mod d)) * 2 ^ j" "d * 2 ^ j < (2 * (n mod d)) * 2 ^ j \<longleftrightarrow> d < 2 * (n mod d)"
    "(2 * (n mod d)) * 2 ^ j = d * 2 ^ j \<longleftrightarrow> 2 * (n mod d) = d"
    by (simp_all only: mult.assoc mult_less_cancel2 mult_cancel2) simp_all
  ultimately show ?thesis
    by (simp add: round_div_def Let_def)
qed

lemma f64_round_shift: "0 < d \<Longrightarrow> f64_round s (n * 2 ^ j) (d * 2 ^ j) = f64_round s n d"
  by (cases "n = 0") (simp_all add: f64_round_def ratio_exp_shift scale_up_shift round_div_shift)

text \<open>A value that is a normal number is rounded to itself.\<close>

lemma f64_round_exact:
  assumes "2 ^ 52 \<le> sig" "sig < 2 ^ 53" "k \<le> 1073"
  shows "f64_round s sig (2 ^ k) = f64_make s (1075 - k) (sig - 2 ^ 52)"
proof -
  have t: "top_bit sig = 52" "top_bit (2 ^ k) = k"
    using assms by (intro top_bit_unique; simp)+
  have "ratio_exp sig (2 ^ k) = 52 - int k"
  proof -
    have "scale_up (2 ^ k) (52 - int k) \<le> scale_up sig (- (52 - int k))"
    proof (cases "k \<le> 52")
      case True
      then have "scale_up (2 ^ k) (52 - int k) = 2 ^ 52"
        by (simp add: scale_up_def nat_diff_distrib flip: power_add)
      with True assms(1) show ?thesis
        by (simp add: scale_up_def)
    next
      case False
      then have "nat (- (52 - int k)) = k - 52" "nat (52 - int k) = 0"
        by simp_all
      moreover have "2 ^ k = 2 ^ 52 * (2::nat) ^ (k - 52)"
        using False by (simp only: flip: power_add) simp
      then have "2 ^ k \<le> sig * 2 ^ (k - 52)"
        using mult_le_mono1 [OF assms(1), of "2 ^ (k - 52)"] by (simp only:)
      ultimately show ?thesis
        by (simp add: scale_up_def)
    qed
    then show ?thesis
      by (simp add: ratio_exp_def t)
  qed
  then have q: "max (ratio_exp sig (2 ^ k) - 52) (- 1074) = - int k"
    using assms(3) by simp
  have m: "round_div (scale_up sig (- (- int k))) (scale_up (2 ^ k) (- int k)) = sig"
    by (simp add: scale_up_def round_div_def)
  have e: "nat (- int k + 1074) = 1074 - k"
    by simp
  define f where "f = sig - 2 ^ 52"
  have f: "sig = 2 ^ 52 + f" "f < 2 ^ 52"
    using assms by (simp_all add: f_def)
  have sum: "(1074 - k) * 2 ^ 52 + sig = (1075 - k) * 2 ^ 52 + f"
    using f(1) assms(3) by (simp add: diff_mult_distrib)
  have "(1075 - k) * 2 ^ 52 \<le> 1075 * 2 ^ 52"
    by (intro mult_le_mono1) simp
  then have min: "min (2047 * 2 ^ 52) ((1075 - k) * 2 ^ 52 + f) = (1075 - k) * 2 ^ 52 + f"
    using f(2) by simp
  show ?thesis
    using f(1) unfolding f64_round_def Let_def q m e sum min f64_make_def by (simp add: f_def add.assoc)
qed

section \<open>The comparator\<close>

text \<open>Magnitudes of finite numbers, in units of \<open>2 ^ e\<close>, are ordered as their patterns.\<close>

definition f64_units :: "int \<Rightarrow> js_number \<Rightarrow> nat" where
  "f64_units e x = scale_up (f64_sig x) (f64_pow x - e)"

lemma f64_mag_split: "f64_mag x = f64_exp x * 2 ^ 52 + f64_man x"
  unfolding f64_exp_def f64_man_def by (simp only: div_mult_mod_eq)

lemma f64_pow_min: "- 1074 \<le> f64_pow x"
  by (simp add: f64_pow_def)

lemma scale_up_split: "0 \<le> a \<Longrightarrow> 0 \<le> b \<Longrightarrow> scale_up n (a + b) = scale_up n a * 2 ^ nat b"
  by (simp add: scale_up_def nat_add_distrib power_add)

lemma units_mono:
  assumes "f64_mag x < f64_mag y" "e \<le> f64_pow x" "e \<le> f64_pow y"
  shows "f64_units e x < f64_units e y"
proof -
  have m: "f64_man x < 2 ^ 52" "f64_man y < 2 ^ 52"
    by (rule f64_man_less)+
  consider "f64_exp x = f64_exp y" "f64_man x < f64_man y" | "f64_exp x < f64_exp y"
  proof (cases "f64_exp x" "f64_exp y" rule: linorder_cases)
    case greater
    then have "(f64_exp y + 1) * 2 ^ 52 \<le> f64_exp x * 2 ^ 52"
      by (intro mult_le_mono1) simp
    then have "f64_mag y < f64_mag x"
      using m(2) by (simp add: f64_mag_split)
    with assms(1) show ?thesis by simp
  qed (use assms(1) that in \<open>auto simp: f64_mag_split\<close>)
  then show ?thesis
  proof cases
    case 1
    then show ?thesis
      by (simp add: f64_units_def f64_pow_def f64_sig_def scale_up_def)
  next
    case 2
    then have y: "2 ^ 52 \<le> f64_sig y"
      by (simp add: f64_sig_def)
    show ?thesis
    proof (cases "f64_pow x = f64_pow y")
      case True
      then have "f64_exp x = 0"
        using 2 by (simp add: f64_pow_def split: if_splits)
      then have "f64_sig x < 2 ^ 52"
        using m(1) by (simp add: f64_sig_def)
      with y True show ?thesis
        by (simp add: f64_units_def scale_up_def)
    next
      case False
      then have p: "f64_pow x + 1 \<le> f64_pow y"
        using 2 by (simp add: f64_pow_def split: if_splits)
      have "f64_sig x < 2 ^ 53"
        using m(1) by (simp add: f64_sig_def)
      then have "scale_up (f64_sig x) (f64_pow x - e) < scale_up (2 ^ 53) (f64_pow x - e)"
        by (simp add: scale_up_def)
      also have "\<dots> = scale_up (2 ^ 52) (f64_pow x - e + 1)"
        using assms(2) by (simp add: scale_up_def nat_add_distrib)
      also have "\<dots> \<le> scale_up (f64_sig y) (f64_pow y - e)"
        unfolding scale_up_def using y p by (intro mult_le_mono power_increasing) simp_all
      finally show ?thesis
        by (simp add: f64_units_def)
    qed
  qed
qed

lemma units_eq: "f64_mag x = f64_mag y \<Longrightarrow> f64_units e x = f64_units e y"
  by (simp add: f64_units_def f64_pow_def f64_sig_def f64_exp_def f64_man_def)

lemma units_less_iff:
  assumes "e \<le> f64_pow x" "e \<le> f64_pow y"
  shows "f64_units e x < f64_units e y \<longleftrightarrow> f64_mag x < f64_mag y"
  using units_mono [of x y e] units_mono [of y x e] units_eq [of x y e] assms
  by (metis less_irrefl linorder_less_linear order_less_asym)

lemma units_zero: "f64_mag x = 0 \<Longrightarrow> f64_units e x = 0"
  by (simp add: f64_units_def scale_up_def f64_sig_def f64_exp_def f64_man_def)

lemma signed_units: "f64_signed x e = (if f64_sign x = 0 then int (f64_units e x) else - int (f64_units e x))"
  by (simp add: f64_signed_def f64_units_def)

lemma units_pos:
  assumes "e \<le> f64_pow x" "0 < f64_mag x"
  shows "0 < f64_units e x"
proof -
  have "0 < f64_sig x"
    using assms(2) f64_mag_split [of x] by (auto simp: f64_sig_def)
  then show ?thesis
    by (simp add: f64_units_def scale_up_def)
qed

lemma units_zero_iff: "e \<le> f64_pow x \<Longrightarrow> f64_units e x = 0 \<longleftrightarrow> f64_mag x = 0"
  using units_pos [of e x] units_zero [of x e] by (cases "f64_mag x = 0") simp_all

lemma neg_less_pos: "- int a < int b \<longleftrightarrow> a \<noteq> 0 \<or> b \<noteq> 0" "\<not> int a < - int b"
  by arith+

lemma signed_less_iff:
  assumes "e \<le> f64_pow x" "e \<le> f64_pow y"
  shows "f64_signed x e < f64_signed y e \<longleftrightarrow> f64_key x < f64_key y"
  using units_less_iff [OF assms] units_less_iff [OF assms(2,1)] units_zero_iff [OF assms(1)] units_zero_iff [OF assms(2)]
  by (cases "f64_sign x = 0"; cases "f64_sign y = 0") (simp_all add: signed_units f64_key_def neg_less_pos)

lemma js_neg_fields:
  assumes "is_finite x"
  shows "f64_sign (js_neg x) = 1 - f64_sign x" "f64_mag (js_neg x) = f64_mag x" "f64_exp (js_neg x) = f64_exp x" "f64_man (js_neg x) = f64_man x"
proof -
  have s: "1 - f64_sign x < 2"
    by simp
  note f = f64_fields [OF s f64_exp_less f64_man_less, of x x]
  have n: "js_neg x = f64_make (1 - f64_sign x) (f64_exp x) (f64_man x)"
    using is_finite_not_nan [OF assms] by (simp add: js_neg_def)
  show "f64_sign (js_neg x) = 1 - f64_sign x" "f64_exp (js_neg x) = f64_exp x" "f64_man (js_neg x) = f64_man x"
    unfolding n by (rule f)+
  then show "f64_mag (js_neg x) = f64_mag x"
    by (simp add: f64_mag_split)
qed

lemma js_neg_signed:
  assumes "is_finite x"
  shows "f64_signed (js_neg x) e = - f64_signed x e" "f64_pow (js_neg x) = f64_pow x" "is_zero (js_neg x) = is_zero x" "is_finite (js_neg x)"
  using js_neg_fields [OF assms] f64_sign_cases [of x] assms
  by (auto simp: f64_signed_def f64_pow_def f64_sig_def is_zero_def is_finite_def)

lemma round_div_ge: "n div d \<le> round_div n d"
  by (simp add: round_div_def Let_def)

text \<open>A rounded ratio has the sign given, is no NaN, and is not zero if it is at least the least number.\<close>

lemma f64_round_fields:
  assumes "s < 2"
  shows "f64_sign (f64_round s n d) = s" "\<not> is_nan (f64_round s n d)"
    and "0 < n \<Longrightarrow> d \<le> n * 2 ^ 1074 \<Longrightarrow> 0 < d \<Longrightarrow> 0 < f64_mag (f64_round s n d)"
proof -
  let ?q = "max (ratio_exp n d - 52) (- 1074)"
  define M where "M = (if n = 0 then 0 else
    min (2047 * 2 ^ 52) (nat (?q + 1074) * 2 ^ 52 + round_div (scale_up n (- ?q)) (scale_up d ?q)))"
  have r: "f64_round s n d = of_nat (s * 2 ^ 63 + M)"
    by (simp add: f64_round_def M_def f64_make_def Let_def)
  have M: "M \<le> 2047 * 2 ^ 52"
    by (simp add: M_def)
  then have u: "unat (f64_round s n d) = s * 2 ^ 63 + M"
    using assms unfolding r by (subst unat_of_nat) (simp add: mod_less)
  have mag: "f64_mag (f64_round s n d) = M"
    using M by (simp add: f64_mag_def u)
  show "f64_sign (f64_round s n d) = s"
    using M by (simp add: f64_sign_def u)
  show "\<not> is_nan (f64_round s n d)"
  proof (cases "M = 2047 * 2 ^ 52")
    case True
    then show ?thesis
      by (simp add: is_nan_def f64_man_def mag)
  next
    case False
    then have "M < 2047 * 2 ^ 52"
      using M by simp
    then have "f64_exp (f64_round s n d) < 2047"
      by (simp add: f64_exp_def mag div_less_iff_less_mult)
    then show ?thesis
      by (simp add: is_nan_def)
  qed
  assume n: "0 < n" "d \<le> n * 2 ^ 1074" "0 < d"
  show "0 < f64_mag (f64_round s n d)"
  proof (cases "?q = - 1074")
    case True
    have "1 \<le> n * 2 ^ 1074 div d"
      using n div_le_mono [of d "n * 2 ^ 1074" d] by simp
    then have "0 < round_div (scale_up n (- ?q)) (scale_up d ?q)"
      unfolding True using round_div_ge [of "n * 2 ^ 1074" d] by (simp add: scale_up_def)
    with n(1) show ?thesis
      by (simp add: mag M_def)
  next
    case False
    then have "0 < nat (?q + 1074)"
      by simp
    then have "0 < nat (?q + 1074) * 2 ^ 52"
      by simp
    then have "0 < nat (?q + 1074) * 2 ^ 52 + round_div (scale_up n (- ?q)) (scale_up d ?q)"
      by (rule add_pos_nonneg) simp
    with n(1) show ?thesis
      by (simp only: mag M_def) simp
  qed
qed

lemma zero_fields: "f64_key 0 = 0" "\<not> is_nan 0" "f64_sign 0 = 0" "f64_mag 0 = 0"
  by (simp_all add: f64_key_def f64_sign_def f64_mag_def is_nan_def f64_exp_def)

lemma js_add_signs:
  assumes "is_finite x" "is_finite y"
  defines "v \<equiv> f64_signed x (min (f64_pow x) (f64_pow y)) + f64_signed y (min (f64_pow x) (f64_pow y))"
  shows "js_lt (js_add x y) 0 \<longleftrightarrow> v < 0" "js_lt 0 (js_add x y) \<longleftrightarrow> 0 < v"
proof -
  have nn: "\<not> is_nan x" "\<not> is_nan y" "\<not> is_inf x" "\<not> is_inf y"
    using assms(1,2) by (simp_all add: is_finite_def is_nan_def is_inf_def)
  let ?e = "min (f64_pow x) (f64_pow y)"
  have "(js_lt (js_add x y) 0 \<longleftrightarrow> v < 0) \<and> (js_lt 0 (js_add x y) \<longleftrightarrow> 0 < v)"
  proof (cases "is_zero x \<and> is_zero y")
    case True
    then have "f64_units ?e x = 0" "f64_units ?e y = 0"
      by (simp_all add: is_zero_def units_zero)
    moreover have "f64_key (js_add x y) = 0"
      using True nn by (simp add: js_add_def zero_fields) (simp add: f64_key_def is_zero_def)
    ultimately show ?thesis
      by (simp add: js_lt_def zero_fields signed_units v_def)
  next
    case False
    let ?n = "scale_up (nat \<bar>v\<bar>) ?e" and ?d = "scale_up 1 (- ?e)"
    have r: "js_add x y = f64_round (if v < 0 then 1 else 0) ?n ?d"
      unfolding js_add_def Let_def v_def using nn by (simp only: False if_False simp_thms)
    have d: "0 < ?d"
      by (simp add: scale_up_def)
    have s: "(if v < 0 then 1 else 0) < (2::nat)"
      by simp
    note f = f64_round_fields [OF s, of ?n ?d, folded r]
    show ?thesis
    proof (cases "v = 0")
      case True
      then have "f64_key (js_add x y) = 0"
        by (simp add: r f64_round_def scale_up_def zero_fields f64_make_def)
      with True show ?thesis
        by (simp add: js_lt_def zero_fields)
    next
      case False
      then have n: "0 < ?n"
        by (simp add: scale_up_def)
      have "nat (- ?e) \<le> 1074"
        using f64_pow_min [of x] f64_pow_min [of y] by linarith
      then have "2 ^ nat (- ?e) \<le> (2::nat) ^ 1074"
        by (intro power_increasing) simp_all
      then have "?d \<le> 1 * 2 ^ 1074"
        by (simp add: scale_up_def)
      also have "\<dots> \<le> ?n * 2 ^ 1074"
        using n by (intro mult_le_mono1) simp
      finally have "0 < f64_mag (js_add x y)"
        using f(3) n d by simp
      with False f(1,2) show ?thesis
        by (simp add: js_lt_def zero_fields(1,2) f64_key_def [of "js_add x y"])
    qed
  qed
  then show "js_lt (js_add x y) 0 \<longleftrightarrow> v < 0" "js_lt 0 (js_add x y) \<longleftrightarrow> 0 < v"
    by simp_all
qed

lemma comparator_order:
  assumes "is_finite a" "is_finite b"
  shows "js_lt (js_sub a b) 0 \<longleftrightarrow> js_lt a b" "js_lt 0 (js_sub a b) \<longleftrightarrow> js_lt b a"
  using js_add_signs [of a "js_neg b"] js_neg_signed [of b] signed_less_iff [of "min (f64_pow a) (f64_pow b)" a b]
    signed_less_iff [of "min (f64_pow a) (f64_pow b)" b a] assms
  by (simp_all add: js_sub_def js_lt_def is_finite_not_nan)

end
