(* ===== verification/Ghost_Types.thy ===== *)
theory Ghost_Types
  imports Level_Metadata Bit_Reader Js_Ops
begin

text \<open>
  Ghosts, the recordings of a run (\<open>packages/core/src/ghosts\<close>): their types (\<open>types.ts\<close>), limits (\<open>limits.ts\<close>), metadata
  (\<open>metadata.ts\<close>), orientation (\<open>orientation.ts\<close>), surfaces (\<open>surfaceState.ts\<close>, \<open>surfaces.ts\<close>) and capabilities
  (\<open>capabilities.ts\<close>).

  The functions of \<open>Math\<close> that the language leaves to the engine are parameters, \<open>ghost_math\<close>. The wheel and surface states of a
  frame are 32-bit integers, as the formats deliver them. A \<open>GhostLimitError\<close> is its message, which names the limit.
\<close>

unbundle bit_operations_syntax

section \<open>Constants\<close>

text \<open>\<open>Math.PI\<close> and \<open>Number.EPSILON\<close>\<close>

definition js_pi :: js_number where
  "js_pi = 0x400921FB54442D18"

definition js_epsilon :: js_number where
  "js_epsilon = f64_make 0 971 0"

record ghost_math =
  math_sin :: "js_number \<Rightarrow> js_number"
  math_cos :: "js_number \<Rightarrow> js_number"
  math_sqrt :: "js_number \<Rightarrow> js_number"
  math_hypot :: "js_number list \<Rightarrow> js_number"

section \<open>Types\<close>

record ghost_vector2 =
  gw_x :: js_number
  gw_y :: js_number

record ghost_vector3 =
  gv_x :: js_number
  gv_y :: js_number
  gv_z :: js_number

record quaternion =
  gq_x :: js_number
  gq_y :: js_number
  gq_z :: js_number
  gq_w :: js_number

datatype known_surface = Tarmac | Grass | Sand | Soap | Wood | Mud | Ice1 | Ice2 | Ice3

record ghost_cosmetics =
  cos_zeepkist :: "js_number option"
  cos_frontWheels :: "js_number option"
  cos_rearWheels :: "js_number option"
  cos_paraglider :: "js_number option"
  cos_horn :: "js_number option"
  cos_hat :: "js_number option"
  cos_glasses :: "js_number option"
  cos_colorBody :: "js_number option"
  cos_colorLeftArm :: "js_number option"
  cos_colorRightArm :: "js_number option"
  cos_colorLeftLeg :: "js_number option"
  cos_colorRightLeg :: "js_number option"
  cos_color :: "js_number option"

record ghost_metadata =
  gm_steamId :: "jstring option"
  gm_taggedUsername :: "jstring option"
  gm_color :: "jstring option"
  gm_cosmetics :: "ghost_cosmetics option"

record ghost_capabilities =
  cap_input :: bool
  cap_air :: bool
  cap_wheels :: bool
  cap_slipping :: bool
  cap_state :: bool
  cap_surfaces :: bool
  cap_velocity :: bool
  cap_ragdoll :: bool
  cap_orientation :: bool

record ghost_frame =
  fr_time :: js_number
  fr_position :: ghost_vector3
  fr_rotation :: "ghost_vector3 option"
  fr_orientation :: "quaternion option"
  fr_speed :: "js_number option"
  fr_steering :: "js_number option"
  fr_armsUp :: "bool option"
  fr_braking :: "bool option"
  fr_horn :: "bool option"
  fr_soap :: "bool option"
  fr_offroad :: "bool option"
  fr_paraglider :: "bool option"
  fr_inAir :: "bool option"
  fr_surface :: "jstring option"
  fr_surfaces :: "known_surface list option"
  fr_wheelState :: "u32 option"
  fr_groundedWheelState :: "u32 option"
  fr_slippingWheelState :: "u32 option"
  fr_surfaceState :: "u32 option"
  fr_localVelocity :: "ghost_vector3 option"
  fr_localAngularVelocity :: "ghost_vector3 option"
  fr_localGForce :: "ghost_vector2 option"
  fr_parkingBlock :: "bool option"
  fr_monorail :: "bool option"
  fr_ragdoll :: "bool option"
  fr_ragdollPosition :: "ghost_vector3 option"
  fr_ragdollRotation :: "ghost_vector3 option"

text \<open>A frame with a time and a position only.\<close>

definition bare_frame :: "js_number \<Rightarrow> ghost_vector3 \<Rightarrow> ghost_frame" where
  "bare_frame t p = \<lparr>fr_time = t, fr_position = p, fr_rotation = None, fr_orientation = None, fr_speed = None,
     fr_steering = None, fr_armsUp = None, fr_braking = None, fr_horn = None, fr_soap = None, fr_offroad = None,
     fr_paraglider = None, fr_inAir = None, fr_surface = None, fr_surfaces = None, fr_wheelState = None,
     fr_groundedWheelState = None, fr_slippingWheelState = None, fr_surfaceState = None, fr_localVelocity = None,
     fr_localAngularVelocity = None, fr_localGForce = None, fr_parkingBlock = None, fr_monorail = None, fr_ragdoll = None,
     fr_ragdollPosition = None, fr_ragdollRotation = None\<rparr>"

text \<open>The evidence of a version 8 ghost is the JSON value the recorder wrote.\<close>

record parsed_ghost =
  pg_evidence :: "json option"
  pg_version :: nat
  pg_metadata :: ghost_metadata
  pg_capabilities :: ghost_capabilities
  pg_frames :: "ghost_frame list"

section \<open>Limits\<close>

definition max_ghost_compressed_bytes :: nat where "max_ghost_compressed_bytes = 24 * 1024 * 1024"
definition max_ghost_decompressed_bytes :: nat where "max_ghost_decompressed_bytes = 64 * 1024 * 1024"
definition max_ghost_frames :: nat where "max_ghost_frames = 120000"

definition assertGhostCompressedSize :: "nat \<Rightarrow> js_error + unit" where
  "assertGhostCompressedSize byteLength =
     (if max_ghost_compressed_bytes < byteLength then Inl (Error ''Ghost exceeds 25165824 compressed bytes'') else Inr ())"

definition assertGhostDecompressedSize :: "nat \<Rightarrow> js_error + unit" where
  "assertGhostDecompressedSize byteLength =
     (if max_ghost_decompressed_bytes < byteLength then Inl (Error ''Ghost exceeds 67108864 decompressed bytes'') else Inr ())"

definition assertGhostFrameCount :: "int \<Rightarrow> js_error + unit" where
  "assertGhostFrameCount frameCount =
     (if frameCount < 0 \<or> int max_ghost_frames < frameCount then Inl (Error ''Ghost exceeds 120000 frames'') else Inr ())"

section \<open>Utilities\<close>

definition finite_all :: "js_number list \<Rightarrow> bool" where
  "finite_all values = list_all is_finite values"

definition isGzip :: "byte list \<Rightarrow> bool" where
  "isGzip buffer \<longleftrightarrow> 2 \<le> length buffer \<and> buffer ! 0 = 0x1f \<and> buffer ! 1 = 0x8b"

definition remapByte :: "js_number \<Rightarrow> js_number \<Rightarrow> js_number \<Rightarrow> js_number" where
  "remapByte value lo hi =
     js_add lo (js_mul (js_div (js_max 0 (js_min (js_of_nat 255) value)) (js_of_nat 255)) (js_sub hi lo))"

section \<open>Metadata\<close>

definition emptyGhostMetadata :: ghost_metadata where
  "emptyGhostMetadata = \<lparr>gm_steamId = None, gm_taggedUsername = None, gm_color = None, gm_cosmetics = None\<rparr>"

definition legacyGhostMetadata :: "nat \<Rightarrow> int \<Rightarrow> int \<Rightarrow> int \<Rightarrow> ghost_metadata" where
  "legacyGhostMetadata steamId zeepkist hat color =
     \<lparr>gm_steamId = Some (decimal_text steamId), gm_taggedUsername = None, gm_color = None,
      gm_cosmetics = Some \<lparr>cos_zeepkist = Some (js_of_int zeepkist), cos_frontWheels = None, cos_rearWheels = None,
        cos_paraglider = None, cos_horn = None, cos_hat = Some (js_of_int hat), cos_glasses = None, cos_colorBody = None,
        cos_colorLeftArm = None, cos_colorRightArm = None, cos_colorLeftLeg = None, cos_colorRightLeg = None,
        cos_color = Some (js_of_int color)\<rparr>\<rparr>"

text \<open>\<open>/^#[0-9a-f]{8}$/i\<close>, and the upper case of a text of ASCII letters and digits.\<close>

definition ghost_color_pattern :: "jstring \<Rightarrow> bool" where
  "ghost_color_pattern s \<longleftrightarrow> length s = 9 \<and> hd s = 35 \<and> list_all (\<lambda>u. hex_val u \<noteq> None) (tl s)"

definition upper_unit :: "u16 \<Rightarrow> u16" where
  "upper_unit u = (if 97 \<le> u \<and> u \<le> 122 then u - 32 else u)"

definition normalizeGhostColor :: "jstring \<Rightarrow> jstring option" where
  "normalizeGhostColor value = (if ghost_color_pattern value then Some (map upper_unit value) else None)"

definition is_safe_integer :: "js_number \<Rightarrow> bool" where
  "is_safe_integer x \<longleftrightarrow> (case js_integer x of Some n \<Rightarrow> \<bar>n\<bar> \<le> 2 ^ 53 - 1 | None \<Rightarrow> False)"

definition optionalCosmeticId :: "js_number option \<Rightarrow> js_number option" where
  "optionalCosmeticId value = (case value of Some x \<Rightarrow> if is_safe_integer x then Some x else None | None \<Rightarrow> None)"

definition hasAnyCosmetic :: "ghost_cosmetics \<Rightarrow> bool" where
  "hasAnyCosmetic c \<longleftrightarrow> list_ex (\<lambda>v. v \<noteq> None)
     [cos_zeepkist c, cos_frontWheels c, cos_rearWheels c, cos_paraglider c, cos_horn c, cos_hat c, cos_glasses c, cos_colorBody c,
      cos_colorLeftArm c, cos_colorRightArm c, cos_colorLeftLeg c, cos_colorRightLeg c, cos_color c]"

section \<open>Orientation\<close>

definition degrees_to_radians :: js_number where
  "degrees_to_radians = js_div js_pi (js_of_nat 180)"

definition normalizeQuaternion :: "ghost_math \<Rightarrow> quaternion \<Rightarrow> quaternion" where
  "normalizeQuaternion m q =
     (let magnitude = math_hypot m [gq_x q, gq_y q, gq_z q, gq_w q] in
      if \<not> is_finite magnitude \<or> js_le magnitude js_epsilon then \<lparr>gq_x = 0, gq_y = 0, gq_z = 0, gq_w = js_of_nat 1\<rparr>
      else \<lparr>gq_x = js_div (gq_x q) magnitude, gq_y = js_div (gq_y q) magnitude, gq_z = js_div (gq_z q) magnitude,
        gq_w = js_div (gq_w q) magnitude\<rparr>)"

datatype quaternion_axis = Axis_X | Axis_Y | Axis_Z

definition axisQuaternion :: "ghost_math \<Rightarrow> quaternion_axis \<Rightarrow> js_number \<Rightarrow> quaternion" where
  "axisQuaternion m axis radians =
     (let sine = math_sin m (js_div radians (js_of_nat 2)); cosine = math_cos m (js_div radians (js_of_nat 2)) in
      \<lparr>gq_x = (if axis = Axis_X then sine else 0), gq_y = (if axis = Axis_Y then sine else 0),
       gq_z = (if axis = Axis_Z then sine else 0), gq_w = cosine\<rparr>)"

definition multiplyQuaternion :: "quaternion \<Rightarrow> quaternion \<Rightarrow> quaternion" where
  "multiplyQuaternion left right =
     \<lparr>gq_x = js_sub (js_add (js_add (js_mul (gq_w left) (gq_x right)) (js_mul (gq_x left) (gq_w right)))
        (js_mul (gq_y left) (gq_z right))) (js_mul (gq_z left) (gq_y right)),
      gq_y = js_add (js_add (js_sub (js_mul (gq_w left) (gq_y right)) (js_mul (gq_x left) (gq_z right)))
        (js_mul (gq_y left) (gq_w right))) (js_mul (gq_z left) (gq_x right)),
      gq_z = js_add (js_sub (js_add (js_mul (gq_w left) (gq_z right)) (js_mul (gq_x left) (gq_y right)))
        (js_mul (gq_y left) (gq_x right))) (js_mul (gq_z left) (gq_w right)),
      gq_w = js_sub (js_sub (js_sub (js_mul (gq_w left) (gq_w right)) (js_mul (gq_x left) (gq_x right)))
        (js_mul (gq_y left) (gq_y right))) (js_mul (gq_z left) (gq_z right))\<rparr>"

definition unityEulerToQuaternion :: "ghost_math \<Rightarrow> ghost_vector3 \<Rightarrow> quaternion" where
  "unityEulerToQuaternion m rotation =
     (let x = axisQuaternion m Axis_X (js_mul (gv_x rotation) degrees_to_radians);
          y = axisQuaternion m Axis_Y (js_mul (gv_y rotation) degrees_to_radians);
          z = axisQuaternion m Axis_Z (js_mul (gv_z rotation) degrees_to_radians) in
      normalizeQuaternion m (multiplyQuaternion y (multiplyQuaternion x z)))"

section \<open>Surfaces\<close>

definition has_flag :: "u32 \<Rightarrow> nat \<Rightarrow> bool" where
  "has_flag state i \<longleftrightarrow> bit state i"

definition surfacesFromV6State :: "u32 \<Rightarrow> known_surface list" where
  "surfacesFromV6State state =
     (let surfaces =
        (if has_flag state 1 then [Grass] else []) @ (if has_flag state 2 \<or> has_flag state 3 then [Sand] else [])
        @ (if has_flag state 4 then [Ice1] else []) @ (if has_flag state 5 then [Soap] else [])
        @ (if has_flag state 8 \<or> has_flag state 9 then [Mud] else []) in
      if surfaces = [] \<or> has_flag state 0 \<or> has_flag state 6 \<or> has_flag state 7 then Tarmac # surfaces else surfaces)"

definition surfacesFromV7State :: "u32 \<Rightarrow> known_surface list" where
  "surfacesFromV7State state =
     concat (map (\<lambda>(i, s). if has_flag state i then [s] else [])
       [(0, Tarmac), (1, Grass), (2, Sand), (3, Soap), (4, Wood), (5, Mud), (6, Ice1), (7, Ice2), (8, Ice3)])"

definition surfacesFromState :: "u32 \<Rightarrow> nat \<Rightarrow> known_surface list" where
  "surfacesFromState state version = (if version = 6 then surfacesFromV6State state else surfacesFromV7State state)"

definition surface_names :: "(jstring \<times> known_surface) list" where
  "surface_names = [(lit ''tarmac'', Tarmac), (lit ''grass'', Grass), (lit ''sand'', Sand), (lit ''soap'', Soap), (lit ''wood'', Wood),
     (lit ''mud'', Mud), (lit ''ice1'', Ice1), (lit ''ice2'', Ice2), (lit ''ice3'', Ice3)]"

definition normalizeSurface :: "jstring \<Rightarrow> known_surface" where
  "normalizeSurface surface = (case map_of surface_names surface of Some s \<Rightarrow> s | None \<Rightarrow> Tarmac)"

section \<open>Capabilities\<close>

text \<open>\<open>Boolean(frame.surface || frame.surfaces?.length)\<close>\<close>

definition has_surfaces :: "ghost_frame \<Rightarrow> bool" where
  "has_surfaces f \<longleftrightarrow> (case fr_surface f of Some s \<Rightarrow> s \<noteq> [] | None \<Rightarrow> False) \<or> (case fr_surfaces f of Some ss \<Rightarrow> ss \<noteq> [] | None \<Rightarrow> False)"

definition detectGhostCapabilities :: "ghost_frame list \<Rightarrow> nat option \<Rightarrow> ghost_capabilities" where
  "detectGhostCapabilities frames ghostVersion =
     (let hasExtendedTelemetry = (case ghostVersion of Some v \<Rightarrow> 6 \<le> v | None \<Rightarrow> False) in
      \<lparr>cap_input = list_ex (\<lambda>f. fr_steering f \<noteq> None \<or> fr_armsUp f \<noteq> None \<or> fr_braking f \<noteq> None \<or> fr_horn f \<noteq> None) frames,
       cap_air = list_ex (\<lambda>f. fr_groundedWheelState f \<noteq> None) frames,
       cap_wheels = list_ex (\<lambda>f. fr_groundedWheelState f \<noteq> None) frames,
       cap_slipping = (hasExtendedTelemetry \<or> list_ex (\<lambda>f. fr_slippingWheelState f \<noteq> None) frames),
       cap_state = list_ex (\<lambda>f. fr_soap f \<noteq> None \<or> fr_offroad f \<noteq> None \<or> fr_paraglider f \<noteq> None \<or> fr_parkingBlock f \<noteq> None
         \<or> fr_monorail f \<noteq> None) frames,
       cap_surfaces = (hasExtendedTelemetry
         \<or> list_ex (\<lambda>f. fr_surface f \<noteq> None \<or> (case fr_surfaces f of Some ss \<Rightarrow> ss \<noteq> [] | None \<Rightarrow> False)) frames),
       cap_velocity = list_ex (\<lambda>f. fr_localVelocity f \<noteq> None \<or> fr_localAngularVelocity f \<noteq> None \<or> fr_localGForce f \<noteq> None) frames,
       cap_ragdoll = (hasExtendedTelemetry \<or> list_ex (\<lambda>f. fr_ragdoll f \<noteq> None) frames),
       cap_orientation = list_ex (\<lambda>f. fr_orientation f \<noteq> None) frames\<rparr>)"

end
