(* ===== verification/Ghost_Legacy.thy ===== *)
theory Ghost_Legacy
  imports Ghost_Types
begin

text \<open>
  The binary ghost formats 1 to 4 (\<open>binaryReader.ts\<close>, \<open>binaryFrames.ts\<close>, \<open>v1.ts\<close> to \<open>v4.ts\<close>), and what a buffer of
  versions 1 to 3 means byte by byte.

  The reader is a state; a \<open>DataView\<close> getter past the end is a \<open>RangeError\<close>, \<open>readByte\<close> past the end is 0.
\<close>

section \<open>The reader\<close>

record binary_reader =
  br_offset :: nat
  br_buffer :: "byte list"

type_synonym 'a br = "binary_reader \<Rightarrow> js_error + 'a \<times> binary_reader"

definition br_return :: "'a \<Rightarrow> 'a br" where
  "br_return x = (\<lambda>r. Inr (x, r))"

definition br_throw :: "js_error \<Rightarrow> 'a br" where
  "br_throw e = (\<lambda>r. Inl e)"

definition br_lift :: "js_error + 'a \<Rightarrow> 'a br" where
  "br_lift x = (\<lambda>r. res_map (\<lambda>v. (v, r)) x)"

definition br_bind :: "'a br \<Rightarrow> ('a \<Rightarrow> 'b br) \<Rightarrow> 'b br" where
  "br_bind m f = (\<lambda>r. res_bind (m r) (\<lambda>(x, r'). f x r'))"

definition out_of_bounds :: js_error where
  "out_of_bounds = RangeError ''Out of bounds access''"

text \<open>The little-endian value of \<open>n\<close> bytes.\<close>

definition br_view :: "nat \<Rightarrow> nat br" where
  "br_view n = (\<lambda>r.
     if br_offset r + n \<le> length (br_buffer r)
     then Inr (le_nat (take n (drop (br_offset r) (br_buffer r))), r\<lparr>br_offset := br_offset r + n\<rparr>)
     else Inl out_of_bounds)"

definition readInt32 :: "int br" where
  "readInt32 = br_bind (br_view 4) (\<lambda>v. br_return (sint (of_nat v :: u32)))"

definition readUInt64 :: "nat br" where
  "readUInt64 = br_view 8"

definition readFloat :: "js_number br" where
  "readFloat = br_bind (br_view 4) (\<lambda>v. br_return (f32_to_f64 (of_nat v)))"

definition readInt16 :: "int br" where
  "readInt16 = br_bind (br_view 2) (\<lambda>v. br_return (sint (of_nat v :: u16)))"

definition byte_at :: "byte list \<Rightarrow> nat \<Rightarrow> byte" where
  "byte_at b i = (if i < length b then b ! i else 0)"

definition readByte :: "byte br" where
  "readByte = (\<lambda>r. Inr (byte_at (br_buffer r) (br_offset r), r\<lparr>br_offset := br_offset r + 1\<rparr>))"

definition readBoolean :: "bool br" where
  "readBoolean = br_bind readByte (\<lambda>v. br_return (v \<noteq> 0))"

definition readVector3 :: "ghost_vector3 br" where
  "readVector3 = br_bind readFloat (\<lambda>x. br_bind readFloat (\<lambda>y. br_bind readFloat (\<lambda>z.
     br_return \<lparr>gv_x = x, gv_y = y, gv_z = z\<rparr>)))"

definition new_binary_reader :: "byte list \<Rightarrow> binary_reader" where
  "new_binary_reader buffer = \<lparr>br_offset = 0, br_buffer = buffer\<rparr>"

section \<open>Versions 1 to 3\<close>

definition readLegacyMetadata :: "ghost_metadata br" where
  "readLegacyMetadata = br_bind readUInt64 (\<lambda>steamId. br_bind readInt32 (\<lambda>zeepkist. br_bind readInt32 (\<lambda>hat. br_bind readInt32 (\<lambda>color.
     br_return (legacyGhostMetadata steamId zeepkist hat color)))))"

definition vector_finite :: "ghost_vector3 \<Rightarrow> bool" where
  "vector_finite v \<longleftrightarrow> finite_all [gv_x v, gv_y v, gv_z v]"

definition readBinaryFrame :: "ghost_math \<Rightarrow> nat \<Rightarrow> ghost_frame br" where
  "readBinaryFrame m version =
     br_bind readFloat (\<lambda>time. br_bind readVector3 (\<lambda>position. br_bind readVector3 (\<lambda>rotation.
       if \<not> (is_finite time \<and> vector_finite position \<and> vector_finite rotation) then br_throw (Error ''Invalid ghost frame'')
       else
         let frame = (bare_frame time position)\<lparr>fr_rotation := Some rotation, fr_orientation := Some (unityEulerToQuaternion m rotation)\<rparr> in
         if version < 3 then br_return frame
         else
           br_bind readFloat (\<lambda>steering.
             if \<not> is_finite steering then br_throw (Error ''Invalid ghost steering'')
             else br_bind readBoolean (\<lambda>armsUp. br_bind readBoolean (\<lambda>braking.
               br_return (frame\<lparr>fr_steering := Some steering, fr_armsUp := Some armsUp, fr_braking := Some braking\<rparr>)))))))"

fun readBinaryFrames :: "ghost_math \<Rightarrow> nat \<Rightarrow> nat \<Rightarrow> ghost_frame list br" where
  "readBinaryFrames m version 0 = br_return []"
| "readBinaryFrames m version (Suc n) =
     br_bind (readBinaryFrame m version) (\<lambda>f. br_bind (readBinaryFrames m version n) (\<lambda>fs. br_return (f # fs)))"

definition readBinaryGhost :: "ghost_math \<Rightarrow> byte list \<Rightarrow> nat \<Rightarrow> js_error + ghost_metadata \<times> ghost_frame list" where
  "readBinaryGhost m buffer version =
     res_map fst
       (br_bind readInt32 (\<lambda>_.
        br_bind (if 2 \<le> version then readLegacyMetadata else br_return emptyGhostMetadata) (\<lambda>metadata.
        br_bind readInt32 (\<lambda>frameCount.
        br_bind (br_lift (assertGhostFrameCount frameCount)) (\<lambda>_.
        br_bind (readBinaryFrames m version (nat frameCount)) (\<lambda>frames.
        br_return (metadata, frames)))))) (new_binary_reader buffer))"

definition binary_ghost :: "ghost_math \<Rightarrow> byte list \<Rightarrow> nat \<Rightarrow> js_error + parsed_ghost" where
  "binary_ghost m buffer version =
     res_map (\<lambda>(metadata, frames).
       \<lparr>pg_evidence = None, pg_version = version, pg_metadata = metadata,
        pg_capabilities = detectGhostCapabilities frames None, pg_frames = frames\<rparr>)
       (readBinaryGhost m buffer version)"

definition parseV1 :: "ghost_math \<Rightarrow> byte list \<Rightarrow> js_error + parsed_ghost" where
  "parseV1 m buffer = binary_ghost m buffer 1"

definition parseV2 :: "ghost_math \<Rightarrow> byte list \<Rightarrow> js_error + parsed_ghost" where
  "parseV2 m buffer = binary_ghost m buffer 2"

definition parseV3 :: "ghost_math \<Rightarrow> byte list \<Rightarrow> js_error + parsed_ghost" where
  "parseV3 m buffer = binary_ghost m buffer 3"

section \<open>Version 4\<close>

definition js_of_byte :: "byte \<Rightarrow> js_number" where
  "js_of_byte b = js_of_nat (unat b)"

text \<open>A 16-bit integer over a scale.\<close>

definition readScaled :: "nat \<Rightarrow> js_number br" where
  "readScaled scale = br_bind readInt16 (\<lambda>v. br_return (js_div (js_of_int v) (js_of_nat scale)))"

definition readDelta :: "ghost_vector3 \<Rightarrow> ghost_vector3 br" where
  "readDelta current = br_bind (readScaled 10000) (\<lambda>x. br_bind (readScaled 10000) (\<lambda>y. br_bind (readScaled 10000) (\<lambda>z.
     br_return \<lparr>gv_x = js_add (gv_x current) x, gv_y = js_add (gv_y current) y, gv_z = js_add (gv_z current) z\<rparr>)))"

definition readV4Frame :: "ghost_math \<Rightarrow> bool \<Rightarrow> ghost_vector3 option \<Rightarrow> ghost_frame br" where
  "readV4Frame m full currentPosition =
     br_bind readFloat (\<lambda>time.
     br_bind (case currentPosition of Some p \<Rightarrow> if full then readVector3 else readDelta p | None \<Rightarrow> readVector3) (\<lambda>position.
     let rotationScale = (if full then 10000 else 30000) in
     br_bind (readScaled rotationScale) (\<lambda>x. br_bind (readScaled rotationScale) (\<lambda>y.
     br_bind (readScaled rotationScale) (\<lambda>z. br_bind (readScaled rotationScale) (\<lambda>w.
     br_bind readByte (\<lambda>steering. br_bind readByte (\<lambda>flags.
       if \<not> (is_finite time \<and> vector_finite position) then br_throw (Error ''Invalid V4 ghost frame'')
       else br_return ((bare_frame time position)
         \<lparr>fr_orientation := Some (normalizeQuaternion m \<lparr>gq_x = x, gq_y = y, gq_z = z, gq_w = w\<rparr>),
          fr_steering := Some (remapByte (js_of_byte steering) (js_neg (js_of_nat 1)) (js_of_nat 1)),
          fr_armsUp := Some (bit flags 0), fr_braking := Some (bit flags 1)\<rparr>)))))))))"

text \<open>\<open>n\<close> frames are left, the next one has index \<open>i\<close>.\<close>

fun readV4Frames :: "ghost_math \<Rightarrow> nat \<Rightarrow> nat \<Rightarrow> nat \<Rightarrow> ghost_vector3 option \<Rightarrow> ghost_frame list br" where
  "readV4Frames m precision i 0 currentPosition = br_return []"
| "readV4Frames m precision i (Suc n) currentPosition =
     br_bind (readV4Frame m (i mod precision = 0 \<or> n = 0 \<or> currentPosition = None) currentPosition) (\<lambda>f.
     br_bind (readV4Frames m precision (Suc i) n (Some (fr_position f))) (\<lambda>fs. br_return (f # fs)))"

definition readV4Ghost :: "ghost_math \<Rightarrow> byte list \<Rightarrow> js_error + ghost_metadata \<times> ghost_frame list" where
  "readV4Ghost m buffer =
     res_map fst
       (br_bind readInt32 (\<lambda>_.
        br_bind readLegacyMetadata (\<lambda>metadata.
        br_bind readByte (\<lambda>precision.
        if precision = 0 then br_throw (Error ''Invalid V4 ghost precision'')
        else
          br_bind readInt32 (\<lambda>frameCount.
          br_bind (br_lift (assertGhostFrameCount frameCount)) (\<lambda>_.
          br_bind (readV4Frames m (unat precision) 0 (nat frameCount) None) (\<lambda>frames.
          br_return (metadata, frames))))))) (new_binary_reader buffer))"

definition parseV4 :: "ghost_math \<Rightarrow> byte list \<Rightarrow> js_error + parsed_ghost" where
  "parseV4 m buffer =
     res_map (\<lambda>(metadata, frames).
       \<lparr>pg_evidence = None, pg_version = 4, pg_metadata = metadata,
        pg_capabilities = detectGhostCapabilities frames None, pg_frames = frames\<rparr>)
       (readV4Ghost m buffer)"

section \<open>What a buffer of version 1 to 3 means\<close>

text \<open>The values at an offset.\<close>

definition int32_at :: "byte list \<Rightarrow> nat \<Rightarrow> int" where
  "int32_at b o' = sint (of_nat (le_nat (take 4 (drop o' b))) :: u32)"

definition float_at :: "byte list \<Rightarrow> nat \<Rightarrow> js_number" where
  "float_at b o' = f32_to_f64 (of_nat (le_nat (take 4 (drop o' b))))"

definition vector_at :: "byte list \<Rightarrow> nat \<Rightarrow> ghost_vector3" where
  "vector_at b o' = \<lparr>gv_x = float_at b o', gv_y = float_at b (o' + 4), gv_z = float_at b (o' + 8)\<rparr>"

definition binary_stride :: "nat \<Rightarrow> nat" where
  "binary_stride version = (if version < 3 then 28 else 34)"

definition binary_frame_at :: "ghost_math \<Rightarrow> nat \<Rightarrow> byte list \<Rightarrow> nat \<Rightarrow> ghost_frame" where
  "binary_frame_at m version b o' =
     (let frame = (bare_frame (float_at b o') (vector_at b (o' + 4)))
        \<lparr>fr_rotation := Some (vector_at b (o' + 16)), fr_orientation := Some (unityEulerToQuaternion m (vector_at b (o' + 16)))\<rparr> in
      if version < 3 then frame
      else frame\<lparr>fr_steering := Some (float_at b (o' + 28)), fr_armsUp := Some (byte_at b (o' + 32) \<noteq> 0),
        fr_braking := Some (byte_at b (o' + 33) \<noteq> 0)\<rparr>)"

text \<open>A frame that is there and finite; the two flags of version 3 may be missing, and then read false.\<close>

definition binary_frame_ok :: "nat \<Rightarrow> byte list \<Rightarrow> nat \<Rightarrow> bool" where
  "binary_frame_ok version b o' \<longleftrightarrow>
     is_finite (float_at b o') \<and> vector_finite (vector_at b (o' + 4)) \<and> vector_finite (vector_at b (o' + 16))
     \<and> (if version < 3 then o' + 28 \<le> length b else o' + 32 \<le> length b \<and> is_finite (float_at b (o' + 28)))"

definition binary_header :: "nat \<Rightarrow> nat" where
  "binary_header version = (if 2 \<le> version then 28 else 8)"

definition binary_metadata_at :: "nat \<Rightarrow> byte list \<Rightarrow> ghost_metadata" where
  "binary_metadata_at version b =
     (if 2 \<le> version then legacyGhostMetadata (le_nat (take 8 (drop 4 b))) (int32_at b 12) (int32_at b 16) (int32_at b 20)
      else emptyGhostMetadata)"

abbreviation rd_at :: "nat \<Rightarrow> byte list \<Rightarrow> binary_reader" where
  "rd_at o' b \<equiv> \<lparr>br_offset = o', br_buffer = b\<rparr>"

lemma br_bind_Inr: "br_bind m f r = Inr y \<longleftrightarrow> (\<exists>x r'. m r = Inr (x, r') \<and> f x r' = Inr y)"
  by (auto simp: br_bind_def res_bind_Inr_iff)

lemma read_results [simp]:
  "br_return x r = Inr (y, r') \<longleftrightarrow> y = x \<and> r' = r"
  "br_throw e r \<noteq> Inr (y, r')"
  "readInt32 (rd_at o' b) = Inr (n, r') \<longleftrightarrow> o' + 4 \<le> length b \<and> n = int32_at b o' \<and> r' = rd_at (o' + 4) b"
  "readUInt64 (rd_at o' b) = Inr (k, r') \<longleftrightarrow> o' + 8 \<le> length b \<and> k = le_nat (take 8 (drop o' b)) \<and> r' = rd_at (o' + 8) b"
  "readFloat (rd_at o' b) = Inr (x', r') \<longleftrightarrow> o' + 4 \<le> length b \<and> x' = float_at b o' \<and> r' = rd_at (o' + 4) b"
  "readBoolean (rd_at o' b) = Inr (p, r') \<longleftrightarrow> p = (byte_at b o' \<noteq> 0) \<and> r' = rd_at (o' + 1) b"
  by (auto simp: br_return_def br_throw_def readInt32_def readUInt64_def readFloat_def readBoolean_def readByte_def br_bind_def br_view_def
      int32_at_def float_at_def)

lemma readVector3_at [simp]:
  "readVector3 (rd_at o' b) = Inr (v, r') \<longleftrightarrow> o' + 12 \<le> length b \<and> v = vector_at b o' \<and> r' = rd_at (o' + 12) b"
  by (auto simp: readVector3_def br_bind_Inr vector_at_def add.assoc)

lemma bind_at:
  "br_bind readInt32 g (rd_at o' b) = Inr y \<longleftrightarrow> o' + 4 \<le> length b \<and> g (int32_at b o') (rd_at (o' + 4) b) = Inr y"
  "br_bind readUInt64 h (rd_at o' b) = Inr y \<longleftrightarrow> o' + 8 \<le> length b \<and> h (le_nat (take 8 (drop o' b))) (rd_at (o' + 8) b) = Inr y"
  "br_bind readFloat k (rd_at o' b) = Inr y \<longleftrightarrow> o' + 4 \<le> length b \<and> k (float_at b o') (rd_at (o' + 4) b) = Inr y"
  "br_bind readVector3 l (rd_at o' b) = Inr y \<longleftrightarrow> o' + 12 \<le> length b \<and> l (vector_at b o') (rd_at (o' + 12) b) = Inr y"
  "br_bind readBoolean p (rd_at o' b) = Inr y \<longleftrightarrow> p (byte_at b o' \<noteq> 0) (rd_at (o' + 1) b) = Inr y"
  by (auto simp only: br_bind_Inr read_results readVector3_at)

lemma guard_Inr: "(if c then br_throw e else m) r = Inr y \<longleftrightarrow> \<not> c \<and> m r = Inr y"
  by (cases y) simp

lemma readBinaryFrame_at:
  "readBinaryFrame m version (rd_at o' b) = Inr (f, r') \<longleftrightarrow>
     binary_frame_ok version b o' \<and> f = binary_frame_at m version b o' \<and> r' = rd_at (o' + binary_stride version) b"
proof (cases "version < 3")
  case True
  have "readBinaryFrame m version (rd_at o' b) = Inr (f, r') \<longleftrightarrow>
      o' + 4 \<le> length b \<and> o' + 16 \<le> length b \<and> o' + 28 \<le> length b
      \<and> (is_finite (float_at b o') \<and> vector_finite (vector_at b (o' + 4)) \<and> vector_finite (vector_at b (o' + 16)))
      \<and> f = binary_frame_at m version b o' \<and> r' = rd_at (o' + 28) b"
    using True
    by (simp only: readBinaryFrame_def bind_at guard_Inr Let_def if_True read_results binary_frame_at_def add.assoc not_not
        arith_simps numeral_plus_numeral)
  then show ?thesis
    using True by (auto simp: binary_frame_ok_def binary_stride_def)
next
  case False
  have "readBinaryFrame m version (rd_at o' b) = Inr (f, r') \<longleftrightarrow>
      o' + 4 \<le> length b \<and> o' + 16 \<le> length b \<and> o' + 28 \<le> length b
      \<and> (is_finite (float_at b o') \<and> vector_finite (vector_at b (o' + 4)) \<and> vector_finite (vector_at b (o' + 16)))
      \<and> o' + 32 \<le> length b \<and> is_finite (float_at b (o' + 28)) \<and> f = binary_frame_at m version b o' \<and> r' = rd_at (o' + 34) b"
    using False
    by (simp only: readBinaryFrame_def bind_at guard_Inr Let_def if_False read_results binary_frame_at_def add.assoc not_not
        arith_simps numeral_plus_numeral numeral_plus_one)
  then show ?thesis
    using False by (auto simp: binary_frame_ok_def binary_stride_def)
qed

lemma upt_Suc_shift: "[0..<Suc n] = 0 # map Suc [0..<n]"
  by (simp add: map_Suc_upt upt_conv_Cons del: upt_Suc)

lemma readBinaryFrames_at:
  "readBinaryFrames m version n (rd_at o' b) = Inr (fs, r') \<longleftrightarrow>
     list_all (\<lambda>i. binary_frame_ok version b (o' + i * binary_stride version)) [0..<n]
     \<and> fs = map (\<lambda>i. binary_frame_at m version b (o' + i * binary_stride version)) [0..<n]
     \<and> r' = rd_at (o' + n * binary_stride version) b"
proof (induction n arbitrary: o' fs r')
  case 0
  show ?case by auto
next
  case (Suc n)
  show ?case
    unfolding upt_Suc_shift
    by (auto simp: br_bind_Inr readBinaryFrame_at Suc.IH list.pred_map comp_def add.assoc)
qed

end
