(* ===== verification/Ghost_Protobuf.thy ===== *)
theory Ghost_Protobuf
  imports Ghost_Legacy
begin

text \<open>
  The protobuf ghost formats 5 to 8 (\<open>protobuf.ts\<close>, \<open>protobufVersions.ts\<close>, \<open>v8Evidence.ts\<close>).

  The records below are the messages as \<open>protobufjs\<close> decodes them: a field of a frame that is not on the wire is no own
  property of the message, \<open>None\<close>, and reads as the default of its type from the prototype (0, \<open>false\<close>, null for a message);
  spreading a message copies its own properties only. The fields that are only ever read, never spread, hold the value
  they read as.

  \<open>iterateProtobufFrames\<close> is a generator: what it does is a stream, the frames it yields and the error it ends with, if any.
\<close>

section \<open>Messages\<close>

record proto_cosmetics =
  pc_zeepkist :: js_number
  pc_frontWheels :: js_number
  pc_rearWheels :: js_number
  pc_paraglider :: js_number
  pc_horn :: js_number
  pc_hat :: js_number
  pc_glasses :: js_number
  pc_colorBody :: js_number
  pc_colorLeftArm :: js_number
  pc_colorRightArm :: js_number
  pc_colorLeftLeg :: js_number
  pc_colorRightLeg :: js_number
  pc_color :: js_number

text \<open>The initial frame has no \<open>time\<close>.\<close>

record proto_frame =
  pf_time :: "js_number option"
  pf_position :: "ghost_vector3 option"
  pf_rotation :: "ghost_vector3 option"
  pf_speed :: "js_number option"
  pf_steering :: "js_number option"
  pf_inputFlags :: "u32 option"
  pf_soapboxFlags :: "u32 option"
  pf_groundedWheelState :: "u32 option"
  pf_slippingWheelState :: "u32 option"
  pf_surfaceState :: "u32 option"
  pf_localVelocity :: "ghost_vector3 option"
  pf_localAngularVelocity :: "ghost_vector3 option"
  pf_localGForce :: "ghost_vector2 option"
  pf_parkingBlockState :: "bool option"
  pf_monorailState :: "bool option"
  pf_ragdollState :: "bool option"
  pf_ragdollPosition :: "ghost_vector3 option"
  pf_ragdollRotation :: "ghost_vector3 option"

text \<open>A 64-bit integer is a number, or an object with a text.\<close>

datatype proto_uint64 = Uint64_Number js_number | Uint64_Object jstring

record proto_ghost =
  pb_version :: int
  pb_steamId :: proto_uint64
  pb_cosmetics :: "proto_cosmetics option"
  pb_initialFrame :: "proto_frame option"
  pb_deltaFrames :: "proto_frame list"
  pb_taggedUsername :: jstring
  pb_color :: jstring
  pb_evidenceJson :: jstring

definition own_or :: "'a \<Rightarrow> 'a option \<Rightarrow> 'a" where
  "own_or d v = (case v of Some x \<Rightarrow> x | None \<Rightarrow> d)"

section \<open>Metadata\<close>

definition protobufCosmetics :: "proto_cosmetics option \<Rightarrow> ghost_cosmetics" where
  "protobufCosmetics value =
     (let get = (\<lambda>field. optionalCosmeticId (map_option field value)) in
      \<lparr>cos_zeepkist = get pc_zeepkist, cos_frontWheels = get pc_frontWheels, cos_rearWheels = get pc_rearWheels,
       cos_paraglider = get pc_paraglider, cos_horn = get pc_horn, cos_hat = get pc_hat, cos_glasses = get pc_glasses,
       cos_colorBody = get pc_colorBody, cos_colorLeftArm = get pc_colorLeftArm, cos_colorRightArm = get pc_colorRightArm,
       cos_colorLeftLeg = get pc_colorLeftLeg, cos_colorRightLeg = get pc_colorRightLeg, cos_color = get pc_color\<rparr>)"

definition all_digits :: "jstring \<Rightarrow> bool" where
  "all_digits s \<longleftrightarrow> s \<noteq> [] \<and> list_all is_digit s"

definition protobufUInt64ToString :: "proto_uint64 \<Rightarrow> jstring option" where
  "protobufUInt64ToString value =
     (let digits = (\<lambda>s. if all_digits s then Some s else None) in
      case value of
        Uint64_Number x \<Rightarrow> if \<not> is_safe_integer x then None else digits (number_to_string x)
      | Uint64_Object s \<Rightarrow> digits s)"

definition readProtobufMetadata :: "proto_ghost \<Rightarrow> ghost_metadata" where
  "readProtobufMetadata decoded =
     (let cosmetics = protobufCosmetics (pb_cosmetics decoded) in
      \<lparr>gm_steamId = protobufUInt64ToString (pb_steamId decoded),
       gm_taggedUsername = (if pb_taggedUsername decoded \<noteq> [] then Some (pb_taggedUsername decoded) else None),
       gm_color = normalizeGhostColor (pb_color decoded),
       gm_cosmetics = (if hasAnyCosmetic cosmetics then Some cosmetics else None)\<rparr>)"

section \<open>Evidence of a version 8 run\<close>

text \<open>\<open>typeof v === 'string'\<close>, \<open>typeof v === 'boolean'\<close>, \<open>Number.isFinite(v)\<close>.\<close>

definition json_is_string :: "json option \<Rightarrow> bool" where
  "json_is_string v \<longleftrightarrow> (case v of Some (JString s) \<Rightarrow> True | _ \<Rightarrow> False)"

definition json_is_bool :: "json option \<Rightarrow> bool" where
  "json_is_bool v \<longleftrightarrow> (case v of Some (JBool b) \<Rightarrow> True | _ \<Rightarrow> False)"

definition json_finite :: "json option \<Rightarrow> js_number option" where
  "json_finite v = (case v of Some (JNumber x) \<Rightarrow> if is_finite x then Some x else None | _ \<Rightarrow> None)"

definition json_array :: "json option \<Rightarrow> json list option" where
  "json_array v = (case v of Some (JArray xs) \<Rightarrow> Some xs | _ \<Rightarrow> None)"

definition json_finite_and :: "(js_number \<Rightarrow> bool) \<Rightarrow> json option \<Rightarrow> bool" where
  "json_finite_and P v = (case json_finite v of Some x \<Rightarrow> P x | None \<Rightarrow> False)"

definition json_array_and :: "(json list \<Rightarrow> bool) \<Rightarrow> json option \<Rightarrow> bool" where
  "json_array_and P v = (case json_array v of Some xs \<Rightarrow> P xs | None \<Rightarrow> False)"

definition sphere_sample :: "json option \<Rightarrow> bool" where
  "sphere_sample s \<longleftrightarrow>
     json_finite_and (\<lambda>t. js_le 0 t) (json_opt s ''time'') \<and> json_finite_and (\<lambda>r. js_lt 0 r) (json_opt s ''radius'')
     \<and> json_array_and (\<lambda>p. length p = 3 \<and> list_all (\<lambda>x. json_finite (Some x) \<noteq> None) p) (json_opt s ''position'')"

definition trigger_event :: "json \<Rightarrow> bool" where
  "trigger_event v \<longleftrightarrow>
     json_is_string (json_opt (Some v) ''blockUid'') \<and> json_is_string (json_opt (Some v) ''shape'')
     \<and> json_is_bool (json_opt (Some v) ''finish'') \<and> json_finite (json_opt (Some v) ''velocityKmh'') \<noteq> None
     \<and> json_finite (json_opt (Some v) ''rawTime'') \<noteq> None \<and> json_finite (json_opt (Some v) ''adjustedTime'') \<noteq> None
     \<and> sphere_sample (json_opt (Some v) ''sample'')"

definition sampling_version :: "json option \<Rightarrow> bool" where
  "sampling_version v \<longleftrightarrow>
     (case v of
        None \<Rightarrow> True
      | Some (JNumber x) \<Rightarrow> (case js_integer x of Some n \<Rightarrow> 0 \<le> n \<and> n \<le> 4294967295 | None \<Rightarrow> False)
      | Some _ \<Rightarrow> False)"

definition evidence_ok :: "json \<Rightarrow> bool" where
  "evidence_ok value \<longleftrightarrow>
     (let get = json_opt (Some value) in
      sampling_version (get ''sphereSamplingVersion'')
      \<and> json_is_string (get ''runUuid'') \<and> json_is_string (get ''levelUid'') \<and> json_is_string (get ''submissionLevel'')
      \<and> json_is_string (get ''canonicalHash'') \<and> json_finite (get ''initialTime'') \<noteq> None
      \<and> json_finite (get ''physicsInterval'') \<noteq> None
      \<and> json_array_and (list_all (\<lambda>s. sphere_sample (Some s))) (get ''samples'')
      \<and> json_array_and (\<lambda>es. length es \<le> 20001 \<and> list_all trigger_event es) (get ''events''))"

definition readRunEvidence :: "proto_ghost \<Rightarrow> js_error + json" where
  "readRunEvidence decoded =
     (if pb_evidenceJson decoded = [] then Inl (Error ''Missing V8 evidence'')
      else
        case json_parse (pb_evidenceJson decoded) of
          None \<Rightarrow> Inl (Error ''SyntaxError'')
        | Some value \<Rightarrow>
            if \<not> evidence_ok value then Inl (Error ''Invalid V8 evidence'')
            else
              let samples = (case json_array (json_opt (Some value) ''samples'') of Some xs \<Rightarrow> xs | None \<Rightarrow> []) in
              res_map (\<lambda>_. value) (assertGhostFrameCount (int (length samples))))"

text \<open>\<open>initialTime\<close> of evidence that was read.\<close>

definition evidence_initialTime :: "json \<Rightarrow> js_number" where
  "evidence_initialTime value = (case json_finite (json_opt (Some value) ''initialTime'') of Some x \<Rightarrow> x | None \<Rightarrow> js_nan)"

section \<open>Frames\<close>

definition position_multiplier :: js_number where "position_multiplier = js_of_nat 100000"
definition rotation_multiplier :: js_number where "rotation_multiplier = js_of_nat 100"

definition unscaleVector3 :: "ghost_vector3 \<Rightarrow> js_number \<Rightarrow> ghost_vector3" where
  "unscaleVector3 v multiplier = \<lparr>gv_x = js_div (gv_x v) multiplier, gv_y = js_div (gv_y v) multiplier, gv_z = js_div (gv_z v) multiplier\<rparr>"

definition unscaleVector2 :: "ghost_vector2 \<Rightarrow> js_number \<Rightarrow> ghost_vector2" where
  "unscaleVector2 v multiplier = \<lparr>gw_x = js_div (gw_x v) multiplier, gw_y = js_div (gw_y v) multiplier\<rparr>"

definition requireUnscaledVector3 :: "ghost_vector3 option \<Rightarrow> js_number \<Rightarrow> js_error + ghost_vector3" where
  "requireUnscaledVector3 value multiplier =
     (case value of None \<Rightarrow> Inl (Error ''Invalid protobuf ghost ragdoll frame'') | Some v \<Rightarrow> Inr (unscaleVector3 v multiplier))"

definition add_vectors :: "ghost_vector3 \<Rightarrow> ghost_vector3 \<Rightarrow> ghost_vector3" where
  "add_vectors left right =
     \<lparr>gv_x = js_add (gv_x left) (gv_x right), gv_y = js_add (gv_y left) (gv_y right), gv_z = js_add (gv_z left) (gv_z right)\<rparr>"

definition addVector3 :: "ghost_vector3 option \<Rightarrow> ghost_vector3 \<Rightarrow> js_error + ghost_vector3" where
  "addVector3 left right =
     (case left of None \<Rightarrow> Inl (Error ''Invalid protobuf ghost ragdoll state'') | Some l \<Rightarrow> Inr (add_vectors l right))"

definition flag_bits :: "(nat \<times> u32) list" where
  "flag_bits = [(3, 1), (4, 2), (5, 4), (6, 8)]"

definition wheelStateFromSoapboxFlags :: "u32 \<Rightarrow> u32" where
  "wheelStateFromSoapboxFlags soapboxFlags =
     foldl (\<lambda>value (i, wheel). if bit soapboxFlags i then or value wheel else value) 0 flag_bits"

text \<open>\<open>source\<close> is the spread message; \<open>rotation\<close> is the argument, undefined when absent.\<close>

definition frameFromProtobuf ::
    "ghost_math \<Rightarrow> js_number \<Rightarrow> ghost_vector3 \<Rightarrow> proto_frame \<Rightarrow> nat \<Rightarrow> ghost_vector3 option \<Rightarrow> js_error + ghost_frame" where
  "frameFromProtobuf m time position source version rotationArgument =
     (let rotation = (case rotationArgument of None \<Rightarrow> pf_rotation source | Some r \<Rightarrow> Some r) in
      if \<not> (is_finite time \<and> vector_finite position) \<or> \<not> (case rotation of Some r \<Rightarrow> vector_finite r | None \<Rightarrow> True)
      then Inl (Error ''Invalid protobuf ghost frame'')
      else
        let inputFlags = own_or 0 (pf_inputFlags source);
            soapboxFlags = own_or 0 (pf_soapboxFlags source);
            hasExtendedTelemetry = 6 \<le> version;
            groundedWheelState = (if hasExtendedTelemetry then Some (own_or 0 (pf_groundedWheelState source)) else None);
            surfaceState = (if hasExtendedTelemetry then pf_surfaceState source else None) in
        Inr \<lparr>fr_time = time, fr_position = position, fr_rotation = rotation,
          fr_orientation = map_option (unityEulerToQuaternion m) rotation,
          fr_speed = pf_speed source,
          fr_steering = Some (remapByte (own_or (js_of_nat 128) (pf_steering source)) (js_neg (js_of_nat 1)) (js_of_nat 1)),
          fr_armsUp = Some (bit inputFlags 0), fr_braking = Some (bit inputFlags 1), fr_horn = Some (bit inputFlags 2),
          fr_soap = Some (bit soapboxFlags 0), fr_offroad = Some (bit soapboxFlags 1), fr_paraglider = Some (bit soapboxFlags 2),
          fr_inAir = map_option (\<lambda>g. g = 0) groundedWheelState,
          fr_surface = None,
          fr_surfaces = map_option (\<lambda>s. surfacesFromState s (if version = 6 then 6 else 7)) surfaceState,
          fr_wheelState = Some (wheelStateFromSoapboxFlags soapboxFlags),
          fr_groundedWheelState = groundedWheelState,
          fr_slippingWheelState = (if hasExtendedTelemetry then pf_slippingWheelState source else None),
          fr_surfaceState = surfaceState,
          fr_localVelocity = (if hasExtendedTelemetry then map_option (\<lambda>v. unscaleVector3 v position_multiplier) (pf_localVelocity source) else None),
          fr_localAngularVelocity = (if hasExtendedTelemetry then map_option (\<lambda>v. unscaleVector3 v rotation_multiplier) (pf_localAngularVelocity source) else None),
          fr_localGForce = (if hasExtendedTelemetry then map_option (\<lambda>v. unscaleVector2 v position_multiplier) (pf_localGForce source) else None),
          fr_parkingBlock = (if hasExtendedTelemetry then pf_parkingBlockState source else None),
          fr_monorail = (if hasExtendedTelemetry then pf_monorailState source else None),
          fr_ragdoll = (if hasExtendedTelemetry then pf_ragdollState source else None),
          fr_ragdollPosition = (if hasExtendedTelemetry then pf_ragdollPosition source else None),
          fr_ragdollRotation = (if hasExtendedTelemetry then pf_ragdollRotation source else None)\<rparr>)"

text \<open>What the loop over the delta frames carries.\<close>

record proto_state =
  ps_position :: ghost_vector3
  ps_rotation :: "ghost_vector3 option"
  ps_ragdollActive :: bool
  ps_ragdollPosition :: "ghost_vector3 option"
  ps_ragdollRotation :: "ghost_vector3 option"

type_synonym frame_stream = "ghost_frame list \<times> js_error option"

definition stream_yield :: "ghost_frame \<Rightarrow> frame_stream \<Rightarrow> frame_stream" where
  "stream_yield f s = (f # fst s, snd s)"

text \<open>The ragdoll vectors a delta frame leads to.\<close>

definition advance_ragdoll :: "nat \<Rightarrow> proto_frame \<Rightarrow> proto_state \<Rightarrow> js_error + proto_state" where
  "advance_ragdoll version deltaFrame st =
     (let hasExtendedTelemetry = 6 \<le> version; ragdollState = own_or False (pf_ragdollState deltaFrame) in
      if hasExtendedTelemetry \<and> ps_ragdollActive st \<and> \<not> ragdollState then Inl (Error ''Invalid protobuf ghost ragdoll state'')
      else if hasExtendedTelemetry \<and> ragdollState then
        res_bind (requireUnscaledVector3 (pf_ragdollPosition deltaFrame) position_multiplier) (\<lambda>deltaPosition.
        res_bind (requireUnscaledVector3 (pf_ragdollRotation deltaFrame) rotation_multiplier) (\<lambda>deltaRotation.
        res_bind (if ps_ragdollActive st then addVector3 (ps_ragdollPosition st) deltaPosition else Inr deltaPosition) (\<lambda>position.
        res_bind (if ps_ragdollActive st then addVector3 (ps_ragdollRotation st) deltaRotation else Inr deltaRotation) (\<lambda>rotation.
        Inr (st\<lparr>ps_ragdollActive := True, ps_ragdollPosition := Some position, ps_ragdollRotation := Some rotation\<rparr>)))))
      else Inr st)"

definition advance_frame :: "ghost_math \<Rightarrow> nat \<Rightarrow> proto_frame \<Rightarrow> proto_state \<Rightarrow> js_error + ghost_frame \<times> proto_state" where
  "advance_frame m version deltaFrame st =
     (case pf_position deltaFrame of
        None \<Rightarrow> Inl (Error ''Invalid protobuf ghost frame'')
      | Some delta \<Rightarrow>
          let position = add_vectors (ps_position st) (unscaleVector3 delta position_multiplier);
              rotation = (case pf_rotation deltaFrame of Some r \<Rightarrow> Some (unscaleVector3 r rotation_multiplier) | None \<Rightarrow> ps_rotation st) in
          res_bind (advance_ragdoll version deltaFrame (st\<lparr>ps_position := position, ps_rotation := rotation\<rparr>)) (\<lambda>st'.
          res_map (\<lambda>frame. (frame, st'))
            (frameFromProtobuf m (own_or 0 (pf_time deltaFrame)) position
              (deltaFrame\<lparr>pf_ragdollPosition := (if ps_ragdollActive st' then ps_ragdollPosition st' else None),
                 pf_ragdollRotation := (if ps_ragdollActive st' then ps_ragdollRotation st' else None)\<rparr>)
              version rotation)))"

fun iterate_deltas :: "ghost_math \<Rightarrow> nat \<Rightarrow> proto_state \<Rightarrow> proto_frame list \<Rightarrow> frame_stream" where
  "iterate_deltas m version st [] = ([], None)"
| "iterate_deltas m version st (d # ds) =
     (case advance_frame m version d st of
        Inl e \<Rightarrow> ([], Some e)
      | Inr (frame, st') \<Rightarrow> stream_yield frame (iterate_deltas m version st' ds))"

text \<open>The state at the initial frame.\<close>

definition initial_state :: "nat \<Rightarrow> proto_frame \<Rightarrow> ghost_vector3 \<Rightarrow> js_error + proto_state" where
  "initial_state version initialFrame position =
     (let ragdollActive = (6 \<le> version \<and> pf_ragdollState initialFrame = Some True) in
      res_bind (if ragdollActive then res_map Some (requireUnscaledVector3 (pf_ragdollPosition initialFrame) position_multiplier) else Inr None) (\<lambda>rp.
      res_bind (if ragdollActive then res_map Some (requireUnscaledVector3 (pf_ragdollRotation initialFrame) rotation_multiplier) else Inr None) (\<lambda>rr.
      Inr \<lparr>ps_position = position, ps_rotation = pf_rotation initialFrame, ps_ragdollActive = ragdollActive,
        ps_ragdollPosition = rp, ps_ragdollRotation = rr\<rparr>)))"

definition show_int :: "int \<Rightarrow> string" where
  "show_int n = (if n < 0 then ''-'' @ show_nat (nat (- n)) else show_nat (nat n))"

definition unsupported_version :: "int \<Rightarrow> js_error" where
  "unsupported_version version = Error (''Unsupported protobuf ghost version '' @ show_int version)"

definition iterateProtobufFrames :: "ghost_math \<Rightarrow> proto_ghost \<Rightarrow> frame_stream" where
  "iterateProtobufFrames m decoded =
     (case Option.bind (pb_initialFrame decoded) (\<lambda>f. map_option (Pair f) (pf_position f)) of
        None \<Rightarrow> ([], Some (Error ''Invalid protobuf ghost''))
      | Some (initialFrame, position) \<Rightarrow>
          if pb_version decoded \<notin> {5, 6, 7, 8} then ([], Some (unsupported_version (pb_version decoded)))
          else
            let version = nat (pb_version decoded);
                start = res_bind (assertGhostFrameCount (int (length (pb_deltaFrames decoded)) + 1)) (\<lambda>_.
                  res_bind (initial_state version initialFrame position) (\<lambda>st.
                  res_bind (if version = 8 then res_map evidence_initialTime (readRunEvidence decoded) else Inr 0) (\<lambda>time.
                  res_map (\<lambda>frame. (frame, st))
                    (frameFromProtobuf m time position
                      (initialFrame\<lparr>pf_ragdollPosition := ps_ragdollPosition st, pf_ragdollRotation := ps_ragdollRotation st\<rparr>)
                      version (ps_rotation st))))) in
            (case start of
               Inl e \<Rightarrow> ([], Some e)
             | Inr (frame, st) \<Rightarrow> stream_yield frame (iterate_deltas m version st (pb_deltaFrames decoded))))"

definition stream_result :: "frame_stream \<Rightarrow> js_error + ghost_frame list" where
  "stream_result s = (case snd s of Some e \<Rightarrow> Inl e | None \<Rightarrow> Inr (fst s))"

definition readProtobufFrames :: "ghost_math \<Rightarrow> proto_ghost \<Rightarrow> js_error + ghost_frame list" where
  "readProtobufFrames m decoded = stream_result (iterateProtobufFrames m decoded)"

section \<open>Versions\<close>

definition parseDecodedProtobufGhost :: "ghost_math \<Rightarrow> proto_ghost \<Rightarrow> nat \<Rightarrow> js_error + parsed_ghost" where
  "parseDecodedProtobufGhost m decoded version =
     res_bind (readProtobufFrames m decoded) (\<lambda>frames.
     res_bind (if version = 8 then res_map Some (readRunEvidence decoded) else Inr None) (\<lambda>evidence.
     Inr \<lparr>pg_evidence = evidence, pg_version = version, pg_metadata = readProtobufMetadata decoded,
       pg_capabilities = detectGhostCapabilities frames (Some version), pg_frames = frames\<rparr>))"

definition wrong_version :: "nat \<Rightarrow> int \<Rightarrow> js_error" where
  "wrong_version version found = Error (''Invalid V'' @ show_nat version @ '' ghost version '' @ show_int found)"

definition parse_decoded :: "nat \<Rightarrow> ghost_math \<Rightarrow> proto_ghost \<Rightarrow> js_error + parsed_ghost" where
  "parse_decoded version m decoded =
     (if pb_version decoded \<noteq> int version then Inl (wrong_version version (pb_version decoded))
      else parseDecodedProtobufGhost m decoded version)"

definition parseDecodedV5 :: "ghost_math \<Rightarrow> proto_ghost \<Rightarrow> js_error + parsed_ghost" where
  "parseDecodedV5 = parse_decoded 5"

definition parseDecodedV6 :: "ghost_math \<Rightarrow> proto_ghost \<Rightarrow> js_error + parsed_ghost" where
  "parseDecodedV6 = parse_decoded 6"

definition parseDecodedV7 :: "ghost_math \<Rightarrow> proto_ghost \<Rightarrow> js_error + parsed_ghost" where
  "parseDecodedV7 = parse_decoded 7"

definition parseDecodedV8 :: "ghost_math \<Rightarrow> proto_ghost \<Rightarrow> js_error + parsed_ghost" where
  "parseDecodedV8 = parse_decoded 8"

end
