(* ===== verification/Ghost_Statistics.thy ===== *)
theory Ghost_Statistics
  imports Ghost_Protobuf
begin

text \<open>
  The statistics of a ghost (\<open>statistics.ts\<close>, with \<open>utils/addTransition.ts\<close> and \<open>utils/distance.ts\<close>).

  The variables of \<open>calculateGhostStatisticsFromIterable\<close> are records: the flags and counts, the speeds (weighted sums, durations and
  maxima), the distances and the times. \<open>note_frame\<close> is what the loop does with every frame, \<open>add_distances\<close>, \<open>add_speeds\<close> and
  \<open>add_times\<close> what it does with a segment, a frame and the one before it with a finite, positive time between them.
\<close>

section \<open>The result\<close>

record ghost_statistics =
  gs_ghostVersion :: "nat option"
  gs_hasInputData :: bool
  gs_hasAirData :: bool
  gs_hasWheelData :: bool
  gs_hasSlipData :: bool
  gs_hasStateData :: bool
  gs_hasSurfaceData :: bool
  gs_hasVelocityData :: bool
  gs_hasRagdollData :: bool
  gs_frameCount :: "nat option"
  gs_time :: "js_number option"
  gs_distance :: "js_number option"
  gs_distanceInAir :: "js_number option"
  gs_distanceOnGround :: "js_number option"
  gs_distanceOn1Wheel :: "js_number option"
  gs_distanceOn2Wheels :: "js_number option"
  gs_distanceOn3Wheels :: "js_number option"
  gs_distanceOn4Wheels :: "js_number option"
  gs_timeInAir :: "js_number option"
  gs_timeOnGround :: "js_number option"
  gs_timeOn1Wheel :: "js_number option"
  gs_timeOn2Wheels :: "js_number option"
  gs_timeOn3Wheels :: "js_number option"
  gs_timeOn4Wheels :: "js_number option"
  gs_averageSpeed :: "js_number option"
  gs_maxSpeed :: "js_number option"
  gs_armsUpCount :: "nat option"
  gs_armsUpTime :: "js_number option"
  gs_brakeCount :: "nat option"
  gs_brakeTime :: "js_number option"
  gs_turnLeftCount :: "nat option"
  gs_turnLeftTime :: "js_number option"
  gs_turnRightCount :: "nat option"
  gs_turnRightTime :: "js_number option"
  gs_hornCount :: "nat option"
  gs_hornTime :: "js_number option"
  gs_distanceSlipping :: "js_number option"
  gs_distanceParaglider :: "js_number option"
  gs_distanceOffroadWheels :: "js_number option"
  gs_distanceSoapWheels :: "js_number option"
  gs_distanceOnMonorail :: "js_number option"
  gs_distanceParked :: "js_number option"
  gs_distanceRagdoll :: "js_number option"
  gs_timeSlipping :: "js_number option"
  gs_timeParaglider :: "js_number option"
  gs_timeOffroadWheels :: "js_number option"
  gs_timeSoapWheels :: "js_number option"
  gs_timeOnMonorail :: "js_number option"
  gs_timeParked :: "js_number option"
  gs_timeRagdoll :: "js_number option"
  gs_distanceOnUnknown :: "js_number option"
  gs_timeOnUnknown :: "js_number option"
  gs_distanceOnTarmac :: "js_number option"
  gs_distanceOnGrass :: "js_number option"
  gs_distanceOnSand :: "js_number option"
  gs_distanceOnSoap :: "js_number option"
  gs_distanceOnWood :: "js_number option"
  gs_distanceOnMud :: "js_number option"
  gs_distanceOnIce1 :: "js_number option"
  gs_distanceOnIce2 :: "js_number option"
  gs_distanceOnIce3 :: "js_number option"
  gs_timeOnTarmac :: "js_number option"
  gs_timeOnGrass :: "js_number option"
  gs_timeOnSand :: "js_number option"
  gs_timeOnSoap :: "js_number option"
  gs_timeOnWood :: "js_number option"
  gs_timeOnMud :: "js_number option"
  gs_timeOnIce1 :: "js_number option"
  gs_timeOnIce2 :: "js_number option"
  gs_timeOnIce3 :: "js_number option"
  gs_averageVelocity :: "js_number option"
  gs_maxVelocity :: "js_number option"
  gs_averageAngularVelocity :: "js_number option"
  gs_maxAngularVelocity :: "js_number option"
  gs_averageGforce :: "js_number option"
  gs_maxGforce :: "js_number option"
  gs_timeAnyDriverInput :: "js_number option"
  gs_driverInputTransitionCount :: "nat option"

definition emptyGhostStatistics :: "nat option \<Rightarrow> nat option \<Rightarrow> ghost_statistics" where
  "emptyGhostStatistics frameCount version =
     \<lparr>gs_ghostVersion = version, gs_hasInputData = False, gs_hasAirData = False, gs_hasWheelData = False,
      gs_hasSlipData = False, gs_hasStateData = False, gs_hasSurfaceData = False, gs_hasVelocityData = False,
      gs_hasRagdollData = False, gs_frameCount = frameCount, gs_time = None, gs_distance = None, gs_distanceInAir = None,
      gs_distanceOnGround = None, gs_distanceOn1Wheel = None, gs_distanceOn2Wheels = None, gs_distanceOn3Wheels = None,
      gs_distanceOn4Wheels = None, gs_timeInAir = None, gs_timeOnGround = None, gs_timeOn1Wheel = None,
      gs_timeOn2Wheels = None, gs_timeOn3Wheels = None, gs_timeOn4Wheels = None, gs_averageSpeed = None, gs_maxSpeed = None,
      gs_armsUpCount = None, gs_armsUpTime = None, gs_brakeCount = None, gs_brakeTime = None, gs_turnLeftCount = None,
      gs_turnLeftTime = None, gs_turnRightCount = None, gs_turnRightTime = None, gs_hornCount = None, gs_hornTime = None,
      gs_distanceSlipping = None, gs_distanceParaglider = None, gs_distanceOffroadWheels = None, gs_distanceSoapWheels = None,
      gs_distanceOnMonorail = None, gs_distanceParked = None, gs_distanceRagdoll = None, gs_timeSlipping = None,
      gs_timeParaglider = None, gs_timeOffroadWheels = None, gs_timeSoapWheels = None, gs_timeOnMonorail = None,
      gs_timeParked = None, gs_timeRagdoll = None, gs_distanceOnUnknown = None, gs_timeOnUnknown = None,
      gs_distanceOnTarmac = None, gs_distanceOnGrass = None, gs_distanceOnSand = None, gs_distanceOnSoap = None,
      gs_distanceOnWood = None, gs_distanceOnMud = None, gs_distanceOnIce1 = None, gs_distanceOnIce2 = None,
      gs_distanceOnIce3 = None, gs_timeOnTarmac = None, gs_timeOnGrass = None, gs_timeOnSand = None, gs_timeOnSoap = None,
      gs_timeOnWood = None, gs_timeOnMud = None, gs_timeOnIce1 = None, gs_timeOnIce2 = None, gs_timeOnIce3 = None,
      gs_averageVelocity = None, gs_maxVelocity = None, gs_averageAngularVelocity = None, gs_maxAngularVelocity = None,
      gs_averageGforce = None, gs_maxGforce = None, gs_timeAnyDriverInput = None, gs_driverInputTransitionCount = None\<rparr>"

section \<open>Helpers\<close>

definition speed_cap_kmh :: js_number where "speed_cap_kmh = js_of_nat 500"
definition turn_deadzone :: js_number where "turn_deadzone = decimal_number 0 1 (- 1)"

text \<open>A flag that may be undefined, as a condition.\<close>

definition truthy :: "bool option \<Rightarrow> bool" where
  "truthy b \<longleftrightarrow> b = Some True"

definition addTransition :: "bool \<Rightarrow> bool \<Rightarrow> nat \<Rightarrow> nat" where
  "addTransition active wasActive count = (if active \<and> \<not> wasActive then count + 1 else count)"

definition distance :: "ghost_math \<Rightarrow> ghost_vector3 \<Rightarrow> ghost_vector3 \<Rightarrow> js_number" where
  "distance m a b =
     (let dx = js_sub (gv_x a) (gv_x b); dy = js_sub (gv_y a) (gv_y b); dz = js_sub (gv_z a) (gv_z b) in
      math_sqrt m (js_add (js_add (js_mul dx dx) (js_mul dy dy)) (js_mul dz dz)))"

definition magnitude3 :: "ghost_math \<Rightarrow> ghost_vector3 \<Rightarrow> js_number" where
  "magnitude3 m v = math_sqrt m (js_add (js_add (js_mul (gv_x v) (gv_x v)) (js_mul (gv_y v) (gv_y v))) (js_mul (gv_z v) (gv_z v)))"

definition magnitude2 :: "ghost_math \<Rightarrow> ghost_vector2 \<Rightarrow> js_number" where
  "magnitude2 m v = math_sqrt m (js_add (js_mul (gw_x v) (gw_x v)) (js_mul (gw_y v) (gw_y v)))"

definition maxValue :: "js_number option \<Rightarrow> js_number \<Rightarrow> js_number" where
  "maxValue current value = (case current of None \<Rightarrow> value | Some c \<Rightarrow> js_max c value)"

text \<open>\<open>remaining > 0\<close> is signed: a state with bit 31 set counts 0.\<close>

fun count_bits_loop :: "nat \<Rightarrow> nat \<Rightarrow> nat" where
  "count_bits_loop count remaining =
     (if 0 < remaining then count_bits_loop (count + remaining mod 2) (remaining div 2) else count)"

declare count_bits_loop.simps [simp del]

definition countBits :: "u32 option \<Rightarrow> nat" where
  "countBits value = (case value of None \<Rightarrow> 0 | Some w \<Rightarrow> count_bits_loop 0 (nat (sint w)))"

definition isWheelCount :: "nat \<Rightarrow> bool" where
  "isWheelCount n \<longleftrightarrow> n = 1 \<or> n = 2 \<or> n = 3 \<or> n = 4"

definition hasFrameState :: "ghost_frame \<Rightarrow> bool" where
  "hasFrameState f \<longleftrightarrow> fr_soap f \<noteq> None \<or> fr_offroad f \<noteq> None \<or> fr_paraglider f \<noteq> None"

definition getFrameSurfaces :: "ghost_frame \<Rightarrow> known_surface list" where
  "getFrameSurfaces f =
     (case fr_surfaces f of
        Some (s # ss) \<Rightarrow> s # ss
      | _ \<Rightarrow> (case fr_surface f of Some (c # cs) \<Rightarrow> [normalizeSurface (c # cs)] | _ \<Rightarrow> []))"

definition turning_left :: "ghost_frame \<Rightarrow> bool" where
  "turning_left f \<longleftrightarrow> (case fr_steering f of Some s \<Rightarrow> js_lt s (js_neg turn_deadzone) | None \<Rightarrow> False)"

definition turning_right :: "ghost_frame \<Rightarrow> bool" where
  "turning_right f \<longleftrightarrow> (case fr_steering f of Some s \<Rightarrow> js_lt turn_deadzone s | None \<Rightarrow> False)"

definition hasAnyDriverInput :: "ghost_frame \<Rightarrow> bool" where
  "hasAnyDriverInput f \<longleftrightarrow> truthy (fr_armsUp f) \<or> truthy (fr_braking f)
     \<or> (case fr_steering f of Some s \<Rightarrow> js_lt turn_deadzone (number_abs s) | None \<Rightarrow> False)"

text \<open>\<open>target[surface] += value / surfaces.length\<close> for every surface\<close>

definition addSegmentToSurfaces ::
    "(known_surface \<Rightarrow> js_number) \<Rightarrow> known_surface list \<Rightarrow> js_number \<Rightarrow> known_surface \<Rightarrow> js_number" where
  "addSegmentToSurfaces target surfaces value =
     (if surfaces = [] then target
      else
        let splitValue = js_div value (js_of_nat (length surfaces)) in
        foldl (\<lambda>t s. t(s := js_add (t s) splitValue)) target surfaces)"

text \<open>\<open>if (condition) x += v\<close>\<close>

definition add_if :: "bool \<Rightarrow> js_number \<Rightarrow> js_number \<Rightarrow> js_number" where
  "add_if condition v x = (if condition then js_add x v else x)"

text \<open>\<open>if (isWheelCount(n)) wheels[n] += v\<close>\<close>

definition add_wheels :: "(nat \<Rightarrow> js_number) \<Rightarrow> nat \<Rightarrow> js_number \<Rightarrow> nat \<Rightarrow> js_number" where
  "add_wheels wheels n v = (if isWheelCount n then wheels(n := js_add (wheels n) v) else wheels)"

section \<open>Every frame\<close>

record ghost_notes =
  gn_hasInputStats :: bool
  gn_hasHornStats :: bool
  gn_hasStateStats :: bool
  gn_hasAirStats :: bool
  gn_hasWheelStats :: bool
  gn_hasSlipStats :: bool
  gn_hasSurfaceStats :: bool
  gn_hasParkingStats :: bool
  gn_hasMonorailStats :: bool
  gn_hasRagdollStats :: bool
  gn_hasVelocityStats :: bool
  gn_armsUpCount :: nat
  gn_brakeCount :: nat
  gn_hornCount :: nat
  gn_turnLeftCount :: nat
  gn_turnRightCount :: nat

definition version_from :: "nat \<Rightarrow> nat option \<Rightarrow> bool" where
  "version_from v ghostVersion \<longleftrightarrow> (case ghostVersion of Some g \<Rightarrow> v \<le> g | None \<Rightarrow> False)"

definition new_notes :: "nat option \<Rightarrow> ghost_notes" where
  "new_notes ghostVersion =
     \<lparr>gn_hasInputStats = False, gn_hasHornStats = False, gn_hasStateStats = False, gn_hasAirStats = False, gn_hasWheelStats = False,
      gn_hasSlipStats = version_from 6 ghostVersion, gn_hasSurfaceStats = version_from 6 ghostVersion, gn_hasParkingStats = False,
      gn_hasMonorailStats = False, gn_hasRagdollStats = version_from 6 ghostVersion, gn_hasVelocityStats = False,
      gn_armsUpCount = 0, gn_brakeCount = 0, gn_hornCount = 0, gn_turnLeftCount = 0, gn_turnRightCount = 0\<rparr>"

text \<open>A condition on the frame before, which the first frame does not have.\<close>

definition before :: "(ghost_frame \<Rightarrow> bool) \<Rightarrow> ghost_frame option \<Rightarrow> bool" where
  "before P previous \<longleftrightarrow> (case previous of Some p \<Rightarrow> P p | None \<Rightarrow> False)"

definition note_frame :: "ghost_frame option \<Rightarrow> ghost_frame \<Rightarrow> ghost_notes \<Rightarrow> ghost_notes" where
  "note_frame previous frame n =
     \<lparr>gn_hasInputStats = (gn_hasInputStats n \<or> fr_steering frame \<noteq> None \<or> fr_armsUp frame \<noteq> None \<or> fr_braking frame \<noteq> None),
      gn_hasHornStats = (gn_hasHornStats n \<or> fr_horn frame \<noteq> None),
      gn_hasStateStats = (gn_hasStateStats n \<or> hasFrameState frame),
      gn_hasAirStats = (gn_hasAirStats n \<or> fr_groundedWheelState frame \<noteq> None),
      gn_hasWheelStats = (gn_hasWheelStats n \<or> fr_groundedWheelState frame \<noteq> None),
      gn_hasSlipStats = (gn_hasSlipStats n \<or> fr_slippingWheelState frame \<noteq> None),
      gn_hasSurfaceStats = (gn_hasSurfaceStats n \<or> has_surfaces frame),
      gn_hasParkingStats = (gn_hasParkingStats n \<or> fr_parkingBlock frame \<noteq> None),
      gn_hasMonorailStats = (gn_hasMonorailStats n \<or> fr_monorail frame \<noteq> None),
      gn_hasRagdollStats = (gn_hasRagdollStats n \<or> fr_ragdoll frame \<noteq> None),
      gn_hasVelocityStats = (gn_hasVelocityStats n \<or> fr_localVelocity frame \<noteq> None \<or> fr_localAngularVelocity frame \<noteq> None
        \<or> fr_localGForce frame \<noteq> None),
      gn_armsUpCount = addTransition (truthy (fr_armsUp frame)) (before (\<lambda>p. truthy (fr_armsUp p)) previous) (gn_armsUpCount n),
      gn_brakeCount = addTransition (truthy (fr_braking frame)) (before (\<lambda>p. truthy (fr_braking p)) previous) (gn_brakeCount n),
      gn_hornCount = addTransition (truthy (fr_horn frame)) (before (\<lambda>p. truthy (fr_horn p)) previous) (gn_hornCount n),
      gn_turnLeftCount = addTransition (turning_left frame) (before turning_left previous) (gn_turnLeftCount n),
      gn_turnRightCount = addTransition (turning_right frame) (before turning_right previous) (gn_turnRightCount n)\<rparr>"

section \<open>Speeds\<close>

record ghost_speeds =
  gp_speedTime :: js_number
  gp_speedWeighted :: js_number
  gp_maxSpeed :: "js_number option"
  gp_velocityTime :: js_number
  gp_velocityWeighted :: js_number
  gp_maxVelocity :: "js_number option"
  gp_angularVelocityTime :: js_number
  gp_angularVelocityWeighted :: js_number
  gp_maxAngularVelocity :: "js_number option"
  gp_gforceTime :: js_number
  gp_gforceWeighted :: js_number
  gp_maxGforce :: "js_number option"

definition new_speeds :: ghost_speeds where
  "new_speeds = \<lparr>gp_speedTime = 0, gp_speedWeighted = 0, gp_maxSpeed = None, gp_velocityTime = 0, gp_velocityWeighted = 0,
     gp_maxVelocity = None, gp_angularVelocityTime = 0, gp_angularVelocityWeighted = 0, gp_maxAngularVelocity = None,
     gp_gforceTime = 0, gp_gforceWeighted = 0, gp_maxGforce = None\<rparr>"

text \<open>The magnitude of a vector that is there and whose magnitude is finite.\<close>

definition finite_magnitude :: "('v \<Rightarrow> js_number) \<Rightarrow> 'v option \<Rightarrow> js_number option" where
  "finite_magnitude magnitude v =
     (case v of Some w \<Rightarrow> if is_finite (magnitude w) then Some (magnitude w) else None | None \<Rightarrow> None)"

definition max_if :: "js_number option \<Rightarrow> js_number option \<Rightarrow> js_number option" where
  "max_if value current = (case value of Some v \<Rightarrow> Some (maxValue current v) | None \<Rightarrow> current)"

definition capped :: "js_number \<Rightarrow> js_number option" where
  "capped speed = (if is_finite speed then Some (js_min speed speed_cap_kmh) else None)"

definition note_speeds :: "ghost_math \<Rightarrow> ghost_frame \<Rightarrow> ghost_speeds \<Rightarrow> ghost_speeds" where
  "note_speeds m frame s =
     s\<lparr>gp_maxSpeed := max_if (Option.bind (fr_speed frame) capped) (gp_maxSpeed s),
       gp_maxVelocity := max_if (finite_magnitude (magnitude3 m) (fr_localVelocity frame)) (gp_maxVelocity s),
       gp_maxAngularVelocity := max_if (finite_magnitude (magnitude3 m) (fr_localAngularVelocity frame)) (gp_maxAngularVelocity s),
       gp_maxGforce := max_if (finite_magnitude (magnitude2 m) (fr_localGForce frame)) (gp_maxGforce s)\<rparr>"

type_synonym segment = "ghost_frame \<times> ghost_frame"

definition seg_dt :: "segment \<Rightarrow> js_number" where
  "seg_dt seg = js_sub (fr_time (snd seg)) (fr_time (fst seg))"

definition seg_timed :: "segment \<Rightarrow> bool" where
  "seg_timed seg \<longleftrightarrow> is_finite (seg_dt seg) \<and> \<not> js_le (seg_dt seg) 0"

definition seg_distance :: "ghost_math \<Rightarrow> segment \<Rightarrow> js_number" where
  "seg_distance m seg = distance m (fr_position (fst seg)) (fr_position (snd seg))"

text \<open>\<open>(distance / dt) * 3.6\<close>\<close>

definition implied_kmh :: "js_number \<Rightarrow> js_number \<Rightarrow> js_number" where
  "implied_kmh d dt = js_mul (js_div d dt) (decimal_number 0 36 (- 1))"

definition seg_impliedSpeed :: "ghost_math \<Rightarrow> segment \<Rightarrow> js_number" where
  "seg_impliedSpeed m seg = implied_kmh (seg_distance m seg) (seg_dt seg)"

definition plausible :: "js_number \<Rightarrow> js_number \<Rightarrow> bool" where
  "plausible d speed \<longleftrightarrow> is_finite d \<and> is_finite speed \<and> js_le speed speed_cap_kmh"

definition seg_valid :: "ghost_math \<Rightarrow> segment \<Rightarrow> bool" where
  "seg_valid m seg \<longleftrightarrow> plausible (seg_distance m seg) (seg_impliedSpeed m seg)"

definition seg_speed :: "ghost_math \<Rightarrow> segment \<Rightarrow> js_number" where
  "seg_speed m seg = own_or (seg_impliedSpeed m seg) (fr_speed (fst seg))"

text \<open>\<open>if (value is there) { time += dt; weighted += value * dt }\<close>\<close>

definition weigh :: "js_number option \<Rightarrow> js_number \<Rightarrow> js_number \<Rightarrow> js_number" where
  "weigh value dt weighted = (case value of Some v \<Rightarrow> js_add weighted (js_mul v dt) | None \<Rightarrow> weighted)"

definition add_speeds :: "ghost_math \<Rightarrow> segment \<Rightarrow> ghost_speeds \<Rightarrow> ghost_speeds" where
  "add_speeds m seg s =
     (let dt = seg_dt seg; previous = fst seg;
          speed = capped (seg_speed m seg);
          velocity = finite_magnitude (magnitude3 m) (fr_localVelocity previous);
          angularVelocity = finite_magnitude (magnitude3 m) (fr_localAngularVelocity previous);
          gforce = finite_magnitude (magnitude2 m) (fr_localGForce previous) in
      \<lparr>gp_speedTime = add_if (speed \<noteq> None) dt (gp_speedTime s), gp_speedWeighted = weigh speed dt (gp_speedWeighted s),
       gp_maxSpeed = max_if speed (gp_maxSpeed s),
       gp_velocityTime = add_if (velocity \<noteq> None) dt (gp_velocityTime s), gp_velocityWeighted = weigh velocity dt (gp_velocityWeighted s),
       gp_maxVelocity = max_if velocity (gp_maxVelocity s),
       gp_angularVelocityTime = add_if (angularVelocity \<noteq> None) dt (gp_angularVelocityTime s),
       gp_angularVelocityWeighted = weigh angularVelocity dt (gp_angularVelocityWeighted s),
       gp_maxAngularVelocity = max_if angularVelocity (gp_maxAngularVelocity s),
       gp_gforceTime = add_if (gforce \<noteq> None) dt (gp_gforceTime s), gp_gforceWeighted = weigh gforce dt (gp_gforceWeighted s),
       gp_maxGforce = max_if gforce (gp_maxGforce s)\<rparr>)"

section \<open>Distances\<close>

record ghost_distances =
  gd_totalDistance :: js_number
  gd_distanceInAir :: js_number
  gd_distanceOnGround :: js_number
  gd_distanceOnWheels :: "nat \<Rightarrow> js_number"
  gd_distanceSlipping :: js_number
  gd_distanceParaglider :: js_number
  gd_distanceOffroadWheels :: js_number
  gd_distanceSoapWheels :: js_number
  gd_distanceOnMonorail :: js_number
  gd_distanceParked :: js_number
  gd_distanceRagdoll :: js_number
  gd_distanceOnUnknown :: js_number
  gd_surfaceDistance :: "known_surface \<Rightarrow> js_number"

definition new_distances :: ghost_distances where
  "new_distances = \<lparr>gd_totalDistance = 0, gd_distanceInAir = 0, gd_distanceOnGround = 0, gd_distanceOnWheels = (\<lambda>_. 0),
     gd_distanceSlipping = 0, gd_distanceParaglider = 0, gd_distanceOffroadWheels = 0, gd_distanceSoapWheels = 0,
     gd_distanceOnMonorail = 0, gd_distanceParked = 0, gd_distanceRagdoll = 0, gd_distanceOnUnknown = 0,
     gd_surfaceDistance = (\<lambda>_. 0)\<rparr>"

text \<open>Conditions on the frame a segment starts with.\<close>

definition in_air :: "ghost_frame \<Rightarrow> bool" where
  "in_air f \<longleftrightarrow> fr_groundedWheelState f = Some 0"

definition on_ground :: "ghost_frame \<Rightarrow> bool" where
  "on_ground f \<longleftrightarrow> \<not> in_air f \<and> fr_groundedWheelState f \<noteq> None"

definition slipping :: "ghost_frame \<Rightarrow> bool" where
  "slipping f \<longleftrightarrow> own_or 0 (fr_slippingWheelState f) \<noteq> 0"

definition unknown_surface :: "nat option \<Rightarrow> ghost_frame \<Rightarrow> bool" where
  "unknown_surface ghostVersion f \<longleftrightarrow>
     version_from 7 ghostVersion \<and> 0 < sint (own_or 0 (fr_groundedWheelState f)) \<and> getFrameSurfaces f = []"

definition add_valid_distances :: "ghost_math \<Rightarrow> nat option \<Rightarrow> segment \<Rightarrow> ghost_distances \<Rightarrow> ghost_distances" where
  "add_valid_distances m ghostVersion seg d =
     (let segmentDistance = seg_distance m seg; previous = fst seg in
      d\<lparr>gd_totalDistance := js_add (gd_totalDistance d) segmentDistance,
        gd_distanceInAir := add_if (in_air previous) segmentDistance (gd_distanceInAir d),
        gd_distanceOnGround := add_if (on_ground previous) segmentDistance (gd_distanceOnGround d),
        gd_distanceOnWheels := add_wheels (gd_distanceOnWheels d) (countBits (fr_groundedWheelState previous)) segmentDistance,
        gd_distanceSlipping := add_if (slipping previous) segmentDistance (gd_distanceSlipping d),
        gd_distanceParaglider := add_if (truthy (fr_paraglider previous)) segmentDistance (gd_distanceParaglider d),
        gd_distanceOffroadWheels := add_if (truthy (fr_offroad previous)) segmentDistance (gd_distanceOffroadWheels d),
        gd_distanceSoapWheels := add_if (truthy (fr_soap previous)) segmentDistance (gd_distanceSoapWheels d),
        gd_distanceOnMonorail := add_if (truthy (fr_monorail previous)) segmentDistance (gd_distanceOnMonorail d),
        gd_distanceParked := add_if (truthy (fr_parkingBlock previous)) segmentDistance (gd_distanceParked d),
        gd_surfaceDistance := addSegmentToSurfaces (gd_surfaceDistance d) (getFrameSurfaces previous) segmentDistance,
        gd_distanceOnUnknown := add_if (unknown_surface ghostVersion previous) segmentDistance (gd_distanceOnUnknown d)\<rparr>)"

definition seg_ragdollDistance :: "ghost_math \<Rightarrow> segment \<Rightarrow> js_number" where
  "seg_ragdollDistance m seg =
     distance m (own_or (fr_position (fst seg)) (fr_ragdollPosition (fst seg))) (own_or (fr_position (snd seg)) (fr_ragdollPosition (snd seg)))"

definition seg_ragdoll :: "ghost_math \<Rightarrow> segment \<Rightarrow> bool" where
  "seg_ragdoll m seg \<longleftrightarrow> truthy (fr_ragdoll (fst seg))
     \<and> plausible (seg_ragdollDistance m seg) (implied_kmh (seg_ragdollDistance m seg) (seg_dt seg))"

definition add_distances :: "ghost_math \<Rightarrow> nat option \<Rightarrow> segment \<Rightarrow> ghost_distances \<Rightarrow> ghost_distances" where
  "add_distances m ghostVersion seg d =
     (let d' = (if seg_valid m seg then add_valid_distances m ghostVersion seg d else d) in
      d'\<lparr>gd_distanceRagdoll := add_if (seg_ragdoll m seg) (seg_ragdollDistance m seg) (gd_distanceRagdoll d')\<rparr>)"

section \<open>Times\<close>

record ghost_times =
  gt_armsUpTime :: js_number
  gt_brakeTime :: js_number
  gt_hornTime :: js_number
  gt_timeAnyDriverInput :: js_number
  gt_turnLeftTime :: js_number
  gt_turnRightTime :: js_number
  gt_timeInAir :: js_number
  gt_timeOnGround :: js_number
  gt_timeOnWheels :: "nat \<Rightarrow> js_number"
  gt_timeSlipping :: js_number
  gt_timeParaglider :: js_number
  gt_timeOffroadWheels :: js_number
  gt_timeSoapWheels :: js_number
  gt_timeOnMonorail :: js_number
  gt_timeParked :: js_number
  gt_timeRagdoll :: js_number
  gt_surfaceTime :: "known_surface \<Rightarrow> js_number"
  gt_timeOnUnknown :: js_number

definition new_times :: ghost_times where
  "new_times = \<lparr>gt_armsUpTime = 0, gt_brakeTime = 0, gt_hornTime = 0, gt_timeAnyDriverInput = 0, gt_turnLeftTime = 0,
     gt_turnRightTime = 0, gt_timeInAir = 0, gt_timeOnGround = 0, gt_timeOnWheels = (\<lambda>_. 0), gt_timeSlipping = 0,
     gt_timeParaglider = 0, gt_timeOffroadWheels = 0, gt_timeSoapWheels = 0, gt_timeOnMonorail = 0, gt_timeParked = 0,
     gt_timeRagdoll = 0, gt_surfaceTime = (\<lambda>_. 0), gt_timeOnUnknown = 0\<rparr>"

definition add_times :: "nat option \<Rightarrow> segment \<Rightarrow> ghost_times \<Rightarrow> ghost_times" where
  "add_times ghostVersion seg t =
     (let dt = seg_dt seg; previous = fst seg in
      \<lparr>gt_armsUpTime = add_if (truthy (fr_armsUp previous)) dt (gt_armsUpTime t),
       gt_brakeTime = add_if (truthy (fr_braking previous)) dt (gt_brakeTime t),
       gt_hornTime = add_if (truthy (fr_horn previous)) dt (gt_hornTime t),
       gt_timeAnyDriverInput = add_if (hasAnyDriverInput previous) dt (gt_timeAnyDriverInput t),
       gt_turnLeftTime = add_if (turning_left previous) dt (gt_turnLeftTime t),
       gt_turnRightTime = add_if (turning_right previous) dt (gt_turnRightTime t),
       gt_timeInAir = add_if (in_air previous) dt (gt_timeInAir t),
       gt_timeOnGround = add_if (on_ground previous) dt (gt_timeOnGround t),
       gt_timeOnWheels = add_wheels (gt_timeOnWheels t) (countBits (fr_groundedWheelState previous)) dt,
       gt_timeSlipping = add_if (slipping previous) dt (gt_timeSlipping t),
       gt_timeParaglider = add_if (truthy (fr_paraglider previous)) dt (gt_timeParaglider t),
       gt_timeOffroadWheels = add_if (truthy (fr_offroad previous)) dt (gt_timeOffroadWheels t),
       gt_timeSoapWheels = add_if (truthy (fr_soap previous)) dt (gt_timeSoapWheels t),
       gt_timeOnMonorail = add_if (truthy (fr_monorail previous)) dt (gt_timeOnMonorail t),
       gt_timeParked = add_if (truthy (fr_parkingBlock previous)) dt (gt_timeParked t),
       gt_timeRagdoll = add_if (truthy (fr_ragdoll previous)) dt (gt_timeRagdoll t),
       gt_surfaceTime = addSegmentToSurfaces (gt_surfaceTime t) (getFrameSurfaces previous) dt,
       gt_timeOnUnknown = add_if (unknown_surface ghostVersion previous) dt (gt_timeOnUnknown t)\<rparr>)"

section \<open>The loop\<close>

record ghost_acc =
  ga_notes :: ghost_notes
  ga_speeds :: ghost_speeds
  ga_distances :: ghost_distances
  ga_times :: ghost_times
  ga_frameCount :: nat
  ga_previous :: "ghost_frame option"

definition new_acc :: "nat option \<Rightarrow> ghost_acc" where
  "new_acc ghostVersion = \<lparr>ga_notes = new_notes ghostVersion, ga_speeds = new_speeds, ga_distances = new_distances, ga_times = new_times,
     ga_frameCount = 0, ga_previous = None\<rparr>"

definition frame_valid :: "ghost_frame \<Rightarrow> bool" where
  "frame_valid f \<longleftrightarrow> is_finite (fr_time f) \<and> vector_finite (fr_position f)"

definition add_segment :: "ghost_math \<Rightarrow> nat option \<Rightarrow> segment \<Rightarrow> ghost_acc \<Rightarrow> ghost_acc" where
  "add_segment m ghostVersion seg a =
     a\<lparr>ga_distances := add_distances m ghostVersion seg (ga_distances a), ga_speeds := add_speeds m seg (ga_speeds a),
       ga_times := add_times ghostVersion seg (ga_times a)\<rparr>"

definition stats_step :: "ghost_math \<Rightarrow> nat option \<Rightarrow> ghost_acc \<Rightarrow> ghost_frame \<Rightarrow> js_error + ghost_acc" where
  "stats_step m ghostVersion a frame =
     (let a1 = a\<lparr>ga_frameCount := ga_frameCount a + 1\<rparr> in
      res_bind (assertGhostFrameCount (int (ga_frameCount a1))) (\<lambda>_.
      if \<not> frame_valid frame then Inl (Error ''Invalid ghost frame'')
      else
        let previous = ga_previous a;
            a2 = a1\<lparr>ga_notes := note_frame previous frame (ga_notes a), ga_speeds := note_speeds m frame (ga_speeds a)\<rparr> in
        Inr (case previous of
            None \<Rightarrow> a2\<lparr>ga_previous := Some frame\<rparr>
          | Some p \<Rightarrow>
              if \<not> seg_timed (p, frame) then a2\<lparr>ga_previous := Some frame\<rparr>
              else (add_segment m ghostVersion (p, frame) a2)\<lparr>ga_previous := Some frame\<rparr>)))"

fun stats_loop :: "ghost_math \<Rightarrow> nat option \<Rightarrow> ghost_acc \<Rightarrow> ghost_frame list \<Rightarrow> js_error + ghost_acc" where
  "stats_loop m ghostVersion a [] = Inr a"
| "stats_loop m ghostVersion a (f # fs) = res_bind (stats_step m ghostVersion a f) (\<lambda>a'. stats_loop m ghostVersion a' fs)"

text \<open>\<open>condition ? x : null\<close>, and the average of a weighted sum.\<close>

definition when_has :: "bool \<Rightarrow> 'a \<Rightarrow> 'a option" where
  "when_has condition x = (if condition then Some x else None)"

definition average :: "js_number \<Rightarrow> js_number \<Rightarrow> js_number option" where
  "average time weighted = when_has (js_lt 0 time) (js_div weighted time)"

definition statistics_of :: "nat option \<Rightarrow> ghost_acc \<Rightarrow> ghost_statistics" where
  "statistics_of ghostVersion a =
     (let n = ga_notes a; s = ga_speeds a; d = ga_distances a; t = ga_times a in
      \<lparr>gs_ghostVersion = ghostVersion, gs_hasInputData = gn_hasInputStats n, gs_hasAirData = gn_hasAirStats n,
       gs_hasWheelData = gn_hasWheelStats n, gs_hasSlipData = gn_hasSlipStats n, gs_hasStateData = gn_hasStateStats n,
       gs_hasSurfaceData = gn_hasSurfaceStats n, gs_hasVelocityData = gn_hasVelocityStats n,
       gs_hasRagdollData = gn_hasRagdollStats n, gs_frameCount = Some (ga_frameCount a),
       gs_time = (case ga_previous a of Some p \<Rightarrow> when_has (is_finite (fr_time p)) (fr_time p) | None \<Rightarrow> None),
       gs_distance = Some (gd_totalDistance d), gs_distanceInAir = when_has (gn_hasAirStats n) (gd_distanceInAir d),
       gs_distanceOnGround = when_has (gn_hasAirStats n) (gd_distanceOnGround d),
       gs_distanceOn1Wheel = when_has (gn_hasWheelStats n) (gd_distanceOnWheels d 1),
       gs_distanceOn2Wheels = when_has (gn_hasWheelStats n) (gd_distanceOnWheels d 2),
       gs_distanceOn3Wheels = when_has (gn_hasWheelStats n) (gd_distanceOnWheels d 3),
       gs_distanceOn4Wheels = when_has (gn_hasWheelStats n) (gd_distanceOnWheels d 4),
       gs_timeInAir = when_has (gn_hasAirStats n) (gt_timeInAir t),
       gs_timeOnGround = when_has (gn_hasAirStats n) (gt_timeOnGround t),
       gs_timeOn1Wheel = when_has (gn_hasWheelStats n) (gt_timeOnWheels t 1),
       gs_timeOn2Wheels = when_has (gn_hasWheelStats n) (gt_timeOnWheels t 2),
       gs_timeOn3Wheels = when_has (gn_hasWheelStats n) (gt_timeOnWheels t 3),
       gs_timeOn4Wheels = when_has (gn_hasWheelStats n) (gt_timeOnWheels t 4),
       gs_averageSpeed = average (gp_speedTime s) (gp_speedWeighted s), gs_maxSpeed = gp_maxSpeed s,
       gs_armsUpCount = when_has (gn_hasInputStats n) (gn_armsUpCount n),
       gs_armsUpTime = when_has (gn_hasInputStats n) (gt_armsUpTime t),
       gs_brakeCount = when_has (gn_hasInputStats n) (gn_brakeCount n),
       gs_brakeTime = when_has (gn_hasInputStats n) (gt_brakeTime t),
       gs_turnLeftCount = when_has (gn_hasInputStats n) (gn_turnLeftCount n),
       gs_turnLeftTime = when_has (gn_hasInputStats n) (gt_turnLeftTime t),
       gs_turnRightCount = when_has (gn_hasInputStats n) (gn_turnRightCount n),
       gs_turnRightTime = when_has (gn_hasInputStats n) (gt_turnRightTime t),
       gs_hornCount = when_has (gn_hasHornStats n) (gn_hornCount n), gs_hornTime = when_has (gn_hasHornStats n) (gt_hornTime t),
       gs_distanceSlipping = when_has (gn_hasSlipStats n) (gd_distanceSlipping d),
       gs_distanceParaglider = when_has (gn_hasStateStats n) (gd_distanceParaglider d),
       gs_distanceOffroadWheels = when_has (gn_hasStateStats n) (gd_distanceOffroadWheels d),
       gs_distanceSoapWheels = when_has (gn_hasStateStats n) (gd_distanceSoapWheels d),
       gs_distanceOnMonorail = when_has (gn_hasMonorailStats n) (gd_distanceOnMonorail d),
       gs_distanceParked = when_has (gn_hasParkingStats n) (gd_distanceParked d),
       gs_distanceRagdoll = when_has (gn_hasRagdollStats n) (gd_distanceRagdoll d),
       gs_timeSlipping = when_has (gn_hasSlipStats n) (gt_timeSlipping t),
       gs_timeParaglider = when_has (gn_hasStateStats n) (gt_timeParaglider t),
       gs_timeOffroadWheels = when_has (gn_hasStateStats n) (gt_timeOffroadWheels t),
       gs_timeSoapWheels = when_has (gn_hasStateStats n) (gt_timeSoapWheels t),
       gs_timeOnMonorail = when_has (gn_hasMonorailStats n) (gt_timeOnMonorail t),
       gs_timeParked = when_has (gn_hasParkingStats n) (gt_timeParked t),
       gs_timeRagdoll = when_has (gn_hasRagdollStats n) (gt_timeRagdoll t),
       gs_distanceOnUnknown = when_has (version_from 7 ghostVersion \<and> gn_hasAirStats n) (gd_distanceOnUnknown d),
       gs_timeOnUnknown = when_has (version_from 7 ghostVersion \<and> gn_hasAirStats n) (gt_timeOnUnknown t),
       gs_distanceOnTarmac = when_has (gn_hasSurfaceStats n) (gd_surfaceDistance d Tarmac),
       gs_distanceOnGrass = when_has (gn_hasSurfaceStats n) (gd_surfaceDistance d Grass),
       gs_distanceOnSand = when_has (gn_hasSurfaceStats n) (gd_surfaceDistance d Sand),
       gs_distanceOnSoap = when_has (gn_hasSurfaceStats n) (gd_surfaceDistance d Soap),
       gs_distanceOnWood = when_has (gn_hasSurfaceStats n) (gd_surfaceDistance d Wood),
       gs_distanceOnMud = when_has (gn_hasSurfaceStats n) (gd_surfaceDistance d Mud),
       gs_distanceOnIce1 = when_has (gn_hasSurfaceStats n) (gd_surfaceDistance d Ice1),
       gs_distanceOnIce2 = when_has (gn_hasSurfaceStats n) (gd_surfaceDistance d Ice2),
       gs_distanceOnIce3 = when_has (gn_hasSurfaceStats n) (gd_surfaceDistance d Ice3),
       gs_timeOnTarmac = when_has (gn_hasSurfaceStats n) (gt_surfaceTime t Tarmac),
       gs_timeOnGrass = when_has (gn_hasSurfaceStats n) (gt_surfaceTime t Grass),
       gs_timeOnSand = when_has (gn_hasSurfaceStats n) (gt_surfaceTime t Sand),
       gs_timeOnSoap = when_has (gn_hasSurfaceStats n) (gt_surfaceTime t Soap),
       gs_timeOnWood = when_has (gn_hasSurfaceStats n) (gt_surfaceTime t Wood),
       gs_timeOnMud = when_has (gn_hasSurfaceStats n) (gt_surfaceTime t Mud),
       gs_timeOnIce1 = when_has (gn_hasSurfaceStats n) (gt_surfaceTime t Ice1),
       gs_timeOnIce2 = when_has (gn_hasSurfaceStats n) (gt_surfaceTime t Ice2),
       gs_timeOnIce3 = when_has (gn_hasSurfaceStats n) (gt_surfaceTime t Ice3),
       gs_averageVelocity = average (gp_velocityTime s) (gp_velocityWeighted s), gs_maxVelocity = gp_maxVelocity s,
       gs_averageAngularVelocity = average (gp_angularVelocityTime s) (gp_angularVelocityWeighted s),
       gs_maxAngularVelocity = gp_maxAngularVelocity s, gs_averageGforce = average (gp_gforceTime s) (gp_gforceWeighted s),
       gs_maxGforce = gp_maxGforce s, gs_timeAnyDriverInput = when_has (gn_hasInputStats n) (gt_timeAnyDriverInput t),
       gs_driverInputTransitionCount = when_has (gn_hasInputStats n)
        (gn_armsUpCount n + gn_brakeCount n + gn_turnLeftCount n + gn_turnRightCount n)\<rparr>)"

definition calculateGhostStatisticsFromIterable :: "ghost_math \<Rightarrow> frame_stream \<Rightarrow> nat option \<Rightarrow> js_error + ghost_statistics" where
  "calculateGhostStatisticsFromIterable m frames ghostVersion =
     res_bind (stats_loop m ghostVersion (new_acc ghostVersion) (fst frames)) (\<lambda>a.
       case snd frames of
         Some e \<Rightarrow> Inl e
       | None \<Rightarrow> Inr (if ga_frameCount a = 0 then emptyGhostStatistics (Some 0) ghostVersion else statistics_of ghostVersion a))"

definition calculateGhostStatistics :: "ghost_math \<Rightarrow> ghost_frame list \<Rightarrow> nat option \<Rightarrow> js_error + ghost_statistics" where
  "calculateGhostStatistics m frames ghostVersion = calculateGhostStatisticsFromIterable m (frames, None) ghostVersion"

end
