(* ===== verification/Ghost_Reference.thy ===== *)
theory Ghost_Reference
  imports Ghost_Statistics
begin

text \<open>
  The statistics of a ghost without a loop: conditions on frames, counts of transitions, sums over the timed segments and
  maxima, each by itself; and the proof that the loop of \<open>calculateGhostStatisticsFromIterable\<close> arrives at them.
\<close>

section \<open>Visits and segments\<close>

text \<open>Every frame with the one before it, and the segments that have a duration.\<close>

definition visits :: "ghost_frame list \<Rightarrow> (ghost_frame option \<times> ghost_frame) list" where
  "visits fs = zip (None # map Some fs) fs"

definition segment_of :: "ghost_frame option \<times> ghost_frame \<Rightarrow> segment list" where
  "segment_of visit =
     (case visit of
        (Some p, f) \<Rightarrow> if seg_timed (p, f) then [(p, f)] else []
      | (None, f) \<Rightarrow> [])"

definition segments :: "ghost_frame list \<Rightarrow> segment list" where
  "segments fs = concat (map segment_of (visits fs))"

definition last_frame :: "ghost_frame list \<Rightarrow> ghost_frame option" where
  "last_frame fs = (if fs = [] then None else Some (last fs))"

lemma visits_snoc: "visits (fs @ [f]) = visits fs @ [(last_frame fs, f)]"
proof (cases fs rule: rev_cases)
  case Nil
  then show ?thesis by (simp add: visits_def last_frame_def)
next
  case (snoc gs g)
  have "zip (None # map Some (fs @ [f])) (fs @ [f]) = zip ((None # map Some gs) @ [Some g, Some f]) (fs @ [f])"
    using snoc by simp
  also have "\<dots> = zip (None # map Some gs) fs @ zip [Some g, Some f] [f]"
    using snoc by (subst zip_append) simp_all
  also have "zip (None # map Some gs) fs = zip (None # map Some fs) fs"
    using snoc zip_append1 [of "None # map Some gs" "[Some g]" fs] by simp
  finally show ?thesis
    using snoc by (simp add: visits_def last_frame_def)
qed

lemma visits_Nil [simp]: "visits [] = []" "segments [] = []"
  by (simp_all add: visits_def segments_def)

lemma segments_snoc: "segments (fs @ [f]) = segments fs @ segment_of (last_frame fs, f)"
  by (simp add: segments_def visits_snoc)

section \<open>Sums, maxima and counts\<close>

definition js_sum :: "js_number list \<Rightarrow> js_number" where
  "js_sum xs = foldl js_add 0 xs"

definition js_maximum :: "js_number list \<Rightarrow> js_number option" where
  "js_maximum xs = foldl (\<lambda>m x. Some (maxValue m x)) None xs"

definition sum_over :: "('a \<Rightarrow> bool) \<Rightarrow> ('a \<Rightarrow> js_number) \<Rightarrow> 'a list \<Rightarrow> js_number" where
  "sum_over P v xs = js_sum (map v (filter P xs))"

definition count_over :: "('a \<Rightarrow> bool) \<Rightarrow> 'a list \<Rightarrow> nat" where
  "count_over P xs = length (filter P xs)"

text \<open>The share of every surface: what a segment counts for, split over the surfaces it starts on.\<close>

definition surface_shares :: "(segment \<Rightarrow> js_number) \<Rightarrow> known_surface \<Rightarrow> segment \<Rightarrow> js_number list" where
  "surface_shares v k seg =
     (let surfaces = getFrameSurfaces (fst seg) in
      map (\<lambda>_. js_div (v seg) (js_of_nat (length surfaces))) (filter (\<lambda>s. s = k) surfaces))"

definition sum_surface :: "(segment \<Rightarrow> bool) \<Rightarrow> (segment \<Rightarrow> js_number) \<Rightarrow> known_surface \<Rightarrow> segment list \<Rightarrow> js_number" where
  "sum_surface P v k segs = js_sum (concat (map (surface_shares v k) (filter P segs)))"

lemma js_sum_snoc [simp]: "js_sum [] = 0" "js_sum (xs @ [x]) = js_add (js_sum xs) x"
  by (simp_all add: js_sum_def)

lemma over_Nil [simp]: "sum_over P v [] = 0" "count_over Q [] = 0" "sum_surface R w k [] = 0" "js_maximum [] = None"
  by (simp_all add: sum_over_def count_over_def sum_surface_def js_maximum_def)

lemma sum_over_snoc [simp]: "sum_over P v (xs @ [x]) = add_if (P x) (v x) (sum_over P v xs)"
  by (simp add: sum_over_def add_if_def)

lemma count_over_snoc [simp]: "count_over (\<lambda>(p, f). A f \<and> \<not> before A p) (xs @ [(p, f)])
    = addTransition (A f) (before A p) (count_over (\<lambda>(p, f). A f \<and> \<not> before A p) xs)"
  by (simp add: count_over_def addTransition_def)

lemma add_if_simps [simp]: "add_if True v x = js_add x v" "add_if False v x = x"
  by (simp_all add: add_if_def)

lemma js_maximum_snoc: "js_maximum (xs @ [x]) = Some (maxValue (js_maximum xs) x)"
  by (simp add: js_maximum_def)

lemma max_if_set [simp]: "max_if v (js_maximum xs) = js_maximum (xs @ (case v of Some x \<Rightarrow> [x] | None \<Rightarrow> []))"
  by (simp add: max_if_def js_maximum_snoc split: option.splits)

text \<open>The wheel counters.\<close>

lemma add_wheels_if: "add_wheels w k v = (\<lambda>n. add_if (isWheelCount n \<and> k = n) v (w n))"
  by (rule ext) (simp add: add_wheels_def add_if_def)

lemma surfaces_fold: "foldl (\<lambda>t s. t(s := js_add (t s) v)) target ss k = foldl js_add (target k) (map (\<lambda>_. v) (filter (\<lambda>s. s = k) ss))"
  by (induction ss arbitrary: target) simp_all

lemma sum_surface_snoc [simp]:
  "sum_surface P v k (xs @ [x])
    = (if P x then addSegmentToSurfaces (\<lambda>k. sum_surface P v k xs) (getFrameSurfaces (fst x)) (v x) k else sum_surface P v k xs)"
  by (simp add: sum_surface_def js_sum_def surface_shares_def addSegmentToSurfaces_def surfaces_fold Let_def)

section \<open>The reference\<close>

definition notes_of :: "nat option \<Rightarrow> ghost_frame list \<Rightarrow> ghost_notes" where
  "notes_of version fs =
     (let some = (\<lambda>P. list_ex P fs); transitions = (\<lambda>A. count_over (\<lambda>(p, f). A f \<and> \<not> before A p) (visits fs)) in
      \<lparr>gn_hasInputStats = some (\<lambda>f. fr_steering f \<noteq> None \<or> fr_armsUp f \<noteq> None \<or> fr_braking f \<noteq> None),
       gn_hasHornStats = some (\<lambda>f. fr_horn f \<noteq> None),
       gn_hasStateStats = some hasFrameState,
       gn_hasAirStats = some (\<lambda>f. fr_groundedWheelState f \<noteq> None),
       gn_hasWheelStats = some (\<lambda>f. fr_groundedWheelState f \<noteq> None),
       gn_hasSlipStats = (version_from 6 version \<or> some (\<lambda>f. fr_slippingWheelState f \<noteq> None)),
       gn_hasSurfaceStats = (version_from 6 version \<or> some has_surfaces),
       gn_hasParkingStats = some (\<lambda>f. fr_parkingBlock f \<noteq> None),
       gn_hasMonorailStats = some (\<lambda>f. fr_monorail f \<noteq> None),
       gn_hasRagdollStats = (version_from 6 version \<or> some (\<lambda>f. fr_ragdoll f \<noteq> None)),
       gn_hasVelocityStats = some (\<lambda>f. fr_localVelocity f \<noteq> None \<or> fr_localAngularVelocity f \<noteq> None \<or> fr_localGForce f \<noteq> None),
       gn_armsUpCount = transitions (\<lambda>f. truthy (fr_armsUp f)),
       gn_brakeCount = transitions (\<lambda>f. truthy (fr_braking f)),
       gn_hornCount = transitions (\<lambda>f. truthy (fr_horn f)),
       gn_turnLeftCount = transitions turning_left,
       gn_turnRightCount = transitions turning_right\<rparr>)"

text \<open>What a visit contributes to a maximum: the frame's own value, then the value of the frame the segment starts with.\<close>

definition readings :: "(ghost_frame \<Rightarrow> js_number option) \<Rightarrow> (segment \<Rightarrow> js_number option) \<Rightarrow> ghost_frame list \<Rightarrow> js_number list" where
  "readings own seg fs = List.map_filter id (concat (map (\<lambda>visit. own (snd visit) # map seg (segment_of visit)) (visits fs)))"

definition weighted_time :: "(segment \<Rightarrow> js_number option) \<Rightarrow> segment list \<Rightarrow> js_number" where
  "weighted_time value segs = sum_over (\<lambda>s. value s \<noteq> None) seg_dt segs"

definition weighted_sum :: "(segment \<Rightarrow> js_number option) \<Rightarrow> segment list \<Rightarrow> js_number" where
  "weighted_sum value segs = sum_over (\<lambda>s. value s \<noteq> None) (\<lambda>s. js_mul (the (value s)) (seg_dt s)) segs"

definition speed_reading :: "ghost_math \<Rightarrow> segment \<Rightarrow> js_number option" where
  "speed_reading m seg = capped (seg_speed m seg)"

definition velocity_reading :: "ghost_math \<Rightarrow> ghost_frame \<Rightarrow> js_number option" where
  "velocity_reading m f = finite_magnitude (magnitude3 m) (fr_localVelocity f)"

definition angular_reading :: "ghost_math \<Rightarrow> ghost_frame \<Rightarrow> js_number option" where
  "angular_reading m f = finite_magnitude (magnitude3 m) (fr_localAngularVelocity f)"

definition gforce_reading :: "ghost_math \<Rightarrow> ghost_frame \<Rightarrow> js_number option" where
  "gforce_reading m f = finite_magnitude (magnitude2 m) (fr_localGForce f)"

definition speeds_of :: "ghost_math \<Rightarrow> ghost_frame list \<Rightarrow> ghost_speeds" where
  "speeds_of m fs =
     (let velocity = (\<lambda>s. velocity_reading m (fst s)); angular = (\<lambda>s. angular_reading m (fst s)); gforce = (\<lambda>s. gforce_reading m (fst s)) in
      \<lparr>gp_speedTime = weighted_time (speed_reading m) (segments fs), gp_speedWeighted = weighted_sum (speed_reading m) (segments fs),
       gp_maxSpeed = js_maximum (readings (\<lambda>f. Option.bind (fr_speed f) capped) (speed_reading m) fs),
       gp_velocityTime = weighted_time velocity (segments fs), gp_velocityWeighted = weighted_sum velocity (segments fs),
       gp_maxVelocity = js_maximum (readings (velocity_reading m) velocity fs),
       gp_angularVelocityTime = weighted_time angular (segments fs), gp_angularVelocityWeighted = weighted_sum angular (segments fs),
       gp_maxAngularVelocity = js_maximum (readings (angular_reading m) angular fs),
       gp_gforceTime = weighted_time gforce (segments fs), gp_gforceWeighted = weighted_sum gforce (segments fs),
       gp_maxGforce = js_maximum (readings (gforce_reading m) gforce fs)\<rparr>)"

definition distances_of :: "ghost_math \<Rightarrow> nat option \<Rightarrow> segment list \<Rightarrow> ghost_distances" where
  "distances_of m version segs =
     (let valid = (\<lambda>P. sum_over (\<lambda>s. seg_valid m s \<and> P (fst s)) (seg_distance m) segs) in
      \<lparr>gd_totalDistance = valid (\<lambda>_. True), gd_distanceInAir = valid in_air, gd_distanceOnGround = valid on_ground,
       gd_distanceOnWheels = (\<lambda>n. sum_over (\<lambda>s. seg_valid m s \<and> isWheelCount n \<and> countBits (fr_groundedWheelState (fst s)) = n)
         (seg_distance m) segs),
       gd_distanceSlipping = valid slipping, gd_distanceParaglider = valid (\<lambda>f. truthy (fr_paraglider f)),
       gd_distanceOffroadWheels = valid (\<lambda>f. truthy (fr_offroad f)), gd_distanceSoapWheels = valid (\<lambda>f. truthy (fr_soap f)),
       gd_distanceOnMonorail = valid (\<lambda>f. truthy (fr_monorail f)), gd_distanceParked = valid (\<lambda>f. truthy (fr_parkingBlock f)),
       gd_distanceRagdoll = sum_over (seg_ragdoll m) (seg_ragdollDistance m) segs,
       gd_distanceOnUnknown = valid (unknown_surface version),
       gd_surfaceDistance = (\<lambda>k. sum_surface (seg_valid m) (seg_distance m) k segs)\<rparr>)"

definition times_of :: "nat option \<Rightarrow> segment list \<Rightarrow> ghost_times" where
  "times_of version segs =
     (let spent = (\<lambda>P. sum_over (\<lambda>s. P (fst s)) seg_dt segs) in
      \<lparr>gt_armsUpTime = spent (\<lambda>f. truthy (fr_armsUp f)), gt_brakeTime = spent (\<lambda>f. truthy (fr_braking f)),
       gt_hornTime = spent (\<lambda>f. truthy (fr_horn f)), gt_timeAnyDriverInput = spent hasAnyDriverInput,
       gt_turnLeftTime = spent turning_left, gt_turnRightTime = spent turning_right,
       gt_timeInAir = spent in_air, gt_timeOnGround = spent on_ground,
       gt_timeOnWheels = (\<lambda>n. sum_over (\<lambda>s. isWheelCount n \<and> countBits (fr_groundedWheelState (fst s)) = n) seg_dt segs),
       gt_timeSlipping = spent slipping, gt_timeParaglider = spent (\<lambda>f. truthy (fr_paraglider f)),
       gt_timeOffroadWheels = spent (\<lambda>f. truthy (fr_offroad f)), gt_timeSoapWheels = spent (\<lambda>f. truthy (fr_soap f)),
       gt_timeOnMonorail = spent (\<lambda>f. truthy (fr_monorail f)), gt_timeParked = spent (\<lambda>f. truthy (fr_parkingBlock f)),
       gt_timeRagdoll = spent (\<lambda>f. truthy (fr_ragdoll f)),
       gt_surfaceTime = (\<lambda>k. sum_surface (\<lambda>_. True) seg_dt k segs),
       gt_timeOnUnknown = spent (unknown_surface version)\<rparr>)"

definition acc_of :: "ghost_math \<Rightarrow> nat option \<Rightarrow> ghost_frame list \<Rightarrow> ghost_acc" where
  "acc_of m version fs = \<lparr>ga_notes = notes_of version fs, ga_speeds = speeds_of m fs, ga_distances = distances_of m version (segments fs),
     ga_times = times_of version (segments fs), ga_frameCount = length fs, ga_previous = last_frame fs\<rparr>"

section \<open>The loop arrives at the reference\<close>

lemma times_of_snoc: "times_of version (segs @ [s]) = add_times version s (times_of version segs)"
  by (simp add: times_of_def add_times_def Let_def add_wheels_if)

lemma distances_of_snoc: "distances_of m version (segs @ [s]) = add_distances m version s (distances_of m version segs)"
  by (simp add: distances_of_def add_distances_def add_valid_distances_def Let_def add_wheels_if)

lemma notes_of_snoc: "notes_of version (fs @ [f]) = note_frame (last_frame fs) f (notes_of version fs)"
  by (simp add: notes_of_def note_frame_def Let_def visits_snoc)

lemma readings_snoc:
  "readings own seg (fs @ [f])
    = (readings own seg fs @ (case own f of Some x \<Rightarrow> [x] | None \<Rightarrow> []))
      @ (case segment_of (last_frame fs, f) of [] \<Rightarrow> [] | s # _ \<Rightarrow> (case seg s of Some x \<Rightarrow> [x] | None \<Rightarrow> []))"
  by (simp add: readings_def visits_snoc List.map_filter_def segment_of_def split: option.splits)

lemma weighted_snoc:
  "weighted_time value (segs @ [s]) = add_if (value s \<noteq> None) (seg_dt s) (weighted_time value segs)"
  "weighted_sum value (segs @ [s]) = weigh (value s) (seg_dt s) (weighted_sum value segs)"
  by (simp_all add: weighted_time_def weighted_sum_def weigh_def split: option.splits)

lemma speeds_of_still: "segment_of (last_frame fs, f) = [] \<Longrightarrow> speeds_of m (fs @ [f]) = note_speeds m f (speeds_of m fs)"
  by (simp add: speeds_of_def note_speeds_def Let_def readings_snoc segments_snoc velocity_reading_def angular_reading_def gforce_reading_def)

lemma speeds_of_moved:
  "segment_of (last_frame fs, f) = [s] \<Longrightarrow> speeds_of m (fs @ [f]) = add_speeds m s (note_speeds m f (speeds_of m fs))"
  by (simp add: speeds_of_def note_speeds_def add_speeds_def Let_def readings_snoc segments_snoc weighted_snoc velocity_reading_def
      angular_reading_def gforce_reading_def speed_reading_def)

lemma last_frame_snoc [simp]: "last_frame (fs @ [f]) = Some f"
  by (simp add: last_frame_def)

lemma stats_step_of:
  "stats_step m version (acc_of m version fs) f =
     (if length fs \<ge> max_ghost_frames then Inl (Error ''Ghost exceeds 120000 frames'')
      else if \<not> frame_valid f then Inl (Error ''Invalid ghost frame'')
      else Inr (acc_of m version (fs @ [f])))"
proof -
  have limit: "assertGhostFrameCount (1 + int (length fs)) =
      (if length fs \<ge> max_ghost_frames then Inl (Error ''Ghost exceeds 120000 frames'') else Inr ())"
    by (simp add: assertGhostFrameCount_def)
  show ?thesis
  proof (cases "segment_of (last_frame fs, f)")
    case Nil
    then have still: "case last_frame fs of None \<Rightarrow> True | Some p \<Rightarrow> \<not> seg_timed (p, f)"
      by (simp add: segment_of_def split: option.splits if_splits)
    have "acc_of m version (fs @ [f]) = (acc_of m version fs)\<lparr>ga_frameCount := length fs + 1,
        ga_notes := note_frame (last_frame fs) f (notes_of version fs), ga_speeds := note_speeds m f (speeds_of m fs), ga_previous := Some f\<rparr>"
      using Nil by (simp add: acc_of_def notes_of_snoc speeds_of_still segments_snoc)
    with still show ?thesis
      by (simp add: stats_step_def Let_def limit acc_of_def split: option.splits)
  next
    case (Cons s ss)
    then obtain p where p: "last_frame fs = Some p" "seg_timed (p, f)" "s = (p, f)" "ss = []"
      by (auto simp: segment_of_def split: option.splits if_splits)
    have "acc_of m version (fs @ [f]) = (add_segment m version (p, f) ((acc_of m version fs)\<lparr>ga_frameCount := length fs + 1,
        ga_notes := note_frame (last_frame fs) f (notes_of version fs), ga_speeds := note_speeds m f (speeds_of m fs)\<rparr>))\<lparr>ga_previous := Some f\<rparr>"
      using Cons p by (simp add: acc_of_def add_segment_def notes_of_snoc speeds_of_moved segments_snoc times_of_snoc distances_of_snoc)
    with p show ?thesis
      by (simp add: stats_step_def Let_def limit acc_of_def)
  qed
qed

lemma stats_loop_snoc: "stats_loop m version a (fs @ [f]) = res_bind (stats_loop m version a fs) (\<lambda>a'. stats_step m version a' f)"
proof (induction fs arbitrary: a)
  case Nil
  show ?case by (cases "stats_step m version a f") simp_all
next
  case (Cons g fs)
  then show ?case by (cases "stats_step m version a g") simp_all
qed

lemma acc_of_Nil: "acc_of m version [] = new_acc version"
  by (simp add: acc_of_def new_acc_def notes_of_def new_notes_def speeds_of_def new_speeds_def distances_of_def new_distances_def
      times_of_def new_times_def weighted_time_def weighted_sum_def readings_def List.map_filter_def last_frame_def Let_def)

text \<open>An invalid frame is noticed before the limit, unless the limit comes first.\<close>

definition stats_error :: "ghost_frame list \<Rightarrow> js_error option" where
  "stats_error fs =
     (if \<not> list_all frame_valid (take max_ghost_frames fs) then Some (Error ''Invalid ghost frame'')
      else if max_ghost_frames < length fs then Some (Error ''Ghost exceeds 120000 frames'')
      else None)"

lemma stats_loop_of:
  "stats_loop m version (new_acc version) fs = (case stats_error fs of Some e \<Rightarrow> Inl e | None \<Rightarrow> Inr (acc_of m version fs))"
proof (induction fs rule: rev_induct)
  case Nil
  show ?case by (simp add: stats_error_def acc_of_Nil)
next
  case (snoc f fs)
  show ?case
  proof (cases "stats_error fs")
    case None
    then show ?thesis
      by (auto simp: stats_loop_snoc snoc stats_step_of stats_error_def split: if_splits)
  next
    case (Some e)
    then have "stats_error (fs @ [f]) = Some e"
      by (auto simp: stats_error_def split: if_splits)
    with Some show ?thesis
      by (simp add: stats_loop_snoc snoc)
  qed
qed

end
