(* ===== verification/Ghost_Parser.thy ===== *)
theory Ghost_Parser
  imports Ghost_Reference
begin

text \<open>
  Parsing any ghost (\<open>index.ts\<close>, \<open>compression.ts\<close>, \<open>protobufNative.ts\<close>), and the parser of the browser (\<open>browser.ts\<close>).

  What is not in the repository is, on the server, \<open>ghost_env\<close>: the functions of \<open>Math\<close>, the chunks a gzip \<open>DecompressionStream\<close>
  delivers for a buffer, with the error it ends in, if any, and LZMA decompression (\<open>@napi-rs/lzma\<close>) and the protobuf
  decoder, which give a result or throw. A browser has its own, \<open>browser_env\<close>, where the stream may be missing, and LZMA comes from the caller
  (\<open>browser_options\<close>). A promise that is awaited is its outcome.
\<close>

record ghost_env =
  ge_math :: ghost_math
  ge_gunzip :: "byte list \<Rightarrow> byte list list \<times> js_error option"
  ge_lzma :: "byte list \<Rightarrow> js_error + byte list"
  ge_decode :: "byte list \<Rightarrow> js_error + proto_ghost"

record browser_env =
  be_math :: ghost_math
  be_stream :: "(byte list \<Rightarrow> byte list list \<times> js_error option) option"
  be_decode :: "byte list \<Rightarrow> js_error + proto_ghost"

record browser_options =
  bo_decompressLzma :: "byte list \<Rightarrow> js_error + byte list"
  bo_decompressGzip :: "(byte list \<Rightarrow> js_error + byte list) option"

section \<open>Decompression\<close>

text \<open>The chunks are read and checked one by one; \<open>read\<close> is what has been written to the sink.\<close>

fun read_chunks :: "(nat \<Rightarrow> js_error + unit) \<Rightarrow> byte list \<Rightarrow> byte list list \<Rightarrow> js_error option \<Rightarrow> js_error + byte list" where
  "read_chunks check read [] failure = (case failure of Some e \<Rightarrow> Inl e | None \<Rightarrow> Inr read)"
| "read_chunks check read (c # cs) failure =
     res_bind (check (length read + length c)) (\<lambda>_. read_chunks check (read @ c) cs failure)"

definition decompressGhostPayload :: "ghost_env \<Rightarrow> byte list \<Rightarrow> js_error + byte list" where
  "decompressGhostPayload env buffer =
     res_bind (assertGhostCompressedSize (length buffer)) (\<lambda>_.
     if \<not> isGzip buffer then res_map (\<lambda>_. buffer) (assertGhostDecompressedSize (length buffer))
     else case ge_gunzip env buffer of (chunks, failure) \<Rightarrow> read_chunks assertGhostDecompressedSize [] chunks failure)"

definition decodeNativeProtobufGhost :: "ghost_env \<Rightarrow> byte list \<Rightarrow> js_error + proto_ghost" where
  "decodeNativeProtobufGhost env buffer =
     res_bind (assertGhostCompressedSize (length buffer)) (\<lambda>_.
     res_bind (ge_lzma env buffer) (\<lambda>decompressed.
     res_bind (assertGhostDecompressedSize (length decompressed)) (\<lambda>_.
     ge_decode env decompressed)))"

definition parseV5 :: "ghost_env \<Rightarrow> byte list \<Rightarrow> js_error + parsed_ghost" where
  "parseV5 env buffer = res_bind (decodeNativeProtobufGhost env buffer) (parseDecodedV5 (ge_math env))"

definition parseV6 :: "ghost_env \<Rightarrow> byte list \<Rightarrow> js_error + parsed_ghost" where
  "parseV6 env buffer = res_bind (decodeNativeProtobufGhost env buffer) (parseDecodedV6 (ge_math env))"

definition parseV7 :: "ghost_env \<Rightarrow> byte list \<Rightarrow> js_error + parsed_ghost" where
  "parseV7 env buffer = res_bind (decodeNativeProtobufGhost env buffer) (parseDecodedV7 (ge_math env))"

section \<open>The server's parser\<close>

definition payload_version :: "byte list \<Rightarrow> int" where
  "payload_version payload = (if 4 \<le> length payload then int32_at payload 0 else 0)"

definition parseLegacyGhost :: "ghost_math \<Rightarrow> byte list \<Rightarrow> int \<Rightarrow> js_error + parsed_ghost" where
  "parseLegacyGhost m payload version =
     (if version = 1 then parseV1 m payload
      else if version = 2 then parseV2 m payload
      else if version = 3 then parseV3 m payload
      else if version = 4 then parseV4 m payload
      else Inl (Error (''Unsupported legacy ghost version '' @ show_int version)))"

datatype ghost_source = Legacy_Source parsed_ghost | Protobuf_Source proto_ghost nat

definition decodeGhostSource :: "ghost_env \<Rightarrow> byte list \<Rightarrow> js_error + ghost_source" where
  "decodeGhostSource env buffer =
     res_bind (assertGhostCompressedSize (length buffer)) (\<lambda>_.
     res_bind (decompressGhostPayload env buffer) (\<lambda>payload.
     let version = payload_version payload in
     if 1 \<le> version \<and> version \<le> 4 then res_map Legacy_Source (parseLegacyGhost (ge_math env) payload version)
     else
       res_bind (decodeNativeProtobufGhost env buffer) (\<lambda>ghost.
       if pb_version ghost \<in> {5, 6, 7, 8} then Inr (Protobuf_Source ghost (nat (pb_version ghost)))
       else Inl (unsupported_version (pb_version ghost)))))"

definition parseProtobufGhost :: "ghost_math \<Rightarrow> proto_ghost \<Rightarrow> nat \<Rightarrow> js_error + parsed_ghost" where
  "parseProtobufGhost m ghost version =
     (if version = 5 then parseDecodedV5 m ghost
      else if version = 6 then parseDecodedV6 m ghost
      else if version = 7 then parseDecodedV7 m ghost
      else parseDecodedV8 m ghost)"

definition parseGhost :: "ghost_env \<Rightarrow> byte list \<Rightarrow> js_error + parsed_ghost" where
  "parseGhost env buffer =
     res_bind (decodeGhostSource env buffer) (\<lambda>source.
       case source of
         Legacy_Source ghost \<Rightarrow> Inr ghost
       | Protobuf_Source ghost version \<Rightarrow> parseProtobufGhost (ge_math env) ghost version)"

definition parseGhostStatistics :: "ghost_env \<Rightarrow> byte list \<Rightarrow> js_error + ghost_statistics" where
  "parseGhostStatistics env buffer =
     res_bind (decodeGhostSource env buffer) (\<lambda>source.
       case source of
         Legacy_Source ghost \<Rightarrow> calculateGhostStatistics (ge_math env) (pg_frames ghost) (Some (pg_version ghost))
       | Protobuf_Source ghost version \<Rightarrow>
           calculateGhostStatisticsFromIterable (ge_math env) (iterateProtobufFrames (ge_math env) ghost) (Some version))"

section \<open>The browser's parser\<close>

definition browser_limit :: nat where
  "browser_limit = 256 * 1024 * 1024"

definition decompressGzipBrowser :: "browser_env \<Rightarrow> byte list \<Rightarrow> nat \<Rightarrow> js_error + byte list" where
  "decompressGzipBrowser w buffer maximumOutputBytes =
     (case be_stream w of
        None \<Rightarrow> Inl (Error ''Browser does not support gzip decompression'')
      | Some stream \<Rightarrow>
          (case stream buffer of (chunks, failure) \<Rightarrow>
             read_chunks (\<lambda>totalBytes. if maximumOutputBytes < totalBytes then Inl (Error ''Ghost replay exceeds decompression limit'') else Inr ())
               [] chunks failure))"

definition browser_legacy :: "ghost_math \<Rightarrow> byte list \<Rightarrow> int \<Rightarrow> (js_error + parsed_ghost) option" where
  "browser_legacy m buffer version =
     (if version = 1 then Some (parseV1 m buffer)
      else if version = 2 then Some (parseV2 m buffer)
      else if version = 3 then Some (parseV3 m buffer)
      else if version = 4 then Some (parseV4 m buffer)
      else None)"

definition parseGhostBrowser :: "browser_env \<Rightarrow> browser_options \<Rightarrow> byte list \<Rightarrow> js_error + parsed_ghost" where
  "parseGhostBrowser w options compressed =
     res_bind
       (if isGzip compressed
        then (case bo_decompressGzip options of Some d \<Rightarrow> d compressed | None \<Rightarrow> decompressGzipBrowser w compressed browser_limit)
        else Inr compressed) (\<lambda>payload.
     case browser_legacy (be_math w) payload (payload_version payload) of
       Some result \<Rightarrow> result
     | None \<Rightarrow>
         res_bind (bo_decompressLzma options compressed) (\<lambda>protobufPayload.
         res_bind (be_decode w protobufPayload) (\<lambda>decoded.
         if pb_version decoded = 5 then parseDecodedV5 (be_math w) decoded
         else if pb_version decoded = 6 then parseDecodedV6 (be_math w) decoded
         else if pb_version decoded = 7 then parseDecodedV7 (be_math w) decoded
         else if pb_version decoded = 8 then parseDecodedV8 (be_math w) decoded
         else Inl (unsupported_version (pb_version decoded)))))"

section \<open>Frames that were parsed are valid, and few enough\<close>

definition frames_good :: "ghost_frame list \<Rightarrow> bool" where
  "frames_good fs \<longleftrightarrow> list_all frame_valid fs \<and> length fs \<le> max_ghost_frames"

lemma good_no_error: "frames_good fs \<Longrightarrow> stats_error fs = None"
  by (auto simp: frames_good_def stats_error_def)

lemma count_ok: "assertGhostFrameCount n = Inr u \<longleftrightarrow> 0 \<le> n \<and> n \<le> int max_ghost_frames"
  by (auto simp: assertGhostFrameCount_def)

lemma lift_count: "br_lift (assertGhostFrameCount n) r = Inr (u, r') \<longleftrightarrow> 0 \<le> n \<and> n \<le> int max_ghost_frames \<and> r' = r"
  by (auto simp: br_lift_def res_map_Inr_iff count_ok)

lemma binary_frame_valid: "readBinaryFrame m version r = Inr (f, r') \<Longrightarrow> frame_valid f"
  by (auto simp: readBinaryFrame_def br_bind_Inr guard_Inr br_return_def Let_def frame_valid_def bare_frame_def split: if_splits)

lemma binary_frames_valid: "readBinaryFrames m version n r = Inr (fs, r') \<Longrightarrow> list_all frame_valid fs \<and> length fs = n"
proof (induction n arbitrary: r fs r')
  case 0
  then show ?case by (simp add: br_return_def)
next
  case (Suc n)
  then show ?case
    by (auto simp: br_bind_Inr br_return_def dest: binary_frame_valid)
qed

lemma binary_good: "readBinaryGhost m b version = Inr (md, fs) \<Longrightarrow> frames_good fs"
  by (auto simp: readBinaryGhost_def res_map_Inr_iff br_bind_Inr lift_count br_return_def frames_good_def dest!: binary_frames_valid)

lemma v4_frame_valid: "readV4Frame m full p r = Inr (f, r') \<Longrightarrow> frame_valid f"
  by (auto simp: readV4Frame_def br_bind_Inr guard_Inr br_return_def Let_def frame_valid_def bare_frame_def split: if_splits)

lemma v4_frames_valid: "readV4Frames m q i n p r = Inr (fs, r') \<Longrightarrow> list_all frame_valid fs \<and> length fs = n"
proof (induction n arbitrary: i p r fs r')
  case 0
  then show ?case by (simp add: br_return_def)
next
  case (Suc n)
  then obtain f gs r1 r2 where
    "readV4Frame m (i mod q = 0 \<or> n = 0 \<or> p = None) p r = Inr (f, r1)" "readV4Frames m q (Suc i) n (Some (fr_position f)) r1 = Inr (gs, r2)" "fs = f # gs"
    by (auto simp: br_bind_Inr br_return_def)
  with Suc.IH [OF this(2)] show ?case
    by (auto dest: v4_frame_valid)
qed

lemma v4_good: "readV4Ghost m b = Inr (md, fs) \<Longrightarrow> frames_good fs"
  by (auto simp: readV4Ghost_def res_map_Inr_iff br_bind_Inr guard_Inr lift_count br_return_def frames_good_def dest!: v4_frames_valid)

lemma legacy_good: "parseLegacyGhost m b version = Inr g \<Longrightarrow> frames_good (pg_frames g)"
  by (auto simp: parseLegacyGhost_def parseV1_def parseV2_def parseV3_def parseV4_def binary_ghost_def res_map_Inr_iff
      dest!: binary_good v4_good split: if_splits)

text \<open>Whatever a protobuf ghost yields before it fails is valid.\<close>

lemma proto_frame_valid: "frameFromProtobuf m t p src version r = Inr f \<Longrightarrow> frame_valid f"
  by (auto simp: frameFromProtobuf_def Let_def frame_valid_def split: if_splits)

lemma advance_valid: "advance_frame m version d st = Inr (f, st') \<Longrightarrow> frame_valid f"
  by (auto simp: advance_frame_def Let_def res_bind_Inr_iff res_map_Inr_iff dest: proto_frame_valid split: option.splits)

lemma deltas_valid: "list_all frame_valid (fst (iterate_deltas m version st ds)) \<and> length (fst (iterate_deltas m version st ds)) \<le> length ds"
proof (induction ds arbitrary: st)
  case (Cons d ds)
  then show ?case
    by (auto simp: stream_yield_def dest: advance_valid split: sum.splits)
qed simp

lemma proto_good: "frames_good (fst (iterateProtobufFrames m g))"
proof -
  have "list_all frame_valid (f # fst (iterate_deltas m version st ds)) \<and> length (f # fst (iterate_deltas m version st ds)) \<le> max_ghost_frames"
    if "frame_valid f" "length ds + 1 \<le> max_ghost_frames" for f version st ds
    using that deltas_valid [of m version st ds] by simp
  then show ?thesis
    by (auto simp: iterateProtobufFrames_def Let_def frames_good_def stream_yield_def res_bind_Inr_iff res_map_Inr_iff count_ok
        split: option.splits sum.splits dest!: proto_frame_valid)
qed

end
