(* ===== verification/Ghost_Properties.thy ===== *)
theory Ghost_Properties
  imports Ghost_Parser
begin

text \<open>
  The properties of the ghost parser and statistics.
\<close>

section \<open>Statistics\<close>

text \<open>The statistics of frames, by the reference definitions.\<close>

definition reference_statistics :: "ghost_math \<Rightarrow> nat option \<Rightarrow> ghost_frame list \<Rightarrow> ghost_statistics" where
  "reference_statistics m version fs =
     (if fs = [] then emptyGhostStatistics (Some 0) version else statistics_of version (acc_of m version fs))"

lemma statistics_of_stream:
  "frames_good (fst s) \<Longrightarrow>
     calculateGhostStatisticsFromIterable m s version = res_map (reference_statistics m version) (stream_result s)"
  by (simp add: calculateGhostStatisticsFromIterable_def stats_loop_of good_no_error stream_result_def reference_statistics_def acc_of_def
      split: option.splits)

lemma parse_decoded_frames:
  "parse_decoded version m g = Inr p \<Longrightarrow> stream_result (iterateProtobufFrames m g) = Inr (pg_frames p) \<and> pg_version p = version"
  by (auto simp: parse_decoded_def parseDecodedProtobufGhost_def readProtobufFrames_def res_bind_Inr_iff split: if_splits)

text \<open>Reading the evidence again after the frames cannot fail.\<close>

lemma frames_need_evidence:
  "stream_result (iterateProtobufFrames m g) = Inr fs \<Longrightarrow> pb_version g = 8 \<Longrightarrow> \<exists>v. readRunEvidence g = Inr v"
  by (auto simp: iterateProtobufFrames_def stream_result_def Let_def stream_yield_def res_bind_Inr_iff res_map_Inr_iff
      split: option.splits sum.splits)

lemma parse_decoded_of:
  assumes "pb_version g = int version"
  shows "res_map (\<lambda>p. (pg_frames p, pg_version p)) (parse_decoded version m g)
    = res_map (\<lambda>fs. (fs, version)) (stream_result (iterateProtobufFrames m g))"
proof (cases "stream_result (iterateProtobufFrames m g)")
  case (Inl e)
  with assms show ?thesis
    by (simp add: parse_decoded_def parseDecodedProtobufGhost_def readProtobufFrames_def)
next
  case (Inr fs)
  with assms frames_need_evidence [of m g fs] show ?thesis
    by (auto simp: parse_decoded_def parseDecodedProtobufGhost_def readProtobufFrames_def)
qed

lemma protobuf_source:
  "decodeGhostSource env b = Inr (Protobuf_Source g version) \<Longrightarrow> pb_version g = int version \<and> version \<in> {5, 6, 7, 8}"
  by (auto simp: decodeGhostSource_def Let_def res_bind_Inr_iff res_map_Inr_iff split: if_splits)

lemma legacy_source: "decodeGhostSource env b = Inr (Legacy_Source g) \<Longrightarrow> frames_good (pg_frames g)"
  by (auto simp: decodeGhostSource_def Let_def res_bind_Inr_iff res_map_Inr_iff dest: legacy_good split: if_splits)

lemma parseProtobufGhost_eq: "version \<in> {5, 6, 7, 8} \<Longrightarrow> parseProtobufGhost m g version = parse_decoded version m g"
  by (auto simp: parseProtobufGhost_def parseDecodedV5_def parseDecodedV6_def parseDecodedV7_def parseDecodedV8_def)

lemma res_map_comp: "res_map f (res_map g x) = res_map (\<lambda>y. f (g y)) x"
  by (cases x) simp_all

text \<open>
  C7: The statistics the server computes while it reads a ghost are those of the parsed ghost, with its version, by the reference
  definitions: flags, transition counts, sums over the timed segments and maxima. They fail exactly when parsing fails, with
  the same error; in particular no ghost that parses is refused by them.
\<close>

theorem ghost_statistics_of_parse:
  "parseGhostStatistics env buffer
    = res_map (\<lambda>g. reference_statistics (ge_math env) (Some (pg_version g)) (pg_frames g)) (parseGhost env buffer)"
proof (cases "decodeGhostSource env buffer")
  case (Inl e)
  then show ?thesis
    by (simp add: parseGhostStatistics_def parseGhost_def)
next
  case (Inr source)
  show ?thesis
  proof (cases source)
    case (Legacy_Source g)
    with Inr legacy_source [of env buffer g] show ?thesis
      by (simp add: parseGhostStatistics_def parseGhost_def calculateGhostStatistics_def statistics_of_stream stream_result_def)
  next
    case (Protobuf_Source g version)
    note v = protobuf_source [OF Inr [unfolded Protobuf_Source]]
    have "res_map (\<lambda>p. reference_statistics (ge_math env) (Some (pg_version p)) (pg_frames p)) (parse_decoded version (ge_math env) g)
        = res_map (\<lambda>(fs, n). reference_statistics (ge_math env) (Some n) fs)
            (res_map (\<lambda>p. (pg_frames p, pg_version p)) (parse_decoded version (ge_math env) g))"
      by (simp add: res_map_comp)
    also have "\<dots> = res_map (reference_statistics (ge_math env) (Some version)) (stream_result (iterateProtobufFrames (ge_math env) g))"
      using v by (simp add: parse_decoded_of res_map_comp)
    finally show ?thesis
      using Inr Protobuf_Source v proto_good [of "ge_math env" g]
      by (simp add: parseGhostStatistics_def parseGhost_def parseProtobufGhost_eq statistics_of_stream)
  qed
qed

section \<open>Layout of the binary formats\<close>

text \<open>The number of frames of a buffer.\<close>

definition binary_frames_at :: "nat \<Rightarrow> byte list \<Rightarrow> int" where
  "binary_frames_at version b = int32_at b (binary_header version - 4)"

lemma read_header:
  "readLegacyMetadata (rd_at o' b) = Inr (md, r) \<longleftrightarrow>
     o' + 20 \<le> length b
     \<and> md = legacyGhostMetadata (le_nat (take 8 (drop o' b))) (int32_at b (o' + 8)) (int32_at b (o' + 12)) (int32_at b (o' + 16))
     \<and> r = rd_at (o' + 20) b"
proof -
  have "readLegacyMetadata (rd_at o' b) = Inr (md, r) \<longleftrightarrow>
     o' + 8 \<le> length b \<and> o' + 12 \<le> length b \<and> o' + 16 \<le> length b \<and> o' + 20 \<le> length b
     \<and> md = legacyGhostMetadata (le_nat (take 8 (drop o' b))) (int32_at b (o' + 8)) (int32_at b (o' + 12)) (int32_at b (o' + 16))
     \<and> r = rd_at (o' + 20) b"
    by (simp only: readLegacyMetadata_def bind_at read_results add.assoc arith_simps numeral_plus_numeral)
  then show ?thesis by auto
qed

text \<open>
  C16: A buffer of version 1, 2 or 3 is read exactly when its header is there, the frame count is between 0 and 120,000 and of every
  frame the numbers are there and finite: all 28 bytes in version 1 and 2, but only the first 32 of the 34 bytes in version 3, whose two
  flags read as false past the end of the buffer (so a version 3 file that lacks its last one or two bytes is read). Then frame \<open>i\<close> is the
  one at its fixed offset, the metadata of version 2 and 3 the one at offset 4, and what follows the frames is ignored.
\<close>

theorem legacy_ghost_layout:
  "readBinaryGhost m b version = Inr (md, fs) \<longleftrightarrow>
     binary_header version \<le> length b
     \<and> 0 \<le> binary_frames_at version b \<and> binary_frames_at version b \<le> 120000
     \<and> list_all (\<lambda>i. binary_frame_ok version b (binary_header version + i * binary_stride version)) [0..<nat (binary_frames_at version b)]
     \<and> md = binary_metadata_at version b
     \<and> fs = map (\<lambda>i. binary_frame_at m version b (binary_header version + i * binary_stride version)) [0..<nat (binary_frames_at version b)]"
proof (cases "2 \<le> version")
  case True
  then show ?thesis
    by (auto simp: readBinaryGhost_def new_binary_reader_def res_map_Inr_iff br_bind_Inr read_header lift_count readBinaryFrames_at
        binary_header_def binary_frames_at_def binary_metadata_at_def max_ghost_frames_def)
next
  case False
  then show ?thesis
    by (auto simp: readBinaryGhost_def new_binary_reader_def res_map_Inr_iff br_bind_Inr lift_count readBinaryFrames_at
        binary_header_def binary_frames_at_def binary_metadata_at_def max_ghost_frames_def)
qed

section \<open>Frames of the protobuf formats\<close>

text \<open>Positions are sums of the initial one and the scaled deltas; a rotation lasts until the next one.\<close>

fun running :: "('s \<Rightarrow> 'd \<Rightarrow> 's) \<Rightarrow> 's \<Rightarrow> 'd list \<Rightarrow> 's list" where
  "running step s [] = [s]"
| "running step s (d # ds) = s # running step (step s d) ds"

definition moved :: "ghost_vector3 \<Rightarrow> proto_frame \<Rightarrow> ghost_vector3" where
  "moved p d = (case pf_position d of Some v \<Rightarrow> add_vectors p (unscaleVector3 v position_multiplier) | None \<Rightarrow> p)"

definition turned :: "ghost_vector3 option \<Rightarrow> proto_frame \<Rightarrow> ghost_vector3 option" where
  "turned r d = (case pf_rotation d of Some v \<Rightarrow> Some (unscaleVector3 v rotation_multiplier) | None \<Rightarrow> r)"

lemma proto_frame_fields:
  "frameFromProtobuf m t p src version r = Inr f \<Longrightarrow>
     fr_time f = t \<and> fr_position f = p \<and> fr_rotation f = (case r of None \<Rightarrow> pf_rotation src | Some x \<Rightarrow> Some x)
     \<and> fr_ragdoll f = (if 6 \<le> version then pf_ragdollState src else None)
     \<and> fr_ragdollPosition f = (if 6 \<le> version then pf_ragdollPosition src else None)"
  by (auto simp: frameFromProtobuf_def Let_def split: if_splits)

text \<open>A ragdoll is active only in the versions that have it, and then has a position.\<close>

definition ragdoll_inv :: "nat \<Rightarrow> proto_state \<Rightarrow> bool" where
  "ragdoll_inv version st \<longleftrightarrow> (ps_ragdollActive st \<longrightarrow> 6 \<le> version \<and> ps_ragdollPosition st \<noteq> None)"

definition ragdoll_shown :: "ghost_frame \<Rightarrow> bool" where
  "ragdoll_shown f \<longleftrightarrow> truthy (fr_ragdoll f) = (fr_ragdollPosition f \<noteq> None)"

lemma advance_ragdoll_step:
  assumes a: "advance_ragdoll version d st = Inr st'" and inv: "ragdoll_inv version st"
  shows "ragdoll_inv version st'" "ps_position st' = ps_position st" "ps_rotation st' = ps_rotation st"
    and "ps_ragdollActive st' = (6 \<le> version \<and> pf_ragdollState d = Some True)" "ps_ragdollActive st \<longrightarrow> ps_ragdollActive st'"
proof -
  have state: "own_or False (pf_ragdollState d) \<longleftrightarrow> pf_ragdollState d = Some True"
    by (simp add: own_or_def split: option.splits)
  have "ragdoll_inv version st' \<and> ps_position st' = ps_position st \<and> ps_rotation st' = ps_rotation st
    \<and> ps_ragdollActive st' = (6 \<le> version \<and> pf_ragdollState d = Some True) \<and> (ps_ragdollActive st \<longrightarrow> ps_ragdollActive st')"
  proof (cases "6 \<le> version \<and> pf_ragdollState d = Some True")
    case True
    with a obtain x y where "st' = st\<lparr>ps_ragdollActive := True, ps_ragdollPosition := Some x, ps_ragdollRotation := Some y\<rparr>"
      by (auto simp: advance_ragdoll_def own_or_def Let_def res_bind_Inr_iff)
    with True show ?thesis
      by (simp add: ragdoll_inv_def)
  next
    case False
    then have "st' = st" "6 \<le> version \<longrightarrow> \<not> ps_ragdollActive st"
      using a by (auto simp: advance_ragdoll_def state Let_def split: if_splits)
    with False inv show ?thesis
      by (auto simp: ragdoll_inv_def)
  qed
  then show "ragdoll_inv version st'" "ps_position st' = ps_position st" "ps_rotation st' = ps_rotation st"
    "ps_ragdollActive st' = (6 \<le> version \<and> pf_ragdollState d = Some True)" "ps_ragdollActive st \<longrightarrow> ps_ragdollActive st'"
    by blast+
qed

lemma advance_frame_step:
  assumes a: "advance_frame m version d st = Inr (f, st')" and inv: "ragdoll_inv version st"
  shows "fr_time f = own_or 0 (pf_time d) \<and> fr_position f = moved (ps_position st) d \<and> fr_rotation f = turned (ps_rotation st) d
      \<and> ps_position st' = fr_position f \<and> ps_rotation st' = fr_rotation f \<and> ragdoll_inv version st'
      \<and> truthy (fr_ragdoll f) = ps_ragdollActive st' \<and> ragdoll_shown f \<and> (ps_ragdollActive st \<longrightarrow> ps_ragdollActive st')"
proof -
  obtain delta where d: "pf_position d = Some delta"
    using a by (auto simp: advance_frame_def split: option.splits)
  let ?st = "st\<lparr>ps_position := moved (ps_position st) d, ps_rotation := turned (ps_rotation st) d\<rparr>"
  obtain st1 where r: "advance_ragdoll version d ?st = Inr st1" "st' = st1"
    and fr: "frameFromProtobuf m (own_or 0 (pf_time d)) (moved (ps_position st) d)
        (d\<lparr>pf_ragdollPosition := (if ps_ragdollActive st1 then ps_ragdollPosition st1 else None),
           pf_ragdollRotation := (if ps_ragdollActive st1 then ps_ragdollRotation st1 else None)\<rparr>)
        version (turned (ps_rotation st) d) = Inr f"
    using a d by (auto simp: advance_frame_def Let_def res_bind_Inr_iff res_map_Inr_iff moved_def turned_def)
  have i: "ragdoll_inv version ?st"
    using inv by (simp add: ragdoll_inv_def)
  note s = advance_ragdoll_step [OF r(1) i]
  have rot: "(case turned (ps_rotation st) d of
        None \<Rightarrow> pf_rotation (d\<lparr>pf_ragdollPosition := x, pf_ragdollRotation := y\<rparr>)
      | Some v \<Rightarrow> Some v) = turned (ps_rotation st) d" for x y
    by (simp add: turned_def split: option.splits)
  show ?thesis
    using proto_frame_fields [OF fr, unfolded rot] s r(2)
    by (auto simp: ragdoll_shown_def truthy_def ragdoll_inv_def)
qed

text \<open>What holds of the frames a generator has yielded.\<close>

definition follows :: "ghost_vector3 list \<Rightarrow> ghost_vector3 option list \<Rightarrow> bool \<Rightarrow> ghost_frame list \<Rightarrow> bool" where
  "follows ps rs active fs \<longleftrightarrow>
     map fr_position fs = take (length fs) ps \<and> map fr_rotation fs = take (length fs) rs
     \<and> sorted (active # map (\<lambda>f. truthy (fr_ragdoll f)) fs) \<and> list_all ragdoll_shown fs"

lemma running_hd: "running step s ds = s # tl (running step s ds)"
  by (cases ds) simp_all

lemma deltas_follow:
  assumes "ragdoll_inv version st"
  shows "follows (tl (running moved (ps_position st) ds)) (tl (running turned (ps_rotation st) ds)) (ps_ragdollActive st)
      (fst (iterate_deltas m version st ds))
    \<and> map fr_time (fst (iterate_deltas m version st ds))
      = take (length (fst (iterate_deltas m version st ds))) (map (\<lambda>d. own_or 0 (pf_time d)) ds)"
  using assms
proof (induction ds arbitrary: st)
  case Nil
  show ?case by (simp add: follows_def)
next
  case (Cons d ds)
  show ?case
  proof (cases "advance_frame m version d st")
    case (Inl e)
    then show ?thesis by (simp add: follows_def)
  next
    case (Inr r)
    obtain f st' where r: "r = (f, st')"
      by (cases r)
    note s = advance_frame_step [OF Inr [unfolded r] Cons.prems]
    then have "ragdoll_inv version st'"
      by simp
    note ih = Cons.IH [OF this]
    have "tl (running moved (ps_position st) (d # ds)) = fr_position f # tl (running moved (ps_position st') ds)"
      "tl (running turned (ps_rotation st) (d # ds)) = fr_rotation f # tl (running turned (ps_rotation st') ds)"
      using s by (simp_all flip: running_hd)
    with s ih Inr r show ?thesis
      by (auto simp: follows_def stream_yield_def simp del: running.simps)
  qed
qed

lemma deltas_complete:
  "(snd (iterate_deltas m version st ds) = None) = (length (fst (iterate_deltas m version st ds)) = length ds)"
proof (induction ds arbitrary: st)
  case (Cons d ds)
  then show ?case
    by (auto simp: stream_yield_def split: sum.splits)
qed simp

lemma initial_state_step:
  assumes "initial_state version f0 p = Inr st"
  shows "ragdoll_inv version st" "ps_position st = p" "ps_rotation st = pf_rotation f0"
    and "ps_ragdollActive st = (6 \<le> version \<and> pf_ragdollState f0 = Some True)" "(ps_ragdollPosition st \<noteq> None) = ps_ragdollActive st"
  using assms
  by (cases "6 \<le> version \<and> pf_ragdollState f0 = Some True"; auto simp: initial_state_def Let_def res_bind_Inr_iff res_map_Inr_iff ragdoll_inv_def)+

text \<open>The first frame, and where the loop starts.\<close>

lemma proto_start:
  assumes "fst (iterateProtobufFrames m g) = f # fs"
  obtains f0 p st where "pb_initialFrame g = Some f0" "pf_position f0 = Some p" "ragdoll_inv (nat (pb_version g)) st"
    "iterateProtobufFrames m g = stream_yield f (iterate_deltas m (nat (pb_version g)) st (pb_deltaFrames g))"
    "fr_position f = p" "ps_position st = p" "fr_rotation f = pf_rotation f0" "ps_rotation st = pf_rotation f0"
    "truthy (fr_ragdoll f) = ps_ragdollActive st" "ragdoll_shown f"
    "fr_time f = (if pb_version g = 8 then (case readRunEvidence g of Inr v \<Rightarrow> evidence_initialTime v | Inl _ \<Rightarrow> 0) else 0)"
proof -
  let ?version = "nat (pb_version g)"
  obtain f0 p st time where p: "pb_initialFrame g = Some f0" "pf_position f0 = Some p" and st: "initial_state ?version f0 p = Inr st"
    and time: "(if ?version = 8 then res_map evidence_initialTime (readRunEvidence g) else Inr 0) = Inr time"
    and fr: "frameFromProtobuf m time p (f0\<lparr>pf_ragdollPosition := ps_ragdollPosition st, pf_ragdollRotation := ps_ragdollRotation st\<rparr>)
        ?version (ps_rotation st) = Inr f"
    and it: "iterateProtobufFrames m g = stream_yield f (iterate_deltas m ?version st (pb_deltaFrames g))"
    using assms
    by (auto simp: iterateProtobufFrames_def Let_def stream_yield_def res_bind_Inr_iff res_map_Inr_iff bind_eq_Some_conv
        split: option.splits sum.splits if_splits)
  note s = initial_state_step [OF st]
  have rot: "(case pf_rotation f0 of None \<Rightarrow> pf_rotation (f0\<lparr>pf_ragdollPosition := x, pf_ragdollRotation := y\<rparr>) | Some v \<Rightarrow> Some v)
      = pf_rotation f0" for x y
    by (simp split: option.splits)
  note f = proto_frame_fields [OF fr, unfolded s(3) rot]
  have "fr_time f = (if pb_version g = 8 then (case readRunEvidence g of Inr v \<Rightarrow> evidence_initialTime v | Inl _ \<Rightarrow> 0) else 0)"
    using f time by (auto simp: res_map_Inr_iff split: if_splits)
  moreover have "truthy (fr_ragdoll f) = ps_ragdollActive st" "ragdoll_shown f"
    using f s by (auto simp: truthy_def ragdoll_shown_def)
  ultimately show thesis
    using that [OF p s(1) it] f s by simp
qed

definition proto_track :: "('s \<Rightarrow> proto_frame \<Rightarrow> 's) \<Rightarrow> (proto_frame \<Rightarrow> 's) \<Rightarrow> proto_ghost \<Rightarrow> 's list" where
  "proto_track step start g = (case pb_initialFrame g of Some f \<Rightarrow> running step (start f) (pb_deltaFrames g) | None \<Rightarrow> [])"

definition proto_times :: "proto_ghost \<Rightarrow> js_number list" where
  "proto_times g =
     (if pb_version g = 8 then (case readRunEvidence g of Inr v \<Rightarrow> evidence_initialTime v | Inl _ \<Rightarrow> 0) else 0)
     # map (\<lambda>d. own_or 0 (pf_time d)) (pb_deltaFrames g)"

text \<open>
  C15: The frames a protobuf ghost yields, all of them or those before its error, are the prefixes of its track: the positions are the
  initial one plus the running sum of the scaled deltas, a rotation is the last one sent, the times are those of the messages, the
  first one that of the evidence in version 8. All frames are yielded exactly when there is no error. Once the ragdoll is on it
  stays on, and its position is there exactly while it is on.
\<close>

theorem protobuf_frames_reconstructed:
  "let fs = fst (iterateProtobufFrames m g); n = length fs in
     map fr_position fs = take n (proto_track moved (\<lambda>f. the (pf_position f)) g)
     \<and> map fr_rotation fs = take n (proto_track turned pf_rotation g)
     \<and> map fr_time fs = take n (proto_times g)
     \<and> (snd (iterateProtobufFrames m g) = None) = (n = Suc (length (pb_deltaFrames g)))
     \<and> sorted (map (\<lambda>f. truthy (fr_ragdoll f)) fs)
     \<and> list_all (\<lambda>f. truthy (fr_ragdoll f) = (fr_ragdollPosition f \<noteq> None)) fs"
proof (cases "fst (iterateProtobufFrames m g)")
  case Nil
  then have "snd (iterateProtobufFrames m g) \<noteq> None"
    by (auto simp: iterateProtobufFrames_def Let_def stream_yield_def split: option.splits sum.splits if_splits)
  with Nil show ?thesis
    by simp
next
  case (Cons f fs)
  then obtain f0 p st where p: "pb_initialFrame g = Some f0" "pf_position f0 = Some p" and inv: "ragdoll_inv (nat (pb_version g)) st"
    and it: "iterateProtobufFrames m g = stream_yield f (iterate_deltas m (nat (pb_version g)) st (pb_deltaFrames g))"
    and f: "fr_position f = p" "ps_position st = p" "fr_rotation f = pf_rotation f0" "ps_rotation st = pf_rotation f0"
      "truthy (fr_ragdoll f) = ps_ragdollActive st" "ragdoll_shown f"
      "fr_time f = (if pb_version g = 8 then (case readRunEvidence g of Inr v \<Rightarrow> evidence_initialTime v | Inl _ \<Rightarrow> 0) else 0)"
    by (rule proto_start)
  let ?s = "iterate_deltas m (nat (pb_version g)) st (pb_deltaFrames g)"
  have fs: "fs = fst ?s" "snd (iterateProtobufFrames m g) = snd ?s"
    using Cons it by (simp_all add: stream_yield_def)
  have tracks: "proto_track moved (\<lambda>f. the (pf_position f)) g = fr_position f # tl (running moved (ps_position st) (pb_deltaFrames g))"
    "proto_track turned pf_rotation g = fr_rotation f # tl (running turned (ps_rotation st) (pb_deltaFrames g))"
    "proto_times g = fr_time f # map (\<lambda>d. own_or 0 (pf_time d)) (pb_deltaFrames g)"
    using p f by (simp_all add: proto_track_def proto_times_def flip: running_hd)
  show ?thesis
    using deltas_follow [OF inv, where m = m and ds = "pb_deltaFrames g"] deltas_complete [of m "nat (pb_version g)" st "pb_deltaFrames g"] f(5,6)
    by (simp add: Cons tracks fs follows_def ragdoll_shown_def [abs_def])
qed

section \<open>The browser\<close>












end
