(* ===== verification/Score_Level.thy ===== *)
theory Score_Level
  imports Js_Ops
begin

text \<open>
  The points of a level (\<open>packages/core/src/score/calculateLevelPointsV2.ts\<close>, \<open>levelScoreEligibility.ts\<close>).

  A field that may be missing, null or no number is an option. \<open>Math.sqrt\<close> and the operator \<open>**\<close> are parameters, \<open>score_math\<close>:
  their results depend on the engine. \<open>js_sort\<close> is the sort by the comparator \<open>(a, b) => a - b\<close> (\<open>Js_Ops\<close>).
\<close>

record score_math =
  sm_sqrt :: "js_number \<Rightarrow> js_number"
  sm_pow :: "js_number \<Rightarrow> js_number \<Rightarrow> js_number"

text \<open>A decimal literal \<open>n * 10 ^ e\<close>.\<close>

definition dec :: "nat \<Rightarrow> int \<Rightarrow> js_number" where
  "dec n e = decimal_number 0 n e"

section \<open>Data\<close>

definition max_level_points :: nat where "max_level_points = 9984"
definition level_score_personal_best_limit :: nat where "level_score_personal_best_limit = 20"

record level_score_telemetry =
  lt_armsUpCount :: "js_number option"
  lt_armsUpTime :: "js_number option"
  lt_brakeCount :: "js_number option"
  lt_brakeTime :: "js_number option"
  lt_driverInputTransitionCount :: "js_number option"
  lt_hasInputData :: "bool option"
  lt_time :: "js_number option"
  lt_turnLeftCount :: "js_number option"
  lt_turnLeftTime :: "js_number option"
  lt_turnRightCount :: "js_number option"
  lt_turnRightTime :: "js_number option"

text \<open>A split is its cumulative time, NaN when it is no number; missing splits are an empty list.\<close>

record level_score_personal_best =
  pb_splits :: "js_number list"
  pb_telemetry :: "level_score_telemetry option"
  pb_time :: js_number

record level_score_skill =
  sk_alignment :: "js_number option"
  sk_fieldStrength :: "js_number option"
  sk_ratedPlayerCount :: js_number
  sk_separation :: "js_number option"

record level_score_input =
  li_matureVoteCount :: "js_number option"
  li_personalBestCount :: "js_number option"
  li_personalBests :: "level_score_personal_best list"
  li_skill :: "level_score_skill option"
  li_voteRating :: "js_number option"

record level_score_factors =
  sf_evidenceFactor :: js_number
  sf_lengthFactor :: js_number
  sf_qualityFactor :: js_number
  sf_voteFactor :: js_number

record level_score_metrics =
  se_complexityConfidence :: "js_number option"
  se_complexityScore :: "js_number option"
  se_fieldStrength :: "js_number option"
  se_qualityScore :: "js_number option"
  se_skillAlignment :: "js_number option"
  se_skillConfidence :: "js_number option"
  se_skillSampleSize :: "js_number option"
  se_skillScore :: "js_number option"
  se_skillSeparation :: "js_number option"

record level_score_modifiers =
  so_evidenceModifier :: js_number
  so_lengthModifier :: js_number
  so_qualityModifier :: js_number
  so_ratingModifier :: js_number

record level_score_result =
  sr_factors :: level_score_factors
  sr_metrics :: level_score_metrics
  sr_modifiers :: level_score_modifiers
  sr_points :: js_number

record normalized_input =
  ni_matureVoteCount :: "js_number option"
  ni_personalBestCount :: js_number
  ni_voteRating :: "js_number option"

record prepared_input =
  pi_allPersonalBests :: "level_score_personal_best list"
  pi_normalized :: normalized_input
  pi_personalBests :: "level_score_personal_best list"

record complexity_run =
  cr_primaryControlShare :: js_number
  cr_runComplexity :: js_number
  cr_transitionRate :: js_number

record complexity =
  cx_confidence :: js_number
  cx_runs :: "complexity_run list"
  cx_score :: js_number

record skill_score =
  ss_alignment :: "js_number option"
  ss_confidence :: js_number
  ss_fieldStrength :: "js_number option"
  ss_ratedPlayerCount :: js_number
  ss_score :: js_number
  ss_separation :: "js_number option"

section \<open>Helpers\<close>

text \<open>\<open>isFiniteNumber(v)\<close>, and the number if it is one.\<close>

definition finite_number :: "js_number option \<Rightarrow> js_number option" where
  "finite_number v = (case v of Some x \<Rightarrow> if is_finite x then Some x else None | None \<Rightarrow> None)"

definition clamp :: "js_number \<Rightarrow> js_number \<Rightarrow> js_number \<Rightarrow> js_number" where
  "clamp value minimum maximum = (if is_finite value then js_max minimum (js_min maximum value) else minimum)"

definition clamp01 :: "js_number \<Rightarrow> js_number" where
  "clamp01 value = clamp value 0 (js_of_nat 1)"

definition smoothstep :: "js_number \<Rightarrow> js_number" where
  "smoothstep value =
     (let bounded = clamp01 value in
      js_mul (js_mul bounded bounded) (js_sub (js_of_nat 3) (js_mul (js_of_nat 2) bounded)))"

definition smoothstepBetween :: "js_number \<Rightarrow> js_number \<Rightarrow> js_number \<Rightarrow> js_number" where
  "smoothstepBetween value minimum maximum =
     (if js_lt minimum maximum then smoothstep (js_div (js_sub value minimum) (js_sub maximum minimum)) else 0)"

text \<open>\<open>xs[i] ?? d\<close>\<close>

definition at_or :: "js_number \<Rightarrow> js_number list \<Rightarrow> js_number \<Rightarrow> js_number" where
  "at_or d xs i = (case js_integer i of Some n \<Rightarrow> if 0 \<le> n \<and> nat n < length xs then xs ! nat n else d | None \<Rightarrow> d)"

definition percentile :: "js_number list \<Rightarrow> js_number \<Rightarrow> js_number option" where
  "percentile values quantile =
     (let sorted_values = js_sort (\<lambda>x. x) (filter is_finite values) in
      case sorted_values of
        [] \<Rightarrow> None
      | [x] \<Rightarrow> Some x
      | _ \<Rightarrow>
          let index = js_mul (clamp01 quantile) (js_of_nat (length sorted_values - 1));
              lowerIndex = js_floor index; upperIndex = js_ceil index;
              lower = at_or 0 sorted_values lowerIndex; upper = at_or lower sorted_values upperIndex in
          Some (js_add lower (js_mul (js_sub upper lower) (js_sub index lowerIndex))))"

definition median :: "js_number list \<Rightarrow> js_number option" where
  "median values = percentile values (dec 5 (- 1))"

definition mean :: "js_number list \<Rightarrow> js_number option" where
  "mean values = (if values \<noteq> [] then Some (js_div (foldl js_add 0 values) (js_of_nat (length values))) else None)"

definition calculateLevelPointsV2LengthFactor :: "js_number option \<Rightarrow> js_number" where
  "calculateLevelPointsV2LengthFactor medianTopTenTime =
     (case finite_number medianTopTenTime of
        None \<Rightarrow> 0
      | Some t \<Rightarrow>
          if js_le t 0 then 0
          else if js_lt t (js_of_nat 5) then dec 35 (- 2)
          else if js_lt t (js_of_nat 20)
          then js_add (dec 35 (- 2)) (js_mul (dec 65 (- 2)) (smoothstepBetween t (js_of_nat 5) (js_of_nat 20)))
          else if js_le t (js_of_nat 180) then js_of_nat 1
          else if js_lt t (js_of_nat 600)
          then js_sub (js_of_nat 1) (js_mul (dec 25 (- 2)) (smoothstepBetween t (js_of_nat 180) (js_of_nat 600)))
          else dec 75 (- 2))"

section \<open>Anomalous leaders\<close>

fun split_loop :: "js_number \<Rightarrow> js_number list \<Rightarrow> js_number \<Rightarrow> js_number list \<Rightarrow> js_number list option" where
  "split_loop finish [] previous durations =
     Some (if js_lt previous finish then durations @ [js_sub finish previous] else durations)"
| "split_loop finish (time # later) previous durations =
     (if \<not> is_finite time \<or> js_le time previous \<or> js_lt finish time then None
      else split_loop finish later time (durations @ [js_sub time previous]))"

definition splitDurations :: "level_score_personal_best \<Rightarrow> js_number list option" where
  "splitDurations personalBest =
     (if pb_splits personalBest = [] then None else split_loop (pb_time personalBest) (pb_splits personalBest) 0 [])"

text \<open>The counts of the numbers of segments, in the order they first occur; the most frequent number, of two the larger.\<close>

definition count_lengths :: "js_number list list \<Rightarrow> (nat \<times> nat) list" where
  "count_lengths candidates = map (\<lambda>n. (n, length (filter (\<lambda>c. length c = n) candidates))) (rev (remdups (rev (map length candidates))))"

fun best_count :: "(nat \<times> nat) list \<Rightarrow> nat option" where
  "best_count [] = None"
| "best_count ((n, c) # entries) =
     (case best_count entries of
        None \<Rightarrow> Some n
      | Some k \<Rightarrow>
          let ck = (case map_of entries k of Some x \<Rightarrow> x | None \<Rightarrow> 0) in
          if ck < c \<or> (ck = c \<and> k < n) then Some n else Some k)"

fun sum_segments :: "js_number list list \<Rightarrow> nat list \<Rightarrow> js_number \<Rightarrow> js_number option" where
  "sum_segments comparable [] acc = Some acc"
| "sum_segments comparable (index # indices) acc =
     (case percentile (map (\<lambda>c. if index < length c then c ! index else js_nan) comparable) (dec 5 (- 2)) of
        None \<Rightarrow> None
      | Some segment \<Rightarrow> sum_segments comparable indices (js_add acc segment))"

definition corroboratedTheoreticalBest :: "level_score_personal_best list \<Rightarrow> js_number option" where
  "corroboratedTheoreticalBest personalBests =
     (let candidates = List.map_filter splitDurations personalBests in
      case best_count (filter (\<lambda>(n, c). 5 \<le> c) (count_lengths candidates)) of
        None \<Rightarrow> None
      | Some segmentCount \<Rightarrow>
          if segmentCount = 0 then None
          else sum_segments (filter (\<lambda>c. length c = segmentCount) candidates) [0..<segmentCount] 0)"

definition isAnomalousWorldRecord :: "level_score_personal_best list \<Rightarrow> bool" where
  "isAnomalousWorldRecord personalBests =
     (case personalBests of
        [] \<Rightarrow> False
      | worldRecord # others \<Rightarrow>
          let nextFive = map pb_time (take 5 others);
              nextFiveMean = (case mean nextFive of Some x \<Rightarrow> x | None \<Rightarrow> 0);
              leaderboardExcluded = (length nextFive = 5 \<and> js_le (pb_time worldRecord) (js_mul nextFiveMean (dec 5 (- 1))));
              telemetryExcluded =
                (case corroboratedTheoreticalBest others of
                   None \<Rightarrow> False
                 | Some best \<Rightarrow>
                     js_le (js_of_nat 1)
                       (smoothstepBetween (js_sub (js_div best (pb_time worldRecord)) (js_of_nat 1)) (dec 3 (- 2)) (dec 15 (- 2)))) in
          leaderboardExcluded \<or> telemetryExcluded)"

section \<open>Input\<close>

definition valid_personal_best :: "level_score_personal_best \<Rightarrow> bool" where
  "valid_personal_best p \<longleftrightarrow> is_finite (pb_time p) \<and> js_lt 0 (pb_time p)"

text \<open>\<open>while (bests.length > 0 && isAnomalousWorldRecord(bests)) bests = bests.slice(1)\<close>\<close>

fun drop_anomalous :: "level_score_personal_best list \<Rightarrow> level_score_personal_best list" where
  "drop_anomalous [] = []"
| "drop_anomalous (p # ps) = (if isAnomalousWorldRecord (p # ps) then drop_anomalous ps else p # ps)"

definition normalizeInput :: "level_score_input \<Rightarrow> nat \<Rightarrow> normalized_input" where
  "normalizeInput input valid =
     (let personalBestCount = (case finite_number (li_personalBestCount input) of Some c \<Rightarrow> js_max 0 (js_trunc c) | None \<Rightarrow> js_of_nat valid) in
      \<lparr>ni_matureVoteCount = map_option (\<lambda>c. js_max 0 (js_trunc c)) (finite_number (li_matureVoteCount input)),
       ni_personalBestCount = js_max personalBestCount (js_of_nat valid),
       ni_voteRating = map_option clamp01 (finite_number (li_voteRating input))\<rparr>)"

definition prepareLevelScoreInput :: "level_score_input \<Rightarrow> prepared_input" where
  "prepareLevelScoreInput input =
     (let personalBests = filter valid_personal_best (li_personalBests input);
          allPersonalBests = take level_score_personal_best_limit (js_sort pb_time personalBests) in
      \<lparr>pi_allPersonalBests = allPersonalBests, pi_normalized = normalizeInput input (length personalBests),
       pi_personalBests = drop_anomalous allPersonalBests\<rparr>)"

definition calculateVoteFactor :: "normalized_input \<Rightarrow> js_number" where
  "calculateVoteFactor normalized =
     (if (case ni_matureVoteCount normalized of Some c \<Rightarrow> js_eq c 0 | None \<Rightarrow> False) then dec 8 (- 1)
      else
        case ni_voteRating normalized of
          None \<Rightarrow> dec 8 (- 1)
        | Some r \<Rightarrow>
            clamp
              (if js_le r (dec 5 (- 1)) then js_add (dec 76 (- 2)) (js_mul r (dec 8 (- 2)))
               else js_add (dec 8 (- 1)) (js_mul (js_sub r (dec 5 (- 1))) (dec 4 (- 1))))
              (dec 76 (- 2)) (js_of_nat 1))"

definition ceilLevelPointsV2 :: "js_number \<Rightarrow> js_number" where
  "ceilLevelPointsV2 value =
     js_mul (js_ceil (js_div (clamp value (js_of_nat 2) (js_of_nat max_level_points)) (js_of_nat 2))) (js_of_nat 2)"

section \<open>Complexity and skill\<close>

definition run_transitions :: "level_score_telemetry \<Rightarrow> js_number option" where
  "run_transitions t =
     (case finite_number (lt_driverInputTransitionCount t) of
        Some c \<Rightarrow> Some c
      | None \<Rightarrow>
          let parts = map finite_number [lt_turnLeftCount t, lt_turnRightCount t, lt_brakeCount t, lt_armsUpCount t] in
          if list_all (\<lambda>p. p \<noteq> None) parts then Some (foldl js_add 0 (map the parts)) else None)"

definition complexityRun :: "score_math \<Rightarrow> level_score_personal_best \<Rightarrow> complexity_run option" where
  "complexityRun m personalBest =
     (case pb_telemetry personalBest of
        None \<Rightarrow> None
      | Some t \<Rightarrow>
          if lt_hasInputData t \<noteq> Some True then None
          else
            let duration = (case finite_number (lt_time t) of
                  Some d \<Rightarrow> if js_lt 0 d then d else pb_time personalBest
                | None \<Rightarrow> pb_time personalBest) in
            if \<not> is_finite duration \<or> js_le duration 0 then None
            else
              case (finite_number (lt_turnLeftTime t), finite_number (lt_turnRightTime t), finite_number (lt_brakeTime t),
                  finite_number (lt_armsUpTime t), run_transitions t) of
                (Some left, Some right, Some brake, Some armsUp, Some transitionCount) \<Rightarrow>
                  let steeringShare = clamp01 (js_div (js_add left right) duration);
                      brakeShare = clamp01 (js_div brake duration);
                      armsUpShare = clamp01 (js_div armsUp duration);
                      primaryControlShare = js_max (js_max steeringShare brakeShare) armsUpShare;
                      transitionRate = js_div (js_max 0 transitionCount) duration;
                      occupancy = smoothstepBetween primaryControlShare (dec 15 (- 2)) (dec 63 (- 2));
                      transitions = smoothstepBetween transitionRate (dec 73 (- 2)) (dec 189 (- 2)) in
                  Some \<lparr>cr_primaryControlShare = primaryControlShare, cr_runComplexity = sm_sqrt m (js_mul occupancy transitions),
                    cr_transitionRate = transitionRate\<rparr>
              | _ \<Rightarrow> None)"

definition calculateComplexity :: "score_math \<Rightarrow> level_score_personal_best list \<Rightarrow> complexity" where
  "calculateComplexity m personalBests =
     (let sample = take 20 personalBests;
          runs = List.map_filter (complexityRun m) sample;
          runComplexities = map cr_runComplexity runs;
          observed = (if runs \<noteq> [] then
              js_add (js_mul (dec 6 (- 1)) (case median runComplexities of Some x \<Rightarrow> x | None \<Rightarrow> 0))
                (js_mul (dec 4 (- 1)) (case percentile runComplexities (dec 25 (- 2)) of Some x \<Rightarrow> x | None \<Rightarrow> 0))
            else dec 5 (- 1));
          coverage = (if sample \<noteq> [] then js_div (js_of_nat (length runs)) (js_of_nat (length sample)) else 0);
          quantity = smoothstepBetween (js_of_nat (length runs)) (js_of_nat 3) (js_of_nat 10);
          confidence = clamp01 (js_mul (sm_pow m coverage (js_of_nat 2)) quantity) in
      \<lparr>cx_confidence = confidence, cx_runs = runs,
       cx_score = js_add (dec 5 (- 1)) (js_mul confidence (js_sub observed (dec 5 (- 1))))\<rparr>)"

definition calculateSkill :: "score_math \<Rightarrow> level_score_input \<Rightarrow> skill_score" where
  "calculateSkill m input =
     (let skill = li_skill input;
          get = (\<lambda>field. finite_number (Option.bind skill field));
          ratedPlayerCount = (case get (\<lambda>s. Some (sk_ratedPlayerCount s)) of Some c \<Rightarrow> js_max 0 (js_trunc c) | None \<Rightarrow> 0);
          alignment = map_option (js_max 0) (get sk_alignment);
          separation = map_option (js_max 0) (get sk_separation);
          fieldStrength = map_option clamp01 (get sk_fieldStrength);
          complete = (alignment \<noteq> None \<and> separation \<noteq> None \<and> fieldStrength \<noteq> None);
          alignmentScore = (if complete then smoothstepBetween (the alignment) (dec 45 (- 2)) (dec 85 (- 2)) else dec 5 (- 1));
          separationScore = (if complete then smoothstepBetween (the separation) (dec 5 (- 3)) (dec 7 (- 2)) else dec 5 (- 1));
          fieldStrengthScore = (if complete then smoothstepBetween (the fieldStrength) (dec 6 (- 1)) (dec 8 (- 1)) else dec 5 (- 1));
          selectivity = sm_sqrt m (js_mul alignmentScore separationScore);
          observed = (if complete then js_add (js_mul (dec 8 (- 1)) selectivity) (js_mul (dec 2 (- 1)) fieldStrengthScore) else dec 5 (- 1));
          confidence = (if complete then smoothstepBetween ratedPlayerCount (js_of_nat 8) (js_of_nat 64) else 0) in
      \<lparr>ss_alignment = alignment, ss_confidence = confidence, ss_fieldStrength = fieldStrength, ss_ratedPlayerCount = ratedPlayerCount,
       ss_score = js_add (dec 5 (- 1)) (js_mul confidence (js_sub observed (dec 5 (- 1)))), ss_separation = separation\<rparr>)"

section \<open>Points\<close>

text \<open>\<open>minimumFactor + (1 - minimumFactor) * x\<close> with 0.1\<close>

definition at_least_tenth :: "js_number \<Rightarrow> js_number" where
  "at_least_tenth x = js_add (dec 1 (- 1)) (js_mul (js_sub (js_of_nat 1) (dec 1 (- 1))) x)"

definition modifiers_of :: "level_score_factors \<Rightarrow> level_score_modifiers" where
  "modifiers_of f = \<lparr>so_evidenceModifier = sf_evidenceFactor f, so_lengthModifier = sf_lengthFactor f,
     so_qualityModifier = sf_qualityFactor f, so_ratingModifier = sf_voteFactor f\<rparr>"

definition no_score :: "js_number \<Rightarrow> level_score_result" where
  "no_score voteFactor =
     (let factors = \<lparr>sf_evidenceFactor = dec 1 (- 1), sf_lengthFactor = js_of_nat 1, sf_qualityFactor = dec 55 (- 2), sf_voteFactor = voteFactor\<rparr> in
      \<lparr>sr_factors = factors,
       sr_metrics = \<lparr>se_complexityConfidence = None, se_complexityScore = None, se_fieldStrength = None, se_qualityScore = None,
         se_skillAlignment = None, se_skillConfidence = None, se_skillSampleSize = None, se_skillScore = None, se_skillSeparation = None\<rparr>,
       sr_modifiers = modifiers_of factors, sr_points = 0\<rparr>)"

definition score_factors :: "prepared_input \<Rightarrow> js_number \<Rightarrow> level_score_factors" where
  "score_factors prepared qualityScore =
     (let excludedPersonalBestCount = length (pi_allPersonalBests prepared) - length (pi_personalBests prepared);
          crediblePersonalBestCount = js_max 0 (js_sub (ni_personalBestCount (pi_normalized prepared)) (js_of_nat excludedPersonalBestCount)) in
      \<lparr>sf_evidenceFactor = at_least_tenth (smoothstepBetween crediblePersonalBestCount (js_of_nat 3) (js_of_nat 16)),
       sf_lengthFactor = calculateLevelPointsV2LengthFactor (median (map pb_time (take 10 (pi_personalBests prepared)))),
       sf_qualityFactor = at_least_tenth qualityScore,
       sf_voteFactor = calculateVoteFactor (pi_normalized prepared)\<rparr>)"

definition final_multiplier :: "level_score_factors \<Rightarrow> js_number" where
  "final_multiplier f =
     clamp01 (js_mul (js_mul (js_mul (sf_lengthFactor f) (sf_evidenceFactor f)) (sf_qualityFactor f)) (sf_voteFactor f))"

definition points_of :: "js_number \<Rightarrow> js_number" where
  "points_of finalMultiplier =
     (let roundedPoints = ceilLevelPointsV2 (js_mul (js_of_nat max_level_points) finalMultiplier) in
      if js_lt finalMultiplier (js_of_nat 1) then js_min roundedPoints (js_of_nat (max_level_points - 2)) else roundedPoints)"

definition calculateLevelPointsV2 :: "score_math \<Rightarrow> level_score_input \<Rightarrow> level_score_result" where
  "calculateLevelPointsV2 m input =
     (let prepared = prepareLevelScoreInput input in
      if pi_personalBests prepared = [] then no_score (calculateVoteFactor (pi_normalized prepared))
      else
        let complexity = calculateComplexity m (pi_personalBests prepared);
            skill = calculateSkill m input;
            qualityScore = js_add (js_mul (dec 55 (- 2)) (cx_score complexity)) (js_mul (dec 45 (- 2)) (ss_score skill));
            factors = score_factors prepared qualityScore in
        \<lparr>sr_factors = factors,
         sr_metrics = \<lparr>se_complexityConfidence = Some (cx_confidence complexity), se_complexityScore = Some (cx_score complexity),
           se_fieldStrength = ss_fieldStrength skill, se_qualityScore = Some qualityScore, se_skillAlignment = ss_alignment skill,
           se_skillConfidence = Some (ss_confidence skill), se_skillSampleSize = Some (ss_ratedPlayerCount skill),
           se_skillScore = Some (ss_score skill), se_skillSeparation = ss_separation skill\<rparr>,
         sr_modifiers = modifiers_of factors, sr_points = points_of (final_multiplier factors)\<rparr>)"

section \<open>Eligibility\<close>

record level_workshop_availability =
  wa_accessibleItemCount :: js_number
  wa_adventure :: bool
  wa_itemCount :: js_number

definition isLevelScoreEligible :: "level_workshop_availability \<Rightarrow> bool" where
  "isLevelScoreEligible a \<longleftrightarrow> wa_adventure a \<or> js_eq (wa_itemCount a) 0 \<or> js_lt 0 (wa_accessibleItemCount a)"

end
