(* ===== verification/Score_Player.thy ===== *)
theory Score_Player
  imports Score_Level
begin

text \<open>
  The points of a player (\<open>packages/core/src/score/calculatePlayerPoints.ts\<close>) and the rating of a level by its votes
  (\<open>calculateVoteRating.ts\<close>). The operator \<open>**\<close> is the parameter \<open>sm_pow\<close>.
\<close>

section \<open>Decay\<close>

definition global_decay_factor :: js_number where "global_decay_factor = dec 95 (- 2)"
definition level_decay_factor :: js_number where "level_decay_factor = dec 985 (- 3)"

text \<open>\<open>2 ** -149\<close>, a power of two and so exact.\<close>

definition min_persisted_decayed_points :: js_number where
  "min_persisted_decayed_points = f64_make 0 (1023 - 149) 0"

definition calculateDecayMultiplier :: "score_math \<Rightarrow> js_number \<Rightarrow> js_number \<Rightarrow> js_number" where
  "calculateDecayMultiplier m position decayFactor =
     (if js_lt position (js_of_nat 1) \<or> \<not> is_finite position \<or> \<not> is_finite decayFactor \<or> js_le decayFactor 0 then 0
      else sm_pow m decayFactor (js_sub position (js_of_nat 1)))"

definition calculatePlayerPointsDecayed :: "score_math \<Rightarrow> js_number \<Rightarrow> js_number \<Rightarrow> js_number \<Rightarrow> js_number" where
  "calculatePlayerPointsDecayed m points position decayFactor =
     (if \<not> is_finite points \<or> js_le points 0 then 0
      else
        let decayedPoints = js_mul points (calculateDecayMultiplier m position decayFactor) in
        if js_lt decayedPoints min_persisted_decayed_points then 0 else decayedPoints)"

section \<open>Contributions\<close>

record score_personal_best =
  sp_idLevel :: js_number
  sp_idRecord :: js_number
  sp_levelPoints :: js_number
  sp_position :: int

record level_point_contribution =
  pc_idLevel :: js_number
  pc_idRecord :: js_number
  pc_levelDecayedPoints :: js_number
  pc_levelPoints :: js_number
  pc_levelPosition :: js_number

record player_point_contribution = level_point_contribution +
  pc_contributionRank :: nat
  pc_playerDecayedPoints :: js_number

record player_points_result =
  pr_contributions :: "player_point_contribution list"
  pr_points :: js_number
  pr_totalPoints :: js_number

definition counted_contribution :: "level_point_contribution \<Rightarrow> bool" where
  "counted_contribution c \<longleftrightarrow> js_le (js_of_nat 1) (pc_levelPosition c) \<and> is_finite (pc_levelPosition c)
     \<and> js_lt 0 (pc_levelPoints c) \<and> is_finite (pc_levelDecayedPoints c)"

text \<open>\<open>a || b\<close> on numbers.\<close>

definition number_or :: "js_number \<Rightarrow> js_number \<Rightarrow> js_number" where
  "number_or a b = (if is_nan a \<or> is_zero a then b else a)"

definition compare_contributions :: "level_point_contribution \<Rightarrow> level_point_contribution \<Rightarrow> js_number" where
  "compare_contributions a b =
     number_or (number_or (js_sub (pc_levelDecayedPoints b) (pc_levelDecayedPoints a)) (js_sub (pc_idLevel a) (pc_idLevel b)))
       (js_sub (pc_idRecord a) (pc_idRecord b))"

text \<open>A stable sort by the comparator; a result that is NaN counts as 0.\<close>

fun insert_contribution :: "level_point_contribution \<Rightarrow> level_point_contribution list \<Rightarrow> level_point_contribution list" where
  "insert_contribution c [] = [c]"
| "insert_contribution c (d # ds) =
     (if js_lt 0 (compare_contributions c d) then d # insert_contribution c ds else c # d # ds)"

definition sort_contributions :: "level_point_contribution list \<Rightarrow> level_point_contribution list" where
  "sort_contributions cs = foldr insert_contribution cs []"

definition rank_contribution :: "score_math \<Rightarrow> level_point_contribution \<Rightarrow> nat \<Rightarrow> player_point_contribution" where
  "rank_contribution m c index =
     level_point_contribution.extend c
       (player_point_contribution.fields (index + 1)
         (calculatePlayerPointsDecayed m (pc_levelDecayedPoints c) (js_of_nat (index + 1)) global_decay_factor))"

definition rank_contributions :: "score_math \<Rightarrow> level_point_contribution list \<Rightarrow> player_point_contribution list" where
  "rank_contributions m cs = map (\<lambda>(c, index). rank_contribution m c index) (zip cs [0..<length cs])"

definition calculatePlayerPointsFromContributions :: "score_math \<Rightarrow> level_point_contribution list \<Rightarrow> player_points_result" where
  "calculatePlayerPointsFromContributions m contributions =
     (let ranked = rank_contributions m (sort_contributions (filter counted_contribution contributions)) in
      \<lparr>pr_contributions = ranked,
       pr_points = js_round (foldl (\<lambda>x c. js_add x (pc_playerDecayedPoints c)) 0 ranked),
       pr_totalPoints = js_round (foldl (\<lambda>x c. js_add x (pc_levelDecayedPoints c)) 0 ranked)\<rparr>)"

text \<open>\<open>Number(position)\<close> of a bigint: the nearest number.\<close>

definition number_of_bigint :: "int \<Rightarrow> js_number" where
  "number_of_bigint n = (if n = 0 then 0 else f64_round (if n < 0 then 1 else 0) (nat \<bar>n\<bar>) 1)"

definition level_contribution :: "score_math \<Rightarrow> score_personal_best \<Rightarrow> level_point_contribution option" where
  "level_contribution m p =
     (let levelPosition = number_of_bigint (sp_position p) in
      if \<not> is_finite levelPosition \<or> js_lt levelPosition (js_of_nat 1) \<or> js_le (sp_levelPoints p) 0 then None
      else Some \<lparr>pc_idLevel = sp_idLevel p, pc_idRecord = sp_idRecord p,
        pc_levelDecayedPoints = calculatePlayerPointsDecayed m (sp_levelPoints p) levelPosition level_decay_factor,
        pc_levelPoints = sp_levelPoints p, pc_levelPosition = levelPosition\<rparr>)"

definition calculatePlayerPoints :: "score_math \<Rightarrow> score_personal_best list \<Rightarrow> player_points_result" where
  "calculatePlayerPoints m personalBests =
     calculatePlayerPointsFromContributions m (List.map_filter (level_contribution m) personalBests)"

section \<open>Votes\<close>

definition default_vote_rating :: js_number where "default_vote_rating = dec 5 (- 1)"
definition negative_vote_weight :: js_number where "negative_vote_weight = dec 5 (- 1)"
definition minimum_vote_count :: nat where "minimum_vote_count = 5"

definition calculateVoteScore :: "js_number \<Rightarrow> js_number" where
  "calculateVoteScore vote =
     (if \<not> is_finite vote then default_vote_rating
      else
        let clampedVote = js_max (js_neg (js_of_nat 2)) (js_min (js_of_nat 2) vote);
            weightedVote = (if js_lt clampedVote 0 then js_mul clampedVote negative_vote_weight else clampedVote) in
        js_div (js_add weightedVote (js_of_nat 2)) (js_of_nat 4))"

text \<open>\<open>Number(x.toFixed(6))\<close> for a number that is not negative: the nearest integer to \<open>x * 10 ^ 6\<close>, the larger of two.\<close>

definition fixed6_units :: "js_number \<Rightarrow> nat" where
  "fixed6_units x =
     (let num = scale_up (f64_sig x) (f64_pow x) * 10 ^ 6; den = scale_up 1 (- f64_pow x) in (2 * num + den) div (2 * den))"

definition to_fixed6 :: "js_number \<Rightarrow> js_number" where
  "to_fixed6 x = decimal_number 0 (fixed6_units x) (- 6)"

definition calculateVoteRating :: "js_number list \<Rightarrow> js_number" where
  "calculateVoteRating votes =
     (if length votes < minimum_vote_count then default_vote_rating
      else
        let sum = foldl (\<lambda>s v. js_add s (calculateVoteScore v)) 0 votes;
            average = js_div sum (js_of_nat (length votes)) in
        if is_finite average then to_fixed6 (js_max 0 (js_min (js_of_nat 1) average)) else default_vote_rating)"

end
