(* ===== verification/Score_Properties.thy ===== *)
theory Score_Properties
  imports Score_Player Level_Types "HOL-Library.Multiset" "HOL-Library.Product_Lexorder"
begin

text \<open>
  The properties of level points, player points and vote ratings.
\<close>

section \<open>Even numbers of points\<close>

lemma js_of_nat_round:
  assumes "0 < n" "n < 2 ^ 53"
  shows "f64_round 0 n 1 = js_of_nat n"
proof -
  have "n * 2 ^ (52 - top_bit n) - 2 ^ 52 = (n - 2 ^ top_bit n) * 2 ^ (52 - top_bit n)"
    using top_bit_scale(1) [OF assms] by (simp add: diff_mult_distrib flip: power_add)
  moreover have "f64_round 0 n 1 = f64_make 0 (top_bit n + 1023) (n * 2 ^ (52 - top_bit n) - 2 ^ 52)"
    by (rule f64_round_nat [OF assms]) simp
  ultimately show ?thesis
    using assms(1) by (simp only: js_of_nat_def Let_def neq0_conv [symmetric] if_False add.commute simp_thms)
qed

lemma js_of_nat_fields:
  assumes "0 < n" "n < 2 ^ 53"
  shows "f64_sign (js_of_nat n) = 0" "f64_exp (js_of_nat n) = top_bit n + 1023" "f64_man (js_of_nat n) = n * 2 ^ (52 - top_bit n) - 2 ^ 52"
    and "f64_sig (js_of_nat n) = n * 2 ^ (52 - top_bit n)" "f64_pow (js_of_nat n) = - int (52 - top_bit n)" "is_finite (js_of_nat n)"
proof -
  note t = top_bit_scale [OF assms]
  have x: "js_of_nat n = f64_make 0 (top_bit n + 1023) (n * 2 ^ (52 - top_bit n) - 2 ^ 52)"
    unfolding js_of_nat_round [OF assms, symmetric] by (rule f64_round_nat [OF assms]) simp
  have "n * 2 ^ (52 - top_bit n) - 2 ^ 52 < 2 ^ 52"
    using t(3) by simp
  then show f: "f64_sign (js_of_nat n) = 0" "f64_exp (js_of_nat n) = top_bit n + 1023" "f64_man (js_of_nat n) = n * 2 ^ (52 - top_bit n) - 2 ^ 52"
    unfolding x using t(1) by simp_all
  show "f64_sig (js_of_nat n) = n * 2 ^ (52 - top_bit n)" "f64_pow (js_of_nat n) = - int (52 - top_bit n)"
    using t(1,2) by (simp_all add: f64_sig_def f64_pow_def f)
  show "is_finite (js_of_nat n)"
    using t(1) by (simp add: is_finite_def f)
qed

lemma top_bits: "top_bit 2 = 1" "top_bit 9982 = 13" "top_bit 9984 = 13"
  by (intro top_bit_unique; simp)+

lemma two_fields: "f64_sign (js_of_nat 2) = 0" "f64_exp (js_of_nat 2) = 1024" "f64_man (js_of_nat 2) = 0"
  "f64_sig (js_of_nat 2) = 2 ^ 52" "f64_pow (js_of_nat 2) = - 51" "is_finite (js_of_nat 2)"
  using js_of_nat_fields [of 2] by (simp_all add: top_bits)

lemma two_kind: "\<not> is_nan (js_of_nat 2)" "\<not> is_inf (js_of_nat 2)" "\<not> is_zero (js_of_nat 2)"
  by (simp_all add: is_nan_def is_inf_def is_zero_def f64_mag_split two_fields)

lemma most_fields: "f64_sign (js_of_nat 9984) = 0" "f64_exp (js_of_nat 9984) = 1036" "f64_man (js_of_nat 9984) = 1792 * 2 ^ 39"
  "f64_sig (js_of_nat 9984) = 9984 * 2 ^ 39" "f64_pow (js_of_nat 9984) = - 39" "is_finite (js_of_nat 9984)"
  using js_of_nat_fields [of 9984] by (simp_all add: top_bits)

lemma next_fields: "f64_sign (js_of_nat 9982) = 0" "f64_exp (js_of_nat 9982) = 1036" "f64_man (js_of_nat 9982) = 1790 * 2 ^ 39" "is_finite (js_of_nat 9982)"
  using js_of_nat_fields [of 9982] by (simp_all add: top_bits)

lemma one_fields: "f64_mag (js_of_nat 1) = 1023 * 2 ^ 52" "f64_key (js_of_nat 1) = 1023 * 2 ^ 52" "is_finite (js_of_nat 1)"
  using js_of_nat_fields [of 1] top_bit_unique [of 0 1] by (simp_all add: f64_mag_split f64_key_def)

lemma clamp_between:
  assumes "is_finite a" "is_finite b" "f64_key a \<le> f64_key b"
  shows "is_finite (clamp v a b) \<and> f64_key a \<le> f64_key (clamp v a b) \<and> f64_key (clamp v a b) \<le> f64_key b"
  using assms is_finite_not_nan [of a] is_finite_not_nan [of b] is_finite_not_nan [of v]
  by (auto simp: clamp_def js_max_def js_min_def)

lemma between_fields:
  assumes "f64_key (js_of_nat 2) \<le> f64_key c" "f64_key c \<le> f64_key (js_of_nat 9984)"
  shows "f64_sign c = 0" "1024 \<le> f64_exp c" "f64_exp c \<le> 1036" "f64_mag c \<le> f64_mag (js_of_nat 9984)"
proof -
  have k: "f64_key (js_of_nat 2) = int (1024 * 2 ^ 52)" "f64_key (js_of_nat 9984) = int (f64_mag (js_of_nat 9984))"
    by (simp_all add: f64_key_def two_fields most_fields f64_mag_split)
  show s: "f64_sign c = 0"
  proof -
    have "int (1024 * 2 ^ 52) \<le> f64_key c"
      using assms(1) by (simp only: k)
    then show ?thesis
      by (simp add: f64_key_def split: if_splits)
  qed
  then have "f64_key c = int (f64_mag c)"
    by (simp add: f64_key_def)
  then have m: "1024 * 2 ^ 52 \<le> f64_mag c" and le: "f64_mag c \<le> f64_mag (js_of_nat 9984)"
    using assms unfolding k by (simp_all only: of_nat_le_iff)
  show "f64_mag c \<le> f64_mag (js_of_nat 9984)"
    by (rule le)
  show "1024 \<le> f64_exp c"
    using div_le_mono [OF m, of "2 ^ 52"] by (simp add: f64_exp_def)
  show "f64_exp c \<le> 1036"
    using div_le_mono [OF le, of "2 ^ 52"] most_fields(2) by (simp add: f64_exp_def)
qed

lemma half:
  assumes "f64_sign c = 0" "1024 \<le> f64_exp c" "f64_exp c \<le> 1036"
  shows "js_div c (js_of_nat 2) = f64_make 0 (f64_exp c - 1) (f64_man c)"
proof -
  let ?j = "f64_exp c - 1024"
  have n: "\<not> is_nan c" "\<not> is_inf c" "\<not> is_zero c"
    using assms by (auto simp: is_nan_def is_inf_def is_zero_def f64_mag_split)
  have sig: "2 ^ 52 \<le> f64_sig c" "f64_sig c < 2 ^ 53" "f64_sig c - 2 ^ 52 = f64_man c"
    using assms(2) f64_man_less [of c] by (simp_all add: f64_sig_def)
  have pow: "f64_pow c - - 51 = int ?j"
    using assms(2) by (simp add: f64_pow_def)
  have "js_div c (js_of_nat 2) = f64_round 0 (scale_up (f64_sig c) (int ?j)) (scale_up (2 ^ 52) (- int ?j))"
    unfolding js_div_def two_fields assms(1) pow Let_def using n two_kind by (simp add: two_fields)
  also have "scale_up (f64_sig c) (int ?j) = f64_sig c * 2 ^ ?j"
    by (simp add: scale_up_def)
  also have "scale_up (2 ^ 52) (- int ?j) = 2 ^ (52 - ?j) * 2 ^ ?j"
    using assms(3) by (simp add: scale_up_def flip: power_add)
  also have "f64_round 0 (f64_sig c * 2 ^ ?j) (2 ^ (52 - ?j) * 2 ^ ?j) = f64_round 0 (f64_sig c) (2 ^ (52 - ?j))"
    by (rule f64_round_shift) simp
  also have "\<dots> = f64_make 0 (1075 - (52 - ?j)) (f64_sig c - 2 ^ 52)"
    using sig by (intro f64_round_exact) simp_all
  also have "1075 - (52 - ?j) = f64_exp c - 1"
    using assms(2,3) by simp
  finally show ?thesis
    unfolding sig(3) .
qed

lemma double:
  assumes "0 < n" "n < 2 ^ 52"
  shows "js_mul (f64_round 0 n 1) (js_of_nat 2) = js_of_nat (2 * n)"
proof -
  have n53: "n < 2 ^ 53"
    using assms(2) by simp
  note t = top_bit_scale [OF assms(1) n53]
  let ?k = "52 - top_bit n"
  note f = js_of_nat_fields [OF assms(1) n53]
  have nn: "\<not> is_nan (js_of_nat n)" "\<not> is_inf (js_of_nat n)"
    using t(1) by (simp_all add: is_nan_def is_inf_def f)
  let ?j = "?k + 51"
  have pow: "- int ?k + - 51 = - int ?j"
    by simp
  have "js_mul (js_of_nat n) (js_of_nat 2) = f64_round 0 (scale_up (n * 2 ^ ?k * 2 ^ 52) (- int ?j)) (scale_up 1 (int ?j))"
    unfolding js_mul_def f two_fields Let_def pow minus_minus using nn two_kind by simp
  also have "scale_up (n * 2 ^ ?k * 2 ^ 52) (- int ?j) = (2 * n) * 2 ^ ?j"
    by (simp add: scale_up_def power_add)
  also have "scale_up 1 (int ?j) = 1 * 2 ^ ?j"
    unfolding scale_up_def by (simp only: nat_int)
  also have "f64_round 0 (2 * n * 2 ^ ?j) (1 * 2 ^ ?j) = f64_round 0 (2 * n) 1"
    by (rule f64_round_shift) simp
  also have "\<dots> = js_of_nat (2 * n)"
    using assms by (intro js_of_nat_round) simp_all
  finally show ?thesis
    by (simp only: js_of_nat_round [OF assms(1) n53])
qed

text \<open>Rounding up to an even number of points, whatever the value.\<close>

lemma ceil_even: "\<exists>n. 1 \<le> n \<and> n \<le> 4992 \<and> ceilLevelPointsV2 v = js_of_nat (2 * n)"
proof -
  let ?c = "clamp v (js_of_nat 2) (js_of_nat 9984)"
  have "is_finite (js_of_nat 2)" "is_finite (js_of_nat 9984)" "f64_key (js_of_nat 2) \<le> f64_key (js_of_nat 9984)"
    by (simp_all add: two_fields most_fields f64_key_def f64_mag_split)
  note b = between_fields [OF clamp_between [OF this, THEN conjunct2, THEN conjunct1] clamp_between [OF this, THEN conjunct2, THEN conjunct2], of v]
  define hc where "hc = f64_make 0 (f64_exp ?c - 1) (f64_man ?c)"
  let ?d = "2 ^ (1076 - f64_exp ?c) :: nat"
  let ?n = "ceil_div (f64_sig ?c) ?d"
  have "f64_exp ?c - 1 < 2048" "f64_exp ?c - 1 \<noteq> 0"
    using b(2,3) by simp_all
  then have h: "f64_sign hc = 0" "f64_exp hc = f64_exp ?c - 1" "f64_man hc = f64_man ?c" "f64_exp hc \<noteq> 0"
    unfolding hc_def using f64_fields [of 0 "f64_exp ?c - 1" "f64_man ?c"] f64_man_less [of ?c] by simp_all
  have sig: "f64_sig hc = f64_sig ?c"
    using b(2) unfolding f64_sig_def h(3) by (simp only: h(4)) simp
  have pow: "f64_pow hc = - int (1076 - f64_exp ?c)"
    using b(2,3) by (simp add: f64_pow_def h(2))
  have z: "\<not> is_zero hc"
    using h(4) unfolding is_zero_def f64_mag_split by simp
  have d: "nat (- (- int (1076 - f64_exp ?c))) = 1076 - f64_exp ?c"
    by simp
  have c: "\<not> (f64_exp ?c - 1 = 2047 \<or> 0 \<le> - int (1076 - f64_exp ?c) \<or> is_zero hc)"
    using b(3) z by auto
  have "js_ceil hc = f64_round 0 ?n 1"
    unfolding js_ceil_def js_int_part_def h(1,2) sig pow Let_def d using c by simp
  then have e: "ceilLevelPointsV2 v = js_mul (f64_round 0 ?n 1) (js_of_nat 2)"
    using half [OF b(1-3), folded hc_def] by (simp add: ceilLevelPointsV2_def max_level_points_def)
  have pos: "2 ^ 52 \<le> f64_sig ?c"
    using b(2) by (simp add: f64_sig_def)
  then have lower: "0 < ?n"
    by (simp add: less_ceil_div_iff)
  have p: "f64_pow ?c \<le> - 39" "f64_pow ?c = int (f64_exp ?c) - 1075"
    using b by (simp_all add: f64_pow_def)
  have "f64_units (f64_pow ?c) ?c \<le> f64_units (f64_pow ?c) (js_of_nat 9984)"
    using units_less_iff [of "f64_pow ?c" "js_of_nat 9984" ?c] b(4) p by (simp add: most_fields leD le_less_linear not_less)
  then have "f64_sig ?c \<le> 9984 * 2 ^ 39 * 2 ^ nat (- 39 - f64_pow ?c)"
    by (simp add: f64_units_def most_fields scale_up_def)
  also have "nat (- 39 - f64_pow ?c) = 1036 - f64_exp ?c"
    using p(2) by simp
  also have "(9984::nat) * 2 ^ 39 * 2 ^ (1036 - f64_exp ?c) = 4992 * ?d"
  proof -
    have "1076 - f64_exp ?c = Suc (39 + (1036 - f64_exp ?c))"
      using b(3) by simp
    then show ?thesis
      by (simp only: power_Suc power_add)
  qed
  finally have upper: "?n \<le> 4992"
    by (simp add: ceil_div_le_iff)
  show ?thesis
    using lower upper e double [of ?n] by (intro exI [of _ ?n]) simp
qed

lemma points_even: "\<exists>n. 1 \<le> n \<and> n \<le> (if js_lt fm (js_of_nat 1) then 4991 else 4992) \<and> points_of fm = js_of_nat (2 * n)"
proof -
  obtain n where n: "1 \<le> n" "n \<le> 4992" "ceilLevelPointsV2 (js_mul (js_of_nat max_level_points) fm) = js_of_nat (2 * n)"
    using ceil_even by blast
  have top: "js_min (js_of_nat 9984) (js_of_nat 9982) = js_of_nat 9982"
    by (simp add: js_min_def is_finite_not_nan most_fields next_fields f64_key_def f64_mag_split)
  show ?thesis
  proof (cases "js_lt fm (js_of_nat 1)")
    case False
    with n show ?thesis
      by (auto simp: points_of_def)
  next
    case True
    then have p: "points_of fm = js_min (js_of_nat (2 * n)) (js_of_nat 9982)"
      using n(3) by (simp add: points_of_def max_level_points_def)
    show ?thesis
    proof (cases "n = 4992")
      case True
      then show ?thesis
        using p top \<open>js_lt fm (js_of_nat 1)\<close> by (intro exI [of _ 4991]) simp
    next
      case False
      then have n': "n \<le> 4991"
        using n(2) by simp
      have fin: "\<not> is_nan (js_of_nat 9982)" "\<not> is_nan (js_of_nat (2 * n))"
      proof -
        show "\<not> is_nan (js_of_nat 9982)"
          by (rule is_finite_not_nan) (rule next_fields)
        show "\<not> is_nan (js_of_nat (2 * n))"
          using n(1) n' by (intro is_finite_not_nan js_of_nat_fields) simp_all
      qed
      then have "points_of fm = js_of_nat (2 * n) \<or> points_of fm = js_of_nat (2 * 4991)"
        unfolding p by (simp add: js_min_def)
      then show ?thesis
        using n(1) n' True by (auto intro: exI [of _ n] exI [of _ 4991])
    qed
  qed
qed

section \<open>A leader remains\<close>

lemma single_not_anomalous: "\<not> isAnomalousWorldRecord [p]"
  by (simp add: isAnomalousWorldRecord_def mean_def corroboratedTheoreticalBest_def count_lengths_def List.map_filter_def Let_def)

lemma leader_remains: "ps \<noteq> [] \<Longrightarrow> drop_anomalous ps \<noteq> []"
proof (induction ps rule: drop_anomalous.induct)
  case (2 p ps)
  then show ?case
    by (cases ps) (auto simp: single_not_anomalous)
qed simp

lemma drop_anomalous_empty: "drop_anomalous ps = [] \<longleftrightarrow> ps = []"
  using leader_remains [of ps] by auto

lemma prepared_empty: "pi_personalBests (prepareLevelScoreInput input) = [] \<longleftrightarrow> \<not> list_ex valid_personal_best (li_personalBests input)"
proof -
  let ?valid = "filter valid_personal_best (li_personalBests input)"
  have "take level_score_personal_best_limit (js_sort pb_time xs) = [] \<longleftrightarrow> xs = []" for xs
    by (cases xs) (auto simp: level_score_personal_best_limit_def js_sort_def)
  then have "pi_personalBests (prepareLevelScoreInput input) = [] \<longleftrightarrow> ?valid = []"
    by (simp add: prepareLevelScoreInput_def Let_def drop_anomalous_empty del: take_eq_Nil)
  then show ?thesis
    by (simp add: list_ex_iff filter_empty_conv)
qed

text \<open>
  C9: A level without a valid personal best has 0 points; any other has an even number of points from 2 to 9984, and the
  maximum only if no factor takes the final multiplier below 1. This holds whatever the square root and power functions give.
\<close>

theorem level_points_range:
  "let r = calculateLevelPointsV2 m input in
     sr_points r \<in>
       (if list_ex valid_personal_best (li_personalBests input)
        then (\<lambda>n. js_of_nat (2 * n)) ` {1..if js_lt (final_multiplier (sr_factors r)) (js_of_nat 1) then 4991 else 4992}
        else {0})"
proof (cases "list_ex valid_personal_best (li_personalBests input)")
  case False
  then show ?thesis
    using prepared_empty [of input] by (simp add: calculateLevelPointsV2_def no_score_def Let_def)
next
  case True
  then have "sr_points (calculateLevelPointsV2 m input) = points_of (final_multiplier (sr_factors (calculateLevelPointsV2 m input)))"
    using prepared_empty [of input] by (simp add: calculateLevelPointsV2_def Let_def)
  then show ?thesis
    using True points_even [of "final_multiplier (sr_factors (calculateLevelPointsV2 m input))"] by (auto simp: Let_def)
qed

section \<open>The order of the personal bests\<close>

lemma prepared_order:
  assumes "mset bests = mset (li_personalBests input)" and "inj_on (\<lambda>p. f64_key (pb_time p)) (set (filter valid_personal_best bests))"
  shows "prepareLevelScoreInput (input\<lparr>li_personalBests := bests\<rparr>) = prepareLevelScoreInput input"
proof -
  have m: "mset (filter valid_personal_best bests) = mset (filter valid_personal_best (li_personalBests input))"
    using assms(1) by simp
  show ?thesis
    using mset_eq_length [OF m] sort_key_eq_sort_key [OF m assms(2)]
    by (simp add: prepareLevelScoreInput_def normalizeInput_def js_sort_def Let_def cong: option.case_cong)
qed

lemma skill_unordered: "calculateSkill m (input\<lparr>li_personalBests := bests\<rparr>) = calculateSkill m input"
proof -
  have "li_skill (input\<lparr>li_personalBests := bests\<rparr>) = li_skill input"
    by simp
  then show ?thesis
    unfolding calculateSkill_def by (simp only:)
qed

text \<open>
  C31: The order in which the personal bests of a level are given changes nothing in its score, when no two valid ones have the
  same time: not the points, not the factors, not the excluded leaders.
\<close>

theorem level_points_order:
  assumes "mset bests = mset (li_personalBests input)" and "inj_on (\<lambda>p. f64_key (pb_time p)) (set (filter valid_personal_best bests))"
  shows "calculateLevelPointsV2 m (input\<lparr>li_personalBests := bests\<rparr>) = calculateLevelPointsV2 m input"
  unfolding calculateLevelPointsV2_def prepared_order [OF assms] skill_unordered by (rule refl)

definition run_of :: "nat \<Rightarrow> level_score_personal_best" where
  "run_of t = \<lparr>pb_splits = [], pb_telemetry = None, pb_time = js_of_nat t\<rparr>"

definition two_runs :: level_score_input where
  "two_runs = \<lparr>li_matureVoteCount = None, li_personalBestCount = None, li_personalBests = [run_of 2, run_of 9984], li_skill = None, li_voteRating = None\<rparr>"

lemma level_points_order_witness:
  "\<forall>m. calculateLevelPointsV2 m (two_runs\<lparr>li_personalBests := [run_of 9984, run_of 2]\<rparr>) = calculateLevelPointsV2 m two_runs"
proof
  fix m
  have "f64_key (js_of_nat 2) \<noteq> f64_key (js_of_nat 9984)"
    by (simp add: f64_key_def two_fields most_fields f64_mag_split)
  then have "inj_on (\<lambda>p. f64_key (pb_time p)) (set (filter valid_personal_best [run_of 9984, run_of 2]))"
    by (intro inj_onI) (auto simp: run_of_def split: if_splits)
  moreover have "mset [run_of 9984, run_of 2] = mset (li_personalBests two_runs)"
    by (simp add: two_runs_def)
  ultimately show "calculateLevelPointsV2 m (two_runs\<lparr>li_personalBests := [run_of 9984, run_of 2]\<rparr>) = calculateLevelPointsV2 m two_runs"
    by (intro level_points_order)
qed

section \<open>The ranking of a player's levels\<close>

text \<open>The order of the ranking: more decayed points first, then the lower level, then the lower record.\<close>

definition ranking_key :: "level_point_contribution \<Rightarrow> int \<times> int \<times> int" where
  "ranking_key c = (- f64_key (pc_levelDecayedPoints c), f64_key (pc_idLevel c), f64_key (pc_idRecord c))"

definition finite_ids :: "level_point_contribution \<Rightarrow> bool" where
  "finite_ids c \<longleftrightarrow> is_finite (pc_idLevel c) \<and> is_finite (pc_idRecord c)"

lemma number_or_positive: "js_lt 0 (number_or x y) \<longleftrightarrow> js_lt 0 x \<or> (\<not> js_lt x 0 \<and> js_lt 0 y)"
  "js_lt (number_or x y) 0 \<longleftrightarrow> js_lt x 0 \<or> (\<not> js_lt 0 x \<and> js_lt y 0)"
  by (auto simp: number_or_def js_lt_def zero_fields is_zero_def f64_key_def split: if_splits)

lemma ranking_compare:
  assumes "finite_ids c" "finite_ids d" "is_finite (pc_levelDecayedPoints c)" "is_finite (pc_levelDecayedPoints d)"
  shows "js_lt 0 (compare_contributions c d) \<longleftrightarrow> ranking_key d < ranking_key c"
proof -
  have nn: "is_finite x \<Longrightarrow> is_finite y \<Longrightarrow> js_lt x y \<longleftrightarrow> f64_key x < f64_key y" for x y
    by (simp add: js_lt_def is_finite_not_nan)
  show ?thesis
    using assms unfolding finite_ids_def
    by (auto simp: compare_contributions_def number_or_positive comparator_order nn ranking_key_def)
qed

lemma insert_key:
  assumes "finite_ids c" "is_finite (pc_levelDecayedPoints c)" "\<forall>d\<in>set ds. finite_ids d \<and> is_finite (pc_levelDecayedPoints d)"
  shows "insert_contribution c ds = insort_key ranking_key c ds"
  using assms(3) by (induction ds) (auto simp: ranking_compare assms(1,2))

lemma sort_contributions_key:
  assumes "\<forall>d\<in>set cs. finite_ids d \<and> is_finite (pc_levelDecayedPoints d)"
  shows "sort_contributions cs = sort_key ranking_key cs"
  using assms
proof (induction cs)
  case (Cons c cs)
  then have "sort_contributions (c # cs) = insert_contribution c (sort_key ranking_key cs)"
    by (simp add: sort_contributions_def)
  also have "\<dots> = insort_key ranking_key c (sort_key ranking_key cs)"
    using Cons.prems by (intro insert_key) auto
  finally show ?case
    by simp
qed (simp add: sort_contributions_def)

lemma truncate_rank [simp]: "level_point_contribution.truncate (rank_contribution m c i) = c" "pc_contributionRank (rank_contribution m c i) = i + 1"
  "pc_playerDecayedPoints (rank_contribution m c i) = calculatePlayerPointsDecayed m (pc_levelDecayedPoints c) (js_of_nat (i + 1)) global_decay_factor"
  by (simp_all add: rank_contribution_def level_point_contribution.defs player_point_contribution.defs)

lemma rank_contributions_parts:
  "map level_point_contribution.truncate (rank_contributions m cs) = cs" "map pc_contributionRank (rank_contributions m cs) = [1..<length cs + 1]"
  by (rule nth_equalityI; simp add: rank_contributions_def del: upt_Suc)+

text \<open>
  C19: The contributions to a player's points are the counted ones, sorted by falling decayed points, then by level, then by
  record, those alike in the order given, and are ranked 1, 2, 3, ...
\<close>

theorem player_ranking:
  assumes "\<forall>c\<in>set contributions. finite_ids c"
  shows "let ranked = pr_contributions (calculatePlayerPointsFromContributions m contributions) in
    map level_point_contribution.truncate ranked = sort_key ranking_key (filter counted_contribution contributions)
    \<and> map pc_contributionRank ranked = [1..<length (filter counted_contribution contributions) + 1]"
proof -
  have "sort_contributions (filter counted_contribution contributions) = sort_key ranking_key (filter counted_contribution contributions)"
    using assms by (intro sort_contributions_key) (simp add: counted_contribution_def)
  then show ?thesis
    by (simp add: calculatePlayerPointsFromContributions_def rank_contributions_parts Let_def)
qed

definition contribution_of :: "nat \<Rightarrow> nat \<Rightarrow> level_point_contribution" where
  "contribution_of i points = \<lparr>pc_idLevel = js_of_nat i, pc_idRecord = js_of_nat i, pc_levelDecayedPoints = js_of_nat points,
     pc_levelPoints = js_of_nat points, pc_levelPosition = js_of_nat 1\<rparr>"

lemma player_ranking_witness:
  "\<forall>m. let ranked = pr_contributions (calculatePlayerPointsFromContributions m [contribution_of 2 2, contribution_of 2 9984]) in
    map level_point_contribution.truncate ranked = [contribution_of 2 9984, contribution_of 2 2] \<and> map pc_contributionRank ranked = [1, 2]"
proof
  fix m
  let ?cs = "[contribution_of 2 2, contribution_of 2 9984]"
  have keys: "f64_key (js_of_nat 2) = 1024 * 2 ^ 52" "f64_key (js_of_nat 9984) = 1036 * 2 ^ 52 + 1792 * 2 ^ 39"
    by (simp_all add: f64_key_def two_fields most_fields f64_mag_split)
  have finite: "is_finite (js_of_nat 1)" "is_finite (js_of_nat 2)" "is_finite (js_of_nat 9984)"
    by (rule one_fields two_fields most_fields)+
  note nan = finite [THEN is_finite_not_nan]
  have "js_le (js_of_nat 1) (js_of_nat 1)" "js_lt 0 (js_of_nat 2)" "js_lt 0 (js_of_nat 9984)"
    unfolding js_le_def js_lt_def keys zero_fields by (simp_all add: nan zero_fields del: One_nat_def)
  then have "filter counted_contribution ?cs = ?cs"
    by (simp add: counted_contribution_def contribution_of_def finite del: One_nat_def)
  moreover have "sort_key ranking_key ?cs = [contribution_of 2 9984, contribution_of 2 2]"
    by (simp add: ranking_key_def contribution_of_def keys)
  moreover have "\<forall>c\<in>set ?cs. finite_ids c"
    by (simp add: finite_ids_def contribution_of_def finite)
  ultimately show "let ranked = pr_contributions (calculatePlayerPointsFromContributions m ?cs) in
    map level_point_contribution.truncate ranked = [contribution_of 2 9984, contribution_of 2 2] \<and> map pc_contributionRank ranked = [1, 2]"
    using player_ranking [of ?cs m] by (simp add: Let_def)
qed

section \<open>Vote ratings\<close>

lemma fixed6_bound:
  assumes "f64_mag y \<le> 1023 * 2 ^ 52"
  shows "fixed6_units y \<le> 10 ^ 6"
proof -
  let ?den = "scale_up 1 (- f64_pow y)"
  have e: "f64_exp y \<le> 1023" "f64_exp y = 1023 \<Longrightarrow> f64_man y = 0"
  proof -
    have "f64_exp y \<le> 1023 * 2 ^ 52 div 2 ^ 52"
      using div_le_mono [OF assms, of "2 ^ 52"] by (simp only: f64_exp_def)
    then show "f64_exp y \<le> 1023"
      by simp
    show "f64_man y = 0" if "f64_exp y = 1023"
      using assms unfolding f64_mag_split that by simp
  qed
  have "f64_sig y \<le> 2 ^ nat (- f64_pow y)"
  proof (cases "f64_exp y = 1023")
    case True
    then show ?thesis
      using e(2) by (simp add: f64_sig_def f64_pow_def)
  next
    case False
    then have "f64_pow y \<le> - 53"
      using e(1) by (auto simp: f64_pow_def)
    then have "53 \<le> nat (- f64_pow y)"
      by simp
    then have "2 ^ 53 \<le> (2::nat) ^ nat (- f64_pow y)"
      by (intro power_increasing) simp_all
    moreover have "f64_sig y < 2 ^ 53"
      using f64_man_less [of y] by (simp add: f64_sig_def)
    ultimately show ?thesis
      by linarith
  qed
  moreover have "f64_pow y \<le> 0"
    using e(1) by (simp add: f64_pow_def)
  ultimately have le: "scale_up (f64_sig y) (f64_pow y) \<le> ?den" and pos: "0 < ?den"
    by (auto simp: scale_up_def)
  have "2 * (scale_up (f64_sig y) (f64_pow y) * 10 ^ 6) + ?den \<le> 2 * (?den * 10 ^ 6) + ?den"
    using le by simp
  also have "\<dots> < (10 ^ 6 + 1) * (2 * ?den)"
    using pos by simp
  finally show ?thesis
    using pos unfolding fixed6_units_def Let_def by (simp add: less_Suc_eq_le [symmetric] div_less_iff_less_mult)
qed

lemma half_top_bits: "top_bit 5 = 2" "top_bit 10 = 3" "top_bit 500000 = 18" "top_bit 1000000 = 19"
  by (intro top_bit_unique; simp)+

lemma half_exponents: "ratio_exp 5 10 = - 1" "ratio_exp 500000 1000000 = - 1"
  by (simp_all add: ratio_exp_def half_top_bits scale_up_def)

lemma half_units: "dec 5 (- 1) = decimal_number 0 500000 (- 6)"
proof -
  have "round_div (scale_up 5 53) (scale_up 10 (- 53)) = round_div (scale_up 500000 53) (scale_up 1000000 (- 53))"
    by (simp add: round_div_def scale_up_def)
  moreover have "max ((- 1) - 52) (- 1074) = (- 53 :: int)"
    by simp
  ultimately have "f64_round 0 5 10 = f64_round 0 500000 1000000"
    unfolding f64_round_def half_exponents Let_def by (simp only: minus_minus) simp
  then show ?thesis
    by (simp add: dec_def decimal_number_def)
qed

text \<open>
  C32: The rating of a level is a multiple of a millionth from 0 to 1, and 0.5 when there are fewer than 5 votes, whatever the
  votes are.
\<close>

theorem vote_rating_range:
  "calculateVoteRating votes \<in> (\<lambda>n. decimal_number 0 n (- 6)) ` (if length votes < 5 then {500000} else {0..10 ^ 6})"
proof -
  have "fixed6_units (js_max 0 (js_min (js_of_nat 1) x)) \<le> 10 ^ 6" if "is_finite x" for x
  proof (rule fixed6_bound)
    let ?y = "js_max 0 (js_min (js_of_nat 1) x)"
    have z: "is_finite 0" "f64_key 0 \<le> f64_key (js_of_nat 1)"
      unfolding one_fields zero_fields by (simp_all add: is_finite_def f64_exp_def zero_fields)
    have "f64_key 0 \<le> f64_key ?y \<and> f64_key ?y \<le> f64_key (js_of_nat 1)"
      using clamp_between [OF z(1) one_fields(3) z(2), of x] that by (simp only: clamp_def if_True)
    then have "\<bar>f64_key ?y\<bar> \<le> 1023 * 2 ^ 52"
      by (simp only: zero_fields one_fields) simp
    moreover have "\<bar>f64_key ?y\<bar> = int (f64_mag ?y)"
      by (simp add: f64_key_def)
    ultimately show "f64_mag ?y \<le> 1023 * 2 ^ 52"
      by simp
  qed
  then show ?thesis
    unfolding calculateVoteRating_def Let_def minimum_vote_count_def default_vote_rating_def half_units to_fixed6_def
    by auto
qed

end
