(* ===== verification/Spec2Isabelle.thy ===== *)
theory Spec2Isabelle
  imports Wire_Properties Lidgren_Properties Server_Properties Query_Properties
    Level_Properties Level_Decimal Level_Csv_Properties Live_Properties Ghost_Properties Score_Properties
begin

text \<open>
  A verification library for zeepcentraal, the TypeScript services around the game Zeepkist: a client of the game's
  lobby servers, the readers of its level files and ghosts, the scores of levels and players and the GraphQL server with live
  queries. Every definition is translated from the sources under \<open>src/packages\<close>; names are those of the code.

  \<^bold>\<open>How the code is modelled.\<close> Objects and closures with state are records, their methods functions from state to
  state; what the code does to its environment (sockets, timers, callbacks, promises) is a list of
  outputs, what the environment does is an event, and a run is a fold of events, so a theorem about runs
  is about every interleaving. An \<open>await\<close> ends an event. What may throw is a sum with \<open>js_error\<close> on the left.
  JavaScript numbers are IEEE-754 patterns (\<open>Js_Number\<close>, \<open>Js_Arith\<close>), strings are lists of UTF-16 units
  (\<open>Js_String\<close>), integers have the width the code gives them, JSON is a datatype with parser and printer (\<open>Js_Json\<close>).
  \<open>Zeep_Prelude\<close> has what all parts share.

  \<^bold>\<open>The wire format\<close> (\<open>packages/core/src/zeepnet\<close>, \<open>binary.ts\<close>, \<open>levelPayload.ts\<close>, \<open>lobbyPackets.ts\<close>,
  \<open>gameServerPackets.ts\<close>). \<open>Bit_Reader\<close> and \<open>Bit_Writer\<close> are the two classes; \<open>Wire_Codec\<close> states their contract as a locale,
  instantiated for every typed value, and \<open>Wire_Values\<close> composes it; \<open>Wire_Varint\<close> has the variable-length integers.
  \<open>Level_Payload\<close>, \<open>Lobby_Packets\<close> and \<open>Game_Packets\<close> are the modules on top of them, over \<open>Wire_Packet\<close>;
  \<open>Packet_Ids\<close>, \<open>Game_Codec\<close> and \<open>Game_Players\<close> prove their lemmas, \<open>Wire_Properties\<close> the properties: round trips at any
  alignment, bounds on whatever bytes arrive, reads inside the data, distinct packet ids. The classes compute the
  byte of a bit position with a 32-bit shift (\<open>byte_index\<close>), which wraps at \<open>2 ^ 32\<close> bits: the round trips are for data below that.

  \<^bold>\<open>The Lidgren client\<close> (\<open>lidgrenClient.ts\<close>). \<open>Lidgren_Client\<close> has the state and the sending side, \<open>Lidgren_Receive\<close> the
  receiving side and the events. \<open>Lidgren_Contract\<close> is the locale of an invariant, \<open>Lidgren_Invariants\<close> interprets it;
  \<open>Lidgren_Ordering\<close> is the specification of in-order delivery that the receiver refines while arrivals are at most half the
  ten-bit sequence space away; \<open>Lidgren_Fragments\<close>, \<open>Lidgren_Closing\<close>
  and \<open>Lidgren_Framing\<close> treat fragments, shutting down and datagrams; \<open>Lidgren_Properties\<close> has the properties.

  \<^bold>\<open>Levels\<close> (\<open>packages/core/src/levels\<close>). \<open>Level_Metadata\<close> counts checkpoints and finishes, \<open>Level_Json\<close> reads and hashes JSON
  levels, \<open>Level_Legacy\<close> computes the hash of the old SDK, \<open>Level_Csv\<close> reads and hashes CSV levels and has the entry points.
  \<open>Level_Groups\<close> proves that the groups counted are connected components, \<open>Level_Canonical\<close> and \<open>Level_Properties\<close> that
  canonical texts read back and are equal exactly when the JSON values they denote are the same up to order, \<open>Level_Decimal\<close> that legacy numbers are exact
  roundings, \<open>Level_Csv_Properties\<close> that the order of blocks does not matter, \<open>Level_Types\<close> what the result types promise.

  \<^bold>\<open>Ghosts\<close> (\<open>packages/core/src/ghosts\<close>), the recordings of runs. \<open>Ghost_Types\<close> has types, limits and helpers,
  \<open>Ghost_Legacy\<close> the binary formats 1 to 4, \<open>Ghost_Protobuf\<close> the formats 5 to 8 on decoded messages, with a generator as the
  stream of its frames and its error; \<open>Ghost_Statistics\<close> is the loop over the frames, \<open>Ghost_Reference\<close> states its results
  as sums, counts and maxima, each by itself, and proves that the loop arrives at them. \<open>Ghost_Parser\<close> has the parsers of
  server and browser; \<open>Ghost_Properties\<close> proves that streamed statistics are those of the parsed ghost, where the frames of each
  format are in the data, and that the browser, which has an engine and an LZMA function of its own, agrees with the server when those do.

  \<^bold>\<open>Scores\<close> (\<open>packages/core/src/score\<close>). \<open>Score_Level\<close> has the points of a level, with the exclusion of anomalous leaders, and
  its eligibility, \<open>Score_Player\<close> the points of a player and the rating by votes, all in IEEE-754 doubles over the operations
  of \<open>Js_Ops\<close>, which also proves that a comparator \<open>a - b\<close> orders finite numbers as they are ordered. \<open>Score_Properties\<close> proves
  the range of the points and of a rating, that the order of personal bests does not matter, and the order of the ranking.

  \<^bold>\<open>The GraphQL server\<close> (\<open>packages/postgraphile/src\<close>). \<open>Query_Cost\<close> and \<open>Query_Evaluator\<close> are
  \<open>createQueryCostMiddleware.ts\<close>: classification, traversal budget, estimate and LRU cache; \<open>Query_Properties\<close> proves them.
  \<open>Admission\<close>, \<open>Readiness\<close> and \<open>Invalidation_Poller\<close> are the services of the same names, with their invariants; \<open>Server_Properties\<close>
  has the properties. \<open>Live_Protocol\<close> (\<open>liveQueryProtocol.ts\<close>, \<open>liveQueryOperation.ts\<close>, \<open>stableJson.ts\<close>), \<open>Live_Query\<close> and
  \<open>Live_Handlers\<close> (\<open>liveQueryWebSocket.ts\<close>) are live queries; the evaluator's answer is an event of them, the poller's
  \<open>invalidate\<close> another. Their state is large, so the invariant has four parts, each over a view of the state that the
  other operations keep: \<open>Live_Graph\<close> (who subscribes to what), \<open>Live_Limits\<close> (counters), \<open>Live_Schedule\<close> (queues
  and executions) and \<open>Live_Cache\<close> (cached results); \<open>Live_Invariant\<close> joins them, \<open>Live_Properties\<close> has the properties.

  \<^bold>\<open>Fuel and bounds.\<close> Loops are recursive functions with a measure (\<open>pumpQueue\<close>: the queued operations, \<open>flush_reliable_queue\<close>:
  the work left, \<open>lossy_scalars\<close>: the bytes). Where fuel is used it is enough: \<open>json_parse\<close> gets
  twice the length plus two, since each call consumes a unit or closes a bracket; \<open>release_withheld\<close> as many rounds as messages
  are withheld and \<open>make_room\<close> as entries are cached, since each round removes one; \<open>read_7bit_int\<close> the five rounds of the code.

  \<^bold>\<open>Parameters.\<close> Not in the repository and left open: gzip and gunzip, XXH128, SHA-1 and \<open>Bun.hash\<close>, LZMA (on the server and in the browser), the protobuf decoder, \<open>Math.log2\<close>, the
  trigonometric functions and roots of \<open>Math\<close>, the operator \<open>**\<close>,
  \<open>localeCompare\<close>, the longest string of the engine, the parser, validator and printer of GraphQL, the executor of a query and the
  database. A property that needs something of one has it as a hypothesis, with a witness that instantiates it.

  \<^bold>\<open>Not modelled.\<close> Wall-clock time (a timer is an event that may come at any moment), tracing and metrics except as outputs, the
  sanitising of disconnect reasons by regular expressions, SQL (\<open>packages/database\<close> and the invalidation store),
  the web application, generated code, configuration, and the Rust crates, which are another implementation. The manifest lists each part with its reason.
\<close>

end
